(* ===== verification/JsNumber.thy ===== *)
theory JsNumber
  imports Complex_Main
begin

text \<open>
  JavaScript numbers. Every quantity of the engine (scores, weights, confidences, prices)
  is an IEEE-754 double, so the model computes with doubles and not with exact rationals:
  a finite double is \<open>Fin q\<close> with \<open>q\<close> rational, every arithmetic operation computes the
  exact rational result and rounds it to the nearest double, ties to even (\<open>rnd\<close>), and
  the infinities and NaN follow ECMA-262. A decimal literal of the source is \<open>lit q\<close>,
  the double nearest to it. The sign of zero is not represented: no modelled expression
  divides by a zero or observes the sign of one.

  The facts the components use: rounding is monotone (\<open>rnd_mono\<close>), the identity on
  doubles (\<open>rnd_exact\<close>), odd (\<open>rnd_minus\<close>) and accurate to half a unit in the last place.
\<close>

section \<open>Values\<close>

datatype jsnum = Fin rat | PosInf | NegInf | NaN

fun is_fin :: "jsnum \<Rightarrow> bool" where
  "is_fin (Fin _) = True"
| "is_fin _ = False"

fun fin_val :: "jsnum \<Rightarrow> rat" where
  "fin_val (Fin q) = q"
| "fin_val _ = 0"

lemma is_fin_iff: "is_fin x \<longleftrightarrow> (\<exists>q. x = Fin q)"
  by (cases x) auto

lemma is_finE: "is_fin x \<Longrightarrow> (\<And>q. x = Fin q \<Longrightarrow> P) \<Longrightarrow> P"
  by (cases x) auto

section \<open>Binary logarithm and rounding to nearest even\<close>

fun flog2 :: "nat \<Rightarrow> nat" where
  "flog2 n = (if n < 2 then 0 else Suc (flog2 (n div 2)))"

declare flog2.simps [simp del]

lemma flog2_bounds: "0 < n \<Longrightarrow> 2 ^ flog2 n \<le> n \<and> n < 2 ^ Suc (flog2 n)"
proof (induction n rule: flog2.induct)
  case (1 n)
  show ?case
  proof (cases "n < 2")
    case True
    with "1.prems" show ?thesis by (simp add: flog2.simps [of n])
  next
    case False
    with "1.IH" have "2 ^ flog2 (n div 2) \<le> n div 2 \<and> n div 2 < 2 ^ Suc (flog2 (n div 2))"
      by simp
    with False show ?thesis by (auto simp: flog2.simps [of n])
  qed
qed

text \<open>\<open>rlog2 q\<close> is the exponent of the leading bit of a positive rational.\<close>

definition rlog2 :: "rat \<Rightarrow> int" where
  "rlog2 q =
     (let p = fst (quotient_of q); d = snd (quotient_of q);
          k = int (flog2 (nat p)) - int (flog2 (nat d))
      in if 2 powi k \<le> q then k else k - 1)"

lemma powi_of_nat: "(2::rat) powi int n = 2 ^ n"
  by (simp add: power_int_def)

lemma powi_pos [simp]: "0 < (2::rat) powi k"
  by (simp add: power_int_def)

lemma powi_Suc: "(2::rat) powi (k + 1) = 2 * 2 powi k"
  by (simp add: power_int_add)

lemma powi_mono: "a \<le> b \<Longrightarrow> (2::rat) powi a \<le> 2 powi b"
  by (rule power_int_increasing) auto

lemma powi_le_iff: "(2::rat) powi a \<le> 2 powi b \<longleftrightarrow> a \<le> b"
  using powi_mono [of a b] power_int_strict_increasing [of b a "2::rat"] by force

lemma powi_less_iff: "(2::rat) powi a < 2 powi b \<longleftrightarrow> a < b"
  using powi_le_iff [of b a] by linarith

lemma rlog2_bounds:
  assumes "0 < q"
  shows "2 powi rlog2 q \<le> q" and "q < 2 powi (rlog2 q + 1)"
proof -
  obtain p d where pd: "quotient_of q = (p, d)" by fastforce
  then have q: "q = of_int p / of_int d" and d: "0 < d"
    by (auto intro: quotient_of_div quotient_of_denom_pos)
  from assms q d have p: "0 < p" by (simp add: zero_less_divide_iff)
  define a where "a = flog2 (nat p)"
  define b where "b = flog2 (nat d)"
  have "2 ^ a \<le> nat p \<and> nat p < 2 ^ Suc a" "2 ^ b \<le> nat d \<and> nat d < 2 ^ Suc b"
    using flog2_bounds [of "nat p"] flog2_bounds [of "nat d"] p d by (auto simp: a_def b_def)
  then have "(2::int) ^ a \<le> p \<and> p < 2 ^ Suc a" "(2::int) ^ b \<le> d \<and> d < 2 ^ Suc b"
    using p d by (auto simp: nat_le_iff le_nat_iff nat_less_iff zless_nat_eq_int_zless)
  then have pa: "(2::rat) ^ a \<le> of_int p" "of_int p < (2::rat) ^ Suc a"
    and db: "(2::rat) ^ b \<le> of_int d" "of_int d < (2::rat) ^ Suc b"
    by (metis of_int_le_iff of_int_less_iff of_int_numeral of_int_power)+
  let ?k = "int a - int b"
  have k: "(2::rat) powi ?k = 2 ^ a / 2 ^ b"
    by (simp add: power_int_diff powi_of_nat)
  have up: "q < 2 powi (?k + 1)"
  proof -
    have "q \<le> of_int p / 2 ^ b"
      using db p d by (simp add: q frac_le)
    also have "\<dots> < 2 ^ Suc a / 2 ^ b"
      using pa by (simp add: divide_strict_right_mono)
    finally show ?thesis by (simp add: powi_Suc k)
  qed
  have lo: "2 powi (?k - 1) \<le> q"
  proof -
    have "(2::rat) powi (?k - 1) = 2 ^ a / 2 ^ Suc b"
      using powi_Suc [of "?k - 1"] k by simp
    also have "\<dots> \<le> of_int p / 2 ^ Suc b"
      using pa by (simp add: divide_right_mono)
    also have "\<dots> \<le> q"
      using db p d by (simp add: q frac_le)
    finally show ?thesis .
  qed
  have r: "rlog2 q = (if 2 powi ?k \<le> q then ?k else ?k - 1)"
    by (simp add: rlog2_def pd a_def b_def Let_def)
  show "2 powi rlog2 q \<le> q" using lo by (simp add: r)
  show "q < 2 powi (rlog2 q + 1)" using up by (auto simp: r)
qed

lemma rlog2_unique:
  assumes "2 powi k \<le> q" and "q < 2 powi (k + 1)"
  shows "rlog2 q = k"
proof -
  have "0 < q" using assms(1) powi_pos [of k] by linarith
  from rlog2_bounds [OF this] assms
  have "2 powi k < (2::rat) powi (rlog2 q + 1)" "2 powi rlog2 q < (2::rat) powi (k + 1)"
    by linarith+
  then show ?thesis by (simp add: powi_less_iff)
qed

lemma rlog2_mono:
  assumes "0 < x" and "x \<le> y"
  shows "rlog2 x \<le> rlog2 y"
proof -
  have "2 powi rlog2 x < (2::rat) powi (rlog2 y + 1)"
    using rlog2_bounds [of x] rlog2_bounds [of y] assms by linarith
  then show ?thesis by (simp add: powi_less_iff)
qed

definition round_even :: "rat \<Rightarrow> int" where
  "round_even y =
     (let f = \<lfloor>y\<rfloor>; d = y - of_int f
      in if d < 1/2 then f else if 1/2 < d then f + 1 else if even f then f else f + 1)"

lemma round_even_of_int [simp]: "round_even (of_int n) = n"
  by (simp add: round_even_def)

lemma round_even_error: "\<bar>of_int (round_even y) - y\<bar> \<le> 1/2"
proof -
  have "of_int \<lfloor>y\<rfloor> \<le> y" "y < of_int \<lfloor>y\<rfloor> + 1" by linarith+
  then show ?thesis by (auto simp: round_even_def Let_def)
qed

lemma round_even_bounds: "\<lfloor>y\<rfloor> \<le> round_even y \<and> round_even y \<le> \<lfloor>y\<rfloor> + 1"
  by (simp add: round_even_def Let_def)

lemma round_even_mono:
  assumes "x \<le> y"
  shows "round_even x \<le> round_even y"
proof (cases "\<lfloor>x\<rfloor> = \<lfloor>y\<rfloor>")
  case True
  with assms show ?thesis by (auto simp: round_even_def Let_def)
next
  case False
  with floor_mono [OF assms] have "\<lfloor>x\<rfloor> + 1 \<le> \<lfloor>y\<rfloor>" by linarith
  with round_even_bounds [of x] round_even_bounds [of y] show ?thesis by linarith
qed

text \<open>The exponent of the unit in the last place: 53 significant bits, or the subnormal unit.\<close>

definition ulp_exp :: "rat \<Rightarrow> int" where
  "ulp_exp q = max (rlog2 q - 52) (-1074)"

definition rnd_mag :: "rat \<Rightarrow> rat" where
  "rnd_mag q = (let u = 2 powi ulp_exp q in of_int (round_even (q / u)) * u)"

definition rnd :: "rat \<Rightarrow> jsnum" where
  "rnd q =
     (if q = 0 then Fin 0
      else let r = rnd_mag \<bar>q\<bar>
           in if r < 2 powi 1024 then Fin (sgn q * r) else if 0 < q then PosInf else NegInf)"

text \<open>A decimal literal of the source.\<close>

abbreviation lit :: "rat \<Rightarrow> jsnum" where
  "lit q \<equiv> rnd q"

lemma ulp_exp_mono: "0 < x \<Longrightarrow> x \<le> y \<Longrightarrow> ulp_exp x \<le> ulp_exp y"
  using rlog2_mono [of x y] by (simp add: ulp_exp_def)

lemma rnd_mag_nonneg: "0 < q \<Longrightarrow> 0 \<le> rnd_mag q"
proof -
  assume q: "0 < q"
  have "round_even (of_int 0) \<le> round_even (q / 2 powi ulp_exp q)"
    by (rule round_even_mono) (use q in \<open>simp add: less_imp_le\<close>)
  then have "0 \<le> round_even (q / 2 powi ulp_exp q)"
    by (simp only: round_even_of_int)
  then show ?thesis by (simp add: rnd_mag_def Let_def less_imp_le)
qed

lemma powi_multiple:
  assumes "u \<le> k"
  shows "(2::rat) powi k = of_int (2 ^ nat (k - u)) * 2 powi u"
proof -
  have "(2::rat) powi k = 2 powi (k - u) * 2 powi u"
    using power_int_add [of "2::rat" "k - u" u] by simp
  with assms show ?thesis by (simp add: power_int_def)
qed

text \<open>A power of two on the grid of its argument is a barrier rounding does not cross.\<close>

lemma rnd_mag_le_powi:
  assumes "0 < x" and "x \<le> 2 powi k" and "ulp_exp x \<le> k"
  shows "rnd_mag x \<le> 2 powi k"
proof -
  let ?u = "(2::rat) powi ulp_exp x"
  have k: "(2::rat) powi k / ?u = of_int (2 ^ nat (k - ulp_exp x))"
    using powi_multiple [OF assms(3)] by simp
  have "round_even (x / ?u) \<le> round_even (2 powi k / ?u)"
    by (rule round_even_mono) (use assms in \<open>simp add: divide_right_mono less_imp_le\<close>)
  also have "\<dots> = 2 ^ nat (k - ulp_exp x)"
    unfolding k by (rule round_even_of_int)
  finally have "(of_int (round_even (x / ?u)) :: rat) \<le> of_int (2 ^ nat (k - ulp_exp x))"
    by (simp only: of_int_le_iff)
  then have "of_int (round_even (x / ?u)) * ?u \<le> of_int (2 ^ nat (k - ulp_exp x)) * ?u"
    by (intro mult_right_mono) (auto simp: less_imp_le)
  then show ?thesis
    using powi_multiple [OF assms(3)] by (simp add: rnd_mag_def Let_def)
qed

lemma rnd_mag_ge_powi:
  assumes "2 powi k \<le> x" and "ulp_exp x \<le> k"
  shows "2 powi k \<le> rnd_mag x"
proof -
  let ?u = "(2::rat) powi ulp_exp x"
  have k: "(2::rat) powi k / ?u = of_int (2 ^ nat (k - ulp_exp x))"
    using powi_multiple [OF assms(2)] by simp
  have "2 ^ nat (k - ulp_exp x) = round_even (2 powi k / ?u)"
    unfolding k by (rule round_even_of_int [symmetric])
  also have "\<dots> \<le> round_even (x / ?u)"
    by (rule round_even_mono) (use assms in \<open>simp add: divide_right_mono less_imp_le\<close>)
  finally have "(of_int (2 ^ nat (k - ulp_exp x)) :: rat) \<le> of_int (round_even (x / ?u))"
    by (simp only: of_int_le_iff)
  then have "of_int (2 ^ nat (k - ulp_exp x)) * ?u \<le> of_int (round_even (x / ?u)) * ?u"
    by (intro mult_right_mono) (auto simp: less_imp_le)
  then show ?thesis
    using powi_multiple [OF assms(2)] by (simp add: rnd_mag_def Let_def)
qed

lemma rnd_mag_mono:
  assumes "0 < x" and "x \<le> y"
  shows "rnd_mag x \<le> rnd_mag y"
proof (cases "ulp_exp x = ulp_exp y")
  case True
  let ?u = "(2::rat) powi ulp_exp y"
  have "round_even (x / ?u) \<le> round_even (y / ?u)"
    by (rule round_even_mono) (use assms in \<open>simp add: divide_right_mono less_imp_le\<close>)
  then show ?thesis
    using True by (simp add: rnd_mag_def Let_def)
next
  case False
  with ulp_exp_mono [OF assms] have lt: "ulp_exp x < ulp_exp y" by simp
  let ?k = "rlog2 y"
  from lt have ky: "ulp_exp y = ?k - 52" and xk: "rlog2 x < ?k"
    by (auto simp: ulp_exp_def)
  have "x < 2 powi (rlog2 x + 1)" by (rule rlog2_bounds) fact
  also have "\<dots> \<le> 2 powi ?k" using xk by (simp add: powi_le_iff)
  finally have "rnd_mag x \<le> 2 powi ?k"
    using lt ky assms by (intro rnd_mag_le_powi) auto
  also have "2 powi ?k \<le> rnd_mag y"
    using assms rlog2_bounds(1) [of y] ky by (intro rnd_mag_ge_powi) auto
  finally show ?thesis .
qed

section \<open>The order of numbers\<close>

text \<open>
  \<open><\<close> and \<open>\<le>\<close> on \<open>jsnum\<close> are the source's operators: false as soon as a side is NaN.
\<close>

instantiation jsnum :: ord
begin

fun less_eq_jsnum :: "jsnum \<Rightarrow> jsnum \<Rightarrow> bool" where
  "less_eq_jsnum (Fin a) (Fin b) = (a \<le> b)"
| "less_eq_jsnum NaN _ = False"
| "less_eq_jsnum _ NaN = False"
| "less_eq_jsnum NegInf _ = True"
| "less_eq_jsnum _ PosInf = True"
| "less_eq_jsnum _ _ = False"

fun less_jsnum :: "jsnum \<Rightarrow> jsnum \<Rightarrow> bool" where
  "less_jsnum (Fin a) (Fin b) = (a < b)"
| "less_jsnum NaN _ = False"
| "less_jsnum _ NaN = False"
| "less_jsnum NegInf b = (b \<noteq> NegInf)"
| "less_jsnum a PosInf = (a \<noteq> PosInf)"
| "less_jsnum _ _ = False"

instance ..

end

lemma jsnum_le_refl [simp]: "x \<le> x \<longleftrightarrow> x \<noteq> (NaN::jsnum)"
  by (cases x) auto

lemma jsnum_le_trans [trans]: "x \<le> y \<Longrightarrow> y \<le> z \<Longrightarrow> x \<le> (z::jsnum)"
  by (cases x; cases y; cases z) auto

lemma jsnum_less_le: "x < y \<longleftrightarrow> x \<le> y \<and> \<not> y \<le> (x::jsnum)"
  by (cases x; cases y) auto

lemma jsnum_not_le: "x \<noteq> NaN \<Longrightarrow> y \<noteq> NaN \<Longrightarrow> \<not> x \<le> y \<longleftrightarrow> y < (x::jsnum)"
  by (cases x; cases y) auto

lemma jsnum_not_less: "x \<noteq> NaN \<Longrightarrow> y \<noteq> NaN \<Longrightarrow> \<not> x < y \<longleftrightarrow> y \<le> (x::jsnum)"
  by (cases x; cases y) auto

lemma jsnum_le_less_trans [trans]: "x \<le> y \<Longrightarrow> y < z \<Longrightarrow> x < (z::jsnum)"
  by (cases x; cases y; cases z) auto

lemma jsnum_less_le_trans [trans]: "x < y \<Longrightarrow> y \<le> z \<Longrightarrow> x < (z::jsnum)"
  by (cases x; cases y; cases z) auto

lemma jsnum_le_PosInf [simp]: "x \<le> PosInf \<longleftrightarrow> x \<noteq> NaN"
  by (cases x) auto

lemma jsnum_NegInf_le [simp]: "NegInf \<le> x \<longleftrightarrow> x \<noteq> NaN"
  by (cases x) auto

lemma jsnum_NaN_le [simp]: "\<not> NaN \<le> x" "\<not> x \<le> NaN" "\<not> NaN < x" "\<not> x < NaN"
  by (cases x; simp)+

lemma jsnum_le_Fin_cases: "Fin a \<le> x \<longleftrightarrow> (\<exists>q. x = Fin q \<and> a \<le> q) \<or> x = PosInf"
  by (cases x) auto

lemma jsnum_Fin_le_cases: "x \<le> Fin b \<longleftrightarrow> (\<exists>q. x = Fin q \<and> q \<le> b) \<or> x = NegInf"
  by (cases x) auto

lemma jsnum_between_Fin:
  "Fin a \<le> x \<Longrightarrow> x \<le> Fin b \<Longrightarrow> \<exists>q. x = Fin q \<and> a \<le> q \<and> q \<le> b"
  by (cases x) auto

section \<open>Facts about rounding\<close>

lemma rnd_0 [simp]: "rnd 0 = Fin 0"
  by (simp add: rnd_def)

fun js_neg :: "jsnum \<Rightarrow> jsnum" where
  "js_neg (Fin q) = Fin (- q)"
| "js_neg PosInf = NegInf"
| "js_neg NegInf = PosInf"
| "js_neg NaN = NaN"

lemma js_neg_neg [simp]: "js_neg (js_neg x) = x"
  by (cases x) auto

lemma js_neg_le: "js_neg x \<le> js_neg y \<longleftrightarrow> y \<le> x"
  by (cases x; cases y) auto

lemma js_neg_less: "js_neg x < js_neg y \<longleftrightarrow> y < x"
  by (cases x; cases y) auto

lemma rnd_minus: "rnd (- q) = js_neg (rnd q)"
  by (auto simp: rnd_def Let_def sgn_if)

lemma rnd_not_NaN [simp]: "rnd q \<noteq> NaN" "NaN \<noteq> rnd q"
  by (auto simp: rnd_def Let_def)

lemma rnd_pos_form: "0 < q \<Longrightarrow> rnd q = (if rnd_mag q < 2 powi 1024 then Fin (rnd_mag q) else PosInf)"
  by (simp add: rnd_def Let_def)

lemma rnd_mono_pos:
  assumes "0 < x" and "x \<le> y"
  shows "rnd x \<le> rnd y"
  using rnd_mag_mono [OF assms] assms by (auto simp: rnd_pos_form)

lemma rnd_pos_ge: "0 < x \<Longrightarrow> Fin 0 \<le> rnd x"
  using rnd_mag_nonneg [of x] by (simp add: rnd_pos_form)

theorem rnd_mono: "x \<le> y \<Longrightarrow> rnd x \<le> rnd y"
proof (cases "0 < x")
  case True
  then show "x \<le> y \<Longrightarrow> ?thesis" by (rule rnd_mono_pos)
next
  case x: False
  assume xy: "x \<le> y"
  show ?thesis
  proof (cases "y < 0")
    case True
    with xy have "rnd (- y) \<le> rnd (- x)" by (intro rnd_mono_pos) auto
    then show ?thesis by (simp add: rnd_minus js_neg_le)
  next
    case False
    have lo: "rnd x \<le> Fin 0"
    proof (cases "x = 0")
      case False
      with x rnd_pos_ge [of "- x"] have "Fin 0 \<le> js_neg (rnd x)" by (simp add: rnd_minus)
      then show ?thesis by (cases "rnd x") auto
    qed simp
    have "Fin 0 \<le> rnd y"
      using False rnd_pos_ge [of y] by (cases "y = 0") auto
    with lo show ?thesis by (rule jsnum_le_trans)
  qed
qed

text \<open>
  A rational is a double when it is an integer of at most 53 bits times a power of two
  that is not below the subnormal unit, and does not overflow.
\<close>

definition double :: "rat \<Rightarrow> bool" where
  "double q \<longleftrightarrow>
     (\<exists>m e. q = of_int m * 2 powi e \<and> \<bar>m\<bar> \<le> 2 ^ 53 \<and> -1074 \<le> e \<and> \<bar>q\<bar> < 2 powi 1024)"

lemma double_minus [simp]: "double (- q) \<longleftrightarrow> double q"
proof -
  have "double (- q)" if d: "double q" for q
  proof -
    from d obtain m e where "q = of_int m * 2 powi e" "\<bar>m\<bar> \<le> 2 ^ 53" "-1074 \<le> e" "\<bar>q\<bar> < 2 powi 1024"
      by (auto simp: double_def)
    then show ?thesis unfolding double_def by (intro exI [of _ "- m"] exI [of _ e]) simp
  qed
  from this [of q] this [of "- q"] show ?thesis by auto
qed

lemma rnd_mag_exact:
  assumes "0 < q" and q: "q = of_int m * 2 powi e" and m: "m \<le> 2 ^ 53" and e: "-1074 \<le> e"
  shows "rnd_mag q = q"
proof -
  have u: "ulp_exp q \<le> e \<or> m = 2 ^ 53"
  proof (rule disjCI)
    assume "m \<noteq> 2 ^ 53"
    with m have "m < 2 ^ 53" by simp
    then have "(of_int m :: rat) < 2 ^ 53" by (metis of_int_less_iff of_int_numeral of_int_power)
    then have "q < 2 ^ 53 * 2 powi e" by (simp add: q mult_strict_right_mono)
    also have "\<dots> = 2 powi (e + 53)" by (simp add: power_int_add powi_of_nat [of 53, simplified])
    finally have "2 powi rlog2 q < (2::rat) powi (e + 53)"
      using rlog2_bounds(1) [OF assms(1)] by linarith
    then have "rlog2 q \<le> e + 52" by (simp add: powi_less_iff)
    with e show "ulp_exp q \<le> e" by (simp add: ulp_exp_def)
  qed
  show ?thesis
  proof (cases "m = 2 ^ 53")
    case True
    then have q2: "q = 2 powi (e + 53)"
      by (simp add: q power_int_add powi_of_nat [of 53, simplified])
    then have "rlog2 q = e + 53"
      by (intro rlog2_unique) (auto simp: powi_less_iff)
    with e have "ulp_exp q \<le> e + 53" by (simp add: ulp_exp_def)
    then show ?thesis
      using rnd_mag_le_powi [of q "e + 53"] rnd_mag_ge_powi [of "e + 53" q] assms(1) q2
      by simp
  next
    case False
    with u have ue: "ulp_exp q \<le> e" by simp
    let ?m = "m * 2 ^ nat (e - ulp_exp q)"
    have grid: "q = of_int ?m * 2 powi ulp_exp q"
      using powi_multiple [OF ue] q by simp
    then have "q / 2 powi ulp_exp q = of_int ?m"
      by (metis nonzero_mult_div_cancel_right powi_pos less_irrefl)
    then show ?thesis
      by (simp only: rnd_mag_def Let_def round_even_of_int grid [symmetric])
  qed
qed

theorem rnd_exact: "double q \<Longrightarrow> rnd q = Fin q"
proof -
  have pos: "rnd q = Fin q" if "double q" "0 < q" for q
    using that rnd_mag_exact [of q] by (auto simp: double_def rnd_pos_form)
  assume d: "double q"
  consider "0 < q" | "q = 0" | "0 < - q" by linarith
  then show ?thesis
  proof cases
    case 3
    with d pos [of "- q"] have "js_neg (rnd q) = Fin (- q)" by (simp add: rnd_minus)
    then show ?thesis by (cases "rnd q") auto
  qed (use d pos in auto)
qed

lemma double_of_int: "\<bar>n\<bar> \<le> 2 ^ 53 \<Longrightarrow> double (of_int n)"
proof -
  assume n: "\<bar>n\<bar> \<le> 2 ^ 53"
  then have "(of_int \<bar>n\<bar> :: rat) \<le> 2 ^ 53"
    by (metis of_int_le_iff of_int_numeral of_int_power)
  also have "(2::rat) ^ 53 < 2 powi 1024"
    using powi_less_iff [of 53 1024] powi_of_nat [of 53] by simp
  finally have "\<bar>of_int n :: rat\<bar> < 2 powi 1024" by simp
  with n show ?thesis unfolding double_def by (intro exI [of _ n] exI [of _ 0]) auto
qed

lemma double_dyadic: "\<bar>m\<bar> \<le> 2 ^ 53 \<Longrightarrow> k \<le> 1074 \<Longrightarrow> double (of_int m / 2 ^ k)"
proof -
  assume m: "\<bar>m\<bar> \<le> 2 ^ 53" and k: "k \<le> 1074"
  have eq: "(of_int m / 2 ^ k :: rat) = of_int m * 2 powi (- int k)"
    by (simp add: power_int_minus powi_of_nat divide_inverse)
  have "\<bar>of_int m / 2 ^ k :: rat\<bar> \<le> \<bar>of_int m\<bar>"
    by (simp add: divide_le_eq mult_le_cancel_left1 abs_le_iff)
  also have "\<dots> < 2 powi 1024" using double_of_int [OF m] by (auto simp: double_def)
  finally show ?thesis unfolding double_def using m k eq by (intro exI [of _ m] exI [of _ "- int k"]) auto
qed

lemma rnd_of_int: "\<bar>n\<bar> \<le> 2 ^ 53 \<Longrightarrow> rnd (of_int n) = Fin (of_int n)"
  by (rule rnd_exact [OF double_of_int])

lemma rnd_numeral: "numeral k \<le> (2::int) ^ 53 \<Longrightarrow> rnd (numeral k) = Fin (numeral k)"
  using rnd_of_int [of "numeral k"] by simp

lemma rnd_1 [simp]: "rnd 1 = Fin 1"
  using rnd_of_int [of 1] by simp

lemma rnd_le_double: "double b \<Longrightarrow> x \<le> b \<Longrightarrow> rnd x \<le> Fin b"
  using rnd_mono [of x b] rnd_exact [of b] by simp

lemma rnd_ge_double: "double a \<Longrightarrow> a \<le> x \<Longrightarrow> Fin a \<le> rnd x"
  using rnd_mono [of a x] rnd_exact [of a] by simp

lemma rnd_between:
  "double a \<Longrightarrow> double b \<Longrightarrow> a \<le> x \<Longrightarrow> x \<le> b \<Longrightarrow> \<exists>q. rnd x = Fin q \<and> a \<le> q \<and> q \<le> b"
  using rnd_ge_double [of a x] rnd_le_double [of b x] by (blast intro: jsnum_between_Fin)

lemma rnd_nonneg: "0 \<le> x \<Longrightarrow> Fin 0 \<le> rnd x"
  using rnd_mono [of 0 x] by simp

lemma rnd_nonpos: "x \<le> 0 \<Longrightarrow> rnd x \<le> Fin 0"
  using rnd_mono [of x 0] by simp

section \<open>Arithmetic and Math\<close>

instantiation jsnum :: "{plus, minus, times, uminus}"
begin

fun plus_jsnum :: "jsnum \<Rightarrow> jsnum \<Rightarrow> jsnum" where
  "plus_jsnum (Fin a) (Fin b) = rnd (a + b)"
| "plus_jsnum NaN _ = NaN"
| "plus_jsnum _ NaN = NaN"
| "plus_jsnum PosInf NegInf = NaN"
| "plus_jsnum NegInf PosInf = NaN"
| "plus_jsnum PosInf _ = PosInf"
| "plus_jsnum _ PosInf = PosInf"
| "plus_jsnum _ _ = NegInf"

definition uminus_jsnum :: "jsnum \<Rightarrow> jsnum" where
  "uminus_jsnum = js_neg"

definition minus_jsnum :: "jsnum \<Rightarrow> jsnum \<Rightarrow> jsnum" where
  "minus_jsnum a b = a + js_neg b"

fun js_signed_inf :: "rat \<Rightarrow> jsnum" where
  "js_signed_inf q = (if q = 0 then NaN else if 0 < q then PosInf else NegInf)"

fun times_jsnum :: "jsnum \<Rightarrow> jsnum \<Rightarrow> jsnum" where
  "times_jsnum (Fin a) (Fin b) = rnd (a * b)"
| "times_jsnum NaN _ = NaN"
| "times_jsnum _ NaN = NaN"
| "times_jsnum (Fin a) PosInf = js_signed_inf a"
| "times_jsnum PosInf (Fin b) = js_signed_inf b"
| "times_jsnum (Fin a) NegInf = js_signed_inf (- a)"
| "times_jsnum NegInf (Fin b) = js_signed_inf (- b)"
| "times_jsnum PosInf b = b"
| "times_jsnum NegInf b = js_neg b"

instance ..

end

lemma minus_Fin [simp]: "Fin a - Fin b = rnd (a - b)"
  by (simp add: minus_jsnum_def)

lemma uminus_Fin [simp]: "- Fin a = Fin (- a)"
  by (simp add: uminus_jsnum_def)

text \<open>Division. A zero divisor is read as the positive zero.\<close>

fun js_div :: "jsnum \<Rightarrow> jsnum \<Rightarrow> jsnum" where
  "js_div (Fin a) (Fin b) = (if b = 0 then js_signed_inf a else rnd (a / b))"
| "js_div NaN _ = NaN"
| "js_div _ NaN = NaN"
| "js_div (Fin _) _ = Fin 0"
| "js_div PosInf (Fin b) = (if b < 0 then NegInf else PosInf)"
| "js_div NegInf (Fin b) = (if b < 0 then PosInf else NegInf)"
| "js_div _ _ = NaN"

text \<open>The strict equality \<open>===\<close> of numbers: NaN differs from itself.\<close>

definition num_eq :: "jsnum \<Rightarrow> jsnum \<Rightarrow> bool" where
  "num_eq a b \<longleftrightarrow> a \<noteq> NaN \<and> a = b"

definition js_min :: "jsnum \<Rightarrow> jsnum \<Rightarrow> jsnum" where
  "js_min a b = (if a = NaN \<or> b = NaN then NaN else if a \<le> b then a else b)"

definition js_max :: "jsnum \<Rightarrow> jsnum \<Rightarrow> jsnum" where
  "js_max a b = (if a = NaN \<or> b = NaN then NaN else if a \<le> b then b else a)"

fun js_floor :: "jsnum \<Rightarrow> jsnum" where
  "js_floor (Fin q) = Fin (of_int \<lfloor>q\<rfloor>)"
| "js_floor x = x"

definition js_ceil :: "jsnum \<Rightarrow> jsnum" where
  "js_ceil v = js_neg (js_floor (js_neg v))"

text \<open>\<open>Math.round\<close>: the nearest integer, ties towards plus infinity.\<close>

fun js_round :: "jsnum \<Rightarrow> jsnum" where
  "js_round (Fin q) = Fin (of_int \<lfloor>q + 1/2\<rfloor>)"
| "js_round x = x"

fun js_abs :: "jsnum \<Rightarrow> jsnum" where
  "js_abs (Fin q) = Fin \<bar>q\<bar>"
| "js_abs NaN = NaN"
| "js_abs _ = PosInf"

fun js_is_integer :: "jsnum \<Rightarrow> bool" where
  "js_is_integer (Fin q) = (q = of_int \<lfloor>q\<rfloor>)"
| "js_is_integer _ = False"

text \<open>\<open>a || b\<close> on numbers: the right side where the left is zero or NaN.\<close>

definition js_or :: "jsnum \<Rightarrow> jsnum \<Rightarrow> jsnum" where
  "js_or a b = (if a = NaN \<or> a = Fin 0 then b else a)"

text \<open>\<open>xs.reduce((total, x) => total + x, 0)\<close>.\<close>

definition js_sum :: "jsnum list \<Rightarrow> jsnum" where
  "js_sum xs = foldl (+) (Fin 0) xs"

section \<open>Monotonicity of the operations\<close>

lemma jsnum_add_mono: "a \<le> b \<Longrightarrow> c \<le> d \<Longrightarrow> a + c \<noteq> NaN \<Longrightarrow> b + d \<noteq> NaN \<Longrightarrow> a + c \<le> b + (d::jsnum)"
  using rnd_mono [of "fin_val a + fin_val c" "fin_val b + fin_val d"]
  by (cases a; cases b; cases c; cases d) (auto intro: rnd_mono)

lemma times_Fin_mono: "a \<le> b \<Longrightarrow> 0 < c \<Longrightarrow> a * Fin c \<le> b * Fin c"
  by (cases a; cases b) (auto intro: rnd_mono)

lemma div_Fin_mono: "a \<le> b \<Longrightarrow> 0 < c \<Longrightarrow> js_div a (Fin c) \<le> js_div b (Fin c)"
  by (cases a; cases b) (auto intro!: rnd_mono divide_right_mono)

lemma js_floor_mono: "a \<le> b \<Longrightarrow> js_floor a \<le> js_floor b"
  by (cases a; cases b) (auto intro: floor_mono)

lemma js_round_mono: "a \<le> b \<Longrightarrow> js_round a \<le> js_round b"
  by (cases a; cases b) (auto intro: floor_mono)

lemma js_round_not_NaN [simp]: "js_round x = NaN \<longleftrightarrow> x = NaN"
  by (cases x) auto

lemma js_round_of_int [simp]: "js_round (Fin (of_int n)) = Fin (of_int n)"
proof -
  have "\<lfloor>of_int n + (1/2::rat)\<rfloor> = n" by linarith
  then show ?thesis by simp
qed

lemma js_max_ge: "a \<noteq> NaN \<Longrightarrow> b \<noteq> NaN \<Longrightarrow> a \<le> js_max a b \<and> b \<le> js_max a b"
  by (cases a; cases b) (auto simp: js_max_def)

lemma js_min_le: "a \<noteq> NaN \<Longrightarrow> b \<noteq> NaN \<Longrightarrow> js_min a b \<le> a \<and> js_min a b \<le> b"
  by (cases a; cases b) (auto simp: js_min_def)

lemma js_max_not_NaN [simp]: "js_max a b = NaN \<longleftrightarrow> a = NaN \<or> b = NaN"
  by (auto simp: js_max_def)

lemma js_min_not_NaN [simp]: "js_min a b = NaN \<longleftrightarrow> a = NaN \<or> b = NaN"
  by (auto simp: js_min_def)

section \<open>Rounding errors\<close>

text \<open>
  Every double lies on the grid of multiples of the least subnormal, and on the grid the
  error of one rounding is at most \<open>2 ^ -53\<close> of the exact result, with no absolute term.
\<close>

definition on_grid :: "rat \<Rightarrow> bool" where
  "on_grid q \<longleftrightarrow> (\<exists>n::int. q = of_int n * 2 powi (-1074))"

abbreviation eps :: rat where
  "eps \<equiv> 1 / 9007199254740992"

lemma on_grid_add: "on_grid a \<Longrightarrow> on_grid b \<Longrightarrow> on_grid (a + b)"
  unfolding on_grid_def by (metis distrib_right of_int_add)

lemma on_grid_int_mult: "on_grid a \<Longrightarrow> on_grid (of_int k * a)"
  unfolding on_grid_def by (metis mult.assoc of_int_mult)

lemma on_grid_0 [simp]: "on_grid 0"
  unfolding on_grid_def by (intro exI [of _ 0]) simp

lemma rnd_mag_on_grid: "on_grid (rnd_mag q)"
proof -
  have "-1074 \<le> ulp_exp q" by (simp add: ulp_exp_def)
  then have "rnd_mag q = of_int (round_even (q / 2 powi ulp_exp q) * 2 ^ nat (ulp_exp q + 1074)) * 2 powi (-1074)"
    using powi_multiple [of "-1074" "ulp_exp q"] by (simp add: rnd_mag_def Let_def)
  then show ?thesis unfolding on_grid_def by blast
qed

lemma rnd_on_grid: "rnd q = Fin r \<Longrightarrow> on_grid r"
proof -
  assume r: "rnd q = Fin r"
  show ?thesis
  proof (cases "q = 0")
    case False
    with r have "r = of_int (if 0 < q then 1 else -1) * rnd_mag \<bar>q\<bar>"
      by (auto simp: rnd_def Let_def sgn_if split: if_splits)
    then show ?thesis using on_grid_int_mult [OF rnd_mag_on_grid] by metis
  qed (use r in auto)
qed

lemma rnd_mag_error: "\<bar>rnd_mag q - q\<bar> \<le> 2 powi ulp_exp q / 2"
proof -
  let ?u = "(2::rat) powi ulp_exp q"
  have "rnd_mag q - q = (of_int (round_even (q / ?u)) - q / ?u) * ?u"
    by (simp add: rnd_mag_def Let_def left_diff_distrib)
  then have "\<bar>rnd_mag q - q\<bar> = \<bar>of_int (round_even (q / ?u)) - q / ?u\<bar> * ?u"
    by (simp add: abs_mult less_imp_le)
  also have "\<dots> \<le> 1/2 * ?u"
    by (rule mult_right_mono [OF round_even_error]) (simp add: less_imp_le)
  finally show ?thesis by simp
qed

lemma rnd_mag_rel_error:
  assumes q: "0 < q" and g: "on_grid q"
  shows "\<bar>rnd_mag q - q\<bar> \<le> q * eps"
proof (cases "-1074 \<le> rlog2 q - 52")
  case True
  then have u: "ulp_exp q = rlog2 q - 52" by (simp add: ulp_exp_def)
  have "(2::rat) powi rlog2 q = 2 powi (rlog2 q - 52) * 2 powi 52"
    using power_int_add [of "2::rat" "rlog2 q - 52" 52] by simp
  also have "(2::rat) powi 52 = 4503599627370496"
    using powi_of_nat [of 52] by simp
  finally have "2 powi (rlog2 q - 52) * 4503599627370496 \<le> q"
    using rlog2_bounds(1) [OF q] by simp
  with rnd_mag_error [of q] u show ?thesis by simp
next
  case False
  then have u: "ulp_exp q = -1074" by (simp add: ulp_exp_def)
  from g obtain n where "q = of_int n * 2 powi (-1074)" by (auto simp: on_grid_def)
  then have "q / 2 powi (-1074) = of_int n" by simp
  then have "rnd_mag q = q"
    using u by (simp only: rnd_mag_def Let_def round_even_of_int) (metis \<open>q = of_int n * 2 powi (-1074)\<close>)
  with q show ?thesis by simp
qed

lemma rnd_rel_error:
  assumes "0 \<le> q" and "on_grid q" and r: "rnd q = Fin r"
  shows "\<bar>r - q\<bar> \<le> q * eps"
proof (cases "q = 0")
  case True
  with r show ?thesis by simp
next
  case False
  with assms(1) have q: "0 < q" by simp
  with r have "r = rnd_mag q" by (metis jsnum.distinct(1) jsnum.inject rnd_pos_form)
  with rnd_mag_rel_error [OF q assms(2)] show ?thesis by simp
qed

lemma rnd_upper: "0 \<le> q \<Longrightarrow> on_grid q \<Longrightarrow> rnd q = Fin r \<Longrightarrow> r \<le> q * (1 + eps)"
  by (drule (2) rnd_rel_error) (simp only: distrib_left mult_1_right abs_le_iff, linarith)

lemma rnd_lower: "0 \<le> q \<Longrightarrow> on_grid q \<Longrightarrow> rnd q = Fin r \<Longrightarrow> q * (1 - eps) \<le> r"
  by (drule (2) rnd_rel_error) (simp only: right_diff_distrib mult_1_right abs_le_iff, linarith)

lemma double_on_grid: "double q \<Longrightarrow> on_grid q"
  using rnd_exact rnd_on_grid by blast

lemma on_grid_of_int [simp]: "on_grid (of_int n)"
proof -
  have "on_grid 1" using double_on_grid [OF double_of_int [of 1]] by simp
  from on_grid_int_mult [OF this, of n] show ?thesis by simp
qed

lemma on_grid_1 [simp]: "on_grid 1"
  using on_grid_of_int [of 1] by simp

lemma on_grid_numeral [simp]: "on_grid (numeral k)"
  using on_grid_of_int [of "numeral k"] by simp

lemma on_grid_half [simp]: "on_grid (1 / 2)"
  using double_on_grid [OF double_dyadic [of 1 1]] by simp

section \<open>Evaluation\<close>

text \<open>Code equations over binary integers, with which \<open>code_simp\<close> evaluates rounding.\<close>

fun ilog2 :: "int \<Rightarrow> int" where
  "ilog2 n = (if n < 2 then 0 else 1 + ilog2 (n div 2))"

declare ilog2.simps [simp del]

lemma ilog2_flog2: "ilog2 n = int (flog2 (nat n))"
proof (induction n rule: ilog2.induct)
  case (1 n)
  show ?case
  proof (cases "n < 2")
    case True
    then show ?thesis by (simp add: ilog2.simps [of n] flog2.simps [of "nat n"])
  next
    case False
    with 1 show ?thesis
      by (simp add: ilog2.simps [of n] flog2.simps [of "nat n"] nat_div_distrib)
  qed
qed

fun ipow2 :: "int \<Rightarrow> int" where
  "ipow2 k = (if k \<le> 0 then 1 else 2 * ipow2 (k - 1))"

declare ipow2.simps [simp del]

lemma ipow2_power: "0 \<le> k \<Longrightarrow> ipow2 k = 2 ^ nat k"
proof (induction k rule: ipow2.induct)
  case (1 k)
  show ?case
  proof (cases "k \<le> 0")
    case True
    with "1.prems" show ?thesis by (simp add: ipow2.simps [of 0])
  next
    case False
    then have "nat k = Suc (nat (k - 1))" by simp
    with 1 False show ?thesis by (simp add: ipow2.simps [of k])
  qed
qed

definition pow2 :: "int \<Rightarrow> rat" where
  "pow2 k = (if 0 \<le> k then of_int (ipow2 k) else 1 / of_int (ipow2 (- k)))"

lemma pow2_powi: "pow2 k = 2 powi k"
proof (cases "0 \<le> k")
  case True
  then show ?thesis by (simp add: pow2_def ipow2_power power_int_def)
next
  case False
  then have "pow2 k = 1 / 2 ^ nat (- k)" by (simp add: pow2_def ipow2_power)
  also have "\<dots> = inverse 2 ^ nat (- k)" by (simp only: power_one_over inverse_eq_divide)
  also have "\<dots> = 2 powi k" using False by (simp only: power_int_def if_False)
  finally show ?thesis .
qed

lemma rlog2_code [code]:
  "rlog2 q =
     (let p = fst (quotient_of q); d = snd (quotient_of q); k = ilog2 p - ilog2 d
      in if pow2 k \<le> q then k else k - 1)"
  by (simp add: rlog2_def ilog2_flog2 pow2_powi Let_def)

lemma rnd_mag_code:
  "rnd_mag q = (let u = pow2 (ulp_exp q) in of_int (round_even (q / u)) * u)"
  by (simp add: rnd_mag_def pow2_powi)

lemma rnd_code:
  "rnd q =
     (if q = 0 then Fin 0
      else let r = rnd_mag \<bar>q\<bar>
           in if r < 18446744073709551616 \<or> r < pow2 1024 then Fin (sgn q * r)
              else if 0 < q then PosInf else NegInf)"
proof -
  have "2 powi 64 < (2::rat) powi 1024" by (simp only: powi_less_iff)
  moreover have "(2::rat) powi 64 = 18446744073709551616" by (simp add: power_int_def)
  ultimately have "r < 18446744073709551616 \<or> r < (2::rat) powi 1024 \<longleftrightarrow> r < 2 powi 1024" for r
    by (metis less_trans)
  then show ?thesis by (simp only: rnd_def pow2_powi Let_def)
qed

text \<open>All of rounding on the numerator and denominator, computed once.\<close>

definition iround :: "int \<Rightarrow> int \<Rightarrow> int" where
  "iround n m =
     (let q = n div m; r = n mod m
      in if 2 * r < m then q else if m < 2 * r then q + 1 else if even q then q else q + 1)"

lemma round_even_iround:
  assumes "0 < m"
  shows "round_even (of_int n / of_int m) = iround n m"
proof -
  have "of_int n / of_int m - of_int (n div m) = (of_int (n - m * (n div m)) / of_int m :: rat)"
    using assms by (simp add: field_simps)
  also have "n - m * (n div m) = n mod m" by (simp add: minus_mult_div_eq_mod)
  finally have d: "of_int n / of_int m - of_int (n div m) = (of_int (n mod m) / of_int m :: rat)" .
  have c: "(of_int (n mod m) / of_int m :: rat) < 1/2 \<longleftrightarrow> 2 * (n mod m) < m"
    "(1/2 :: rat) < of_int (n mod m) / of_int m \<longleftrightarrow> m < 2 * (n mod m)"
  proof -
    have "(of_int (n mod m) / of_int m :: rat) < 1/2 \<longleftrightarrow> of_int (2 * (n mod m)) < (of_int m :: rat)"
      using assms by (simp add: field_simps)
    then show "(of_int (n mod m) / of_int m :: rat) < 1/2 \<longleftrightarrow> 2 * (n mod m) < m" by (simp only: of_int_less_iff)
    have "(1/2 :: rat) < of_int (n mod m) / of_int m \<longleftrightarrow> of_int m < (of_int (2 * (n mod m)) :: rat)"
      using assms by (simp add: field_simps)
    then show "(1/2 :: rat) < of_int (n mod m) / of_int m \<longleftrightarrow> m < 2 * (n mod m)" by (simp only: of_int_less_iff)
  qed
  show ?thesis
    unfolding round_even_def iround_def Let_def floor_divide_of_int_eq d c ..
qed

definition ilog :: "int \<Rightarrow> int \<Rightarrow> int" where
  "ilog p d =
     (let k = ilog2 p - ilog2 d
      in if (if 0 \<le> k then ipow2 k * d \<le> p else d \<le> p * ipow2 (- k)) then k else k - 1)"

lemma ilog_rlog2:
  assumes "quotient_of q = (p, d)"
  shows "rlog2 q = ilog p d"
proof -
  from assms have q: "q = of_int p / of_int d" and d: "0 < d"
    by (auto intro: quotient_of_div quotient_of_denom_pos)
  have pos: "0 < ipow2 j" if "0 \<le> j" for j using that by (simp add: ipow2_power)
  have "pow2 k \<le> q \<longleftrightarrow> (if 0 \<le> k then ipow2 k * d \<le> p else d \<le> p * ipow2 (- k))" for k
  proof (cases "0 \<le> k")
    case True
    then have "pow2 k \<le> q \<longleftrightarrow> (of_int (ipow2 k * d) :: rat) \<le> of_int p"
      using d by (simp add: pow2_def q field_simps)
    with True show ?thesis by (simp only: of_int_le_iff if_True)
  next
    case False
    then have "pow2 k \<le> q \<longleftrightarrow> (of_int d :: rat) \<le> of_int (p * ipow2 (- k))"
      using d pos [of "- k"] by (simp add: pow2_def q field_simps)
    with False show ?thesis by (simp only: of_int_le_iff if_False)
  qed
  then show ?thesis by (simp add: rlog2_code assms ilog_def Let_def)
qed

definition irnd :: "int \<Rightarrow> int \<Rightarrow> int \<times> int" where
  "irnd p d =
     (let e = max (ilog p d - 52) (- 1074)
      in (if 0 \<le> e then iround p (d * ipow2 e) else iround (p * ipow2 (- e)) d, e))"

lemma rnd_mag_irnd:
  assumes "quotient_of q = (p, d)"
  shows "rnd_mag q = of_int (fst (irnd p d)) * pow2 (snd (irnd p d))"
proof -
  from assms have q: "q = of_int p / of_int d" and d: "0 < d"
    by (auto intro: quotient_of_div quotient_of_denom_pos)
  define e where "e = max (ilog p d - 52) (- 1074)"
  have e: "ulp_exp q = e" by (simp add: ulp_exp_def ilog_rlog2 [OF assms] e_def)
  have pos: "0 < ipow2 j" if "0 \<le> j" for j using that by (simp add: ipow2_power)
  have "round_even (q / pow2 e) = (if 0 \<le> e then iround p (d * ipow2 e) else iround (p * ipow2 (- e)) d)"
  proof (cases "0 \<le> e")
    case True
    then have "q / pow2 e = of_int p / of_int (d * ipow2 e)" by (simp add: q pow2_def)
    with True d pos [of e] show ?thesis by (simp only: if_True) (rule round_even_iround, simp)
  next
    case False
    then have "q / pow2 e = of_int (p * ipow2 (- e)) / of_int d" by (simp add: q pow2_def)
    with False d show ?thesis by (simp only: if_False) (rule round_even_iround)
  qed
  then show ?thesis by (simp add: rnd_mag_code e irnd_def e_def [symmetric] Let_def)
qed

definition scaled :: "int \<Rightarrow> int \<Rightarrow> rat" where
  "scaled m e = (if 0 \<le> e then of_int (m * ipow2 e) else of_int m / of_int (ipow2 (- e)))"

lemma scaled_pow2: "scaled m e = of_int m * pow2 e"
  by (simp add: scaled_def pow2_def)

lemma rnd_quotient_code [code]:
  "rnd q =
     (let (p, d) = quotient_of q
      in if p = 0 then Fin 0
         else let (m, e) = irnd \<bar>p\<bar> d
              in if e \<le> 900 \<and> m < 1267650600228229401496703205376 \<or> scaled m e < pow2 1024
                 then Fin (scaled (sgn p * m) e) else if 0 < p then PosInf else NegInf)"
proof -
  obtain p d where pd: "quotient_of q = (p, d)" by fastforce
  then have q: "q = of_int p / of_int d" and d: "0 < d"
    by (auto intro: quotient_of_div quotient_of_denom_pos)
  have ab: "quotient_of \<bar>q\<bar> = (\<bar>p\<bar>, d)" by (simp add: rat_abs_code pd)
  obtain m e where me: "irnd \<bar>p\<bar> d = (m, e)" by fastforce
  have mag: "rnd_mag \<bar>q\<bar> = scaled m e" by (simp add: rnd_mag_irnd [OF ab] me scaled_pow2)
  have sg: "sgn q = of_int (sgn p)" "q = 0 \<longleftrightarrow> p = 0" "0 < q \<longleftrightarrow> 0 < p"
    using d by (auto simp: q sgn_if zero_less_divide_iff divide_less_0_iff)
  have small: "scaled m e < pow2 1024" if "e \<le> 900" "m < 1267650600228229401496703205376"
  proof -
    have "scaled m e \<le> of_int 1267650600228229401496703205376 * pow2 e"
      unfolding scaled_pow2 pow2_powi using that(2) by (intro mult_right_mono) (simp_all del: of_int_numeral add: less_imp_le)
    also have "\<dots> = 2 powi (100 + e)"
    proof -
      have "(of_int 1267650600228229401496703205376 :: rat) = 2 powi 100" by (simp add: power_int_def)
      then show ?thesis by (simp add: pow2_powi power_int_add)
    qed
    also have "\<dots> < 2 powi 1024" using that(1) by (simp only: powi_less_iff)
    finally show ?thesis by (simp only: pow2_powi)
  qed
  have "scaled (sgn p * m) e = of_int (sgn p) * scaled m e" by (simp add: scaled_pow2)
  with small show ?thesis
    unfolding rnd_def pd mag Let_def sg by (auto simp: me pow2_powi)
qed

lemma ilog2_shift: "2 ^ k \<le> n \<Longrightarrow> ilog2 n = int k + ilog2 (n div 2 ^ k)"
proof (induction k arbitrary: n)
  case (Suc k)
  then have "2 ^ k \<le> n div 2" "\<not> n < 2"
    using one_le_power [of "2::int" k] by (simp_all add: mult.commute, linarith+)
  with Suc.IH [of "n div 2"] show ?case by (simp add: ilog2.simps [of n] zdiv_zmult2_eq)
qed simp

lemma ilog2_code [code]:
  "ilog2 n =
     (if n < 2 then 0
      else if 65536 \<le> n then 16 + ilog2 (n div 65536)
      else if 16 \<le> n then 4 + ilog2 (n div 16)
      else 1 + ilog2 (n div 2))"
  using ilog2_shift [of 16 n] ilog2_shift [of 4 n] by (simp add: ilog2.simps [of n])

lemma ipow2_code [code]:
  "ipow2 k = (if k \<le> 0 then 1 else if 16 \<le> k then 65536 * ipow2 (k - 16) else 2 * ipow2 (k - 1))"
proof (cases "16 \<le> k")
  case True
  then have "nat k = 16 + nat (k - 16)" by simp
  with True show ?thesis by (simp add: ipow2_power power_add)
next
  case False
  then show ?thesis by (simp add: ipow2.simps [of k])
qed

definition round_remainder :: "int \<Rightarrow> int \<Rightarrow> int \<Rightarrow> int" where
  "round_remainder m q r = (if 2 * r < m then q else if m < 2 * r then q + 1 else if even q then q else q + 1)"

definition round_quotient :: "int \<Rightarrow> int \<Rightarrow> int \<Rightarrow> int" where
  "round_quotient n m q = round_remainder m q (n - q * m)"

lemma iround_code [code]: "iround n m = round_quotient n m (n div m)"
  by (simp add: iround_def round_quotient_def round_remainder_def Let_def minus_div_mult_eq_mod)

end
