(* ===== verification/Prelude.thy ===== *)
theory Prelude
  imports JsNumber "HOL-Library.Multiset" "HOL-Library.List_Lexorder" "HOL-Library.Char_ord"
    "HOL-Library.AList"
begin

text \<open>
  What every engine module shares: the array and string operations of JavaScript that the
  source uses, the helper functions that the modules of \<open>src/src/engine-v2\<close> each declare
  with the same body (\<open>clamp\<close>, \<open>round\<close>, \<open>normalizeRatio\<close>, \<open>compareStrings\<close>,
  \<open>uniqueSorted\<close>), and the interface of a sort comparator as a locale.

  A string is a list of characters, one per UTF-16 code unit below 256; \<open><\<close> on strings is
  the lexicographic order of code units, as in ECMA-262. A JavaScript \<open>Map\<close> is an
  association list in insertion order, \<open>Map.set\<close> is \<open>AList.update\<close>, which keeps the
  position of a key that is present and appends a new one.
\<close>

named_theorems code_defs \<open>definitions of the model, for evaluation of closed terms\<close>

type_synonym id = string

section \<open>Strings\<close>

definition js_space :: "char \<Rightarrow> bool" where
  "js_space c \<longleftrightarrow> of_char c \<in> {9, 10, 11, 12, 13, 32, 160 :: nat}"

definition js_trim :: "string \<Rightarrow> string" where
  "js_trim s = rev (dropWhile js_space (rev (dropWhile js_space s)))"

text \<open>\<open>!value.trim()\<close>: the string is empty or blank.\<close>

definition js_blank :: "string \<Rightarrow> bool" where
  "js_blank s \<longleftrightarrow> js_trim s = []"

lemma js_blank_iff: "js_blank s \<longleftrightarrow> (\<forall>c \<in> set s. js_space c)"
proof
  assume "js_blank s"
  then have all: "\<forall>c \<in> set (dropWhile js_space s). js_space c"
    by (simp add: js_blank_def js_trim_def dropWhile_eq_Nil_conv)
  have "dropWhile js_space s = []"
  proof (rule ccontr)
    assume ne: "dropWhile js_space s \<noteq> []"
    with hd_dropWhile [of js_space s] hd_in_set [OF ne] all show False by blast
  qed
  then show "\<forall>c \<in> set s. js_space c" by (simp add: dropWhile_eq_Nil_conv)
qed (auto simp: js_blank_def js_trim_def dropWhile_eq_Nil_conv dest: set_dropWhileD)

lemma dropWhile_hd_id: "s = [] \<or> \<not> P (hd s) \<Longrightarrow> dropWhile P s = s"
  by (cases s) auto

lemma js_trim_id:
  assumes "s = [] \<or> \<not> js_space (hd s) \<and> \<not> js_space (last s)"
  shows "js_trim s = s"
proof -
  from assms have "dropWhile js_space s = s" by (intro dropWhile_hd_id) auto
  moreover from assms have "dropWhile js_space (rev s) = rev s"
    by (intro dropWhile_hd_id) (auto simp: hd_rev)
  ultimately show ?thesis by (simp add: js_trim_def)
qed

lemma js_trim_ends:
  "js_trim s = [] \<or> \<not> js_space (hd (js_trim s)) \<and> \<not> js_space (last (js_trim s))"
proof -
  let ?d = "dropWhile js_space s"
  let ?t = "dropWhile js_space (rev ?d)"
  have "\<not> js_space (hd ?t)" if "?t \<noteq> []"
    using that hd_dropWhile by blast
  moreover have "\<not> js_space (last ?t)" if t: "?t \<noteq> []"
  proof -
    from t have d: "?d \<noteq> []" by (metis dropWhile.simps(1) rev.simps(1))
    from t have "last ?t = last (rev ?d)"
      by (metis last_append takeWhile_dropWhile_id)
    with d have "last ?t = hd ?d" by (simp add: last_rev)
    with d hd_dropWhile [of js_space s] show ?thesis by simp
  qed
  moreover have "js_trim s = rev ?t" by (simp add: js_trim_def)
  ultimately show ?thesis
    by (cases "?t = []") (simp_all add: hd_rev last_rev)
qed

lemma js_trim_idem [simp]: "js_trim (js_trim s) = js_trim s"
  by (rule js_trim_id [OF js_trim_ends])

definition compare_strings :: "string \<Rightarrow> string \<Rightarrow> jsnum" where
  "compare_strings first second =
     (if first < second then Fin (- 1) else if second < first then Fin 1 else Fin 0)"

lemma compare_strings_pos [simp]: "Fin 0 < compare_strings a b \<longleftrightarrow> b < a"
  by (auto simp: compare_strings_def)

text \<open>
  Regular expressions with the flag \<open>i\<close> compare ASCII letters in either case; a character
  above 127 never matches an ASCII letter.
\<close>

definition ascii_lower :: "char \<Rightarrow> char" where
  "ascii_lower c =
     (let n = of_char c :: nat in if 65 \<le> n \<and> n \<le> 90 then char_of (n + 32) else c)"

section \<open>Results\<close>

text \<open>A function that may throw returns the error on the left.\<close>

definition and_then :: "'e + 'a \<Rightarrow> ('a \<Rightarrow> 'e + 'b) \<Rightarrow> 'e + 'b" where
  "and_then r f = (case r of Inl e \<Rightarrow> Inl e | Inr x \<Rightarrow> f x)"

definition require :: "bool \<Rightarrow> 'e \<Rightarrow> 'e + unit" where
  "require b e = (if b then Inr () else Inl e)"

lemma and_then_simps [simp]: "and_then (Inl e) f = Inl e" "and_then (Inr x) f = f x"
  by (simp_all add: and_then_def)

lemma and_then_Inr_iff: "and_then r f = Inr y \<longleftrightarrow> (\<exists>x. r = Inr x \<and> f x = Inr y)"
  by (cases r) simp_all

lemma require_Inr_iff [simp]: "require b e = Inr u \<longleftrightarrow> b"
  by (simp add: require_def)

lemma require_simps [simp]: "require True e = Inr ()" "require False e = Inl e"
  by (simp_all add: require_def)

section \<open>Arrays\<close>

text \<open>\<open>[...new Set(xs)]\<close>: the distinct elements in order of first occurrence.\<close>

definition js_set :: "'a list \<Rightarrow> 'a list" where
  "js_set xs = rev (remdups (rev xs))"

lemma set_js_set [simp]: "set (js_set xs) = set xs"
  by (simp add: js_set_def)

lemma distinct_js_set [simp]: "distinct (js_set xs)"
  by (simp add: js_set_def)

text \<open>\<open>xs[0] ?? null\<close>.\<close>

definition js_first :: "'a list \<Rightarrow> 'a option" where
  "js_first xs = (case xs of [] \<Rightarrow> None | x # _ \<Rightarrow> Some x)"

lemma js_first_simps [simp]: "js_first [] = None" "js_first (x # xs) = Some x"
  by (simp_all add: js_first_def)

lemma js_first_Some_in: "js_first xs = Some x \<Longrightarrow> x \<in> set xs"
  by (cases xs) auto

lemma js_first_None [simp]: "js_first xs = None \<longleftrightarrow> xs = []"
  by (cases xs) auto

text \<open>
  \<open>Array.prototype.sort\<close> is a stable sort; for a consistent comparator its result is
  unique, and stable insertion computes it. A comparator result that is NaN counts as 0.
\<close>

fun js_insert :: "('a \<Rightarrow> 'a \<Rightarrow> jsnum) \<Rightarrow> 'a \<Rightarrow> 'a list \<Rightarrow> 'a list" where
  "js_insert cmp x [] = [x]"
| "js_insert cmp x (y # ys) = (if Fin 0 < cmp x y then y # js_insert cmp x ys else x # y # ys)"

definition js_sort :: "('a \<Rightarrow> 'a \<Rightarrow> jsnum) \<Rightarrow> 'a list \<Rightarrow> 'a list" where
  "js_sort cmp xs = foldr (js_insert cmp) xs []"

lemma js_sort_simps [simp]:
  "js_sort cmp [] = []"
  "js_sort cmp (x # xs) = js_insert cmp x (js_sort cmp xs)"
  by (simp_all add: js_sort_def)

lemma mset_js_insert [simp]: "mset (js_insert cmp x xs) = add_mset x (mset xs)"
  by (induction xs) auto

lemma mset_js_sort [simp]: "mset (js_sort cmp xs) = mset xs"
  by (induction xs) auto

lemma set_js_sort [simp]: "set (js_sort cmp xs) = set xs"
  by (metis mset_js_sort set_mset_mset)

lemma set_js_insert [simp]: "set (js_insert cmp x xs) = insert x (set xs)"
  by (metis mset_js_insert set_mset_mset set_mset_add_mset_insert)

lemma length_js_sort [simp]: "length (js_sort cmp xs) = length xs"
  by (metis mset_js_sort size_mset)

lemma distinct_js_sort [simp]: "distinct (js_sort cmp xs) = distinct xs"
  by (metis mset_js_sort mset_eq_imp_distinct_iff)

lemma js_sort_Nil_iff [simp]: "js_sort cmp xs = [] \<longleftrightarrow> xs = []"
  by (metis length_0_conv length_js_sort)

section \<open>Comparators\<close>

text \<open>
  The contract of a comparator passed to \<open>sort\<close>: on the elements it is used for
  (\<open>A\<close>), "not after" is total and transitive. The lemmas hold for every sort of the
  source; each comparator of the model is an interpretation.
\<close>

locale comparator =
  fixes cmp :: "'a \<Rightarrow> 'a \<Rightarrow> jsnum" and A :: "'a set"
  assumes total: "x \<in> A \<Longrightarrow> y \<in> A \<Longrightarrow> Fin 0 < cmp x y \<Longrightarrow> \<not> Fin 0 < cmp y x"
    and trans: "x \<in> A \<Longrightarrow> y \<in> A \<Longrightarrow> z \<in> A \<Longrightarrow> \<not> Fin 0 < cmp x y \<Longrightarrow> \<not> Fin 0 < cmp y z \<Longrightarrow>
      \<not> Fin 0 < cmp x z"
begin

definition not_after :: "'a \<Rightarrow> 'a \<Rightarrow> bool" where
  "not_after x y \<longleftrightarrow> \<not> Fin 0 < cmp x y"

lemma not_after_refl: "x \<in> A \<Longrightarrow> not_after x x"
  using total [of x x] by (auto simp: not_after_def)

lemma sorted_insert:
  "x \<in> A \<Longrightarrow> set xs \<subseteq> A \<Longrightarrow> sorted_wrt not_after xs \<Longrightarrow> sorted_wrt not_after (js_insert cmp x xs)"
proof (induction xs)
  case (Cons y ys)
  show ?case
  proof (cases "Fin 0 < cmp x y")
    case True
    with Cons total [of x y] show ?thesis by (auto simp: not_after_def)
  next
    case False
    with Cons.prems trans [of x y] show ?thesis by (auto simp: not_after_def)
  qed
qed simp

lemma sorted_sort: "set xs \<subseteq> A \<Longrightarrow> sorted_wrt not_after (js_sort cmp xs)"
  by (induction xs) (simp_all add: sorted_insert)

lemma sort_first_minimal:
  assumes "set xs \<subseteq> A" and "js_first (js_sort cmp xs) = Some x" and "y \<in> set xs"
  shows "x \<in> set xs \<and> \<not> Fin 0 < cmp x y"
proof -
  from assms(2) obtain ys where ys: "js_sort cmp xs = x # ys"
    by (auto simp: js_first_def split: list.splits)
  with sorted_sort [OF assms(1)] have "\<forall>z \<in> set ys. not_after x z" by simp
  moreover from ys have "set xs = insert x (set ys)"
    by (metis list.simps(15) set_js_sort)
  ultimately show ?thesis
    using assms(1,3) not_after_refl [of x] by (auto simp: not_after_def)
qed

lemma sorted_unique:
  assumes "mset xs = mset ys" and "sorted_wrt not_after xs" and "sorted_wrt not_after ys"
    and "\<And>x y. x \<in> set xs \<Longrightarrow> y \<in> set xs \<Longrightarrow> not_after x y \<Longrightarrow> not_after y x \<Longrightarrow> x = y"
  shows "xs = ys"
  using assms
proof (induction xs arbitrary: ys)
  case (Cons x xs)
  then obtain y ys' where ys: "ys = y # ys'" by (cases ys) auto
  from Cons.prems(1) have sets: "set (x # xs) = set ys" by (rule mset_eq_setD)
  have "x = y"
  proof (rule ccontr)
    assume ne: "x \<noteq> y"
    with sets ys have "x \<in> set ys'" "y \<in> set xs" by auto
    with Cons.prems(2,3) ys have "not_after x y" "not_after y x" by auto
    with Cons.prems(4) [of x y] \<open>y \<in> set xs\<close> ne show False by simp
  qed
  with Cons.prems ys Cons.IH [of ys'] show ?case by auto
qed simp

text \<open>Where no two elements tie, the order the elements arrive in does not matter.\<close>

lemma sort_order_independent:
  assumes "mset xs = mset ys" and "set xs \<subseteq> A"
    and "\<And>x y. x \<in> set xs \<Longrightarrow> y \<in> set xs \<Longrightarrow> \<not> Fin 0 < cmp x y \<Longrightarrow> \<not> Fin 0 < cmp y x \<Longrightarrow> x = y"
  shows "js_sort cmp xs = js_sort cmp ys"
proof (rule sorted_unique)
  show "mset (js_sort cmp xs) = mset (js_sort cmp ys)" using assms(1) by simp
  show "sorted_wrt not_after (js_sort cmp xs)" by (rule sorted_sort [OF assms(2)])
  show "sorted_wrt not_after (js_sort cmp ys)"
    using assms(2) mset_eq_setD [OF assms(1)] by (intro sorted_sort) simp
qed (use assms(3) in \<open>auto simp: not_after_def\<close>)

lemma sort_sorted_id:
  assumes "set xs \<subseteq> A" and "sorted_wrt not_after xs"
  shows "js_sort cmp xs = xs"
  using assms
proof (induction xs)
  case (Cons x xs)
  then have "js_sort cmp xs = xs" by simp
  with Cons.prems(2) show ?case by (cases xs) (auto simp: not_after_def)
qed simp

end

interpretation strings: comparator compare_strings UNIV
  by unfold_locales auto

text \<open>Sorting by the string a field of each element holds.\<close>

lemma comparator_by_string: "comparator (\<lambda>a b. compare_strings (f a) (f b)) UNIV"
  by unfold_locales auto

lemma sort_by_string_independent:
  assumes "mset xs = mset ys" and "inj_on f (set xs)"
  shows "js_sort (\<lambda>a b. compare_strings (f a) (f b)) xs = js_sort (\<lambda>a b. compare_strings (f a) (f b)) ys"
  using assms
  by (intro comparator.sort_order_independent [OF comparator_by_string]) (auto dest: inj_onD)

text \<open>
  What the engines need of the host's \<open>localeCompare\<close>: a total order that tells different
  strings apart. The code-unit order that most engines use has this property.
\<close>

locale collation =
  fixes collate :: "string \<Rightarrow> string \<Rightarrow> jsnum"
  assumes collate_total: "Fin 0 < collate a b \<Longrightarrow> \<not> Fin 0 < collate b a"
    and collate_trans: "\<not> Fin 0 < collate a b \<Longrightarrow> \<not> Fin 0 < collate b c \<Longrightarrow> \<not> Fin 0 < collate a c"
    and collate_faithful: "\<not> Fin 0 < collate a b \<Longrightarrow> \<not> Fin 0 < collate b a \<Longrightarrow> a = b"
begin

lemma comparator_by_key: "comparator (\<lambda>x y. collate (f x) (f y)) UNIV"
  by unfold_locales (use collate_total collate_trans in blast)+

lemma sort_by_key:
  assumes "mset xs = mset ys" and "inj_on f (set xs)"
  shows "js_sort (\<lambda>x y. collate (f x) (f y)) xs = js_sort (\<lambda>x y. collate (f x) (f y)) ys"
  using assms collate_faithful
  by (intro comparator.sort_order_independent [OF comparator_by_key]) (auto dest: inj_onD)

end

interpretation code_units: collation compare_strings
  by unfold_locales auto

text \<open>
  Sorting by a number, greatest first: \<open>sort((first, second) => second.x - first.x)\<close>.
  The difference of two doubles has the sign of their order (it cannot underflow to zero),
  so this is a consistent comparator as long as no key is NaN.
\<close>

fun js_wf :: "jsnum \<Rightarrow> bool" where
  "js_wf (Fin q) = on_grid q"
| "js_wf PosInf = True"
| "js_wf NegInf = True"
| "js_wf NaN = False"

lemma rnd_pos_iff: "on_grid q \<Longrightarrow> Fin 0 < rnd q \<longleftrightarrow> 0 < q"
proof
  assume g: "on_grid q" and q: "0 < q"
  show "Fin 0 < rnd q"
  proof (cases "rnd q")
    case (Fin r)
    have "q * (1 - eps) \<le> r" using q g Fin by (intro rnd_lower) auto
    moreover have "0 < q * (1 - eps)" using q by simp
    ultimately show ?thesis using Fin by simp
  next
    case NegInf
    with rnd_nonneg [of q] q show ?thesis by simp
  qed (use rnd_not_NaN in auto)
next
  assume "Fin 0 < rnd q"
  then show "0 < q" using rnd_nonpos [of q] by (cases "rnd q") (auto simp: not_le [symmetric])
qed

lemma on_grid_diff: "on_grid a \<Longrightarrow> on_grid b \<Longrightarrow> on_grid (a - b)"
  using on_grid_add [of a "of_int (-1) * b"] on_grid_int_mult [of b "-1"] by simp

lemma sub_pos_iff: "js_wf a \<Longrightarrow> js_wf b \<Longrightarrow> Fin 0 < a - b \<longleftrightarrow> b < a"
  by (cases a; cases b) (auto simp: minus_jsnum_def rnd_pos_iff on_grid_diff simp flip: diff_conv_add_uminus)

lemma comparator_descending: "comparator (\<lambda>a b. f b - f a) {x. js_wf (f x)}"
proof
  fix x y z
  assume A: "x \<in> {x. js_wf (f x)}" "y \<in> {x. js_wf (f x)}"
  then show "Fin 0 < f y - f x \<Longrightarrow> \<not> Fin 0 < f x - f y"
    by (simp add: sub_pos_iff) (simp add: jsnum_less_le)
  assume "z \<in> {x. js_wf (f x)}" and "\<not> Fin 0 < f y - f x" and "\<not> Fin 0 < f z - f y"
  with A have "f y \<le> f x" "f z \<le> f y" "js_wf (f z)"
    by (auto simp: sub_pos_iff) (metis js_wf.simps(4) jsnum_not_less)+
  then have "f z \<le> f x" by (blast intro: jsnum_le_trans)
  then have "\<not> f x < f z" by (simp add: jsnum_less_le)
  with A \<open>js_wf (f z)\<close> show "\<not> Fin 0 < f z - f x" by (simp add: sub_pos_iff)
qed

section \<open>Helpers the engine modules share\<close>

text \<open>
  \<open>toUpperCase\<close>, character by character: the code units of the upper-case text, which for the
  characters 181 and 255 lie outside the model's characters and for 223 are two.
\<close>

definition upper_code_units :: "char \<Rightarrow> nat list" where
  "upper_code_units c =
     (let n = of_char c :: nat
      in if 97 \<le> n \<and> n \<le> 122 \<or> 224 \<le> n \<and> n \<le> 254 \<and> n \<noteq> 247 then [n - 32]
         else if n = 181 then [924] else if n = 223 then [83, 83] else if n = 255 then [376] else [n])"

text \<open>\<open>uniqueSorted\<close>: the distinct non-empty strings in order.\<close>

definition unique_sorted :: "string list \<Rightarrow> string list" where
  "unique_sorted values = js_sort compare_strings (js_set (filter (\<lambda>v. v \<noteq> []) values))"

lemma set_unique_sorted [simp]: "set (unique_sorted xs) = set xs - {[]}"
  by (auto simp: unique_sorted_def)

lemma distinct_unique_sorted [simp]: "distinct (unique_sorted xs)"
  by (simp add: unique_sorted_def)

lemma sorted_unique_sorted: "sorted (unique_sorted xs)"
proof -
  have "sorted_wrt strings.not_after (unique_sorted xs)"
    unfolding unique_sorted_def by (rule strings.sorted_sort) simp
  then show ?thesis
    by (rule sorted_wrt_mono_rel [rotated]) (simp add: strings.not_after_def)
qed

lemma unique_sorted_eq: "unique_sorted xs = sorted_list_of_set (set xs - {[]})"
  by (rule sorted_distinct_set_unique) (simp_all add: sorted_unique_sorted)

lemma unique_sorted_cong: "set xs = set ys \<Longrightarrow> unique_sorted xs = unique_sorted ys"
  by (simp add: unique_sorted_eq)

lemma unique_sorted_idem [simp]: "unique_sorted (unique_sorted xs) = unique_sorted xs"
  by (simp add: unique_sorted_eq)

lemma unique_sorted_Nil_iff [simp]: "unique_sorted xs = [] \<longleftrightarrow> set xs \<subseteq> {[]}"
proof -
  have "unique_sorted xs = [] \<longleftrightarrow> set (unique_sorted xs) = {}" by (simp only: set_empty)
  then show ?thesis by auto
qed

definition clamp :: "jsnum \<Rightarrow> jsnum \<Rightarrow> jsnum \<Rightarrow> jsnum" where
  "clamp value minimum maximum = js_min (js_max value minimum) maximum"

lemma clamp_bounds:
  assumes "v \<noteq> NaN" and "lo \<le> hi"
  shows "lo \<le> clamp v lo hi" and "clamp v lo hi \<le> hi"
  using assms by (cases v; cases lo; cases hi; auto simp: clamp_def js_min_def js_max_def)+

lemma clamp_id: "lo \<le> v \<Longrightarrow> v \<le> hi \<Longrightarrow> clamp v lo hi = v"
  by (cases v; cases lo; cases hi) (auto simp: clamp_def js_min_def js_max_def)

lemma clamp_mono: "v \<le> w \<Longrightarrow> lo \<le> hi \<Longrightarrow> clamp v lo hi \<le> clamp w lo hi"
  by (cases v; cases w; cases lo; cases hi) (auto simp: clamp_def js_min_def js_max_def)

text \<open>
  \<open>normalizeRatio\<close> and its siblings take a value of any type: \<open>None\<close> stands for
  everything that is not a number.
\<close>

definition normalize_ratio :: "jsnum option \<Rightarrow> jsnum \<Rightarrow> jsnum" where
  "normalize_ratio value fallback =
     (case value of
        Some v \<Rightarrow> if \<not> is_fin v then fallback else clamp v (Fin 0) (Fin 1)
      | None \<Rightarrow> fallback)"

lemma normalize_ratio_bounds:
  assumes "Fin 0 \<le> fb" and "fb \<le> Fin 1"
  shows "Fin 0 \<le> normalize_ratio v fb \<and> normalize_ratio v fb \<le> Fin 1"
  using assms clamp_bounds [of _ "Fin 0" "Fin 1"]
  by (auto simp: normalize_ratio_def is_fin_iff split: option.splits)

definition normalize_non_negative_number :: "jsnum option \<Rightarrow> jsnum \<Rightarrow> jsnum" where
  "normalize_non_negative_number value fallback =
     (case value of
        Some v \<Rightarrow> if \<not> is_fin v \<or> v < Fin 0 then fallback else v
      | None \<Rightarrow> fallback)"

lemma normalize_non_negative_bounds:
  "Fin 0 \<le> fb \<Longrightarrow> Fin 0 \<le> normalize_non_negative_number v fb"
  by (auto simp: normalize_non_negative_number_def is_fin_iff split: option.splits)

text \<open>\<open>round(value, decimalPlaces)\<close>, with \<open>Number.EPSILON\<close> added before scaling.\<close>

definition js_epsilon :: jsnum where
  "js_epsilon = Fin (1 / 4503599627370496)"

definition round_to :: "nat \<Rightarrow> jsnum \<Rightarrow> jsnum" where
  "round_to decimal_places value =
     (let factor = Fin (10 ^ decimal_places)
      in js_div (js_round ((value + js_epsilon) * factor)) factor)"

lemma round_to_mono:
  assumes "v \<le> w"
  shows "round_to n v \<le> round_to n w"
proof -
  from assms have nn: "v \<noteq> NaN" "w \<noteq> NaN" by auto
  then have "v + js_epsilon \<le> w + js_epsilon"
    using assms by (cases v; cases w) (auto simp: js_epsilon_def intro: rnd_mono)
  then show ?thesis
    by (simp add: round_to_def Let_def div_Fin_mono js_round_mono times_Fin_mono)
qed

text \<open>
  Rounding to decimals brings a value that exceeds an integer bound by floating-point noise
  back to the bound, and never leaves it.
\<close>

lemma round_to_at_most:
  assumes v: "v \<le> Fin (of_int b + 1 / 2097152)" and b: "\<bar>b\<bar> \<le> 1048576" and n: "n \<le> 4"
  shows "round_to n v \<le> Fin (of_int b)"
proof -
  let ?f = "(10::int) ^ n"
  have f: "1 \<le> ?f" "?f \<le> 10000"
    using power_increasing [OF n, of "10::int"] by simp_all
  have fr: "(of_int ?f :: rat) = 10 ^ n" by simp
  from f have fq: "(1::rat) \<le> 10 ^ n" "(10::rat) ^ n \<le> 10000"
    by (metis fr of_int_1_le_iff, metis fr of_int_le_numeral_iff)
  have bf: "\<bar>b * ?f\<bar> \<le> 1048576 * 10000"
    using b f by (simp only: abs_mult) (intro mult_mono, auto)
  have "v + js_epsilon \<le> Fin (of_int b + 1 / 2097152) + js_epsilon"
    using v by (cases v) (auto simp: js_epsilon_def intro: rnd_mono)
  also have "\<dots> \<le> Fin (of_int b + 1 / 1048576)"
  proof -
    have "double (of_int (b * 1048576 + 1) / 2 ^ 20)"
      using b by (intro double_dyadic) auto
    then have "double (of_int b + 1 / 1048576)" by (simp add: add_divide_distrib)
    then show ?thesis by (simp add: js_epsilon_def rnd_le_double)
  qed
  finally have "(v + js_epsilon) * Fin (10 ^ n) \<le> Fin (of_int b + 1 / 1048576) * Fin (10 ^ n)"
    by (rule times_Fin_mono) simp
  also have "\<dots> \<le> Fin (of_int (b * ?f) + 1 / 4)"
  proof -
    have "double (of_int (b * ?f * 4 + 1) / 2 ^ 2)"
      using bf by (intro double_dyadic) auto
    then have "double (of_int (b * ?f) + 1 / 4)" by (simp add: add_divide_distrib)
    moreover have "(of_int b + 1 / 1048576) * (10::rat) ^ n \<le> of_int (b * ?f) + 1 / 4"
      using fq by (simp add: distrib_right)
    ultimately show ?thesis by (simp add: rnd_le_double)
  qed
  finally have "js_round ((v + js_epsilon) * Fin (10 ^ n)) \<le> js_round (Fin (of_int (b * ?f) + 1 / 4))"
    by (rule js_round_mono)
  also have "\<lfloor>of_int (b * ?f) + (1 / 4 :: rat) + 1 / 2\<rfloor> = b * ?f" by linarith
  then have "js_round (Fin (of_int (b * ?f) + 1 / 4)) = Fin (of_int (b * ?f))" by simp
  finally have "round_to n v \<le> js_div (Fin (of_int (b * ?f))) (Fin (10 ^ n))"
    unfolding round_to_def Let_def by (rule div_Fin_mono) simp
  also have "\<dots> = Fin (of_int b)" using b by (simp add: rnd_of_int)
  finally show ?thesis .
qed

lemma round_to_at_least:
  assumes v: "Fin (of_int a - 1 / 2097152) \<le> v" and a: "\<bar>a\<bar> \<le> 1048576" and n: "n \<le> 4"
  shows "Fin (of_int a) \<le> round_to n v"
proof -
  let ?f = "(10::int) ^ n"
  have f: "1 \<le> ?f" "?f \<le> 10000"
    using power_increasing [OF n, of "10::int"] by simp_all
  have fr: "(of_int ?f :: rat) = 10 ^ n" by simp
  from f have fq: "(1::rat) \<le> 10 ^ n" "(10::rat) ^ n \<le> 10000"
    by (metis fr of_int_1_le_iff, metis fr of_int_le_numeral_iff)
  have af: "\<bar>a * ?f\<bar> \<le> 1048576 * 10000"
    using a f by (simp only: abs_mult) (intro mult_mono, auto)
  have "double (of_int (a * 1048576 - 1) / 2 ^ 20)"
    using a by (intro double_dyadic) auto
  then have "Fin (of_int a - 1 / 1048576) \<le> Fin (of_int a - 1 / 2097152) + js_epsilon"
    by (simp add: js_epsilon_def rnd_ge_double diff_divide_distrib)
  also have "\<dots> \<le> v + js_epsilon"
    using v by (cases v) (auto simp: js_epsilon_def intro: rnd_mono)
  finally have "Fin (of_int a - 1 / 1048576) * Fin (10 ^ n) \<le> (v + js_epsilon) * Fin (10 ^ n)"
    by (rule times_Fin_mono) simp
  moreover have "Fin (of_int (a * ?f) - 1 / 4) \<le> Fin (of_int a - 1 / 1048576) * Fin (10 ^ n)"
  proof -
    have "double (of_int (a * ?f * 4 - 1) / 2 ^ 2)"
      using af by (intro double_dyadic) auto
    then have "double (of_int (a * ?f) - 1 / 4)" by (simp add: diff_divide_distrib)
    moreover have "of_int (a * ?f) - 1 / 4 \<le> (of_int a - 1 / 1048576) * (10::rat) ^ n"
      using fq by (simp add: left_diff_distrib)
    ultimately show ?thesis by (simp add: rnd_ge_double)
  qed
  ultimately have "js_round (Fin (of_int (a * ?f) - 1 / 4)) \<le> js_round ((v + js_epsilon) * Fin (10 ^ n))"
    by (blast intro: js_round_mono jsnum_le_trans)
  moreover have "\<lfloor>of_int (a * ?f) - (1 / 4 :: rat) + 1 / 2\<rfloor> = a * ?f" by linarith
  then have "js_round (Fin (of_int (a * ?f) - 1 / 4)) = Fin (of_int (a * ?f))" by simp
  ultimately have "Fin (of_int (a * ?f)) \<le> js_round ((v + js_epsilon) * Fin (10 ^ n))" by simp
  then have "js_div (Fin (of_int (a * ?f))) (Fin (10 ^ n)) \<le> round_to n v"
    unfolding round_to_def Let_def by (rule div_Fin_mono) simp
  then show ?thesis using a by (simp add: rnd_of_int)
qed

text \<open>The bounds without noise, for values known to lie between integers.\<close>

lemma round_to_between:
  assumes "Fin (of_int a) \<le> v" and "v \<le> Fin (of_int b)" and "\<bar>a\<bar> \<le> 1048576" and "\<bar>b\<bar> \<le> 1048576"
    and "n \<le> 4"
  shows "Fin (of_int a) \<le> round_to n v" and "round_to n v \<le> Fin (of_int b)"
proof -
  have "Fin (of_int a - 1 / 2097152) \<le> v" "v \<le> Fin (of_int b + 1 / 2097152)"
    using assms(1,2) by (cases v; simp)+
  with assms(3-5) show "Fin (of_int a) \<le> round_to n v" "round_to n v \<le> Fin (of_int b)"
    by (auto intro: round_to_at_least round_to_at_most)
qed

lemma round_to_of_int: "\<bar>k\<bar> \<le> 1048576 \<Longrightarrow> n \<le> 4 \<Longrightarrow> round_to n (Fin (of_int k)) = Fin (of_int k)"
  using round_to_between [of k "Fin (of_int k)" k n] by (cases "round_to n (Fin (of_int k))") auto

end
