(* ===== verification/Model.thy ===== *)
theory Model
  imports Prelude
begin

text \<open>
  The data model of the engine, from \<open>src/src/engine-v2/model/smartStayEvaluationV2.ts\<close>:
  one datatype per string union, one record per interface. A field \<open>x | null\<close> is an
  option. The \<open>..._code\<close> functions give the strings of the source where the engine sorts
  by them or builds keys from them.
\<close>

section \<open>Unions\<close>

datatype accommodation_category =
    Hotel | BedAndBreakfast | Apartment | VacationRental | Aparthotel | Hostel | Guesthouse
  | Villa | Resort | Camping | OtherCategory | UnknownCategory

fun category_code :: "accommodation_category \<Rightarrow> string" where
  "category_code Hotel = ''hotel''"
| "category_code BedAndBreakfast = ''bed-and-breakfast''"
| "category_code Apartment = ''apartment''"
| "category_code VacationRental = ''vacation-rental''"
| "category_code Aparthotel = ''aparthotel''"
| "category_code Hostel = ''hostel''"
| "category_code Guesthouse = ''guesthouse''"
| "category_code Villa = ''villa''"
| "category_code Resort = ''resort''"
| "category_code Camping = ''camping''"
| "category_code OtherCategory = ''other''"
| "category_code UnknownCategory = ''unknown''"

datatype unit_type = EntirePlace | PrivateRoom | SharedRoom | HotelRoom | UnknownUnit

fun unit_type_code :: "unit_type \<Rightarrow> string" where
  "unit_type_code EntirePlace = ''entire-place''"
| "unit_type_code PrivateRoom = ''private-room''"
| "unit_type_code SharedRoom = ''shared-room''"
| "unit_type_code HotelRoom = ''hotel-room''"
| "unit_type_code UnknownUnit = ''unknown''"

datatype evidence_source = FromProvider | Derived | FromUser | FromSystem

datatype evidence_availability = Known | UnknownAvailability | NotApplicable | Conflicting

datatype evidence_value = VString string | VNumber jsnum | VBool bool | VNull

datatype evidence_severity = Information | Warning | Blocking

datatype gate_status = GateInvalid | GateLowConfidence | GateUsable | GateStrongData

datatype risk_level = RiskLow | RiskMedium | RiskHigh

datatype data_confidence_level = DataNone | DataLow | DataMedium | DataHigh

datatype pareto_status = ParetoFrontier | ParetoDominated | ParetoUnknown

datatype peer_group_mode = SameCategory | CompatibleCategory | CrossCategory | PeerUnavailable

fun peer_mode_code :: "peer_group_mode \<Rightarrow> string" where
  "peer_mode_code SameCategory = ''same-category''"
| "peer_mode_code CompatibleCategory = ''compatible-category''"
| "peer_mode_code CrossCategory = ''cross-category''"
| "peer_mode_code PeerUnavailable = ''unavailable''"

datatype recommendation_role =
    Unassigned | BestChoice | BestSensibleSaving | WorthwhileComfortUpgrade | BestLocation

datatype rank_band = BandTop | BandStrong | BandAcceptable | BandWeak | BandExcluded

section \<open>Interfaces\<close>

record evidence_fact =
  fact_id :: id
  fact_code :: string
  availability :: evidence_availability
  fact_value :: evidence_value
  fact_unit :: "string option"
  fact_source :: evidence_source
  source_provider :: "string option"
  source_field :: "string option"
  fact_confidence :: jsnum
  severity :: evidence_severity
  missing_reason_code :: "string option"
  captured_at :: "string option"
  derived_from :: "id list"

record accommodation_profile =
  acc_category :: accommodation_category
  acc_unit_type :: unit_type
  original_category :: "string option"
  acc_confidence :: jsnum
  acc_evidence_ids :: "id list"

record reliability_gate =
  gate_status :: gate_status
  gate_eligible :: bool
  blocking_reason_codes :: "string list"
  gate_warning_codes :: "string list"
  gate_evidence_ids :: "id list"

record peer_group =
  peer_group_id :: "string option"
  peer_mode :: peer_group_mode
  peer_category :: accommodation_category
  sample_size :: nat
  reference_price_count :: nat
  peer_confidence :: jsnum
  peer_evidence_ids :: "id list"

record dimension_score =
  dim_score :: "jsnum option"
  dim_confidence :: jsnum
  dim_signal_codes :: "string list"
  dim_evidence_ids :: "id list"

record score_breakdown =
  price_value_score :: dimension_score
  quality_score :: dimension_score
  location_score :: dimension_score
  comfort_score :: dimension_score
  flexibility_score :: dimension_score
  category_fit_score :: dimension_score
  user_fit_score :: dimension_score
  reliability_score :: dimension_score

record data_confidence =
  dc_score :: jsnum
  dc_level :: data_confidence_level
  known_field_codes :: "string list"
  unknown_field_codes :: "string list"
  not_applicable_field_codes :: "string list"
  dc_evidence_ids :: "id list"

record risk_assessment =
  risk_score :: jsnum
  risk_level :: risk_level
  risk_factor_codes :: "string list"
  risk_evidence_ids :: "id list"

section \<open>Reading evidence\<close>

text \<open>
  \<open>getFactsByCode\<close>, \<open>getKnownFact\<close> and \<open>hasConflict\<close>, which the gate and the risk
  engine declare alike: the known fact of a code is the one of greatest confidence, the
  earliest of these.
\<close>

definition get_facts_by_code :: "evidence_fact list \<Rightarrow> string \<Rightarrow> evidence_fact list" where
  "get_facts_by_code evidence code = filter (\<lambda>fact. fact_code fact = code) evidence"

definition by_confidence_descending :: "evidence_fact \<Rightarrow> evidence_fact \<Rightarrow> jsnum" where
  "by_confidence_descending first second = fact_confidence second - fact_confidence first"

definition get_known_fact :: "evidence_fact list \<Rightarrow> string \<Rightarrow> evidence_fact option" where
  "get_known_fact evidence code =
     js_first
       (js_sort by_confidence_descending
          (filter (\<lambda>fact. availability fact = Known) (get_facts_by_code evidence code)))"

definition has_conflict :: "evidence_fact list \<Rightarrow> bool" where
  "has_conflict facts = list_ex (\<lambda>fact. availability fact = Conflicting) facts"

text \<open>Evidence whose confidences are doubles, not NaN.\<close>

definition numeric_evidence :: "evidence_fact list \<Rightarrow> bool" where
  "numeric_evidence evidence \<longleftrightarrow> (\<forall>fact \<in> set evidence. js_wf (fact_confidence fact))"

interpretation by_confidence: comparator by_confidence_descending "{fact. js_wf (fact_confidence fact)}"
  unfolding by_confidence_descending_def by (rule comparator_descending)

lemma get_facts_by_code_set:
  "set (get_facts_by_code ev code) = {f \<in> set ev. fact_code f = code}"
  by (simp add: get_facts_by_code_def)

lemma has_conflict_iff: "has_conflict facts \<longleftrightarrow> (\<exists>f \<in> set facts. availability f = Conflicting)"
  by (simp add: has_conflict_def list_ex_iff)

lemma get_known_fact_in:
  "get_known_fact ev code = Some f \<Longrightarrow> f \<in> set ev \<and> fact_code f = code \<and> availability f = Known"
  unfolding get_known_fact_def by (drule js_first_Some_in) (auto simp: get_facts_by_code_set)

lemma get_known_fact_None_iff:
  "get_known_fact ev code = None \<longleftrightarrow> \<not> (\<exists>f \<in> set ev. fact_code f = code \<and> availability f = Known)"
  by (auto simp: get_known_fact_def filter_empty_conv get_facts_by_code_set)

lemma get_known_fact_maximal:
  assumes "numeric_evidence ev" and "get_known_fact ev code = Some f"
    and "g \<in> set ev" and "fact_code g = code" and "availability g = Known"
  shows "fact_confidence g \<le> fact_confidence f"
proof -
  let ?ks = "filter (\<lambda>fact. availability fact = Known) (get_facts_by_code ev code)"
  have wf: "set ?ks \<subseteq> {fact. js_wf (fact_confidence fact)}"
    using assms(1) by (auto simp: numeric_evidence_def get_facts_by_code_set)
  moreover have "g \<in> set ?ks" using assms(3-5) by (simp add: get_facts_by_code_set)
  ultimately have *: "f \<in> set ?ks \<and> \<not> Fin 0 < by_confidence_descending f g"
    using assms(2) by_confidence.sort_first_minimal [of ?ks f g] by (simp add: get_known_fact_def)
  with wf \<open>g \<in> set ?ks\<close> have wfs: "js_wf (fact_confidence f)" "js_wf (fact_confidence g)" by blast+
  then have "fact_confidence f \<noteq> NaN" "fact_confidence g \<noteq> NaN" by auto
  with * wfs show ?thesis
    by (simp add: by_confidence_descending_def sub_pos_iff jsnum_not_less)
qed

end
