(* ===== verification/ReliabilityGate.thy ===== *)
theory ReliabilityGate
  imports Model
begin

text \<open>
  The reliability gate, \<open>src/src/engine-v2/reliability/reliabilityGate.ts\<close>: it reads the
  evidence facts of one stay and decides whether the stay may take part in the primary
  ranking. The accumulator the source mutates is a record threaded through the checks.
  The lemmas reduce each critical check to two facts (does it block, does it warn) and
  from these the gate to its contract.
\<close>

section \<open>State\<close>

record gate_accumulator =
  blocking_acc :: "string list"
  critical_acc :: "string list"
  supporting_acc :: "string list"
  evidence_acc :: "id list"

record gate_options =
  opt_minimum_critical_confidence :: "jsnum option"
  opt_strong_critical_confidence :: "jsnum option"

definition default_minimum_critical_confidence :: jsnum where
  "default_minimum_critical_confidence = lit 0.6"

definition default_strong_critical_confidence :: jsnum where
  "default_strong_critical_confidence = lit 0.9"

definition critical_field_codes :: "string list" where
  "critical_field_codes =
     [''stay.cost.total'', ''stay.currency'', ''offer.count'', ''offer.bookable'']"

definition supporting_field_codes :: "string list" where
  "supporting_field_codes =
     [''stay.cost.completeness'', ''location.distance'', ''location.coordinates'',
      ''review.score'', ''review.count'', ''offer.cancellation'']"

definition clamp_confidence :: "jsnum option \<Rightarrow> jsnum \<Rightarrow> jsnum" where
  "clamp_confidence value fallback =
     (case value of
        Some v \<Rightarrow> if \<not> is_fin v then fallback else js_min (js_max v (Fin 0)) (Fin 1)
      | None \<Rightarrow> fallback)"

definition add_evidence_ids :: "gate_accumulator \<Rightarrow> evidence_fact list \<Rightarrow> gate_accumulator" where
  "add_evidence_ids acc facts = acc\<lparr>evidence_acc := evidence_acc acc @ map fact_id facts\<rparr>"

definition add_blocking :: "string \<Rightarrow> gate_accumulator \<Rightarrow> gate_accumulator" where
  "add_blocking code acc = acc\<lparr>blocking_acc := blocking_acc acc @ [code]\<rparr>"

definition add_critical :: "string \<Rightarrow> gate_accumulator \<Rightarrow> gate_accumulator" where
  "add_critical code acc = acc\<lparr>critical_acc := critical_acc acc @ [code]\<rparr>"

definition add_supporting :: "string \<Rightarrow> gate_accumulator \<Rightarrow> gate_accumulator" where
  "add_supporting code acc = acc\<lparr>supporting_acc := supporting_acc acc @ [code]\<rparr>"

definition has_blocking_unavailable_fact :: "evidence_fact list \<Rightarrow> bool" where
  "has_blocking_unavailable_fact facts =
     list_ex (\<lambda>fact. severity fact = Blocking \<and> availability fact \<noteq> Known) facts"

fun is_positive_finite_number :: "evidence_value \<Rightarrow> bool" where
  "is_positive_finite_number (VNumber v) = (is_fin v \<and> Fin 0 < v)"
| "is_positive_finite_number _ = False"

fun is_positive_integer :: "evidence_value \<Rightarrow> bool" where
  "is_positive_integer (VNumber v) = (js_is_integer v \<and> Fin 0 < v)"
| "is_positive_integer _ = False"

text \<open>The regular expression \<open>/^[A-Z]{3}$/\<close>.\<close>

definition is_upper :: "char \<Rightarrow> bool" where
  "is_upper c \<longleftrightarrow> (let k = of_char c :: nat in 65 \<le> k \<and> k \<le> 90)"

fun is_currency_code :: "evidence_value \<Rightarrow> bool" where
  "is_currency_code (VString s) = (length s = 3 \<and> list_all is_upper s)"
| "is_currency_code _ = False"

section \<open>Critical checks\<close>

definition evaluate_comparable_cost ::
  "evidence_fact list \<Rightarrow> gate_accumulator \<Rightarrow> jsnum \<Rightarrow> gate_accumulator" where
  "evaluate_comparable_cost evidence acc minimum_confidence =
     (let facts = get_facts_by_code evidence ''stay.cost.total'';
          acc = add_evidence_ids acc facts
      in if has_conflict facts then add_blocking ''comparable-cost-conflicting'' acc
         else case get_known_fact evidence ''stay.cost.total'' of
             None \<Rightarrow>
               if has_blocking_unavailable_fact facts
               then add_blocking ''comparable-cost-unavailable'' acc
               else add_critical ''comparable-cost-unverified'' acc
           | Some known \<Rightarrow>
               if \<not> is_positive_finite_number (fact_value known)
               then add_blocking ''comparable-cost-invalid'' acc
               else if fact_confidence known < minimum_confidence
               then add_critical ''comparable-cost-low-confidence'' acc
               else acc)"

definition evaluate_currency ::
  "evidence_fact list \<Rightarrow> gate_accumulator \<Rightarrow> jsnum \<Rightarrow> gate_accumulator" where
  "evaluate_currency evidence acc minimum_confidence =
     (let facts = get_facts_by_code evidence ''stay.currency'';
          acc = add_evidence_ids acc facts
      in if has_conflict facts then add_blocking ''currency-conflicting'' acc
         else case get_known_fact evidence ''stay.currency'' of
             None \<Rightarrow>
               if has_blocking_unavailable_fact facts
               then add_blocking ''currency-unavailable'' acc
               else add_critical ''currency-unverified'' acc
           | Some known \<Rightarrow>
               if \<not> is_currency_code (fact_value known)
               then add_blocking ''currency-invalid'' acc
               else if fact_confidence known < minimum_confidence
               then add_critical ''currency-low-confidence'' acc
               else acc)"

definition evaluate_offer_count ::
  "evidence_fact list \<Rightarrow> gate_accumulator \<Rightarrow> jsnum \<Rightarrow> gate_accumulator" where
  "evaluate_offer_count evidence acc minimum_confidence =
     (let facts = get_facts_by_code evidence ''offer.count'';
          acc = add_evidence_ids acc facts
      in if has_conflict facts then add_blocking ''offer-count-conflicting'' acc
         else case get_known_fact evidence ''offer.count'' of
             None \<Rightarrow>
               if has_blocking_unavailable_fact facts
               then add_blocking ''offers-unavailable'' acc
               else add_critical ''offer-count-unverified'' acc
           | Some known \<Rightarrow>
               if \<not> is_positive_integer (fact_value known)
               then add_blocking ''no-valid-offers'' acc
               else if fact_confidence known < minimum_confidence
               then add_critical ''offer-count-low-confidence'' acc
               else acc)"

definition evaluate_bookability ::
  "evidence_fact list \<Rightarrow> gate_accumulator \<Rightarrow> jsnum \<Rightarrow> gate_accumulator" where
  "evaluate_bookability evidence acc minimum_confidence =
     (let facts = get_facts_by_code evidence ''offer.bookable'';
          acc = add_evidence_ids acc facts
      in if has_conflict facts then add_blocking ''bookability-conflicting'' acc
         else case get_known_fact evidence ''offer.bookable'' of
             None \<Rightarrow> add_critical ''bookability-unverified'' acc
           | Some known \<Rightarrow>
               (case fact_value known of
                  VBool b \<Rightarrow>
                    if \<not> b then add_blocking ''no-bookable-offer'' acc
                    else if fact_confidence known < minimum_confidence
                    then add_critical ''bookability-low-confidence'' acc
                    else acc
                | _ \<Rightarrow> add_blocking ''bookability-invalid'' acc))"

section \<open>Supporting checks\<close>

definition evaluate_cost_completeness ::
  "evidence_fact list \<Rightarrow> gate_accumulator \<Rightarrow> bool \<times> gate_accumulator" where
  "evaluate_cost_completeness evidence acc =
     (let facts = get_facts_by_code evidence ''stay.cost.completeness'';
          acc = add_evidence_ids acc facts
      in if has_conflict facts then (False, add_supporting ''cost-completeness-conflicting'' acc)
         else case get_known_fact evidence ''stay.cost.completeness'' of
             None \<Rightarrow> (False, add_supporting ''cost-completeness-unavailable'' acc)
           | Some known \<Rightarrow>
               if fact_value known = VString ''reported-complete'' then (True, acc)
               else if fact_value known = VString ''reported-tax-status-unknown''
               then (False, add_supporting ''cost-tax-status-unknown'' acc)
               else if fact_value known = VString ''partial''
               then (False, add_supporting ''cost-partially-known'' acc)
               else (False, add_supporting ''cost-not-reported-complete'' acc))"

definition reliable_non_negative :: "evidence_fact option \<Rightarrow> bool" where
  "reliable_non_negative known =
     (case known of
        Some f \<Rightarrow>
          (case fact_value f of
             VNumber v \<Rightarrow> is_fin v \<and> Fin 0 \<le> v \<and> lit 0.8 \<le> fact_confidence f
           | _ \<Rightarrow> False)
      | None \<Rightarrow> False)"

definition reliable_coordinates :: "evidence_fact option \<Rightarrow> bool" where
  "reliable_coordinates known =
     (case known of
        Some f \<Rightarrow>
          (case fact_value f of
             VString s \<Rightarrow> CHR '','' \<in> set s \<and> lit 0.8 \<le> fact_confidence f
           | _ \<Rightarrow> False)
      | None \<Rightarrow> False)"

definition evaluate_location_evidence ::
  "evidence_fact list \<Rightarrow> gate_accumulator \<Rightarrow> bool \<times> gate_accumulator" where
  "evaluate_location_evidence evidence acc =
     (let distance_facts = get_facts_by_code evidence ''location.distance'';
          coordinate_facts = get_facts_by_code evidence ''location.coordinates'';
          acc = add_evidence_ids acc (distance_facts @ coordinate_facts);
          acc = (if has_conflict distance_facts \<or> has_conflict coordinate_facts
                 then add_supporting ''location-evidence-conflicting'' acc else acc)
      in if \<not> reliable_non_negative (get_known_fact evidence ''location.distance'') \<and>
            \<not> reliable_coordinates (get_known_fact evidence ''location.coordinates'')
         then (False, add_supporting ''location-evidence-limited'' acc)
         else (True, acc))"

definition reliable_review_score :: "evidence_fact option \<Rightarrow> bool" where
  "reliable_review_score known =
     (case known of
        Some f \<Rightarrow>
          (case fact_value f of
             VNumber v \<Rightarrow>
               is_fin v \<and> Fin 0 \<le> v \<and> v \<le> Fin 10 \<and> lit 0.8 \<le> fact_confidence f
           | _ \<Rightarrow> False)
      | None \<Rightarrow> False)"

definition evaluate_review_evidence ::
  "evidence_fact list \<Rightarrow> gate_accumulator \<Rightarrow> bool \<times> gate_accumulator" where
  "evaluate_review_evidence evidence acc =
     (let score_facts = get_facts_by_code evidence ''review.score'';
          count_facts = get_facts_by_code evidence ''review.count'';
          acc = add_evidence_ids acc (score_facts @ count_facts)
      in if has_conflict score_facts \<or> has_conflict count_facts
         then (False, add_supporting ''review-evidence-conflicting'' acc)
         else if \<not> reliable_review_score (get_known_fact evidence ''review.score'') \<or>
                 \<not> reliable_non_negative (get_known_fact evidence ''review.count'')
         then (False, add_supporting ''review-evidence-limited'' acc)
         else (True, acc))"

definition evaluate_cancellation_evidence ::
  "evidence_fact list \<Rightarrow> gate_accumulator \<Rightarrow> bool \<times> gate_accumulator" where
  "evaluate_cancellation_evidence evidence acc =
     (let facts = get_facts_by_code evidence ''offer.cancellation'';
          acc = add_evidence_ids acc facts
      in if has_conflict facts
         then (False, add_supporting ''cancellation-evidence-conflicting'' acc)
         else case get_known_fact evidence ''offer.cancellation'' of
             None \<Rightarrow> (False, add_supporting ''cancellation-policy-limited'' acc)
           | Some known \<Rightarrow>
               if fact_confidence known < lit 0.8
               then (False, add_supporting ''cancellation-policy-limited'' acc)
               else (True, acc))"

definition collect_other_conflicts ::
  "evidence_fact list \<Rightarrow> gate_accumulator \<Rightarrow> gate_accumulator" where
  "collect_other_conflicts evidence acc =
     (let handled = critical_field_codes @ supporting_field_codes;
          others = filter (\<lambda>fact. availability fact = Conflicting \<and> fact_code fact \<notin> set handled)
                     evidence
      in if others = [] then acc
         else add_supporting ''non-critical-evidence-conflicts'' (add_evidence_ids acc others))"

definition critical_facts_meet_strong_threshold :: "evidence_fact list \<Rightarrow> jsnum \<Rightarrow> bool" where
  "critical_facts_meet_strong_threshold evidence threshold =
     list_all
       (\<lambda>code. case get_known_fact evidence code of
                 Some known \<Rightarrow> threshold \<le> fact_confidence known
               | None \<Rightarrow> False)
       critical_field_codes"

section \<open>The gate\<close>

definition create_gate_result :: "gate_status \<Rightarrow> bool \<Rightarrow> gate_accumulator \<Rightarrow> reliability_gate" where
  "create_gate_result status eligible acc =
     \<lparr>gate_status = status,
      gate_eligible = eligible,
      blocking_reason_codes = unique_sorted (blocking_acc acc),
      gate_warning_codes = unique_sorted (critical_acc acc @ supporting_acc acc),
      gate_evidence_ids = unique_sorted (evidence_acc acc)\<rparr>"

definition minimum_critical_confidence :: "gate_options \<Rightarrow> jsnum" where
  "minimum_critical_confidence options =
     clamp_confidence (opt_minimum_critical_confidence options) default_minimum_critical_confidence"

definition strong_critical_confidence :: "gate_options \<Rightarrow> jsnum" where
  "strong_critical_confidence options =
     js_max (minimum_critical_confidence options)
       (clamp_confidence (opt_strong_critical_confidence options) default_strong_critical_confidence)"

definition empty_accumulator :: gate_accumulator where
  "empty_accumulator = \<lparr>blocking_acc = [], critical_acc = [], supporting_acc = [], evidence_acc = []\<rparr>"

text \<open>The four critical checks in the order the gate runs them.\<close>

definition critical_checks :: "evidence_fact list \<Rightarrow> jsnum \<Rightarrow> gate_accumulator" where
  "critical_checks evidence minimum =
     (let acc = evaluate_comparable_cost evidence empty_accumulator minimum;
          acc = evaluate_currency evidence acc minimum;
          acc = evaluate_offer_count evidence acc minimum
      in evaluate_bookability evidence acc minimum)"

text \<open>The supporting checks, run only when no critical check has blocked or warned.\<close>

definition supporting_checks ::
  "evidence_fact list \<Rightarrow> gate_accumulator \<Rightarrow> bool \<times> gate_accumulator" where
  "supporting_checks evidence acc =
     (let (complete_cost, acc) = evaluate_cost_completeness evidence acc;
          (reliable_location, acc) = evaluate_location_evidence evidence acc;
          (reliable_reviews, acc) = evaluate_review_evidence evidence acc;
          (reliable_cancellation, acc) = evaluate_cancellation_evidence evidence acc;
          acc = collect_other_conflicts evidence acc
      in (complete_cost \<and> reliable_location \<and> reliable_reviews \<and> reliable_cancellation, acc))"

definition evaluate_reliability_gate :: "evidence_fact list \<Rightarrow> gate_options \<Rightarrow> reliability_gate" where
  "evaluate_reliability_gate evidence options =
     (let minimum = minimum_critical_confidence options;
          strong = strong_critical_confidence options;
          acc = critical_checks evidence minimum
      in if blocking_acc acc \<noteq> [] then create_gate_result GateInvalid False acc
         else if critical_acc acc \<noteq> [] then create_gate_result GateLowConfidence False acc
         else
           let (supported, acc) = supporting_checks evidence acc;
               strong_data =
                 critical_facts_meet_strong_threshold evidence strong \<and> supported \<and>
                 supporting_acc acc = []
           in create_gate_result (if strong_data then GateStrongData else GateUsable) True acc)"

section \<open>The contract of a critical check\<close>

text \<open>
  A critical check looks at the facts of one code: it blocks when they conflict, when the
  best known fact has an invalid value, or (for the fields where a missing value blocks)
  when none is known and a blocking fact says so; it warns when nothing is known or the
  known fact is not confident enough; otherwise it passes.
\<close>

definition field_blocked :: "evidence_fact list \<Rightarrow> string \<Rightarrow> (evidence_value \<Rightarrow> bool) \<Rightarrow> bool \<Rightarrow> bool" where
  "field_blocked ev code valid missing_blocks \<longleftrightarrow>
     has_conflict (get_facts_by_code ev code) \<or>
     (case get_known_fact ev code of
        None \<Rightarrow> missing_blocks \<and> has_blocking_unavailable_fact (get_facts_by_code ev code)
      | Some known \<Rightarrow> \<not> valid (fact_value known))"

definition field_ok :: "evidence_fact list \<Rightarrow> string \<Rightarrow> (evidence_value \<Rightarrow> bool) \<Rightarrow> jsnum \<Rightarrow> bool" where
  "field_ok ev code valid minimum \<longleftrightarrow>
     \<not> has_conflict (get_facts_by_code ev code) \<and>
     (\<exists>known. get_known_fact ev code = Some known \<and> valid (fact_value known) \<and>
        \<not> fact_confidence known < minimum)"

definition clean_acc :: "gate_accumulator \<Rightarrow> bool" where
  "clean_acc acc \<longleftrightarrow> blocking_acc acc = [] \<and> critical_acc acc = []"

locale critical_check =
  fixes check :: "evidence_fact list \<Rightarrow> gate_accumulator \<Rightarrow> jsnum \<Rightarrow> gate_accumulator"
    and code :: string and valid :: "evidence_value \<Rightarrow> bool" and missing_blocks :: bool
  assumes blocking: "blocking_acc (check ev acc m) = [] \<longleftrightarrow>
      blocking_acc acc = [] \<and> \<not> field_blocked ev code valid missing_blocks"
    and passes: "blocking_acc (check ev acc m) = [] \<Longrightarrow>
      critical_acc (check ev acc m) = [] \<longleftrightarrow> critical_acc acc = [] \<and> field_ok ev code valid m"
    and keeps_critical: "critical_acc acc \<noteq> [] \<Longrightarrow> critical_acc (check ev acc m) \<noteq> []"
    and supporting: "supporting_acc (check ev acc m) = supporting_acc acc"
    and traced: "evidence_acc (check ev acc m) =
      evidence_acc acc @ map fact_id (get_facts_by_code ev code)"
    and codes_nonempty: "[] \<notin> set (blocking_acc acc) \<Longrightarrow> [] \<notin> set (blocking_acc (check ev acc m))"
begin

lemma ok_not_blocked: "field_ok ev code valid m \<Longrightarrow> \<not> field_blocked ev code valid missing_blocks"
  by (auto simp: field_ok_def field_blocked_def)

text \<open>A check leaves the accumulator clean exactly when it was clean and the field passes.\<close>

lemma clean: "clean_acc (check ev acc m) \<longleftrightarrow> clean_acc acc \<and> field_ok ev code valid m"
  using blocking passes ok_not_blocked unfolding clean_acc_def by blast

end

lemmas accumulator_defs =
  add_evidence_ids_def add_blocking_def add_critical_def add_supporting_def

lemmas check_defs =
  evaluate_comparable_cost_def evaluate_currency_def evaluate_offer_count_def
  evaluate_bookability_def accumulator_defs field_blocked_def field_ok_def

interpretation cost: critical_check evaluate_comparable_cost "''stay.cost.total''" is_positive_finite_number True
  by unfold_locales (auto simp: check_defs Let_def split: option.splits if_splits)

interpretation currency: critical_check evaluate_currency "''stay.currency''" is_currency_code True
  by unfold_locales (auto simp: check_defs Let_def split: option.splits if_splits)

interpretation offers: critical_check evaluate_offer_count "''offer.count''" is_positive_integer True
  by unfold_locales (auto simp: check_defs Let_def split: option.splits if_splits)

interpretation bookable: critical_check evaluate_bookability "''offer.bookable''" "\<lambda>v. v = VBool True" False
  by unfold_locales
    (auto simp: check_defs Let_def split: option.splits if_splits evidence_value.splits)

section \<open>The critical checks together\<close>

definition critical_fields_ok :: "evidence_fact list \<Rightarrow> jsnum \<Rightarrow> bool" where
  "critical_fields_ok ev minimum \<longleftrightarrow>
     field_ok ev ''stay.cost.total'' is_positive_finite_number minimum \<and>
     field_ok ev ''stay.currency'' is_currency_code minimum \<and>
     field_ok ev ''offer.count'' is_positive_integer minimum \<and>
     field_ok ev ''offer.bookable'' (\<lambda>v. v = VBool True) minimum"

definition critical_field_blocked :: "evidence_fact list \<Rightarrow> bool" where
  "critical_field_blocked ev \<longleftrightarrow>
     field_blocked ev ''stay.cost.total'' is_positive_finite_number True \<or>
     field_blocked ev ''stay.currency'' is_currency_code True \<or>
     field_blocked ev ''offer.count'' is_positive_integer True \<or>
     field_blocked ev ''offer.bookable'' (\<lambda>v. v = VBool True) False"

lemma critical_checks_clean: "clean_acc (critical_checks ev m) \<longleftrightarrow> critical_fields_ok ev m"
proof -
  have "clean_acc empty_accumulator" by (simp add: clean_acc_def empty_accumulator_def)
  then show ?thesis
    by (auto simp: critical_checks_def Let_def cost.clean currency.clean offers.clean
        bookable.clean critical_fields_ok_def)
qed

lemma critical_fields_ok_not_blocked: "critical_fields_ok ev m \<Longrightarrow> \<not> critical_field_blocked ev"
  by (auto simp: critical_fields_ok_def critical_field_blocked_def
      dest: cost.ok_not_blocked currency.ok_not_blocked offers.ok_not_blocked bookable.ok_not_blocked)

lemma critical_checks_nonempty: "[] \<notin> set (blocking_acc (critical_checks ev m))"
  unfolding critical_checks_def Let_def
  by (intro cost.codes_nonempty currency.codes_nonempty offers.codes_nonempty bookable.codes_nonempty)
    (simp add: empty_accumulator_def)

lemma critical_checks_blocking:
  "blocking_acc (critical_checks ev m) = [] \<longleftrightarrow> \<not> critical_field_blocked ev"
  by (auto simp: critical_checks_def Let_def cost.blocking currency.blocking offers.blocking
      bookable.blocking empty_accumulator_def critical_field_blocked_def)

lemma critical_checks_supporting: "supporting_acc (critical_checks ev m) = []"
  by (simp add: critical_checks_def Let_def cost.supporting currency.supporting offers.supporting
      bookable.supporting empty_accumulator_def)

lemma critical_checks_traced: "set (evidence_acc (critical_checks ev m)) \<subseteq> fact_id ` set ev"
  by (auto simp: critical_checks_def Let_def cost.traced currency.traced offers.traced
      bookable.traced empty_accumulator_def get_facts_by_code_set)

section \<open>The contract of a supporting check\<close>

text \<open>
  A supporting check neither blocks nor warns critically, records only facts of the input,
  and a check that fails leaves a supporting warning.
\<close>

locale supporting_check =
  fixes check :: "evidence_fact list \<Rightarrow> gate_accumulator \<Rightarrow> bool \<times> gate_accumulator"
  assumes keeps_blocking: "blocking_acc (snd (check ev acc)) = blocking_acc acc"
    and keeps_critical: "critical_acc (snd (check ev acc)) = critical_acc acc"
    and warns: "supporting_acc (snd (check ev acc)) = [] \<Longrightarrow> supporting_acc acc = [] \<and> fst (check ev acc)"
    and traced: "set (evidence_acc (snd (check ev acc))) \<subseteq> set (evidence_acc acc) \<union> fact_id ` set ev"
    and codes_nonempty: "[] \<notin> set (supporting_acc acc) \<Longrightarrow> [] \<notin> set (supporting_acc (snd (check ev acc)))"

interpretation completeness: supporting_check evaluate_cost_completeness
  by unfold_locales
    (auto simp: evaluate_cost_completeness_def accumulator_defs Let_def get_facts_by_code_set
      split: option.splits if_splits)

interpretation location: supporting_check evaluate_location_evidence
  by unfold_locales
    (auto simp: evaluate_location_evidence_def accumulator_defs Let_def get_facts_by_code_set
      split: if_splits)

interpretation review: supporting_check evaluate_review_evidence
  by unfold_locales
    (auto simp: evaluate_review_evidence_def accumulator_defs Let_def get_facts_by_code_set
      split: if_splits)

interpretation cancellation: supporting_check evaluate_cancellation_evidence
  by unfold_locales
    (auto simp: evaluate_cancellation_evidence_def accumulator_defs Let_def get_facts_by_code_set
      split: option.splits if_splits)

interpretation others: supporting_check "\<lambda>ev acc. (True, collect_other_conflicts ev acc)"
  by unfold_locales
    (auto simp: collect_other_conflicts_def accumulator_defs Let_def split: if_splits)

lemma supporting_checks_eq:
  "supporting_checks ev acc =
     (let r1 = evaluate_cost_completeness ev acc;
          r2 = evaluate_location_evidence ev (snd r1);
          r3 = evaluate_review_evidence ev (snd r2);
          r4 = evaluate_cancellation_evidence ev (snd r3)
      in (fst r1 \<and> fst r2 \<and> fst r3 \<and> fst r4, collect_other_conflicts ev (snd r4)))"
  by (simp add: supporting_checks_def Let_def case_prod_beta)

lemma supporting_checks_traced:
  "set (evidence_acc (snd (supporting_checks ev acc))) \<subseteq> set (evidence_acc acc) \<union> fact_id ` set ev"
  using completeness.traced [of ev acc] location.traced review.traced cancellation.traced others.traced
  unfolding supporting_checks_eq Let_def snd_conv by blast

lemma supporting_checks_warns:
  "supporting_acc (snd (supporting_checks ev acc)) = [] \<Longrightarrow> fst (supporting_checks ev acc)"
  using completeness.warns [of ev acc] location.warns review.warns cancellation.warns others.warns
  unfolding supporting_checks_eq Let_def snd_conv fst_conv by metis

lemma supporting_checks_blocking: "blocking_acc (snd (supporting_checks ev acc)) = blocking_acc acc"
  using completeness.keeps_blocking location.keeps_blocking review.keeps_blocking
    cancellation.keeps_blocking others.keeps_blocking
  unfolding supporting_checks_eq Let_def snd_conv by metis

lemma supporting_checks_critical: "critical_acc (snd (supporting_checks ev acc)) = critical_acc acc"
  using completeness.keeps_critical location.keeps_critical review.keeps_critical
    cancellation.keeps_critical others.keeps_critical
  unfolding supporting_checks_eq Let_def snd_conv by metis

lemma supporting_checks_nonempty:
  "[] \<notin> set (supporting_acc acc) \<Longrightarrow> [] \<notin> set (supporting_acc (snd (supporting_checks ev acc)))"
  using completeness.codes_nonempty location.codes_nonempty review.codes_nonempty
    cancellation.codes_nonempty others.codes_nonempty
  unfolding supporting_checks_eq Let_def snd_conv by metis

section \<open>The contract of the gate\<close>

lemma gate_cases:
  obtains (invalid) "critical_field_blocked ev"
      "evaluate_reliability_gate ev opts =
         create_gate_result GateInvalid False (critical_checks ev (minimum_critical_confidence opts))"
  | (low) "\<not> critical_field_blocked ev"
      "\<not> critical_fields_ok ev (minimum_critical_confidence opts)"
      "evaluate_reliability_gate ev opts =
         create_gate_result GateLowConfidence False (critical_checks ev (minimum_critical_confidence opts))"
  | (passed) acc where "critical_fields_ok ev (minimum_critical_confidence opts)"
      "\<not> critical_field_blocked ev"
      "acc = snd (supporting_checks ev (critical_checks ev (minimum_critical_confidence opts)))"
      "evaluate_reliability_gate ev opts =
         create_gate_result
           (if critical_facts_meet_strong_threshold ev (strong_critical_confidence opts) \<and>
               supporting_acc acc = [] then GateStrongData else GateUsable) True acc"
proof -
  let ?c = "critical_checks ev (minimum_critical_confidence opts)"
  consider "blocking_acc ?c \<noteq> []" | "blocking_acc ?c = []" "critical_acc ?c \<noteq> []"
    | "blocking_acc ?c = []" "critical_acc ?c = []" by blast
  then show thesis
  proof cases
    case 1
    then show thesis
      by (intro invalid) (simp_all add: critical_checks_blocking evaluate_reliability_gate_def Let_def)
  next
    case 2
    then show thesis
      using critical_checks_clean [of ev "minimum_critical_confidence opts"]
      by (intro low) (simp_all add: critical_checks_blocking clean_acc_def evaluate_reliability_gate_def Let_def)
  next
    case 3
    then show thesis
      using critical_checks_clean [of ev "minimum_critical_confidence opts"]
        critical_checks_blocking [of ev "minimum_critical_confidence opts"]
        supporting_checks_warns [of ev ?c]
      by (intro passed [OF _ _ refl])
        (auto simp: clean_acc_def evaluate_reliability_gate_def
          Let_def case_prod_beta)
  qed
qed

section \<open>Properties of the gate\<close>

lemma gate_eligible_eq:
  "gate_eligible (evaluate_reliability_gate ev opts) \<longleftrightarrow>
     critical_fields_ok ev (minimum_critical_confidence opts)"
  by (cases ev opts rule: gate_cases)
    (auto simp: create_gate_result_def dest: critical_fields_ok_not_blocked)

text \<open>A stay passes the reliability gate exactly when each of the four critical fields (total
  cost, currency, number of offers, bookability) passes: no two sources conflict on it, its
  most confident known fact has a valid value (a positive finite price, a three-letter
  currency code, a positive whole number of offers, bookable true), and that fact's
  confidence is not below the configured minimum.\<close>

theorem gate_eligible_iff:
  "gate_eligible (evaluate_reliability_gate ev opts) \<longleftrightarrow>
     critical_fields_ok ev (minimum_critical_confidence opts)"
  by (rule gate_eligible_eq)

lemma clamp_confidence_bounds:
  "Fin 0 \<le> fb \<Longrightarrow> fb \<le> Fin 1 \<Longrightarrow> Fin 0 \<le> clamp_confidence v fb \<and> clamp_confidence v fb \<le> Fin 1"
  using clamp_bounds [of _ "Fin 0" "Fin 1"]
  by (auto simp: clamp_confidence_def clamp_def is_fin_iff split: option.splits)

lemma lit_unit_interval: "0 \<le> q \<Longrightarrow> q \<le> 1 \<Longrightarrow> Fin 0 \<le> lit q \<and> lit q \<le> Fin 1"
  using rnd_mono [of 0 q] rnd_mono [of q 1] by simp

lemma minimum_critical_confidence_bounds:
  "Fin 0 \<le> minimum_critical_confidence opts \<and> minimum_critical_confidence opts \<le> Fin 1"
  unfolding minimum_critical_confidence_def default_minimum_critical_confidence_def
  by (rule clamp_confidence_bounds) (simp_all add: lit_unit_interval)

lemma field_ok_fact:
  assumes "field_ok ev code valid m" and num: "numeric_evidence ev" and "m \<noteq> NaN"
  shows "\<exists>known \<in> set ev. fact_code known = code \<and> availability known = Known \<and>
     valid (fact_value known) \<and> m \<le> fact_confidence known \<and>
     (\<forall>other \<in> set ev. fact_code other = code \<longrightarrow> availability other \<noteq> Conflicting \<and>
        (availability other = Known \<longrightarrow> fact_confidence other \<le> fact_confidence known))"
proof -
  from assms(1) obtain known where k: "get_known_fact ev code = Some known" "valid (fact_value known)"
      "\<not> fact_confidence known < m" and c: "\<not> has_conflict (get_facts_by_code ev code)"
    by (auto simp: field_ok_def)
  have "known \<in> set ev" using get_known_fact_in [OF k(1)] by simp
  with num have "fact_confidence known \<noteq> NaN"
    by (metis js_wf.simps(4) numeric_evidence_def)
  with k(3) assms(3) have "m \<le> fact_confidence known" by (simp add: jsnum_not_less)
  with get_known_fact_in [OF k(1)] get_known_fact_maximal [OF num k(1)] k(2) c show ?thesis
    by (auto simp: has_conflict_iff get_facts_by_code_set intro!: bexI [of _ known])
qed

text \<open>C26. What an eligible stay may rely on, stated over the evidence itself: when the gate passes
  a stay (and no confidence is NaN), the evidence holds a known total-cost fact with a
  positive finite price and a known bookable-true fact, each at least as confident as the
  minimum and as every other known fact of its field, and no fact of these fields is in
  conflict.\<close>

theorem gate_eligible_sound:
  assumes "numeric_evidence ev" and "gate_eligible (evaluate_reliability_gate ev opts)"
  shows "(\<exists>cost \<in> set ev. \<exists>price. fact_code cost = ''stay.cost.total'' \<and>
      availability cost = Known \<and> fact_value cost = VNumber (Fin price) \<and> 0 < price \<and>
      minimum_critical_confidence opts \<le> fact_confidence cost) \<and>
    (\<exists>book \<in> set ev. fact_code book = ''offer.bookable'' \<and> availability book = Known \<and>
      fact_value book = VBool True \<and> minimum_critical_confidence opts \<le> fact_confidence book) \<and>
    (\<forall>fact \<in> set ev. fact_code fact \<in> set critical_field_codes \<longrightarrow> availability fact \<noteq> Conflicting)"
    (is "?cost \<and> ?book \<and> ?free")
proof (intro conjI)
  have m: "minimum_critical_confidence opts \<noteq> NaN"
    using minimum_critical_confidence_bounds [of opts] by auto
  from assms(2) have ok: "critical_fields_ok ev (minimum_critical_confidence opts)"
    by (simp add: gate_eligible_eq)
  have price: "is_positive_finite_number v \<longleftrightarrow> (\<exists>p. v = VNumber (Fin p) \<and> 0 < p)" for v
    by (cases v rule: is_positive_finite_number.cases) (auto simp: is_fin_iff)
  from ok field_ok_fact [OF _ assms(1) m, of "''stay.cost.total''" is_positive_finite_number]
  show ?cost unfolding critical_fields_ok_def price by blast
  from ok field_ok_fact [OF _ assms(1) m, of "''offer.bookable''" "\<lambda>v. v = VBool True"]
  show ?book unfolding critical_fields_ok_def by blast
  from ok show ?free
    by (auto simp: critical_fields_ok_def field_ok_def has_conflict_iff get_facts_by_code_set
        critical_field_codes_def)
qed

text \<open>A stay with one confident known fact per critical field, for the witnesses.\<close>

definition sample_fact :: "id \<Rightarrow> string \<Rightarrow> evidence_value \<Rightarrow> jsnum \<Rightarrow> evidence_fact" where
  "sample_fact i code val conf =
     \<lparr>fact_id = i, fact_code = code, availability = Known, fact_value = val, fact_unit = None,
      fact_source = FromProvider, source_provider = None, source_field = None,
      fact_confidence = conf, severity = Information, missing_reason_code = None,
      captured_at = None, derived_from = []\<rparr>"

definition sample_evidence :: "evidence_fact list" where
  "sample_evidence =
     [sample_fact ''c'' ''stay.cost.total'' (VNumber (Fin 240)) (Fin 1),
      sample_fact ''k'' ''stay.currency'' (VString ''EUR'') (Fin 1),
      sample_fact ''n'' ''offer.count'' (VNumber (Fin 3)) (Fin 1),
      sample_fact ''b'' ''offer.bookable'' (VBool True) (Fin (1/2))]"

definition sample_options :: "jsnum \<Rightarrow> gate_options" where
  "sample_options m = \<lparr>opt_minimum_critical_confidence = Some m, opt_strong_critical_confidence = None\<rparr>"

lemma sample_numeric: "numeric_evidence sample_evidence"
  by (simp add: numeric_evidence_def sample_evidence_def sample_fact_def)

lemma sample_eligible:
  "gate_eligible (evaluate_reliability_gate sample_evidence (sample_options (Fin (1/2))))"
  by (simp add: gate_eligible_eq critical_fields_ok_def field_ok_def get_known_fact_def
      get_facts_by_code_def has_conflict_def sample_evidence_def sample_fact_def sample_options_def
      minimum_critical_confidence_def clamp_confidence_def js_min_def js_max_def is_upper_def)

theorem gate_eligible_sound_witness:
  "(\<exists>cost \<in> set sample_evidence. \<exists>price. fact_code cost = ''stay.cost.total'' \<and>
      availability cost = Known \<and> fact_value cost = VNumber (Fin price) \<and> 0 < price \<and>
      minimum_critical_confidence (sample_options (Fin (1/2))) \<le> fact_confidence cost)"
  using gate_eligible_sound [OF sample_numeric sample_eligible] by blast

text \<open>The status of the gate is decided by its findings: it is invalid exactly when a critical
  field blocks, low-confidence exactly when none blocks but some does not pass, and it is
  usable or strong-data exactly when the stay is eligible; blocking reasons are reported
  exactly for the invalid status.\<close>

theorem gate_status_iff:
  "(gate_status (evaluate_reliability_gate ev opts) = GateInvalid \<longleftrightarrow> critical_field_blocked ev) \<and>
   (gate_status (evaluate_reliability_gate ev opts) = GateLowConfidence \<longleftrightarrow>
      \<not> critical_field_blocked ev \<and> \<not> critical_fields_ok ev (minimum_critical_confidence opts)) \<and>
   (gate_status (evaluate_reliability_gate ev opts) \<in> {GateUsable, GateStrongData} \<longleftrightarrow>
      gate_eligible (evaluate_reliability_gate ev opts)) \<and>
   (blocking_reason_codes (evaluate_reliability_gate ev opts) \<noteq> [] \<longleftrightarrow>
      gate_status (evaluate_reliability_gate ev opts) = GateInvalid)"
proof -
  have "blocking_reason_codes (create_gate_result st el acc) \<noteq> [] \<longleftrightarrow> blocking_acc acc \<noteq> []"
    if "[] \<notin> set (blocking_acc acc)" for st el acc
    using that by (cases "blocking_acc acc") (auto simp: create_gate_result_def)
  note blocks = this [OF critical_checks_nonempty]
    this [of "snd (supporting_checks ev (critical_checks ev m))" for ev m,
      unfolded supporting_checks_blocking, OF critical_checks_nonempty]
  show ?thesis
      by (cases ev opts rule: gate_cases)
      (auto simp: blocks critical_checks_blocking, auto simp: create_gate_result_def
        dest: critical_fields_ok_not_blocked)
qed

text \<open>Strong data means no open question: a stay is strong-data exactly when it is eligible,
  every critical field has a known fact at least as confident as the strong threshold, and
  the gate reports no warning at all; then it reports no blocking reason either.\<close>

theorem gate_strong_data_iff:
  "gate_status (evaluate_reliability_gate ev opts) = GateStrongData \<longleftrightarrow>
     gate_eligible (evaluate_reliability_gate ev opts) \<and>
     gate_warning_codes (evaluate_reliability_gate ev opts) = [] \<and>
     critical_facts_meet_strong_threshold ev (strong_critical_confidence opts)"
proof (cases ev opts rule: gate_cases)
  case (passed acc)
  have c: "critical_acc acc = []" "[] \<notin> set (supporting_acc acc)"
    using passed(1,3) critical_checks_clean [of ev "minimum_critical_confidence opts"]
    by (simp_all add: supporting_checks_critical clean_acc_def supporting_checks_nonempty
        critical_checks_supporting)
  then have "gate_warning_codes (evaluate_reliability_gate ev opts) = [] \<longleftrightarrow> supporting_acc acc = []"
    by (cases "supporting_acc acc") (auto simp: passed(4) create_gate_result_def)
  then show ?thesis by (auto simp: passed(4) create_gate_result_def)
qed (simp_all add: create_gate_result_def)

text \<open>The gate invents no evidence: every identifier it reports is the identifier of a fact of
  its input, without duplicates and in order.\<close>

theorem gate_evidence_traceable:
  "set (gate_evidence_ids (evaluate_reliability_gate ev opts)) \<subseteq> fact_id ` set ev \<and>
   distinct (gate_evidence_ids (evaluate_reliability_gate ev opts)) \<and>
   sorted (gate_evidence_ids (evaluate_reliability_gate ev opts))"
proof (cases ev opts rule: gate_cases)
  case (passed acc)
  have "set (evidence_acc acc) \<subseteq> fact_id ` set ev"
    using supporting_checks_traced [of ev "critical_checks ev (minimum_critical_confidence opts)"]
      critical_checks_traced [of ev "minimum_critical_confidence opts"] unfolding passed(3) by blast
  then show ?thesis by (auto simp: passed(4) create_gate_result_def sorted_unique_sorted)
qed (use critical_checks_traced [of ev "minimum_critical_confidence opts"] in
    \<open>auto simp: create_gate_result_def sorted_unique_sorted\<close>)

text \<open>Raising the minimum confidence never lets a stay in: whatever passes under the stricter
  minimum passes under the weaker one.\<close>

theorem gate_minimum_antitone:
  assumes "minimum_critical_confidence weak \<le> minimum_critical_confidence strict"
    and "gate_eligible (evaluate_reliability_gate ev strict)"
  shows "gate_eligible (evaluate_reliability_gate ev weak)"
proof -
  have "field_ok ev code valid (minimum_critical_confidence strict) \<Longrightarrow>
      field_ok ev code valid (minimum_critical_confidence weak)" for code valid
    using jsnum_less_le_trans [OF _ assms(1)] by (auto simp: field_ok_def)
  with assms(2) show ?thesis by (auto simp: gate_eligible_eq critical_fields_ok_def)
qed

lemma sample_minimum_antitone:
  "minimum_critical_confidence (sample_options (Fin 0)) \<le> minimum_critical_confidence (sample_options (Fin (1/2)))"
  by (simp add: sample_options_def minimum_critical_confidence_def clamp_confidence_def js_min_def js_max_def)

theorem gate_minimum_antitone_witness:
  "gate_eligible (evaluate_reliability_gate sample_evidence (sample_options (Fin 0)))"
  by (rule gate_minimum_antitone [OF sample_minimum_antitone sample_eligible])

end
