(* ===== verification/FloatSums.thy ===== *)
theory FloatSums
  imports Prelude
begin

text \<open>
  Sums and weighted means in double arithmetic, as the engines compute them with
  \<open>reduce\<close>: monotonicity of a sum in its terms, sums over part of a list, and the mean
  \<open>sum (s * w) / sum w\<close>, which rounding can push outside the range of the scores by a
  few units in the last place, but not by more than the final rounding to decimals undoes.
\<close>

section \<open>Results of rounding are doubles\<close>

lemma rnd_mag_double:
  assumes q: "0 < q" and r: "rnd_mag q < 2 powi 1024"
  shows "double (rnd_mag q)"
proof -
  let ?e = "ulp_exp q"
  have e: "-1074 \<le> ?e" "rlog2 q + 1 \<le> ?e + 53" by (simp_all add: ulp_exp_def)
  have "q < 2 powi (rlog2 q + 1)" by (rule rlog2_bounds(2) [OF q])
  also have "\<dots> \<le> 2 powi (?e + 53)" using e(2) by (rule powi_mono)
  also have "\<dots> = 2 ^ 53 * 2 powi ?e" by (simp add: power_int_add powi_of_nat [of 53, simplified])
  finally have "q / 2 powi ?e \<le> of_int (2 ^ 53)" by (simp add: divide_le_eq less_imp_le)
  then have up: "round_even (q / 2 powi ?e) \<le> 2 ^ 53"
    using round_even_mono [of "q / 2 powi ?e" "of_int (2 ^ 53)"]
    by (simp only: round_even_of_int)
  have lo: "0 \<le> round_even (q / 2 powi ?e)"
    using round_even_mono [of "of_int 0" "q / 2 powi ?e"] q
    by (simp only: round_even_of_int) (simp add: less_imp_le)
  have "rnd_mag q = of_int (round_even (q / 2 powi ?e)) * 2 powi ?e"
    by (simp add: rnd_mag_def Let_def)
  with up lo e(1) r rnd_mag_nonneg [OF q] show ?thesis
    unfolding double_def by (intro exI [of _ "round_even (q / 2 powi ?e)"] exI [of _ ?e]) auto
qed

theorem rnd_double: "rnd q = Fin r \<Longrightarrow> double r"
proof -
  have pos: "double r" if "0 < q" "rnd q = Fin r" for q r
    using that rnd_mag_double [of q] by (auto simp: rnd_pos_form split: if_splits)
  assume r: "rnd q = Fin r"
  consider "0 < q" | "q = 0" | "0 < - q" by linarith
  then show ?thesis
  proof cases
    case 2
    with r show ?thesis using double_of_int [of 0] by simp
  next
    case 3
    from r have "rnd (- q) = Fin (- r)" by (simp add: rnd_minus)
    from pos [OF 3 this] show ?thesis by simp
  qed (use pos r in auto)
qed

fun js_double :: "jsnum \<Rightarrow> bool" where
  "js_double (Fin q) = double q"
| "js_double NaN = False"
| "js_double _ = True"

lemma js_double_rnd [simp]: "js_double (rnd q)"
  using rnd_double [of q] by (cases "rnd q") auto

lemma double_0 [simp]: "double 0"
  using double_of_int [of 0] by simp

lemma js_double_0: "js_double (Fin 0)"
  by simp

lemma js_double_add: "a + b \<noteq> NaN \<Longrightarrow> js_double (a + b)"
  by (cases a; cases b) auto

section \<open>Sums of non-negative terms\<close>

lemma add_nonneg: "Fin 0 \<le> a \<Longrightarrow> Fin 0 \<le> b \<Longrightarrow> Fin 0 \<le> a + b"
  by (cases a; cases b) (auto intro: rnd_nonneg)

lemma add_nonneg_increasing:
  "js_double a \<Longrightarrow> Fin 0 \<le> a \<Longrightarrow> Fin 0 \<le> b \<Longrightarrow> a \<le> a + b"
  by (cases a; cases b) (auto intro: rnd_ge_double)

lemma foldl_add_nonneg:
  "Fin 0 \<le> a \<Longrightarrow> (\<And>x. x \<in> set xs \<Longrightarrow> Fin 0 \<le> x) \<Longrightarrow> Fin 0 \<le> foldl (+) a xs"
  by (induction xs arbitrary: a) (auto intro: add_nonneg)

lemma js_sum_nonneg: "(\<And>x. x \<in> set xs \<Longrightarrow> Fin 0 \<le> x) \<Longrightarrow> Fin 0 \<le> js_sum xs"
  unfolding js_sum_def by (rule foldl_add_nonneg) auto

lemma nonneg_add_mono:
  "Fin 0 \<le> a \<Longrightarrow> a \<le> b \<Longrightarrow> Fin 0 \<le> c \<Longrightarrow> c \<le> d \<Longrightarrow> a + c \<le> b + d"
  by (cases a; cases b; cases c; cases d) (auto intro: rnd_mono)

lemma foldl_add_mono:
  assumes "Fin 0 \<le> a" and "a \<le> b" and "\<And>x. x \<in> set ds \<Longrightarrow> Fin 0 \<le> f x \<and> f x \<le> g x"
  shows "foldl (+) a (map f ds) \<le> foldl (+) b (map g ds)"
  using assms
proof (induction ds arbitrary: a b)
  case (Cons d ds)
  then have "Fin 0 \<le> a + f d" "a + f d \<le> b + g d"
    by (auto intro: add_nonneg nonneg_add_mono)
  with Cons.IH [of "a + f d" "b + g d"] Cons.prems(3) show ?case by simp
qed simp

lemma js_sum_mono:
  "(\<And>x. x \<in> set ds \<Longrightarrow> Fin 0 \<le> f x \<and> f x \<le> g x) \<Longrightarrow> js_sum (map f ds) \<le> js_sum (map g ds)"
  unfolding js_sum_def by (rule foldl_add_mono) auto

lemma foldl_add_filter_le:
  assumes "js_double a" and "js_double b" and "Fin 0 \<le> a" and "a \<le> b" and "\<And>x. x \<in> set ds \<Longrightarrow> Fin 0 \<le> f x"
  shows "foldl (+) a (map f (filter P ds)) \<le> foldl (+) b (map f ds)"
  using assms
proof (induction ds arbitrary: a b)
  case (Cons d ds)
  have f: "Fin 0 \<le> f d" using Cons.prems(5) by simp
  have b: "Fin 0 \<le> b" by (rule jsnum_le_trans [OF Cons.prems(3,4)])
  have nn: "a + f d \<noteq> NaN" "b + f d \<noteq> NaN"
    using add_nonneg [OF Cons.prems(3) f] add_nonneg [OF b f] by auto
  have le: "f d \<le> f d" using f by auto
  show ?case
  proof (cases "P d")
    case True
    have "foldl (+) (a + f d) (map f (filter P ds)) \<le> foldl (+) (b + f d) (map f ds)"
      using nn Cons.prems f le
      by (intro Cons.IH js_double_add add_nonneg nonneg_add_mono) auto
    with True show ?thesis by simp
  next
    case False
    have "a \<le> b + f d"
      using Cons.prems(4) add_nonneg_increasing [OF Cons.prems(2) b f] by (rule jsnum_le_trans)
    with False Cons.IH [of a "b + f d"] nn Cons.prems show ?thesis
      by (auto simp: js_double_add)
  qed
qed simp

lemma js_sum_filter_le:
  "(\<And>x. x \<in> set ds \<Longrightarrow> Fin 0 \<le> f x) \<Longrightarrow> js_sum (map f (filter P ds)) \<le> js_sum (map f ds)"
  unfolding js_sum_def by (rule foldl_add_filter_le) auto

lemma js_sum_double: "(\<And>x. x \<in> set xs \<Longrightarrow> Fin 0 \<le> x) \<Longrightarrow> js_double (js_sum xs)"
proof (induction xs rule: rev_induct)
  case (snoc x xs)
  then have "Fin 0 \<le> js_sum xs + x" by (intro add_nonneg js_sum_nonneg) auto
  then show ?case by (auto simp: js_sum_def intro!: js_double_add)
qed (simp add: js_sum_def)

lemma add_zero_right: "js_double a \<Longrightarrow> a + Fin 0 = a"
  by (cases a) (auto simp: rnd_exact)

text \<open>A sum of non-negative doubles is at least each of them.\<close>

lemma js_sum_ge_member:
  assumes "\<And>d. d \<in> set ds \<Longrightarrow> Fin 0 \<le> w d \<and> js_double (w d)" and "d \<in> set ds"
  shows "w d \<le> js_sum (map w ds)"
proof -
  obtain as bs where ds: "ds = as @ d # bs" using assms(2) by (auto simp: in_set_conv_decomp)
  have as: "Fin 0 \<le> js_sum (map w as)" "js_double (js_sum (map w as))"
    using assms(1) ds by (auto intro!: js_sum_nonneg js_sum_double)
  have d: "Fin 0 \<le> w d" "js_double (w d)" using assms by auto
  have "w d \<le> js_sum (map w as) + w d"
    using add_nonneg_increasing [OF d(2,1) as(1)]
    by (cases "w d"; cases "js_sum (map w as)") (auto simp: add.commute)
  also have "\<dots> \<le> foldl (+) (js_sum (map w as) + w d) (map w bs)"
  proof -
    have "foldl (+) a (map (\<lambda>_. Fin 0) bs) = a" if "js_double a" for a
      using that by (induction bs arbitrary: a) (auto simp: add_zero_right)
    moreover have nn: "js_sum (map w as) + w d \<noteq> NaN" using add_nonneg [OF as(1) d(1)] by auto
    ultimately show ?thesis
      using foldl_add_mono [of "js_sum (map w as) + w d" "js_sum (map w as) + w d" bs "\<lambda>_. Fin 0" w]
        add_nonneg [OF as(1) d(1)] assms(1) ds js_double_add [OF nn] by auto
  qed
  finally show ?thesis by (simp add: ds js_sum_def)
qed

lemma js_sum_le_length:
  assumes "length ds \<le> 1000" and "\<And>x. x \<in> set ds \<Longrightarrow> Fin 0 \<le> f x \<and> f x \<le> Fin 1"
  shows "js_sum (map f ds) \<le> Fin (of_nat (length ds))"
  using assms
proof (induction ds rule: rev_induct)
  case (snoc x xs)
  then have "js_sum (map f xs) + f x \<le> Fin (of_nat (length xs)) + Fin 1"
    by (intro nonneg_add_mono js_sum_nonneg) auto
  also have "\<dots> = Fin (of_nat (length (xs @ [x])))"
    using rnd_of_int [of "int (length xs) + 1"] snoc.prems(1) by (simp add: add.commute)
  finally show ?case by (simp add: js_sum_def)
qed (simp add: js_sum_def)

section \<open>Weighted means\<close>

text \<open>
  One more term of the two sums \<open>n = sum (s * w)\<close> and \<open>d = sum w\<close>, with the score between
  \<open>lo\<close> and \<open>hi\<close>: the ratio leaves the range by at most a factor \<open>1 + 3 eps\<close>.
\<close>

definition mean_upto :: "nat \<Rightarrow> rat \<Rightarrow> rat \<Rightarrow> jsnum \<Rightarrow> jsnum \<Rightarrow> bool" where
  "mean_upto k lo hi N D \<longleftrightarrow>
     (\<exists>n d. N = Fin n \<and> D = Fin d \<and> on_grid n \<and> on_grid d \<and> 0 \<le> n \<and> 0 \<le> d \<and>
        n \<le> of_nat (k * 100) \<and> d \<le> of_nat k \<and>
        n \<le> hi * ((1 + eps) * (1 + 3 * eps) ^ k) * d \<and>
        lo * ((1 - eps) * (1 - 3 * eps) ^ k) * d \<le> n)"

lemma mean_step_upper:
  assumes n: "n \<le> hi * c * d" and p: "p \<le> hi * (1 + eps) * w" and c: "1 + eps \<le> c"
    and n': "n' \<le> (n + p) * (1 + eps)" and d': "(d + w) * (1 - eps) \<le> d'"
    and nn: "0 \<le> hi" "0 \<le> d" "0 \<le> w"
  shows "n' \<le> hi * (c * (1 + 3 * eps)) * (d' :: rat)"
proof -
  have "hi * (1 + eps) * w \<le> hi * c * w"
    using c nn by (intro mult_right_mono mult_left_mono) auto
  with n p have "n + p \<le> hi * c * (d + w)" by (simp add: distrib_left)
  then have "(n + p) * (1 + eps) \<le> hi * c * (d + w) * (1 + eps)"
    by (rule mult_right_mono) simp
  also have "\<dots> \<le> hi * c * (d + w) * ((1 - eps) * (1 + 3 * eps))"
    using c nn by (intro mult_left_mono mult_nonneg_nonneg) auto
  also have "\<dots> = hi * c * (1 + 3 * eps) * ((d + w) * (1 - eps))" by simp
  also have "\<dots> \<le> hi * c * (1 + 3 * eps) * d'"
    using c nn d' by (intro mult_left_mono mult_nonneg_nonneg) auto
  finally show ?thesis using n' by (simp add: mult.assoc)
qed

lemma mean_step_lower:
  assumes n: "lo * c * d \<le> n" and p: "lo * (1 - eps) * w \<le> p" and c: "0 \<le> c" "c \<le> 1 - eps"
    and n': "(n + p) * (1 - eps) \<le> n'" and d': "d' \<le> (d + w) * (1 + eps)"
    and nn: "0 \<le> lo" "0 \<le> d" "0 \<le> w"
  shows "lo * (c * (1 - 3 * eps)) * d' \<le> (n' :: rat)"
proof -
  have "lo * (c * (1 - 3 * eps)) * d' \<le> lo * (c * (1 - 3 * eps)) * ((d + w) * (1 + eps))"
    using c nn d' by (intro mult_left_mono mult_nonneg_nonneg) auto
  also have "\<dots> = lo * c * (d + w) * ((1 - 3 * eps) * (1 + eps))" by simp
  also have "\<dots> \<le> lo * c * (d + w) * (1 - eps)"
    using c nn by (intro mult_left_mono mult_nonneg_nonneg) auto
  also have "\<dots> \<le> (n + p) * (1 - eps)"
  proof (rule mult_right_mono)
    have "lo * c * w \<le> lo * (1 - eps) * w"
      using c nn by (intro mult_right_mono mult_left_mono) auto
    with n p show "lo * c * (d + w) \<le> n + p" by (simp add: distrib_left)
  qed simp
  finally show ?thesis using n' by (rule order_trans)
qed

lemma mean_step_rounded:
  assumes inv: "mean_upto k (of_int lo) (of_int hi) N D" and k: "k \<le> 1000"
    and s: "of_int lo \<le> s" "s \<le> of_int hi" and w: "0 \<le> w" "w \<le> 1" "on_grid w"
    and lohi: "0 \<le> lo" "hi \<le> 100"
  shows "mean_upto (Suc k) (of_int lo) (of_int hi) (N + Fin s * Fin w) (D + Fin w)"
proof -
  from inv obtain n d where N: "N = Fin n" and D: "D = Fin d" and g: "on_grid n" "on_grid d"
    and pos: "0 \<le> n" "0 \<le> d" and le: "n \<le> of_nat (k * 100)" "d \<le> of_nat k"
    and up: "n \<le> of_int hi * ((1 + eps) * (1 + 3 * eps) ^ k) * d"
    and low: "of_int lo * ((1 - eps) * (1 - 3 * eps) ^ k) * d \<le> n"
    by (auto simp: mean_upto_def)
  have lo0: "(0::rat) \<le> of_int lo" using lohi by simp
  have hi0: "(0::rat) \<le> of_int hi" using lo0 s by linarith
  have hi100: "(of_int hi::rat) \<le> 100" using lohi by simp
  have "s * w \<le> 100 * 1"
    using s w hi100 hi0 lo0 by (intro mult_mono) linarith+
  then obtain p where p: "rnd (s * w) = Fin p" "0 \<le> p" "p \<le> 100"
    using rnd_between [of 0 100 "s * w"] double_of_int [of 100] s w lo0 by (auto simp: mult_nonneg_nonneg)
  have pu: "p \<le> of_int hi * (1 + eps) * w"
  proof -
    have "Fin p \<le> rnd (of_int hi * w)"
      unfolding p(1) [symmetric] using s w by (intro rnd_mono mult_right_mono)
    moreover obtain r where r: "rnd (of_int hi * w) = Fin r"
      using rnd_between [of 0 100 "of_int hi * w"] double_of_int [of 100] w hi0 hi100
        mult_mono [of "of_int hi" 100 w 1] by (auto simp: mult_nonneg_nonneg)
    moreover have "r \<le> of_int hi * w * (1 + eps)"
      using w hi0 by (intro rnd_upper [OF _ _ r] on_grid_int_mult) auto
    ultimately show ?thesis by (simp add: ac_simps)
  qed
  have pl: "of_int lo * (1 - eps) * w \<le> p"
  proof -
    have "rnd (of_int lo * w) \<le> Fin p"
      unfolding p(1) [symmetric] using s w by (intro rnd_mono mult_right_mono)
    moreover obtain r where r: "rnd (of_int lo * w) = Fin r"
      using calculation rnd_nonneg [of "of_int lo * w"] w lo0
      by (cases "rnd (of_int lo * w)") auto
    moreover have "of_int lo * w * (1 - eps) \<le> r"
      using w lo0 by (intro rnd_lower [OF _ _ r] on_grid_int_mult) auto
    ultimately show ?thesis by (simp add: ac_simps)
  qed
  have gp: "on_grid p" by (rule rnd_on_grid [OF p(1)])
  have bn: "double (of_int (int ((k + 1) * 100)))" "double (of_int (int (k + 1)))"
    using k by (intro double_of_int; simp)+
  obtain n' where n': "rnd (n + p) = Fin n'" "0 \<le> n'" "n' \<le> of_nat ((k + 1) * 100)"
    using rnd_between [OF double_0 bn(1), of "n + p"] pos p le by auto
  obtain d' where d': "rnd (d + w) = Fin d'" "0 \<le> d'" "d' \<le> of_nat (k + 1)"
    using rnd_between [OF double_0 bn(2), of "d + w"] pos w le by auto
  have bnd: "n' \<le> (n + p) * (1 + eps)" "(n + p) * (1 - eps) \<le> n'"
    "d' \<le> (d + w) * (1 + eps)" "(d + w) * (1 - eps) \<le> d'"
    by ((rule rnd_upper [OF _ _ n'(1)] rnd_lower [OF _ _ n'(1)] rnd_upper [OF _ _ d'(1)]
          rnd_lower [OF _ _ d'(1)]; use pos p w g gp in \<open>simp add: on_grid_add\<close>)+)
  have c1: "(1::rat) + eps \<le> (1 + eps) * (1 + 3 * eps) ^ k"
    using one_le_power [of "1 + 3 * eps" k] mult_left_mono [of 1 "(1 + 3 * eps) ^ k" "1 + eps"] by simp
  have c2: "0 \<le> (1 - eps) * (1 - 3 * eps :: rat) ^ k" "(1 - eps) * (1 - 3 * eps) ^ k \<le> (1::rat) - eps"
    using power_le_one [of "1 - 3 * eps" k] mult_left_mono [of "(1 - 3 * eps) ^ k" 1 "1 - eps"] by simp_all
  have "n' \<le> of_int hi * ((1 + eps) * (1 + 3 * eps) ^ k * (1 + 3 * eps)) * d'"
    by (rule mean_step_upper [OF up pu c1 bnd(1) bnd(4) hi0 pos(2) w(1)])
  moreover have "of_int lo * ((1 - eps) * (1 - 3 * eps) ^ k * (1 - 3 * eps)) * d' \<le> n'"
    by (rule mean_step_lower [OF low pl c2 bnd(2) bnd(3) lo0 pos(2) w(1)])
  ultimately show ?thesis
    unfolding mean_upto_def N D
    using n' d' p(1) rnd_on_grid [OF n'(1)] rnd_on_grid [OF d'(1)]
    by (auto simp: mult.assoc mult.left_commute power_Suc2)
qed

lemma one_plus_power_le:
  fixes x :: rat
  assumes "0 \<le> x" and "of_nat k * x \<le> 1 / 2"
  shows "(1 + x) ^ k \<le> 1 + 2 * of_nat k * x"
  using assms
proof (induction k)
  case (Suc k)
  then have k: "of_nat k * x \<le> 1 / 2" by (simp add: distrib_right)
  with Suc have "(1 + x) ^ k \<le> 1 + 2 * of_nat k * x" by simp
  then have "(1 + x) ^ Suc k \<le> (1 + 2 * of_nat k * x) * (1 + x)"
    using Suc.prems(1) mult_right_mono [of "(1 + x) ^ k" "1 + 2 * of_nat k * x" "1 + x"]
    by (simp add: mult.commute)
  also have "\<dots> = 1 + 2 * of_nat k * x + x + 2 * (of_nat k * x) * x" by (simp add: algebra_simps)
  also have "\<dots> \<le> 1 + 2 * of_nat k * x + x + 1 * x"
    using mult_right_mono [of "2 * (of_nat k * x)" 1 x] k Suc.prems(1) by simp
  finally show ?case by (simp add: algebra_simps)
qed simp

lemma one_minus_power_ge:
  fixes x :: rat
  assumes "0 \<le> x" and "x \<le> 1"
  shows "1 - of_nat k * x \<le> (1 - x) ^ k"
  using Bernoulli_inequality [of "- x" k] assms by simp

text \<open>The invariant holds for the sums over any list of up to a thousand terms.\<close>

lemma mean_sums:
  assumes "length ds \<le> 1000" and "0 \<le> lo" and "hi \<le> 100"
    and "\<And>x. x \<in> set ds \<Longrightarrow> \<exists>s w. f x = Fin s \<and> g x = Fin w \<and> of_int lo \<le> s \<and> s \<le> of_int hi \<and>
           0 \<le> w \<and> w \<le> 1 \<and> on_grid w"
  shows "mean_upto (length ds) (of_int lo) (of_int hi)
     (js_sum (map (\<lambda>x. f x * g x) ds)) (js_sum (map g ds))"
  using assms
proof (induction ds rule: rev_induct)
  case Nil
  then show ?case by (simp add: mean_upto_def js_sum_def)
next
  case (snoc x xs)
  from snoc.prems(4) [of x] obtain s w where "f x = Fin s" "g x = Fin w" "of_int lo \<le> s" "s \<le> of_int hi"
      "0 \<le> w" "w \<le> 1" "on_grid w" by auto
  with snoc mean_step_rounded [of "length xs" lo hi "js_sum (map (\<lambda>x. f x * g x) xs)" "js_sum (map g xs)" s w]
  show ?case by (simp add: js_sum_def)
qed

lemma mean_factor_bounds:
  assumes "k \<le> 1000"
  shows "(1 + eps) * (1 + 3 * eps) ^ k \<le> (1 + 1 / 1099511627776 :: rat)"
    and "(1 - 1 / 1099511627776 :: rat) \<le> (1 - eps) * (1 - 3 * eps) ^ k"
proof -
  have k: "(of_nat k :: rat) \<le> 1000" using assms by simp
  then have "(1 + 3 * eps :: rat) ^ k \<le> 1 + 2 * of_nat k * (3 * eps)"
    by (intro one_plus_power_le) auto
  also have "\<dots> \<le> 1 + 6000 * eps" using k by simp
  finally have "(1 + eps) * (1 + 3 * eps) ^ k \<le> (1 + eps) * (1 + 6000 * eps :: rat)"
    by (rule mult_left_mono) simp
  then show "(1 + eps) * (1 + 3 * eps) ^ k \<le> (1 + 1 / 1099511627776 :: rat)"
    by (rule order_trans) simp
  have "(1 :: rat) - 3000 * eps \<le> 1 - of_nat k * (3 * eps)" using k by simp
  also have "\<dots> \<le> (1 - 3 * eps) ^ k" by (rule one_minus_power_ge) auto
  finally have "(1 - eps) * (1 - 3000 * eps :: rat) \<le> (1 - eps) * (1 - 3 * eps) ^ k"
    by (rule mult_left_mono) simp
  then show "(1 - 1 / 1099511627776 :: rat) \<le> (1 - eps) * (1 - 3 * eps) ^ k"
    by (rule order_trans [rotated]) simp
qed

text \<open>The weighted mean is in the range of the scores up to \<open>2 ^ -21\<close>, and in it once rounded.\<close>

lemma weighted_mean_bounds:
  assumes mean: "mean_upto k (of_int lo) (of_int hi) N D" and D: "Fin 0 < D"
    and k: "k \<le> 1000" and lohi: "0 \<le> lo" "lo \<le> 100" "0 \<le> hi" "hi \<le> 100"
  shows "Fin (of_int lo - 1 / 2097152) \<le> js_div N D" and "js_div N D \<le> Fin (of_int hi + 1 / 2097152)"
proof -
  from mean obtain n d where N: "N = Fin n" and D': "D = Fin d" and d0: "0 \<le> d" and
    up: "n \<le> of_int hi * ((1 + eps) * (1 + 3 * eps) ^ k) * d" and
    low: "of_int lo * ((1 - eps) * (1 - 3 * eps) ^ k) * d \<le> n"
    by (auto simp: mean_upto_def)
  from D D' have d: "0 < d" by simp
  have hi: "(0::rat) \<le> of_int hi" "(of_int hi::rat) \<le> 100" and lo: "(0::rat) \<le> of_int lo" "(of_int lo::rat) \<le> 100"
    using lohi by simp_all
  have "n \<le> of_int hi * (1 + 1 / 1099511627776) * d"
    using mean_factor_bounds(1) [OF k] hi d0
    by (intro order_trans [OF up] mult_right_mono mult_left_mono) auto
  then have "n / d \<le> of_int hi * (1 + 1 / 1099511627776)"
    using d by (simp add: divide_le_eq)
  also have "\<dots> \<le> of_int hi + 1 / 2097152" using hi by simp
  finally have nd: "n / d \<le> of_int hi + 1 / 2097152" .
  have "of_int lo * (1 - 1 / 1099511627776) * d \<le> n"
    using mean_factor_bounds(2) [OF k] lo d0
    by (intro order_trans [OF _ low] mult_right_mono mult_left_mono) auto
  then have "of_int lo * (1 - 1 / 1099511627776) \<le> n / d"
    using d by (simp add: le_divide_eq)
  moreover have "of_int lo - 1 / 2097152 \<le> of_int lo * (1 - 1 / 1099511627776 :: rat)"
    using lo by simp
  ultimately have nl: "of_int lo - 1 / 2097152 \<le> n / d" by linarith
  have "double (of_int (hi * 2097152 + 1) / 2 ^ 21)" "double (of_int (lo * 2097152 - 1) / 2 ^ 21)"
    using lohi by (intro double_dyadic; simp)+
  then have db: "double (of_int hi + 1 / 2097152)" "double (of_int lo - 1 / 2097152)"
    by (simp_all add: add_divide_distrib diff_divide_distrib)
  show "js_div N D \<le> Fin (of_int hi + 1 / 2097152)"
    using rnd_le_double [OF db(1) nd] d by (simp add: N D')
  show "Fin (of_int lo - 1 / 2097152) \<le> js_div N D"
    using rnd_ge_double [OF db(2) nl] d by (simp add: N D')
qed

lemma weighted_mean_rounded:
  assumes "mean_upto k (of_int lo) (of_int hi) N D" and "Fin 0 < D" and "k \<le> 1000"
    and "0 \<le> lo" "lo \<le> 100" "0 \<le> hi" "hi \<le> 100" and "n \<le> 4"
  shows "Fin (of_int lo) \<le> round_to n (js_div N D)" and "round_to n (js_div N D) \<le> Fin (of_int hi)"
  using weighted_mean_bounds [OF assms(1-7)] assms(4-8)
  by (auto intro!: round_to_at_least round_to_at_most)

section \<open>Absolute error\<close>

text \<open>Rounding a number of at most two moves it by at most one unit in the last place of one.\<close>

abbreviation ulp_one :: rat where
  "ulp_one \<equiv> 1 / 4503599627370496"

lemma rnd_abs_error:
  assumes "0 \<le> q" and "q \<le> 2"
  obtains r where "rnd q = Fin r" and "0 \<le> r" and "\<bar>r - q\<bar> \<le> ulp_one"
proof (cases "q = 0")
  case True
  with that [of 0] show thesis by (simp add: rnd_def)
next
  case False
  with assms have q: "0 < q" by simp
  obtain r where r: "rnd q = Fin r" "0 \<le> r" "r \<le> 2"
    using rnd_between [of 0 2 q] double_of_int [of 2] assms by auto
  have "rlog2 q \<le> 1"
  proof -
    have "rlog2 (2::rat) = 1" by (rule rlog2_unique) (simp_all add: power_int_def)
    with rlog2_mono [OF q assms(2)] show ?thesis by simp
  qed
  then have "ulp_exp q \<le> - 51" by (simp add: ulp_exp_def)
  then have "2 powi ulp_exp q \<le> (2::rat) powi (- 51)" by (rule powi_mono)
  moreover have "(2::rat) powi (- 51) / 2 = ulp_one" by (simp add: power_int_def power_one_over)
  ultimately have "2 powi ulp_exp q / 2 \<le> ulp_one" by linarith
  moreover have "r = rnd_mag q" using r(1) rnd_pos_form [OF q] by (simp split: if_splits)
  ultimately have "\<bar>r - q\<bar> \<le> ulp_one" using rnd_mag_error [of q] by linarith
  with r that show thesis by blast
qed

lemma rnd_less:
  assumes "0 \<le> q" and "q + 3 * ulp_one \<le> q'" and "q' \<le> 2"
  shows "rnd q < rnd q'"
proof -
  have "q \<le> 2" "0 \<le> q'" using assms by linarith+
  then obtain r r' where "rnd q = Fin r" "\<bar>r - q\<bar> \<le> ulp_one" "rnd q' = Fin r'" "\<bar>r' - q'\<bar> \<le> ulp_one"
    using assms rnd_abs_error [of q] rnd_abs_error [of q'] by metis
  moreover from this assms(2) have "r < r'" by linarith
  ultimately show ?thesis by simp
qed

lemma js_sum_literals:
  assumes "\<And>q. q \<in> set qs \<Longrightarrow> 0 \<le> q" and "sum_list qs \<le> 1" and "length qs \<le> 1000"
  shows "\<exists>s. js_sum (map rnd qs) = Fin s \<and> 0 \<le> s \<and> \<bar>s - sum_list qs\<bar> \<le> of_nat (length qs) * (2 * ulp_one)"
  using assms
proof (induction qs rule: rev_induct)
  case (snoc q qs)
  have q: "0 \<le> q" and nn: "0 \<le> sum_list qs" using snoc.prems(1) by (auto intro: sum_list_nonneg)
  have sum: "sum_list qs + q \<le> 1" using snoc.prems(2) by simp
  with q nn have le: "q \<le> 1" "sum_list qs \<le> 1" by linarith+
  have len: "length qs \<le> 1000" using snoc.prems(3) by simp
  note le = le len
  with snoc obtain s where s: "js_sum (map rnd qs) = Fin s" "0 \<le> s"
      "\<bar>s - sum_list qs\<bar> \<le> of_nat (length qs) * (2 * ulp_one)" by auto
  obtain r where r: "rnd q = Fin r" "0 \<le> r" "\<bar>r - q\<bar> \<le> ulp_one"
    using rnd_abs_error [of q] q le by auto
  have "of_nat (length qs) * (2 * ulp_one) \<le> 1000 * (2 * ulp_one)"
    using le(3) by (intro mult_right_mono) auto
  with s(3) have "\<bar>s - sum_list qs\<bar> \<le> 1000 * (2 * ulp_one)" by (rule order.trans)
  with r(3) sum have "s + r \<le> 2" by linarith
  with s r obtain t where t: "rnd (s + r) = Fin t" "0 \<le> t" "\<bar>t - (s + r)\<bar> \<le> ulp_one"
    using rnd_abs_error [of "s + r"] by auto
  have "js_sum (map rnd (qs @ [q])) = Fin t"
    using s r t by (simp add: js_sum_def)
  moreover have "\<bar>t - (sum_list qs + q)\<bar> \<le> of_nat (length qs) * (2 * ulp_one) + 2 * ulp_one"
    using s(3) r(3) t(3) by linarith
  ultimately show ?case using t(2) by (simp add: algebra_simps)
qed (simp add: js_sum_def)

end
