(* ===== verification/DataConfidence.thy ===== *)
theory DataConfidence
  imports Model FloatSums
begin

text \<open>
  The data confidence of a stay, \<open>src/src/engine-v2/risk/dataConfidenceEngine.ts\<close>: how much
  of a weighted list of fields is known, and how confidently. The \<open>Record\<close> of field weights
  is an association list in insertion order; custom weights are the entries of the option
  object, \<open>None\<close> standing for a value that is not a number.
\<close>

section \<open>Interfaces\<close>

record confidence_options =
  co_field_weights :: "(string \<times> jsnum option) list"
  co_medium_threshold :: "jsnum option"
  co_high_threshold :: "jsnum option"
  co_low_confidence_threshold :: "jsnum option"

record confidence_field =
  cf_code :: string
  cf_availability :: evidence_availability
  cf_weight :: jsnum
  cf_confidence :: jsnum
  cf_contribution :: jsnum
  cf_evidence_ids :: "id list"

record data_confidence_evaluation = data_confidence +
  conflicting_field_codes :: "string list"
  low_confidence_field_codes :: "string list"
  weighted_coverage :: jsnum
  critical_coverage :: jsnum
  confidence_fields :: "confidence_field list"

record resolved_field =
  rf_availability :: evidence_availability
  rf_confidence :: jsnum
  rf_evidence_ids :: "id list"

datatype confidence_error = InvalidFieldWeight string

definition field_weights :: "(string \<times> jsnum) list" where
  "field_weights =
     [(''stay.cost.total'', Fin 4), (''stay.currency'', Fin 3), (''offer.bookable'', Fin 3),
      (''offer.count'', lit 2.5), (''stay.cost.completeness'', lit 2.5), (''offer.refundable'', lit 1.5),
      (''location.distance'', lit 1.5), (''location.coordinates'', lit 1.5), (''review.score'', lit 1.5),
      (''review.count'', lit 1.5), (''offer.cancellation'', Fin 1),
      (''offer.free-cancellation-until'', lit 0.8), (''offer.cancellation-penalty'', lit 0.8),
      (''property.amenities'', lit 0.75), (''property.stars'', lit 0.75), (''property.address'', lit 0.5),
      (''property.image'', lit 0.25)]"

definition critical_fields :: "string list" where
  "critical_fields = [''stay.cost.total'', ''stay.currency'', ''offer.count'', ''offer.bookable'']"

section \<open>Helpers\<close>

definition normalize_threshold :: "jsnum option \<Rightarrow> jsnum \<Rightarrow> jsnum" where
  "normalize_threshold value fallback =
     (case value of Some (Fin q) \<Rightarrow> clamp (Fin q) (Fin 0) (Fin 100) | _ \<Rightarrow> fallback)"

definition normalize_confidence :: "jsnum \<Rightarrow> jsnum" where
  "normalize_confidence value = (if \<not> is_fin value then Fin 0 else clamp value (Fin 0) (Fin 1))"

text \<open>
  \<open>createValueKey\<close>: the type of a value and its JSON text. Different finite numbers have
  different texts; NaN and the infinities all print as \<open>null\<close>.
\<close>

datatype value_key = KeyString string | KeyNumber rat | KeyNumberNull | KeyBool bool | KeyNull

fun create_value_key :: "evidence_value \<Rightarrow> value_key" where
  "create_value_key (VString s) = KeyString s"
| "create_value_key (VNumber v) = (case v of Fin q \<Rightarrow> KeyNumber q | _ \<Rightarrow> KeyNumberNull)"
| "create_value_key (VBool b) = KeyBool b"
| "create_value_key VNull = KeyNull"

text \<open>\<open>Math.max(...xs, 0)\<close>.\<close>

definition max_or_zero :: "jsnum list \<Rightarrow> jsnum" where
  "max_or_zero xs = foldl js_max NegInf (xs @ [Fin 0])"

definition resolve_field :: "evidence_fact list \<Rightarrow> string \<Rightarrow> resolved_field" where
  "resolve_field evidence code =
     (let facts = filter (\<lambda>f. fact_code f = code) evidence;
          evidence_ids = unique_sorted (map fact_id facts);
          known = filter (\<lambda>f. availability f = Known) facts;
          confidences = (\<lambda>fs. max_or_zero (map (\<lambda>f. normalize_confidence (fact_confidence f)) fs))
      in if list_ex (\<lambda>f. availability f = Conflicting) facts
         then \<lparr>rf_availability = Conflicting, rf_confidence = Fin 0, rf_evidence_ids = evidence_ids\<rparr>
         else if 1 < length (js_set (map (\<lambda>f. create_value_key (fact_value f)) known))
         then \<lparr>rf_availability = Conflicting, rf_confidence = Fin 0, rf_evidence_ids = evidence_ids\<rparr>
         else if known \<noteq> []
         then \<lparr>rf_availability = Known, rf_confidence = confidences known, rf_evidence_ids = evidence_ids\<rparr>
         else if facts \<noteq> [] \<and> list_all (\<lambda>f. availability f = NotApplicable) facts
         then \<lparr>rf_availability = NotApplicable, rf_confidence = confidences facts, rf_evidence_ids = evidence_ids\<rparr>
         else \<lparr>rf_availability = UnknownAvailability, rf_confidence = Fin 0, rf_evidence_ids = evidence_ids\<rparr>)"

fun create_field_weights ::
  "(string \<times> jsnum option) list \<Rightarrow> (string \<times> jsnum) list \<Rightarrow> confidence_error + (string \<times> jsnum) list" where
  "create_field_weights [] weights = Inr weights"
| "create_field_weights ((code, weight) # rest) weights =
     (case weight of
        None \<Rightarrow> Inl (InvalidFieldWeight code)
      | Some w \<Rightarrow>
          if \<not> is_fin w \<or> w < Fin 0 then Inl (InvalidFieldWeight code)
          else create_field_weights rest (AList.update code w weights))"

definition get_confidence_level ::
  "jsnum \<Rightarrow> string list \<Rightarrow> jsnum \<Rightarrow> string list \<Rightarrow> string list \<Rightarrow> jsnum \<Rightarrow> jsnum \<Rightarrow> data_confidence_level" where
  "get_confidence_level score known coverage conflicting low_confidence medium high =
     (let critical_conflict = list_ex (\<lambda>c. c \<in> set critical_fields) conflicting;
          critical_low = list_ex (\<lambda>c. c \<in> set critical_fields) low_confidence
      in if known = [] then DataNone
         else if high \<le> score \<and> Fin 80 \<le> coverage \<and> \<not> critical_conflict \<and> \<not> critical_low then DataHigh
         else if medium \<le> score then DataMedium
         else DataLow)"

section \<open>The evaluation\<close>

definition confidence_field_of :: "evidence_fact list \<Rightarrow> (string \<times> jsnum) list \<Rightarrow> string \<Rightarrow> confidence_field" where
  "confidence_field_of evidence weights code =
     (let resolved = resolve_field evidence code;
          weight = (case map_of weights code of Some w \<Rightarrow> w | None \<Rightarrow> Fin 0);
          contribution = (if rf_availability resolved = Known then weight * rf_confidence resolved else Fin 0)
      in \<lparr>cf_code = code,
          cf_availability = rf_availability resolved,
          cf_weight = round_to 3 weight,
          cf_confidence = round_to 4 (rf_confidence resolved),
          cf_contribution = round_to 4 contribution,
          cf_evidence_ids = rf_evidence_ids resolved\<rparr>)"

definition all_fields :: "evidence_fact list \<Rightarrow> (string \<times> jsnum) list \<Rightarrow> confidence_field list" where
  "all_fields evidence weights =
     map (confidence_field_of evidence weights) (js_sort compare_strings (map fst weights))"

definition applicable_fields :: "confidence_field list \<Rightarrow> confidence_field list" where
  "applicable_fields entries = filter (\<lambda>f. Fin 0 < cf_weight f \<and> cf_availability f \<noteq> NotApplicable) entries"

definition known_fields :: "confidence_field list \<Rightarrow> confidence_field list" where
  "known_fields entries = filter (\<lambda>f. cf_availability f = Known) (applicable_fields entries)"

definition sum_weights :: "confidence_field list \<Rightarrow> jsnum" where
  "sum_weights entries = js_sum (map cf_weight entries)"

definition sum_contributions :: "confidence_field list \<Rightarrow> jsnum" where
  "sum_contributions entries = js_sum (map cf_contribution entries)"

definition confidence_score :: "confidence_field list \<Rightarrow> jsnum" where
  "confidence_score entries =
     (let total = sum_weights (applicable_fields entries)
      in if Fin 0 < total
         then clamp (js_div (sum_contributions (known_fields entries)) total * Fin 100) (Fin 0) (Fin 100)
         else Fin 0)"

definition critical_coverage_of :: "confidence_field list \<Rightarrow> jsnum" where
  "critical_coverage_of entries =
     (let critical = filter (\<lambda>f. cf_code f \<in> set critical_fields \<and> cf_availability f \<noteq> NotApplicable) entries;
          total = sum_weights critical
      in if Fin 0 < total then js_div (sum_contributions critical) total * Fin 100 else Fin 0)"

definition codes_with :: "evidence_availability \<Rightarrow> confidence_field list \<Rightarrow> string list" where
  "codes_with a entries = unique_sorted (map cf_code (filter (\<lambda>f. cf_availability f = a) entries))"

definition evaluate_data_confidence ::
  "evidence_fact list \<Rightarrow> confidence_options \<Rightarrow> confidence_error + data_confidence_evaluation" where
  "evaluate_data_confidence evidence opts =
     (case create_field_weights (co_field_weights opts) field_weights of
        Inl e \<Rightarrow> Inl e
      | Inr weights \<Rightarrow>
          let medium = normalize_threshold (co_medium_threshold opts) (Fin 55);
              high = js_max medium (normalize_threshold (co_high_threshold opts) (Fin 80));
              low = clamp (case co_low_confidence_threshold opts of Some (Fin q) \<Rightarrow> Fin q | _ \<Rightarrow> lit 0.6) (Fin 0) (Fin 1);
              entries = all_fields evidence weights;
              applicable = applicable_fields entries;
              known = known_fields entries;
              total = sum_weights applicable;
              coverage = critical_coverage_of entries;
              known_codes = unique_sorted (map cf_code known);
              conflicting_codes = codes_with Conflicting applicable;
              low_codes = unique_sorted (map cf_code (filter (\<lambda>f. cf_confidence f < low) known));
              score = round_to 2 (confidence_score entries)
          in Inr
             \<lparr>dc_score = score,
              dc_level = get_confidence_level score known_codes coverage conflicting_codes low_codes medium high,
              known_field_codes = known_codes,
              unknown_field_codes = codes_with UnknownAvailability applicable,
              not_applicable_field_codes = codes_with NotApplicable entries,
              dc_evidence_ids = unique_sorted (concat (map cf_evidence_ids entries)),
              conflicting_field_codes = conflicting_codes,
              low_confidence_field_codes = low_codes,
              weighted_coverage =
                round_to 2 (if Fin 0 < total then js_div (sum_weights known) total * Fin 100 else Fin 0),
              critical_coverage = round_to 2 coverage,
              confidence_fields = entries\<rparr>)"

section \<open>Only which facts there are matters\<close>

lemma length_js_set: "length (js_set xs) = card (set xs)"
  by (metis distinct_card distinct_js_set set_js_set)

lemma js_max_cases: "a \<noteq> NaN \<Longrightarrow> b \<noteq> NaN \<Longrightarrow> js_max a b \<in> {a, b} \<and> a \<le> js_max a b \<and> b \<le> js_max a b"
  by (cases a; cases b) (auto simp: js_max_def)

lemma foldl_js_max:
  "a \<noteq> NaN \<Longrightarrow> NaN \<notin> set xs \<Longrightarrow>
     foldl js_max a xs \<in> insert a (set xs) \<and> a \<le> foldl js_max a xs \<and> (\<forall>x \<in> set xs. x \<le> foldl js_max a xs) \<and>
     foldl js_max a xs \<noteq> NaN"
proof (induction xs arbitrary: a)
  case (Cons x xs)
  then have x: "x \<noteq> NaN" by auto
  note c = js_max_cases [OF Cons.prems(1) x]
  then have "js_max a x \<noteq> NaN" using Cons.prems(1) x by auto
  from Cons.IH [OF this] Cons.prems c show ?case by (auto intro: jsnum_le_trans)
qed (cases a, auto)

lemma jsnum_antisym: "a \<le> b \<Longrightarrow> b \<le> a \<Longrightarrow> a = (b :: jsnum)"
  by (cases a; cases b) auto

lemma max_or_zero_props:
  assumes "NaN \<notin> set xs"
  shows "max_or_zero xs \<in> insert (Fin 0) (set xs) \<and> Fin 0 \<le> max_or_zero xs \<and> (\<forall>x \<in> set xs. x \<le> max_or_zero xs)"
proof -
  from assms have "foldl js_max NegInf (xs @ [Fin 0]) \<in> insert NegInf (set (xs @ [Fin 0])) \<and>
      (\<forall>x \<in> set (xs @ [Fin 0]). x \<le> foldl js_max NegInf (xs @ [Fin 0]))"
    using foldl_js_max [of NegInf "xs @ [Fin 0]"] by auto
  moreover from this have "foldl js_max NegInf (xs @ [Fin 0]) \<noteq> NegInf" by auto
  ultimately show ?thesis by (auto simp: max_or_zero_def)
qed

lemma max_or_zero_set:
  assumes "set xs = set ys" and "NaN \<notin> set xs"
  shows "max_or_zero xs = max_or_zero ys"
proof (rule jsnum_antisym)
  have ys: "NaN \<notin> set ys" using assms by simp
  show "max_or_zero xs \<le> max_or_zero ys"
    using max_or_zero_props [OF assms(2)] max_or_zero_props [OF ys] assms(1) by auto
  show "max_or_zero ys \<le> max_or_zero xs"
    using max_or_zero_props [OF assms(2)] max_or_zero_props [OF ys] assms(1) by auto
qed

lemma normalize_confidence_unit: "\<exists>q. normalize_confidence v = Fin q \<and> 0 \<le> q \<and> q \<le> 1"
  using clamp_bounds [of v "Fin 0" "Fin 1"]
  by (intro jsnum_between_Fin) (auto simp: normalize_confidence_def is_fin_iff)

lemma resolve_field_set:
  assumes "set ev = set ev'"
  shows "resolve_field ev code = resolve_field ev' code"
proof -
  let ?F = "\<lambda>e. filter (\<lambda>f. fact_code f = code) e" and ?K = "\<lambda>e. filter (\<lambda>f. availability f = Known) (filter (\<lambda>f. fact_code f = code) e)"
  let ?m = "\<lambda>fs. max_or_zero (map (\<lambda>f. normalize_confidence (fact_confidence f)) fs)"
  have F: "set (?F ev) = set (?F ev')" and K: "set (?K ev) = set (?K ev')" using assms by auto
  have "NaN \<notin> set (map (\<lambda>f. normalize_confidence (fact_confidence f)) fs)" for fs
    using normalize_confidence_unit by (auto simp: image_iff) (metis jsnum.distinct(5))
  then have m: "?m fs = ?m gs" if "set fs = set gs" for fs gs
    using that by (intro max_or_zero_set) auto
  have "unique_sorted (map fact_id (?F ev)) = unique_sorted (map fact_id (?F ev'))"
    using F by (intro unique_sorted_cong) simp
  moreover have "list_ex P (?F ev) = list_ex P (?F ev')" "list_all P (?F ev) = list_all P (?F ev')" for P
    using F by (simp_all only: list_ex_iff list_all_iff)
  moreover have "length (js_set (map (\<lambda>f. create_value_key (fact_value f)) (?K ev))) =
      length (js_set (map (\<lambda>f. create_value_key (fact_value f)) (?K ev')))"
    using K by (simp only: length_js_set set_map)
  moreover have "?F ev = [] \<longleftrightarrow> ?F ev' = []" "?K ev = [] \<longleftrightarrow> ?K ev' = []"
    using F K by (metis set_empty)+
  ultimately show ?thesis
    using m [OF F] m [OF K] unfolding resolve_field_def Let_def by presburger
qed

text \<open>Data confidence is a function of the set of facts: neither the order in which the evidence lists
  its facts nor repetitions of a fact have any influence on the evaluation.\<close>

theorem data_confidence_set_determined:
  assumes "set ev = set ev'"
  shows "evaluate_data_confidence ev opts = evaluate_data_confidence ev' opts"
proof -
  have "confidence_field_of ev w = confidence_field_of ev' w" for w
    by (simp add: confidence_field_of_def resolve_field_set [OF assms] fun_eq_iff)
  then have eq: "all_fields ev = all_fields ev'" by (simp add: all_fields_def fun_eq_iff)
  show ?thesis unfolding evaluate_data_confidence_def eq ..
qed

section \<open>The fields\<close>

lemma create_field_weights_distinct:
  "create_field_weights cws ws = Inr ws' \<Longrightarrow> distinct (map fst ws) \<Longrightarrow> distinct (map fst ws')"
  by (induction cws arbitrary: ws) (auto split: option.splits if_splits simp: distinct_update)

lemma field_weights_distinct: "distinct (map fst field_weights)"
  by (simp add: field_weights_def)

lemma evaluate_data_confidence_Inr:
  assumes "evaluate_data_confidence ev opts = Inr e"
  obtains ws where "create_field_weights (co_field_weights opts) field_weights = Inr ws"
    and "confidence_fields e = all_fields ev ws" and "distinct (map fst ws)"
proof -
  from assms obtain ws where "create_field_weights (co_field_weights opts) field_weights = Inr ws"
    by (auto simp: evaluate_data_confidence_def split: sum.splits)
  moreover from this assms have "confidence_fields e = all_fields ev ws"
    by (auto simp: evaluate_data_confidence_def Let_def)
  ultimately show thesis using create_field_weights_distinct field_weights_distinct that by blast
qed

lemma evaluate_data_confidence_codes:
  assumes "evaluate_data_confidence ev opts = Inr e"
  shows "known_field_codes e = codes_with Known (applicable_fields (confidence_fields e))"
    and "unknown_field_codes e = codes_with UnknownAvailability (applicable_fields (confidence_fields e))"
    and "conflicting_field_codes e = codes_with Conflicting (applicable_fields (confidence_fields e))"
    and "not_applicable_field_codes e = codes_with NotApplicable (confidence_fields e)"
    and "dc_score e = round_to 2 (confidence_score (confidence_fields e))"
    and "set (low_confidence_field_codes e) \<subseteq> set (known_field_codes e)"
  using assms
  by (auto simp: evaluate_data_confidence_def Let_def known_fields_def codes_with_def split: sum.splits)

lemma all_fields_codes: "map cf_code (all_fields ev ws) = js_sort compare_strings (map fst ws)"
  by (simp add: all_fields_def confidence_field_of_def Let_def comp_def)

text \<open>Every field that counts is reported under exactly one heading: the known, unknown, conflicting and
  not-applicable codes are pairwise disjoint, and together they are the non-empty codes of the
  fields with positive weight or marked not applicable; low-confidence codes are known ones.\<close>

theorem data_confidence_partition:
  assumes "evaluate_data_confidence ev opts = Inr e"
  shows "distinct (known_field_codes e @ unknown_field_codes e @ conflicting_field_codes e @ not_applicable_field_codes e) \<and>
    set (known_field_codes e @ unknown_field_codes e @ conflicting_field_codes e @ not_applicable_field_codes e) =
      cf_code ` {f \<in> set (confidence_fields e). Fin 0 < cf_weight f \<or> cf_availability f = NotApplicable} - {[]} \<and>
    set (low_confidence_field_codes e) \<subseteq> set (known_field_codes e)"
  using assms
proof (rule evaluate_data_confidence_Inr)
  fix ws
  assume f: "confidence_fields e = all_fields ev ws" and d: "distinct (map fst ws)"
  let ?fs = "confidence_fields e"
  note c = evaluate_data_confidence_codes [OF assms]
  have "distinct (map cf_code ?fs)" using d by (simp add: f all_fields_codes)
  then have inj: "x = y" if "x \<in> set ?fs" "y \<in> set ?fs" "cf_code x = cf_code y" for x y
    using that by (auto simp: distinct_map dest: inj_onD)
  have disj: "set (codes_with a xs) \<inter> set (codes_with b ys) = {}"
    if "a \<noteq> b" "set xs \<subseteq> set ?fs" "set ys \<subseteq> set ?fs" for a b xs ys
    using that inj by (fastforce simp: codes_with_def)
  have sub: "set (applicable_fields ?fs) \<subseteq> set ?fs" by (auto simp: applicable_fields_def)
  have dist: "distinct (codes_with a xs)" for a xs by (simp add: codes_with_def)
  have "distinct (known_field_codes e @ unknown_field_codes e @ conflicting_field_codes e @ not_applicable_field_codes e)"
    unfolding c using disj sub dist by (simp add: distinct_append Int_Un_distrib)
  moreover have "set (known_field_codes e @ unknown_field_codes e @ conflicting_field_codes e @ not_applicable_field_codes e) =
      cf_code ` {f \<in> set ?fs. Fin 0 < cf_weight f \<or> cf_availability f = NotApplicable} - {[]}"
  proof -
    have "f \<in> set ?fs \<and> (Fin 0 < cf_weight f \<or> cf_availability f = NotApplicable) \<longleftrightarrow>
        f \<in> set (applicable_fields ?fs) \<and> cf_availability f \<in> {Known, UnknownAvailability, Conflicting} \<or>
        f \<in> set ?fs \<and> cf_availability f = NotApplicable" for f
      by (cases "cf_availability f") (auto simp: applicable_fields_def)
    then show ?thesis unfolding c codes_with_def by (auto simp: image_iff)
  qed
  ultimately show ?thesis using c(6) by blast
qed

lemma resolve_confidence_unit: "\<exists>q. rf_confidence (resolve_field ev code) = Fin q \<and> 0 \<le> q \<and> q \<le> 1"
proof -
  have "\<exists>q. max_or_zero (map (\<lambda>f. normalize_confidence (fact_confidence f)) fs) = Fin q \<and> 0 \<le> q \<and> q \<le> 1" for fs :: "evidence_fact list"
  proof -
    let ?xs = "map (\<lambda>f. normalize_confidence (fact_confidence f)) fs"
    have u: "x \<in> set ?xs \<Longrightarrow> \<exists>q. x = Fin q \<and> 0 \<le> q \<and> q \<le> 1" for x
      using normalize_confidence_unit by auto
    then have "NaN \<notin> set ?xs" by blast
    from max_or_zero_props [OF this] u show ?thesis by auto
  qed
  then show ?thesis by (auto simp: resolve_field_def Let_def)
qed

lemma confidence_field_ranges:
  assumes "f \<in> set (all_fields ev ws)"
  shows "Fin 0 \<le> cf_confidence f \<and> cf_confidence f \<le> Fin 1"
proof -
  from assms obtain code where f: "f = confidence_field_of ev ws code" by (auto simp: all_fields_def)
  from resolve_confidence_unit [of ev code] show ?thesis
    using round_to_between [of 0 "rf_confidence (resolve_field ev code)" 1 4]
    by (auto simp: f confidence_field_of_def Let_def)
qed

lemma threshold_number: "normalize_threshold v (Fin k) \<noteq> NaN"
  by (auto simp: normalize_threshold_def clamp_def split: option.splits jsnum.splits)

lemma confidence_score_range:
  "confidence_score fs \<noteq> NaN \<Longrightarrow> Fin 0 \<le> confidence_score fs \<and> confidence_score fs \<le> Fin 100"
proof -
  assume n: "confidence_score fs \<noteq> NaN"
  have "\<exists>x. confidence_score fs = clamp x (Fin 0) (Fin 100)"
  proof (cases "Fin 0 < sum_weights (applicable_fields fs)")
    case False
    moreover have "clamp (Fin 0) (Fin 0) (Fin 100) = Fin 0" by (simp add: clamp_id)
    ultimately show ?thesis unfolding confidence_score_def Let_def by (metis (full_types))
  qed (auto simp: confidence_score_def Let_def)
  then obtain x where x: "confidence_score fs = clamp x (Fin 0) (Fin 100)" ..
  then have "x \<noteq> NaN" using n by (auto simp: clamp_def)
  with x show ?thesis using clamp_bounds [of x "Fin 0" "Fin 100"] by simp
qed

lemma confidence_level_Inr:
  assumes "evaluate_data_confidence ev opts = Inr e"
  shows "\<exists>cov. dc_level e = get_confidence_level (dc_score e) (known_field_codes e) cov
      (conflicting_field_codes e) (low_confidence_field_codes e)
      (normalize_threshold (co_medium_threshold opts) (Fin 55))
      (js_max (normalize_threshold (co_medium_threshold opts) (Fin 55)) (normalize_threshold (co_high_threshold opts) (Fin 80)))"
proof -
  from assms obtain ws where "create_field_weights (co_field_weights opts) field_weights = Inr ws"
    by (auto simp: evaluate_data_confidence_def split: sum.splits)
  with assms show ?thesis
    unfolding evaluate_data_confidence_def Let_def
    by (intro exI [of _ "critical_coverage_of (all_fields ev ws)"]) (simp, elim subst, simp)
qed

text \<open>The score is a percentage unless arithmetic overflows, and the level means what it says: a
  high level is given only when the score reaches the high threshold (at least the medium
  one), and then no critical field is in conflict or known with low confidence; none is given
  exactly when no field is known.\<close>

theorem data_confidence_level_sound:
  assumes "evaluate_data_confidence ev opts = Inr e"
  shows "(dc_level e = DataNone \<longleftrightarrow> known_field_codes e = []) \<and>
    (dc_level e = DataHigh \<longrightarrow>
       normalize_threshold (co_medium_threshold opts) (Fin 55) \<le> dc_score e \<and>
       normalize_threshold (co_high_threshold opts) (Fin 80) \<le> dc_score e \<and>
       set (conflicting_field_codes e) \<inter> set critical_fields = {} \<and>
       set (low_confidence_field_codes e) \<inter> set critical_fields = {}) \<and>
    (dc_score e = NaN \<or> Fin 0 \<le> dc_score e \<and> dc_score e \<le> Fin 100)"
proof -
  let ?medium = "normalize_threshold (co_medium_threshold opts) (Fin 55)"
  let ?high = "normalize_threshold (co_high_threshold opts) (Fin 80)"
  obtain cov where lev: "dc_level e = get_confidence_level (dc_score e) (known_field_codes e) cov
      (conflicting_field_codes e) (low_confidence_field_codes e) ?medium (js_max ?medium ?high)"
    using confidence_level_Inr [OF assms] by blast
  have max: "js_max ?medium ?high \<le> s \<Longrightarrow> ?medium \<le> s \<and> ?high \<le> s" for s
    using js_max_cases [OF threshold_number threshold_number, of _ 55 _ 80] by (blast intro: jsnum_le_trans)
  have level: "dc_level e = DataNone \<longleftrightarrow> known_field_codes e = []"
    unfolding lev get_confidence_level_def Let_def by simp
  have high: "dc_level e = DataHigh \<longrightarrow>
       ?medium \<le> dc_score e \<and> ?high \<le> dc_score e \<and>
       set (conflicting_field_codes e) \<inter> set critical_fields = {} \<and>
       set (low_confidence_field_codes e) \<inter> set critical_fields = {}"
    unfolding lev get_confidence_level_def Let_def list_ex_iff using max [of "dc_score e"]
    by (auto split: if_splits)
  let ?s = "confidence_score (confidence_fields e)"
  have "dc_score e = NaN \<or> Fin 0 \<le> dc_score e \<and> dc_score e \<le> Fin 100"
  proof (cases "?s = NaN")
    case True
    then show ?thesis
      unfolding evaluate_data_confidence_codes(5) [OF assms] by (simp add: round_to_def Let_def)
  next
    case False
    then have "Fin 0 \<le> ?s \<and> ?s \<le> Fin 100" by (rule confidence_score_range)
    then show ?thesis
      unfolding evaluate_data_confidence_codes(5) [OF assms] using round_to_between [of 0 ?s 100 2] by simp
  qed
  with level high show ?thesis by blast
qed

section \<open>Concrete evidence\<close>

definition known_fact :: "string \<Rightarrow> evidence_value \<Rightarrow> evidence_fact" where
  "known_fact code v =
     \<lparr>fact_id = code, fact_code = code, availability = Known, fact_value = v, fact_unit = None,
      fact_source = FromProvider, source_provider = None, source_field = None, fact_confidence = Fin 1,
      severity = Information, missing_reason_code = None, captured_at = None, derived_from = []\<rparr>"

definition critical_facts :: "evidence_fact list" where
  "critical_facts =
     [known_fact ''stay.cost.total'' (VNumber (Fin 100)), known_fact ''stay.currency'' (VString ''EUR''),
      known_fact ''offer.count'' (VNumber (Fin 1)), known_fact ''offer.bookable'' (VBool True)]"

definition default_confidence_options :: confidence_options where
  "default_confidence_options =
     \<lparr>co_field_weights = [], co_medium_threshold = None, co_high_threshold = None,
      co_low_confidence_threshold = None\<rparr>"

definition tiny_weight_options :: confidence_options where
  "tiny_weight_options =
     default_confidence_options\<lparr>co_field_weights := map (\<lambda>c. (c, Some (lit 0.0014))) critical_fields\<rparr>"

lemma default_confidence_Inr: "\<exists>e. evaluate_data_confidence ev default_confidence_options = Inr e"
  by (simp add: evaluate_data_confidence_def default_confidence_options_def Let_def)

lemma data_confidence_set_determined_witness:
  "evaluate_data_confidence critical_facts default_confidence_options =
     evaluate_data_confidence (rev critical_facts) default_confidence_options"
  by (rule data_confidence_set_determined) simp

lemma data_confidence_partition_witness:
  "\<exists>e. evaluate_data_confidence critical_facts default_confidence_options = Inr e \<and>
     distinct (known_field_codes e @ unknown_field_codes e @ conflicting_field_codes e @ not_applicable_field_codes e)"
  using default_confidence_Inr [of critical_facts] data_confidence_partition by metis

lemma data_confidence_level_sound_witness:
  "\<exists>e. evaluate_data_confidence critical_facts default_confidence_options = Inr e \<and>
     (dc_level e = DataNone \<longleftrightarrow> known_field_codes e = [])"
  using default_confidence_Inr [of critical_facts] data_confidence_level_sound by metis

lemma critical_facts_resolve:
  "c \<in> set critical_fields \<Longrightarrow>
     resolve_field critical_facts c = \<lparr>rf_availability = Known, rf_confidence = Fin 1, rf_evidence_ids = [c]\<rparr>"
proof -
  have "list_all (\<lambda>c. resolve_field critical_facts c =
      \<lparr>rf_availability = Known, rf_confidence = Fin 1, rf_evidence_ids = [c]\<rparr>) critical_fields"
    by code_simp
  then show "c \<in> set critical_fields \<Longrightarrow> ?thesis" by (simp add: list_all_iff)
qed

section \<open>Bounds of the critical coverage\<close>

definition critical_entries :: "evidence_fact list \<Rightarrow> (string \<times> jsnum) list \<Rightarrow> confidence_field list" where
  "critical_entries ev ws = filter (\<lambda>f. cf_code f \<in> set critical_fields \<and> cf_availability f \<noteq> NotApplicable) (all_fields ev ws)"

lemma critical_coverage_eq:
  "critical_coverage_of (all_fields ev ws) =
     (let total = js_sum (map cf_weight (critical_entries ev ws))
      in if Fin 0 < total then js_div (js_sum (map cf_contribution (critical_entries ev ws))) total * Fin 100 else Fin 0)"
  unfolding critical_coverage_of_def critical_entries_def sum_weights_def sum_contributions_def Let_def ..

lemma evaluate_critical_coverage:
  assumes "create_field_weights (co_field_weights opts) field_weights = Inr ws"
  shows "\<exists>e. evaluate_data_confidence ev opts = Inr e \<and>
     critical_coverage e = round_to 2 (critical_coverage_of (all_fields ev ws))"
  by (simp add: evaluate_data_confidence_def assms Let_def)

lemma critical_entries_in: "f \<in> set (critical_entries ev ws) \<Longrightarrow> \<exists>c \<in> set critical_fields. f = confidence_field_of ev ws c"
  by (auto simp: critical_entries_def all_fields_def confidence_field_of_def Let_def)

lemma distinct_critical_fields: "distinct critical_fields"
  by code_simp

lemma length_critical_entries: "distinct (map fst ws) \<Longrightarrow> length (critical_entries ev ws) \<le> 4"
proof -
  assume d: "distinct (map fst ws)"
  have c: "map cf_code (critical_entries ev ws) = filter (\<lambda>c. c \<in> set critical_fields \<and>
      cf_availability (confidence_field_of ev ws c) \<noteq> NotApplicable) (js_sort compare_strings (map fst ws))"
    unfolding critical_entries_def all_fields_def filter_map comp_def map_map
    by (simp add: confidence_field_of_def Let_def)
  have "distinct (map cf_code (critical_entries ev ws))" unfolding c using d by simp
  from distinct_card [OF this] have "length (critical_entries ev ws) = card (set (map cf_code (critical_entries ev ws)))"
    by (simp only: length_map)
  also have "\<dots> \<le> card (set critical_fields)" unfolding c by (intro card_mono) auto
  also have "\<dots> \<le> length critical_fields" by (rule card_length)
  finally show ?thesis by (simp add: critical_fields_def)
qed

text \<open>A share of sums is a percentage when each part is at most its whole.\<close>

lemma share_percentage:
  assumes "\<And>f. f \<in> set fs \<Longrightarrow> Fin 0 \<le> p f \<and> p f \<le> w f \<and> w f \<le> Fin 4" and "length fs \<le> 4" and "Fin 0 < js_sum (map w fs)"
  shows "Fin 0 \<le> js_div (js_sum (map p fs)) (js_sum (map w fs)) * Fin 100"
    and "js_div (js_sum (map p fs)) (js_sum (map w fs)) * Fin 100 \<le> Fin 100"
proof -
  let ?S = "js_sum (map p fs)" and ?T = "js_sum (map w fs)"
  have "js_sum (map w fs) \<le> js_sum (map (\<lambda>_. Fin 4) fs)"
    using assms(1) by (intro js_sum_mono) (blast intro: jsnum_le_trans)
  also have "\<dots> = js_sum (replicate (length fs) (Fin 4))" by (simp add: map_replicate_const)
  also have "\<dots> \<le> Fin 16"
  proof -
    have "list_all (\<lambda>n. js_sum (replicate n (Fin 4)) \<le> Fin 16) [0..<5]" by code_simp
    moreover have "length fs \<in> set [0..<5]" using assms(2) by simp
    ultimately show ?thesis unfolding list_all_iff by blast
  qed
  finally obtain t where t: "?T = Fin t" "0 < t" using assms(3) by (cases ?T) auto
  have s: "Fin 0 \<le> ?S" "?S \<le> Fin t" using assms(1) js_sum_mono [of fs p w] unfolding t(1) [symmetric] by (auto intro!: js_sum_nonneg)
  have l: "js_div (Fin 0) (Fin t) = Fin 0" "js_div (Fin t) (Fin t) = Fin 1" using t(2) by simp_all
  have d: "Fin 0 \<le> js_div ?S (Fin t)" "js_div ?S (Fin t) \<le> Fin 1"
    using div_Fin_mono [OF s(1) t(2)] div_Fin_mono [OF s(2) t(2)] by (simp_all only: l)
  have h: "Fin 0 * Fin 100 = Fin 0" "Fin 1 * Fin 100 = Fin 100" by (simp, code_simp)
  show "Fin 0 \<le> js_div ?S ?T * Fin 100" "js_div ?S ?T * Fin 100 \<le> Fin 100"
    using times_Fin_mono [OF d(1), of 100] times_Fin_mono [OF d(2), of 100] unfolding t(1) h by simp_all
qed

lemma default_critical_weight:
  "c \<in> set critical_fields \<Longrightarrow> \<exists>k. map_of field_weights c = Some (Fin k) \<and> 0 < k \<and> k \<le> 4 \<and> double k \<and>
     round_to 3 (Fin k) = Fin k \<and> round_to 4 (Fin k) = Fin k"
proof -
  have h: "round_to 3 (Fin (5 / 2)) = Fin (5 / 2)" "round_to 4 (Fin (5 / 2)) = Fin (5 / 2)" by code_simp+
  have i: "round_to 3 (Fin 4) = Fin 4" "round_to 4 (Fin 4) = Fin 4" "round_to 3 (Fin 3) = Fin 3" "round_to 4 (Fin 3) = Fin 3"
    using round_to_of_int [of 4] round_to_of_int [of 3] by simp_all
  have d: "double 4" "double 3" "double (5 / 2)" using double_of_int [of 4] double_of_int [of 3] double_dyadic [of 5 1] by simp_all
  assume "c \<in> set critical_fields"
  moreover have "list_all (\<lambda>c. map_of field_weights c = Some (Fin 4) \<or> map_of field_weights c = Some (Fin 3) \<or>
      map_of field_weights c = Some (Fin (5 / 2))) critical_fields" by code_simp
  ultimately have "map_of field_weights c = Some (Fin 4) \<or> map_of field_weights c = Some (Fin 3) \<or>
      map_of field_weights c = Some (Fin (5 / 2))" unfolding list_all_iff by blast
  then show ?thesis
  proof (elim disjE, goal_cases)
    case 1
    then show ?case using i d by (intro exI [of _ 4]) simp
  next
    case 2
    then show ?case using i d by (intro exI [of _ 3]) simp
  next
    case 3
    then show ?case using h d by (intro exI [of _ "5 / 2"]) simp
  qed
qed

lemma default_critical_part:
  assumes "f \<in> set (critical_entries ev field_weights)"
  shows "Fin 0 \<le> cf_contribution f \<and> cf_contribution f \<le> cf_weight f \<and> cf_weight f \<le> Fin 4"
proof -
  obtain c where c: "c \<in> set critical_fields" "f = confidence_field_of ev field_weights c"
    using critical_entries_in [OF assms] by blast
  obtain k where k: "map_of field_weights c = Some (Fin k)" "0 < k" "k \<le> 4" "double k" "round_to 3 (Fin k) = Fin k" "round_to 4 (Fin k) = Fin k"
    using default_critical_weight [OF c(1)] by blast
  obtain q where q: "rf_confidence (resolve_field ev c) = Fin q" "0 \<le> q" "q \<le> 1" using resolve_confidence_unit by blast
  define v where "v = (if rf_availability (resolve_field ev c) = Known then Fin k * Fin q else Fin 0)"
  have "k * q \<le> k" using k(2) q(3) by (simp add: mult_left_le)
  then have "Fin k * Fin q \<le> Fin k" "Fin 0 \<le> Fin k * Fin q"
    using rnd_le_double [OF k(4)] rnd_nonneg [of "k * q"] k(2) q(2) by simp_all
  then have v: "Fin 0 \<le> v" "v \<le> Fin k" using k(2) by (simp_all add: v_def)
  have "round_to 4 (Fin 0) = Fin 0" using round_to_of_int [of 0 4] by simp
  then have "Fin 0 \<le> round_to 4 v" "round_to 4 v \<le> Fin k" using round_to_mono [OF v(1), of 4] round_to_mono [OF v(2), of 4] k(6) by simp_all
  moreover have "cf_contribution f = round_to 4 v" "cf_weight f = Fin k"
    by (simp_all add: c(2) confidence_field_of_def Let_def k(1,5) q(1) v_def)
  ultimately show ?thesis using k(3) by simp
qed
text \<open>Custom weights for the critical fields, all the same.\<close>

abbreviation weighted_fields :: "jsnum \<Rightarrow> (string \<times> jsnum) list" where
  "weighted_fields w \<equiv> fold (\<lambda>c. AList.update c w) critical_fields field_weights"

lemma weighted_fields_Inr:
  assumes "co_field_weights opts = map (\<lambda>c. (c, Some w)) critical_fields" and "is_fin w" and "\<not> w < Fin 0"
  shows "create_field_weights (co_field_weights opts) field_weights = Inr (weighted_fields w)"
proof -
  have "create_field_weights (map (\<lambda>c. (c, Some w)) cs) ws = Inr (fold (\<lambda>c. AList.update c w) cs ws)" for cs ws
    using assms(2,3) by (induction cs arbitrary: ws) simp_all
  then show ?thesis by (simp only: assms(1))
qed

lemma weighted_fields_map: "map_of (fold (\<lambda>c. AList.update c w) cs ws) c = (if c \<in> set cs then Some w else map_of ws c)"
  by (induction cs arbitrary: ws) (simp_all add: update_conv')

lemma weighted_fields_keys:
  assumes "set cs \<subseteq> fst ` set ws"
  shows "map fst (fold (\<lambda>c. AList.update c w) cs ws) = map fst ws"
  using assms
proof (induction cs arbitrary: ws)
  case (Cons c cs)
  have k: "map fst (AList.update c w ws) = map fst ws" using Cons.prems by (simp add: update_keys)
  then have "fst ` set (AList.update c w ws) = fst ` set ws" by (metis set_map)
  with Cons k show ?case by simp
qed simp

lemma known_critical_entries:
  assumes "\<And>c. c \<in> set critical_fields \<Longrightarrow> rf_availability (resolve_field ev c) = Known"
  shows "length (critical_entries ev (weighted_fields w)) = 4"
proof -
  have "set critical_fields \<subseteq> fst ` set field_weights" by code_simp
  from weighted_fields_keys [OF this] have k: "map fst (weighted_fields w) = map fst field_weights" .
  have n: "length (filter (\<lambda>c. c \<in> set critical_fields) (map fst field_weights)) = 4" by code_simp
  have "length (critical_entries ev (weighted_fields w)) =
      length (filter (\<lambda>c. c \<in> set critical_fields) (js_sort compare_strings (map fst field_weights)))"
    unfolding critical_entries_def all_fields_def filter_map length_map k
    by (intro arg_cong [of _ _ length] filter_cong) (use assms in \<open>auto simp: confidence_field_of_def Let_def\<close>)
  with n show ?thesis by (simp only: size_mset [symmetric] mset_filter mset_js_sort)
qed

lemma known_critical_part:
  assumes "c \<in> set critical_fields" and "rf_availability (resolve_field ev c) = Known" and "rf_confidence (resolve_field ev c) = Fin 1"
  shows "cf_weight (confidence_field_of ev (weighted_fields w) c) = round_to 3 w"
    and "cf_contribution (confidence_field_of ev (weighted_fields w) c) = round_to 4 (w * Fin 1)"
  using assms by (simp_all add: confidence_field_of_def Let_def weighted_fields_map)
text \<open>Weights between 0.0011 and 0.0014 round to 0.001 at three decimals, and stay in their range at four.\<close>

lemma small_weight:
  assumes "lit 0.0011 \<le> w" and "w \<le> lit 0.0014"
  shows "is_fin w" and "\<not> w < Fin 0" and "round_to 3 w = lit 0.001"
    and "lit 0.0011 \<le> round_to 4 (w * Fin 1)" and "round_to 4 (w * Fin 1) \<le> lit 0.0014"
proof -
  obtain l u where lu: "lit 0.0011 = Fin l" "lit 0.0014 = Fin u" "0 < l"
  proof -
    have "is_fin (lit 0.0011)" "is_fin (lit 0.0014)" "Fin 0 < lit 0.0011" by code_simp+
    then show thesis using that by (cases "lit 0.0011"; cases "lit 0.0014") (simp_all add: is_fin_iff)
  qed
  show "is_fin w" "\<not> w < Fin 0" using assms lu(3) unfolding lu(1,2) by (cases w; simp add: is_fin_iff)+
  have "round_to 3 (lit 0.0014) = lit 0.001" "round_to 3 (lit 0.0011) = lit 0.001" by code_simp+
  then show "round_to 3 w = lit 0.001"
    using round_to_mono [OF assms(2), of 3] round_to_mono [OF assms(1), of 3] by (simp add: jsnum_antisym)
  have "round_to 4 (lit 0.0014 * Fin 1) = lit 0.0014" "round_to 4 (lit 0.0011 * Fin 1) = lit 0.0011" by code_simp+
  then show "lit 0.0011 \<le> round_to 4 (w * Fin 1)" "round_to 4 (w * Fin 1) \<le> lit 0.0014"
    using round_to_mono [OF times_Fin_mono [OF assms(2), of 1], of 4] round_to_mono [OF times_Fin_mono [OF assms(1), of 1], of 4]
    by simp_all
qed

definition small_share :: "jsnum \<Rightarrow> jsnum" where
  "small_share v = round_to 2 (js_div (js_sum (replicate 4 v)) (lit 0.004) * Fin 100)"

lemma small_share_bounds:
  assumes "lit 0.0011 \<le> v" and "v \<le> lit 0.0014"
  shows "Fin 110 \<le> small_share v \<and> small_share v \<le> Fin 140"
proof -
  have mono: "small_share x \<le> small_share y" if "Fin 0 \<le> x" "x \<le> y" for x y
  proof -
    have "Fin 0 < lit 0.004" "is_fin (lit 0.004)" by code_simp+
    then obtain t where t: "lit 0.004 = Fin t" "0 < t" by (cases "lit 0.004") (simp_all add: is_fin_iff)
    have "js_sum (map (\<lambda>_. x) [0..<4]) \<le> js_sum (map (\<lambda>_. y) [0..<4])" using that by (intro js_sum_mono) simp
    then have "js_sum (replicate 4 x) \<le> js_sum (replicate 4 y)" by (simp only: map_replicate_const length_upt) simp
    from times_Fin_mono [OF div_Fin_mono [OF this t(2)]] show ?thesis
      unfolding small_share_def t(1) by (intro round_to_mono) simp
  qed
  have z: "Fin 0 \<le> lit 0.0011" by code_simp
  have "small_share (lit 0.0011) = Fin 110" "small_share (lit 0.0014) = Fin 140" by code_simp+
  then show ?thesis
    using mono [OF z assms(1)] mono [OF jsnum_le_trans [OF z assms(1)] assms(2)] by simp
qed

lemma small_weight_coverage:
  assumes "lit 0.0011 \<le> w" and "w \<le> lit 0.0014"
    and "list_all (\<lambda>c. rf_availability (resolve_field ev c) = Known \<and> rf_confidence (resolve_field ev c) = Fin 1) critical_fields"
  shows "round_to 2 (critical_coverage_of (all_fields ev (weighted_fields w))) = small_share (round_to 4 (w * Fin 1))"
proof -
  have r: "rf_availability (resolve_field ev c) = Known" "rf_confidence (resolve_field ev c) = Fin 1" if "c \<in> set critical_fields" for c
    using assms(3) that unfolding list_all_iff by blast+
  define fs where "fs = critical_entries ev (weighted_fields w)"
  have "cf_weight g = lit 0.001 \<and> cf_contribution g = round_to 4 (w * Fin 1)" if "g \<in> set fs" for g
    using critical_entries_in [of g ev "weighted_fields w"] that known_critical_part r small_weight(3) [OF assms(1,2)]
    unfolding fs_def by metis
  moreover have "length fs = 4" unfolding fs_def by (rule known_critical_entries [OF r(1)])
  ultimately have maps: "map cf_weight fs = replicate 4 (lit 0.001)" "map cf_contribution fs = replicate 4 (round_to 4 (w * Fin 1))"
    by (simp_all add: map_replicate_const cong: map_cong)
  have "js_sum (replicate 4 (lit 0.001)) = lit 0.004" "Fin 0 < lit 0.004" by code_simp+
  then show ?thesis by (simp add: critical_coverage_eq fs_def [symmetric] maps small_share_def)
qed

text \<open>C30. With the default weights the critical coverage is a percentage, for any evidence and thresholds. Custom weights can
  lift it above 100, because the weights it divides by are rounded to three decimals and the contributions to four:
  for every weight between 0.0011 and 0.0014 given to the critical fields, and any evidence that knows these
  fields with full confidence, the reported coverage lies between 110 and 140.\<close>

theorem critical_coverage_bounds:
  "(co_field_weights opts = [] \<longrightarrow>
      (\<exists>e. evaluate_data_confidence ev opts = Inr e \<and> Fin 0 \<le> critical_coverage e \<and> critical_coverage e \<le> Fin 100)) \<and>
   (co_field_weights opts = map (\<lambda>c. (c, Some w)) critical_fields \<and> lit 0.0011 \<le> w \<and> w \<le> lit 0.0014 \<and>
      list_all (\<lambda>c. rf_availability (resolve_field ev c) = Known \<and> rf_confidence (resolve_field ev c) = Fin 1) critical_fields \<longrightarrow>
      (\<exists>e. evaluate_data_confidence ev opts = Inr e \<and> Fin 110 \<le> critical_coverage e \<and> critical_coverage e \<le> Fin 140))"
proof (intro conjI impI; (elim conjE)?)
  assume "co_field_weights opts = []"
  then have "create_field_weights (co_field_weights opts) field_weights = Inr field_weights" by simp
  from evaluate_critical_coverage [OF this] obtain e where e: "evaluate_data_confidence ev opts = Inr e"
    "critical_coverage e = round_to 2 (critical_coverage_of (all_fields ev field_weights))" by blast
  have "Fin 0 \<le> critical_coverage_of (all_fields ev field_weights) \<and> critical_coverage_of (all_fields ev field_weights) \<le> Fin 100"
    unfolding critical_coverage_eq Let_def
    using share_percentage [OF default_critical_part length_critical_entries [OF field_weights_distinct]] by simp
  with round_to_between [of 0 _ 100 2] e
  show "\<exists>e. evaluate_data_confidence ev opts = Inr e \<and> Fin 0 \<le> critical_coverage e \<and> critical_coverage e \<le> Fin 100" by simp
next
  assume custom: "co_field_weights opts = map (\<lambda>c. (c, Some w)) critical_fields" and w: "lit 0.0011 \<le> w" "w \<le> lit 0.0014"
    and k: "list_all (\<lambda>c. rf_availability (resolve_field ev c) = Known \<and> rf_confidence (resolve_field ev c) = Fin 1) critical_fields"
  obtain e where e: "evaluate_data_confidence ev opts = Inr e"
    "critical_coverage e = round_to 2 (critical_coverage_of (all_fields ev (weighted_fields w)))"
    using evaluate_critical_coverage [OF weighted_fields_Inr [OF custom small_weight(1,2) [OF w]], of ev] by blast
  then have "Fin 110 \<le> critical_coverage e" "critical_coverage e \<le> Fin 140"
    using small_share_bounds [OF small_weight(4,5) [OF w]] unfolding e(2) small_weight_coverage [OF w k] by blast+
  with e(1) show "\<exists>e. evaluate_data_confidence ev opts = Inr e \<and> Fin 110 \<le> critical_coverage e \<and> critical_coverage e \<le> Fin 140"
    by blast
qed

theorem critical_coverage_bounds_witness:
  "(\<exists>e. evaluate_data_confidence critical_facts default_confidence_options = Inr e \<and> critical_coverage e \<le> Fin 100) \<and>
   (\<exists>e. evaluate_data_confidence critical_facts tiny_weight_options = Inr e \<and> Fin 110 \<le> critical_coverage e)"
proof
  have "co_field_weights default_confidence_options = []" by (simp add: default_confidence_options_def)
  from mp [OF conjunct1 [OF critical_coverage_bounds] this, of critical_facts]
  show "\<exists>e. evaluate_data_confidence critical_facts default_confidence_options = Inr e \<and> critical_coverage e \<le> Fin 100" by blast
  have "co_field_weights tiny_weight_options = map (\<lambda>c. (c, Some (lit 0.0014))) critical_fields \<and>
      lit 0.0011 \<le> lit 0.0014 \<and> lit 0.0014 \<le> lit 0.0014 \<and>
      list_all (\<lambda>c. rf_availability (resolve_field critical_facts c) = Known \<and>
        rf_confidence (resolve_field critical_facts c) = Fin 1) critical_fields"
  proof (intro conjI)
    show "lit 0.0011 \<le> lit 0.0014" "lit 0.0014 \<le> lit 0.0014" by code_simp+
  qed (simp_all add: tiny_weight_options_def list_all_iff critical_facts_resolve)
  from mp [OF conjunct2 [OF critical_coverage_bounds] this]
  show "\<exists>e. evaluate_data_confidence critical_facts tiny_weight_options = Inr e \<and> Fin 110 \<le> critical_coverage e" by blast
qed

end
