(* ===== verification/Risk.thy ===== *)
theory Risk
  imports DataConfidence
begin

text \<open>
  The risk of a stay, \<open>src/src/engine-v2/risk/riskEngine.ts\<close>: factors with points are
  collected in a map keyed by factor code, and the score is their capped sum. The map of
  contributions is an association list in insertion order. Of the evaluations of the other
  engines the records below hold the fields that are read; \<open>localeCompare\<close> is the parameter
  \<open>collate\<close>.
\<close>

section \<open>Interfaces\<close>

record engine_report =
  report_warning_codes :: "string list"
  report_evidence_ids :: "id list"

datatype requirement_status = NotRequired | RequirementSatisfied | RequirementUnverified | RequirementUnmet

record comfort_report = engine_report +
  unverified_feature_codes :: "string list"
  unmet_feature_codes :: "string list"
  required_unit_type_status :: requirement_status
  unit_type_evidence_ids :: "id list"

record risk_input =
  ri_evidence :: "evidence_fact list"
  ri_gate :: reliability_gate
  ri_confidence :: data_confidence_evaluation
  ri_price_value :: "engine_report option"
  ri_quality :: "engine_report option"
  ri_location :: "engine_report option"
  ri_comfort :: "comfort_report option"

record risk_options =
  ro_medium_threshold :: "jsnum option"
  ro_high_threshold :: "jsnum option"

record risk_contribution =
  rc_code :: string
  rc_points :: jsnum
  rc_evidence_ids :: "id list"

record risk_evaluation = risk_assessment +
  risk_contributions :: "risk_contribution list"

type_synonym contributions = "(string \<times> risk_contribution) list"

section \<open>Contributions\<close>

definition add_contribution :: "string \<Rightarrow> jsnum \<Rightarrow> id list \<Rightarrow> contributions \<Rightarrow> contributions" where
  "add_contribution code points evidence_ids contributions =
     (if \<not> is_fin points \<or> points \<le> Fin 0 then contributions
      else let normalized = round_to 2 points
           in case map_of contributions code of
                None \<Rightarrow>
                  AList.update code
                    \<lparr>rc_code = code, rc_points = normalized, rc_evidence_ids = unique_sorted evidence_ids\<rparr>
                    contributions
              | Some existing \<Rightarrow>
                  AList.update code
                    \<lparr>rc_code = code, rc_points = js_max (rc_points existing) normalized,
                     rc_evidence_ids = unique_sorted (rc_evidence_ids existing @ evidence_ids)\<rparr>
                    contributions)"

text \<open>
  The tests \<open>/a|b/i\<close> look for an ASCII word in either case.
\<close>

fun contains_word :: "string \<Rightarrow> string \<Rightarrow> bool" where
  "contains_word w [] = (w = [])"
| "contains_word w (c # cs) = (take (length w) (c # cs) = w \<or> contains_word w cs)"

definition mentions :: "string list \<Rightarrow> string \<Rightarrow> bool" where
  "mentions ws text = list_ex (\<lambda>w. contains_word w (map ascii_lower text)) ws"

definition warning_points :: "string \<Rightarrow> jsnum" where
  "warning_points warning =
     (if mentions [''conflict'', ''disagree'', ''discrep''] warning then Fin 8
      else if mentions [''unavailable'', ''unverified'', ''limited'', ''unknown''] warning then Fin 4
      else Fin 2)"

definition add_warning_contributions ::
  "string \<Rightarrow> string list \<Rightarrow> id list \<Rightarrow> contributions \<Rightarrow> contributions" where
  "add_warning_contributions prefix warning_codes evidence_ids contributions =
     fold (\<lambda>warning. add_contribution (prefix @ '':'' @ warning) (warning_points warning) evidence_ids)
       warning_codes contributions"

definition get_risk_level :: "jsnum \<Rightarrow> jsnum \<Rightarrow> jsnum \<Rightarrow> risk_level" where
  "get_risk_level score medium_threshold high_threshold =
     (if high_threshold \<le> score then RiskHigh
      else if medium_threshold \<le> score then RiskMedium
      else RiskLow)"

section \<open>The factors\<close>

definition facts_ids :: "evidence_fact list \<Rightarrow> string \<Rightarrow> id list" where
  "facts_ids evidence code = map fact_id (get_facts_by_code evidence code)"

definition data_confidence_factors :: "risk_input \<Rightarrow> contributions \<Rightarrow> contributions" where
  "data_confidence_factors input contributions =
     (let confidence = ri_confidence input;
          ids = dc_evidence_ids confidence;
          contributions =
            (case dc_level confidence of
               DataNone \<Rightarrow> add_contribution ''data-confidence-none'' (Fin 35) ids contributions
             | DataLow \<Rightarrow> add_contribution ''data-confidence-low'' (Fin 25) ids contributions
             | DataMedium \<Rightarrow> add_contribution ''data-confidence-medium'' (Fin 10) ids contributions
             | DataHigh \<Rightarrow> contributions)
      in if critical_coverage confidence < Fin 60
         then add_contribution ''critical-data-coverage-limited'' (Fin 15) ids contributions
         else contributions)"

definition conflict_factors :: "risk_input \<Rightarrow> contributions \<Rightarrow> contributions" where
  "conflict_factors input contributions =
     fold (\<lambda>code. add_contribution (''evidence-conflicting:'' @ code)
             (if code \<in> set critical_fields then Fin 12 else Fin 6)
             (facts_ids (ri_evidence input) code))
       (conflicting_field_codes (ri_confidence input)) contributions"

definition gate_factors :: "risk_input \<Rightarrow> contributions \<Rightarrow> contributions" where
  "gate_factors input contributions =
     (let gate = ri_gate input;
          contributions =
            (if gate_status gate = GateInvalid
             then fold (\<lambda>reason. add_contribution (''reliability-blocking:'' @ reason) (Fin 20) (gate_evidence_ids gate))
                    (blocking_reason_codes gate) contributions
             else if gate_status gate = GateLowConfidence
             then add_contribution ''reliability-low-confidence'' (Fin 45) (gate_evidence_ids gate) contributions
             else contributions)
      in add_warning_contributions ''reliability-warning'' (gate_warning_codes gate) (gate_evidence_ids gate)
           contributions)"

definition completeness_factors :: "risk_input \<Rightarrow> contributions \<Rightarrow> contributions" where
  "completeness_factors input contributions =
     (let code = ''stay.cost.completeness''
      in if has_conflict (get_facts_by_code (ri_evidence input) code)
         then add_contribution ''cost-completeness-conflicting'' (Fin 25) (facts_ids (ri_evidence input) code) contributions
         else case get_known_fact (ri_evidence input) code of
           None \<Rightarrow> add_contribution ''cost-completeness-unavailable'' (Fin 20) [] contributions
         | Some completeness \<Rightarrow>
             if fact_value completeness = VString ''reported-tax-status-unknown''
             then add_contribution ''tax-inclusion-status-unknown'' (Fin 14) [fact_id completeness] contributions
             else if fact_value completeness = VString ''partial''
             then add_contribution ''cost-partially-known'' (Fin 18) [fact_id completeness] contributions
             else if fact_value completeness \<noteq> VString ''reported-complete''
             then add_contribution ''cost-completeness-unknown'' (Fin 24) [fact_id completeness] contributions
             else contributions)"

definition refundable_fact :: "risk_input \<Rightarrow> evidence_fact option" where
  "refundable_fact input = get_known_fact (ri_evidence input) ''offer.refundable''"

definition refundability_factors :: "risk_input \<Rightarrow> contributions \<Rightarrow> contributions" where
  "refundability_factors input contributions =
     (if has_conflict (get_facts_by_code (ri_evidence input) ''offer.refundable'')
      then add_contribution ''refundability-conflicting'' (Fin 15)
             (facts_ids (ri_evidence input) ''offer.refundable'') contributions
      else case refundable_fact input of
        None \<Rightarrow> add_contribution ''refundability-unavailable'' (Fin 8) [] contributions
      | Some refundable \<Rightarrow>
          if fact_value refundable = VBool False
          then add_contribution ''offer-non-refundable'' (Fin 18) [fact_id refundable] contributions
          else if fact_value refundable = VBool True \<and>
            get_known_fact (ri_evidence input) ''offer.free-cancellation-until'' = None
          then add_contribution ''free-cancellation-deadline-unavailable'' (Fin 5) [fact_id refundable] contributions
          else contributions)"

text \<open>\<open>unit.trim().toUpperCase()\<close>.\<close>

definition currency_key :: "string option \<Rightarrow> nat list" where
  "currency_key unit =
     (case unit of Some u \<Rightarrow> concat (map upper_code_units (js_trim u)) | None \<Rightarrow> [])"

definition positive_value :: "evidence_fact \<Rightarrow> jsnum option" where
  "positive_value f =
     (case fact_value f of
        VNumber v \<Rightarrow> if is_fin v \<and> Fin 0 < v then Some v else None
      | _ \<Rightarrow> None)"

definition penalty_ratio_points :: "jsnum \<Rightarrow> jsnum" where
  "penalty_ratio_points ratio =
     (if Fin 1 \<le> ratio then Fin 20 else if lit 0.5 \<le> ratio then Fin 12
      else if lit 0.2 \<le> ratio then Fin 8 else Fin 4)"

definition penalty_factors :: "risk_input \<Rightarrow> contributions \<Rightarrow> contributions" where
  "penalty_factors input contributions =
     (case get_known_fact (ri_evidence input) ''offer.cancellation-penalty'' of
        None \<Rightarrow> contributions
      | Some penalty \<Rightarrow>
        (case positive_value penalty of
           None \<Rightarrow> contributions
         | Some amount \<Rightarrow>
           let total = get_known_fact (ri_evidence input) ''stay.cost.total'';
               penalty_currency = currency_key (fact_unit penalty);
               total_currency = (case total of Some t \<Rightarrow> currency_key (fact_unit t) | None \<Rightarrow> []);
               comparable = penalty_currency \<noteq> [] \<and> total_currency \<noteq> [] \<and> penalty_currency = total_currency;
               total_amount = Option.bind total positive_value;
               (points, contributions) =
                 (if total_amount \<noteq> None \<and> comparable
                  then (penalty_ratio_points (js_div amount (the total_amount)), contributions)
                  else if total \<noteq> None \<and> penalty_currency \<noteq> [] \<and> total_currency \<noteq> [] \<and>
                    penalty_currency \<noteq> total_currency
                  then (Fin 6, add_contribution ''cancellation-penalty-currency-mismatch'' (Fin 8)
                                 [fact_id penalty, fact_id (the total)] contributions)
                  else (Fin 6, contributions))
           in add_contribution ''cancellation-penalty-exposure'' points [fact_id penalty] contributions))"

definition review_factors :: "risk_input \<Rightarrow> contributions \<Rightarrow> contributions" where
  "review_factors input contributions =
     (if has_conflict (get_facts_by_code (ri_evidence input) ''review.count'')
      then add_contribution ''review-count-conflicting'' (Fin 12) (facts_ids (ri_evidence input) ''review.count'') contributions
      else case get_known_fact (ri_evidence input) ''review.count'' of
        None \<Rightarrow> add_contribution ''review-count-unavailable'' (Fin 8) [] contributions
      | Some reviews \<Rightarrow>
          (case fact_value reviews of
             VNumber number \<Rightarrow>
               if \<not> is_fin number then contributions
               else if number \<le> Fin 0
               then add_contribution ''no-review-history'' (Fin 12) [fact_id reviews] contributions
               else if number < Fin 5
               then add_contribution ''very-limited-review-history'' (Fin 10) [fact_id reviews] contributions
               else if number < Fin 20
               then add_contribution ''limited-review-history'' (Fin 7) [fact_id reviews] contributions
               else if number < Fin 50
               then add_contribution ''moderate-review-history'' (Fin 4) [fact_id reviews] contributions
               else contributions
           | _ \<Rightarrow> contributions))"

definition location_factors :: "risk_input \<Rightarrow> contributions \<Rightarrow> contributions" where
  "location_factors input contributions =
     (let evidence = ri_evidence input
      in if has_conflict (get_facts_by_code evidence ''location.distance'') \<or>
            has_conflict (get_facts_by_code evidence ''location.coordinates'')
         then add_contribution ''location-evidence-conflicting'' (Fin 12)
                (facts_ids evidence ''location.distance'' @ facts_ids evidence ''location.coordinates'') contributions
         else if get_known_fact evidence ''location.distance'' = None \<and>
            get_known_fact evidence ''location.coordinates'' = None
         then add_contribution ''location-evidence-unavailable'' (Fin 6) [] contributions
         else contributions)"

definition comfort_factors :: "risk_input \<Rightarrow> contributions \<Rightarrow> contributions" where
  "comfort_factors input contributions =
     (case ri_comfort input of
        None \<Rightarrow> contributions
      | Some comfort \<Rightarrow>
          let ids = report_evidence_ids comfort;
              unverified = length (unverified_feature_codes comfort);
              contributions =
                (if 0 < unverified
                 then add_contribution ''mandatory-features-unverified''
                        (js_min (Fin (of_nat unverified) * Fin 4) (Fin 16)) ids contributions
                 else contributions);
              contributions =
                (if unmet_feature_codes comfort \<noteq> []
                 then add_contribution ''mandatory-features-unmet'' (Fin 20) ids contributions
                 else contributions)
          in if required_unit_type_status comfort = RequirementUnverified
             then add_contribution ''required-unit-type-unverified'' (Fin 8) (unit_type_evidence_ids comfort) contributions
             else if required_unit_type_status comfort = RequirementUnmet
             then add_contribution ''required-unit-type-unmet'' (Fin 15) (unit_type_evidence_ids comfort) contributions
             else contributions)"

definition report_factors :: "string \<Rightarrow> 'a engine_report_scheme option \<Rightarrow> contributions \<Rightarrow> contributions" where
  "report_factors prefix report contributions =
     (case report of
        None \<Rightarrow> contributions
      | Some r \<Rightarrow> add_warning_contributions prefix (report_warning_codes r) (report_evidence_ids r) contributions)"

section \<open>The evaluation\<close>

definition collect_contributions :: "risk_input \<Rightarrow> contributions" where
  "collect_contributions input =
     (let cs = [];
          cs = data_confidence_factors input cs;
          cs = conflict_factors input cs;
          cs = gate_factors input cs;
          cs = completeness_factors input cs;
          cs = refundability_factors input cs;
          cs = penalty_factors input cs;
          cs = review_factors input cs;
          cs = location_factors input cs;
          cs = comfort_factors input cs;
          cs = report_factors ''price-warning'' (ri_price_value input) cs;
          cs = report_factors ''quality-warning'' (ri_quality input) cs;
          cs = report_factors ''location-warning'' (ri_location input) cs
      in report_factors ''comfort-warning'' (ri_comfort input) cs)"

definition by_points :: "(string \<Rightarrow> string \<Rightarrow> jsnum) \<Rightarrow> risk_contribution \<Rightarrow> risk_contribution \<Rightarrow> jsnum" where
  "by_points collate first second =
     js_or (rc_points second - rc_points first) (collate (rc_code first) (rc_code second))"

definition risk_score_of :: "gate_status \<Rightarrow> risk_contribution list \<Rightarrow> jsnum" where
  "risk_score_of status sorted_contributions =
     (let score = js_sum (map rc_points sorted_contributions);
          score = (if status = GateInvalid then Fin 100
                   else if status = GateLowConfidence then js_max score (Fin 75)
                   else score)
      in round_to 2 (clamp score (Fin 0) (Fin 100)))"

definition risk_threshold :: "jsnum option \<Rightarrow> jsnum \<Rightarrow> jsnum" where
  "risk_threshold value fallback =
     clamp (case value of Some (Fin q) \<Rightarrow> Fin q | _ \<Rightarrow> fallback) (Fin 0) (Fin 100)"

definition evaluate_risk ::
  "(string \<Rightarrow> string \<Rightarrow> jsnum) \<Rightarrow> risk_input \<Rightarrow> risk_options \<Rightarrow> risk_evaluation" where
  "evaluate_risk collate input opts =
     (let medium = risk_threshold (ro_medium_threshold opts) (Fin 30);
          high = js_max medium (risk_threshold (ro_high_threshold opts) (Fin 60));
          sorted_contributions = js_sort (by_points collate) (map snd (collect_contributions input));
          score = risk_score_of (gate_status (ri_gate input)) sorted_contributions;
          threshold_level = get_risk_level score medium high;
          level = (if map_option fact_value (refundable_fact input) = Some (VBool False) \<and> threshold_level = RiskLow
                   then RiskMedium else threshold_level)
      in \<lparr>risk_score = score,
          risk_level = level,
          risk_factor_codes = map rc_code sorted_contributions,
          risk_evidence_ids =
            unique_sorted
              (dc_evidence_ids (ri_confidence input) @ gate_evidence_ids (ri_gate input) @
               concat (map rc_evidence_ids sorted_contributions)),
          risk_contributions = sorted_contributions\<rparr>)"

section \<open>What the factors do to the map\<close>

text \<open>
  Every group of factors is a sequence of \<open>addContribution\<close> calls with between 1 and 45
  points and evidence ids from a set \<open>E\<close>; what all such calls keep is proved by induction
  on the sequence.
\<close>

inductive risk_program :: "id set \<Rightarrow> (contributions \<Rightarrow> contributions) \<Rightarrow> bool" for E where
  stop: "risk_program E (\<lambda>cs. cs)"
| add: "risk_program E f \<Longrightarrow> 0 < k \<Longrightarrow> k \<le> 45 \<Longrightarrow> set ids \<subseteq> E \<Longrightarrow>
    risk_program E (\<lambda>cs. add_contribution code (Fin (of_int k)) ids (f cs))"

declare risk_program.stop [simp]

lemma add_numeral:
  "risk_program E f \<Longrightarrow> numeral n \<le> (45::int) \<Longrightarrow> set ids \<subseteq> E \<Longrightarrow>
     risk_program E (\<lambda>cs. add_contribution code (Fin (numeral n)) ids (f cs))"
  using risk_program.add [of E f "numeral n" ids code] by simp

lemma risk_program_comp:
  assumes "risk_program E g" and "risk_program E f"
  shows "risk_program E (\<lambda>cs. g (f cs))"
  using assms(1)
proof induction
  case stop
  show ?case by (rule assms(2))
next
  case (add h k ids code)
  show ?case by (rule risk_program.add [OF add.IH add.hyps(2-4)])
qed

lemma risk_program_fold:
  "(\<And>x. x \<in> set xs \<Longrightarrow> risk_program E (h x)) \<Longrightarrow> risk_program E (fold h xs)"
proof (induction xs)
  case Nil
  then show ?case by (simp add: id_def risk_program.stop)
next
  case (Cons x xs)
  then have "risk_program E (\<lambda>cs. fold h xs (h x cs))"
    by (intro risk_program_comp [of E "fold h xs" "h x"]) simp_all
  then show ?case by (simp add: comp_def)
qed

lemma risk_program_if:
  "(b \<Longrightarrow> risk_program E f) \<Longrightarrow> (\<not> b \<Longrightarrow> risk_program E g) \<Longrightarrow> risk_program E (\<lambda>cs. if b then f cs else g cs)"
  by (cases b) auto

lemma risk_program_option:
  "(x = None \<Longrightarrow> risk_program E f) \<Longrightarrow> (\<And>y. x = Some y \<Longrightarrow> risk_program E (g y)) \<Longrightarrow>
     risk_program E (\<lambda>cs. case x of None \<Rightarrow> f cs | Some y \<Rightarrow> g y cs)"
  by (cases x) auto

lemmas risk_program_intros =
  risk_program.stop add_numeral risk_program_if risk_program_option

subsection \<open>The ids that are reported\<close>

definition report_ids :: "'a engine_report_scheme option \<Rightarrow> id set" where
  "report_ids report = (case report of None \<Rightarrow> {} | Some r \<Rightarrow> set (report_evidence_ids r))"

definition risk_input_ids :: "risk_input \<Rightarrow> id set" where
  "risk_input_ids input =
     fact_id ` set (ri_evidence input) \<union> set (dc_evidence_ids (ri_confidence input)) \<union>
     set (gate_evidence_ids (ri_gate input)) \<union> report_ids (ri_price_value input) \<union>
     report_ids (ri_quality input) \<union> report_ids (ri_location input) \<union> report_ids (ri_comfort input) \<union>
     (case ri_comfort input of None \<Rightarrow> {} | Some c \<Rightarrow> set (unit_type_evidence_ids c))"

lemma facts_ids_in: "set (facts_ids (ri_evidence input) code) \<subseteq> risk_input_ids input"
  by (auto simp: facts_ids_def get_facts_by_code_set risk_input_ids_def)

lemma known_fact_id_in:
  "get_known_fact (ri_evidence input) code = Some f \<Longrightarrow> fact_id f \<in> risk_input_ids input"
  by (auto simp: risk_input_ids_def dest: get_known_fact_in)

lemma confidence_ids_in: "set (dc_evidence_ids (ri_confidence input)) \<subseteq> risk_input_ids input"
  and gate_ids_in: "set (gate_evidence_ids (ri_gate input)) \<subseteq> risk_input_ids input"
  by (auto simp: risk_input_ids_def)

lemmas input_ids_in = facts_ids_in known_fact_id_in confidence_ids_in gate_ids_in

subsection \<open>Every group is such a sequence\<close>

lemma warning_points_numeral: "warning_points w \<in> {Fin 8, Fin 4, Fin 2}"
  by (simp add: warning_points_def)

lemma warning_program: "set ids \<subseteq> E \<Longrightarrow> risk_program E (add_warning_contributions p ws ids)"
proof -
  assume E: "set ids \<subseteq> E"
  have "risk_program E (add_contribution c (warning_points w) ids)" for c w
    using warning_points_numeral [of w] add_numeral [OF risk_program.stop _ E] by fastforce
  then show ?thesis unfolding add_warning_contributions_def by (rule risk_program_fold)
qed

lemma data_confidence_program: "risk_program (risk_input_ids input) (data_confidence_factors input)"
  unfolding data_confidence_factors_def [abs_def] Let_def
  by (cases "dc_level (ri_confidence input)"; simp only: data_confidence_level.case;
      intro risk_program_intros confidence_ids_in; simp)

lemma conflict_program: "risk_program (risk_input_ids input) (conflict_factors input)"
proof -
  have "risk_program (risk_input_ids input)
      (add_contribution d (if b then Fin 12 else Fin 6) (facts_ids (ri_evidence input) c))" for b c d
    by (cases b; simp only: if_True if_False; intro risk_program_intros facts_ids_in; simp)
  then show ?thesis unfolding conflict_factors_def [abs_def] by (intro risk_program_fold)
qed

lemma gate_program: "risk_program (risk_input_ids input) (gate_factors input)"
  unfolding gate_factors_def [abs_def] Let_def
proof (intro risk_program_comp [OF warning_program] risk_program_if gate_ids_in)
  show "risk_program (risk_input_ids input)
      (fold (\<lambda>reason. add_contribution (''reliability-blocking:'' @ reason) (Fin 20) (gate_evidence_ids (ri_gate input)))
        (blocking_reason_codes (ri_gate input)))"
    by (intro risk_program_fold add_numeral risk_program.stop gate_ids_in) simp
qed (intro risk_program_intros gate_ids_in; simp)+

lemma completeness_program: "risk_program (risk_input_ids input) (completeness_factors input)"
  unfolding completeness_factors_def [abs_def] Let_def
  by (intro risk_program_intros facts_ids_in) (simp_all add: known_fact_id_in)

lemma refundability_program: "risk_program (risk_input_ids input) (refundability_factors input)"
  unfolding refundability_factors_def [abs_def] refundable_fact_def
  by (intro risk_program_intros facts_ids_in) (simp_all add: known_fact_id_in)

lemma location_program: "risk_program (risk_input_ids input) (location_factors input)"
  unfolding location_factors_def [abs_def] Let_def
  by (intro risk_program_intros) (use facts_ids_in in simp_all)

lemma review_program: "risk_program (risk_input_ids input) (review_factors input)"
proof -
  have "risk_program (risk_input_ids input)
      (\<lambda>cs. case v of
             VNumber number \<Rightarrow>
               if \<not> is_fin number then cs
               else if number \<le> Fin 0 then add_contribution ''no-review-history'' (Fin 12) [fact_id reviews] cs
               else if number < Fin 5 then add_contribution ''very-limited-review-history'' (Fin 10) [fact_id reviews] cs
               else if number < Fin 20 then add_contribution ''limited-review-history'' (Fin 7) [fact_id reviews] cs
               else if number < Fin 50 then add_contribution ''moderate-review-history'' (Fin 4) [fact_id reviews] cs
               else cs
           | _ \<Rightarrow> cs)"
    if "get_known_fact (ri_evidence input) ''review.count'' = Some reviews" for reviews v
    using known_fact_id_in [OF that] by (cases v; simp only: evidence_value.case; intro risk_program_intros; simp)
  then show ?thesis
    unfolding review_factors_def [abs_def]
    by (intro risk_program_intros facts_ids_in) simp_all
qed

lemma penalty_program: "risk_program (risk_input_ids input) (penalty_factors input)"
proof (cases "get_known_fact (ri_evidence input) ''offer.cancellation-penalty''")
  case (Some penalty)
  let ?E = "risk_input_ids input" and ?total = "get_known_fact (ri_evidence input) ''stay.cost.total''"
  note id = known_fact_id_in [OF Some]
  have total: "fact_id (the ?total) \<in> ?E" if "?total \<noteq> None"
    using that known_fact_id_in by fastforce
  have exposure: "risk_program ?E (\<lambda>cs. add_contribution ''cancellation-penalty-exposure'' points [fact_id penalty] (f cs))"
    if "risk_program ?E f" and "points \<in> {Fin 20, Fin 12, Fin 8, Fin 4, Fin 6}" for f points
    using that id by (auto intro: add_numeral)
  have ratio: "penalty_ratio_points r \<in> {Fin 20, Fin 12, Fin 8, Fin 4, Fin 6}" for r
    by (simp add: penalty_ratio_points_def)
  show ?thesis
  proof (cases "positive_value penalty")
    case (Some amount)
    show ?thesis
      unfolding penalty_factors_def [abs_def] \<open>get_known_fact _ _ = Some penalty\<close> Some option.case Let_def
        if_distrib [of "\<lambda>p. case p of (x, y) \<Rightarrow> _ x y"] prod.case
      by (intro risk_program_if exposure ratio risk_program.stop add_numeral) (simp_all add: id total)
  qed (simp add: penalty_factors_def [abs_def] \<open>get_known_fact _ _ = Some penalty\<close> risk_program.stop)
qed (simp add: penalty_factors_def [abs_def] risk_program.stop)

lemma unverified_points:
  assumes "0 < n"
  shows "\<exists>k. js_min (Fin (of_nat n) * Fin 4) (Fin 16) = Fin (of_int k) \<and> 0 < k \<and> k \<le> 45"
proof (cases "n \<le> 3")
  case True
  then have "(of_nat n :: rat) * 4 = of_int (4 * int n)" and "rnd (of_int (4 * int n)) = Fin (of_int (4 * int n))"
    by (simp, intro rnd_of_int, simp)
  then have "Fin (of_nat n) * Fin 4 = Fin (of_int (4 * int n))" by (simp only: times_jsnum.simps)
  moreover have "(of_int (4 * int n) :: rat) \<le> 16" using True by simp
  ultimately have "js_min (Fin (of_nat n) * Fin 4) (Fin 16) = Fin (of_int (4 * int n))"
    by (simp only: js_min_def) simp
  then show ?thesis using True assms by (intro exI [of _ "4 * int n"]) simp
next
  case False
  then have "Fin 16 \<le> Fin (of_nat n) * Fin 4"
    using rnd_mono [of 16 "of_nat n * 4"] rnd_of_int [of 16] by simp
  then have "js_min (Fin (of_nat n) * Fin 4) (Fin 16) = Fin 16"
    by (cases "Fin (of_nat n) * Fin 4") (auto simp: js_min_def)
  then show ?thesis by (intro exI [of _ 16]) simp
qed

lemma comfort_program: "risk_program (risk_input_ids input) (comfort_factors input)"
proof (cases "ri_comfort input")
  case (Some c)
  let ?E = "risk_input_ids input"
  have ids: "set (report_evidence_ids c) \<subseteq> ?E" "set (unit_type_evidence_ids c) \<subseteq> ?E"
    by (auto simp: risk_input_ids_def report_ids_def Some)
  have unverified: "risk_program ?E (\<lambda>cs. add_contribution x (js_min (Fin (of_nat n) * Fin 4) (Fin 16)) (report_evidence_ids c) cs)"
    if "0 < n" for n x
    using unverified_points [OF that] risk_program.add [OF risk_program.stop _ _ ids(1)] by force
  show ?thesis
    unfolding comfort_factors_def [abs_def] Some option.case Let_def
    by (intro risk_program_if add_numeral unverified ids risk_program.stop) simp_all
qed (simp add: comfort_factors_def [abs_def] risk_program.stop)

lemma report_program: "report_ids r \<subseteq> E \<Longrightarrow> risk_program E (report_factors p r)"
  unfolding report_factors_def [abs_def] report_ids_def
  by (cases r) (auto intro: risk_program.stop warning_program)

section \<open>The map of contributions\<close>

text \<open>
  The core factors come before the reports of the optional engines; adding reports continues
  the sequence.
\<close>

definition without_reports :: "risk_input \<Rightarrow> risk_input" where
  "without_reports input =
     input\<lparr>ri_price_value := None, ri_quality := None, ri_location := None, ri_comfort := None\<rparr>"

definition report_part :: "risk_input \<Rightarrow> contributions \<Rightarrow> contributions" where
  "report_part input cs =
     report_factors ''comfort-warning'' (ri_comfort input)
       (report_factors ''location-warning'' (ri_location input)
         (report_factors ''quality-warning'' (ri_quality input)
           (report_factors ''price-warning'' (ri_price_value input) (comfort_factors input cs))))"

lemma without_reports_fields:
  "ri_evidence (without_reports input) = ri_evidence input"
  "ri_gate (without_reports input) = ri_gate input"
  "ri_confidence (without_reports input) = ri_confidence input"
  "ri_comfort (without_reports input) = None"
  by (simp_all add: without_reports_def)

lemma without_reports_core:
  "data_confidence_factors (without_reports input) = data_confidence_factors input"
  "conflict_factors (without_reports input) = conflict_factors input"
  "gate_factors (without_reports input) = gate_factors input"
  "completeness_factors (without_reports input) = completeness_factors input"
  "refundability_factors (without_reports input) = refundability_factors input"
  "penalty_factors (without_reports input) = penalty_factors input"
  "review_factors (without_reports input) = review_factors input"
  "location_factors (without_reports input) = location_factors input"
  "comfort_factors (without_reports input) = (\<lambda>cs. cs)"
  by (simp_all only: data_confidence_factors_def [abs_def] conflict_factors_def [abs_def] gate_factors_def [abs_def]
      completeness_factors_def [abs_def] refundability_factors_def [abs_def] refundable_fact_def penalty_factors_def [abs_def]
      review_factors_def [abs_def] location_factors_def [abs_def] comfort_factors_def [abs_def] without_reports_fields option.case)

lemma collect_report_part: "collect_contributions input = report_part input (collect_contributions (without_reports input))"
  unfolding collect_contributions_def Let_def without_reports_core report_part_def
  by (simp add: without_reports_def report_factors_def)

lemma report_ids_in:
  "report_ids (ri_price_value input) \<subseteq> risk_input_ids input" "report_ids (ri_quality input) \<subseteq> risk_input_ids input"
  "report_ids (ri_location input) \<subseteq> risk_input_ids input" "report_ids (ri_comfort input) \<subseteq> risk_input_ids input"
  by (auto simp: risk_input_ids_def)

lemma report_part_program: "risk_program (risk_input_ids input) (report_part input)"
  unfolding report_part_def [abs_def]
  by (intro risk_program_comp [OF report_program] comfort_program report_ids_in)

lemma collect_program: "\<exists>f. risk_program (risk_input_ids input) f \<and> collect_contributions input = f []"
proof -
  let ?E = "risk_input_ids input"
  note c = risk_program_comp
  have "risk_program ?E (\<lambda>cs. location_factors input (review_factors input (penalty_factors input
      (refundability_factors input (completeness_factors input (gate_factors input
        (conflict_factors input (data_confidence_factors input cs))))))))"
    by (rule c [OF location_program], rule c [OF review_program], rule c [OF penalty_program],
        rule c [OF refundability_program], rule c [OF completeness_program], rule c [OF gate_program],
        rule c [OF conflict_program], rule data_confidence_program)
  from c [OF report_part_program this] show ?thesis
    by (intro exI conjI) (assumption, simp add: collect_contributions_def Let_def report_part_def)
qed

subsection \<open>Its invariant\<close>

definition factor_points :: "contributions \<Rightarrow> string \<Rightarrow> int" where
  "factor_points cs code = (case map_of cs code of None \<Rightarrow> 0 | Some x \<Rightarrow> \<lfloor>fin_val (rc_points x)\<rfloor>)"

definition contribution_ok :: "id set \<Rightarrow> string \<Rightarrow> risk_contribution \<Rightarrow> bool" where
  "contribution_ok E code x \<longleftrightarrow>
     rc_code x = code \<and> (\<exists>k. rc_points x = Fin (of_int k) \<and> k \<in> {1..45}) \<and> set (rc_evidence_ids x) \<subseteq> E"

definition contributions_ok :: "id set \<Rightarrow> contributions \<Rightarrow> bool" where
  "contributions_ok E cs \<longleftrightarrow> distinct (map fst cs) \<and> (\<forall>(code, x) \<in> set cs. contribution_ok E code x)"

lemma contributions_ok_lookup:
  "contributions_ok E cs \<Longrightarrow> map_of cs code = Some x \<Longrightarrow> contribution_ok E code x"
  by (auto simp: contributions_ok_def dest: map_of_SomeD)

lemma contributions_ok_points:
  "contributions_ok E cs \<Longrightarrow> map_of cs code = Some x \<Longrightarrow> rc_points x = Fin (of_int (factor_points cs code))"
  using contributions_ok_lookup [of E cs code x] by (auto simp: factor_points_def contribution_ok_def)

lemma js_max_Fin: "js_max (Fin a) (Fin b) = Fin (max a b)"
  by (simp add: js_max_def max_def)

lemma add_contribution_Fin:
  assumes "0 < k" and "k \<le> 45" and "contributions_ok E cs"
  shows "\<exists>x. add_contribution code (Fin (of_int k)) ids cs = AList.update code x cs \<and>
     rc_code x = code \<and> rc_points x = Fin (of_int (max (factor_points cs code) k)) \<and>
     set (rc_evidence_ids x) \<subseteq>
       (case map_of cs code of None \<Rightarrow> {} | Some y \<Rightarrow> set (rc_evidence_ids y)) \<union> set ids"
proof -
  have r: "round_to 2 (Fin (of_int k)) = Fin (of_int k)" using assms(1,2) by (intro round_to_of_int) auto
  show ?thesis
  proof (cases "map_of cs code")
    case None
    with assms(1) show ?thesis by (auto simp: add_contribution_def r Let_def factor_points_def max_def)
  next
    case (Some y)
    with assms(1) contributions_ok_points [OF assms(3) Some] show ?thesis
      by (auto simp: add_contribution_def r Let_def js_max_Fin of_int_max)
  qed
qed

lemma add_contribution_points:
  assumes "0 < k" and "k \<le> 45" and "contributions_ok E cs"
  shows "factor_points (add_contribution code (Fin (of_int k)) ids cs) = (factor_points cs)(code := max (factor_points cs code) k)"
proof -
  obtain x where "add_contribution code (Fin (of_int k)) ids cs = AList.update code x cs"
    and "rc_points x = Fin (of_int (max (factor_points cs code) k))"
    using add_contribution_Fin [OF assms, of code ids] by blast
  then show ?thesis by (simp add: fun_eq_iff factor_points_def update_conv)
qed

lemma add_contribution_ok:
  assumes "0 < k" and "k \<le> 45" and "contributions_ok E cs" and "set ids \<subseteq> E"
  shows "contributions_ok E (add_contribution code (Fin (of_int k)) ids cs)"
proof -
  obtain x where x: "add_contribution code (Fin (of_int k)) ids cs = AList.update code x cs"
    "rc_code x = code" "rc_points x = Fin (of_int (max (factor_points cs code) k))"
    "set (rc_evidence_ids x) \<subseteq> (case map_of cs code of None \<Rightarrow> {} | Some y \<Rightarrow> set (rc_evidence_ids y)) \<union> set ids"
    using add_contribution_Fin [OF assms(1-3), of code ids] by blast
  have old: "contribution_ok E c y" if "map_of cs c = Some y" for c y
    by (rule contributions_ok_lookup [OF assms(3) that])
  then have "factor_points cs code \<le> 45"
    by (cases "map_of cs code") (fastforce simp: factor_points_def contribution_ok_def)+
  with assms(1,2) have "max (factor_points cs code) k \<in> {1..45}" by simp
  moreover have "set (rc_evidence_ids x) \<subseteq> E"
    using x(4) assms(4) old by (cases "map_of cs code") (fastforce simp: contribution_ok_def)+
  ultimately have new: "contribution_ok E code x" using x(2,3) by (auto simp: contribution_ok_def)
  have "distinct (map fst (AList.update code x cs))"
    using assms(3) by (simp add: contributions_ok_def distinct_update)
  moreover from this have "(c, y) \<in> set (AList.update code x cs) \<Longrightarrow> contribution_ok E c y" for c y
    using new old by (auto simp: update_conv split: if_splits dest!: map_of_is_SomeI)
  ultimately show ?thesis unfolding x(1) contributions_ok_def by blast
qed

lemma risk_program_ok: "risk_program E f \<Longrightarrow> contributions_ok E cs \<Longrightarrow> contributions_ok E (f cs)"
  by (induction rule: risk_program.induct) (auto intro: add_contribution_ok)

lemma risk_program_points:
  "risk_program E f \<Longrightarrow> contributions_ok E cs \<Longrightarrow> factor_points cs code \<le> factor_points (f cs) code"
proof (induction rule: risk_program.induct)
  case (add f k ids c)
  have "contributions_ok E (f cs)" by (rule risk_program_ok [OF add.hyps(1) add.prems])
  from add_contribution_points [OF add.hyps(2,3) this, of c ids] add.IH [OF add.prems]
  show ?case by (cases "code = c") (simp_all add: le_max_iff_disj)
qed simp

lemma contributions_ok_Nil [simp]: "contributions_ok E []"
  by (simp add: contributions_ok_def)

lemma collect_ok: "contributions_ok (risk_input_ids input) (collect_contributions input)"
  using collect_program [of input] risk_program_ok by fastforce

lemma contributions_ok_mono: "E \<subseteq> F \<Longrightarrow> contributions_ok E cs \<Longrightarrow> contributions_ok F cs"
  by (fastforce simp: contributions_ok_def contribution_ok_def)

lemma reports_only_add: "factor_points (collect_contributions (without_reports input)) code \<le> factor_points (collect_contributions input) code"
proof -
  have "risk_input_ids (without_reports input) \<subseteq> risk_input_ids input"
    by (auto simp: risk_input_ids_def without_reports_def report_ids_def)
  then have "contributions_ok (risk_input_ids input) (collect_contributions (without_reports input))"
    using collect_ok contributions_ok_mono by blast
  then show ?thesis
    unfolding collect_report_part [of input] by (rule risk_program_points [OF report_part_program])
qed

section \<open>The score\<close>

text \<open>
  Summing positive integers in floating point is exact up to 100, and once the sum has
  reached 100 it stays there, so that the capped sum has no rounding error at all.
\<close>

lemma capped_foldl:
  assumes "s \<le> 200 \<and> acc = Fin (of_int s) \<or> 100 \<le> s \<and> Fin 100 \<le> acc" and "set ks \<subseteq> {1..45}" and "0 \<le> s"
  shows "(s + sum_list ks \<le> 200 \<and> foldl (+) acc (map (\<lambda>k. Fin (of_int k)) ks) = Fin (of_int (s + sum_list ks))) \<or>
    (100 \<le> s + sum_list ks \<and> Fin 100 \<le> foldl (+) acc (map (\<lambda>k. Fin (of_int k)) ks))"
  using assms
proof (induction ks arbitrary: s acc)
  case (Cons k ks)
  from Cons.prems have k: "1 \<le> k" "k \<le> 45" by simp_all
  have "s + k \<le> 200 \<and> acc + Fin (of_int k) = Fin (of_int (s + k)) \<or> 100 \<le> s + k \<and> Fin 100 \<le> acc + Fin (of_int k)"
    using Cons.prems(1)
  proof (elim disjE conjE)
    assume s: "s \<le> 200" "acc = Fin (of_int s)"
    then have "acc + Fin (of_int k) = Fin (of_int (s + k))"
      using k Cons.prems(3) rnd_of_int [of "s + k"] by simp
    then show ?thesis using k by (cases "s + k \<le> 200") (simp_all del: of_int_add)
  next
    assume s: "100 \<le> s" "Fin 100 \<le> acc"
    have "double (of_int 100)" by (rule double_of_int) simp
    then have "Fin 100 \<le> rnd (q + of_int k)" if "100 \<le> q" for q
      using that k by (intro rnd_ge_double) simp_all
    with s have "Fin 100 \<le> acc + Fin (of_int k)" by (cases acc) auto
    with s k show ?thesis by simp
  qed
  from Cons.IH [OF this] Cons.prems k show ?case by (simp add: add.assoc)
qed simp

lemma capped_sum:
  assumes "set ks \<subseteq> {1..45}"
  shows "clamp (js_sum (map (\<lambda>k. Fin (of_int k)) ks)) (Fin 0) (Fin 100) = Fin (of_int (min 100 (sum_list ks)))"
    and "clamp (js_max (js_sum (map (\<lambda>k. Fin (of_int k)) ks)) (Fin 75)) (Fin 0) (Fin 100) =
      Fin (of_int (max 75 (min 100 (sum_list ks))))"
proof -
  let ?s = "sum_list ks" and ?x = "js_sum (map (\<lambda>k. Fin (of_int k)) ks)"
  have nn: "0 \<le> ?s" using assms by (intro sum_list_nonneg) auto
  have "?s \<le> 200 \<and> ?x = Fin (of_int ?s) \<or> 100 \<le> ?s \<and> Fin 100 \<le> ?x"
    using capped_foldl [of 0 "Fin 0" ks] assms by (simp add: js_sum_def)
  then show "clamp ?x (Fin 0) (Fin 100) = Fin (of_int (min 100 ?s))"
    and "clamp (js_max ?x (Fin 75)) (Fin 0) (Fin 100) = Fin (of_int (max 75 (min 100 ?s)))"
    using nn by (cases ?x; auto simp: clamp_def js_min_def js_max_def min_def max_def)+
qed

definition point_total :: "risk_contribution list \<Rightarrow> int" where
  "point_total xs = (\<Sum>x\<leftarrow>xs. \<lfloor>fin_val (rc_points x)\<rfloor>)"

definition capped_score :: "gate_status \<Rightarrow> int \<Rightarrow> int" where
  "capped_score status points =
     (case status of
        GateInvalid \<Rightarrow> 100
      | GateLowConfidence \<Rightarrow> max 75 (min 100 points)
      | _ \<Rightarrow> min 100 points)"

definition integral_points :: "risk_contribution list \<Rightarrow> bool" where
  "integral_points xs \<longleftrightarrow>
     map rc_points xs = map (\<lambda>x. Fin (of_int \<lfloor>fin_val (rc_points x)\<rfloor>)) xs \<and>
     (\<lambda>x. \<lfloor>fin_val (rc_points x)\<rfloor>) ` set xs \<subseteq> {1..45}"

lemma point_total_nonneg: "integral_points xs \<Longrightarrow> 0 \<le> point_total xs"
  unfolding point_total_def integral_points_def by (intro sum_list_nonneg) auto

lemma risk_score_of_capped:
  assumes "integral_points xs"
  shows "risk_score_of status xs = Fin (of_int (capped_score status (point_total xs)))"
proof -
  let ?ks = "map (\<lambda>x. \<lfloor>fin_val (rc_points x)\<rfloor>) xs"
  from assms have p: "map rc_points xs = map (\<lambda>k. Fin (of_int k)) ?ks" and ks: "set ?ks \<subseteq> {1..45}"
    by (simp_all add: integral_points_def comp_def)
  have t: "sum_list ?ks = point_total xs" by (simp add: point_total_def)
  have "clamp (Fin 100) (Fin 0) (Fin 100) = Fin (of_int 100)" by (simp add: clamp_id)
  then have "risk_score_of status xs = round_to 2 (Fin (of_int (capped_score status (point_total xs))))"
    using capped_sum [OF ks]
    by (cases status) (simp_all only: risk_score_of_def Let_def p t capped_score_def gate_status.case gate_status.distinct if_True if_False simp_thms)
  also have "\<dots> = Fin (of_int (capped_score status (point_total xs)))"
    using point_total_nonneg [OF assms] by (intro round_to_of_int) (auto simp: capped_score_def split: gate_status.split)
  finally show ?thesis .
qed

lemma collect_integral: "integral_points (map snd (collect_contributions input))"
proof -
  have "rc_points x = Fin (of_int \<lfloor>fin_val (rc_points x)\<rfloor>) \<and> \<lfloor>fin_val (rc_points x)\<rfloor> \<in> {1..45}"
    if "(c, x) \<in> set (collect_contributions input)" for c x
  proof -
    from that collect_ok [of input] have "contribution_ok (risk_input_ids input) c x" by (auto simp: contributions_ok_def)
    then obtain k where "rc_points x = Fin (of_int k)" "k \<in> {1..45}" by (auto simp: contribution_ok_def)
    then show ?thesis by simp
  qed
  then show ?thesis unfolding integral_points_def by (fastforce simp: image_iff)
qed

lemma integral_points_mset: "mset xs = mset ys \<Longrightarrow> integral_points xs = integral_points ys"
  by (simp add: integral_points_def mset_eq_setD [of xs ys])

lemma point_total_mset: "mset xs = mset ys \<Longrightarrow> point_total xs = point_total ys"
  unfolding point_total_def by (metis mset_map sum_mset_sum_list)

lemma evaluate_risk_fields:
  fixes collate input opts
  defines "e \<equiv> evaluate_risk collate input opts"
  shows "risk_contributions e = js_sort (by_points collate) (map snd (collect_contributions input))"
    and "risk_factor_codes e = map rc_code (risk_contributions e)"
    and "risk_score e = risk_score_of (gate_status (ri_gate input)) (risk_contributions e)"
    and "risk_evidence_ids e = unique_sorted (dc_evidence_ids (ri_confidence input) @ gate_evidence_ids (ri_gate input) @
               concat (map rc_evidence_ids (risk_contributions e)))"
  by (simp_all add: e_def evaluate_risk_def Let_def)

lemma risk_contributions_integral: "integral_points (risk_contributions (evaluate_risk collate input opts))"
  using integral_points_mset [OF mset_js_sort] collect_integral by (simp add: evaluate_risk_fields)

lemma risk_score_total:
  "risk_score (evaluate_risk collate input opts) =
     Fin (of_int (capped_score (gate_status (ri_gate input)) (point_total (map snd (collect_contributions input)))))"
  using risk_score_of_capped [OF risk_contributions_integral] point_total_mset [OF mset_js_sort]
  by (simp add: evaluate_risk_fields)

text \<open>C31. The risk score is exact: whatever factors apply, each contributes an integer between 1 and 45, and
  the score is the integer sum of these points capped at 100 - raised to at least 75 for a gate of
  low confidence and to 100 for an invalid one - with no floating-point error.\<close>

theorem risk_score_exact:
  "\<exists>ks. map rc_points (risk_contributions (evaluate_risk collate input opts)) = map (\<lambda>k. Fin (of_int k)) ks \<and>
     set ks \<subseteq> {1..45} \<and>
     risk_score (evaluate_risk collate input opts) =
       Fin (of_int (case gate_status (ri_gate input) of
              GateInvalid \<Rightarrow> 100
            | GateLowConfidence \<Rightarrow> max 75 (min 100 (sum_list ks))
            | _ \<Rightarrow> min 100 (sum_list ks)))"
proof -
  let ?e = "evaluate_risk collate input opts"
  let ?ks = "map (\<lambda>x. \<lfloor>fin_val (rc_points x)\<rfloor>) (risk_contributions ?e)"
  note int = risk_contributions_integral [of collate input opts]
  have "map rc_points (risk_contributions ?e) = map (\<lambda>k. Fin (of_int k)) ?ks" and "set ?ks \<subseteq> {1..45}"
    using int by (simp_all add: integral_points_def comp_def)
  moreover have "risk_score ?e = Fin (of_int (capped_score (gate_status (ri_gate input)) (sum_list ?ks)))"
    unfolding evaluate_risk_fields(3) using risk_score_of_capped [OF int] by (simp add: point_total_def)
  ultimately show ?thesis unfolding capped_score_def by (intro exI [of _ ?ks]) simp
qed

section \<open>Reports never lower the risk\<close>

instantiation risk_level :: linorder
begin

fun level_rank :: "risk_level \<Rightarrow> nat" where
  "level_rank RiskLow = 0"
| "level_rank RiskMedium = 1"
| "level_rank RiskHigh = 2"

definition less_eq_risk_level :: "risk_level \<Rightarrow> risk_level \<Rightarrow> bool" where
  "less_eq_risk_level a b \<longleftrightarrow> level_rank a \<le> level_rank b"

definition less_risk_level :: "risk_level \<Rightarrow> risk_level \<Rightarrow> bool" where
  "less_risk_level a b \<longleftrightarrow> level_rank a < level_rank b"

instance
proof
  fix a b :: risk_level
  show "a \<le> b \<Longrightarrow> b \<le> a \<Longrightarrow> a = b"
    by (cases a; cases b) (simp_all add: less_eq_risk_level_def)
qed (auto simp: less_eq_risk_level_def less_risk_level_def)

end

lemma point_total_keys:
  assumes "contributions_ok E cs"
  shows "point_total (map snd cs) = sum (factor_points cs) {c. 0 < factor_points cs c}"
proof -
  have d: "distinct (map fst cs)" using assms by (simp add: contributions_ok_def)
  have "point_total (map snd cs) = (\<Sum>c\<leftarrow>map fst cs. factor_points cs c)"
    unfolding point_total_def map_map
  proof (intro arg_cong [of _ _ sum_list] map_cong [OF refl])
    fix p assume "p \<in> set cs"
    with d have "map_of cs (fst p) = Some (snd p)" by (simp add: map_of_is_SomeI)
    then show "((\<lambda>x. \<lfloor>fin_val (rc_points x)\<rfloor>) \<circ> snd) p = (factor_points cs \<circ> fst) p" by (simp add: factor_points_def)
  qed
  also have "\<dots> = sum (factor_points cs) (fst ` set cs)"
    using sum_list_distinct_conv_sum_set [OF d] by (simp only: set_map)
  also have "fst ` set cs = {c. 0 < factor_points cs c}"
  proof -
    have "0 < factor_points cs c \<longleftrightarrow> map_of cs c \<noteq> None" for c
      using contributions_ok_lookup [OF assms, of c]
      by (cases "map_of cs c") (fastforce simp: factor_points_def contribution_ok_def)+
    then show ?thesis by (auto simp: map_of_eq_None_iff)
  qed
  finally show ?thesis .
qed

lemma reports_add_points:
  "point_total (map snd (collect_contributions (without_reports input))) \<le> point_total (map snd (collect_contributions input))"
proof -
  let ?a = "factor_points (collect_contributions (without_reports input))" and ?b = "factor_points (collect_contributions input)"
  have le: "?a c \<le> ?b c" for c by (rule reports_only_add)
  have "finite (dom (map_of (collect_contributions input)))" by (rule finite_dom_map_of)
  then have fin: "finite {c. 0 < ?b c}"
    by (rule rev_finite_subset) (auto simp: factor_points_def split: option.splits)
  have "sum ?a {c. 0 < ?a c} \<le> sum ?b {c. 0 < ?a c}" by (intro sum_mono le)
  also have "\<dots> \<le> sum ?b {c. 0 < ?b c}"
    using fin le by (intro sum_mono2) (auto intro: less_le_trans)
  finally show ?thesis by (simp only: point_total_keys [OF collect_ok])
qed

lemma dom_add_contribution:
  "dom (map_of (add_contribution code p ids cs)) =
     (if is_fin p \<and> Fin 0 < p then insert code (dom (map_of cs)) else dom (map_of cs))"
proof -
  have "is_fin p \<Longrightarrow> p \<le> Fin 0 \<longleftrightarrow> \<not> Fin 0 < p" by (cases p) auto
  then show ?thesis
    by (auto simp: add_contribution_def Let_def update_conv split: option.splits if_splits)
qed

lemma risk_program_dom: "risk_program E f \<Longrightarrow> dom (map_of cs) \<subseteq> dom (map_of (f cs))"
  by (induction rule: risk_program.induct) (auto simp: dom_add_contribution)

lemma set_risk_factor_codes:
  "set (risk_factor_codes (evaluate_risk collate input opts)) = dom (map_of (collect_contributions input))"
proof -
  have "rc_code x = c" if "(c, x) \<in> set (collect_contributions input)" for c x
    using that collect_ok [of input] by (auto simp: contributions_ok_def contribution_ok_def)
  then have "(rc_code \<circ> snd) ` set (collect_contributions input) = fst ` set (collect_contributions input)"
    by (intro image_cong) auto
  then show ?thesis by (simp add: evaluate_risk_fields dom_map_of_conv_image_fst image_comp)
qed

lemma get_risk_level_mono: "s \<le> t \<Longrightarrow> get_risk_level s m h \<le> get_risk_level t m h"
  by (auto simp: get_risk_level_def less_eq_risk_level_def dest: jsnum_le_trans)

lemma at_least_medium_mono:
  "a \<le> (b :: risk_level) \<Longrightarrow>
     (if r \<and> a = RiskLow then RiskMedium else a) \<le> (if r \<and> b = RiskLow then RiskMedium else b)"
  by (cases a; cases b) (simp_all add: less_eq_risk_level_def)

lemma risk_level_fields:
  "risk_level (evaluate_risk collate input opts) =
     (let medium = risk_threshold (ro_medium_threshold opts) (Fin 30);
          level = get_risk_level (risk_score (evaluate_risk collate input opts)) medium
                    (js_max medium (risk_threshold (ro_high_threshold opts) (Fin 60)))
      in if map_option fact_value (refundable_fact input) = Some (VBool False) \<and> level = RiskLow then RiskMedium else level)"
  by (simp add: evaluate_risk_def Let_def)

text \<open>The reports of the optional engines (price value, quality, location, comfort) can only add to the risk
  of a stay: with them the score and the level are at least those without them, and every factor
  is still reported.\<close>

theorem reports_never_lower_risk:
  "risk_score (evaluate_risk collate (without_reports input) opts) \<le> risk_score (evaluate_risk collate input opts) \<and>
   risk_level (evaluate_risk collate (without_reports input) opts) \<le> risk_level (evaluate_risk collate input opts) \<and>
   set (risk_factor_codes (evaluate_risk collate (without_reports input) opts)) \<subseteq>
     set (risk_factor_codes (evaluate_risk collate input opts))"
proof (intro conjI)
  let ?a = "evaluate_risk collate (without_reports input) opts" and ?b = "evaluate_risk collate input opts"
  have "capped_score s x \<le> capped_score s y" if "x \<le> y" for s x y
    using that by (cases s) (auto simp: capped_score_def)
  then show s: "risk_score ?a \<le> risk_score ?b"
    using reports_add_points [of input] by (simp add: risk_score_total without_reports_fields)
  have "refundable_fact (without_reports input) = refundable_fact input"
    by (simp add: refundable_fact_def without_reports_fields)
  then show "risk_level ?a \<le> risk_level ?b"
    unfolding risk_level_fields Let_def by (simp only:) (intro at_least_medium_mono get_risk_level_mono s)
  show "set (risk_factor_codes ?a) \<subseteq> set (risk_factor_codes ?b)"
    unfolding set_risk_factor_codes collect_report_part [of input]
    by (rule risk_program_dom [OF report_part_program])
qed

text \<open>The level is what the thresholds say about the score, except that a stay known to be
  non-refundable is never of low risk.\<close>

theorem risk_level_iff:
  fixes collate input opts
  defines "medium \<equiv> risk_threshold (ro_medium_threshold opts) (Fin 30)"
    and "high \<equiv> risk_threshold (ro_high_threshold opts) (Fin 60)"
    and "e \<equiv> evaluate_risk collate input opts"
  shows "(risk_level e = RiskHigh \<longleftrightarrow> medium \<le> risk_score e \<and> high \<le> risk_score e) \<and>
    (risk_level e = RiskLow \<longleftrightarrow> risk_score e < medium \<and>
       map_option fact_value (refundable_fact input) \<noteq> Some (VBool False))"
proof -
  obtain s where s: "risk_score e = Fin s" by (simp add: e_def risk_score_total)
  have Fin: "\<exists>q. risk_threshold v (Fin k) = Fin q" for v k
    by (auto simp: risk_threshold_def clamp_def js_min_def js_max_def split: option.split jsnum.split)
  obtain m where m: "medium = Fin m" using Fin medium_def by blast
  obtain h where h: "high = Fin h" using Fin high_def by blast
  show ?thesis
    using risk_level_fields [of collate input opts]
    unfolding Let_def medium_def [symmetric] high_def [symmetric] e_def [symmetric] get_risk_level_def s m h
    by (auto simp: js_max_Fin max_def not_le split: if_splits)
qed

text \<open>The factors are reported once each, the ones with most points first, ties in the order of their
  codes, and each with its evidence ids in order.\<close>

theorem risk_factors_sorted:
  assumes "collation collate"
  shows "risk_factor_codes (evaluate_risk collate input opts) = map rc_code (risk_contributions (evaluate_risk collate input opts)) \<and>
    distinct (risk_factor_codes (evaluate_risk collate input opts)) \<and>
    sorted_wrt (\<lambda>x y. rc_points y < rc_points x \<or>
        rc_points x = rc_points y \<and> \<not> Fin 0 < collate (rc_code x) (rc_code y))
      (risk_contributions (evaluate_risk collate input opts))"
proof (intro conjI)
  let ?e = "evaluate_risk collate input opts" and ?cs = "collect_contributions input"
  let ?A = "{x :: risk_contribution. \<exists>k. rc_points x = Fin (of_int k) \<and> k \<in> {1..45}}"
  show codes: "risk_factor_codes ?e = map rc_code (risk_contributions ?e)" by (rule evaluate_risk_fields)
  have "map (rc_code \<circ> snd) ?cs = map fst ?cs"
    using collect_ok [of input] by (intro map_cong) (auto simp: contributions_ok_def contribution_ok_def)
  moreover have "distinct (map fst ?cs)" using collect_ok [of input] by (simp add: contributions_ok_def)
  ultimately have "distinct (map rc_code (map snd ?cs))" by (simp only: map_map)
  then show "distinct (risk_factor_codes ?e)"
    unfolding codes evaluate_risk_fields(1)
    by (metis mset_eq_imp_distinct_iff mset_js_sort mset_map)
  have cmp: "Fin 0 < by_points collate x y \<longleftrightarrow>
      rc_points x < rc_points y \<or> rc_points x = rc_points y \<and> Fin 0 < collate (rc_code x) (rc_code y)"
    if "x \<in> ?A" "y \<in> ?A" for x y
  proof -
    from that obtain k l where k: "rc_points x = Fin (of_int k)" "k \<in> {1..45}" and l: "rc_points y = Fin (of_int l)" "l \<in> {1..45}"
      by auto
    then have "\<bar>l - k\<bar> \<le> 2 ^ 53" by auto
    then have "rc_points y - rc_points x = Fin (of_int (l - k))"
      using rnd_of_int [of "l - k"] by (simp add: k l)
    then show ?thesis
      by (cases "k = l") (auto simp: by_points_def js_or_def k l simp del: of_int_diff)
  qed
  have trans: "\<not> Fin 0 < collate a b \<Longrightarrow> \<not> Fin 0 < collate b c \<Longrightarrow> \<not> Fin 0 < collate a c" for a b c
    using assms by (rule collation.collate_trans)
  have comp: "comparator (by_points collate) ?A"
  proof
    fix x y z assume A: "x \<in> ?A" "y \<in> ?A"
    show "Fin 0 < by_points collate x y \<Longrightarrow> \<not> Fin 0 < by_points collate y x"
      using A collation.collate_total [OF assms, of "rc_code x" "rc_code y"] by (auto simp: cmp)
    assume "z \<in> ?A" "\<not> Fin 0 < by_points collate x y" "\<not> Fin 0 < by_points collate y z"
    with A trans show "\<not> Fin 0 < by_points collate x z" by (auto simp: cmp) 
  qed
  have "set (map snd ?cs) \<subseteq> ?A" using collect_ok [of input] by (auto simp: contributions_ok_def contribution_ok_def)
  note A = this and sorted = comparator.sorted_sort [OF comp this]
  have rel: "rc_points y < rc_points x \<or> rc_points x = rc_points y \<and> \<not> Fin 0 < collate (rc_code x) (rc_code y)"
    if "x \<in> ?A" "y \<in> ?A" "comparator.not_after (by_points collate) x y" for x y
  proof -
    from that(3) have "\<not> Fin 0 < by_points collate x y" by (simp add: comparator.not_after_def [OF comp])
    with that(1,2) show ?thesis unfolding cmp [OF that(1,2)] by (auto simp: not_less)
  qed
  show "sorted_wrt (\<lambda>x y. rc_points y < rc_points x \<or> rc_points x = rc_points y \<and> \<not> Fin 0 < collate (rc_code x) (rc_code y))
      (risk_contributions ?e)"
    unfolding evaluate_risk_fields(1)
  proof (rule sorted_wrt_mono_rel [OF _ sorted])
    fix x y assume "x \<in> set (js_sort (by_points collate) (map snd ?cs))" "y \<in> set (js_sort (by_points collate) (map snd ?cs))"
    with A have "x \<in> ?A" "y \<in> ?A" unfolding set_js_sort by blast+
    then show "comparator.not_after (by_points collate) x y \<Longrightarrow>
        rc_points y < rc_points x \<or> rc_points x = rc_points y \<and> \<not> Fin 0 < collate (rc_code x) (rc_code y)" by (rule rel)
  qed
qed

text \<open>Every evidence id of a risk evaluation is an id of its input - of a fact or of an evaluation it was
  given - and the ids of the data confidence and of the gate are all there, sorted and without
  repetition.\<close>

theorem risk_evidence_traceable:
  "set (risk_evidence_ids (evaluate_risk collate input opts)) \<subseteq> risk_input_ids input \<and>
   (set (dc_evidence_ids (ri_confidence input)) \<union> set (gate_evidence_ids (ri_gate input))) - {[]} \<subseteq>
     set (risk_evidence_ids (evaluate_risk collate input opts)) \<and>
   sorted (risk_evidence_ids (evaluate_risk collate input opts)) \<and>
   distinct (risk_evidence_ids (evaluate_risk collate input opts))"
proof -
  have "set (rc_evidence_ids x) \<subseteq> risk_input_ids input" if "(c, x) \<in> set (collect_contributions input)" for c x
    using that collect_ok [of input] by (auto simp: contributions_ok_def contribution_ok_def)
  then have "(\<Union>x \<in> set (map snd (collect_contributions input)). set (rc_evidence_ids x)) \<subseteq> risk_input_ids input"
    by fastforce
  then show ?thesis
    using confidence_ids_in [of input] gate_ids_in [of input]
    by (auto simp only: evaluate_risk_fields sorted_unique_sorted distinct_unique_sorted set_unique_sorted set_append
        set_concat set_map set_js_sort)
qed

lemma fold_factor_codes:
  assumes "\<And>x. is_fin (p x) \<and> Fin 0 < p x"
  shows "dom (map_of (fold (\<lambda>x. add_contribution (c x) (p x) (ids x)) xs cs)) = c ` set xs \<union> dom (map_of cs)"
  using assms by (induction xs arbitrary: cs) (auto simp: dom_add_contribution)

lemma warning_codes:
  "dom (map_of (add_warning_contributions p ws ids cs)) = (\<lambda>w. p @ '':'' @ w) ` set ws \<union> dom (map_of cs)"
proof -
  have "is_fin (warning_points w) \<and> Fin 0 < warning_points w" for w
    using warning_points_numeral [of w] by auto
  then show ?thesis unfolding add_warning_contributions_def by (rule fold_factor_codes)
qed

lemma report_codes:
  "dom (map_of (report_factors p r cs)) =
     (case r of None \<Rightarrow> {} | Some x \<Rightarrow> (\<lambda>w. p @ '':'' @ w) ` set (report_warning_codes x)) \<union> dom (map_of cs)"
  by (cases r) (simp_all add: report_factors_def warning_codes)

lemma conflict_codes:
  "dom (map_of (conflict_factors input cs)) =
     (\<lambda>c. ''evidence-conflicting:'' @ c) ` set (conflicting_field_codes (ri_confidence input)) \<union> dom (map_of cs)"
  unfolding conflict_factors_def by (rule fold_factor_codes) simp

lemma gate_codes:
  "(if gate_status (ri_gate input) = GateInvalid
    then (\<lambda>r. ''reliability-blocking:'' @ r) ` set (blocking_reason_codes (ri_gate input)) else {}) \<union>
   (\<lambda>w. ''reliability-warning:'' @ w) ` set (gate_warning_codes (ri_gate input)) \<union> dom (map_of cs) \<subseteq>
     dom (map_of (gate_factors input cs))"
  by (auto simp: gate_factors_def Let_def warning_codes fold_factor_codes dom_add_contribution)

lemmas core_factors_dom =
  risk_program_dom [OF location_program] risk_program_dom [OF review_program] risk_program_dom [OF penalty_program]
  risk_program_dom [OF refundability_program] risk_program_dom [OF completeness_program] risk_program_dom [OF comfort_program]

text \<open>No finding is lost: every reason an invalid gate gives, every field in conflict and every warning of
  the gate and of the other engines is a factor of the risk.\<close>

theorem risk_findings_reported:
  fixes collate input opts
  defines "codes \<equiv> set (risk_factor_codes (evaluate_risk collate input opts))"
    and "warnings \<equiv> \<lambda>p r. case r of None \<Rightarrow> {} | Some x \<Rightarrow> (\<lambda>w. p @ '':'' @ w) ` set (report_warning_codes x)"
  shows "(if gate_status (ri_gate input) = GateInvalid
      then (\<lambda>r. ''reliability-blocking:'' @ r) ` set (blocking_reason_codes (ri_gate input)) else {}) \<subseteq> codes \<and>
    (\<lambda>w. ''reliability-warning:'' @ w) ` set (gate_warning_codes (ri_gate input)) \<subseteq> codes \<and>
    (\<lambda>c. ''evidence-conflicting:'' @ c) ` set (conflicting_field_codes (ri_confidence input)) \<subseteq> codes \<and>
    warnings ''price-warning'' (ri_price_value input) \<subseteq> codes \<and>
    warnings ''quality-warning'' (ri_quality input) \<subseteq> codes \<and>
    warnings ''location-warning'' (ri_location input) \<subseteq> codes \<and>
    (case ri_comfort input of None \<Rightarrow> {} | Some x \<Rightarrow> (\<lambda>w. ''comfort-warning:'' @ w) ` set (report_warning_codes x)) \<subseteq> codes"
proof -
  define gate where "gate = gate_factors input (conflict_factors input (data_confidence_factors input []))"
  define core where "core = location_factors input (review_factors input (penalty_factors input
      (refundability_factors input (completeness_factors input gate))))"
  have codes: "codes = dom (map_of (report_part input core))"
    unfolding codes_def set_risk_factor_codes collect_contributions_def report_part_def core_def gate_def Let_def ..
  have "dom (map_of gate) \<subseteq> dom (map_of core)"
    unfolding core_def using core_factors_dom by (meson order_trans)
  also have "\<dots> \<subseteq> codes" unfolding codes by (rule risk_program_dom [OF report_part_program])
  finally have g: "dom (map_of gate) \<subseteq> codes" .
  have gate: "(if gate_status (ri_gate input) = GateInvalid
      then (\<lambda>r. ''reliability-blocking:'' @ r) ` set (blocking_reason_codes (ri_gate input)) else {}) \<union>
    (\<lambda>w. ''reliability-warning:'' @ w) ` set (gate_warning_codes (ri_gate input)) \<union>
    (\<lambda>c. ''evidence-conflicting:'' @ c) ` set (conflicting_field_codes (ri_confidence input)) \<subseteq> codes"
    using gate_codes [of input "conflict_factors input (data_confidence_factors input [])"] g
    unfolding gate_def conflict_codes by blast
  have "codes = (case ri_comfort input of None \<Rightarrow> {} | Some x \<Rightarrow> (\<lambda>w. ''comfort-warning'' @ '':'' @ w) ` set (report_warning_codes x)) \<union>
      (warnings ''location-warning'' (ri_location input) \<union> (warnings ''quality-warning'' (ri_quality input) \<union>
        (warnings ''price-warning'' (ri_price_value input) \<union> dom (map_of (comfort_factors input core)))))"
    unfolding codes report_part_def report_codes warnings_def ..
  with gate show ?thesis by (auto split: option.splits)
qed

section \<open>A concrete stay\<close>

definition sample_risk_input :: risk_input where
  "sample_risk_input =
     \<lparr>ri_evidence = critical_facts,
      ri_gate = \<lparr>gate_status = GateLowConfidence, gate_eligible = False, blocking_reason_codes = [''currency-unavailable''],
        gate_warning_codes = [''review-evidence-limited''], gate_evidence_ids = [''stay.currency'']\<rparr>,
      ri_confidence = \<lparr>dc_score = Fin 20, dc_level = DataLow, known_field_codes = [], unknown_field_codes = [],
        not_applicable_field_codes = [], dc_evidence_ids = [''stay.cost.total''],
        conflicting_field_codes = [''stay.currency''], low_confidence_field_codes = [],
        weighted_coverage = Fin 20, critical_coverage = Fin 20, confidence_fields = []\<rparr>,
      ri_price_value = None, ri_quality = None,
      ri_location = Some \<lparr>report_warning_codes = [''distance-unverified''], report_evidence_ids = [''geo'']\<rparr>,
      ri_comfort = None\<rparr>"

definition default_risk_options :: risk_options where
  "default_risk_options = \<lparr>ro_medium_threshold = None, ro_high_threshold = None\<rparr>"

lemma risk_factors_sorted_witness:
  "distinct (risk_factor_codes (evaluate_risk compare_strings sample_risk_input default_risk_options))"
  using risk_factors_sorted [OF code_units.collation_axioms, of sample_risk_input default_risk_options] by blast

lemma sample_risk_codes:
  "map (\<lambda>(c, x). (c, \<lfloor>fin_val (rc_points x)\<rfloor>)) (collect_contributions sample_risk_input) =
     [(''data-confidence-low'', 25), (''critical-data-coverage-limited'', 15),
      (''evidence-conflicting:stay.currency'', 12), (''reliability-low-confidence'', 45),
      (''reliability-warning:review-evidence-limited'', 4), (''cost-completeness-unavailable'', 20),
      (''refundability-unavailable'', 8), (''review-count-unavailable'', 8), (''location-evidence-unavailable'', 6),
      (''location-warning:distance-unverified'', 4)]"
  by code_simp

end
