(* ===== verification/PeerGroups.thy ===== *)
theory PeerGroups
  imports Model FloatSums
begin

text \<open>
  The peer groups, \<open>src/src/engine-v2/peer-groups/peerGroupModel.ts\<close>: with which other
  stays the price of a stay is compared. The order \<open>localeCompare\<close> gives belongs to the
  host's locale data and is the parameter \<open>collate\<close>; the throws of the source are
  \<open>peer_error\<close>s.
\<close>

section \<open>Interfaces\<close>

record peer_candidate =
  peer_hotel_id :: id
  accommodation :: accommodation_profile
  peer_evidence :: "evidence_fact list"
  peer_gate :: reliability_gate

record peer_options =
  opt_minimum_same :: "jsnum option"
  opt_minimum_compatible :: "jsnum option"
  opt_minimum_cross :: "jsnum option"
  opt_minimum_price_confidence :: "jsnum option"

record peer_assignment =
  assigned_hotel_id :: id
  assigned_group :: peer_group
  member_ids :: "id list"

record comparable_candidate =
  cc_candidate :: peer_candidate
  cost_fact :: evidence_fact

datatype peer_error = PeerHotelIdRequired | DuplicatePeerCandidate id

section \<open>Compatibility\<close>

fun category_compatibility :: "accommodation_category \<Rightarrow> accommodation_category list" where
  "category_compatibility Camping = [Camping]"
| "category_compatibility Hotel = [Hotel, BedAndBreakfast, Guesthouse, Aparthotel, Resort]"
| "category_compatibility BedAndBreakfast = [BedAndBreakfast, Guesthouse, Hotel]"
| "category_compatibility Apartment = [Apartment, VacationRental, Aparthotel, Villa]"
| "category_compatibility VacationRental = [VacationRental, Apartment, Villa, Aparthotel]"
| "category_compatibility Aparthotel = [Aparthotel, Apartment, VacationRental, Hotel]"
| "category_compatibility Hostel = [Hostel, Guesthouse]"
| "category_compatibility Guesthouse = [Guesthouse, BedAndBreakfast, Hotel, Hostel]"
| "category_compatibility Villa = [Villa, VacationRental, Apartment]"
| "category_compatibility Resort = [Resort, Hotel]"
| "category_compatibility OtherCategory = [OtherCategory]"
| "category_compatibility UnknownCategory = [UnknownCategory]"

definition clamp_unit :: "jsnum \<Rightarrow> jsnum" where
  "clamp_unit value = js_min (js_max value (Fin 0)) (Fin 1)"

definition normalize_minimum :: "jsnum option \<Rightarrow> jsnum \<Rightarrow> jsnum" where
  "normalize_minimum value fallback =
     (case value of Some (Fin q) \<Rightarrow> js_max (Fin 1) (js_floor (Fin q)) | _ \<Rightarrow> fallback)"

definition normalize_peer_confidence :: "jsnum option \<Rightarrow> jsnum \<Rightarrow> jsnum" where
  "normalize_peer_confidence value fallback =
     (case value of Some (Fin q) \<Rightarrow> clamp_unit (Fin q) | _ \<Rightarrow> fallback)"

definition average :: "jsnum list \<Rightarrow> jsnum" where
  "average values = (if values = [] then Fin 0 else js_div (js_sum values) (Fin (of_nat (length values))))"

definition is_concrete_category :: "accommodation_category \<Rightarrow> bool" where
  "is_concrete_category category \<longleftrightarrow> category \<noteq> UnknownCategory \<and> category \<noteq> OtherCategory"

definition are_categories_compatible :: "accommodation_category \<Rightarrow> accommodation_category \<Rightarrow> bool" where
  "are_categories_compatible target candidate =
     (if target = candidate then True
      else if \<not> is_concrete_category target \<or> \<not> is_concrete_category candidate then False
      else candidate \<in> set (category_compatibility target))"

definition are_unit_types_compatible :: "unit_type \<Rightarrow> unit_type \<Rightarrow> bool" where
  "are_unit_types_compatible target candidate =
     (if target = candidate then True
      else if target = UnknownUnit \<or> candidate = UnknownUnit then True
      else target = HotelRoom \<and> candidate = PrivateRoom \<or> target = PrivateRoom \<and> candidate = HotelRoom)"

definition is_eligible_for_peer_baseline :: "reliability_gate \<Rightarrow> bool" where
  "is_eligible_for_peer_baseline gate \<longleftrightarrow>
     gate_eligible gate \<and> (gate_status gate = GateUsable \<or> gate_status gate = GateStrongData)"

section \<open>Comparable candidates\<close>

definition is_comparable_cost :: "jsnum \<Rightarrow> evidence_fact \<Rightarrow> bool" where
  "is_comparable_cost minimum_confidence f \<longleftrightarrow>
     fact_code f = ''stay.cost.total'' \<and> availability f = Known \<and>
     (case fact_value f of VNumber v \<Rightarrow> is_fin v \<and> Fin 0 < v | _ \<Rightarrow> False) \<and>
     minimum_confidence \<le> fact_confidence f"

definition get_known_comparable_cost_fact :: "evidence_fact list \<Rightarrow> jsnum \<Rightarrow> evidence_fact option" where
  "get_known_comparable_cost_fact evidence minimum_confidence =
     js_first (js_sort by_confidence_descending (filter (is_comparable_cost minimum_confidence) evidence))"

fun get_reliability_weight :: "gate_status \<Rightarrow> jsnum" where
  "get_reliability_weight GateStrongData = Fin 1"
| "get_reliability_weight GateUsable = lit 0.82"
| "get_reliability_weight GateLowConfidence = lit 0.35"
| "get_reliability_weight GateInvalid = Fin 0"

fun collect_comparable :: "jsnum \<Rightarrow> peer_candidate list \<Rightarrow> comparable_candidate list" where
  "collect_comparable m [] = []"
| "collect_comparable m (c # cs) =
     (if \<not> is_eligible_for_peer_baseline (peer_gate c) then collect_comparable m cs
      else case get_known_comparable_cost_fact (peer_evidence c) m of
          None \<Rightarrow> collect_comparable m cs
        | Some f \<Rightarrow> \<lparr>cc_candidate = c, cost_fact = f\<rparr> # collect_comparable m cs)"

definition create_comparable_candidates ::
  "(string \<Rightarrow> string \<Rightarrow> jsnum) \<Rightarrow> peer_candidate list \<Rightarrow> jsnum \<Rightarrow> comparable_candidate list" where
  "create_comparable_candidates collate candidates minimum_price_confidence =
     js_sort (\<lambda>a b. collate (peer_hotel_id (cc_candidate a)) (peer_hotel_id (cc_candidate b)))
       (collect_comparable minimum_price_confidence candidates)"

section \<open>Groups\<close>

fun get_mode_base_confidence :: "peer_group_mode \<Rightarrow> jsnum" where
  "get_mode_base_confidence SameCategory = lit 0.95"
| "get_mode_base_confidence CompatibleCategory = lit 0.78"
| "get_mode_base_confidence CrossCategory = lit 0.56"
| "get_mode_base_confidence PeerUnavailable = Fin 0"

fun js_join :: "string \<Rightarrow> string list \<Rightarrow> string" where
  "js_join sep [] = []"
| "js_join sep [x] = x"
| "js_join sep (x # y # ys) = x @ sep @ js_join sep (y # ys)"

text \<open>\<open>replace(/[^a-z0-9+-]/g, "-")\<close>.\<close>

definition id_char :: "char \<Rightarrow> char" where
  "id_char c =
     (if CHR ''a'' \<le> c \<and> c \<le> CHR ''z'' \<or> CHR ''0'' \<le> c \<and> c \<le> CHR ''9'' \<or> c = CHR ''+'' \<or> c = CHR ''-''
      then c else CHR ''-'')"

definition group_categories :: "comparable_candidate list \<Rightarrow> string list" where
  "group_categories members =
     unique_sorted (map (\<lambda>m. category_code (acc_category (accommodation (cc_candidate m)))) members)"

definition unit_type_of :: "peer_candidate \<Rightarrow> unit_type" where
  "unit_type_of c = acc_unit_type (accommodation c)"

definition category_of :: "peer_candidate \<Rightarrow> accommodation_category" where
  "category_of c = acc_category (accommodation c)"

definition create_group_id ::
  "peer_group_mode \<Rightarrow> peer_candidate \<Rightarrow> comparable_candidate list \<Rightarrow> string option" where
  "create_group_id mode target members =
     (if mode = PeerUnavailable then None
      else
        let categories = map id_char (js_join ''+'' (group_categories members))
        in Some (js_join '':''
             [''peer'', peer_mode_code mode, unit_type_code (unit_type_of target),
              if categories \<noteq> [] then categories else category_code (category_of target)]))"

definition known_prices :: "comparable_candidate list \<Rightarrow> nat" where
  "known_prices members = length (filter (\<lambda>m. availability (cost_fact m) = Known) members)"

definition calculate_group_confidence ::
  "peer_group_mode \<Rightarrow> comparable_candidate list \<Rightarrow> jsnum \<Rightarrow> jsnum" where
  "calculate_group_confidence mode members required_sample_size =
     (if mode = PeerUnavailable \<or> members = [] then Fin 0
      else
        let base = get_mode_base_confidence mode;
            price_coverage = js_div (Fin (of_nat (known_prices members))) (Fin (of_nat (length members)));
            sample_strength =
              js_min (js_div (Fin (of_nat (length members))) (js_max required_sample_size (Fin 1))) (Fin 1);
            category_confidence =
              average (map (\<lambda>m. clamp_unit (acc_confidence (accommodation (cc_candidate m)))) members);
            reliability_strength =
              average (map (\<lambda>m. get_reliability_weight (gate_status (peer_gate (cc_candidate m)))) members)
        in clamp_unit
             (base * lit 0.45 + price_coverage * lit 0.2 + sample_strength * lit 0.15
              + category_confidence * lit 0.1 + reliability_strength * lit 0.1))"

definition create_evidence_ids :: "comparable_candidate list \<Rightarrow> id list" where
  "create_evidence_ids members =
     unique_sorted
       (concat (map (\<lambda>m. acc_evidence_ids (accommodation (cc_candidate m)) @ [fact_id (cost_fact m)]
            @ gate_evidence_ids (peer_gate (cc_candidate m))) members))"

definition create_unavailable_assignment :: "peer_candidate \<Rightarrow> peer_assignment" where
  "create_unavailable_assignment candidate =
     \<lparr>assigned_hotel_id = peer_hotel_id candidate,
      assigned_group =
        \<lparr>peer_group_id = None, peer_mode = PeerUnavailable, peer_category = category_of candidate,
         sample_size = 0, reference_price_count = 0, peer_confidence = Fin 0,
         peer_evidence_ids =
           unique_sorted (acc_evidence_ids (accommodation candidate) @ gate_evidence_ids (peer_gate candidate))\<rparr>,
      member_ids = []\<rparr>"

definition create_assignment ::
  "peer_candidate \<Rightarrow> peer_group_mode \<Rightarrow> comparable_candidate list \<Rightarrow> jsnum \<Rightarrow> peer_assignment" where
  "create_assignment target mode members required_sample_size =
     \<lparr>assigned_hotel_id = peer_hotel_id target,
      assigned_group =
        \<lparr>peer_group_id = create_group_id mode target members,
         peer_mode = mode,
         peer_category = category_of target,
         sample_size = length members,
         reference_price_count = known_prices members,
         peer_confidence = calculate_group_confidence mode members required_sample_size,
         peer_evidence_ids = create_evidence_ids members\<rparr>,
      member_ids = unique_sorted (map (\<lambda>m. peer_hotel_id (cc_candidate m)) members)\<rparr>"

fun validate_candidate_ids :: "id list \<Rightarrow> peer_candidate list \<Rightarrow> peer_error + unit" where
  "validate_candidate_ids seen [] = Inr ()"
| "validate_candidate_ids seen (c # cs) =
     (if js_blank (peer_hotel_id c) then Inl PeerHotelIdRequired
      else if peer_hotel_id c \<in> set seen then Inl (DuplicatePeerCandidate (peer_hotel_id c))
      else validate_candidate_ids (peer_hotel_id c # seen) cs)"

section \<open>The assignment of a candidate\<close>

definition same_members :: "comparable_candidate list \<Rightarrow> peer_candidate \<Rightarrow> comparable_candidate list" where
  "same_members comparable target =
     filter (\<lambda>m. category_of (cc_candidate m) = category_of target \<and>
         are_unit_types_compatible (unit_type_of target) (unit_type_of (cc_candidate m))) comparable"

definition compatible_members :: "comparable_candidate list \<Rightarrow> peer_candidate \<Rightarrow> comparable_candidate list" where
  "compatible_members comparable target =
     filter (\<lambda>m. are_categories_compatible (category_of target) (category_of (cc_candidate m)) \<and>
         are_unit_types_compatible (unit_type_of target) (unit_type_of (cc_candidate m))) comparable"

definition cross_members :: "comparable_candidate list \<Rightarrow> peer_candidate \<Rightarrow> comparable_candidate list" where
  "cross_members comparable target =
     filter (\<lambda>m. are_unit_types_compatible (unit_type_of target) (unit_type_of (cc_candidate m))) comparable"

record peer_minimums =
  min_same :: jsnum
  min_compatible :: jsnum
  min_cross :: jsnum
  min_price_confidence :: jsnum

definition resolve_minimums :: "peer_options \<Rightarrow> peer_minimums" where
  "resolve_minimums opts =
     \<lparr>min_same = normalize_minimum (opt_minimum_same opts) (Fin 3),
      min_compatible = normalize_minimum (opt_minimum_compatible opts) (Fin 3),
      min_cross = normalize_minimum (opt_minimum_cross opts) (Fin 4),
      min_price_confidence = normalize_peer_confidence (opt_minimum_price_confidence opts) (lit 0.6)\<rparr>"

definition at_least :: "jsnum \<Rightarrow> 'a list \<Rightarrow> bool" where
  "at_least minimum xs \<longleftrightarrow> minimum \<le> Fin (of_nat (length xs))"

definition assign_peer_group ::
  "peer_minimums \<Rightarrow> comparable_candidate list \<Rightarrow> peer_candidate \<Rightarrow> peer_assignment" where
  "assign_peer_group mins comparable target =
     (let same = same_members comparable target;
          compatible = compatible_members comparable target;
          cross = cross_members comparable target
      in if \<not> list_ex (\<lambda>m. peer_hotel_id (cc_candidate m) = peer_hotel_id target) comparable
         then create_unavailable_assignment target
         else if is_concrete_category (category_of target) \<and> at_least (min_same mins) same
         then create_assignment target SameCategory same (min_same mins)
         else if is_concrete_category (category_of target) \<and> at_least (min_compatible mins) compatible
         then create_assignment target CompatibleCategory compatible (min_compatible mins)
         else if at_least (min_cross mins) cross
         then create_assignment target CrossCategory cross (min_cross mins)
         else create_unavailable_assignment target)"

definition build_peer_groups ::
  "(string \<Rightarrow> string \<Rightarrow> jsnum) \<Rightarrow> peer_candidate list \<Rightarrow> peer_options \<Rightarrow> peer_error + peer_assignment list" where
  "build_peer_groups collate candidates opts =
     (case validate_candidate_ids [] candidates of
        Inl e \<Rightarrow> Inl e
      | Inr _ \<Rightarrow>
          let mins = resolve_minimums opts;
              comparable = create_comparable_candidates collate candidates (min_price_confidence mins)
          in Inr (map (assign_peer_group mins comparable)
               (js_sort (\<lambda>a b. collate (peer_hotel_id a) (peer_hotel_id b)) candidates)))"

section \<open>Which stays are peers\<close>

text \<open>What a mode asks of a peer, apart from being comparable.\<close>

fun mode_admits :: "peer_group_mode \<Rightarrow> peer_candidate \<Rightarrow> peer_candidate \<Rightarrow> bool" where
  "mode_admits SameCategory t c \<longleftrightarrow>
     category_of c = category_of t \<and> are_unit_types_compatible (unit_type_of t) (unit_type_of c)"
| "mode_admits CompatibleCategory t c \<longleftrightarrow>
     are_categories_compatible (category_of t) (category_of c) \<and>
     are_unit_types_compatible (unit_type_of t) (unit_type_of c)"
| "mode_admits CrossCategory t c \<longleftrightarrow> are_unit_types_compatible (unit_type_of t) (unit_type_of c)"
| "mode_admits PeerUnavailable t c \<longleftrightarrow> False"

lemma are_categories_compatible_sym: "are_categories_compatible a b \<longleftrightarrow> are_categories_compatible b a"
  by (cases a; cases b) (simp_all add: are_categories_compatible_def is_concrete_category_def)

lemma are_unit_types_compatible_sym: "are_unit_types_compatible a b \<longleftrightarrow> are_unit_types_compatible b a"
  by (cases a; cases b) (simp_all add: are_unit_types_compatible_def)

lemma compatible_refl [simp]: "are_categories_compatible a a" "are_unit_types_compatible u u"
  by (simp_all add: are_categories_compatible_def are_unit_types_compatible_def)

text \<open>Being a peer is mutual, although the compatibility table lists each category on its own: if a stay
  is admitted as a peer of another under a mode, so is the other as a peer of it; every stay
  is a peer of itself; and each mode admits all peers of the narrower ones.\<close>

theorem mode_admits_mutual_nested:
  "(mode_admits mode t c \<longleftrightarrow> mode_admits mode c t) \<and>
   (mode_admits mode t t \<longleftrightarrow> mode \<noteq> PeerUnavailable) \<and>
   Collect (mode_admits SameCategory t) \<subseteq> Collect (mode_admits CompatibleCategory t) \<and>
   Collect (mode_admits CompatibleCategory t) \<subseteq> Collect (mode_admits CrossCategory t)"
proof -
  have "mode_admits mode t c \<longleftrightarrow> mode_admits mode c t"
    by (cases mode) (auto simp: are_categories_compatible_sym are_unit_types_compatible_sym)
  moreover have "mode_admits mode t t \<longleftrightarrow> mode \<noteq> PeerUnavailable" by (cases mode) simp_all
  ultimately show ?thesis by auto
qed

section \<open>Comparable candidates\<close>

definition peer_comparable :: "jsnum \<Rightarrow> peer_candidate \<Rightarrow> bool" where
  "peer_comparable m c \<longleftrightarrow>
     is_eligible_for_peer_baseline (peer_gate c) \<and> list_ex (is_comparable_cost m) (peer_evidence c)"

lemma cost_fact_None: "get_known_comparable_cost_fact ev m = None \<longleftrightarrow> \<not> list_ex (is_comparable_cost m) ev"
  by (auto simp: get_known_comparable_cost_fact_def filter_empty_conv list_ex_iff)

lemma cost_fact_Some: "get_known_comparable_cost_fact ev m = Some f \<Longrightarrow> f \<in> set ev \<and> is_comparable_cost m f"
  unfolding get_known_comparable_cost_fact_def by (drule js_first_Some_in) auto

lemma collect_comparable_eq:
  "collect_comparable m cs =
     map (\<lambda>c. \<lparr>cc_candidate = c, cost_fact = the (get_known_comparable_cost_fact (peer_evidence c) m)\<rparr>)
       (filter (peer_comparable m) cs)"
proof (induction cs)
  case (Cons c cs)
  then show ?case
    using cost_fact_None [of "peer_evidence c" m]
    by (cases "get_known_comparable_cost_fact (peer_evidence c) m") (auto simp: peer_comparable_def)
qed simp

lemma comparable_candidates: "cc_candidate ` set (create_comparable_candidates collate cs m) = {c \<in> set cs. peer_comparable m c}"
  by (auto simp: create_comparable_candidates_def collect_comparable_eq image_image)

lemma comparable_cost_known:
  assumes "k \<in> set (create_comparable_candidates collate cs m)"
  shows "availability (cost_fact k) = Known"
proof -
  from assms obtain c where c: "peer_comparable m c"
      "cost_fact k = the (get_known_comparable_cost_fact (peer_evidence c) m)"
    by (auto simp: create_comparable_candidates_def collect_comparable_eq)
  then obtain f where "get_known_comparable_cost_fact (peer_evidence c) m = Some f"
    using cost_fact_None [of "peer_evidence c" m] by (auto simp: peer_comparable_def)
  with cost_fact_Some [OF this] c(2) show ?thesis by (simp add: is_comparable_cost_def)
qed

lemma comparable_distinct:
  assumes "distinct (map peer_hotel_id cs)"
  shows "distinct (map (\<lambda>k. peer_hotel_id (cc_candidate k)) (create_comparable_candidates collate cs m))"
proof -
  have "mset (map (\<lambda>k. peer_hotel_id (cc_candidate k)) (create_comparable_candidates collate cs m)) =
      mset (map peer_hotel_id (filter (peer_comparable m) cs))"
    by (simp add: create_comparable_candidates_def collect_comparable_eq multiset.map_comp comp_def)
  moreover have "distinct (map peer_hotel_id (filter (peer_comparable m) cs))"
    using assms by (simp add: distinct_map_filter)
  ultimately show ?thesis by (metis mset_eq_imp_distinct_iff)
qed

section \<open>Validation\<close>

lemma validate_candidate_ids_iff:
  "validate_candidate_ids seen cs = Inr () \<longleftrightarrow>
     list_all (\<lambda>c. \<not> js_blank (peer_hotel_id c)) cs \<and> distinct (map peer_hotel_id cs) \<and>
     set (map peer_hotel_id cs) \<inter> set seen = {}"
  by (induction cs arbitrary: seen) auto

text \<open>Peer groups are built exactly when every candidate has an id that is not blank and no two
  candidates have the same id.\<close>

theorem peer_groups_defined_iff:
  "(\<exists>as. build_peer_groups collate cs opts = Inr as) \<longleftrightarrow>
     list_all (\<lambda>c. \<not> js_blank (peer_hotel_id c)) cs \<and> distinct (map peer_hotel_id cs)"
  using validate_candidate_ids_iff [of "[]" cs]
  by (cases "validate_candidate_ids [] cs") (auto simp: build_peer_groups_def Let_def)

section \<open>The assignments\<close>

definition mode_members :: "peer_group_mode \<Rightarrow> comparable_candidate list \<Rightarrow> peer_candidate \<Rightarrow> comparable_candidate list" where
  "mode_members mode comparable t = filter (\<lambda>m. mode_admits mode t (cc_candidate m)) comparable"

lemma mode_members_eqs:
  "same_members comparable t = mode_members SameCategory comparable t"
  "compatible_members comparable t = mode_members CompatibleCategory comparable t"
  "cross_members comparable t = mode_members CrossCategory comparable t"
  by (simp_all add: same_members_def compatible_members_def cross_members_def mode_members_def)

fun mode_minimum :: "peer_minimums \<Rightarrow> peer_group_mode \<Rightarrow> jsnum" where
  "mode_minimum mins SameCategory = min_same mins"
| "mode_minimum mins CompatibleCategory = min_compatible mins"
| "mode_minimum mins CrossCategory = min_cross mins"
| "mode_minimum mins PeerUnavailable = Fin 0"

lemma minimum_at_least_one: "mode \<noteq> PeerUnavailable \<Longrightarrow> Fin 1 \<le> mode_minimum (resolve_minimums opts) mode"
proof -
  have "Fin 1 \<le> normalize_minimum v (Fin 3)" "Fin 1 \<le> normalize_minimum v (Fin 4)" for v
    by (auto simp: normalize_minimum_def js_max_def split: option.splits jsnum.splits)
  moreover assume "mode \<noteq> PeerUnavailable"
  ultimately show ?thesis by (cases mode) (simp_all add: resolve_minimums_def)
qed

text \<open>The mode of a group: the narrowest for which there are enough peers.\<close>

definition chosen_mode :: "peer_minimums \<Rightarrow> comparable_candidate list \<Rightarrow> peer_candidate \<Rightarrow> peer_group_mode" where
  "chosen_mode mins comparable t =
     (let enough = (\<lambda>mode. at_least (mode_minimum mins mode) (mode_members mode comparable t))
      in if \<not> list_ex (\<lambda>k. peer_hotel_id (cc_candidate k) = peer_hotel_id t) comparable then PeerUnavailable
         else if is_concrete_category (category_of t) \<and> enough SameCategory then SameCategory
         else if is_concrete_category (category_of t) \<and> enough CompatibleCategory then CompatibleCategory
         else if enough CrossCategory then CrossCategory
         else PeerUnavailable)"

lemma assign_peer_group_eq:
  "assign_peer_group mins comparable t =
     (let mode = chosen_mode mins comparable t
      in if mode = PeerUnavailable then create_unavailable_assignment t
         else create_assignment t mode (mode_members mode comparable t) (mode_minimum mins mode))"
  by (simp add: assign_peer_group_def chosen_mode_def mode_members_eqs Let_def)

lemma chosen_mode_enough:
  "chosen_mode mins comparable t \<noteq> PeerUnavailable \<Longrightarrow>
     at_least (mode_minimum mins (chosen_mode mins comparable t)) (mode_members (chosen_mode mins comparable t) comparable t) \<and>
     (\<exists>k \<in> set comparable. peer_hotel_id (cc_candidate k) = peer_hotel_id t)"
  by (auto simp: chosen_mode_def Let_def list_ex_iff split: if_splits)

lemma assignment_simps:
  "assigned_hotel_id (assign_peer_group mins comparable t) = peer_hotel_id t"
  "peer_mode (assigned_group (assign_peer_group mins comparable t)) = chosen_mode mins comparable t"
  "member_ids (assign_peer_group mins comparable t) =
     unique_sorted (map (\<lambda>k. peer_hotel_id (cc_candidate k)) (mode_members (chosen_mode mins comparable t) comparable t))"
  by (auto simp: assign_peer_group_eq Let_def create_assignment_def create_unavailable_assignment_def mode_members_def unique_sorted_eq)

lemma build_peer_groups_Inr:
  assumes "build_peer_groups collate cs opts = Inr as"
  obtains comparable where
    "comparable = create_comparable_candidates collate cs (min_price_confidence (resolve_minimums opts))"
    and "as = map (assign_peer_group (resolve_minimums opts) comparable)
           (js_sort (\<lambda>a b. collate (peer_hotel_id a) (peer_hotel_id b)) cs)"
    and "distinct (map peer_hotel_id cs)" and "[] \<notin> peer_hotel_id ` set cs"
    and "cc_candidate ` set comparable = {c \<in> set cs. peer_comparable (min_price_confidence (resolve_minimums opts)) c}"
proof -
  from assms have v: "validate_candidate_ids [] cs = Inr ()"
    by (auto simp: build_peer_groups_def split: sum.splits)
  then have d: "distinct (map peer_hotel_id cs)" and nb: "list_all (\<lambda>c. \<not> js_blank (peer_hotel_id c)) cs"
    unfolding validate_candidate_ids_iff by simp_all
  have "\<not> js_blank [] \<longleftrightarrow> False" by (simp add: js_blank_iff)
  with nb have ne: "[] \<notin> peer_hotel_id ` set cs" by (force simp: list_all_iff)
  show thesis
    by (rule that [OF refl _ d ne comparable_candidates]) (use assms v in \<open>simp add: build_peer_groups_def Let_def\<close>)
qed

lemma mode_members_ids:
  assumes "cc_candidate ` set comparable = C"
  shows "set (map (\<lambda>k. peer_hotel_id (cc_candidate k)) (mode_members mode comparable t)) =
    peer_hotel_id ` {c \<in> C. mode_admits mode t c}"
  unfolding assms [symmetric] mode_members_def by auto

lemma member_ids_distinct:
  assumes "distinct (map (\<lambda>k. peer_hotel_id (cc_candidate k)) comparable)" and "[] \<notin> (\<lambda>k. peer_hotel_id (cc_candidate k)) ` set comparable"
  shows "length (unique_sorted (map (\<lambda>k. peer_hotel_id (cc_candidate k)) (mode_members mode comparable t))) =
    length (mode_members mode comparable t)"
proof -
  let ?ids = "map (\<lambda>k. peer_hotel_id (cc_candidate k)) (mode_members mode comparable t)"
  have "distinct ?ids" using assms(1) by (simp add: mode_members_def distinct_map_filter)
  moreover have "[] \<notin> set ?ids" using assms(2) by (auto simp: mode_members_def)
  then have "set (unique_sorted ?ids) = set ?ids" by auto
  ultimately show ?thesis by (metis distinct_card distinct_unique_sorted length_map)
qed

text \<open>C27. A group is exactly the comparable stays its mode admits: its members are the candidates that are
  eligible at the gate, have a known positive total cost of sufficient confidence, and match
  the stay in category and unit type as the mode asks; the sample size and the number of
  reference prices both count the members, and an available group contains the stay itself.\<close>

theorem peer_members_exact:
  assumes "build_peer_groups collate cs opts = Inr as" and "a \<in> set as"
  shows "\<exists>t \<in> set cs. assigned_hotel_id a = peer_hotel_id t \<and>
    set (member_ids a) = peer_hotel_id ` {c \<in> set cs.
       peer_comparable (min_price_confidence (resolve_minimums opts)) c \<and> mode_admits (peer_mode (assigned_group a)) t c} \<and>
    sample_size (assigned_group a) = length (member_ids a) \<and>
    reference_price_count (assigned_group a) = length (member_ids a) \<and>
    (peer_mode (assigned_group a) \<noteq> PeerUnavailable \<longrightarrow> peer_hotel_id t \<in> set (member_ids a))"
  using assms(1)
proof (rule build_peer_groups_Inr)
  fix comparable
  let ?mins = "resolve_minimums opts"
  assume comp: "comparable = create_comparable_candidates collate cs (min_price_confidence ?mins)"
    and as: "as = map (assign_peer_group ?mins comparable) (js_sort (\<lambda>a b. collate (peer_hotel_id a) (peer_hotel_id b)) cs)"
    and d: "distinct (map peer_hotel_id cs)" and ne: "[] \<notin> peer_hotel_id ` set cs"
    and C: "cc_candidate ` set comparable = {c \<in> set cs. peer_comparable (min_price_confidence ?mins) c}"
  from assms(2) as obtain t where t: "t \<in> set cs" "a = assign_peer_group ?mins comparable t" by auto
  let ?mode = "chosen_mode ?mins comparable t"
  let ?ms = "mode_members ?mode comparable t"
  have mids: "set (member_ids a) = peer_hotel_id ` {c \<in> set cs. peer_comparable (min_price_confidence ?mins) c \<and> mode_admits ?mode t c}"
  proof -
    have "set (member_ids a) = peer_hotel_id ` {c \<in> {c \<in> set cs. peer_comparable (min_price_confidence ?mins) c}. mode_admits ?mode t c} - {[]}"
      unfolding t(2) assignment_simps(3) set_unique_sorted mode_members_ids [OF C] ..
    moreover have "[] \<notin> peer_hotel_id ` {c \<in> {c \<in> set cs. peer_comparable (min_price_confidence ?mins) c}. mode_admits ?mode t c}"
      using ne by blast
    ultimately show ?thesis by simp
  qed
  have ids: "[] \<notin> (\<lambda>k. peer_hotel_id (cc_candidate k)) ` set comparable" using ne C by auto
  have len: "length (member_ids a) = length ?ms"
    unfolding t(2) assignment_simps(3)
    by (rule member_ids_distinct [OF _ ids]) (unfold comp, rule comparable_distinct [OF d])
  have "known_prices ?ms = length ?ms"
  proof -
    have "\<forall>k \<in> set ?ms. availability (cost_fact k) = Known"
      unfolding comp by (auto simp: mode_members_def intro: comparable_cost_known)
    then show ?thesis by (simp add: known_prices_def)
  qed
  moreover have "?mode = PeerUnavailable \<Longrightarrow> ?ms = []" by (simp add: mode_members_def)
  ultimately have sizes: "sample_size (assigned_group a) = length ?ms" "reference_price_count (assigned_group a) = length ?ms"
    by (auto simp: t(2) assign_peer_group_eq Let_def create_assignment_def create_unavailable_assignment_def)
  have "peer_hotel_id t \<in> set (member_ids a)" if "?mode \<noteq> PeerUnavailable"
  proof -
    from chosen_mode_enough [OF that] C obtain c where c: "c \<in> set cs" "peer_comparable (min_price_confidence ?mins) c"
        "peer_hotel_id c = peer_hotel_id t" by blast
    with d t(1) have "c = t" by (auto simp: distinct_map dest: inj_onD)
    moreover have "mode_admits ?mode t t" using that by (cases ?mode) simp_all
    ultimately show ?thesis unfolding mids using c by auto
  qed
  then show ?thesis
    using t(1) mids sizes len by (intro bexI [of _ t]) (auto simp: t(2) assignment_simps)
qed

text \<open>Every candidate gets exactly one assignment: the ids of the assignments are the ids of the
  candidates, each once.\<close>

theorem peer_groups_one_each:
  assumes "build_peer_groups collate cs opts = Inr as"
  shows "mset (map assigned_hotel_id as) = mset (map peer_hotel_id cs) \<and> distinct (map assigned_hotel_id as)"
  using assms
proof (rule build_peer_groups_Inr)
  fix comparable
  let ?s = "js_sort (\<lambda>a b. collate (peer_hotel_id a) (peer_hotel_id b)) cs"
  assume as: "as = map (assign_peer_group (resolve_minimums opts) comparable) ?s"
    and d: "distinct (map peer_hotel_id cs)"
  have "map assigned_hotel_id as = map peer_hotel_id ?s" by (simp add: as assignment_simps)
  then have m: "mset (map assigned_hotel_id as) = mset (map peer_hotel_id cs)"
    by (simp only: mset_map mset_js_sort)
  with d mset_eq_imp_distinct_iff show ?thesis by blast
qed

text \<open>Enough peers, stated on the candidates themselves.\<close>

definition enough_peers :: "peer_options \<Rightarrow> peer_candidate list \<Rightarrow> peer_candidate \<Rightarrow> peer_group_mode \<Rightarrow> bool" where
  "enough_peers opts cs t mode \<longleftrightarrow>
     mode_minimum (resolve_minimums opts) mode \<le>
       Fin (of_nat (length (filter (\<lambda>c. peer_comparable (min_price_confidence (resolve_minimums opts)) c \<and> mode_admits mode t c) cs)))"

lemma length_mode_members:
  "length (mode_members mode (create_comparable_candidates collate cs m) t) =
     length (filter (\<lambda>c. peer_comparable m c \<and> mode_admits mode t c) cs)"
proof -
  have "mset (map cc_candidate (mode_members mode (create_comparable_candidates collate cs m) t)) =
      filter_mset (mode_admits mode t) (image_mset cc_candidate (mset (create_comparable_candidates collate cs m)))"
    by (simp add: mode_members_def filter_mset_image_mset)
  also have "image_mset cc_candidate (mset (create_comparable_candidates collate cs m)) = mset (filter (peer_comparable m) cs)"
    by (simp add: create_comparable_candidates_def collect_comparable_eq multiset.map_comp comp_def del: mset_filter)
  also have "filter_mset (mode_admits mode t) \<dots> = mset (filter (\<lambda>c. peer_comparable m c \<and> mode_admits mode t c) cs)"
    by (simp only: mset_filter [symmetric] filter_filter)
  finally have "size (mset (map cc_candidate (mode_members mode (create_comparable_candidates collate cs m) t))) =
      size (mset (filter (\<lambda>c. peer_comparable m c \<and> mode_admits mode t c) cs))" by (rule arg_cong)
  then show ?thesis by (simp only: size_mset length_map)
qed

text \<open>A stay is compared with the narrowest group that is large enough: its own category where the
  category is a concrete one and has enough comparable stays, else the compatible categories,
  else all categories, each within compatible unit types; the group is unavailable exactly
  when the stay is not comparable itself or even the widest group is too small.\<close>

theorem peer_mode_narrowest:
  assumes "build_peer_groups collate cs opts = Inr as" and "a \<in> set as" and "t \<in> set cs"
    and "assigned_hotel_id a = peer_hotel_id t"
  shows "peer_mode (assigned_group a) =
    (if \<not> peer_comparable (min_price_confidence (resolve_minimums opts)) t then PeerUnavailable
     else if is_concrete_category (category_of t) \<and> enough_peers opts cs t SameCategory then SameCategory
     else if is_concrete_category (category_of t) \<and> enough_peers opts cs t CompatibleCategory then CompatibleCategory
     else if enough_peers opts cs t CrossCategory then CrossCategory
     else PeerUnavailable)"
  using assms(1)
proof (rule build_peer_groups_Inr)
  fix comparable
  let ?mins = "resolve_minimums opts"
  assume comp: "comparable = create_comparable_candidates collate cs (min_price_confidence ?mins)"
    and as: "as = map (assign_peer_group ?mins comparable) (js_sort (\<lambda>a b. collate (peer_hotel_id a) (peer_hotel_id b)) cs)"
    and d: "distinct (map peer_hotel_id cs)"
    and C: "cc_candidate ` set comparable = {c \<in> set cs. peer_comparable (min_price_confidence ?mins) c}"
  have inj: "x = y" if "x \<in> set cs" "y \<in> set cs" "peer_hotel_id x = peer_hotel_id y" for x y
    using d that by (auto simp: distinct_map dest: inj_onD)
  from assms(2) as obtain t' where "t' \<in> set cs" "a = assign_peer_group ?mins comparable t'" by auto
  with assms(3,4) inj have a: "a = assign_peer_group ?mins comparable t" by (auto simp: assignment_simps)
  have "list_ex (\<lambda>k. peer_hotel_id (cc_candidate k) = peer_hotel_id t) comparable \<longleftrightarrow>
      (\<exists>c \<in> cc_candidate ` set comparable. peer_hotel_id c = peer_hotel_id t)"
    by (auto simp: list_ex_iff)
  also have "\<dots> \<longleftrightarrow> peer_comparable (min_price_confidence ?mins) t"
    unfolding C using inj assms(3) by auto
  finally have tc: "list_ex (\<lambda>k. peer_hotel_id (cc_candidate k) = peer_hotel_id t) comparable \<longleftrightarrow>
      peer_comparable (min_price_confidence ?mins) t" .
  have "at_least (mode_minimum ?mins mode) (mode_members mode comparable t) \<longleftrightarrow> enough_peers opts cs t mode" for mode
    by (simp add: at_least_def enough_peers_def comp length_mode_members)
  then show ?thesis by (simp add: a assignment_simps chosen_mode_def Let_def tc)
qed

section \<open>Confidence\<close>

lemma clamp_unit_range: "v \<noteq> NaN \<Longrightarrow> Fin 0 \<le> clamp_unit v \<and> clamp_unit v \<le> Fin 1"
  using clamp_bounds [of v "Fin 0" "Fin 1"] by (simp add: clamp_unit_def clamp_def)

lemma js_div_nonneg: "Fin 0 \<le> a \<Longrightarrow> 0 < q \<Longrightarrow> Fin 0 \<le> js_div a (Fin q)"
  by (cases a) (auto intro: rnd_nonneg)

lemma js_times_nonneg: "Fin 0 \<le> a \<Longrightarrow> Fin 0 < b \<and> is_fin b \<Longrightarrow> Fin 0 \<le> a * b"
  by (cases a; cases b) (auto intro: rnd_nonneg)

lemma average_nonneg:
  assumes "\<And>x. x \<in> set xs \<Longrightarrow> Fin 0 \<le> x"
  shows "Fin 0 \<le> average xs"
proof (cases "xs = []")
  case False
  then have "(0::rat) < of_nat (length xs)" by simp
  with False show ?thesis
    unfolding average_def using js_sum_nonneg [OF assms] by (simp add: js_div_nonneg)
qed (simp add: average_def)

lemma reliability_weight_nonneg: "Fin 0 \<le> get_reliability_weight s"
  by (cases s) (auto intro: rnd_nonneg)

lemma base_confidence_positive: "mode \<noteq> PeerUnavailable \<Longrightarrow> Fin 0 < get_mode_base_confidence mode * lit 0.45"
proof -
  have "Fin 0 < lit 0.95 * lit 0.45" "Fin 0 < lit 0.78 * lit 0.45" "Fin 0 < lit 0.56 * lit 0.45"
    by code_simp+
  then show "mode \<noteq> PeerUnavailable \<Longrightarrow> ?thesis" by (cases mode) simp_all
qed

lemma minimum_fin: "mode \<noteq> PeerUnavailable \<Longrightarrow> \<exists>q. mode_minimum (resolve_minimums opts) mode = Fin q \<and> 1 \<le> q"
proof -
  have "\<exists>q. normalize_minimum v (Fin 3) = Fin q \<and> 1 \<le> q" "\<exists>q. normalize_minimum v (Fin 4) = Fin q \<and> 1 \<le> q" for v
    by (auto simp: normalize_minimum_def js_max_def split: option.splits jsnum.splits)
  then show "mode \<noteq> PeerUnavailable \<Longrightarrow> ?thesis" by (cases mode) (auto simp: resolve_minimums_def)
qed

lemma add_nonneg_positive: "js_double a \<Longrightarrow> Fin 0 < a \<Longrightarrow> Fin 0 \<le> b \<Longrightarrow> Fin 0 < a + b \<and> js_double (a + b)"
proof -
  assume a: "js_double a" "Fin 0 < a" "Fin 0 \<le> b"
  then have "a \<le> a + b" by (intro add_nonneg_increasing) (auto simp: jsnum_less_le)
  then have "Fin 0 < a + b" using a(2) by (cases a; cases "a + b") auto
  moreover from this have "a + b \<noteq> NaN" by auto
  ultimately show ?thesis using js_double_add [of a b] by blast
qed

lemma js_double_times: "Fin 0 < a * b \<Longrightarrow> js_double (a * b)"
  by (cases a; cases b) (auto split: if_splits)

lemma group_confidence_range:
  assumes mode: "mode \<noteq> PeerUnavailable" and ne: "members \<noteq> []"
    and conf: "\<forall>k \<in> set members. acc_confidence (accommodation (cc_candidate k)) \<noteq> NaN"
  shows "Fin 0 < calculate_group_confidence mode members (mode_minimum (resolve_minimums opts) mode) \<and>
    calculate_group_confidence mode members (mode_minimum (resolve_minimums opts) mode) \<le> Fin 1"
proof -
  define b where "b = get_mode_base_confidence mode * lit 0.45"
  define p where "p = js_div (Fin (of_nat (known_prices members))) (Fin (of_nat (length members)))"
  define s where "s = js_min (js_div (Fin (of_nat (length members))) (js_max (mode_minimum (resolve_minimums opts) mode) (Fin 1))) (Fin 1)"
  define c where "c = average (map (\<lambda>m. clamp_unit (acc_confidence (accommodation (cc_candidate m)))) members)"
  define r where "r = average (map (\<lambda>m. get_reliability_weight (gate_status (peer_gate (cc_candidate m)))) members)"
  have "Fin 0 < rnd q \<and> is_fin (rnd q)" if "1/20 \<le> q" "q \<le> 1" for q
    using rnd_less [of 0 q] rnd_between [of 0 1 q] rnd_of_int [of 0] double_of_int [of 1] that by auto
  then have lits: "Fin 0 < lit 0.2 \<and> is_fin (lit 0.2)" "Fin 0 < lit 0.15 \<and> is_fin (lit 0.15)"
    "Fin 0 < lit 0.1 \<and> is_fin (lit 0.1)" by simp_all
  have n: "(0::rat) < of_nat (length members)" using ne by simp
  have p0: "Fin 0 \<le> p" unfolding p_def by (rule js_div_nonneg [OF _ n]) simp
  have s0: "Fin 0 \<le> s"
  proof -
    obtain q where q: "mode_minimum (resolve_minimums opts) mode = Fin q" "1 \<le> q" using minimum_fin [OF mode] by blast
    then have "js_max (Fin q) (Fin 1) = Fin q" by (auto simp: js_max_def)
    moreover have "Fin 0 \<le> js_div (Fin (of_nat (length members))) (Fin q)"
      using q(2) by (intro js_div_nonneg) auto
    ultimately show ?thesis unfolding s_def q(1)
      by (cases "js_div (Fin (of_nat (length members))) (Fin q)") (auto simp: js_min_def)
  qed
  have c0: "Fin 0 \<le> c" unfolding c_def using conf clamp_unit_range by (intro average_nonneg) auto
  have r0: "Fin 0 \<le> r" unfolding r_def using reliability_weight_nonneg by (intro average_nonneg) auto
  have b0: "Fin 0 < b" "js_double b"
    using base_confidence_positive [OF mode] js_double_times by (simp_all add: b_def)
  let ?v = "b + p * lit 0.2 + s * lit 0.15 + c * lit 0.1 + r * lit 0.1"
  have v: "Fin 0 < ?v"
    using b0 p0 s0 c0 r0 lits by (intro conjunct1 [OF add_nonneg_positive] conjunct2 [OF add_nonneg_positive] js_times_nonneg)
  have "calculate_group_confidence mode members (mode_minimum (resolve_minimums opts) mode) = clamp_unit ?v"
    using mode ne unfolding calculate_group_confidence_def Let_def b_def p_def s_def c_def r_def by (simp only: if_False simp_thms)
  with v show ?thesis by (cases ?v) (auto simp: clamp_unit_def js_min_def js_max_def)
qed

text \<open>The confidence of a group is a probability, and it is zero exactly for the unavailable groups, as
  long as no accommodation confidence is NaN.\<close>

theorem peer_confidence_range:
  assumes "build_peer_groups collate cs opts = Inr as" and "a \<in> set as"
    and "list_all (\<lambda>c. acc_confidence (accommodation c) \<noteq> NaN) cs"
  shows "Fin 0 \<le> peer_confidence (assigned_group a) \<and> peer_confidence (assigned_group a) \<le> Fin 1 \<and>
    (peer_confidence (assigned_group a) = Fin 0 \<longleftrightarrow> peer_mode (assigned_group a) = PeerUnavailable)"
  using assms(1)
proof (rule build_peer_groups_Inr)
  fix comparable
  let ?mins = "resolve_minimums opts"
  assume as: "as = map (assign_peer_group ?mins comparable) (js_sort (\<lambda>a b. collate (peer_hotel_id a) (peer_hotel_id b)) cs)"
    and C: "cc_candidate ` set comparable = {c \<in> set cs. peer_comparable (min_price_confidence ?mins) c}"
  from assms(2) as obtain t where a: "a = assign_peer_group ?mins comparable t" by auto
  let ?mode = "chosen_mode ?mins comparable t"
  show ?thesis
  proof (cases "?mode = PeerUnavailable")
    case True
    then show ?thesis by (simp add: a assign_peer_group_eq create_unavailable_assignment_def)
  next
    case False
    let ?ms = "mode_members ?mode comparable t"
    have "Fin 1 \<le> Fin (of_nat (length ?ms))"
      using chosen_mode_enough [OF False] minimum_at_least_one [OF False, of opts]
      unfolding at_least_def by (blast intro: jsnum_le_trans)
    then have "?ms \<noteq> []" by auto
    moreover have "\<forall>k \<in> set ?ms. acc_confidence (accommodation (cc_candidate k)) \<noteq> NaN"
    proof
      fix k
      assume "k \<in> set ?ms"
      then have "cc_candidate k \<in> cc_candidate ` set comparable" by (simp add: mode_members_def)
      with C assms(3) show "acc_confidence (accommodation (cc_candidate k)) \<noteq> NaN" by (auto simp: list_all_iff)
    qed
    ultimately have "Fin 0 < peer_confidence (assigned_group a) \<and> peer_confidence (assigned_group a) \<le> Fin 1"
      using group_confidence_range [OF False] False
      by (simp add: a assign_peer_group_eq create_assignment_def Let_def)
    with False show ?thesis by (auto simp: a assignment_simps jsnum_less_le)
  qed
qed

section \<open>Group ids\<close>

lemma js_join_split:
  assumes "\<And>x. x \<in> set xs \<union> set ys \<Longrightarrow> x \<noteq> [] \<and> c \<notin> set x" and "js_join [c] xs = js_join [c] ys"
  shows "xs = ys"
  using assms
proof (induction xs arbitrary: ys)
  case Nil
  then show ?case by (cases ys; cases "tl ys") auto
next
  case (Cons x xs)
  have head: "takeWhile (\<lambda>d. d \<noteq> c) (js_join [c] (z # zs)) = z \<and>
      dropWhile (\<lambda>d. d \<noteq> c) (js_join [c] (z # zs)) = (if zs = [] then [] else c # js_join [c] zs)"
    if "c \<notin> set z" for z zs
    using that by (cases zs) (auto simp: takeWhile_tail dropWhile_append takeWhile_append)
  from Cons.prems obtain y ys' where ys: "ys = y # ys'" by (cases ys) (cases xs; auto)+
  have cx: "c \<notin> set x" "c \<notin> set y" using Cons.prems(1) ys by auto
  from Cons.prems(2) head [OF cx(1), of xs] head [OF cx(2), of ys'] have xy: "x = y"
    and r: "(if xs = [] then [] else c # js_join [c] xs) = (if ys' = [] then [] else c # js_join [c] ys')"
    by (simp_all add: ys)
  have "xs = ys'"
  proof (cases "xs = [] \<or> ys' = []")
    case False
    with r have "js_join [c] xs = js_join [c] ys'" by simp
    with Cons.prems(1) show ?thesis by (intro Cons.IH) (auto simp: ys)
  qed (use r in \<open>auto split: if_splits\<close>)
  with xy ys show ?case by simp
qed

lemma category_code_inj: "category_code a = category_code b \<longleftrightarrow> a = b"
  by (cases a; cases b) simp_all

lemma category_code_chars: "category_code c \<noteq> [] \<and> map id_char (category_code c) = category_code c \<and> CHR ''+'' \<notin> set (category_code c)"
  by (cases c) (simp_all add: id_char_def)

lemma unit_type_code_inj: "unit_type_code a = unit_type_code b \<longleftrightarrow> a = b"
  by (cases a; cases b) simp_all

lemma peer_mode_code_inj: "peer_mode_code a = peer_mode_code b \<longleftrightarrow> a = b"
  by (cases a; cases b) simp_all

lemma codes_no_colon: "CHR '':'' \<notin> set (unit_type_code u)" "unit_type_code u \<noteq> []"
    "CHR '':'' \<notin> set (peer_mode_code m)" "peer_mode_code m \<noteq> []"
proof -
  show "CHR '':'' \<notin> set (unit_type_code u)" "unit_type_code u \<noteq> []" by (cases u; simp)+
  show "CHR '':'' \<notin> set (peer_mode_code m)" "peer_mode_code m \<noteq> []" by (cases m; simp)+
qed

lemma id_char_no_colon: "CHR '':'' \<notin> set (map id_char s)"
  by (auto simp: id_char_def split: if_splits)

lemma map_id_char_join:
  "\<forall>x \<in> set xs. map id_char x = x \<Longrightarrow> map id_char (js_join ''+'' xs) = js_join ''+'' xs"
proof (induction xs)
  case (Cons x xs)
  then show ?case by (cases xs) (simp_all add: id_char_def)
qed simp

lemma group_categories_set: "set (group_categories ms) = category_code ` (\<lambda>m. category_of (cc_candidate m)) ` set ms"
  using category_code_chars by (force simp: group_categories_def category_of_def)

lemma group_id_parts:
  assumes "create_group_id mode t ms = Some g" and "create_group_id mode' t' ms' = Some g" and "ms \<noteq> []" and "ms' \<noteq> []"
  shows "mode = mode' \<and> unit_type_of t = unit_type_of t' \<and>
    (\<lambda>m. category_of (cc_candidate m)) ` set ms = (\<lambda>m. category_of (cc_candidate m)) ` set ms'"
proof -
  have cats: "map id_char (js_join ''+'' (group_categories k)) = js_join ''+'' (group_categories k)" for k
    using category_code_chars by (intro map_id_char_join) (auto simp: group_categories_set)
  have ne: "js_join ''+'' (group_categories k) \<noteq> []" if "k \<noteq> []" for k
  proof -
    have "group_categories k \<noteq> []" using group_categories_set [of k] that by auto
    then obtain x xs where x: "group_categories k = x # xs" by (cases "group_categories k") auto
    moreover have "x \<in> category_code ` (\<lambda>m. category_of (cc_candidate m)) ` set k"
      unfolding group_categories_set [symmetric] x by simp
    then have "x \<noteq> []" using category_code_chars by auto
    ultimately show ?thesis by (cases xs) auto
  qed
  have nc: "CHR '':'' \<notin> set (js_join ''+'' (group_categories k))" for k
    using id_char_no_colon [of "js_join ''+'' (group_categories k)"] by (simp only: cats) simp
  have "js_join '':'' [''peer'', peer_mode_code mode, unit_type_code (unit_type_of t), js_join ''+'' (group_categories ms)] =
      js_join '':'' [''peer'', peer_mode_code mode', unit_type_code (unit_type_of t'), js_join ''+'' (group_categories ms')]"
    using assms ne by (simp add: create_group_id_def cats Let_def split: if_splits del: js_join.simps)
  then have "[''peer'', peer_mode_code mode, unit_type_code (unit_type_of t), js_join ''+'' (group_categories ms)] =
      [''peer'', peer_mode_code mode', unit_type_code (unit_type_of t'), js_join ''+'' (group_categories ms')]"
    by (rule js_join_split [rotated]) (use codes_no_colon ne nc assms(3,4) in auto)
  then have "mode = mode'" "unit_type_of t = unit_type_of t'"
    and j: "js_join ''+'' (group_categories ms) = js_join ''+'' (group_categories ms')"
    by (simp_all add: peer_mode_code_inj unit_type_code_inj)
  have "group_categories ms = group_categories ms'"
    by (rule js_join_split [OF _ j]) (use category_code_chars in \<open>auto simp: group_categories_set\<close>)
  then have "category_code ` (\<lambda>m. category_of (cc_candidate m)) ` set ms = category_code ` (\<lambda>m. category_of (cc_candidate m)) ` set ms'"
    by (metis group_categories_set)
  then have "(\<lambda>m. category_of (cc_candidate m)) ` set ms = (\<lambda>m. category_of (cc_candidate m)) ` set ms'"
    by (subst (asm) inj_image_eq_iff) (auto simp: inj_def category_code_inj)
  with \<open>mode = mode'\<close> \<open>unit_type_of t = unit_type_of t'\<close> show ?thesis by simp
qed

text \<open>The members of a group are the comparable stays of the categories that occur in it.\<close>

lemma mode_members_by_categories:
  assumes "mode \<noteq> PeerUnavailable"
  shows "mode_members mode comparable t =
    filter (\<lambda>k. category_of (cc_candidate k) \<in> (\<lambda>m. category_of (cc_candidate m)) ` set (mode_members mode comparable t) \<and>
        are_unit_types_compatible (unit_type_of t) (unit_type_of (cc_candidate k))) comparable"
proof -
  have *: "mode_admits mode t (cc_candidate k) \<longleftrightarrow>
      category_of (cc_candidate k) \<in> (\<lambda>m. category_of (cc_candidate m)) ` set (mode_members mode comparable t) \<and>
        are_unit_types_compatible (unit_type_of t) (unit_type_of (cc_candidate k))" if "k \<in> set comparable" for k
  proof
    assume "mode_admits mode t (cc_candidate k)"
    with that assms show "category_of (cc_candidate k) \<in> (\<lambda>m. category_of (cc_candidate m)) ` set (mode_members mode comparable t) \<and>
        are_unit_types_compatible (unit_type_of t) (unit_type_of (cc_candidate k))"
      by (cases mode) (auto simp: mode_members_def)
  next
    assume "category_of (cc_candidate k) \<in> (\<lambda>m. category_of (cc_candidate m)) ` set (mode_members mode comparable t) \<and>
        are_unit_types_compatible (unit_type_of t) (unit_type_of (cc_candidate k))"
    with assms show "mode_admits mode t (cc_candidate k)"
      by (cases mode) (auto simp: mode_members_def)
  qed
  show ?thesis by (subst mode_members_def) (rule filter_cong [OF refl], rule *)
qed

text \<open>The id of a peer group identifies it within a run: two stays whose groups carry the same id are
  compared with the same stays.\<close>

theorem peer_group_id_identifies:
  assumes "build_peer_groups collate cs opts = Inr as" and "a \<in> set as" and "b \<in> set as"
    and "peer_group_id (assigned_group a) = Some g" and "peer_group_id (assigned_group b) = Some g"
  shows "member_ids a = member_ids b \<and> peer_mode (assigned_group a) = peer_mode (assigned_group b)"
  using assms(1)
proof (rule build_peer_groups_Inr)
  fix comparable
  let ?mins = "resolve_minimums opts"
  assume as: "as = map (assign_peer_group ?mins comparable) (js_sort (\<lambda>a b. collate (peer_hotel_id a) (peer_hotel_id b)) cs)"
  have parts: "chosen_mode ?mins comparable t \<noteq> PeerUnavailable \<and>
      create_group_id (chosen_mode ?mins comparable t) t (mode_members (chosen_mode ?mins comparable t) comparable t) = Some g \<and>
      mode_members (chosen_mode ?mins comparable t) comparable t \<noteq> []"
    if "peer_group_id (assigned_group (assign_peer_group ?mins comparable t)) = Some g" for t
  proof -
    from that have m: "chosen_mode ?mins comparable t \<noteq> PeerUnavailable"
      by (auto simp: assign_peer_group_eq create_unavailable_assignment_def)
    have "Fin 1 \<le> Fin (of_nat (length (mode_members (chosen_mode ?mins comparable t) comparable t)))"
      using chosen_mode_enough [OF m] minimum_at_least_one [OF m, of opts]
      unfolding at_least_def by (blast intro: jsnum_le_trans)
    with that m show ?thesis by (auto simp: assign_peer_group_eq Let_def create_assignment_def)
  qed
  from assms as obtain s t where a: "a = assign_peer_group ?mins comparable s" and b: "b = assign_peer_group ?mins comparable t" by auto
  note ps = parts [OF assms(4) [unfolded a]] and pt = parts [OF assms(5) [unfolded b]]
  from group_id_parts [OF _ _ _ _, of _ s _ g _ t] ps pt
  have eqs: "chosen_mode ?mins comparable s = chosen_mode ?mins comparable t" "unit_type_of s = unit_type_of t"
    "(\<lambda>m. category_of (cc_candidate m)) ` set (mode_members (chosen_mode ?mins comparable s) comparable s) =
     (\<lambda>m. category_of (cc_candidate m)) ` set (mode_members (chosen_mode ?mins comparable t) comparable t)"
    by blast+
  have "mode_members (chosen_mode ?mins comparable s) comparable s = mode_members (chosen_mode ?mins comparable t) comparable t"
    using mode_members_by_categories [of "chosen_mode ?mins comparable s" comparable s]
      mode_members_by_categories [of "chosen_mode ?mins comparable t" comparable t] ps pt eqs by metis
  then show ?thesis by (simp add: a b assignment_simps eqs(1))
qed

section \<open>Collation\<close>

text \<open>Under any such collation the order of the candidates has no influence on the peer groups: a
  permutation of the candidates gives the same assignments in the same order.\<close>

theorem peer_groups_order_independent:
  assumes "collation collate" and "build_peer_groups collate cs opts = Inr as" and "mset cs = mset cs'"
  shows "build_peer_groups collate cs' opts = Inr as"
  using assms(2)
proof (rule build_peer_groups_Inr)
  fix comparable
  let ?m = "min_price_confidence (resolve_minimums opts)"
  assume comp: "comparable = create_comparable_candidates collate cs ?m"
    and as: "as = map (assign_peer_group (resolve_minimums opts) comparable) (js_sort (\<lambda>a b. collate (peer_hotel_id a) (peer_hotel_id b)) cs)"
    and d: "distinct (map peer_hotel_id cs)"
  from assms(3) have sets: "set cs = set cs'" by (rule mset_eq_setD)
  have ms: "mset (map peer_hotel_id cs) = mset (map peer_hotel_id cs')" using assms(3) by simp
  have "\<not> (\<exists>e. validate_candidate_ids [] cs = Inl e)"
    using assms(2) by (auto simp: build_peer_groups_def)
  then have "validate_candidate_ids [] cs = Inr ()" by (cases "validate_candidate_ids [] cs") auto
  then have "validate_candidate_ids [] cs' = Inr ()"
    using sets mset_eq_imp_distinct_iff [OF ms] unfolding validate_candidate_ids_iff list_all_iff by simp
  moreover have "create_comparable_candidates collate cs ?m = create_comparable_candidates collate cs' ?m"
    unfolding create_comparable_candidates_def
  proof (rule collation.sort_by_key [OF assms(1)])
    show "mset (collect_comparable ?m cs) = mset (collect_comparable ?m cs')"
      using assms(3) by (simp add: collect_comparable_eq)
    show "inj_on (\<lambda>k. peer_hotel_id (cc_candidate k)) (set (collect_comparable ?m cs))"
      using d by (auto simp: collect_comparable_eq distinct_map inj_on_def)
  qed
  moreover have "js_sort (\<lambda>a b. collate (peer_hotel_id a) (peer_hotel_id b)) cs =
      js_sort (\<lambda>a b. collate (peer_hotel_id a) (peer_hotel_id b)) cs'"
    using d by (intro collation.sort_by_key [OF assms(1,3)]) (simp add: distinct_map)
  ultimately show ?thesis using as comp by (simp add: build_peer_groups_def Let_def)
qed

section \<open>A concrete search\<close>

definition priced_hotel :: "id \<Rightarrow> accommodation_category \<Rightarrow> unit_type \<Rightarrow> rat \<Rightarrow> peer_candidate" where
  "priced_hotel i cat u price =
     \<lparr>peer_hotel_id = i,
      accommodation = \<lparr>acc_category = cat, acc_unit_type = u, original_category = None,
        acc_confidence = Fin 1, acc_evidence_ids = [''x'']\<rparr>,
      peer_evidence =
        [\<lparr>fact_id = ''f'', fact_code = ''stay.cost.total'', availability = Known, fact_value = VNumber (Fin price),
          fact_unit = None, fact_source = FromProvider, source_provider = None, source_field = None,
          fact_confidence = Fin 1, severity = Information, missing_reason_code = None,
          captured_at = None, derived_from = []\<rparr>],
      peer_gate = \<lparr>gate_status = GateUsable, gate_eligible = True, blocking_reason_codes = [],
        gate_warning_codes = [], gate_evidence_ids = []\<rparr>\<rparr>"

definition sample_peers :: "peer_candidate list" where
  "sample_peers = [priced_hotel ''b'' Hotel HotelRoom 90, priced_hotel ''a'' Hotel HotelRoom 120]"

definition sample_peer_options :: peer_options where
  "sample_peer_options =
     \<lparr>opt_minimum_same = Some (Fin 2), opt_minimum_compatible = None, opt_minimum_cross = None,
      opt_minimum_price_confidence = Some (Fin (1/2))\<rparr>"

definition sample_groups :: "peer_assignment list" where
  "sample_groups = projr (build_peer_groups compare_strings sample_peers sample_peer_options)"

lemma sample_valid: "validate_candidate_ids [] sample_peers = Inr ()"
  by code_simp

lemma sample_groups: "build_peer_groups compare_strings sample_peers sample_peer_options = Inr sample_groups"
  by (simp add: sample_groups_def build_peer_groups_def sample_valid Let_def)

lemma sample_assignment:
  "\<exists>a \<in> set sample_groups. assigned_hotel_id a = ''a'' \<and> peer_group_id (assigned_group a) = Some ''peer:same-category:hotel-room:hotel''"
proof -
  let ?mins = "resolve_minimums sample_peer_options" and ?t = "priced_hotel ''a'' Hotel HotelRoom 120"
  let ?comp = "create_comparable_candidates compare_strings sample_peers (min_price_confidence ?mins)"
  have "chosen_mode ?mins ?comp ?t = SameCategory" by code_simp
  moreover have "create_group_id SameCategory ?t (mode_members SameCategory ?comp ?t) = Some ''peer:same-category:hotel-room:hotel''"
    by code_simp
  ultimately have "peer_group_id (assigned_group (assign_peer_group ?mins ?comp ?t)) = Some ''peer:same-category:hotel-room:hotel''"
    by (simp add: assign_peer_group_eq create_assignment_def)
  moreover have "assign_peer_group ?mins ?comp ?t \<in> set sample_groups"
    by (simp add: sample_groups_def build_peer_groups_def sample_valid Let_def) (simp add: sample_peers_def)
  moreover have "peer_hotel_id ?t = ''a''" by (simp add: priced_hotel_def)
  ultimately show ?thesis by (metis assignment_simps(1))
qed

theorem peer_members_exact_witness:
  "\<exists>a \<in> set sample_groups. sample_size (assigned_group a) = length (member_ids a)"
  using sample_assignment peer_members_exact [OF sample_groups] by blast

theorem peer_groups_one_each_witness:
  "distinct (map assigned_hotel_id sample_groups)"
  using peer_groups_one_each [OF sample_groups] by blast

theorem peer_mode_narrowest_witness:
  "\<exists>a \<in> set sample_groups. peer_mode (assigned_group a) = SameCategory"
proof -
  obtain a where a: "a \<in> set sample_groups" "assigned_hotel_id a = ''a''" using sample_assignment by blast
  let ?t = "priced_hotel ''a'' Hotel HotelRoom 120"
  have t: "?t \<in> set sample_peers" "assigned_hotel_id a = peer_hotel_id ?t"
    using a(2) by (simp_all add: sample_peers_def priced_hotel_def)
  have "peer_comparable (min_price_confidence (resolve_minimums sample_peer_options)) ?t" by code_simp
  moreover have "is_concrete_category (category_of ?t)" by code_simp
  moreover have "enough_peers sample_peer_options sample_peers ?t SameCategory" by code_simp
  ultimately show ?thesis
    using peer_mode_narrowest [OF sample_groups a(1) t] a(1) by auto
qed

theorem peer_confidence_range_witness:
  "\<exists>a \<in> set sample_groups. Fin 0 \<le> peer_confidence (assigned_group a) \<and> peer_confidence (assigned_group a) \<le> Fin 1"
proof -
  obtain a where a: "a \<in> set sample_groups" using sample_assignment by blast
  have "list_all (\<lambda>c. acc_confidence (accommodation c) \<noteq> NaN) sample_peers"
    by (simp add: sample_peers_def priced_hotel_def)
  from peer_confidence_range [OF sample_groups a this] a show ?thesis by blast
qed

theorem peer_group_id_identifies_witness:
  "\<exists>a \<in> set sample_groups. member_ids a = member_ids a \<and> peer_group_id (assigned_group a) \<noteq> None"
proof -
  obtain a where a: "a \<in> set sample_groups" "peer_group_id (assigned_group a) = Some ''peer:same-category:hotel-room:hotel''"
    using sample_assignment by blast
  from peer_group_id_identifies [OF sample_groups a(1) a(1) a(2) a(2)] a show ?thesis by auto
qed

theorem peer_groups_order_independent_witness:
  "build_peer_groups compare_strings (rev sample_peers) sample_peer_options = Inr sample_groups"
  by (rule peer_groups_order_independent [OF code_units.collation_axioms sample_groups]) simp

end
