(* ===== verification/UserUtility.thy ===== *)
theory UserUtility
  imports Model FloatSums
begin

text \<open>
  The user utility engine, \<open>src/src/engine-v2/utility/userUtilityEngine.ts\<close>: a weighted
  mean of the seven dimension scores under the weights of a travel preference, over the
  dimensions that are available. The weights of the source, a \<open>Record\<close> over the dimension
  codes, are a function of the dimension. The throws of the source are \<open>utility_error\<close>s.
\<close>

section \<open>Preferences and dimensions\<close>

datatype utility_status = UtilityInvalid | UtilityUnavailable | UtilityUsable | UtilityStrongData

datatype preference_id = MaximumComfort | Comfort | Balanced | Savings | MaximumSavings

fun preference_code :: "preference_id \<Rightarrow> string" where
  "preference_code MaximumComfort = ''maximum-comfort''"
| "preference_code Comfort = ''comfort''"
| "preference_code Balanced = ''balanced''"
| "preference_code Savings = ''savings''"
| "preference_code MaximumSavings = ''maximum-savings''"

datatype preference_source = Automatic | Manual | DefaultSource

datatype utility_dimension =
    PriceValue | Quality | Location | ComfortDim | Flexibility | CategoryFit | UserFit

fun dimension_code :: "utility_dimension \<Rightarrow> string" where
  "dimension_code PriceValue = ''priceValue''"
| "dimension_code Quality = ''quality''"
| "dimension_code Location = ''location''"
| "dimension_code ComfortDim = ''comfort''"
| "dimension_code Flexibility = ''flexibility''"
| "dimension_code CategoryFit = ''categoryFit''"
| "dimension_code UserFit = ''userFit''"

type_synonym weights = "utility_dimension \<Rightarrow> jsnum"

text \<open>
  Custom weights: \<open>None\<close> where the object has no own property of that name, \<open>Some None\<close>
  where the property holds something that is not a number.
\<close>

record utility_input =
  target_hotel_id :: string
  input_scores :: score_breakdown
  input_gate :: reliability_gate
  input_preference_id :: "string option"
  input_selected_index :: "jsnum option"
  input_preference_source :: "preference_source option"

record utility_options =
  custom_weights :: "utility_dimension \<Rightarrow> jsnum option option"
  opt_minimum_strong_coverage :: "jsnum option"
  opt_minimum_strong_confidence :: "jsnum option"
  opt_low_coverage_threshold :: "jsnum option"
  opt_low_confidence_threshold :: "jsnum option"

record utility_preference =
  pref_id :: preference_id
  pref_selected_index :: jsnum
  pref_source :: preference_source
  pref_weights :: weights

record utility_contribution =
  contrib_dimension :: utility_dimension
  contrib_available :: bool
  contrib_score :: "jsnum option"
  contrib_confidence :: jsnum
  configured_weight :: jsnum
  normalized_available_weight :: jsnum
  weighted_value :: jsnum
  contrib_signal_codes :: "string list"
  contrib_evidence_ids :: "id list"

record utility_evaluation =
  util_hotel_id :: id
  util_status :: utility_status
  util_eligible :: bool
  util_preference :: utility_preference
  raw_utility_score :: "jsnum option"
  utility_score :: "jsnum option"
  score_confidence :: jsnum
  evidence_coverage :: jsnum
  available_dimension_codes :: "string list"
  unavailable_dimension_codes :: "string list"
  contributions :: "utility_contribution list"
  util_warning_codes :: "string list"
  util_evidence_ids :: "id list"

record resolved_preference =
  res_id :: preference_id
  res_index :: jsnum
  res_source :: preference_source
  res_warnings :: "string list"

record normalized_dimension =
  nd_score :: "jsnum option"
  nd_confidence :: jsnum
  nd_signal_codes :: "string list"
  nd_evidence_ids :: "id list"
  nd_invalid :: bool

datatype utility_error =
    TargetHotelIdRequired
  | InvalidUtilityWeight utility_dimension
  | NoPositiveWeight

definition preference_ids :: "preference_id list" where
  "preference_ids = [MaximumComfort, Comfort, Balanced, Savings, MaximumSavings]"

definition dimension_codes :: "utility_dimension list" where
  "dimension_codes =
     [PriceValue, Quality, Location, ComfortDim, Flexibility, CategoryFit, UserFit]"

fun base_weights :: "preference_id \<Rightarrow> weights" where
  "base_weights MaximumComfort PriceValue = lit 0.1"
| "base_weights MaximumComfort Quality = lit 0.28"
| "base_weights MaximumComfort Location = lit 0.2"
| "base_weights MaximumComfort ComfortDim = lit 0.2"
| "base_weights MaximumComfort Flexibility = lit 0.1"
| "base_weights MaximumComfort CategoryFit = lit 0.05"
| "base_weights MaximumComfort UserFit = lit 0.07"
| "base_weights Comfort PriceValue = lit 0.16"
| "base_weights Comfort Quality = lit 0.26"
| "base_weights Comfort Location = lit 0.2"
| "base_weights Comfort ComfortDim = lit 0.17"
| "base_weights Comfort Flexibility = lit 0.09"
| "base_weights Comfort CategoryFit = lit 0.05"
| "base_weights Comfort UserFit = lit 0.07"
| "base_weights Balanced PriceValue = lit 0.26"
| "base_weights Balanced Quality = lit 0.22"
| "base_weights Balanced Location = lit 0.18"
| "base_weights Balanced ComfortDim = lit 0.13"
| "base_weights Balanced Flexibility = lit 0.08"
| "base_weights Balanced CategoryFit = lit 0.05"
| "base_weights Balanced UserFit = lit 0.08"
| "base_weights Savings PriceValue = lit 0.4"
| "base_weights Savings Quality = lit 0.18"
| "base_weights Savings Location = lit 0.14"
| "base_weights Savings ComfortDim = lit 0.09"
| "base_weights Savings Flexibility = lit 0.07"
| "base_weights Savings CategoryFit = lit 0.04"
| "base_weights Savings UserFit = lit 0.08"
| "base_weights MaximumSavings PriceValue = lit 0.52"
| "base_weights MaximumSavings Quality = lit 0.15"
| "base_weights MaximumSavings Location = lit 0.1"
| "base_weights MaximumSavings ComfortDim = lit 0.06"
| "base_weights MaximumSavings Flexibility = lit 0.05"
| "base_weights MaximumSavings CategoryFit = lit 0.03"
| "base_weights MaximumSavings UserFit = lit 0.09"

definition is_preference_id :: "string \<Rightarrow> preference_id option" where
  "is_preference_id value = List.find (\<lambda>p. preference_code p = value) preference_ids"

fun preference_index :: "preference_id \<Rightarrow> nat" where
  "preference_index MaximumComfort = 0"
| "preference_index Comfort = 1"
| "preference_index Balanced = 2"
| "preference_index Savings = 3"
| "preference_index MaximumSavings = 4"

text \<open>\<open>resolvePreference\<close>: a valid id wins, then a finite index, then the default.\<close>

definition resolve_source :: "utility_input \<Rightarrow> preference_source" where
  "resolve_source inp =
     (case input_preference_source inp of
        Some s \<Rightarrow> s
      | None \<Rightarrow>
          if (case input_preference_id inp of Some p \<Rightarrow> p \<noteq> [] | None \<Rightarrow> False) \<or>
             input_selected_index inp \<noteq> None
          then Automatic else DefaultSource)"

definition resolve_preference :: "utility_input \<Rightarrow> resolved_preference" where
  "resolve_preference inp =
     (case Option.bind (input_preference_id inp) is_preference_id of
        Some p \<Rightarrow>
          \<lparr>res_id = p, res_index = Fin (of_nat (preference_index p)),
           res_source = resolve_source inp, res_warnings = []\<rparr>
      | None \<Rightarrow>
          (case input_selected_index inp of
             Some (Fin q) \<Rightarrow>
               let rounded_index = js_round (Fin q);
                   selected_index = clamp rounded_index (Fin 0) (Fin (of_nat (length preference_ids - 1)))
               in \<lparr>res_id = preference_ids ! nat \<lfloor>fin_val selected_index\<rfloor>,
                   res_index = selected_index,
                   res_source = resolve_source inp,
                   res_warnings =
                     (if num_eq rounded_index selected_index then []
                      else [''preference-index-clamped''])\<rparr>
           | _ \<Rightarrow>
               \<lparr>res_id = Balanced, res_index = Fin 2, res_source = DefaultSource,
                res_warnings =
                  (if (case input_preference_id inp of Some p \<Rightarrow> p \<noteq> [] | None \<Rightarrow> False)
                   then [''preference-id-invalid-defaulted'']
                   else [''preference-defaulted-balanced''])\<rparr>))"

section \<open>Weights\<close>

text \<open>
  The first loop of \<open>createWeights\<close> overrides base weights and throws at the first invalid
  custom weight; the sum and the normalisation follow.
\<close>

fun override_weights ::
  "(utility_dimension \<Rightarrow> jsnum option option) \<Rightarrow> utility_dimension list \<Rightarrow> weights \<Rightarrow>
     utility_error + weights" where
  "override_weights custom [] w = Inr w"
| "override_weights custom (d # ds) w =
     (case custom d of
        None \<Rightarrow> override_weights custom ds w
      | Some None \<Rightarrow> Inl (InvalidUtilityWeight d)
      | Some (Some v) \<Rightarrow>
          if \<not> is_fin v \<or> v < Fin 0 then Inl (InvalidUtilityWeight d)
          else override_weights custom ds (w(d := v)))"

definition total_weight :: "weights \<Rightarrow> jsnum" where
  "total_weight w = js_sum (map w dimension_codes)"

definition create_weights ::
  "preference_id \<Rightarrow> (utility_dimension \<Rightarrow> jsnum option option) \<Rightarrow> utility_error + weights" where
  "create_weights preference custom =
     (case override_weights custom dimension_codes (base_weights preference) of
        Inl e \<Rightarrow> Inl e
      | Inr w \<Rightarrow>
          let total = total_weight w
          in if total \<le> Fin 0 then Inl NoPositiveWeight
             else Inr (\<lambda>d. js_div (w d) total))"

section \<open>Dimensions\<close>

definition normalize_dimension :: "dimension_score \<Rightarrow> normalized_dimension" where
  "normalize_dimension dimension =
     (let evidence_ids = unique_sorted (dim_evidence_ids dimension);
          signal_codes = unique_sorted (dim_signal_codes dimension)
      in case dim_score dimension of
           None \<Rightarrow>
             \<lparr>nd_score = None, nd_confidence = Fin 0, nd_signal_codes = signal_codes,
              nd_evidence_ids = evidence_ids, nd_invalid = False\<rparr>
         | Some score \<Rightarrow>
             if \<not> is_fin score \<or> score < Fin 0 \<or> Fin 100 < score
             then \<lparr>nd_score = None, nd_confidence = Fin 0, nd_signal_codes = signal_codes,
                   nd_evidence_ids = evidence_ids, nd_invalid = True\<rparr>
             else \<lparr>nd_score = Some (round_to 2 score),
                   nd_confidence = round_to 4 (normalize_ratio (Some (dim_confidence dimension)) (Fin 0)),
                   nd_signal_codes = signal_codes, nd_evidence_ids = evidence_ids,
                   nd_invalid = False\<rparr>)"

fun get_dimension :: "score_breakdown \<Rightarrow> utility_dimension \<Rightarrow> dimension_score" where
  "get_dimension s PriceValue = price_value_score s"
| "get_dimension s Quality = quality_score s"
| "get_dimension s Location = location_score s"
| "get_dimension s ComfortDim = comfort_score s"
| "get_dimension s Flexibility = flexibility_score s"
| "get_dimension s CategoryFit = category_fit_score s"
| "get_dimension s UserFit = user_fit_score s"

section \<open>The evaluation\<close>

type_synonym dimensions = "utility_dimension \<Rightarrow> normalized_dimension"

definition normalized_dimensions :: "score_breakdown \<Rightarrow> dimensions" where
  "normalized_dimensions scores d = normalize_dimension (get_dimension scores d)"

definition invalid_dimension_warnings :: "dimensions \<Rightarrow> string list" where
  "invalid_dimension_warnings nd =
     map (\<lambda>d. ''dimension-score-invalid:'' @ dimension_code d)
       (filter (\<lambda>d. nd_invalid (nd d)) dimension_codes)"

definition available_dimensions :: "dimensions \<Rightarrow> weights \<Rightarrow> utility_dimension list" where
  "available_dimensions nd w =
     filter (\<lambda>d. nd_score (nd d) \<noteq> None \<and> Fin 0 < w d) dimension_codes"

definition unavailable_dimensions :: "dimensions \<Rightarrow> weights \<Rightarrow> utility_dimension list" where
  "unavailable_dimensions nd w =
     filter (\<lambda>d. d \<notin> set (available_dimensions nd w) \<and> Fin 0 < w d) dimension_codes"

definition available_weight :: "dimensions \<Rightarrow> weights \<Rightarrow> jsnum" where
  "available_weight nd w = js_sum (map w (available_dimensions nd w))"

definition score_or_zero :: "dimensions \<Rightarrow> utility_dimension \<Rightarrow> jsnum" where
  "score_or_zero nd d = (case nd_score (nd d) of Some s \<Rightarrow> s | None \<Rightarrow> Fin 0)"

definition raw_score :: "dimensions \<Rightarrow> weights \<Rightarrow> jsnum option" where
  "raw_score nd w =
     (if Fin 0 < available_weight nd w
      then Some (js_div (js_sum (map (\<lambda>d. score_or_zero nd d * w d) (available_dimensions nd w)))
                   (available_weight nd w))
      else None)"

definition coverage_of :: "dimensions \<Rightarrow> weights \<Rightarrow> jsnum" where
  "coverage_of nd w =
     (if Fin 0 < total_weight w then js_div (available_weight nd w) (total_weight w) else Fin 0)"

definition confidence_of :: "dimensions \<Rightarrow> weights \<Rightarrow> jsnum" where
  "confidence_of nd w =
     (if Fin 0 < total_weight w
      then js_div
             (js_sum (map (\<lambda>d. (if nd_score (nd d) \<noteq> None then nd_confidence (nd d) else Fin 0) * w d)
                dimension_codes))
             (total_weight w)
      else Fin 0)"

definition contribution_of :: "dimensions \<Rightarrow> weights \<Rightarrow> utility_dimension \<Rightarrow> utility_contribution" where
  "contribution_of nd w d =
     (let available = nd_score (nd d) \<noteq> None \<and> Fin 0 < w d;
          normalized = (if available \<and> Fin 0 < available_weight nd w
                        then js_div (w d) (available_weight nd w) else Fin 0)
      in \<lparr>contrib_dimension = d,
          contrib_available = available,
          contrib_score = nd_score (nd d),
          contrib_confidence = nd_confidence (nd d),
          configured_weight = round_to 4 (w d),
          normalized_available_weight = round_to 4 normalized,
          weighted_value = round_to 4 (if available then score_or_zero nd d * normalized else Fin 0),
          contrib_signal_codes = nd_signal_codes (nd d),
          contrib_evidence_ids = nd_evidence_ids (nd d)\<rparr>)"

definition utility_warnings ::
  "utility_input \<Rightarrow> utility_options \<Rightarrow> resolved_preference \<Rightarrow> dimensions \<Rightarrow> weights \<Rightarrow> string list" where
  "utility_warnings inp opts pref nd w =
     res_warnings pref @ invalid_dimension_warnings nd
     @ map (\<lambda>d. ''utility-dimension-unavailable:'' @ dimension_code d) (unavailable_dimensions nd w)
     @ (if coverage_of nd w < normalize_ratio (opt_low_coverage_threshold opts) (lit 0.55)
        then [''utility-evidence-coverage-low''] else [])
     @ (if confidence_of nd w < normalize_ratio (opt_low_confidence_threshold opts) (lit 0.55)
        then [''utility-score-confidence-low''] else [])
     @ (if \<not> gate_eligible (input_gate inp)
        then [''target-not-eligible-for-primary-ranking''] else [])"

definition utility_status_of ::
  "utility_input \<Rightarrow> utility_options \<Rightarrow> dimensions \<Rightarrow> weights \<Rightarrow> utility_status \<times> jsnum option" where
  "utility_status_of inp opts nd w =
     (let score = map_option (round_to 2) (raw_score nd w)
      in if gate_status (input_gate inp) = GateInvalid then (UtilityInvalid, None)
         else if score = None then (UtilityUnavailable, None)
         else if gate_status (input_gate inp) = GateStrongData \<and> gate_eligible (input_gate inp) \<and>
                 normalize_ratio (opt_minimum_strong_coverage opts) (lit 0.8) \<le> coverage_of nd w \<and>
                 normalize_ratio (opt_minimum_strong_confidence opts) (lit 0.8) \<le> confidence_of nd w
         then (UtilityStrongData, score)
         else (UtilityUsable, score))"

definition evaluate_user_utility ::
  "utility_input \<Rightarrow> utility_options \<Rightarrow> utility_error + utility_evaluation" where
  "evaluate_user_utility inp opts =
     (if js_blank (target_hotel_id inp) then Inl TargetHotelIdRequired
      else
        let pref = resolve_preference inp
        in case create_weights (res_id pref) (custom_weights opts) of
             Inl e \<Rightarrow> Inl e
           | Inr w \<Rightarrow>
               let nd = normalized_dimensions (input_scores inp);
                   (status, score) = utility_status_of inp opts nd w;
                   contribs = map (contribution_of nd w) dimension_codes
               in Inr
                  \<lparr>util_hotel_id = js_trim (target_hotel_id inp),
                   util_status = status,
                   util_eligible = gate_eligible (input_gate inp) \<and> score \<noteq> None,
                   util_preference =
                     \<lparr>pref_id = res_id pref, pref_selected_index = res_index pref,
                      pref_source = res_source pref, pref_weights = (\<lambda>d. round_to 4 (w d))\<rparr>,
                   raw_utility_score = map_option (round_to 4) (raw_score nd w),
                   utility_score = score,
                   score_confidence = round_to 4 (confidence_of nd w),
                   evidence_coverage = round_to 4 (coverage_of nd w),
                   available_dimension_codes =
                     unique_sorted (map dimension_code (available_dimensions nd w)),
                   unavailable_dimension_codes =
                     unique_sorted (map dimension_code (unavailable_dimensions nd w)),
                   contributions = contribs,
                   util_warning_codes = unique_sorted (utility_warnings inp opts pref nd w),
                   util_evidence_ids =
                     unique_sorted (concat (map contrib_evidence_ids contribs)
                       @ gate_evidence_ids (input_gate inp))\<rparr>)"

section \<open>Weights\<close>

text \<open>
  The weights a run uses: fractions of one, on the grid of doubles. A total that overflows
  to infinity gives all-zero weights, which this still covers.
\<close>

definition unit_weights :: "weights \<Rightarrow> bool" where
  "unit_weights w \<longleftrightarrow> (\<forall>d. \<exists>q. w d = Fin q \<and> 0 \<le> q \<and> q \<le> 1 \<and> on_grid q)"

text \<open>Every JavaScript number is a double; the type \<open>jsnum\<close> is wider, so inputs say it.\<close>

definition double_custom_weights :: "(utility_dimension \<Rightarrow> jsnum option option) \<Rightarrow> bool" where
  "double_custom_weights custom \<longleftrightarrow> (\<forall>d v. custom d = Some (Some v) \<longrightarrow> js_double v)"

definition plain_weights :: "weights \<Rightarrow> bool" where
  "plain_weights w \<longleftrightarrow> (\<forall>d. is_fin (w d) \<and> Fin 0 \<le> w d \<and> js_double (w d))"

lemma set_dimension_codes [simp]: "set dimension_codes = UNIV"
proof -
  have "d \<in> set dimension_codes" for d by (cases d) (simp_all add: dimension_codes_def)
  then show ?thesis by auto
qed

lemma length_dimension_codes [simp]: "length dimension_codes = 7"
  by (simp add: dimension_codes_def)

lemma plain_weights_base: "plain_weights (base_weights p)"
proof -
  have lit: "is_fin (rnd q) \<and> Fin 0 \<le> rnd q \<and> js_double (rnd q)" if "0 \<le> q" "q \<le> 1" for q
    using rnd_between [of 0 1 q] double_of_int [of 1] that by auto
  have "\<exists>q. base_weights p d = rnd q \<and> 0 \<le> q \<and> q \<le> 1" for d
    by (cases p; cases d) (simp_all only: base_weights.simps, (rule exI, rule conjI, rule refl, simp)+)
  with lit show ?thesis unfolding plain_weights_def by metis
qed

lemma plain_weights_override:
  "override_weights custom ds w = Inr w' \<Longrightarrow> plain_weights w \<Longrightarrow> double_custom_weights custom \<Longrightarrow>
     plain_weights w'"
proof (induction ds arbitrary: w)
  case (Cons d ds)
  show ?case
  proof (cases "custom d")
    case None
    with Cons show ?thesis by simp
  next
    case (Some v)
    with Cons.prems obtain x where x: "v = Some x" "is_fin x" "\<not> x < Fin 0"
        "override_weights custom ds (w(d := x)) = Inr w'"
      by (auto split: option.splits if_splits)
    with Cons.prems(2,3) Some have "plain_weights (w(d := x))"
      by (auto simp: plain_weights_def double_custom_weights_def is_fin_iff)
    then show ?thesis by (rule Cons.IH [OF x(4) _ Cons.prems(3)])
  qed
qed simp

lemma create_weights_unit:
  assumes "create_weights p custom = Inr w" and "double_custom_weights custom"
  shows "unit_weights w"
proof -
  from assms(1) obtain v where v: "override_weights custom dimension_codes (base_weights p) = Inr v"
      and w: "w = (\<lambda>d. js_div (v d) (total_weight v))" and pos: "\<not> total_weight v \<le> Fin 0"
    by (auto simp: create_weights_def Let_def split: sum.splits if_splits)
  have pv: "plain_weights v" by (rule plain_weights_override [OF v plain_weights_base assms(2)])
  have "\<exists>q. w d = Fin q \<and> 0 \<le> q \<and> q \<le> 1 \<and> on_grid q" for d
  proof -
    from pv obtain q where q: "v d = Fin q" "0 \<le> q" by (force simp: plain_weights_def is_fin_iff)
    have le: "v d \<le> total_weight v"
      unfolding total_weight_def using pv by (intro js_sum_ge_member) (auto simp: plain_weights_def)
    show ?thesis
    proof (cases "total_weight v")
      case (Fin t)
      with pos le q have t: "0 < t" "q \<le> t" by auto
      then obtain r where r: "rnd (q / t) = Fin r" "0 \<le> r" "r \<le> 1"
        using rnd_between [of 0 1 "q / t"] double_of_int [of 1] q by auto
      with t rnd_on_grid [OF r(1)] q(1) Fin show ?thesis by (simp add: w)
    qed (use le q w in auto)
  qed
  then show ?thesis by (simp add: unit_weights_def)
qed

section \<open>Scores\<close>

definition unit_dimensions :: "dimensions \<Rightarrow> bool" where
  "unit_dimensions nd \<longleftrightarrow>
     (\<forall>d. (\<forall>s. nd_score (nd d) = Some s \<longrightarrow> (\<exists>q. s = Fin q \<and> 0 \<le> q \<and> q \<le> 100)) \<and>
          (\<exists>c. nd_confidence (nd d) = Fin c \<and> 0 \<le> c \<and> c \<le> 1))"

lemma normalize_dimension_unit: "unit_dimensions (normalized_dimensions scores)"
proof -
  have c: "\<exists>q. round_to 4 (normalize_ratio (Some c) (Fin 0)) = Fin q \<and> 0 \<le> q \<and> q \<le> 1" for c
    using round_to_between [of 0 "normalize_ratio (Some c) (Fin 0)" 1 4]
      normalize_ratio_bounds [of "Fin 0" "Some c"]
    by (intro jsnum_between_Fin) auto
  have s: "\<exists>q. round_to 2 (Fin x) = Fin q \<and> 0 \<le> q \<and> q \<le> 100" if "0 \<le> x" "x \<le> 100" for x
    using round_to_between [of 0 "Fin x" 100 2] that by (intro jsnum_between_Fin) auto
  show ?thesis
    unfolding unit_dimensions_def normalized_dimensions_def normalize_dimension_def
    using c s by (auto simp: Let_def is_fin_iff split: option.splits)
qed

lemma available_dimensions_iff:
  "d \<in> set (available_dimensions nd w) \<longleftrightarrow> nd_score (nd d) \<noteq> None \<and> Fin 0 < w d"
  by (simp add: available_dimensions_def)

lemma length_available: "length (available_dimensions nd w) \<le> 7"
  unfolding available_dimensions_def length_dimension_codes [symmetric] by (rule length_filter_le)

text \<open>The sums behind the raw score satisfy the weighted-mean invariant.\<close>

lemma raw_score_mean:
  assumes "unit_weights w" and "unit_dimensions nd" and "0 \<le> lo" and "hi \<le> 100"
    and "\<And>d s. d \<in> set (available_dimensions nd w) \<Longrightarrow> nd_score (nd d) = Some s \<Longrightarrow>
           Fin (of_int lo) \<le> s \<and> s \<le> Fin (of_int hi)"
  shows "mean_upto (length (available_dimensions nd w)) (of_int lo) (of_int hi)
     (js_sum (map (\<lambda>d. score_or_zero nd d * w d) (available_dimensions nd w)))
     (available_weight nd w)"
  unfolding available_weight_def
proof (rule mean_sums)
  show "length (available_dimensions nd w) \<le> 1000"
    using length_available [of nd w] by simp
  fix d
  assume d: "d \<in> set (available_dimensions nd w)"
  then obtain s where s: "nd_score (nd d) = Some s" by (auto simp: available_dimensions_iff)
  with assms(2) obtain q where "s = Fin q" by (force simp: unit_dimensions_def)
  with assms(5) [OF d s] assms(1) s
  show "\<exists>s v. score_or_zero nd d = Fin s \<and> w d = Fin v \<and> of_int lo \<le> s \<and> s \<le> of_int hi \<and>
      0 \<le> v \<and> v \<le> 1 \<and> on_grid v"
    by (auto simp: score_or_zero_def unit_weights_def)
qed (use assms in auto)

section \<open>Properties of the evaluation\<close>

lemma contribution_of_simps [simp]:
  "contrib_available (contribution_of nd w d) \<longleftrightarrow> nd_score (nd d) \<noteq> None \<and> Fin 0 < w d"
  "contrib_score (contribution_of nd w d) = nd_score (nd d)"
  "contrib_evidence_ids (contribution_of nd w d) = nd_evidence_ids (nd d)"
  "contrib_dimension (contribution_of nd w d) = d"
  by (simp_all add: contribution_of_def Let_def)

lemma evaluate_user_utility_Inr:
  assumes "evaluate_user_utility inp opts = Inr e"
  obtains w nd where "create_weights (res_id (resolve_preference inp)) (custom_weights opts) = Inr w"
    and "nd = normalized_dimensions (input_scores inp)" and "\<not> js_blank (target_hotel_id inp)"
    and "util_status e = fst (utility_status_of inp opts nd w)"
    and "utility_score e = snd (utility_status_of inp opts nd w)"
    and "util_eligible e \<longleftrightarrow> gate_eligible (input_gate inp) \<and> utility_score e \<noteq> None"
    and "raw_utility_score e = map_option (round_to 4) (raw_score nd w)"
    and "score_confidence e = round_to 4 (confidence_of nd w)"
    and "evidence_coverage e = round_to 4 (coverage_of nd w)"
    and "contributions e = map (contribution_of nd w) dimension_codes"
    and "available_dimension_codes e = unique_sorted (map dimension_code (available_dimensions nd w))"
    and "util_evidence_ids e =
           unique_sorted (concat (map contrib_evidence_ids (contributions e)) @ gate_evidence_ids (input_gate inp))"
    and "util_preference e = \<lparr>pref_id = res_id (resolve_preference inp),
           pref_selected_index = res_index (resolve_preference inp),
           pref_source = res_source (resolve_preference inp), pref_weights = (\<lambda>d. round_to 4 (w d))\<rparr>"
proof -
  from assms have nb: "\<not> js_blank (target_hotel_id inp)"
    by (auto simp: evaluate_user_utility_def)
  with assms obtain w where w: "create_weights (res_id (resolve_preference inp)) (custom_weights opts) = Inr w"
    by (auto simp: evaluate_user_utility_def Let_def split: sum.splits)
  show thesis
    by (rule that [OF w refl nb])
      (use assms nb w in \<open>auto simp: evaluate_user_utility_def Let_def case_prod_beta\<close>)
qed

lemma utility_score_raw:
  "snd (utility_status_of inp opts nd w) = Some u \<Longrightarrow>
     \<exists>v. raw_score nd w = Some v \<and> u = round_to 2 v"
  by (auto simp: utility_status_of_def Let_def split: if_splits)

lemma raw_score_within:
  assumes "unit_weights w" and "unit_dimensions nd" and "0 \<le> lo" and "lo \<le> 100" and "0 \<le> hi" and "hi \<le> 100"
    and "\<And>d s. d \<in> set (available_dimensions nd w) \<Longrightarrow> nd_score (nd d) = Some s \<Longrightarrow>
           Fin (of_int lo) \<le> s \<and> s \<le> Fin (of_int hi)"
    and "raw_score nd w = Some v" and "n \<le> 4"
  shows "Fin (of_int lo) \<le> round_to n v \<and> round_to n v \<le> Fin (of_int hi)"
proof -
  have mean: "mean_upto (length (available_dimensions nd w)) (of_int lo) (of_int hi)
     (js_sum (map (\<lambda>d. score_or_zero nd d * w d) (available_dimensions nd w))) (available_weight nd w)"
    by (rule raw_score_mean [OF assms(1,2,3,6)]) (fact assms(7))
  have k: "length (available_dimensions nd w) \<le> 1000" using length_available [of nd w] by simp
  from assms(8) have D: "Fin 0 < available_weight nd w"
    and v: "v = js_div (js_sum (map (\<lambda>d. score_or_zero nd d * w d) (available_dimensions nd w))) (available_weight nd w)"
    by (auto simp: raw_score_def split: if_splits)
  show ?thesis
    unfolding v by (intro conjI weighted_mean_rounded [OF mean D k assms(3-6,9)])
qed

text \<open>C16. The utility score is a mean: if every dimension that contributes has a score between two
  integers, so has the utility score, whatever the weights and in spite of the rounding of
  every product, sum and quotient in double arithmetic.\<close>

theorem utility_mean_within:
  assumes "evaluate_user_utility inp opts = Inr e" and "double_custom_weights (custom_weights opts)"
    and "0 \<le> lo" and "lo \<le> 100" and "0 \<le> hi" and "hi \<le> 100"
    and "\<And>c s. c \<in> set (contributions e) \<Longrightarrow> contrib_available c \<Longrightarrow> contrib_score c = Some s \<Longrightarrow>
           Fin (of_int lo) \<le> s \<and> s \<le> Fin (of_int hi)"
    and "utility_score e = Some u"
  shows "Fin (of_int lo) \<le> u \<and> u \<le> Fin (of_int hi)"
  using assms(1)
proof (rule evaluate_user_utility_Inr)
  fix w nd
  assume w: "create_weights (res_id (resolve_preference inp)) (custom_weights opts) = Inr w"
    and nd: "nd = normalized_dimensions (input_scores inp)"
    and score: "utility_score e = snd (utility_status_of inp opts nd w)"
    and contribs: "contributions e = map (contribution_of nd w) dimension_codes"
  from assms(8) score obtain v where v: "raw_score nd w = Some v" "u = round_to 2 v"
    by (metis utility_score_raw)
  have "Fin (of_int lo) \<le> s \<and> s \<le> Fin (of_int hi)"
    if "d \<in> set (available_dimensions nd w)" "nd_score (nd d) = Some s" for d s
    using assms(7) [of "contribution_of nd w d" s] that
    by (simp add: contribs available_dimensions_iff)
  with v show ?thesis
    using raw_score_within [OF create_weights_unit [OF w assms(2)] normalize_dimension_unit assms(3-6), of _ v 2] nd
    by auto
qed

lemma unit_quotient:
  assumes "Fin 0 \<le> a" and "a \<le> t" and "Fin 0 < t" and "is_fin t"
  shows "Fin 0 \<le> js_div a t \<and> js_div a t \<le> Fin 1"
  using assms double_of_int [of 1]
  by (cases a; cases t) (auto intro: rnd_nonneg rnd_le_double)

lemma unit_weights_nonneg: "unit_weights w \<Longrightarrow> Fin 0 \<le> w d"
  unfolding unit_weights_def by (metis less_eq_jsnum.simps(1))

lemma total_weight_fin: "unit_weights w \<Longrightarrow> is_fin (total_weight w)"
proof -
  assume u: "unit_weights w"
  then have "Fin 0 \<le> w d \<and> w d \<le> Fin 1" for d
    unfolding unit_weights_def by (metis less_eq_jsnum.simps(1))
  then have "total_weight w \<le> Fin 7" "Fin 0 \<le> total_weight w"
    unfolding total_weight_def using js_sum_le_length [of dimension_codes w]
    by (auto intro!: js_sum_nonneg)
  then show ?thesis by (cases "total_weight w") auto
qed

lemma coverage_unit:
  assumes "unit_weights w"
  shows "Fin 0 \<le> coverage_of nd w \<and> coverage_of nd w \<le> Fin 1"
proof -
  have "Fin 0 \<le> available_weight nd w" "available_weight nd w \<le> total_weight w"
    unfolding available_weight_def available_dimensions_def total_weight_def
    using unit_weights_nonneg [OF assms] by (auto intro!: js_sum_nonneg js_sum_filter_le)
  with total_weight_fin [OF assms] show ?thesis by (auto simp: coverage_of_def unit_quotient)
qed

lemma confidence_unit:
  assumes "unit_weights w" and "\<And>d. js_double (w d)" and "unit_dimensions nd"
  shows "Fin 0 \<le> confidence_of nd w \<and> confidence_of nd w \<le> Fin 1"
proof -
  let ?c = "\<lambda>d. (if nd_score (nd d) \<noteq> None then nd_confidence (nd d) else Fin 0) * w d"
  have c: "Fin 0 \<le> ?c d \<and> ?c d \<le> w d" for d
  proof -
    obtain c where c: "(if nd_score (nd d) \<noteq> None then nd_confidence (nd d) else Fin 0) = Fin c" "0 \<le> c" "c \<le> 1"
    proof -
      obtain c where "nd_confidence (nd d) = Fin c" "0 \<le> c" "c \<le> 1"
        using assms(3) unfolding unit_dimensions_def by metis
      with that [of c] that [of 0] show thesis by (cases "nd_score (nd d) = None") auto
    qed
    obtain q where q: "w d = Fin q" "0 \<le> q" "double q"
      using assms(1) assms(2) [of d] unfolding unit_weights_def by (metis js_double.simps(1))
    have "c * q \<le> q" using mult_right_mono [OF c(3) q(2)] by simp
    with c q show ?thesis
      by (auto intro: rnd_nonneg rnd_le_double)
  qed
  then have "js_sum (map ?c dimension_codes) \<le> total_weight w" "Fin 0 \<le> js_sum (map ?c dimension_codes)"
    unfolding total_weight_def by (auto intro!: js_sum_mono js_sum_nonneg)
  with total_weight_fin [OF assms(1)] show ?thesis by (auto simp: confidence_of_def unit_quotient)
qed

lemma create_weights_double: "create_weights p custom = Inr w \<Longrightarrow> double_custom_weights custom \<Longrightarrow> js_double (w d)"
proof -
  assume a: "create_weights p custom = Inr w" "double_custom_weights custom"
  then obtain v where v: "override_weights custom dimension_codes (base_weights p) = Inr v"
      and w: "w = (\<lambda>d. js_div (v d) (total_weight v))"
    by (auto simp: create_weights_def Let_def split: sum.splits if_splits)
  from create_weights_unit [OF a] w have "is_fin (js_div (v d) (total_weight v))"
    unfolding unit_weights_def by (metis is_fin.simps(1))
  then show "js_double (w d)"
    by (cases "v d"; cases "total_weight v") (auto simp: w split: if_splits)
qed

text \<open>Every figure of a utility evaluation is in its scale: the utility score and the raw score,
  where there is one, are between 0 and 100, the confidence and the evidence coverage between
  0 and 1. This holds for every input: NaN, infinite or negative scores, any custom weights.\<close>

theorem utility_ranges:
  assumes "evaluate_user_utility inp opts = Inr e" and "double_custom_weights (custom_weights opts)"
  shows "pred_option (\<lambda>u. Fin 0 \<le> u \<and> u \<le> Fin 100) (utility_score e) \<and>
    pred_option (\<lambda>u. Fin 0 \<le> u \<and> u \<le> Fin 100) (raw_utility_score e) \<and>
    Fin 0 \<le> score_confidence e \<and> score_confidence e \<le> Fin 1 \<and>
    Fin 0 \<le> evidence_coverage e \<and> evidence_coverage e \<le> Fin 1"
  using assms(1)
proof (rule evaluate_user_utility_Inr)
  fix w nd
  assume w: "create_weights (res_id (resolve_preference inp)) (custom_weights opts) = Inr w"
    and nd: "nd = normalized_dimensions (input_scores inp)"
    and score: "utility_score e = snd (utility_status_of inp opts nd w)"
    and raw: "raw_utility_score e = map_option (round_to 4) (raw_score nd w)"
    and conf: "score_confidence e = round_to 4 (confidence_of nd w)"
    and cov: "evidence_coverage e = round_to 4 (coverage_of nd w)"
  note uw = create_weights_unit [OF w assms(2)]
  have und: "unit_dimensions nd" unfolding nd by (rule normalize_dimension_unit)
  have "Fin 0 \<le> s \<and> s \<le> Fin 100" if "nd_score (nd d) = Some s" for d s
    using und that by (fastforce simp: unit_dimensions_def)
  then have "Fin 0 \<le> round_to n v \<and> round_to n v \<le> Fin 100" if "raw_score nd w = Some v" "n \<le> 4" for n v
    using raw_score_within [OF uw und, of 0 100 v n] that by auto
  then have "pred_option (\<lambda>u. Fin 0 \<le> u \<and> u \<le> Fin 100) (utility_score e)"
    "pred_option (\<lambda>u. Fin 0 \<le> u \<and> u \<le> Fin 100) (raw_utility_score e)"
    using utility_score_raw [of inp opts nd w] by (auto simp: score raw pred_option_def)
  moreover have "Fin 0 \<le> score_confidence e \<and> score_confidence e \<le> Fin 1"
    using confidence_unit [OF uw create_weights_double [OF w assms(2)] und]
      round_to_between [of 0 "confidence_of nd w" 1 4] by (simp add: conf)
  moreover have "Fin 0 \<le> evidence_coverage e \<and> evidence_coverage e \<le> Fin 1"
    using coverage_unit [OF uw, of nd] round_to_between [of 0 "coverage_of nd w" 1 4] by (simp add: cov)
  ultimately show ?thesis by blast
qed

section \<open>An evaluation on concrete scores\<close>

text \<open>A stay with a price score of 80 and a quality score as given, weighed alike, for the witnesses.\<close>

definition sample_dimension :: "rat \<Rightarrow> dimension_score" where
  "sample_dimension q = \<lparr>dim_score = Some (Fin q), dim_confidence = Fin 1, dim_signal_codes = [],
     dim_evidence_ids = [''e'']\<rparr>"

definition missing_dimension :: dimension_score where
  "missing_dimension = \<lparr>dim_score = None, dim_confidence = Fin 0, dim_signal_codes = [], dim_evidence_ids = []\<rparr>"

definition sample_scores :: "rat \<Rightarrow> score_breakdown" where
  "sample_scores q = \<lparr>price_value_score = sample_dimension 80, quality_score = sample_dimension q,
     location_score = missing_dimension, comfort_score = sample_dimension 50,
     flexibility_score = missing_dimension, category_fit_score = missing_dimension,
     user_fit_score = missing_dimension, reliability_score = missing_dimension\<rparr>"

definition sample_gate :: reliability_gate where
  "sample_gate = \<lparr>gate_status = GateUsable, gate_eligible = True, blocking_reason_codes = [],
     gate_warning_codes = [], gate_evidence_ids = [''g'']\<rparr>"

definition sample_utility_input :: "rat \<Rightarrow> utility_input" where
  "sample_utility_input q = \<lparr>target_hotel_id = ''h'', input_scores = sample_scores q, input_gate = sample_gate,
     input_preference_id = Some ''balanced'', input_selected_index = None,
     input_preference_source = None\<rparr>"

definition sample_utility_options :: utility_options where
  "sample_utility_options = \<lparr>custom_weights = (\<lambda>d. if d = PriceValue \<or> d = Quality then Some (Some (Fin 1)) else Some (Some (Fin 0))),
     opt_minimum_strong_coverage = None, opt_minimum_strong_confidence = None,
     opt_low_coverage_threshold = None, opt_low_confidence_threshold = None\<rparr>"


lemma sample_override:
  "override_weights (custom_weights sample_utility_options) dimension_codes w =
     Inr (\<lambda>d. if d = PriceValue \<or> d = Quality then Fin 1 else Fin 0)"
  by (simp add: sample_utility_options_def dimension_codes_def fun_eq_iff)
    (metis utility_dimension.exhaust)

lemma sample_total: "total_weight (\<lambda>d. if d = PriceValue \<or> d = Quality then Fin 1 else Fin 0) = Fin 2"
  using rnd_of_int [of 1] rnd_of_int [of 2] by (simp add: total_weight_def dimension_codes_def js_sum_def)

definition half_weights :: weights where
  "half_weights d = (if d = PriceValue \<or> d = Quality then Fin (1/2) else Fin 0)"

lemma rnd_half: "rnd (1/2) = Fin (1/2)"
  using double_dyadic [of 1 1] by (simp add: rnd_exact)

lemma sample_weights:
  "create_weights p (custom_weights sample_utility_options) = Inr half_weights"
  using rnd_of_int [of 0]
  by (simp add: create_weights_def sample_override sample_total Let_def half_weights_def fun_eq_iff rnd_half)

lemma evaluate_defined:
  assumes "\<not> js_blank (target_hotel_id inp)"
    and "create_weights (res_id (resolve_preference inp)) (custom_weights opts) = Inr w"
  shows "\<exists>e. evaluate_user_utility inp opts = Inr e"
  using assms by (auto simp: evaluate_user_utility_def Let_def case_prod_beta)

definition sample_utility :: "rat \<Rightarrow> utility_evaluation" where
  "sample_utility q = projr (evaluate_user_utility (sample_utility_input q) sample_utility_options)"

lemma sample_utility: "evaluate_user_utility (sample_utility_input q) sample_utility_options = Inr (sample_utility q)"
proof -
  have "\<not> js_blank (target_hotel_id (sample_utility_input q))"
    by (simp add: sample_utility_input_def js_blank_iff js_space_def)
  with sample_weights have "\<exists>e. evaluate_user_utility (sample_utility_input q) sample_utility_options = Inr e"
    by (intro evaluate_defined)
  then show ?thesis by (auto simp: sample_utility_def)
qed

lemma sample_double: "double_custom_weights (custom_weights sample_utility_options)"
  using double_of_int [of 1] double_of_int [of 0]
  by (simp add: double_custom_weights_def sample_utility_options_def)

lemma sample_contributions:
  "contributions (sample_utility q) =
     map (contribution_of (normalized_dimensions (sample_scores q)) half_weights) dimension_codes"
proof (rule evaluate_user_utility_Inr [OF sample_utility [of q]])
  fix w nd
  assume "create_weights (res_id (resolve_preference (sample_utility_input q)))
      (custom_weights sample_utility_options) = Inr w"
    and "nd = normalized_dimensions (input_scores (sample_utility_input q))"
    and "contributions (sample_utility q) = map (contribution_of nd w) dimension_codes"
  then show ?thesis by (simp add: sample_weights sample_utility_input_def)
qed

theorem utility_ranges_witness:
  "pred_option (\<lambda>u. Fin 0 \<le> u \<and> u \<le> Fin 100) (utility_score (sample_utility 60)) \<and>
    evidence_coverage (sample_utility 60) \<le> Fin 1"
  using utility_ranges [OF sample_utility [of 60] sample_double] by blast

lemma round_to_sample: "round_to 2 (Fin 80) = Fin 80" "round_to 2 (Fin 60) = Fin 60"
  using round_to_of_int [of 80 2] round_to_of_int [of 60 2] by simp_all

lemma sample_scores_within:
  assumes "c \<in> set (contributions (sample_utility 60))" and "contrib_available c" and "contrib_score c = Some s"
  shows "Fin (of_int 60) \<le> s \<and> s \<le> Fin (of_int 80)"
proof -
  from assms obtain d where d: "Fin 0 < half_weights d" "nd_score (normalized_dimensions (sample_scores 60) d) = Some s"
    by (auto simp: sample_contributions)
  then have "d = PriceValue \<or> d = Quality" by (simp add: half_weights_def split: if_splits)
  then have "s = Fin 80 \<or> s = Fin 60"
    using d(2) by (auto simp: normalized_dimensions_def sample_scores_def
      sample_dimension_def normalize_dimension_def round_to_sample)
  then show ?thesis by auto
qed

lemma sample_utility_score: "\<exists>u. utility_score (sample_utility 60) = Some u"
proof (rule evaluate_user_utility_Inr [OF sample_utility [of 60]])
  fix w nd
  assume w: "create_weights (res_id (resolve_preference (sample_utility_input 60)))
      (custom_weights sample_utility_options) = Inr w"
    and nd: "nd = normalized_dimensions (input_scores (sample_utility_input 60))"
    and s: "utility_score (sample_utility 60) =
      snd (utility_status_of (sample_utility_input 60) sample_utility_options nd w)"
  have "available_weight nd half_weights = Fin 1"
    using rnd_of_int [of 1]
    by (simp add: nd available_weight_def available_dimensions_def dimension_codes_def half_weights_def
        js_sum_def rnd_half normalized_dimensions_def sample_scores_def sample_utility_input_def
        sample_dimension_def missing_dimension_def normalize_dimension_def)
  then show ?thesis
    using w by (simp add: s sample_weights utility_status_of_def raw_score_def Let_def
        sample_utility_input_def sample_gate_def split: if_splits)
qed

theorem utility_mean_within_witness:
  "\<exists>u. utility_score (sample_utility 60) = Some u \<and> Fin 60 \<le> u \<and> u \<le> Fin 80"
proof -
  obtain u where u: "utility_score (sample_utility 60) = Some u" using sample_utility_score ..
  have "Fin (of_int 60) \<le> u \<and> u \<le> Fin (of_int 80)"
    by (rule utility_mean_within [OF sample_utility sample_double _ _ _ _ _ u])
      (simp_all add: sample_scores_within del: of_int_numeral)
  with u show ?thesis by simp
qed

section \<open>Monotonicity\<close>

text \<open>Scores of which some have been raised within the scale, and the others are kept.\<close>

definition raised_scores :: "score_breakdown \<Rightarrow> score_breakdown \<Rightarrow> bool" where
  "raised_scores s s' \<longleftrightarrow>
     (\<forall>d. get_dimension s d = get_dimension s' d \<or>
        (\<exists>q q'. dim_score (get_dimension s d) = Some (Fin q) \<and>
           dim_score (get_dimension s' d) = Some (Fin q') \<and> 0 \<le> q \<and> q \<le> q' \<and> q' \<le> 100))"

lemma raised_dimension:
  assumes "raised_scores s s'"
  shows "nd_score (normalized_dimensions s d) = nd_score (normalized_dimensions s' d) \<or>
    (\<exists>x x'. nd_score (normalized_dimensions s d) = Some x \<and> nd_score (normalized_dimensions s' d) = Some x' \<and> x \<le> x')"
  using assms [unfolded raised_scores_def, rule_format, of d]
proof (elim disjE exE conjE)
  fix q q'
  assume "dim_score (get_dimension s d) = Some (Fin q)" "dim_score (get_dimension s' d) = Some (Fin q')"
    and q: "0 \<le> q" "q \<le> q'" "q' \<le> 100"
  then have "nd_score (normalized_dimensions s d) = Some (round_to 2 (Fin q))"
    "nd_score (normalized_dimensions s' d) = Some (round_to 2 (Fin q'))"
    by (simp_all add: normalized_dimensions_def normalize_dimension_def)
  then show ?thesis using round_to_mono [of "Fin q" "Fin q'" 2] q by simp
qed (simp add: normalized_dimensions_def)

lemma raised_available:
  assumes "raised_scores s s'"
  shows "available_dimensions (normalized_dimensions s) w = available_dimensions (normalized_dimensions s') w"
  unfolding available_dimensions_def
proof (rule filter_cong [OF refl])
  fix d
  show "nd_score (normalized_dimensions s d) \<noteq> None \<and> Fin 0 < w d \<longleftrightarrow>
      nd_score (normalized_dimensions s' d) \<noteq> None \<and> Fin 0 < w d"
    using raised_dimension [OF assms, of d] by (metis option.distinct(1))
qed

lemma available_weight_fin:
  assumes "unit_weights w" and "Fin 0 < available_weight nd w"
  shows "\<exists>c. available_weight nd w = Fin c \<and> 0 < c"
proof -
  have "available_weight nd w \<le> total_weight w"
    unfolding available_weight_def available_dimensions_def total_weight_def
    using unit_weights_nonneg [OF assms(1)] by (auto intro!: js_sum_filter_le)
  with total_weight_fin [OF assms(1)] assms(2) show ?thesis
    by (cases "available_weight nd w"; cases "total_weight w") auto
qed

lemma times_unit_mono: "unit_weights w \<Longrightarrow> Fin 0 \<le> a \<Longrightarrow> a \<le> b \<Longrightarrow> Fin 0 \<le> b \<Longrightarrow> is_fin a \<Longrightarrow> is_fin b \<Longrightarrow>
    Fin 0 \<le> a * w d \<and> a * w d \<le> b * w d"
proof -
  assume "unit_weights w" and ab: "Fin 0 \<le> a" "a \<le> b" "is_fin a" "is_fin b"
  then obtain q where "w d = Fin q" "0 \<le> q" unfolding unit_weights_def by metis
  with ab show ?thesis by (auto simp: is_fin_iff intro!: rnd_nonneg rnd_mono mult_right_mono)
qed

lemma raw_score_raised:
  assumes "raised_scores s s'" and "unit_weights w" and "raw_score (normalized_dimensions s) w = Some v"
  shows "\<exists>v'. raw_score (normalized_dimensions s') w = Some v' \<and> v \<le> v'"
proof -
  let ?n = "normalized_dimensions s" and ?n' = "normalized_dimensions s'"
  note av = raised_available [OF assms(1), of w]
  have aw: "available_weight ?n w = available_weight ?n' w" by (simp add: available_weight_def av)
  from assms(3) have pos: "Fin 0 < available_weight ?n w" by (auto simp: raw_score_def split: if_splits)
  then obtain c where c: "available_weight ?n w = Fin c" "0 < c"
    using available_weight_fin [OF assms(2)] by blast
  have unit: "\<exists>q. score_or_zero (normalized_dimensions t) d = Fin q \<and> 0 \<le> q" for t d
    using normalize_dimension_unit [of t] by (fastforce simp: unit_dimensions_def score_or_zero_def split: option.splits)
  have "score_or_zero ?n d \<le> score_or_zero ?n' d" for d
    using raised_dimension [OF assms(1), of d] unit [of s d] by (auto simp: score_or_zero_def)
  then have "Fin 0 \<le> score_or_zero ?n d * w d \<and> score_or_zero ?n d * w d \<le> score_or_zero ?n' d * w d" for d
    using unit [of s d] unit [of s' d] by (intro times_unit_mono [OF assms(2)]) auto
  then have "js_sum (map (\<lambda>d. score_or_zero ?n d * w d) (available_dimensions ?n w))
      \<le> js_sum (map (\<lambda>d. score_or_zero ?n' d * w d) (available_dimensions ?n' w))"
    unfolding av by (intro js_sum_mono) blast
  then show ?thesis
    using assms(3) pos c by (auto simp: raw_score_def aw [symmetric] intro: div_Fin_mono)
qed

lemma utility_score_iff:
  "snd (utility_status_of inp opts nd w) =
     (if gate_status (input_gate inp) = GateInvalid then None else map_option (round_to 2) (raw_score nd w))"
  by (auto simp: utility_status_of_def Let_def)

lemma resolve_preference_scores [simp]:
  "resolve_preference (inp\<lparr>input_scores := s\<rparr>) = resolve_preference inp"
  by (simp add: resolve_preference_def resolve_source_def cong: option.case_cong jsnum.case_cong)

text \<open>C28. Better scores never make a stay less useful: when dimension scores are raised, within the scale
  and without changing which dimensions are known, the utility score is still reported and is
  at least what it was, for every preference and all custom weights.\<close>

theorem utility_monotone:
  assumes "raised_scores (input_scores inp) scores" and "double_custom_weights (custom_weights opts)"
    and "evaluate_user_utility inp opts = Inr e" and "utility_score e = Some u"
    and "evaluate_user_utility (inp\<lparr>input_scores := scores\<rparr>) opts = Inr e'"
  shows "\<exists>u'. utility_score e' = Some u' \<and> u \<le> u'"
  using assms(3)
proof (rule evaluate_user_utility_Inr)
  fix w nd
  assume w: "create_weights (res_id (resolve_preference inp)) (custom_weights opts) = Inr w"
    and nd: "nd = normalized_dimensions (input_scores inp)"
    and s: "utility_score e = snd (utility_status_of inp opts nd w)"
  from assms(5) show ?thesis
  proof (rule evaluate_user_utility_Inr)
    fix w' nd'
    assume "create_weights (res_id (resolve_preference (inp\<lparr>input_scores := scores\<rparr>))) (custom_weights opts) = Inr w'"
      and nd': "nd' = normalized_dimensions (input_scores (inp\<lparr>input_scores := scores\<rparr>))"
      and s': "utility_score e' = snd (utility_status_of (inp\<lparr>input_scores := scores\<rparr>) opts nd' w')"
    then have ww: "w' = w" using w by simp
    from s assms(4) obtain v where v: "raw_score nd w = Some v" "u = round_to 2 v" "gate_status (input_gate inp) \<noteq> GateInvalid"
      by (metis map_option_eq_Some utility_score_iff option.distinct(1))
    with raw_score_raised [OF assms(1) create_weights_unit [OF w assms(2)]] nd nd'
    obtain v' where "raw_score nd' w = Some v'" "v \<le> v'" by auto
    with v s' show ?thesis by (auto simp: utility_score_iff ww round_to_mono)
  qed
qed

lemma sample_raised: "raised_scores (input_scores (sample_utility_input 60)) (sample_scores 90)"
proof -
  have "get_dimension (sample_scores 60) d = get_dimension (sample_scores 90) d" if "d \<noteq> Quality" for d
    using that by (cases d) (simp_all add: sample_scores_def)
  then show ?thesis
    unfolding raised_scores_def
    by (intro allI, case_tac "d = Quality")
      (auto simp: sample_utility_input_def sample_scores_def sample_dimension_def)
qed

theorem utility_monotone_witness:
  "\<exists>u u'. utility_score (sample_utility 60) = Some u \<and> utility_score (sample_utility 90) = Some u' \<and> u \<le> u'"
proof -
  obtain u where u: "utility_score (sample_utility 60) = Some u" using sample_utility_score ..
  have "(sample_utility_input 60)\<lparr>input_scores := sample_scores 90\<rparr> = sample_utility_input 90"
    by (simp add: sample_utility_input_def)
  then have "\<exists>u'. utility_score (sample_utility 90) = Some u' \<and> u \<le> u'"
    by (intro utility_monotone [OF sample_raised sample_double sample_utility u]) (simp add: sample_utility)
  with u show ?thesis by blast
qed

section \<open>Definedness, status and traceability\<close>

definition valid_custom_weight :: "jsnum option option \<Rightarrow> bool" where
  "valid_custom_weight cw =
     (case cw of None \<Rightarrow> True | Some None \<Rightarrow> False | Some (Some v) \<Rightarrow> is_fin v \<and> Fin 0 \<le> v)"

definition effective_weight :: "preference_id \<Rightarrow> (utility_dimension \<Rightarrow> jsnum option option) \<Rightarrow> weights" where
  "effective_weight p custom d = (case custom d of Some (Some v) \<Rightarrow> v | _ \<Rightarrow> base_weights p d)"

lemma override_weights_iff:
  "(\<exists>w'. override_weights custom ds w = Inr w') \<longleftrightarrow> (\<forall>d \<in> set ds. valid_custom_weight (custom d))"
proof (induction ds arbitrary: w)
  case (Cons d ds)
  have "\<not> v < Fin 0 \<longleftrightarrow> Fin 0 \<le> v" if "is_fin v" for v using that by (auto simp: is_fin_iff)
  with Cons show ?case by (auto simp: valid_custom_weight_def split: option.splits)
qed simp

lemma override_weights_value:
  "override_weights custom ds w = Inr w' \<Longrightarrow>
     w' d = (if d \<in> set ds then (case custom d of Some (Some v) \<Rightarrow> v | _ \<Rightarrow> w d) else w d)"
  by (induction ds arbitrary: w) (auto split: option.splits if_splits)

lemma total_weight_positive:
  assumes "plain_weights w"
  shows "\<not> total_weight w \<le> Fin 0 \<longleftrightarrow> (\<exists>d. Fin 0 < w d)"
proof
  assume "\<exists>d. Fin 0 < w d"
  then obtain d where d: "Fin 0 < w d" ..
  have "w d \<le> total_weight w"
    unfolding total_weight_def using assms by (intro js_sum_ge_member) (auto simp: plain_weights_def)
  with d show "\<not> total_weight w \<le> Fin 0"
    by (cases "w d"; cases "total_weight w") auto
next
  assume t: "\<not> total_weight w \<le> Fin 0"
  show "\<exists>d. Fin 0 < w d"
  proof (rule ccontr)
    assume no: "\<not> (\<exists>d. Fin 0 < w d)"
    have "w d = Fin 0" for d
    proof -
      obtain q where q: "w d = Fin q" "0 \<le> q"
        using assms unfolding plain_weights_def by (metis is_fin_iff less_eq_jsnum.simps(1))
      moreover have "\<not> Fin 0 < w d" using no by blast
      ultimately show ?thesis by simp
    qed
    then have "total_weight w = Fin 0"
      using rnd_of_int [of 0] by (simp add: total_weight_def dimension_codes_def js_sum_def)
    with t show False by simp
  qed
qed

lemma override_plain_all:
  "override_weights custom dimension_codes (base_weights p) = Inr w \<Longrightarrow> w = effective_weight p custom"
  by (rule ext) (simp add: override_weights_value [where ds = dimension_codes] effective_weight_def)

lemma create_weights_iff:
  assumes "double_custom_weights custom"
  shows "(\<exists>w. create_weights p custom = Inr w) \<longleftrightarrow>
    (\<forall>d. valid_custom_weight (custom d)) \<and> (\<exists>d. Fin 0 < effective_weight p custom d)"
proof (cases "override_weights custom dimension_codes (base_weights p)")
  case (Inl err)
  then have "\<not> (\<forall>d. valid_custom_weight (custom d))"
    using override_weights_iff [of custom dimension_codes "base_weights p"] by simp
  with Inl show ?thesis by (auto simp: create_weights_def)
next
  case (Inr v)
  have v: "v = effective_weight p custom" using override_plain_all [OF Inr] .
  have "plain_weights v" by (rule plain_weights_override [OF Inr plain_weights_base assms])
  from total_weight_positive [OF this] override_weights_iff [of custom dimension_codes "base_weights p"] Inr
  show ?thesis by (auto simp: create_weights_def Let_def v)
qed

text \<open>The engine rejects exactly the inputs it means to: the evaluation is produced if and only if the
  hotel id is not blank, every custom weight is a finite non-negative number, and some
  dimension keeps a positive weight.\<close>

theorem utility_defined_iff:
  assumes "double_custom_weights (custom_weights opts)"
  shows "(\<exists>e. evaluate_user_utility inp opts = Inr e) \<longleftrightarrow>
    \<not> js_blank (target_hotel_id inp) \<and> (\<forall>d. valid_custom_weight (custom_weights opts d)) \<and>
    (\<exists>d. Fin 0 < effective_weight (res_id (resolve_preference inp)) (custom_weights opts) d)"
proof -
  have "(\<exists>e. evaluate_user_utility inp opts = Inr e) \<longleftrightarrow> \<not> js_blank (target_hotel_id inp) \<and>
      (\<exists>w. create_weights (res_id (resolve_preference inp)) (custom_weights opts) = Inr w)"
    by (auto simp: evaluate_user_utility_def Let_def case_prod_beta split: sum.splits)
  then show ?thesis by (simp add: create_weights_iff [OF assms])
qed

theorem utility_defined_iff_witness:
  "\<exists>d. Fin 0 < effective_weight (res_id (resolve_preference (sample_utility_input 60))) (custom_weights sample_utility_options) d"
proof -
  have "\<exists>e. evaluate_user_utility (sample_utility_input 60) sample_utility_options = Inr e"
    using sample_utility by blast
  then show ?thesis by (simp only: utility_defined_iff [OF sample_double])
qed

text \<open>What reaches the primary ranking: an evaluation is eligible exactly when the gate found the stay
  eligible and there is a utility score; there is no score exactly when the gate found the
  stay invalid or no dimension with positive weight is known; and strong data is reported
  only for an eligible stay with strong data at the gate.\<close>

theorem utility_eligibility:
  assumes "evaluate_user_utility inp opts = Inr e"
  shows "(util_eligible e \<longleftrightarrow> gate_eligible (input_gate inp) \<and> utility_score e \<noteq> None) \<and>
    (utility_score e = None \<longleftrightarrow> util_status e = UtilityInvalid \<or> util_status e = UtilityUnavailable) \<and>
    (util_status e = UtilityInvalid \<longleftrightarrow> gate_status (input_gate inp) = GateInvalid) \<and>
    (util_status e = UtilityUnavailable \<longleftrightarrow> gate_status (input_gate inp) \<noteq> GateInvalid \<and> raw_utility_score e = None) \<and>
    (util_status e = UtilityStrongData \<longrightarrow> gate_status (input_gate inp) = GateStrongData \<and> util_eligible e)"
  using assms
proof (rule evaluate_user_utility_Inr)
  fix w nd
  assume "util_status e = fst (utility_status_of inp opts nd w)"
    and "utility_score e = snd (utility_status_of inp opts nd w)"
    and "util_eligible e \<longleftrightarrow> gate_eligible (input_gate inp) \<and> utility_score e \<noteq> None"
    and "raw_utility_score e = map_option (round_to 4) (raw_score nd w)"
  then show ?thesis by (auto simp: utility_status_of_def Let_def)
qed

theorem utility_eligibility_witness:
  "util_eligible (sample_utility 60) \<longleftrightarrow> utility_score (sample_utility 60) \<noteq> None"
proof -
  have "gate_eligible (input_gate (sample_utility_input 60))"
    by (simp add: sample_utility_input_def sample_gate_def)
  then show ?thesis using utility_eligibility [OF sample_utility [of 60]] by blast
qed

lemma normalize_dimension_evidence:
  "set (nd_evidence_ids (normalize_dimension d)) = set (dim_evidence_ids d) - {[]}"
  by (auto simp: normalize_dimension_def Let_def split: option.splits)

text \<open>An evaluation invents no evidence and loses none: its evidence ids are, sorted and without
  repetition, exactly the non-empty ids of the seven dimension scores and of the gate.\<close>

theorem utility_evidence_traceable:
  assumes "evaluate_user_utility inp opts = Inr e"
  shows "set (util_evidence_ids e) =
      ((\<Union>d. set (dim_evidence_ids (get_dimension (input_scores inp) d))) \<union> set (gate_evidence_ids (input_gate inp))) - {[]} \<and>
    sorted (util_evidence_ids e) \<and> distinct (util_evidence_ids e)"
  using assms
proof (rule evaluate_user_utility_Inr)
  fix w nd
  assume "util_evidence_ids e =
      unique_sorted (concat (map contrib_evidence_ids (contributions e)) @ gate_evidence_ids (input_gate inp))"
    and "contributions e = map (contribution_of nd w) dimension_codes"
    and "nd = normalized_dimensions (input_scores inp)"
  then show ?thesis
    by (auto simp: sorted_unique_sorted normalized_dimensions_def normalize_dimension_evidence)
qed

theorem utility_evidence_traceable_witness:
  "set (util_evidence_ids (sample_utility 60)) = 
     ((\<Union>d. set (dim_evidence_ids (get_dimension (sample_scores 60) d))) \<union> {''g''}) - {[]}"
  using utility_evidence_traceable [OF sample_utility [of 60]] by (simp add: sample_utility_input_def sample_gate_def)

section \<open>The presets\<close>

lemma base_weights_total:
  "\<exists>s. total_weight (base_weights p) = Fin s \<and> \<bar>s - 1\<bar> \<le> 14 * ulp_one"
proof -
  obtain qs where qs: "map (base_weights p) dimension_codes = map rnd qs" "\<forall>q \<in> set qs. 0 \<le> q"
    "sum_list qs = 1" "length qs = 7"
  proof (cases p)
    case MaximumComfort
    with that [of "[0.1, 0.28, 0.2, 0.2, 0.1, 0.05, 0.07]"] show thesis by (simp add: dimension_codes_def)
  next
    case Comfort
    with that [of "[0.16, 0.26, 0.2, 0.17, 0.09, 0.05, 0.07]"] show thesis by (simp add: dimension_codes_def)
  next
    case Balanced
    with that [of "[0.26, 0.22, 0.18, 0.13, 0.08, 0.05, 0.08]"] show thesis by (simp add: dimension_codes_def)
  next
    case Savings
    with that [of "[0.4, 0.18, 0.14, 0.09, 0.07, 0.04, 0.08]"] show thesis by (simp add: dimension_codes_def)
  next
    case MaximumSavings
    with that [of "[0.52, 0.15, 0.1, 0.06, 0.05, 0.03, 0.09]"] show thesis by (simp add: dimension_codes_def)
  qed
  then obtain s where "js_sum (map rnd qs) = Fin s" "\<bar>s - 1\<bar> \<le> 7 * (2 * ulp_one)"
    using js_sum_literals [of qs] by auto
  then show ?thesis by (simp add: total_weight_def qs(1))
qed

lemma base_weights_positive: "Fin 0 < base_weights p d"
proof -
  have "Fin 0 < rnd q" if "0.01 \<le> q" "q \<le> 1" for q
    using rnd_less [of 0 q] that rnd_of_int [of 0] by simp
  then show ?thesis by (cases p; cases d) (simp_all only: base_weights.simps, simp_all)
qed

text \<open>The preset weights are coherent: the weights of every preference are positive and add up to one
  up to 14 units in the last place of double arithmetic; from maximum comfort to maximum
  savings, price weighs strictly more and quality and comfort strictly less at every step.\<close>

theorem preset_weights_coherent:
  "(\<forall>p d. Fin 0 < base_weights p d) \<and>
   (\<forall>p. \<exists>s. total_weight (base_weights p) = Fin s \<and> \<bar>s - 1\<bar> \<le> 14 * ulp_one) \<and>
   sorted_wrt (<) (map (\<lambda>p. base_weights p PriceValue) preference_ids) \<and>
   sorted_wrt (\<lambda>x y. y < x) (map (\<lambda>p. base_weights p Quality) preference_ids) \<and>
   sorted_wrt (\<lambda>x y. y < x) (map (\<lambda>p. base_weights p ComfortDim) preference_ids)"
  by (intro conjI allI base_weights_positive base_weights_total)
    (simp_all add: preference_ids_def rnd_less)

end
