(* ===== verification/ParetoEngine.thy ===== *)
theory ParetoEngine
  imports UserUtility
begin

text \<open>
  The Pareto frontier, \<open>src/src/engine-v2/pareto/paretoFrontierEngine.ts\<close>: which
  candidates of a search are dominated by another one on the dimensions of their utility
  evaluations. The maps of the source from a dimension to its score are association lists
  in insertion order; \<open>dominatedBy\<close> and \<open>dominates\<close> are maps from hotel ids to the ids
  added to the set.
\<close>

section \<open>Interfaces\<close>

record pareto_candidate =
  pc_hotel_id :: string
  pc_utility :: utility_evaluation
  pc_eligible :: bool
  pc_exclusion_reasons :: "string list option"

record pareto_options =
  po_dimension_codes :: "string list option"
  po_minimum_confidence :: "jsnum option"
  po_minimum_comparable :: "jsnum option"
  po_non_worse_tolerance :: "jsnum option"
  po_minimum_improvement :: "jsnum option"

record pareto_candidate_evaluation =
  pe_hotel_id :: id
  pe_status :: pareto_status
  pe_dominated_by :: "id list"
  pe_dominates :: "id list"
  pe_reason_codes :: "string list"
  pe_eligible :: bool
  pe_available :: "utility_dimension list"
  pe_excluded :: "utility_dimension list"

record dominance_comparison =
  dominant_id :: id
  dominated_id :: id
  compared_dimensions :: "utility_dimension list"
  better_dimensions :: "utility_dimension list"
  equivalent_dimensions :: "utility_dimension list"

record pareto_frontier_evaluation =
  pf_preference_id :: string
  pf_dimensions :: "utility_dimension list"
  frontier_ids :: "id list"
  dominated_ids :: "id list"
  unknown_ids :: "id list"
  pf_evaluations :: "pareto_candidate_evaluation list"
  pf_comparisons :: "dominance_comparison list"

record comparable_dimension =
  cd_score :: jsnum
  cd_confidence :: jsnum

record normalized_candidate =
  nc_hotel_id :: id
  nc_utility :: utility_evaluation
  nc_eligible :: bool
  nc_dimensions :: "(utility_dimension \<times> comparable_dimension) list"
  nc_excluded :: "utility_dimension list"
  nc_exclusion_reasons :: "string list"

record pareto_resolved =
  pr_dimensions :: "utility_dimension list"
  pr_minimum_confidence :: jsnum
  pr_minimum_comparable :: jsnum
  pr_tolerance :: jsnum
  pr_improvement :: jsnum

datatype pareto_error =
    NoValidDimension
  | ImprovementNotAboveTolerance
  | CandidateIdRequired
  | CandidateIdMismatch id
  | DuplicateCandidateIds
  | PreferenceMismatch

section \<open>Options\<close>

definition is_dimension_code :: "string \<Rightarrow> bool" where
  "is_dimension_code value \<longleftrightarrow> value \<in> set (map dimension_code dimension_codes)"

definition dimension_of_code :: "string \<Rightarrow> utility_dimension option" where
  "dimension_of_code value = List.find (\<lambda>d. dimension_code d = value) dimension_codes"

text \<open>\<open>uniqueSorted\<close> on dimension codes, none of which is empty.\<close>

definition sort_dimensions :: "utility_dimension list \<Rightarrow> utility_dimension list" where
  "sort_dimensions ds = js_sort (\<lambda>a b. compare_strings (dimension_code a) (dimension_code b)) (js_set ds)"

definition resolve_dimensions :: "string list option \<Rightarrow> utility_dimension list" where
  "resolve_dimensions requested =
     sort_dimensions
       (List.map_filter dimension_of_code
          (filter is_dimension_code
             (case requested of Some codes \<Rightarrow> codes | None \<Rightarrow> map dimension_code dimension_codes)))"

definition resolve_minimum_comparable :: "jsnum option \<Rightarrow> nat \<Rightarrow> jsnum" where
  "resolve_minimum_comparable value available =
     (case value of
        Some (Fin q) \<Rightarrow> clamp (js_round (Fin q)) (Fin 1) (Fin (of_nat available))
      | _ \<Rightarrow> js_min (Fin 3) (Fin (of_nat available)))"

definition resolve_options :: "pareto_options \<Rightarrow> pareto_error + pareto_resolved" where
  "resolve_options opts =
     (let dimensions = resolve_dimensions (po_dimension_codes opts);
          tolerance = normalize_non_negative_number (po_non_worse_tolerance opts) (Fin 1);
          improvement = normalize_non_negative_number (po_minimum_improvement opts) (Fin 2)
      in if dimensions = [] then Inl NoValidDimension
         else if improvement \<le> tolerance then Inl ImprovementNotAboveTolerance
         else Inr
           \<lparr>pr_dimensions = dimensions,
            pr_minimum_confidence = normalize_ratio (po_minimum_confidence opts) (lit 0.55),
            pr_minimum_comparable =
              resolve_minimum_comparable (po_minimum_comparable opts) (length dimensions),
            pr_tolerance = tolerance,
            pr_improvement = improvement\<rparr>)"

section \<open>The preference signature\<close>

text \<open>
  \<open>weight.toFixed(6)\<close> as the data its digits carry: the sign and the number of millionths,
  ties upwards; from \<open>1e21\<close> on, \<open>toFixed\<close> prints the number itself. The parts the source
  joins with separators do not contain them, so equal strings are equal signatures.
\<close>

datatype fixed_token = Fixed bool int | Exact rat | InvalidToken

fun to_fixed6 :: "jsnum \<Rightarrow> fixed_token" where
  "to_fixed6 (Fin q) =
     (if 10 ^ 21 \<le> \<bar>q\<bar> then Exact q else Fixed (q < 0) \<lfloor>\<bar>q\<bar> * 1000000 + 1 / 2\<rfloor>)"
| "to_fixed6 _ = InvalidToken"

definition create_preference_signature ::
  "utility_evaluation \<Rightarrow> utility_dimension list \<Rightarrow> preference_id \<times> (utility_dimension \<times> fixed_token) list" where
  "create_preference_signature utility dimensions =
     (pref_id (util_preference utility),
      map (\<lambda>d. (d, to_fixed6 (pref_weights (util_preference utility) d))) dimensions)"

section \<open>Candidates\<close>

text \<open>\<open>new Map(contributions.map(...))\<close>: the last contribution of a dimension is kept.\<close>

definition contribution_for :: "utility_evaluation \<Rightarrow> utility_dimension \<Rightarrow> utility_contribution option" where
  "contribution_for utility d =
     map_of (rev (map (\<lambda>c. (contrib_dimension c, c)) (contributions utility))) d"

text \<open>What a dimension of a candidate is worth, or nothing where it is excluded.\<close>

definition comparable_score ::
  "utility_evaluation \<Rightarrow> jsnum \<Rightarrow> utility_dimension \<Rightarrow> comparable_dimension option" where
  "comparable_score utility minimum_confidence d =
     (let weight = pref_weights (util_preference utility) d
      in if \<not> is_fin weight \<or> weight \<le> Fin 0 then None
         else (case contribution_for utility d of
             None \<Rightarrow> None
           | Some c \<Rightarrow>
               (case contrib_score c of
                  None \<Rightarrow> None
                | Some score \<Rightarrow>
                    if \<not> contrib_available c \<or> \<not> is_fin score \<or> score < Fin 0 \<or> Fin 100 < score \<or>
                       \<not> is_fin (contrib_confidence c) \<or> contrib_confidence c < minimum_confidence
                    then None
                    else Some \<lparr>cd_score = score, cd_confidence = contrib_confidence c\<rparr>)))"

fun collect_dimensions ::
  "utility_evaluation \<Rightarrow> jsnum \<Rightarrow> utility_dimension list \<Rightarrow>
     (utility_dimension \<times> comparable_dimension) list \<times> utility_dimension list \<Rightarrow>
     (utility_dimension \<times> comparable_dimension) list \<times> utility_dimension list" where
  "collect_dimensions utility m [] acc = acc"
| "collect_dimensions utility m (d # ds) (available, excluded) =
     (case comparable_score utility m d of
        None \<Rightarrow> collect_dimensions utility m ds (available, excluded @ [d])
      | Some x \<Rightarrow> collect_dimensions utility m ds (AList.update d x available, excluded))"

definition candidate_eligible :: "pareto_candidate \<Rightarrow> bool" where
  "candidate_eligible candidate \<longleftrightarrow>
     pc_eligible candidate \<and> util_eligible (pc_utility candidate) \<and>
     utility_score (pc_utility candidate) \<noteq> None \<and>
     util_status (pc_utility candidate) \<noteq> UtilityInvalid \<and>
     util_status (pc_utility candidate) \<noteq> UtilityUnavailable"

definition normalize_candidate ::
  "pareto_resolved \<Rightarrow> pareto_candidate \<Rightarrow> pareto_error + normalized_candidate" where
  "normalize_candidate opts candidate =
     (let hotel_id = js_trim (pc_hotel_id candidate)
      in if js_blank (pc_hotel_id candidate) then Inl CandidateIdRequired
         else if util_hotel_id (pc_utility candidate) \<noteq> hotel_id then Inl (CandidateIdMismatch hotel_id)
         else
           let (available, excluded) =
                 collect_dimensions (pc_utility candidate) (pr_minimum_confidence opts)
                   (pr_dimensions opts) ([], [])
           in Inr
             \<lparr>nc_hotel_id = hotel_id,
              nc_utility = pc_utility candidate,
              nc_eligible = candidate_eligible candidate,
              nc_dimensions = available,
              nc_excluded = sort_dimensions excluded,
              nc_exclusion_reasons =
                unique_sorted (case pc_exclusion_reasons candidate of Some rs \<Rightarrow> rs | None \<Rightarrow> [])\<rparr>)"

fun normalize_candidates ::
  "pareto_resolved \<Rightarrow> pareto_candidate list \<Rightarrow> pareto_error + normalized_candidate list" where
  "normalize_candidates opts [] = Inr []"
| "normalize_candidates opts (c # cs) =
     (case normalize_candidate opts c of
        Inl e \<Rightarrow> Inl e
      | Inr n \<Rightarrow>
          (case normalize_candidates opts cs of
             Inl e \<Rightarrow> Inl e
           | Inr ns \<Rightarrow> Inr (n # ns)))"

section \<open>Dominance\<close>

text \<open>The loop over the dimensions of \<open>compareDominance\<close>: the better and the equivalent ones.\<close>

fun compare_dimensions ::
  "pareto_resolved \<Rightarrow> (utility_dimension \<Rightarrow> comparable_dimension option) \<Rightarrow>
     (utility_dimension \<Rightarrow> comparable_dimension option) \<Rightarrow> utility_dimension list \<Rightarrow>
     utility_dimension list \<times> utility_dimension list \<Rightarrow>
     (utility_dimension list \<times> utility_dimension list) option" where
  "compare_dimensions opts f g [] acc = Some acc"
| "compare_dimensions opts f g (d # ds) (better, equivalent) =
     (case (f d, g d) of
        (Some x, Some y) \<Rightarrow>
          (let difference = cd_score x - cd_score y
           in if difference < - pr_tolerance opts then None
              else if pr_improvement opts \<le> difference
              then compare_dimensions opts f g ds (better @ [d], equivalent)
              else compare_dimensions opts f g ds (better, equivalent @ [d]))
      | _ \<Rightarrow> None)"

definition compare_dominance ::
  "normalized_candidate \<Rightarrow> normalized_candidate \<Rightarrow> pareto_resolved \<Rightarrow> dominance_comparison option" where
  "compare_dominance dominator dominated opts =
     (let dimensions = js_sort (\<lambda>a b. compare_strings (dimension_code a) (dimension_code b))
            (map fst (nc_dimensions dominated))
      in if \<not> nc_eligible dominator \<or> \<not> nc_eligible dominated then None
         else if Fin (of_nat (length dimensions)) < pr_minimum_comparable opts then None
         else if \<not> list_all (\<lambda>d. map_of (nc_dimensions dominator) d \<noteq> None) dimensions then None
         else (case compare_dimensions opts (map_of (nc_dimensions dominator))
                     (map_of (nc_dimensions dominated)) dimensions ([], []) of
             None \<Rightarrow> None
           | Some (better, equivalent) \<Rightarrow>
               if better = [] then None
               else Some
                 \<lparr>dominant_id = nc_hotel_id dominator,
                  dominated_id = nc_hotel_id dominated,
                  compared_dimensions = sort_dimensions dimensions,
                  better_dimensions = sort_dimensions better,
                  equivalent_dimensions = sort_dimensions equivalent\<rparr>))"

record dominance_state =
  st_comparisons :: "dominance_comparison list"
  st_dominated_by :: "id \<rightharpoonup> id list"
  st_dominates :: "id \<rightharpoonup> id list"

definition set_add :: "'a \<Rightarrow> 'a list \<Rightarrow> 'a list" where
  "set_add x xs = (if x \<in> set xs then xs else xs @ [x])"

definition map_add_to :: "id \<Rightarrow> id \<Rightarrow> (id \<rightharpoonup> id list) \<Rightarrow> (id \<rightharpoonup> id list)" where
  "map_add_to k x m = (case m k of None \<Rightarrow> m | Some xs \<Rightarrow> m(k \<mapsto> set_add x xs))"

definition initial_dominance :: "normalized_candidate list \<Rightarrow> dominance_state" where
  "initial_dominance candidates =
     \<lparr>st_comparisons = [],
      st_dominated_by = map_of (map (\<lambda>c. (nc_hotel_id c, [])) candidates),
      st_dominates = map_of (map (\<lambda>c. (nc_hotel_id c, [])) candidates)\<rparr>"

definition compare_step ::
  "pareto_resolved \<Rightarrow> normalized_candidate \<Rightarrow> dominance_state \<Rightarrow> normalized_candidate \<Rightarrow> dominance_state" where
  "compare_step opts dominator st dominated =
     (if nc_hotel_id dominator = nc_hotel_id dominated then st
      else (case compare_dominance dominator dominated opts of
          None \<Rightarrow> st
        | Some comparison \<Rightarrow>
            \<lparr>st_comparisons = st_comparisons st @ [comparison],
             st_dominated_by =
               map_add_to (nc_hotel_id dominated) (nc_hotel_id dominator) (st_dominated_by st),
             st_dominates =
               map_add_to (nc_hotel_id dominator) (nc_hotel_id dominated) (st_dominates st)\<rparr>))"

definition compare_all :: "pareto_resolved \<Rightarrow> normalized_candidate list \<Rightarrow> dominance_state" where
  "compare_all opts candidates =
     foldl (\<lambda>st dominator. foldl (compare_step opts dominator) st candidates)
       (initial_dominance candidates) candidates"

definition by_comparison_ids :: "dominance_comparison \<Rightarrow> dominance_comparison \<Rightarrow> jsnum" where
  "by_comparison_ids first second =
     js_or (compare_strings (dominant_id first) (dominant_id second))
       (compare_strings (dominated_id first) (dominated_id second))"

section \<open>The evaluation\<close>

definition lookup_ids :: "(id \<rightharpoonup> id list) \<Rightarrow> id \<Rightarrow> id list" where
  "lookup_ids m h = unique_sorted (case m h of Some xs \<Rightarrow> xs | None \<Rightarrow> [])"

definition evaluate_candidate ::
  "pareto_resolved \<Rightarrow> dominance_state \<Rightarrow> normalized_candidate \<Rightarrow> pareto_candidate_evaluation" where
  "evaluate_candidate opts st candidate =
     (let dominated_by = lookup_ids (st_dominated_by st) (nc_hotel_id candidate);
          dominates = lookup_ids (st_dominates st) (nc_hotel_id candidate);
          available = sort_dimensions (map fst (nc_dimensions candidate));
          enough = pr_minimum_comparable opts \<le> Fin (of_nat (length available));
          (status, reason) =
            (if \<not> nc_eligible candidate then (ParetoUnknown, ''pareto-not-eligible'')
             else if \<not> enough then (ParetoUnknown, ''pareto-insufficient-comparable-data'')
             else if dominated_by \<noteq> [] then (ParetoDominated, ''pareto-dominated'')
             else (ParetoFrontier, ''pareto-frontier''))
      in \<lparr>pe_hotel_id = nc_hotel_id candidate,
          pe_status = status,
          pe_dominated_by = dominated_by,
          pe_dominates = dominates,
          pe_reason_codes =
            unique_sorted
              (nc_exclusion_reasons candidate @ [reason]
               @ (if dominates \<noteq> [] then [''pareto-dominates-alternative''] else [])
               @ (if nc_excluded candidate \<noteq> [] then [''pareto-dimensions-excluded''] else [])),
          pe_eligible = nc_eligible candidate \<and> enough,
          pe_available = available,
          pe_excluded = nc_excluded candidate\<rparr>)"

definition ids_with_status :: "pareto_status \<Rightarrow> pareto_candidate_evaluation list \<Rightarrow> id list" where
  "ids_with_status status evaluations =
     map pe_hotel_id (filter (\<lambda>e. pe_status e = status) evaluations)"

definition by_hotel_id :: "normalized_candidate \<Rightarrow> normalized_candidate \<Rightarrow> jsnum" where
  "by_hotel_id first second = compare_strings (nc_hotel_id first) (nc_hotel_id second)"

definition assemble_frontier ::
  "pareto_resolved \<Rightarrow> normalized_candidate \<Rightarrow> normalized_candidate list \<Rightarrow> pareto_frontier_evaluation" where
  "assemble_frontier opts first candidates =
     (let st = compare_all opts candidates;
          evaluations = map (evaluate_candidate opts st) candidates
      in \<lparr>pf_preference_id = preference_code (pref_id (util_preference (nc_utility first))),
          pf_dimensions = pr_dimensions opts,
          frontier_ids = ids_with_status ParetoFrontier evaluations,
          dominated_ids = ids_with_status ParetoDominated evaluations,
          unknown_ids = ids_with_status ParetoUnknown evaluations,
          pf_evaluations = evaluations,
          pf_comparisons = js_sort by_comparison_ids (st_comparisons st)\<rparr>)"

definition evaluate_pareto_frontier ::
  "pareto_candidate list \<Rightarrow> pareto_options \<Rightarrow> pareto_error + pareto_frontier_evaluation" where
  "evaluate_pareto_frontier candidates opts =
     (case resolve_options opts of
        Inl e \<Rightarrow> Inl e
      | Inr resolved \<Rightarrow>
          (case normalize_candidates resolved candidates of
             Inl e \<Rightarrow> Inl e
           | Inr normalized \<Rightarrow>
               let cs = js_sort by_hotel_id normalized;
                   ids = map nc_hotel_id cs
               in if length (js_set ids) \<noteq> length ids then Inl DuplicateCandidateIds
                  else (case cs of
                      [] \<Rightarrow> Inr
                        \<lparr>pf_preference_id = ''unknown'', pf_dimensions = pr_dimensions resolved,
                         frontier_ids = [], dominated_ids = [], unknown_ids = [],
                         pf_evaluations = [], pf_comparisons = []\<rparr>
                    | first # _ \<Rightarrow>
                        if list_ex (\<lambda>c. create_preference_signature (nc_utility c) (pr_dimensions resolved) \<noteq>
                              create_preference_signature (nc_utility first) (pr_dimensions resolved)) cs
                        then Inl PreferenceMismatch
                        else Inr (assemble_frontier resolved first cs))))"

section \<open>Sorting dimensions\<close>

lemma dimension_code_inj: "dimension_code d = dimension_code d' \<longleftrightarrow> d = d'"
  by (cases d; cases d') simp_all

interpretation by_dimension_code: comparator "\<lambda>a b. compare_strings (dimension_code a) (dimension_code b)" UNIV
  by (rule comparator_by_string)

lemma set_sort_dimensions [simp]: "set (sort_dimensions ds) = set ds"
  by (simp add: sort_dimensions_def)

lemma distinct_sort_dimensions [simp]: "distinct (sort_dimensions ds)"
  by (simp add: sort_dimensions_def)

lemma sort_dimensions_Nil [simp]: "sort_dimensions ds = [] \<longleftrightarrow> ds = []"
  by (metis set_empty set_sort_dimensions)

lemma length_sort_dimensions: "length (sort_dimensions ds) = card (set ds)"
  by (metis distinct_card distinct_sort_dimensions set_sort_dimensions)

section \<open>Normalised candidates\<close>

lemma collect_dimensions_result:
  assumes "distinct ds" and "set ds \<inter> fst ` set av = {}"
  shows "collect_dimensions u m ds (av, ex) =
    (av @ map (\<lambda>d. (d, the (comparable_score u m d))) (filter (\<lambda>d. comparable_score u m d \<noteq> None) ds),
     ex @ filter (\<lambda>d. comparable_score u m d = None) ds)"
  using assms
proof (induction ds arbitrary: av ex)
  case (Cons d ds)
  have upd: "AList.update d x av = av @ [(d, x)]" if "d \<notin> fst ` set av" for x
    using that by (induction av) auto
  with Cons show ?case by (cases "comparable_score u m d") auto
qed simp

definition candidate_wf :: "normalized_candidate \<Rightarrow> bool" where
  "candidate_wf n \<longleftrightarrow> distinct (map fst (nc_dimensions n)) \<and>
     (\<forall>x \<in> snd ` set (nc_dimensions n). \<exists>q. cd_score x = Fin q \<and> 0 \<le> q \<and> q \<le> 100)"

lemma comparable_score_range:
  "comparable_score u m d = Some x \<Longrightarrow> \<exists>q. cd_score x = Fin q \<and> 0 \<le> q \<and> q \<le> 100"
  by (auto simp: comparable_score_def Let_def is_fin_iff split: if_splits option.splits)

lemma normalize_candidate_Inr:
  assumes "normalize_candidate ro c = Inr n" and "distinct (pr_dimensions ro)"
  shows "candidate_wf n" and "nc_hotel_id n = js_trim (pc_hotel_id c)" and "nc_utility n = pc_utility c"
    and "nc_eligible n \<longleftrightarrow> candidate_eligible c"
    and "map_of (nc_dimensions n) d = (if d \<in> set (pr_dimensions ro)
           then comparable_score (pc_utility c) (pr_minimum_confidence ro) d else None)"
    and "\<not> js_blank (pc_hotel_id c)" and "util_hotel_id (pc_utility c) = js_trim (pc_hotel_id c)"
proof -
  let ?f = "comparable_score (pc_utility c) (pr_minimum_confidence ro)"
  let ?av = "map (\<lambda>d. (d, the (?f d))) (filter (\<lambda>d. ?f d \<noteq> None) (pr_dimensions ro))"
  from assms(1) have nb: "\<not> js_blank (pc_hotel_id c)" "util_hotel_id (pc_utility c) = js_trim (pc_hotel_id c)"
    by (auto simp: normalize_candidate_def Let_def split: if_splits)
  with assms have n: "nc_dimensions n = ?av" "nc_hotel_id n = js_trim (pc_hotel_id c)"
    "nc_utility n = pc_utility c" "nc_eligible n \<longleftrightarrow> candidate_eligible c"
    by (auto simp: normalize_candidate_def Let_def collect_dimensions_result)
  have "map_of ?av d = (if d \<in> set (pr_dimensions ro) then ?f d else None)"
    by (cases "?f d") (auto simp: map_of_map_restrict restrict_map_def)
  then show "map_of (nc_dimensions n) d = (if d \<in> set (pr_dimensions ro) then ?f d else None)"
    by (simp add: n)
  show "candidate_wf n"
    using assms(2) comparable_score_range
    by (fastforce simp: candidate_wf_def n comp_def)
qed (use assms in \<open>auto simp: normalize_candidate_def Let_def case_prod_beta split: if_splits\<close>)

lemma normalize_candidates_Inr:
  "normalize_candidates ro cs = Inr ns \<longleftrightarrow> list_all2 (\<lambda>c n. normalize_candidate ro c = Inr n) cs ns"
proof (induction cs arbitrary: ns)
  case (Cons c cs)
  have "normalize_candidates ro (c # cs) = Inr ns \<longleftrightarrow>
      (\<exists>n ns'. ns = n # ns' \<and> normalize_candidate ro c = Inr n \<and> normalize_candidates ro cs = Inr ns')"
    by (auto split: sum.splits)
  then show ?case by (auto simp: list_all2_Cons1 Cons.IH)
qed auto

lemma resolve_options_Inr:
  assumes "resolve_options opts = Inr ro"
  shows "pr_tolerance ro < pr_improvement ro" and "Fin 0 \<le> pr_tolerance ro" and "distinct (pr_dimensions ro)"
    and "pr_dimensions ro \<noteq> []" and "is_fin (pr_tolerance ro)" and "is_fin (pr_improvement ro)"
proof -
  have fin: "is_fin (normalize_non_negative_number v (Fin q)) \<and> (0 \<le> q \<longrightarrow> Fin 0 \<le> normalize_non_negative_number v (Fin q))" for v q
    by (auto simp: normalize_non_negative_number_def is_fin_iff split: option.splits)
  from assms have t: "pr_tolerance ro = normalize_non_negative_number (po_non_worse_tolerance opts) (Fin 1)"
    and i: "pr_improvement ro = normalize_non_negative_number (po_minimum_improvement opts) (Fin 2)"
    and lt: "\<not> pr_improvement ro \<le> pr_tolerance ro"
    by (auto simp: resolve_options_def Let_def split: if_splits)
  show f: "is_fin (pr_tolerance ro)" "is_fin (pr_improvement ro)" "Fin 0 \<le> pr_tolerance ro"
    using fin [of _ 1] fin [of _ 2] by (simp_all add: t i)
  with lt show "pr_tolerance ro < pr_improvement ro"
    by (auto simp: is_fin_iff)
  show "distinct (pr_dimensions ro)" "pr_dimensions ro \<noteq> []"
    using assms by (auto simp: resolve_options_def Let_def resolve_dimensions_def split: if_splits)
qed

section \<open>What dominance means\<close>

definition candidate_score :: "normalized_candidate \<Rightarrow> utility_dimension \<Rightarrow> jsnum" where
  "candidate_score n d = cd_score (the (map_of (nc_dimensions n) d))"

definition candidate_dims :: "normalized_candidate \<Rightarrow> utility_dimension set" where
  "candidate_dims n = dom (map_of (nc_dimensions n))"

definition enough_dimensions :: "pareto_resolved \<Rightarrow> normalized_candidate \<Rightarrow> bool" where
  "enough_dimensions ro n \<longleftrightarrow> pr_minimum_comparable ro \<le> Fin (of_nat (card (candidate_dims n)))"

text \<open>
  The relation the engine means: the dominated candidate has enough dimensions, the
  dominator has them all, is nowhere worse by more than the tolerance, and is better by the
  minimum improvement somewhere.
\<close>

definition pareto_dominates :: "pareto_resolved \<Rightarrow> normalized_candidate \<Rightarrow> normalized_candidate \<Rightarrow> bool" where
  "pareto_dominates ro m n \<longleftrightarrow>
     nc_eligible m \<and> nc_eligible n \<and> enough_dimensions ro n \<and> candidate_dims n \<subseteq> candidate_dims m \<and>
     (\<forall>d \<in> candidate_dims n. \<not> candidate_score m d - candidate_score n d < - pr_tolerance ro) \<and>
     (\<exists>d \<in> candidate_dims n. pr_improvement ro \<le> candidate_score m d - candidate_score n d)"

lemma compare_dimensions_iff:
  "compare_dimensions ro f g ds (b, e) = Some r \<longleftrightarrow>
     (\<forall>d \<in> set ds. \<exists>x y. f d = Some x \<and> g d = Some y \<and> \<not> cd_score x - cd_score y < - pr_tolerance ro) \<and>
     r = (b @ filter (\<lambda>d. pr_improvement ro \<le> cd_score (the (f d)) - cd_score (the (g d))) ds,
          e @ filter (\<lambda>d. \<not> pr_improvement ro \<le> cd_score (the (f d)) - cd_score (the (g d))) ds)"
proof (induction ds arbitrary: b e)
  case (Cons d ds)
  then show ?case by (cases "f d"; cases "g d") (auto simp: Let_def)
qed auto

lemma candidate_dims_set: "candidate_dims n = set (map fst (nc_dimensions n))"
  by (simp add: candidate_dims_def dom_map_of_conv_image_fst)

lemma length_dimensions: "candidate_wf n \<Longrightarrow> length (nc_dimensions n) = card (candidate_dims n)"
  by (metis candidate_dims_set candidate_wf_def distinct_card length_map)

lemma not_less_Fin: "x \<noteq> NaN \<Longrightarrow> \<not> Fin a < x \<longleftrightarrow> x \<le> Fin a"
  by (cases x) auto

lemma resolve_minimum_not_NaN: "resolve_options opts = Inr ro \<Longrightarrow> pr_minimum_comparable ro \<noteq> NaN"
proof -
  have num: "js_min (Fin x) (Fin y) \<noteq> NaN" "js_max (Fin x) (Fin y) \<noteq> NaN" for x y
    by (simp_all add: js_min_def js_max_def)
  have "resolve_minimum_comparable v k \<noteq> NaN" for v k
  proof (cases "\<exists>q. v = Some (Fin q)")
    case True
    then obtain q z where "v = Some (Fin q)" "js_max (js_round (Fin q)) (Fin 1) = Fin z"
      by (force simp: js_max_def)
    with num show ?thesis by (simp add: resolve_minimum_comparable_def clamp_def)
  next
    case False
    with num show ?thesis
      by (auto simp: resolve_minimum_comparable_def split: option.splits jsnum.splits)
  qed
  moreover assume "resolve_options opts = Inr ro"
  then have "pr_minimum_comparable ro =
      resolve_minimum_comparable (po_minimum_comparable opts) (length (pr_dimensions ro))"
    by (auto simp: resolve_options_def Let_def split: if_splits)
  ultimately show ?thesis by simp
qed

lemma compare_dominance_iff:
  assumes "candidate_wf n" and "pr_minimum_comparable ro \<noteq> NaN"
  shows "compare_dominance m n ro \<noteq> None \<longleftrightarrow> pareto_dominates ro m n"
proof -
  let ?ds = "js_sort (\<lambda>a b. compare_strings (dimension_code a) (dimension_code b)) (map fst (nc_dimensions n))"
  have ds: "set ?ds = candidate_dims n" by (simp add: candidate_dims_set)
  have ln: "\<not> Fin (of_nat (length ?ds)) < pr_minimum_comparable ro \<longleftrightarrow> enough_dimensions ro n"
    using assms by (simp add: length_dimensions enough_dimensions_def not_less_Fin)
  have cov: "list_all (\<lambda>d. map_of (nc_dimensions m) d \<noteq> None) ?ds \<longleftrightarrow> candidate_dims n \<subseteq> candidate_dims m"
    unfolding list_all_iff ds by (auto simp: candidate_dims_def)
  have sub: "(\<forall>d \<in> set ?ds. \<exists>x y. map_of (nc_dimensions m) d = Some x \<and> map_of (nc_dimensions n) d = Some y \<and>
        \<not> cd_score x - cd_score y < - pr_tolerance ro) \<longleftrightarrow>
      (\<forall>d \<in> candidate_dims n. \<not> candidate_score m d - candidate_score n d < - pr_tolerance ro)"
    if "candidate_dims n \<subseteq> candidate_dims m"
    unfolding ds using that by (fastforce simp: candidate_dims_def candidate_score_def)
  have better: "filter (\<lambda>d. pr_improvement ro \<le> cd_score (the (map_of (nc_dimensions m) d)) - cd_score (the (map_of (nc_dimensions n) d))) ?ds \<noteq> []
     \<longleftrightarrow> (\<exists>d \<in> candidate_dims n. pr_improvement ro \<le> candidate_score m d - candidate_score n d)"
    unfolding filter_empty_conv ds candidate_score_def by blast
  show ?thesis
  proof (cases "nc_eligible m \<and> nc_eligible n \<and> enough_dimensions ro n \<and> candidate_dims n \<subseteq> candidate_dims m")
    case False
    then show ?thesis
      using ln cov by (auto simp: compare_dominance_def pareto_dominates_def Let_def)
  next
    case True
    let ?r = "compare_dimensions ro (map_of (nc_dimensions m)) (map_of (nc_dimensions n)) ?ds ([], [])"
    have "compare_dominance m n ro \<noteq> None \<longleftrightarrow> (\<exists>b e. ?r = Some (b, e) \<and> b \<noteq> [])"
      using True ln cov by (auto simp: compare_dominance_def Let_def split: option.splits)
    also have "\<dots> \<longleftrightarrow> pareto_dominates ro m n"
      unfolding compare_dimensions_iff using True sub better by (auto simp: pareto_dominates_def)
    finally show ?thesis .
  qed
qed

lemma compare_dominance_ids:
  "compare_dominance m n ro = Some c \<Longrightarrow> dominant_id c = nc_hotel_id m \<and> dominated_id c = nc_hotel_id n"
  by (auto simp: compare_dominance_def Let_def split: if_splits option.splits)

section \<open>The comparison of all pairs\<close>

text \<open>The nested loops run over the pairs of candidates; what they have recorded for the pairs done.\<close>

definition compared_in ::
  "pareto_resolved \<Rightarrow> (normalized_candidate \<times> normalized_candidate) set \<Rightarrow>
     (normalized_candidate \<times> normalized_candidate) set" where
  "compared_in ro P =
     {p \<in> P. nc_hotel_id (fst p) \<noteq> nc_hotel_id (snd p) \<and> compare_dominance (fst p) (snd p) ro \<noteq> None}"

definition holds_ids :: "id set \<Rightarrow> (id \<Rightarrow> id set) \<Rightarrow> (id \<rightharpoonup> id list) \<Rightarrow> bool" where
  "holds_ids ids F m \<longleftrightarrow> (\<forall>h. map_option set (m h) = (if h \<in> ids then Some (F h) else None))"

definition recorded ::
  "pareto_resolved \<Rightarrow> id set \<Rightarrow> (normalized_candidate \<times> normalized_candidate) set \<Rightarrow> dominance_state \<Rightarrow> bool" where
  "recorded ro ids P st \<longleftrightarrow>
     set (st_comparisons st) = (\<lambda>p. the (compare_dominance (fst p) (snd p) ro)) ` compared_in ro P \<and>
     holds_ids ids (\<lambda>h. (nc_hotel_id \<circ> fst) ` {p \<in> compared_in ro P. nc_hotel_id (snd p) = h}) (st_dominated_by st) \<and>
     holds_ids ids (\<lambda>h. (nc_hotel_id \<circ> snd) ` {p \<in> compared_in ro P. nc_hotel_id (fst p) = h}) (st_dominates st)"

lemma set_set_add [simp]: "set (set_add x xs) = insert x (set xs)"
  by (auto simp: set_add_def)

lemma holds_ids_add:
  assumes "holds_ids ids F m" and "k \<in> ids" and "\<And>h. G h = (if h = k then insert x (F k) else F h)"
  shows "holds_ids ids G (map_add_to k x m)"
proof -
  from assms(1,2) have "map_option set (m k) = Some (F k)" by (simp add: holds_ids_def)
  then obtain xs where "m k = Some xs" "set xs = F k" by auto
  then show ?thesis
    using assms unfolding holds_ids_def by (intro allI, case_tac "h = k") (simp_all add: map_add_to_def)
qed

lemma holds_ids_lookup:
  "holds_ids ids F m \<Longrightarrow> h \<in> ids \<Longrightarrow> set (lookup_ids m h) = F h - {[]}"
  by (cases "m h") (auto simp: holds_ids_def lookup_ids_def dest!: spec [of _ h])

lemma recorded_step:
  assumes "recorded ro ids P st" and "nc_hotel_id a \<in> ids" and "nc_hotel_id b \<in> ids"
  shows "recorded ro ids (insert (a, b) P) (compare_step ro a st b)"
proof (cases "nc_hotel_id a \<noteq> nc_hotel_id b \<and> compare_dominance a b ro \<noteq> None")
  case False
  then have "compared_in ro (insert (a, b) P) = compared_in ro P" by (auto simp: compared_in_def)
  moreover have "compare_step ro a st b = st" using False by (auto simp: compare_step_def)
  ultimately show ?thesis using assms(1) by (simp add: recorded_def)
next
  case True
  then have D: "compared_in ro (insert (a, b) P) = insert (a, b) (compared_in ro P)"
    by (auto simp: compared_in_def)
  obtain c where c: "compare_dominance a b ro = Some c" using True by blast
  have eq: "st_comparisons (compare_step ro a st b) = st_comparisons st @ [c]"
    "st_dominated_by (compare_step ro a st b) =
       map_add_to (nc_hotel_id b) (nc_hotel_id a) (st_dominated_by st)"
    "st_dominates (compare_step ro a st b) =
       map_add_to (nc_hotel_id a) (nc_hotel_id b) (st_dominates st)"
    using True c by (simp_all add: compare_step_def)
  from assms(1) have st: "set (st_comparisons st) = (\<lambda>p. the (compare_dominance (fst p) (snd p) ro)) ` compared_in ro P"
     "holds_ids ids (\<lambda>h. (nc_hotel_id \<circ> fst) ` {p \<in> compared_in ro P. nc_hotel_id (snd p) = h}) (st_dominated_by st)"
     "holds_ids ids (\<lambda>h. (nc_hotel_id \<circ> snd) ` {p \<in> compared_in ro P. nc_hotel_id (fst p) = h}) (st_dominates st)"
    by (simp_all add: recorded_def)
  show ?thesis
    unfolding recorded_def D eq
    by (intro conjI holds_ids_add [OF st(2) assms(3)] holds_ids_add [OF st(3) assms(2)])
      (auto simp: st(1) c image_def)
qed

lemma recorded_inner:
  assumes "recorded ro ids P st" and "nc_hotel_id a \<in> ids" and "nc_hotel_id ` set bs \<subseteq> ids"
  shows "recorded ro ids (P \<union> {a} \<times> set bs) (foldl (compare_step ro a) st bs)"
  using assms
proof (induction bs arbitrary: P st)
  case (Cons b bs)
  then have "recorded ro ids (insert (a, b) P) (compare_step ro a st b)" by (intro recorded_step) auto
  with Cons.IH [of "insert (a, b) P" "compare_step ro a st b"] Cons.prems
  have "recorded ro ids (insert (a, b) P \<union> {a} \<times> set bs) (foldl (compare_step ro a) (compare_step ro a st b) bs)"
    by simp
  moreover have "insert (a, b) P \<union> {a} \<times> set bs = P \<union> {a} \<times> set (b # bs)" by auto
  ultimately show ?case by simp
qed simp

lemma recorded_outer:
  assumes "recorded ro ids P st" and "nc_hotel_id ` set as \<subseteq> ids" and "nc_hotel_id ` set bs \<subseteq> ids"
  shows "recorded ro ids (P \<union> set as \<times> set bs) (foldl (\<lambda>st a. foldl (compare_step ro a) st bs) st as)"
  using assms
proof (induction as arbitrary: P st)
  case (Cons a as)
  then have "recorded ro ids (P \<union> {a} \<times> set bs) (foldl (compare_step ro a) st bs)"
    by (intro recorded_inner) auto
  with Cons.IH [of "P \<union> {a} \<times> set bs"] Cons.prems
  have "recorded ro ids (P \<union> {a} \<times> set bs \<union> set as \<times> set bs)
      (foldl (\<lambda>st a. foldl (compare_step ro a) st bs) (foldl (compare_step ro a) st bs) as)" by simp
  moreover have "P \<union> {a} \<times> set bs \<union> set as \<times> set bs = P \<union> set (a # as) \<times> set bs" by auto
  ultimately show ?case by simp
qed simp

lemma recorded_all: "recorded ro (nc_hotel_id ` set cs) (set cs \<times> set cs) (compare_all ro cs)"
proof -
  have m: "map_option set (map_of (map (\<lambda>c. (nc_hotel_id c, [])) cs) h) =
      (if h \<in> nc_hotel_id ` set cs then Some {} else None)" for h
    by (induction cs) auto
  have "recorded ro (nc_hotel_id ` set cs) {} (initial_dominance cs)"
    by (simp add: recorded_def initial_dominance_def holds_ids_def compared_in_def m)
  then have "recorded ro (nc_hotel_id ` set cs) ({} \<union> set cs \<times> set cs)
      (foldl (\<lambda>st a. foldl (compare_step ro a) st cs) (initial_dominance cs) cs)"
    by (rule recorded_outer) simp_all
  then show ?thesis by (simp add: compare_all_def)
qed

text \<open>With distinct ids of which none is empty, the recorded sets are those of the dominance relation.\<close>

definition valid_candidates :: "pareto_resolved \<Rightarrow> normalized_candidate list \<Rightarrow> bool" where
  "valid_candidates ro cs \<longleftrightarrow> distinct (map nc_hotel_id cs) \<and> (\<forall>n \<in> set cs. candidate_wf n \<and> nc_hotel_id n \<noteq> []) \<and>
     pr_minimum_comparable ro \<noteq> NaN \<and> pr_tolerance ro < pr_improvement ro \<and> Fin 0 \<le> pr_tolerance ro \<and>
     is_fin (pr_tolerance ro) \<and> is_fin (pr_improvement ro)"

lemma candidate_score_fin:
  "candidate_wf n \<Longrightarrow> d \<in> candidate_dims n \<Longrightarrow> \<exists>q. candidate_score n d = Fin q \<and> 0 \<le> q \<and> q \<le> 100"
  by (force simp: candidate_wf_def candidate_dims_def candidate_score_def dest!: map_of_SomeD)

lemma difference_antisym: "(Fin p :: jsnum) - Fin q = - (Fin q - Fin p)"
  using rnd_minus [of "q - p"] by (cases "rnd (q - p)") (auto simp: minus_jsnum_def uminus_jsnum_def)

lemma pareto_dominates_asym:
  assumes "valid_candidates ro cs" and "m \<in> set cs" and "n \<in> set cs" and "pareto_dominates ro m n"
  shows "\<not> pareto_dominates ro n m"
proof
  assume nm: "pareto_dominates ro n m"
  from assms(4) obtain d where d: "d \<in> candidate_dims n" "pr_improvement ro \<le> candidate_score m d - candidate_score n d"
    by (auto simp: pareto_dominates_def)
  moreover from assms(4) d have "d \<in> candidate_dims m" by (auto simp: pareto_dominates_def)
  ultimately have no: "\<not> candidate_score n d - candidate_score m d < - pr_tolerance ro"
    using nm by (auto simp: pareto_dominates_def)
  from assms d \<open>d \<in> candidate_dims m\<close> obtain p q where pq: "candidate_score m d = Fin p" "candidate_score n d = Fin q"
    unfolding valid_candidates_def by (metis candidate_score_fin)
  obtain t i where ti: "pr_tolerance ro = Fin t" "pr_improvement ro = Fin i" "t < i"
    using assms(1) by (auto simp: valid_candidates_def is_fin_iff)
  define D where "D = candidate_score m d - candidate_score n d"
  have "candidate_score n d - candidate_score m d = - D"
    unfolding D_def pq by (rule difference_antisym)
  with d(2) no ti have "Fin i \<le> D" "\<not> - D < - Fin t" by (simp_all add: D_def)
  with ti(3) show False by (cases D) (simp_all add: uminus_jsnum_def)
qed

lemma pareto_dominates_other:
  assumes "valid_candidates ro cs" and "m \<in> set cs" and "n \<in> set cs" and "pareto_dominates ro m n"
  shows "nc_hotel_id m \<noteq> nc_hotel_id n"
proof
  assume "nc_hotel_id m = nc_hotel_id n"
  with assms(1-3) have "m = n" by (auto simp: valid_candidates_def distinct_map dest: inj_onD)
  with pareto_dominates_asym [OF assms] assms(4) show False by simp
qed

lemma compared_pairs:
  assumes v: "valid_candidates ro cs"
  shows "compared_in ro (set cs \<times> set cs) = {p \<in> set cs \<times> set cs. pareto_dominates ro (fst p) (snd p)}"
proof -
  have eq: "nc_hotel_id a \<noteq> nc_hotel_id b \<and> compare_dominance a b ro \<noteq> None \<longleftrightarrow> pareto_dominates ro a b"
    if "a \<in> set cs" "b \<in> set cs" for a b
  proof -
    have "candidate_wf b" "pr_minimum_comparable ro \<noteq> NaN" using v that by (auto simp: valid_candidates_def)
    from compare_dominance_iff [OF this] pareto_dominates_other [OF v that] show ?thesis by blast
  qed
  show ?thesis
    unfolding compared_in_def
  proof (rule Collect_cong)
    fix p
    show "p \<in> set cs \<times> set cs \<and> nc_hotel_id (fst p) \<noteq> nc_hotel_id (snd p) \<and>
        compare_dominance (fst p) (snd p) ro \<noteq> None \<longleftrightarrow>
      p \<in> set cs \<times> set cs \<and> pareto_dominates ro (fst p) (snd p)"
      using eq [of "fst p" "snd p"] unfolding mem_Times_iff by blast
  qed
qed

lemma valid_candidates_id:
  "valid_candidates ro cs \<Longrightarrow> a \<in> set cs \<Longrightarrow> b \<in> set cs \<Longrightarrow> nc_hotel_id a = nc_hotel_id b \<longleftrightarrow> a = b"
  by (auto simp: valid_candidates_def distinct_map dest: inj_onD)

lemma lookup_dominated_by:
  assumes v: "valid_candidates ro cs" and n: "n \<in> set cs"
  shows "set (lookup_ids (st_dominated_by (compare_all ro cs)) (nc_hotel_id n)) = nc_hotel_id ` {m \<in> set cs. pareto_dominates ro m n}"
proof -
  have "{p \<in> compared_in ro (set cs \<times> set cs). nc_hotel_id (snd p) = nc_hotel_id n} = {m \<in> set cs. pareto_dominates ro m n} \<times> {n}"
    unfolding compared_pairs [OF v] using valid_candidates_id [OF v] n by auto
  then have F: "(nc_hotel_id \<circ> fst) ` {p \<in> compared_in ro (set cs \<times> set cs). nc_hotel_id (snd p) = nc_hotel_id n} =
      nc_hotel_id ` {m \<in> set cs. pareto_dominates ro m n}"
    by (simp only: image_comp [symmetric] fst_image_times) simp
  have "holds_ids (nc_hotel_id ` set cs)
      (\<lambda>h. (nc_hotel_id \<circ> fst) ` {p \<in> compared_in ro (set cs \<times> set cs). nc_hotel_id (snd p) = h})
      (st_dominated_by (compare_all ro cs))"
    using recorded_all [of ro cs] by (simp only: recorded_def)
  from holds_ids_lookup [OF this imageI [OF n]]
  have "set (lookup_ids (st_dominated_by (compare_all ro cs)) (nc_hotel_id n)) =
      nc_hotel_id ` {m \<in> set cs. pareto_dominates ro m n} - {[]}"
    unfolding F .
  moreover have "[] \<notin> nc_hotel_id ` {m \<in> set cs. pareto_dominates ro m n}" using v by (auto simp: valid_candidates_def)
  ultimately show ?thesis by simp
qed

lemma lookup_dominates:
  assumes v: "valid_candidates ro cs" and n: "n \<in> set cs"
  shows "set (lookup_ids (st_dominates (compare_all ro cs)) (nc_hotel_id n)) = nc_hotel_id ` {m \<in> set cs. pareto_dominates ro n m}"
proof -
  have "{p \<in> compared_in ro (set cs \<times> set cs). nc_hotel_id (fst p) = nc_hotel_id n} = {n} \<times> {m \<in> set cs. pareto_dominates ro n m}"
    unfolding compared_pairs [OF v] using valid_candidates_id [OF v] n by auto
  then have F: "(nc_hotel_id \<circ> snd) ` {p \<in> compared_in ro (set cs \<times> set cs). nc_hotel_id (fst p) = nc_hotel_id n} =
      nc_hotel_id ` {m \<in> set cs. pareto_dominates ro n m}"
    by (simp only: image_comp [symmetric] snd_image_times) simp
  have "holds_ids (nc_hotel_id ` set cs)
      (\<lambda>h. (nc_hotel_id \<circ> snd) ` {p \<in> compared_in ro (set cs \<times> set cs). nc_hotel_id (fst p) = h})
      (st_dominates (compare_all ro cs))"
    using recorded_all [of ro cs] by (simp only: recorded_def)
  from holds_ids_lookup [OF this imageI [OF n]]
  have "set (lookup_ids (st_dominates (compare_all ro cs)) (nc_hotel_id n)) =
      nc_hotel_id ` {m \<in> set cs. pareto_dominates ro n m} - {[]}"
    unfolding F .
  moreover have "[] \<notin> nc_hotel_id ` {m \<in> set cs. pareto_dominates ro n m}" using v by (auto simp: valid_candidates_def)
  ultimately show ?thesis by simp
qed

section \<open>Properties of the evaluation\<close>

lemma normalize_candidates_map:
  "normalize_candidates ro cs = Inr ns \<longleftrightarrow>
     (\<forall>c \<in> set cs. \<exists>n. normalize_candidate ro c = Inr n) \<and>
     ns = map (\<lambda>c. projr (normalize_candidate ro c)) cs"
  unfolding normalize_candidates_Inr by (induction cs arbitrary: ns) (auto simp: list_all2_Cons1)

lemma by_hotel_id_eq: "by_hotel_id = (\<lambda>a b. compare_strings (nc_hotel_id a) (nc_hotel_id b))"
  by (simp add: by_hotel_id_def fun_eq_iff)

interpretation ids_order: comparator by_hotel_id UNIV
  unfolding by_hotel_id_eq by (rule comparator_by_string)

lemma length_js_set_eq: "length (js_set xs) = length xs \<longleftrightarrow> distinct xs"
  by (metis card_distinct distinct_card distinct_js_set set_js_set)

lemma normalized_valid:
  assumes "resolve_options opts = Inr ro" and "normalize_candidates ro cs = Inr ns" and "distinct (map nc_hotel_id ns)"
  shows "valid_candidates ro (js_sort by_hotel_id ns)"
proof -
  note ro = resolve_options_Inr [OF assms(1)]
  have "candidate_wf n \<and> nc_hotel_id n \<noteq> []" if n: "n \<in> set ns" for n
  proof -
    from assms(2) n obtain c where c: "normalize_candidate ro c = Inr n"
      by (auto simp: normalize_candidates_Inr list_all2_conv_all_nth in_set_conv_nth)
    note nc = normalize_candidate_Inr [OF c ro(3)]
    from nc(1,2,6) show ?thesis by (simp add: js_blank_def)
  qed
  moreover have "mset (map nc_hotel_id (js_sort by_hotel_id ns)) = mset (map nc_hotel_id ns)" by simp
  then have "distinct (map nc_hotel_id (js_sort by_hotel_id ns))"
    using assms(3) mset_eq_imp_distinct_iff by blast
  ultimately show ?thesis
    using ro resolve_minimum_not_NaN [OF assms(1)] by (simp add: valid_candidates_def)
qed

lemma evaluate_pareto_Inr:
  assumes "evaluate_pareto_frontier cs opts = Inr r"
  obtains ro ns where "resolve_options opts = Inr ro" and "normalize_candidates ro cs = Inr ns"
    and "valid_candidates ro (js_sort by_hotel_id ns)" and "distinct (map nc_hotel_id ns)"
    and "pf_evaluations r =
           map (evaluate_candidate ro (compare_all ro (js_sort by_hotel_id ns))) (js_sort by_hotel_id ns)"
    and "frontier_ids r = ids_with_status ParetoFrontier (pf_evaluations r)"
    and "dominated_ids r = ids_with_status ParetoDominated (pf_evaluations r)"
    and "unknown_ids r = ids_with_status ParetoUnknown (pf_evaluations r)"
    and "pf_comparisons r = js_sort by_comparison_ids (st_comparisons (compare_all ro (js_sort by_hotel_id ns)))"
proof -
  from assms obtain ro ns where ro: "resolve_options opts = Inr ro" and ns: "normalize_candidates ro cs = Inr ns"
    by (auto simp: evaluate_pareto_frontier_def split: sum.splits)
  have "distinct (map nc_hotel_id (js_sort by_hotel_id ns))"
    using assms ro ns by (auto simp: evaluate_pareto_frontier_def Let_def length_js_set_eq simp del: distinct_js_sort split: if_splits)
  moreover have "mset (map nc_hotel_id (js_sort by_hotel_id ns)) = mset (map nc_hotel_id ns)" by simp
  ultimately have d: "distinct (map nc_hotel_id ns)"
    using mset_eq_imp_distinct_iff by blast
  note v = normalized_valid [OF ro ns d]
  have ne: "length (js_set (map nc_hotel_id (js_sort by_hotel_id ns))) = length (map nc_hotel_id (js_sort by_hotel_id ns))"
    using v unfolding length_js_set_eq by (simp add: valid_candidates_def)
  show thesis
  proof (cases "js_sort by_hotel_id ns")
    case Nil
    with assms ro ns ne have "r = \<lparr>pf_preference_id = ''unknown'', pf_dimensions = pr_dimensions ro,
        frontier_ids = [], dominated_ids = [], unknown_ids = [], pf_evaluations = [], pf_comparisons = []\<rparr>"
      by (simp add: evaluate_pareto_frontier_def)
    with that [OF ro ns v d] Nil show thesis
      by (simp add: ids_with_status_def compare_all_def initial_dominance_def)
  next
    case (Cons first rest)
    with assms ro ns ne have "r = assemble_frontier ro first (js_sort by_hotel_id ns)"
      by (simp add: evaluate_pareto_frontier_def Let_def split: if_splits)
    with that [OF ro ns v d] show thesis by (simp add: assemble_frontier_def Let_def)
  qed
qed

lemma evaluate_candidate_fields:
  "pe_hotel_id (evaluate_candidate ro st n) = nc_hotel_id n"
  "pe_dominated_by (evaluate_candidate ro st n) = lookup_ids (st_dominated_by st) (nc_hotel_id n)"
  "pe_dominates (evaluate_candidate ro st n) = lookup_ids (st_dominates st) (nc_hotel_id n)"
  by (auto simp: evaluate_candidate_def Let_def case_prod_beta)

lemma evaluate_candidate_status:
  "pe_status (evaluate_candidate ro st n) =
     (if \<not> (nc_eligible n \<and> enough_dimensions ro n) then ParetoUnknown
      else if lookup_ids (st_dominated_by st) (nc_hotel_id n) \<noteq> [] then ParetoDominated
      else ParetoFrontier)"
  by (auto simp: evaluate_candidate_def Let_def case_prod_beta enough_dimensions_def
      length_sort_dimensions candidate_dims_set)

lemma evaluate_candidate_status_valid:
  assumes v: "valid_candidates ro cs" and n: "n \<in> set cs"
  shows "pe_status (evaluate_candidate ro (compare_all ro cs) n) =
     (if \<not> (nc_eligible n \<and> enough_dimensions ro n) then ParetoUnknown
      else if \<exists>m \<in> set cs. pareto_dominates ro m n then ParetoDominated
      else ParetoFrontier)"
proof -
  have "lookup_ids (st_dominated_by (compare_all ro cs)) (nc_hotel_id n) = [] \<longleftrightarrow>
      nc_hotel_id ` {m \<in> set cs. pareto_dominates ro m n} = {}"
    by (simp only: set_empty [symmetric] lookup_dominated_by [OF v n])
  then show ?thesis unfolding evaluate_candidate_status by auto
qed

text \<open>C15. The frontier is exactly what it means to be: a candidate is on it if and only if it is eligible,
  has enough comparable dimensions and no candidate dominates it; it is reported as dominated
  if and only if some candidate dominates it, and as unknown if and only if it is not eligible
  or has too few comparable dimensions.\<close>

theorem pareto_frontier_exact:
  assumes "evaluate_pareto_frontier cs opts = Inr r" and "resolve_options opts = Inr ro"
    and "normalize_candidates ro cs = Inr ns"
  shows "set (frontier_ids r) =
      nc_hotel_id ` {n \<in> set ns. nc_eligible n \<and> enough_dimensions ro n \<and> \<not> (\<exists>m \<in> set ns. pareto_dominates ro m n)} \<and>
    set (dominated_ids r) = nc_hotel_id ` {n \<in> set ns. \<exists>m \<in> set ns. pareto_dominates ro m n} \<and>
    set (unknown_ids r) = nc_hotel_id ` {n \<in> set ns. \<not> (nc_eligible n \<and> enough_dimensions ro n)}"
  using assms(1)
proof (rule evaluate_pareto_Inr)
  fix ro' ns'
  let ?cs = "js_sort by_hotel_id ns'"
  assume "resolve_options opts = Inr ro'" "normalize_candidates ro' cs = Inr ns'"
    and v: "valid_candidates ro' ?cs"
    and ev: "pf_evaluations r = map (evaluate_candidate ro' (compare_all ro' ?cs)) ?cs"
    and fr: "frontier_ids r = ids_with_status ParetoFrontier (pf_evaluations r)"
    and dm: "dominated_ids r = ids_with_status ParetoDominated (pf_evaluations r)"
    and un: "unknown_ids r = ids_with_status ParetoUnknown (pf_evaluations r)"
  with assms have eq: "ro' = ro" "ns' = ns" by auto
  have ids: "set (ids_with_status s (pf_evaluations r)) =
      nc_hotel_id ` {n \<in> set ns. pe_status (evaluate_candidate ro (compare_all ro ?cs) n) = s}" for s
    by (simp add: ids_with_status_def ev filter_map evaluate_candidate_fields eq comp_def)
  have st: "pe_status (evaluate_candidate ro (compare_all ro ?cs) n) =
     (if \<not> (nc_eligible n \<and> enough_dimensions ro n) then ParetoUnknown
      else if \<exists>m \<in> set ns. pareto_dominates ro m n then ParetoDominated
      else ParetoFrontier)" if "n \<in> set ns" for n
    using evaluate_candidate_status_valid [of ro ?cs n] v that by (simp add: eq)
  have dom: "nc_eligible n \<and> enough_dimensions ro n" if "pareto_dominates ro m n" for m n
    using that by (simp add: pareto_dominates_def)
  show ?thesis
    unfolding fr dm un ids
    by (intro conjI arg_cong [of _ _ "image nc_hotel_id"] Collect_cong)
      (use st dom in \<open>auto split: if_splits\<close>)
qed

text \<open>No candidate is lost or counted twice: the frontier, the dominated and the unknown ids are
  together exactly the trimmed ids of the candidates passed in, each once, each list in
  order.\<close>

theorem pareto_partition:
  assumes "evaluate_pareto_frontier cs opts = Inr r"
  shows "mset (frontier_ids r @ dominated_ids r @ unknown_ids r) = mset (map (js_trim \<circ> pc_hotel_id) cs) \<and>
    distinct (frontier_ids r @ dominated_ids r @ unknown_ids r) \<and>
    sorted (frontier_ids r) \<and> sorted (dominated_ids r) \<and> sorted (unknown_ids r)"
  using assms
proof (rule evaluate_pareto_Inr)
  fix ro ns
  let ?cs = "js_sort by_hotel_id ns"
  assume ro: "resolve_options opts = Inr ro" and ns: "normalize_candidates ro cs = Inr ns"
    and v: "valid_candidates ro ?cs" and d: "distinct (map nc_hotel_id ns)"
    and ev: "pf_evaluations r = map (evaluate_candidate ro (compare_all ro ?cs)) ?cs"
    and ids: "frontier_ids r = ids_with_status ParetoFrontier (pf_evaluations r)"
       "dominated_ids r = ids_with_status ParetoDominated (pf_evaluations r)"
       "unknown_ids r = ids_with_status ParetoUnknown (pf_evaluations r)"
  have "map nc_hotel_id ns = map (js_trim \<circ> pc_hotel_id) cs"
  proof -
    have "nc_hotel_id (projr (normalize_candidate ro c)) = js_trim (pc_hotel_id c)" if "c \<in> set cs" for c
      using ns that normalize_candidate_Inr(2) [OF _ resolve_options_Inr(3) [OF ro]]
      unfolding normalize_candidates_map by force
    with ns show ?thesis unfolding normalize_candidates_map by simp
  qed
  moreover have evids: "map pe_hotel_id (pf_evaluations r) = map nc_hotel_id ?cs"
    by (simp add: ev evaluate_candidate_fields)
  ultimately have all: "mset (map pe_hotel_id (pf_evaluations r)) = mset (map (js_trim \<circ> pc_hotel_id) cs)"
    by simp (metis mset_map)
  have part: "mset (ids_with_status ParetoFrontier es @ ids_with_status ParetoDominated es @
      ids_with_status ParetoUnknown es) = mset (map pe_hotel_id es)" for es
    unfolding ids_with_status_def by (induction es) (auto split: pareto_status.splits, metis pareto_status.exhaust)
  have "distinct (map pe_hotel_id (pf_evaluations r))"
    using v by (simp add: evids valid_candidates_def)
  then have "distinct (frontier_ids r @ dominated_ids r @ unknown_ids r)"
    using part [of "pf_evaluations r"] mset_eq_imp_distinct_iff unfolding ids by blast
  moreover have "sorted (map pe_hotel_id (pf_evaluations r))"
  proof -
    have "sorted_wrt ids_order.not_after ?cs" by (rule ids_order.sorted_sort) simp
    then show ?thesis
      unfolding evids sorted_wrt_map
      by (rule sorted_wrt_mono_rel [rotated]) (simp add: ids_order.not_after_def by_hotel_id_def)
  qed
  then have "sorted (ids_with_status s (pf_evaluations r))" for s
    unfolding ids_with_status_def sorted_wrt_map by (rule sorted_wrt_filter)
  ultimately show ?thesis using part [of "pf_evaluations r"] all by (simp add: ids)
qed

section \<open>Concrete searches\<close>

definition sample_contribution :: "utility_dimension \<Rightarrow> rat \<Rightarrow> utility_contribution" where
  "sample_contribution d q =
     \<lparr>contrib_dimension = d, contrib_available = True, contrib_score = Some (Fin q), contrib_confidence = Fin 1,
      configured_weight = Fin 1, normalized_available_weight = Fin 1, weighted_value = Fin q,
      contrib_signal_codes = [], contrib_evidence_ids = []\<rparr>"

definition sample_candidate :: "id \<Rightarrow> rat \<Rightarrow> rat \<Rightarrow> rat \<Rightarrow> pareto_candidate" where
  "sample_candidate i x y z =
     \<lparr>pc_hotel_id = i,
      pc_utility =
        \<lparr>util_hotel_id = i, util_status = UtilityUsable, util_eligible = True,
         util_preference =
           \<lparr>pref_id = Balanced, pref_selected_index = Fin 2, pref_source = Automatic, pref_weights = (\<lambda>_. Fin 1)\<rparr>,
         raw_utility_score = Some (Fin x), utility_score = Some (Fin x), score_confidence = Fin 1,
         evidence_coverage = Fin 1, available_dimension_codes = [], unavailable_dimension_codes = [],
         contributions = [sample_contribution PriceValue x, sample_contribution Quality y, sample_contribution Location z],
         util_warning_codes = [], util_evidence_ids = []\<rparr>,
      pc_eligible = True, pc_exclusion_reasons = None\<rparr>"

definition default_pareto_options :: pareto_options where
  "default_pareto_options =
     \<lparr>po_dimension_codes = None, po_minimum_confidence = None, po_minimum_comparable = None,
      po_non_worse_tolerance = None, po_minimum_improvement = None\<rparr>"

definition cyclic_candidates :: "pareto_candidate list" where
  "cyclic_candidates =
     [sample_candidate ''a'' 11 11 8, sample_candidate ''b'' 9 12 9, sample_candidate ''c'' 10 10 10]"

text \<open>With the default tolerance of one point and minimum improvement of two, dominance can go round in a
  circle: three eligible candidates each dominate the next, all three are reported as
  dominated, and the frontier of a search with eligible, fully known candidates is empty.\<close>

theorem pareto_frontier_cycle:
  "case evaluate_pareto_frontier cyclic_candidates default_pareto_options of
     Inl _ \<Rightarrow> False
   | Inr r \<Rightarrow> frontier_ids r = [] \<and> dominated_ids r = [''a'', ''b'', ''c''] \<and> unknown_ids r = [] \<and>
       map pe_dominates (pf_evaluations r) = [[''b''], [''c''], [''a'']]"
  by code_simp

definition spread_candidates :: "pareto_candidate list" where
  "spread_candidates =
     [sample_candidate ''b'' 70 60 50, sample_candidate ''a'' 80 60 51, sample_candidate ''c'' 40 90 20]"

definition strict_pareto_options :: pareto_options where
  "strict_pareto_options = default_pareto_options\<lparr>po_non_worse_tolerance := Some (Fin 0)\<rparr>"

definition spread_result :: pareto_frontier_evaluation where
  "spread_result = projr (evaluate_pareto_frontier spread_candidates strict_pareto_options)"

definition spread_resolved :: pareto_resolved where
  "spread_resolved = projr (resolve_options strict_pareto_options)"

definition spread_normalized :: "normalized_candidate list" where
  "spread_normalized = projr (normalize_candidates spread_resolved spread_candidates)"

lemma spread_result: "evaluate_pareto_frontier spread_candidates strict_pareto_options = Inr spread_result"
proof -
  have "\<not> isl (evaluate_pareto_frontier spread_candidates strict_pareto_options)"
    by code_simp
  then show ?thesis by (cases "evaluate_pareto_frontier spread_candidates strict_pareto_options") (simp_all add: spread_result_def)
qed

lemma spread_resolved: "resolve_options strict_pareto_options = Inr spread_resolved"
  using evaluate_pareto_Inr [OF spread_result] by (metis spread_resolved_def sum.sel(2))

lemma spread_normalized: "normalize_candidates spread_resolved spread_candidates = Inr spread_normalized"
  using evaluate_pareto_Inr [OF spread_result] by (metis spread_resolved sum.inject(2) spread_normalized_def sum.sel(2))

theorem pareto_frontier_exact_witness:
  "set (dominated_ids spread_result) =
     nc_hotel_id ` {n \<in> set spread_normalized. \<exists>m \<in> set spread_normalized. pareto_dominates spread_resolved m n}"
  using pareto_frontier_exact [OF spread_result spread_resolved spread_normalized] by blast

theorem pareto_partition_witness:
  "distinct (frontier_ids spread_result @ dominated_ids spread_result @ unknown_ids spread_result)"
  using pareto_partition [OF spread_result] by blast

section \<open>Dominance between the results\<close>

lemma pareto_evaluations_valid:
  assumes "evaluate_pareto_frontier cs opts = Inr r"
  obtains ro ns where "resolve_options opts = Inr ro" and "valid_candidates ro ns"
    and "pf_evaluations r = map (evaluate_candidate ro (compare_all ro ns)) ns"
    and "pf_comparisons r = js_sort by_comparison_ids (st_comparisons (compare_all ro ns))"
  using assms by (rule evaluate_pareto_Inr) (rule that)

lemma evaluation_dominates_iff:
  assumes v: "valid_candidates ro ns" and "m \<in> set ns" and "n \<in> set ns"
  shows "nc_hotel_id n \<in> set (pe_dominates (evaluate_candidate ro (compare_all ro ns) m)) \<longleftrightarrow> pareto_dominates ro m n"
    and "nc_hotel_id m \<in> set (pe_dominated_by (evaluate_candidate ro (compare_all ro ns) n)) \<longleftrightarrow> pareto_dominates ro m n"
  unfolding evaluate_candidate_fields lookup_dominates [OF v assms(2)] lookup_dominated_by [OF v assms(3)]
  using valid_candidates_id [OF v] assms by auto

text \<open>The reports of the candidates agree with each other: one candidate lists another as dominated by
  it if and only if the other lists it as its dominator, and two candidates never dominate
  each other, so no candidate dominates itself.\<close>

theorem pareto_reports_agree:
  assumes "evaluate_pareto_frontier cs opts = Inr r" and "e \<in> set (pf_evaluations r)" and "f \<in> set (pf_evaluations r)"
  shows "(pe_hotel_id f \<in> set (pe_dominates e) \<longleftrightarrow> pe_hotel_id e \<in> set (pe_dominated_by f)) \<and>
    \<not> (pe_hotel_id f \<in> set (pe_dominates e) \<and> pe_hotel_id e \<in> set (pe_dominates f))"
  using assms(1)
proof (rule pareto_evaluations_valid)
  fix ro ns
  assume v: "valid_candidates ro ns" and "pf_evaluations r = map (evaluate_candidate ro (compare_all ro ns)) ns"
  with assms obtain m n where mn: "m \<in> set ns" "n \<in> set ns"
    and "e = evaluate_candidate ro (compare_all ro ns) m" "f = evaluate_candidate ro (compare_all ro ns) n" by auto
  then show ?thesis
    using evaluation_dominates_iff [OF v mn] evaluation_dominates_iff [OF v mn(2,1)]
      pareto_dominates_asym [OF v mn] by (simp add: evaluate_candidate_fields)
qed

text \<open>The recorded comparisons are exactly the dominances reported: there is a comparison of two ids if
  and only if the first candidate lists the second as dominated.\<close>

theorem pareto_comparisons_exact:
  assumes "evaluate_pareto_frontier cs opts = Inr r"
  shows "(\<lambda>c. (dominant_id c, dominated_id c)) ` set (pf_comparisons r) =
    {(pe_hotel_id e, h) |e h. e \<in> set (pf_evaluations r) \<and> h \<in> set (pe_dominates e)}"
  using assms
proof (rule pareto_evaluations_valid)
  fix ro ns
  assume v: "valid_candidates ro ns" and ev: "pf_evaluations r = map (evaluate_candidate ro (compare_all ro ns)) ns"
    and cmp: "pf_comparisons r = js_sort by_comparison_ids (st_comparisons (compare_all ro ns))"
  let ?D = "{p \<in> set ns \<times> set ns. pareto_dominates ro (fst p) (snd p)}"
  have "set (pf_comparisons r) = (\<lambda>p. the (compare_dominance (fst p) (snd p) ro)) ` ?D"
    using recorded_all [of ro ns] by (simp add: cmp recorded_def compared_pairs [OF v])
  moreover have "dominant_id (the (compare_dominance (fst p) (snd p) ro)) = nc_hotel_id (fst p) \<and>
      dominated_id (the (compare_dominance (fst p) (snd p) ro)) = nc_hotel_id (snd p)" if "p \<in> ?D" for p
  proof -
    from that v have "candidate_wf (snd p)" "pr_minimum_comparable ro \<noteq> NaN"
      by (auto simp: valid_candidates_def)
    from compare_dominance_iff [OF this] that obtain c where "compare_dominance (fst p) (snd p) ro = Some c" by blast
    with compare_dominance_ids show ?thesis by simp
  qed
  ultimately have "(\<lambda>c. (dominant_id c, dominated_id c)) ` set (pf_comparisons r) =
      (\<lambda>p. (nc_hotel_id (fst p), nc_hotel_id (snd p))) ` ?D"
    by (auto simp: image_image intro!: image_cong)
  also have "\<dots> = (\<Union>m \<in> set ns. {nc_hotel_id m} \<times> nc_hotel_id ` {n \<in> set ns. pareto_dominates ro m n})"
    by force
  also have "\<dots> = (\<Union>e \<in> set (pf_evaluations r). {pe_hotel_id e} \<times> set (pe_dominates e))"
    by (simp add: ev evaluate_candidate_fields lookup_dominates [OF v] cong: SUP_cong_simp)
  also have "\<dots> = {(pe_hotel_id e, h) |e h. e \<in> set (pf_evaluations r) \<and> h \<in> set (pe_dominates e)}"
    by auto
  finally show ?thesis .
qed

text \<open>The order in which a search lists its candidates has no influence: any permutation of them gives
  the same evaluation, field by field.\<close>

theorem pareto_order_independent:
  assumes "evaluate_pareto_frontier cs opts = Inr r" and "mset cs = mset cs'"
  shows "evaluate_pareto_frontier cs' opts = Inr r"
  using assms(1)
proof (rule evaluate_pareto_Inr)
  fix ro ns
  assume ro: "resolve_options opts = Inr ro" and ns: "normalize_candidates ro cs = Inr ns"
    and d: "distinct (map nc_hotel_id ns)"
  let ?ns' = "map (\<lambda>c. projr (normalize_candidate ro c)) cs'"
  from ns have all: "\<forall>c \<in> set cs. \<exists>n. normalize_candidate ro c = Inr n"
      and nseq: "ns = map (\<lambda>c. projr (normalize_candidate ro c)) cs"
    unfolding normalize_candidates_map by auto
  have ns': "normalize_candidates ro cs' = Inr ?ns'"
    unfolding normalize_candidates_map using all mset_eq_setD [OF assms(2)] by simp
  have "mset ns = mset ?ns'" using assms(2) by (simp add: nseq)
  with d have "js_sort by_hotel_id ns = js_sort by_hotel_id ?ns'"
    unfolding by_hotel_id_eq by (intro sort_by_string_independent) (auto simp: distinct_map)
  with assms(1) ro ns ns' show ?thesis by (simp add: evaluate_pareto_frontier_def)
qed

section \<open>Errors\<close>

lemma normalize_candidate_ok:
  "(\<exists>n. normalize_candidate ro c = Inr n) \<longleftrightarrow>
     \<not> js_blank (pc_hotel_id c) \<and> util_hotel_id (pc_utility c) = js_trim (pc_hotel_id c)"
  by (auto simp: normalize_candidate_def Let_def case_prod_beta)

text \<open>The engine rejects a search exactly for the reasons it states: the options do not resolve, a
  candidate has a blank id or a utility evaluation of another stay, two candidates have the
  same trimmed id, or two candidates were scored under different preferences or weights.\<close>

theorem pareto_defined_iff:
  "(\<exists>r. evaluate_pareto_frontier cs opts = Inr r) \<longleftrightarrow>
    (\<exists>ro. resolve_options opts = Inr ro \<and>
      list_all (\<lambda>c. \<not> js_blank (pc_hotel_id c) \<and> util_hotel_id (pc_utility c) = js_trim (pc_hotel_id c)) cs \<and>
      distinct (map (js_trim \<circ> pc_hotel_id) cs) \<and>
      card ((\<lambda>c. create_preference_signature (pc_utility c) (pr_dimensions ro)) ` set cs) \<le> 1)"
proof (cases "resolve_options opts")
  case (Inl e)
  then show ?thesis by (simp add: evaluate_pareto_frontier_def)
next
  case (Inr ro)
  let ?ok = "list_all (\<lambda>c. \<not> js_blank (pc_hotel_id c) \<and> util_hotel_id (pc_utility c) = js_trim (pc_hotel_id c)) cs"
  show ?thesis
  proof (cases ?ok)
    case False
    then have "\<not> (\<exists>ns. normalize_candidates ro cs = Inr ns)"
      unfolding normalize_candidates_map list_all_iff normalize_candidate_ok by blast
    then have "\<not> (\<exists>r. evaluate_pareto_frontier cs opts = Inr r)"
      by (auto simp: evaluate_pareto_frontier_def Inr split: sum.splits)
    with False Inr show ?thesis by auto
  next
    case True
    let ?f = "\<lambda>c. projr (normalize_candidate ro c)"
    have ns: "normalize_candidates ro cs = Inr (map ?f cs)"
      using True unfolding normalize_candidates_map list_all_iff normalize_candidate_ok by simp
    have f: "nc_hotel_id (?f c) = js_trim (pc_hotel_id c)" "nc_utility (?f c) = pc_utility c" if "c \<in> set cs" for c
      using that ns normalize_candidate_Inr(2,3) [OF _ resolve_options_Inr(3) [OF Inr]]
      unfolding normalize_candidates_map by force+
    let ?s = "js_sort by_hotel_id (map ?f cs)"
    let ?sig = "\<lambda>n. create_preference_signature (nc_utility n) (pr_dimensions ro)"
    have "mset (map nc_hotel_id ?s) = mset (map nc_hotel_id (map ?f cs))"
      by (simp only: mset_map mset_js_sort)
    then have "distinct (map nc_hotel_id ?s) \<longleftrightarrow> distinct (map nc_hotel_id (map ?f cs))"
      by (rule mset_eq_imp_distinct_iff)
    also have "map nc_hotel_id (map ?f cs) = map (js_trim \<circ> pc_hotel_id) cs" using f by simp
    finally have dist: "distinct (map nc_hotel_id ?s) \<longleftrightarrow> distinct (map (js_trim \<circ> pc_hotel_id) cs)" .
    have sigs: "?sig ` set ?s = (\<lambda>c. create_preference_signature (pc_utility c) (pr_dimensions ro)) ` set cs"
      using f by (simp add: image_image)
    have one: "card (g ` set (x # xs)) \<le> 1 \<longleftrightarrow> \<not> list_ex (\<lambda>y. g y \<noteq> g x) (x # xs)"
      for g :: "normalized_candidate \<Rightarrow> preference_id \<times> (utility_dimension \<times> fixed_token) list" and x xs
      by (auto simp: card_le_Suc0_iff_eq list_ex_iff)
    show ?thesis
    proof (cases ?s)
      case Nil
      with True Inr ns dist sigs show ?thesis
        by (simp add: evaluate_pareto_frontier_def js_set_def)
    next
      case (Cons x xs)
      have "(\<exists>r. evaluate_pareto_frontier cs opts = Inr r) \<longleftrightarrow>
          distinct (map nc_hotel_id ?s) \<and> \<not> list_ex (\<lambda>y. ?sig y \<noteq> ?sig x) ?s"
        by (auto simp: evaluate_pareto_frontier_def Inr ns Let_def length_js_set_eq Cons)
      moreover have "card (?sig ` set ?s) \<le> 1 \<longleftrightarrow> \<not> list_ex (\<lambda>y. ?sig y \<noteq> ?sig x) ?s"
        unfolding Cons by (rule one)
      ultimately have "(\<exists>r. evaluate_pareto_frontier cs opts = Inr r) \<longleftrightarrow>
          distinct (map (js_trim \<circ> pc_hotel_id) cs) \<and>
          card ((\<lambda>c. create_preference_signature (pc_utility c) (pr_dimensions ro)) ` set cs) \<le> 1"
        by (simp only: dist sigs)
      with True Inr show ?thesis by simp
    qed
  qed
qed

section \<open>With no tolerance the frontier covers the search\<close>

definition double_scores :: "pareto_candidate list \<Rightarrow> bool" where
  "double_scores cs \<longleftrightarrow> (\<forall>c \<in> set cs. \<forall>k \<in> set (contributions (pc_utility c)). pred_option js_double (contrib_score k))"

definition grid_scores :: "normalized_candidate list \<Rightarrow> bool" where
  "grid_scores ns \<longleftrightarrow> (\<forall>n \<in> set ns. \<forall>d \<in> candidate_dims n. js_wf (candidate_score n d))"

lemma contribution_for_in: "contribution_for u d = Some k \<Longrightarrow> k \<in> set (contributions u)"
  unfolding contribution_for_def by (drule map_of_SomeD) auto

lemma comparable_score_double:
  assumes "comparable_score u m d = Some x" and "\<forall>k \<in> set (contributions u). pred_option js_double (contrib_score k)"
  shows "js_wf (cd_score x)"
proof -
  from assms(1) obtain k s where "contribution_for u d = Some k" "contrib_score k = Some s" "cd_score x = s" "is_fin s"
    by (auto simp: comparable_score_def Let_def split: if_splits option.splits)
  with contribution_for_in [of u d k] assms(2) show ?thesis
    by (auto simp: is_fin_iff double_on_grid)
qed

lemma grid_scores_normalized:
  assumes "resolve_options opts = Inr ro" and "normalize_candidates ro cs = Inr ns" and "double_scores cs"
  shows "grid_scores ns"
  unfolding grid_scores_def
proof (intro ballI)
  fix n d
  assume n: "n \<in> set ns" and d: "d \<in> candidate_dims n"
  from assms(2) n obtain c where c: "normalize_candidate ro c = Inr n" "c \<in> set cs"
    unfolding normalize_candidates_map by force
  from d obtain x where x: "map_of (nc_dimensions n) d = Some x" by (auto simp: candidate_dims_def)
  with normalize_candidate_Inr(5) [OF c(1) resolve_options_Inr(3) [OF assms(1)], of d]
  have "comparable_score (pc_utility c) (pr_minimum_confidence ro) d = Some x" by (auto split: if_splits)
  moreover have "\<forall>k \<in> set (contributions (pc_utility c)). pred_option js_double (contrib_score k)"
    using assms(3) c(2) by (simp add: double_scores_def)
  ultimately show "js_wf (candidate_score n d)"
    using x by (simp add: candidate_score_def comparable_score_double)
qed

lemma difference_negative_iff:
  assumes "js_wf (Fin p)" and "js_wf (Fin q)"
  shows "Fin p - Fin q < Fin 0 \<longleftrightarrow> p < q"
proof -
  define D where "D = (Fin q - Fin p :: jsnum)"
  have "(Fin p - Fin q :: jsnum) = - D" unfolding D_def by (rule difference_antisym)
  moreover have "- D < Fin 0 \<longleftrightarrow> Fin 0 < D" by (cases D) (simp_all add: uminus_jsnum_def)
  ultimately show ?thesis using sub_pos_iff [OF assms(2,1)] by (simp add: D_def)
qed

lemma score_value:
  "valid_candidates ro ns \<Longrightarrow> grid_scores ns \<Longrightarrow> n \<in> set ns \<Longrightarrow> d \<in> candidate_dims n \<Longrightarrow>
     \<exists>q. candidate_score n d = Fin q \<and> js_wf (Fin q)"
  unfolding valid_candidates_def grid_scores_def by (metis candidate_score_fin)

lemma score_ge_iff:
  assumes v: "valid_candidates ro ns" "grid_scores ns" and "m \<in> set ns" "n \<in> set ns"
    and "d \<in> candidate_dims m" "d \<in> candidate_dims n" and "pr_tolerance ro = Fin 0"
  shows "\<not> candidate_score m d - candidate_score n d < - pr_tolerance ro \<longleftrightarrow> candidate_score n d \<le> candidate_score m d"
  using score_value [OF v assms(3,5)] score_value [OF v assms(4,6)] assms(7) difference_negative_iff
  by (auto simp del: js_wf.simps)

lemma pareto_dominates_trans:
  assumes v: "valid_candidates ro ns" "grid_scores ns" and t: "pr_tolerance ro = Fin 0"
    and abc: "a \<in> set ns" "b \<in> set ns" "c \<in> set ns"
    and ab: "pareto_dominates ro a b" and bc: "pareto_dominates ro b c"
  shows "pareto_dominates ro a c"
proof -
  from ab bc have dims: "candidate_dims c \<subseteq> candidate_dims b" "candidate_dims b \<subseteq> candidate_dims a"
    by (auto simp: pareto_dominates_def)
  have le: "candidate_score c d \<le> candidate_score b d \<and> candidate_score b d \<le> candidate_score a d"
    if d: "d \<in> candidate_dims c" for d
    using ab bc d dims score_ge_iff [OF v abc(1,2) _ _ t, of d] score_ge_iff [OF v abc(2,3) _ _ t, of d]
    unfolding pareto_dominates_def by blast
  have "\<not> candidate_score a d - candidate_score c d < - pr_tolerance ro" if d: "d \<in> candidate_dims c" for d
    using le [OF d] d dims score_ge_iff [OF v abc(1,3) _ _ t, of d] by (blast intro: jsnum_le_trans)
  moreover obtain d where d: "d \<in> candidate_dims c" "pr_improvement ro \<le> candidate_score b d - candidate_score c d"
    using bc by (auto simp: pareto_dominates_def)
  obtain p q r where "candidate_score a d = Fin p" "candidate_score b d = Fin q" "candidate_score c d = Fin r"
    using score_value [OF v] abc d(1) dims by (meson subsetD)
  then have "candidate_score b d - candidate_score c d \<le> candidate_score a d - candidate_score c d"
    using le [OF d(1)] by (simp add: minus_jsnum_def rnd_mono)
  with d have "\<exists>d \<in> candidate_dims c. pr_improvement ro \<le> candidate_score a d - candidate_score c d"
    by (blast intro: jsnum_le_trans)
  ultimately show ?thesis using ab bc dims by (auto simp: pareto_dominates_def)
qed

lemma undominated_dominator:
  assumes v: "valid_candidates ro ns" "grid_scores ns" and t: "pr_tolerance ro = Fin 0"
  shows "n \<in> set ns \<Longrightarrow> m \<in> set ns \<Longrightarrow> pareto_dominates ro m n \<Longrightarrow>
    \<exists>f \<in> set ns. pareto_dominates ro f n \<and> \<not> (\<exists>k \<in> set ns. pareto_dominates ro k f)"
proof (induction "card {k \<in> set ns. pareto_dominates ro k n}" arbitrary: n m rule: less_induct)
  case less
  show ?case
  proof (cases "\<exists>k \<in> set ns. pareto_dominates ro k m")
    case True
    then obtain k where k: "k \<in> set ns" "pareto_dominates ro k m" by blast
    have "{k \<in> set ns. pareto_dominates ro k m} \<subset> {k \<in> set ns. pareto_dominates ro k n}"
      using pareto_dominates_trans [OF v t _ less.prems(2,1) _ less.prems(3)]
        pareto_dominates_asym [OF v(1) less.prems(2,2)] less.prems by blast
    then have "card {k \<in> set ns. pareto_dominates ro k m} < card {k \<in> set ns. pareto_dominates ro k n}"
      by (intro psubset_card_mono) auto
    from less.hyps [OF this less.prems(2) k] obtain f where
      f: "f \<in> set ns" "pareto_dominates ro f m" "\<not> (\<exists>k \<in> set ns. pareto_dominates ro k f)" by blast
    with pareto_dominates_trans [OF v t f(1) less.prems(2,1) f(2) less.prems(3)] show ?thesis by blast
  qed (use less.prems in blast)
qed

text \<open>C29. With a tolerance of zero, dominance is transitive and the frontier represents the whole search:
  every dominated candidate is dominated by a candidate that is itself on the frontier, so the
  frontier of a search with a comparable candidate is never empty.\<close>

theorem pareto_frontier_covers:
  assumes "evaluate_pareto_frontier cs opts = Inr r" and "po_non_worse_tolerance opts = Some (Fin 0)"
    and "double_scores cs" and "h \<in> set (dominated_ids r)"
  shows "\<exists>e \<in> set (pf_evaluations r). pe_hotel_id e \<in> set (frontier_ids r) \<and> h \<in> set (pe_dominates e)"
  using assms(1)
proof (rule evaluate_pareto_Inr)
  fix ro ns
  let ?cs = "js_sort by_hotel_id ns"
  assume ro: "resolve_options opts = Inr ro" and ns: "normalize_candidates ro cs = Inr ns"
    and v: "valid_candidates ro ?cs"
    and ev: "pf_evaluations r = map (evaluate_candidate ro (compare_all ro ?cs)) ?cs"
    and fr: "frontier_ids r = ids_with_status ParetoFrontier (pf_evaluations r)"
    and dm: "dominated_ids r = ids_with_status ParetoDominated (pf_evaluations r)"
  have t: "pr_tolerance ro = Fin 0"
    using ro assms(2) by (auto simp: resolve_options_def Let_def normalize_non_negative_number_def split: if_splits)
  have g: "grid_scores ?cs" using grid_scores_normalized [OF ro ns assms(3)] by (simp add: grid_scores_def)
  from assms(4) obtain n where n: "n \<in> set ?cs" "h = nc_hotel_id n"
      "pe_status (evaluate_candidate ro (compare_all ro ?cs) n) = ParetoDominated"
    by (auto simp: dm ids_with_status_def ev evaluate_candidate_fields)
  then obtain m where m: "m \<in> set ?cs" "pareto_dominates ro m n"
    by (auto simp: evaluate_candidate_status_valid [OF v] split: if_splits)
  from undominated_dominator [OF v g t n(1) m] obtain f where
    f: "f \<in> set ?cs" "pareto_dominates ro f n" "\<not> (\<exists>k \<in> set ?cs. pareto_dominates ro k f)" by blast
  let ?e = "evaluate_candidate ro (compare_all ro ?cs) f"
  have "candidate_dims n \<subseteq> candidate_dims f" "enough_dimensions ro n" "nc_eligible f"
    using f(2) by (auto simp: pareto_dominates_def)
  then have "enough_dimensions ro f"
    unfolding enough_dimensions_def
    by (elim jsnum_le_trans) (auto simp: candidate_dims_set intro!: card_mono)
  then have "pe_status ?e = ParetoFrontier"
    using f evaluate_candidate_status_valid [OF v f(1)] \<open>nc_eligible f\<close> by simp
  then have "pe_hotel_id ?e \<in> set (frontier_ids r)" using f(1) by (auto simp: fr ids_with_status_def ev)
  moreover have "h \<in> set (pe_dominates ?e)"
    using evaluation_dominates_iff(1) [OF v f(1) n(1)] f(2) n(2) by simp
  ultimately show ?thesis using f(1) by (auto simp: ev)
qed

section \<open>The properties on a concrete search\<close>

lemma spread_status:
  "dominated_ids spread_result = [''b''] \<and> frontier_ids spread_result = [''a'', ''c'']"
  unfolding spread_result_def by code_simp

theorem pareto_reports_agree_witness:
  "\<exists>e \<in> set (pf_evaluations spread_result). \<not> (pe_hotel_id e \<in> set (pe_dominates e))"
proof -
  have "pf_evaluations spread_result \<noteq> []" unfolding spread_result_def by code_simp
  then obtain e where e: "e \<in> set (pf_evaluations spread_result)" by (meson hd_in_set)
  from pareto_reports_agree [OF spread_result e e] e show ?thesis by blast
qed

theorem pareto_comparisons_exact_witness:
  "(\<lambda>c. (dominant_id c, dominated_id c)) ` set (pf_comparisons spread_result) =
    {(pe_hotel_id e, h) |e h. e \<in> set (pf_evaluations spread_result) \<and> h \<in> set (pe_dominates e)}"
  by (rule pareto_comparisons_exact [OF spread_result])

theorem pareto_order_independent_witness:
  "evaluate_pareto_frontier (rev spread_candidates) strict_pareto_options = Inr spread_result"
  by (rule pareto_order_independent [OF spread_result]) simp

theorem pareto_frontier_covers_witness:
  "\<exists>e \<in> set (pf_evaluations spread_result). pe_hotel_id e \<in> set (frontier_ids spread_result) \<and> ''b'' \<in> set (pe_dominates e)"
proof (rule pareto_frontier_covers [OF spread_result])
  show "po_non_worse_tolerance strict_pareto_options = Some (Fin 0)"
    by (simp add: strict_pareto_options_def)
  have "double 80" "double 60" "double 51" "double 70" "double 50" "double 40" "double 90" "double 20"
    using double_of_int [of 80] double_of_int [of 60] double_of_int [of 51] double_of_int [of 70]
      double_of_int [of 50] double_of_int [of 40] double_of_int [of 90] double_of_int [of 20] by simp_all
  then show "double_scores spread_candidates"
    by (simp add: double_scores_def spread_candidates_def sample_candidate_def sample_contribution_def)
  show "''b'' \<in> set (dominated_ids spread_result)" by (simp add: spread_status)
qed

end
