(* ===== verification/StableHash.thy ===== *)
theory StableHash
  imports FloatSums "HOL-Library.Word"
begin

text \<open>
  The stable hash of engine v3, \<open>src/src/engine-v3/contract/stableHashV3.ts\<close>: plain values are
  written as JSON text with the keys of every object in order, and the text is hashed with
  32-bit FNV-1a. A plain object is an association list of its properties.
\<close>

unbundle bit_operations_syntax

section \<open>Plain values and their JSON text\<close>

datatype json =
    JNull
  | JBool bool
  | JNumber jsnum
  | JString string
  | JArray "json list"
  | JObject "(string \<times> json) list"

subsection \<open>Numbers\<close>

text \<open>
  \<open>Number::toString\<close> for radix 10. Integers of magnitude at most \<open>2^53\<close> are written in full;
  other doubles with the least number of digits that rounds back to them.
\<close>

definition digit_char :: "int \<Rightarrow> char" where
  "digit_char d = (if d < 10 then char_of (48 + d) else char_of (87 + d))"

function digits :: "int \<Rightarrow> int \<Rightarrow> string" where
  "digits base n =
     (if base < 2 \<or> n < base then [digit_char n]
      else digits base (n div base) @ [digit_char (n mod base)])"
  by auto

termination
proof (relation "measure (\<lambda>(base, n). nat n)")
  fix base n :: int
  assume "\<not> (base < 2 \<or> n < base)"
  then have "n div base < n" "0 < n" by (auto intro: int_div_less_self)
  then show "((base, n div base), base, n) \<in> measure (\<lambda>(base, n). nat n)" by simp
qed simp

declare digits.simps [simp del]

definition int_string :: "int \<Rightarrow> string" where
  "int_string n = (if n < 0 then ''-'' @ digits 10 (- n) else digits 10 n)"

definition ten_powi :: "int \<Rightarrow> rat" where
  "ten_powi k = (if 0 \<le> k then 10 ^ nat k else 1 / 10 ^ nat (- k))"

text \<open>The decimal exponent of a positive number: the least \<open>n\<close> with \<open>q < 10^n\<close>, from a bound.\<close>

fun decimal_exponent :: "nat \<Rightarrow> int \<Rightarrow> rat \<Rightarrow> int" where
  "decimal_exponent 0 n q = n"
| "decimal_exponent (Suc fuel) n q = (if ten_powi (n - 1) \<le> q then n else decimal_exponent fuel (n - 1) q)"

text \<open>With \<open>k\<close> digits the candidates are the two neighbours of \<open>q * 10^(k - n)\<close>, the nearer first.\<close>

definition digits_with :: "rat \<Rightarrow> int \<Rightarrow> nat \<Rightarrow> (int \<times> int) option" where
  "digits_with q n k =
     (let scaled = q * ten_powi (int k - n);
          low = \<lfloor>scaled\<rfloor>;
          ok = (\<lambda>s. rnd (of_int s * ten_powi (n - int k)) = Fin q);
          norm = (\<lambda>s. if s = 10 ^ k then (10 ^ (k - 1), n + 1) else (s, n));
          near = (if scaled - of_int low \<le> 1/2 then low else low + 1);
          far = (if near = low then low + 1 else low)
      in if ok near then Some (norm near) else if ok far then Some (norm far) else None)"

fun shortest_digits :: "rat \<Rightarrow> int \<Rightarrow> nat \<Rightarrow> nat \<Rightarrow> (int \<times> int \<times> nat)" where
  "shortest_digits q n k 0 = (\<lfloor>q * ten_powi (17 - n)\<rfloor>, n, 17)"
| "shortest_digits q n k (Suc fuel) =
     (case digits_with q n k of
        Some (s, m) \<Rightarrow> (s, m, k)
      | None \<Rightarrow> shortest_digits q n (Suc k) fuel)"

definition positive_number_string :: "rat \<Rightarrow> string" where
  "positive_number_string q =
     (let (s, n, k) = shortest_digits q (decimal_exponent 650 310 q) 1 17;
          ds = digits 10 s;
          exponent = n - 1;
          exp_text = (if exponent < 0 then ''e-'' else ''e+'') @ digits 10 \<bar>exponent\<bar>
      in if int k \<le> n \<and> n \<le> 21 then ds @ replicate (nat n - k) (CHR ''0'')
         else if 0 < n \<and> n \<le> 21 then take (nat n) ds @ ''.'' @ drop (nat n) ds
         else if -6 < n \<and> n \<le> 0 then ''0.'' @ replicate (nat (- n)) (CHR ''0'') @ ds
         else if k = 1 then ds @ exp_text
         else take 1 ds @ ''.'' @ drop 1 ds @ exp_text)"

definition number_string :: "rat \<Rightarrow> string" where
  "number_string q =
     (if q = of_int \<lfloor>q\<rfloor> \<and> \<bar>\<lfloor>q\<rfloor>\<bar> \<le> 2 ^ 53 then int_string \<lfloor>q\<rfloor>
      else if q < 0 then ''-'' @ positive_number_string (- q)
      else positive_number_string q)"

subsection \<open>Strings\<close>

text \<open>\<open>JSON.stringify\<close> of a string: quotes, backslashes and control characters are escaped.\<close>

definition escape_char :: "char \<Rightarrow> string" where
  "escape_char c =
     (let n = of_char c :: nat
      in if c = CHR ''\"'' then [CHR 0x5C, CHR ''\"'']
         else if n = 92 then [CHR 0x5C, CHR 0x5C]
         else if n = 8 then [CHR 0x5C, CHR ''b'']
         else if n = 9 then [CHR 0x5C, CHR ''t'']
         else if n = 10 then [CHR 0x5C, CHR ''n'']
         else if n = 12 then [CHR 0x5C, CHR ''f'']
         else if n = 13 then [CHR 0x5C, CHR ''r'']
         else if n < 32 then [CHR 0x5C, CHR ''u'', CHR ''0'', CHR ''0'', digit_char (int n div 16), digit_char (int n mod 16)]
         else [c])"

definition string_json :: "string \<Rightarrow> string" where
  "string_json s = ''\"'' @ concat (map escape_char s) @ ''\"''"

subsection \<open>Values\<close>

fun join_with :: "string \<Rightarrow> string list \<Rightarrow> string" where
  "join_with sep [] = []"
| "join_with sep [x] = x"
| "join_with sep (x # y # ys) = x @ sep @ join_with sep (y # ys)"

fun sequence_option :: "'a option list \<Rightarrow> 'a list option" where
  "sequence_option [] = Some []"
| "sequence_option (x # xs) =
     (case x of None \<Rightarrow> None | Some y \<Rightarrow> map_option ((#) y) (sequence_option xs))"

definition by_key :: "string \<times> 'a \<Rightarrow> string \<times> 'a \<Rightarrow> jsnum" where
  "by_key first second = compare_strings (fst first) (fst second)"

text \<open>\<open>stableSerializeV3\<close>; \<open>None\<close> is the error for a number that is not finite.\<close>

fun stable_serialize :: "json \<Rightarrow> string option" where
  "stable_serialize JNull = Some ''null''"
| "stable_serialize (JBool b) = Some (if b then ''true'' else ''false'')"
| "stable_serialize (JNumber v) = (case v of Fin q \<Rightarrow> Some (number_string q) | _ \<Rightarrow> None)"
| "stable_serialize (JString s) = Some (string_json s)"
| "stable_serialize (JArray vs) =
     map_option (\<lambda>parts. ''['' @ join_with '','' parts @ '']'') (sequence_option (map stable_serialize vs))"
| "stable_serialize (JObject kvs) =
     map_option (\<lambda>parts. ''{'' @ join_with '','' parts @ ''}'')
       (sequence_option
          (map (\<lambda>(key, text). map_option (\<lambda>t. string_json key @ '':'' @ t) text)
             (js_sort by_key (map (map_prod id stable_serialize) kvs))))"

section \<open>FNV-1a\<close>

definition fnv_step :: "char \<Rightarrow> 32 word \<Rightarrow> 32 word" where
  "fnv_step c hash = (hash XOR of_nat (of_char c)) * 0x01000193"

definition fnv1a32 :: "string \<Rightarrow> 32 word" where
  "fnv1a32 value = fold fnv_step value 0x811c9dc5"

text \<open>\<open>hash.toString(16).padStart(8, "0")\<close>.\<close>

definition hex8 :: "32 word \<Rightarrow> string" where
  "hex8 w =
     (let text = digits 16 (uint w) in replicate (8 - length text) (CHR ''0'') @ text)"

definition stable_hash :: "json \<Rightarrow> string \<Rightarrow> string option" where
  "stable_hash value namespace =
     map_option (\<lambda>text. ''fnv1a32-'' @ hex8 (fnv1a32 (namespace @ [CHR 0x0A] @ text)))
       (stable_serialize value)"

definition hex_char :: "char \<Rightarrow> bool" where
  "hex_char c \<longleftrightarrow> c \<in> set ''0123456789abcdef''"

definition is_stable_hash :: "string \<Rightarrow> bool" where
  "is_stable_hash value \<longleftrightarrow>
     take 8 value = ''fnv1a32-'' \<and> length value = 16 \<and> list_all hex_char (drop 8 value)"

text \<open>\<open>Number.parseInt(text, 16)\<close> of a text of hexadecimal digits.\<close>

definition hex_value :: "char \<Rightarrow> int" where
  "hex_value c = (let n = of_char c :: int in if n < 58 then n - 48 else n - 87)"

definition parse_hex :: "string \<Rightarrow> int" where
  "parse_hex text = foldl (\<lambda>v c. 16 * v + hex_value c) 0 text"

section \<open>Digits\<close>

lemma digits_small: "n < base \<Longrightarrow> digits base n = [digit_char n]"
  by (simp add: digits.simps)

lemma digits_step: "2 \<le> base \<Longrightarrow> base \<le> n \<Longrightarrow> digits base n = digits base (n div base) @ [digit_char (n mod base)]"
  by (simp add: digits.simps [of base n])

lemma digits_length: "2 \<le> base \<Longrightarrow> n < base ^ Suc k \<Longrightarrow> length (digits base n) \<le> Suc k"
proof (induction k arbitrary: n)
  case (Suc k)
  show ?case
  proof (cases "n < base")
    case False
    have "base * (n div base) \<le> n" using Suc.prems by (simp add: mult_div_mod_eq [symmetric] minus_mod_eq_mult_div [symmetric])
    also have "n < base * base ^ Suc k" using Suc.prems by simp
    finally have "base * (n div base) < base * base ^ Suc k" .
    then have "n div base < base ^ Suc k"
    proof (rule contrapos_pp)
      assume "\<not> n div base < base ^ Suc k"
      then have "base * base ^ Suc k \<le> base * (n div base)" using Suc.prems(1) by (intro mult_left_mono) simp_all
      then show "\<not> base * (n div base) < base * base ^ Suc k" by simp
    qed
    with Suc.IH [of "n div base"] Suc.prems(1) False show ?thesis by (simp add: digits_step)
  qed (simp add: digits_small)
qed (simp add: digits_small)

lemma digit_cases:
  assumes "0 \<le> d" and "d < (16::int)"
  shows "hex_char (digit_char d) \<and> hex_value (digit_char d) = d"
proof -
  have "list_all (\<lambda>d. hex_char (digit_char d) \<and> hex_value (digit_char d) = d) [0, 1, 2, 3, 4, 5, 6, 7, 8, 9, 10, 11, 12, 13, 14, 15]"
    by code_simp
  moreover from assms have "d = 0 \<or> d = 1 \<or> d = 2 \<or> d = 3 \<or> d = 4 \<or> d = 5 \<or> d = 6 \<or> d = 7 \<or>
    d = 8 \<or> d = 9 \<or> d = 10 \<or> d = 11 \<or> d = 12 \<or> d = 13 \<or> d = 14 \<or> d = 15" by presburger
  ultimately show ?thesis unfolding list_all_iff by auto
qed

lemma digits_hex:
  assumes "0 \<le> n" and "2 \<le> base" and "base \<le> 16"
  shows "list_all hex_char (digits base n)"
  using assms
proof (induction base n rule: digits.induct)
  case (1 base n)
  show ?case
  proof (cases "n < base")
    case True
    with 1(2-4) digit_cases [of n] show ?thesis by (simp add: digits_small)
  next
    case False
    have m: "0 \<le> n mod base" "n mod base < 16"
      using 1(3,4) pos_mod_bound [of base n] pos_mod_sign [of base n] by linarith+
    have "0 \<le> n div base" using 1(2,3) by (simp add: pos_imp_zdiv_nonneg_iff)
    with 1(1,3,4) False have "list_all hex_char (digits base (n div base))" by simp
    moreover have "hex_char (digit_char (n mod base))" using digit_cases [OF m] by simp
    ultimately show ?thesis using 1(3) False by (simp add: digits_step)
  qed
qed

lemma foldl_hex_zeros: "foldl (\<lambda>v c. 16 * v + hex_value c) 0 (replicate k (CHR ''0'')) = 0"
  by (induction k) (simp_all add: hex_value_def)

lemma parse_hex_digits:
  assumes "0 \<le> n" and "n < 16 ^ Suc k"
  shows "foldl (\<lambda>v c. 16 * v + hex_value c) 0 (digits 16 n) = n"
  using assms
proof (induction k arbitrary: n)
  case 0
  then show ?case using digit_cases [of n] by (simp add: digits_small)
next
  case (Suc k)
  show ?case
  proof (cases "n < 16")
    case True
    with Suc.prems show ?thesis using digit_cases [of n] by (simp add: digits_small)
  next
    case False
    have "16 * (n div 16) \<le> n" by simp
    with Suc.prems have "n div 16 < 16 ^ Suc k" by simp
    with Suc.prems False have IH: "foldl (\<lambda>v c. 16 * v + hex_value c) 0 (digits 16 (n div 16)) = n div 16"
      by (intro Suc.IH) simp_all
    have "hex_value (digit_char (n mod 16)) = n mod 16" using digit_cases [of "n mod 16"] by simp
    then show ?thesis using False by (simp only: digits_step foldl_append IH foldl.simps) simp
  qed
qed

section \<open>The hash\<close>

lemma hex8_length: "length (hex8 w) = 8"
proof -
  have "uint w < 16 ^ Suc 7" using uint_lt2p [of w] by simp
  then have "length (digits 16 (uint w)) \<le> 8" using digits_length [of 16 "uint w" 7] by simp
  then show ?thesis by (simp add: hex8_def Let_def)
qed

lemma hex8_chars: "list_all hex_char (hex8 w)"
  using digits_hex [of "uint w" 16] by (simp add: hex8_def Let_def list_all_length hex_char_def nth_append)

lemma parse_hex8: "parse_hex (hex8 w) = uint w"
  using parse_hex_digits [of "uint w" 7] uint_lt2p [of w]
  by (simp add: parse_hex_def hex8_def Let_def foldl_hex_zeros)

lemma stable_hash_SomeD:
  assumes "stable_hash v ns = Some h"
  obtains t where "stable_serialize v = Some t"
    and "h = ''fnv1a32-'' @ hex8 (fnv1a32 (ns @ [CHR 0x0A] @ t))"
  using assms by (auto simp: stable_hash_def)

text \<open>Every stable hash has the format that \<open>isStableHashV3\<close> accepts, and its last eight
  characters read back as hexadecimal are the 32-bit FNV-1a value of the text.\<close>

theorem stable_hash_format:
  assumes "stable_hash v ns = Some h"
  shows "is_stable_hash h \<and>
    (\<exists>text. stable_serialize v = Some text \<and>
       parse_hex (drop (length h - 8) h) = uint (fnv1a32 (ns @ [CHR 0x0A] @ text)))"
  using assms
  by (elim stable_hash_SomeD) (auto simp: is_stable_hash_def hex8_length hex8_chars parse_hex8)

section \<open>The text determines the value\<close>

text \<open>
  The canonical form of a value has the keys of every object in order. For plain values -
  distinct keys, and integers that a double holds exactly as numbers - two values have the same
  text exactly when they have the same canonical form: the order of keys is the only thing the
  text does not record.
\<close>

fun canonical :: "json \<Rightarrow> json" where
  "canonical (JArray vs) = JArray (map canonical vs)"
| "canonical (JObject kvs) = JObject (js_sort by_key (map (map_prod id canonical) kvs))"
| "canonical v = v"

fun plain_json :: "json \<Rightarrow> bool" where
  "plain_json (JNumber v) = (case v of Fin q \<Rightarrow> q = of_int \<lfloor>q\<rfloor> \<and> \<bar>\<lfloor>q\<rfloor>\<bar> \<le> 2 ^ 53 | _ \<Rightarrow> False)"
| "plain_json (JArray vs) = list_all plain_json vs"
| "plain_json (JObject kvs) = (distinct (map fst kvs) \<and> list_all (\<lambda>(key, v). plain_json v) kvs)"
| "plain_json _ = True"

fun json_text :: "json \<Rightarrow> string" where
  "json_text JNull = ''null''"
| "json_text (JBool b) = (if b then ''true'' else ''false'')"
| "json_text (JNumber v) = (case v of Fin q \<Rightarrow> number_string q | _ \<Rightarrow> [])"
| "json_text (JString s) = string_json s"
| "json_text (JArray vs) = ''['' @ join_with '','' (map json_text vs) @ '']''"
| "json_text (JObject kvs) =
     ''{'' @ join_with '','' (map (\<lambda>(key, v). string_json key @ '':'' @ json_text v) kvs) @ ''}''"

lemma sequence_option_Some: "sequence_option (map (\<lambda>x. Some (f x)) xs) = Some (map f xs)"
  by (induction xs) simp_all

lemma js_insert_map: "(\<And>a b. cmp' (f a) (f b) = cmp a b) \<Longrightarrow> js_insert cmp' (f x) (map f xs) = map f (js_insert cmp x xs)"
  by (induction xs) simp_all

lemma js_sort_map: "(\<And>a b. cmp' (f a) (f b) = cmp a b) \<Longrightarrow> js_sort cmp' (map f xs) = map f (js_sort cmp xs)"
  by (induction xs) (simp_all add: js_insert_map)

lemma stable_serialize_text: "plain_json v \<Longrightarrow> stable_serialize v = Some (json_text (canonical v))"
proof (induction v)
  case (JNumber x)
  then show ?case by (cases x) simp_all
next
  case (JArray vs)
  then have "map stable_serialize vs = map (\<lambda>v. Some (json_text (canonical v))) vs"
    by (simp add: list_all_iff)
  then show ?case by (simp add: sequence_option_Some comp_def del: map_eq_conv)
next
  case (JObject kvs)
  let ?f = "\<lambda>(key, v). (key, Some (json_text v))"
  have "map (map_prod id stable_serialize) kvs = map (\<lambda>p. ?f (map_prod id canonical p)) kvs"
    using JObject by (intro map_cong refl) (auto simp: list_all_iff intro: snds.intros)
  then have "map (map_prod id stable_serialize) kvs = map ?f (map (map_prod id canonical) kvs)"
    by (simp only: map_map comp_def)
  moreover have "js_sort by_key (map ?f xs) = map ?f (js_sort by_key xs)" for xs
    by (rule js_sort_map) (simp add: by_key_def split_beta)
  ultimately have "js_sort by_key (map (map_prod id stable_serialize) kvs) =
      map ?f (js_sort by_key (map (map_prod id canonical) kvs))" by (simp only:)
  then show ?case
    by (simp add: comp_def case_prod_beta' sequence_option_Some)
qed simp_all

subsection \<open>Strings decode uniquely\<close>

lemma escape_char_shape:
  "(\<exists>a. escape_char c = [a] \<and> a = c \<and> a \<noteq> CHR 0x5C \<and> a \<noteq> CHR ''\"'') \<or>
   (\<exists>a. escape_char c = [CHR 0x5C, a] \<and> a \<noteq> CHR ''u'') \<or>
   (\<exists>xs. escape_char c = CHR 0x5C # CHR ''u'' # xs \<and> length xs = 4)"
  by (auto simp: escape_char_def Let_def)

definition unescape :: "string \<Rightarrow> char" where
  "unescape e =
     (if length e = 1 then e ! 0
      else if length e = 6 then char_of (16 * hex_value (e ! 4) + hex_value (e ! 5))
      else if e ! 1 = CHR ''b'' then CHR 0x08 else if e ! 1 = CHR ''t'' then CHR 0x09
      else if e ! 1 = CHR ''n'' then CHR 0x0A else if e ! 1 = CHR ''f'' then CHR 0x0C
      else if e ! 1 = CHR ''r'' then CHR 0x0D else e ! 1)"

lemma char_of_controls:
  "char_of (8 :: nat) = CHR 0x08" "char_of (9 :: nat) = CHR 0x09" "char_of (10 :: nat) = CHR 0x0A"
  "char_of (12 :: nat) = CHR 0x0C" "char_of (13 :: nat) = CHR 0x0D" "char_of (92 :: nat) = CHR 0x5C"
  by code_simp+

lemma char_eqI: "of_char c = (n :: nat) \<Longrightarrow> c = char_of n"
  by (metis char_of_char)

lemma unescape_escape: "unescape (escape_char c) = c"
proof -
  define n where "n = (of_char c :: nat)"
  have named: "n = k \<Longrightarrow> c = char_of k" for k unfolding n_def by (rule char_eqI)
  have hex: "char_of (16 * hex_value (digit_char (int n div 16)) + hex_value (digit_char (int n mod 16))) = c" if "n < 32"
  proof -
    from that have "int n div 16 < 16" "0 \<le> int n div 16" by auto
    then have "16 * hex_value (digit_char (int n div 16)) + hex_value (digit_char (int n mod 16)) = int n"
      using digit_cases [of "int n div 16"] digit_cases [of "int n mod 16"] by simp
    then show ?thesis by (simp add: n_def)
  qed
  have closed: "list_all (\<lambda>c. unescape (escape_char c) = c)
      [CHR ''\"'', CHR 0x5C, CHR 0x08, CHR 0x09, CHR 0x0A, CHR 0x0C, CHR 0x0D]" by code_simp
  show ?thesis
  proof (cases "c = CHR ''\"'' \<or> n = 92 \<or> n = 8 \<or> n = 9 \<or> n = 10 \<or> n = 12 \<or> n = 13")
    case True
    then have "c \<in> set [CHR ''\"'', CHR 0x5C, CHR 0x08, CHR 0x09, CHR 0x0A, CHR 0x0C, CHR 0x0D]"
      using named char_of_controls unfolding list.set by (elim disjE) (simp_all only: insert_iff simp_thms)
    with closed show ?thesis unfolding list_all_iff by blast
  next
    case False
    then have "escape_char c =
        (if n < 32 then [CHR 0x5C, CHR ''u'', CHR ''0'', CHR ''0'', digit_char (int n div 16), digit_char (int n mod 16)] else [c])"
      unfolding escape_char_def Let_def n_def [symmetric] by (simp only: de_Morgan_disj if_False simp_thms)
    then show ?thesis using hex by (cases "n < 32") (simp_all add: unescape_def)
  qed
qed

lemma escape_char_length:
  "length (escape_char c) =
     (if hd (escape_char c @ x) \<noteq> CHR 0x5C then 1 else if (escape_char c @ x) ! 1 = CHR ''u'' then 6 else 2)"
  using escape_char_shape [of c]
proof (elim disjE exE conjE)
  fix xs assume "escape_char c = CHR 0x5C # CHR ''u'' # xs" "length xs = 4"
  then show ?thesis by simp
qed simp_all

lemma escape_char_prefix:
  assumes "escape_char c @ x = escape_char d @ y"
  shows "c = d \<and> x = y"
proof -
  have "length (escape_char c) = length (escape_char d)"
    unfolding escape_char_length [of c x] escape_char_length [of d y] assms ..
  with assms have e: "escape_char c = escape_char d" and x: "x = y" by simp_all
  have "c = unescape (escape_char c)" by (simp only: unescape_escape)
  also have "\<dots> = d" by (simp only: e unescape_escape)
  finally show ?thesis using x by simp
qed

lemma escape_char_not_quote: "escape_char c @ x \<noteq> CHR ''\"'' # y"
  using escape_char_shape [of c] by auto

lemma escaped_prefix:
  "concat (map escape_char s) @ CHR ''\"'' # x = concat (map escape_char t) @ CHR ''\"'' # y \<Longrightarrow> s = t \<and> x = y"
proof (induction s arbitrary: t)
  case Nil
  then show ?case by (cases t) (auto dest: sym simp: escape_char_not_quote [symmetric])
next
  case (Cons c s)
  show ?case
  proof (cases t)
    case Nil
    with Cons.prems show ?thesis using escape_char_not_quote [of c] by auto
  next
    case (Cons d t')
    with Cons.prems have "escape_char c @ (concat (map escape_char s) @ CHR ''\"'' # x) =
        escape_char d @ (concat (map escape_char t') @ CHR ''\"'' # y)" by simp
    from escape_char_prefix [OF this] Cons.IH [of t'] Cons show ?thesis by simp
  qed
qed

lemma string_json_prefix: "string_json s @ x = string_json t @ y \<Longrightarrow> s = t \<and> x = y"
  using escaped_prefix [of s x t y] by (simp add: string_json_def)

subsection \<open>Integers decode uniquely\<close>

definition number_char :: "char \<Rightarrow> bool" where
  "number_char c \<longleftrightarrow> c \<in> set ''-0123456789''"

lemma digit_char_number:
  assumes "0 \<le> k" and "k < 10"
  shows "number_char (digit_char k) \<and> digit_char k \<noteq> CHR ''-''"
proof -
  have "list_all (\<lambda>k. number_char (digit_char k) \<and> digit_char k \<noteq> CHR ''-'') [0, 1, 2, 3, 4, 5, 6, 7, 8, 9]" by code_simp
  moreover from assms have "k = 0 \<or> k = 1 \<or> k = 2 \<or> k = 3 \<or> k = 4 \<or> k = 5 \<or> k = 6 \<or> k = 7 \<or> k = 8 \<or> k = 9" by presburger
  then have "k \<in> set [0, 1, 2, 3, 4, 5, 6, 7, 8, 9]" unfolding list.set by (elim disjE) (simp_all only: insert_iff simp_thms)
  ultimately show ?thesis unfolding list_all_iff by blast
qed

lemma digits_decimal:
  assumes "0 \<le> n"
  shows "digits 10 n \<noteq> [] \<and> (\<forall>c \<in> set (digits 10 n). number_char c \<and> c \<noteq> CHR ''-'') \<and>
    foldl (\<lambda>v c. 10 * v + hex_value c) 0 (digits 10 n) = n"
  using assms
proof (induction "nat n" arbitrary: n rule: less_induct)
  case less
  show ?case
  proof (cases "n < 10")
    case True
    with less.prems digit_char_number [of n] digit_cases [of n] show ?thesis by (simp add: digits_small)
  next
    case False
    then have "nat (n div 10) < nat n" "0 \<le> n div 10" by simp_all
    note IH = less.hyps [OF this]
    have v: "hex_value (digit_char (n mod 10)) = n mod 10" using digit_cases [of "n mod 10"] by simp
    have "digits 10 n = digits 10 (n div 10) @ [digit_char (n mod 10)]" using False by (simp add: digits_step)
    with IH digit_char_number [of "n mod 10"] v show ?thesis by (simp add: ball_Un)
  qed
qed

lemma int_string_chars: "int_string n \<noteq> [] \<and> (\<forall>c \<in> set (int_string n). number_char c)"
proof -
  have "number_char CHR ''-''" by (simp add: number_char_def)
  then show ?thesis using digits_decimal [of n] digits_decimal [of "- n"] by (simp add: int_string_def)
qed

lemma int_string_inj: "int_string n = int_string m \<Longrightarrow> n = m"
proof -
  have pos: "n = m" if "0 \<le> n" "0 \<le> m" and eq: "digits 10 n = digits 10 m" for n m
  proof -
    have "n = foldl (\<lambda>v c. 10 * v + hex_value c) 0 (digits 10 n)" using digits_decimal [OF that(1)] by (simp only:)
    also have "\<dots> = m" unfolding eq using digits_decimal [OF that(2)] by (simp only:)
    finally show ?thesis .
  qed
  have sign: "digits 10 n \<noteq> CHR ''-'' # xs" if "0 \<le> n" for n xs
    using digits_decimal [OF that] by (cases "digits 10 n") auto
  assume eq: "int_string n = int_string m"
  show "n = m"
  proof (cases "n < 0"; cases "m < 0")
    assume "n < 0" "m < 0"
    with eq pos [of "- n" "- m"] show ?thesis by (simp add: int_string_def)
  next
    assume "n < 0" "\<not> m < 0"
    with eq sign [of m] show ?thesis by (auto simp: int_string_def dest: sym)
  next
    assume "\<not> n < 0" "m < 0"
    with eq sign [of n] show ?thesis by (auto simp: int_string_def)
  next
    assume "\<not> n < 0" "\<not> m < 0"
    with eq pos [of n m] show ?thesis by (simp add: int_string_def)
  qed
qed

subsection \<open>Values decode uniquely\<close>

definition closing :: "string \<Rightarrow> bool" where
  "closing r \<longleftrightarrow> r = [] \<or> hd r \<in> {CHR '','', CHR '']'', CHR ''}''}"

lemma int_string_prefix:
  assumes "int_string n @ r = int_string m @ r'" and "closing r" and "closing r'"
  shows "n = m \<and> r = r'"
proof -
  have stop: "takeWhile number_char r = []" if "closing r" for r
    using that by (cases r) (auto simp: closing_def number_char_def)
  have take: "takeWhile number_char (int_string k @ r) = int_string k" if "closing r" for k r
    using stop [OF that] int_string_chars [of k] by (simp add: takeWhile_append2)
  have "int_string n = int_string m" using take [OF assms(2), of n] take [OF assms(3), of m] assms(1) by simp
  with assms(1) int_string_inj show ?thesis by simp
qed

definition decodes :: "('a \<Rightarrow> string) \<Rightarrow> 'a \<Rightarrow> 'a set \<Rightarrow> bool" where
  "decodes f x A \<longleftrightarrow> (\<forall>y \<in> A. \<forall>r r'. closing r \<longrightarrow> closing r' \<longrightarrow> f x @ r = f y @ r' \<longrightarrow> x = y \<and> r = r')"

lemma decodesD: "decodes f x A \<Longrightarrow> y \<in> A \<Longrightarrow> f x @ r = f y @ r' \<Longrightarrow> closing r \<Longrightarrow> closing r' \<Longrightarrow> x = y \<and> r = r'"
  unfolding decodes_def by blast

lemma join_with_Cons: "join_with sep (x # xs) = x @ concat (map (\<lambda>y. sep @ y) xs)"
  by (induction xs arbitrary: x) simp_all

lemma tails_decode:
  assumes "\<forall>v \<in> set vs. decodes f v A" and "set ws \<subseteq> A" and c: "c = CHR '']'' \<or> c = CHR ''}''"
    and eq: "concat (map (\<lambda>v. CHR '','' # f v) vs) @ c # r = concat (map (\<lambda>v. CHR '','' # f v) ws) @ c # r'"
  shows "vs = ws \<and> r = r'"
  using assms(1,2) eq
proof (induction vs arbitrary: ws)
  case Nil
  then show ?case using c by (cases ws) auto
next
  case (Cons v vs)
  show ?case
  proof (cases ws)
    case Nil
    with Cons.prems c show ?thesis by auto
  next
    case ws: (Cons w ws')
    let ?r = "concat (map (\<lambda>v. CHR '','' # f v) vs) @ c # r" and ?r' = "concat (map (\<lambda>v. CHR '','' # f v) ws') @ c # r'"
    have cl: "closing (concat (map (\<lambda>v. CHR '','' # f v) us) @ c # s)" for us s
      using c by (cases us) (auto simp: closing_def)
    have "f v @ ?r = f w @ ?r'" using Cons.prems(3) ws by simp
    moreover have "decodes f v A" "w \<in> A" using Cons.prems(1,2) ws by simp_all
    ultimately have "v = w" "?r = ?r'" using decodesD [of f v A w ?r ?r'] cl by blast+
    moreover from Cons.IH [of ws'] this Cons.prems(1,2) ws have "vs = ws' \<and> r = r'" by simp
    ultimately show ?thesis using ws by simp
  qed
qed

lemma lists_decode:
  assumes "\<forall>v \<in> set vs. decodes f v A" and "set ws \<subseteq> A" and c: "c = CHR '']'' \<or> c = CHR ''}''"
    and start: "\<And>v. v \<in> A \<union> set vs \<Longrightarrow> f v \<noteq> [] \<and> hd (f v) \<notin> {CHR '']'', CHR ''}''}"
    and eq: "join_with '','' (map f vs) @ c # r = join_with '','' (map f ws) @ c # r'"
  shows "vs = ws \<and> r = r'"
proof (cases vs; cases ws)
  fix v vs' w ws' assume vs: "vs = v # vs'" and ws: "ws = w # ws'"
  let ?t = "\<lambda>us s. concat (map (\<lambda>v. CHR '','' # f v) us) @ c # s"
  have cl: "closing (?t us s)" for us s using c by (cases us) (auto simp: closing_def)
  have "f v @ ?t vs' r = f w @ ?t ws' r'" using eq by (simp add: vs ws join_with_Cons comp_def)
  moreover have "decodes f v A" "w \<in> A" using assms(1,2) by (simp_all add: vs ws)
  ultimately have "v = w" "?t vs' r = ?t ws' r'" using decodesD [of f v A w] cl by blast+
  moreover from tails_decode [OF _ _ c this(2), of A] assms(1,2) have "vs' = ws' \<and> r = r'" by (simp add: vs ws)
  ultimately show ?thesis by (simp add: vs ws)
next
  fix w ws' assume vs: "vs = []" and ws: "ws = w # ws'"
  have "f w \<noteq> [] \<and> hd (f w) \<noteq> c" using start [of w] c assms(2) ws by auto
  with eq show ?thesis by (cases "f w") (simp_all add: vs ws join_with_Cons)
next
  fix v vs' assume vs: "vs = v # vs'" and ws: "ws = []"
  have "f v \<noteq> [] \<and> hd (f v) \<noteq> c" using start [of v] c vs by auto
  with eq show ?thesis by (cases "f v") (simp_all add: vs ws join_with_Cons)
qed (use eq in simp)

lemma plain_number:
  assumes "plain_json (JNumber v)"
  obtains n where "v = Fin (of_int n)" and "json_text (JNumber v) = int_string n"
  using assms by (cases v) (auto simp: number_string_def)

fun json_kind :: "json \<Rightarrow> nat" where
  "json_kind JNull = 0" | "json_kind (JBool b) = (if b then 1 else 2)" | "json_kind (JNumber _) = 3"
| "json_kind (JString _) = 4" | "json_kind (JArray _) = 5" | "json_kind (JObject _) = 6"

definition char_kind :: "char \<Rightarrow> nat" where
  "char_kind c =
     (if c = CHR ''n'' then 0 else if c = CHR ''t'' then 1 else if c = CHR ''f'' then 2
      else if c = CHR ''\"'' then 4 else if c = CHR ''['' then 5 else if c = CHR ''{'' then 6 else 3)"

lemma number_char_kind: "number_char c \<Longrightarrow> char_kind c = 3 \<and> c \<notin> {CHR '']'', CHR ''}''}"
proof -
  have "list_all (\<lambda>c. char_kind c = 3 \<and> c \<noteq> CHR '']'' \<and> c \<noteq> CHR ''}'') ''-0123456789''" by code_simp
  then show "number_char c \<Longrightarrow> ?thesis" unfolding list_all_iff number_char_def by blast
qed

lemma json_text_start:
  "plain_json v \<Longrightarrow> json_text v \<noteq> [] \<and> hd (json_text v) \<notin> {CHR '']'', CHR ''}''} \<and> char_kind (hd (json_text v)) = json_kind v"
proof (cases v)
  case (JNumber x)
  assume "plain_json v"
  with JNumber obtain n where n: "json_text v = int_string n" using plain_number by metis
  then have "number_char (hd (json_text v))" "json_text v \<noteq> []" using int_string_chars [of n] by simp_all
  with number_char_kind JNumber show ?thesis by simp
qed (simp_all add: string_json_def char_kind_def)

lemma json_text_kind:
  assumes "plain_json v" and "plain_json w" and "json_text v @ r = json_text w @ r'"
  shows "json_kind v = json_kind w"
proof -
  have "hd (json_text v) = hd (json_text w)"
    using json_text_start [OF assms(1)] json_text_start [OF assms(2)] assms(3) by (metis hd_append2)
  then show ?thesis using json_text_start [OF assms(1)] json_text_start [OF assms(2)] by simp
qed

lemma entry_decodes:
  assumes "decodes json_text v A"
  shows "decodes (\<lambda>(key, v). string_json key @ '':'' @ json_text v) (key, v) (UNIV \<times> A)"
  unfolding decodes_def
proof (intro ballI allI impI, clarsimp)
  fix key' w r r'
  assume "w \<in> A" "closing r" "closing r'" and eq: "string_json key @ CHR '':'' # json_text v @ r = string_json key' @ CHR '':'' # json_text w @ r'"
  then have "key = key'" "json_text v @ r = json_text w @ r'" using string_json_prefix [OF eq] by simp_all
  with decodesD [OF assms \<open>w \<in> A\<close>] \<open>closing r\<close> \<open>closing r'\<close> show "key = key' \<and> v = w \<and> r = r'" by blast
qed

lemma json_text_decodes: "plain_json v \<Longrightarrow> decodes json_text v {w. plain_json w}"
proof (induction v)
  case (JNumber x)
  then obtain n where n: "x = Fin (of_int n)" "json_text (JNumber x) = int_string n" by (rule plain_number)
  show ?case
    unfolding decodes_def
  proof (intro ballI allI impI)
    fix w r r' assume a: "w \<in> {w. plain_json w}" "closing r" "closing r'" "json_text (JNumber x) @ r = json_text w @ r'"
    with json_text_kind [OF JNumber, of w] obtain y where w: "w = JNumber y" by (cases w) (auto split: if_splits)
    with a(1) have "plain_json (JNumber y)" by simp
    then obtain m where m: "y = Fin (of_int m)" "json_text (JNumber y) = int_string m" by (rule plain_number)
    from a(4) have "int_string n @ r = int_string m @ r'" by (simp only: w n(2) m(2))
    from int_string_prefix [OF this a(2,3)] show "JNumber x = w \<and> r = r'" by (simp add: n m w)
  qed
next
  case (JString s)
  show ?case
    unfolding decodes_def
  proof (intro ballI allI impI)
    fix w r r' assume a: "w \<in> {w. plain_json w}" "json_text (JString s) @ r = json_text w @ r'"
    with json_text_kind [OF JString, of w] obtain t where w: "w = JString t" by (cases w) (auto split: if_splits)
    with a(2) string_json_prefix [of s r t r'] show "JString s = w \<and> r = r'" by simp
  qed
next
  case (JArray vs)
  show ?case
    unfolding decodes_def
  proof (intro ballI allI impI)
    fix w r r' assume a: "w \<in> {w. plain_json w}" "json_text (JArray vs) @ r = json_text w @ r'"
    with json_text_kind [OF JArray.prems, of w] obtain ws where w: "w = JArray ws" by (cases w) (auto split: if_splits)
    from JArray have dec: "\<forall>v \<in> set vs. decodes json_text v {w. plain_json w}" by (simp add: list_all_iff)
    have sub: "set ws \<subseteq> {w. plain_json w}" using a(1) w by (auto simp: list_all_iff)
    from a(2) have "join_with '','' (map json_text vs) @ CHR '']'' # r = join_with '','' (map json_text ws) @ CHR '']'' # r'"
      by (simp add: w)
    then have "vs = ws \<and> r = r'"
      by (intro lists_decode [OF dec sub]) (use json_text_start JArray.prems in \<open>auto simp: list_all_iff\<close>)
    then show "JArray vs = w \<and> r = r'" by (simp add: w)
  qed
next
  case (JObject kvs)
  let ?f = "\<lambda>(key, v). string_json key @ '':'' @ json_text v"
  show ?case
    unfolding decodes_def
  proof (intro ballI allI impI)
    fix w r r' assume a: "w \<in> {w. plain_json w}" "json_text (JObject kvs) @ r = json_text w @ r'"
    with json_text_kind [OF JObject.prems, of w] obtain ws where w: "w = JObject ws" by (cases w) (auto split: if_splits)
    have dec: "\<forall>p \<in> set kvs. decodes ?f p (UNIV \<times> {w. plain_json w})"
    proof
      fix p assume p: "p \<in> set kvs"
      obtain key v where kv: "p = (key, v)" by fastforce
      have "plain_json v" using JObject.prems p kv by (auto simp: list_all_iff)
      then have "decodes json_text v {w. plain_json w}" using JObject.IH [OF p] kv by (simp add: snds.simps)
      then show "decodes ?f p (UNIV \<times> {w. plain_json w})" unfolding kv by (rule entry_decodes)
    qed
    have sub: "set ws \<subseteq> UNIV \<times> {w. plain_json w}" using a(1) w by (auto simp: list_all_iff)
    from a(2) have "join_with '','' (map ?f kvs) @ CHR ''}'' # r = join_with '','' (map ?f ws) @ CHR ''}'' # r'"
      by (simp add: w)
    then have "kvs = ws \<and> r = r'"
      by (intro lists_decode [OF dec sub]) (auto simp: string_json_def)
    then show "JObject kvs = w \<and> r = r'" by (simp add: w)
  qed
next
  case JNull
  show ?case
    unfolding decodes_def
  proof (intro ballI allI impI)
    fix w r r' assume a: "w \<in> {w. plain_json w}" "json_text JNull @ r = json_text w @ r'"
    with json_text_kind [OF JNull, of w] have "w = JNull" by (cases w) (auto split: if_splits)
    with a(2) show "JNull = w \<and> r = r'" by simp
  qed
next
  case (JBool b)
  show ?case
    unfolding decodes_def
  proof (intro ballI allI impI)
    fix w r r' assume a: "w \<in> {w. plain_json w}" "json_text (JBool b) @ r = json_text w @ r'"
    with json_text_kind [OF JBool, of w] have "w = JBool b" by (cases w) (auto split: if_splits)
    with a(2) show "JBool b = w \<and> r = r'" by simp
  qed
qed

lemma plain_canonical: "plain_json v \<Longrightarrow> plain_json (canonical v)"
proof (induction v)
  case (JObject kvs)
  let ?kvs = "map (map_prod id canonical) kvs"
  have "mset (map fst (js_sort by_key ?kvs)) = mset (map fst ?kvs)" by (simp only: mset_map mset_js_sort)
  moreover have "map fst ?kvs = map fst kvs" by simp
  ultimately have "mset (map fst (js_sort by_key ?kvs)) = mset (map fst kvs)" by (simp only:)
  then have "distinct (map fst (js_sort by_key ?kvs))"
    using JObject.prems by (metis mset_eq_imp_distinct_iff plain_json.simps(3))
  then show ?case using JObject by (fastforce simp: list_all_iff intro: snds.intros)
qed (simp_all add: list_all_iff)

text \<open>C35. The serialisation loses nothing but the order of keys: two plain values have the same text, and
  hence the same hash input, exactly when they agree up to the order of the keys of their
  objects.\<close>

theorem stable_serialize_injective:
  assumes "plain_json v" and "plain_json w"
  shows "stable_serialize v = stable_serialize w \<longleftrightarrow> canonical v = canonical w"
proof
  assume "stable_serialize v = stable_serialize w"
  then have "json_text (canonical v) @ [] = json_text (canonical w) @ []"
    using assms by (simp add: stable_serialize_text)
  with decodesD [OF json_text_decodes [OF plain_canonical [OF assms(1)]], of "canonical w" "[]" "[]"] plain_canonical [OF assms(2)]
  show "canonical v = canonical w" by (simp add: closing_def)
qed (use assms in \<open>simp add: stable_serialize_text\<close>)

lemma stable_serialize_injective_witness:
  "stable_serialize (JObject [(''b'', JNumber (Fin 1)), (''a'', JArray [JNull, JString ''x''])]) =
   stable_serialize (JObject [(''a'', JArray [JNull, JString ''x'']), (''b'', JNumber (Fin 1))])"
  by (subst stable_serialize_injective) (simp_all add: by_key_def compare_strings_def)

lemma stable_hash_format_witness: "\<exists>h. stable_hash (JArray [JNull]) ''ns'' = Some h \<and> is_stable_hash h"
proof -
  obtain h where "stable_hash (JArray [JNull]) ''ns'' = Some h" by (simp add: stable_hash_def)
  then show ?thesis using stable_hash_format by blast
qed

end
