(* ===== verification/ShadowComparison.thy ===== *)
theory ShadowComparison
  imports StableHash
begin

text \<open>
  Shadow comparisons of the decisions of engine v2 and engine v3, the first half of
  \<open>src/src/engine-v3/promotion/shadowCanaryPromotionV3.ts\<close>: the records of a shadow run, their
  validation, and the dashboard that aggregates them. Values are of the declared types, so the
  checks for unexpected fields and for values outside a union always pass; fields of a literal
  type (\<open>internalOnly: true\<close>) are left out of the records and appear in the JSON form that is
  hashed.
\<close>

section \<open>Types\<close>

datatype serving_engine = EngineV2 | EngineV3

datatype decision_status = Recommended | Abstained | NoFeasibleSolution

datatype decision_role = ChooseBest | ChooseSensibleSaving | ChooseComfortUpgrade | ChooseSplitSaver

datatype eval_profile = MaximumComfort | ComfortProfile | BalancedProfile | SavingsProfile | MaximumSavings
datatype eval_destination = Urban | Resort | Rural | Airport | MixedDestination
datatype eval_lead_time = SameWeek | ShortLead | MediumLead | LongLead | VeryLongLead
datatype eval_duration = OneNight | ShortStay | MediumStay | LongStay | ExtendedStay
datatype eval_coverage = HighCoverage | MediumCoverage | LowCoverage | UnknownCoverage

record segment =
  seg_profile :: eval_profile
  seg_destination :: eval_destination
  seg_lead_time :: eval_lead_time
  seg_duration :: eval_duration
  seg_coverage :: eval_coverage

record shadow_decision =
  sd_engine :: serving_engine
  sd_engine_version :: string
  sd_policy_version :: string
  sd_fingerprint :: string
  sd_status :: decision_status
  sd_selected :: "string option"
  sd_role :: "decision_role option"
  sd_reasons :: "string list"

datatype check_result = CheckPass | CheckFail
datatype price_check = PricePass | PriceFail | PriceUnknown
datatype rate_check = RatesVerified | RatesNotApplicable | RatesFailed | RatesUnverified

record safety_signals =
  price_integrity :: price_check
  public_rate_consistency :: rate_check
  commercial_firewall :: check_result
  privacy_firewall :: check_result
  deterministic_replay :: check_result
  hard_constraints :: check_result
  recommendation_safety :: check_result

datatype critical_regression =
    CommercialInfluence | HardConstraintViolation | NonDeterministicDecision | PiiInTrace
  | PriceIntegrity | PrivacyViolation | PublicRateIntegrity | UnsafeRecommendation

datatype diff_kind = DiffNone | DiffReasonsOnly | DiffRole | DiffSelection | DiffStatus | DiffAbstention

record reason_diff =
  rd_common :: "string list"
  rd_added :: "string list"
  rd_missing :: "string list"

record decision_diff =
  diff_kind_of :: diff_kind
  status_agreement :: bool
  selection_agreement :: bool
  role_agreement :: bool
  exact_reason_agreement :: bool
  diff_reasons :: reason_diff

record shadow_comparison =
  sc_id :: string
  sc_segment :: segment
  sc_v2 :: shadow_decision
  sc_v3 :: shadow_decision
  sc_safety :: safety_signals
  sc_diff :: decision_diff
  sc_regressions :: "critical_regression list"
  sc_fingerprint :: string

record shadow_failure =
  sf_id :: string
  sf_segment :: segment
  sf_fingerprint :: string

datatype shadow_observation = Comparison shadow_comparison | Failure shadow_failure

datatype shadow_issue = InvalidShape | FingerprintMismatch | DerivedDiffMismatch | CriticalRegressionMismatch

datatype promotion_error =
    InvalidToken string
  | InvalidVersion string
  | InvalidReasonCodes
  | WrongEngine
  | MissingDecisionFingerprint
  | MissingRole
  | UnexpectedSelection
  | ForbiddenFields
  | InvalidObservations
  | DuplicateObservationIds
  | InvalidEvidenceLinkage string
  | InvalidCanaryValues
  | InvalidCanaryLinkage
  | InvalidReview
  | InvalidTelemetry
  | InvalidAuthorization
  | InvalidKillSwitch
  | AllocationExceedsLimit
  | NonFiniteNumber
  | RunFailed

section \<open>JSON forms\<close>

fun engine_text :: "serving_engine \<Rightarrow> string" where
  "engine_text EngineV2 = ''v2''" | "engine_text EngineV3 = ''v3''"

fun decision_status_text :: "decision_status \<Rightarrow> string" where
  "decision_status_text Recommended = ''recommended''"
| "decision_status_text Abstained = ''abstained''"
| "decision_status_text NoFeasibleSolution = ''no-feasible-solution''"

fun decision_role_text :: "decision_role \<Rightarrow> string" where
  "decision_role_text ChooseBest = ''best-choice''"
| "decision_role_text ChooseSensibleSaving = ''best-sensible-saving''"
| "decision_role_text ChooseComfortUpgrade = ''worthwhile-comfort-upgrade''"
| "decision_role_text ChooseSplitSaver = ''split-saver''"

fun profile_text :: "eval_profile \<Rightarrow> string" where
  "profile_text MaximumComfort = ''maximum-comfort''"
| "profile_text ComfortProfile = ''comfort''"
| "profile_text BalancedProfile = ''balanced''"
| "profile_text SavingsProfile = ''savings''"
| "profile_text MaximumSavings = ''maximum-savings''"

fun destination_text :: "eval_destination \<Rightarrow> string" where
  "destination_text Urban = ''urban''"
| "destination_text Resort = ''resort''"
| "destination_text Rural = ''rural''"
| "destination_text Airport = ''airport''"
| "destination_text MixedDestination = ''mixed''"

fun lead_time_text :: "eval_lead_time \<Rightarrow> string" where
  "lead_time_text SameWeek = ''same-week''"
| "lead_time_text ShortLead = ''short''"
| "lead_time_text MediumLead = ''medium''"
| "lead_time_text LongLead = ''long''"
| "lead_time_text VeryLongLead = ''very-long''"

fun duration_text :: "eval_duration \<Rightarrow> string" where
  "duration_text OneNight = ''one-night''"
| "duration_text ShortStay = ''short-stay''"
| "duration_text MediumStay = ''medium-stay''"
| "duration_text LongStay = ''long-stay''"
| "duration_text ExtendedStay = ''extended-stay''"

fun coverage_text :: "eval_coverage \<Rightarrow> string" where
  "coverage_text HighCoverage = ''high''"
| "coverage_text MediumCoverage = ''medium''"
| "coverage_text LowCoverage = ''low''"
| "coverage_text UnknownCoverage = ''unknown''"

fun check_text :: "check_result \<Rightarrow> string" where
  "check_text CheckPass = ''pass''" | "check_text CheckFail = ''fail''"

fun price_check_text :: "price_check \<Rightarrow> string" where
  "price_check_text PricePass = ''pass''"
| "price_check_text PriceFail = ''fail''"
| "price_check_text PriceUnknown = ''unknown''"

fun rate_check_text :: "rate_check \<Rightarrow> string" where
  "rate_check_text RatesVerified = ''verified''"
| "rate_check_text RatesNotApplicable = ''not-applicable''"
| "rate_check_text RatesFailed = ''failed''"
| "rate_check_text RatesUnverified = ''unverified''"

fun regression_text :: "critical_regression \<Rightarrow> string" where
  "regression_text CommercialInfluence = ''commercial-influence''"
| "regression_text HardConstraintViolation = ''hard-constraint-violation''"
| "regression_text NonDeterministicDecision = ''non-deterministic-decision''"
| "regression_text PiiInTrace = ''pii-in-trace''"
| "regression_text PriceIntegrity = ''price-integrity''"
| "regression_text PrivacyViolation = ''privacy-violation''"
| "regression_text PublicRateIntegrity = ''public-rate-integrity''"
| "regression_text UnsafeRecommendation = ''unsafe-recommendation''"

fun diff_kind_text :: "diff_kind \<Rightarrow> string" where
  "diff_kind_text DiffNone = ''none''"
| "diff_kind_text DiffReasonsOnly = ''reasons-only''"
| "diff_kind_text DiffRole = ''role''"
| "diff_kind_text DiffSelection = ''selection''"
| "diff_kind_text DiffStatus = ''status''"
| "diff_kind_text DiffAbstention = ''abstention''"

fun issue_text :: "shadow_issue \<Rightarrow> string" where
  "issue_text InvalidShape = ''invalid-shape''"
| "issue_text FingerprintMismatch = ''fingerprint-mismatch''"
| "issue_text DerivedDiffMismatch = ''derived-diff-mismatch''"
| "issue_text CriticalRegressionMismatch = ''critical-regression-mismatch''"

definition json_option :: "('a \<Rightarrow> json) \<Rightarrow> 'a option \<Rightarrow> json" where
  "json_option f x = (case x of None \<Rightarrow> JNull | Some y \<Rightarrow> f y)"

definition json_strings :: "string list \<Rightarrow> json" where
  "json_strings xs = JArray (map JString xs)"

definition json_count :: "nat \<Rightarrow> json" where
  "json_count n = JNumber (Fin (of_nat n))"

definition promotion_version :: string where "promotion_version = ''3.0.0-shadow-promotion.1''"
definition record_schema_version :: string where "record_schema_version = ''3.0.0-shadow-record.1''"

definition audit_json :: json where
  "audit_json =
     JObject
       [(''schemaVersion'', JString ''3.0.0-promotion-audit.1''), (''internalOnly'', JBool True),
        (''engineVersion'', JString ''3.0.0-alpha.13''), (''policyVersion'', JString ''3.0.0-policy.13''),
        (''promotionVersion'', JString promotion_version)]"

definition segment_fields :: "segment \<Rightarrow> (string \<times> string) list" where
  "segment_fields seg =
     [(''profile'', profile_text (seg_profile seg)), (''destination'', destination_text (seg_destination seg)),
      (''leadTime'', lead_time_text (seg_lead_time seg)), (''duration'', duration_text (seg_duration seg)),
      (''coverage'', coverage_text (seg_coverage seg))]"

definition segment_json :: "segment \<Rightarrow> json" where
  "segment_json seg = JObject (map (map_prod id JString) (segment_fields seg))"

definition decision_json :: "shadow_decision \<Rightarrow> json" where
  "decision_json d =
     JObject
       [(''engine'', JString (engine_text (sd_engine d))), (''engineVersion'', JString (sd_engine_version d)),
        (''policyVersion'', JString (sd_policy_version d)), (''decisionFingerprint'', JString (sd_fingerprint d)),
        (''status'', JString (decision_status_text (sd_status d))),
        (''selectedSolutionToken'', json_option JString (sd_selected d)),
        (''role'', json_option (\<lambda>r. JString (decision_role_text r)) (sd_role d)),
        (''reasonCodes'', json_strings (sd_reasons d))]"

definition safety_json :: "safety_signals \<Rightarrow> json" where
  "safety_json s =
     JObject
       [(''priceIntegrity'', JString (price_check_text (price_integrity s))),
        (''publicRateConsistency'', JString (rate_check_text (public_rate_consistency s))),
        (''commercialFirewall'', JString (check_text (commercial_firewall s))),
        (''privacyFirewall'', JString (check_text (privacy_firewall s))),
        (''deterministicReplay'', JString (check_text (deterministic_replay s))),
        (''hardConstraints'', JString (check_text (hard_constraints s))),
        (''recommendationSafety'', JString (check_text (recommendation_safety s)))]"

definition diff_json :: "decision_diff \<Rightarrow> json" where
  "diff_json d =
     JObject
       [(''kind'', JString (diff_kind_text (diff_kind_of d))), (''statusAgreement'', JBool (status_agreement d)),
        (''selectionAgreement'', JBool (selection_agreement d)), (''roleAgreement'', JBool (role_agreement d)),
        (''exactReasonAgreement'', JBool (exact_reason_agreement d)),
        (''reasonDiff'', JObject
          [(''common'', json_strings (rd_common (diff_reasons d))),
           (''addedInV3'', json_strings (rd_added (diff_reasons d))),
           (''missingFromV3'', json_strings (rd_missing (diff_reasons d)))])]"

text \<open>The fields every shadow record has before its own.\<close>

definition shadow_record_fields :: "string \<Rightarrow> string \<Rightarrow> segment \<Rightarrow> (string \<times> json) list" where
  "shadow_record_fields record_type record_id seg =
     [(''recordType'', JString record_type), (''schemaVersion'', JString record_schema_version),
      (''comparisonId'', JString record_id), (''application'', JString ''internal-shadow-only''),
      (''publicServingEngine'', JString ''v2''), (''v3Authoritative'', JBool False),
      (''segment'', segment_json seg)]"

definition comparison_json :: "shadow_comparison \<Rightarrow> json" where
  "comparison_json c =
     JObject
       (shadow_record_fields ''shadow-comparison'' (sc_id c) (sc_segment c) @
        [(''v2'', decision_json (sc_v2 c)), (''v3'', decision_json (sc_v3 c)), (''safety'', safety_json (sc_safety c)),
         (''diff'', diff_json (sc_diff c)),
         (''criticalRegressions'', json_strings (map regression_text (sc_regressions c))),
         (''audit'', audit_json)])"

definition failure_json :: "shadow_failure \<Rightarrow> json" where
  "failure_json f =
     JObject
       (shadow_record_fields ''shadow-error'' (sf_id f) (sf_segment f) @
        [(''errorCode'', JString ''v3-shadow-execution-failed''), (''audit'', audit_json)])"

section \<open>Checks on texts\<close>

definition ascii_alnum :: "char \<Rightarrow> bool" where
  "ascii_alnum c \<longleftrightarrow> ascii_lower c \<in> set ''abcdefghijklmnopqrstuvwxyz0123456789''"

text \<open>The expressions \<open>/^[a-z0-9][a-z0-9X]{low,high}$/i\<close> for a set \<open>X\<close> of further characters.\<close>

definition bounded_token :: "string \<Rightarrow> nat \<Rightarrow> nat \<Rightarrow> string \<Rightarrow> bool" where
  "bounded_token extra low high s \<longleftrightarrow>
     (case s of
        [] \<Rightarrow> False
      | c # cs \<Rightarrow> ascii_alnum c \<and> low \<le> length cs \<and> length cs \<le> high \<and>
          list_all (\<lambda>d. ascii_alnum d \<or> d \<in> set extra) cs)"

definition require_opaque_token :: "string \<Rightarrow> string \<Rightarrow> promotion_error + unit" where
  "require_opaque_token s label = require (bounded_token '':_-'' 7 127 s) (InvalidToken label)"

definition require_version_token :: "string \<Rightarrow> string \<Rightarrow> promotion_error + unit" where
  "require_version_token s label = require (bounded_token ''.+-'' 2 63 s) (InvalidVersion label)"

definition normalize_reason_codes :: "string list \<Rightarrow> promotion_error + string list" where
  "normalize_reason_codes codes =
     (if list_ex (\<lambda>c. \<not> bounded_token '':._-'' 1 127 c) codes then Inl InvalidReasonCodes
      else Inr (js_sort compare_strings (js_set codes)))"

definition forbidden_keys :: "string list" where
  "forbidden_keys =
     [''email'', ''phone'', ''fullname'', ''firstname'', ''lastname'', ''bookingid'', ''bookingref'',
      ''bookingreference'', ''providerid'', ''providername'', ''providercode'', ''commission'',
      ''affiliate'', ''revenue'', ''margin'', ''price'', ''amount'']"

text \<open>\<open>findForbiddenFieldPaths\<close>: the paths of the keys that name personal or commercial data.\<close>

fun find_forbidden_paths :: "json \<Rightarrow> string \<Rightarrow> string list" where
  "find_forbidden_paths (JArray vs) path =
     concat (map (\<lambda>(i, f). f (path @ ''.'' @ int_string i)) (zip [0 .. int (length vs) - 1] (map find_forbidden_paths vs)))"
| "find_forbidden_paths (JObject kvs) path =
     concat (map (\<lambda>(key, f). (if map ascii_lower key \<in> set forbidden_keys then [path @ ''.'' @ key] else []) @
                    f (path @ ''.'' @ key)) (map (map_prod id find_forbidden_paths) kvs))"
| "find_forbidden_paths v path = []"

definition hash_of :: "json \<Rightarrow> string \<Rightarrow> promotion_error + string" where
  "hash_of v namespace = (case stable_hash v namespace of None \<Rightarrow> Inl NonFiniteNumber | Some h \<Rightarrow> Inr h)"

section \<open>Decisions and their difference\<close>

definition validate_decision :: "shadow_decision \<Rightarrow> serving_engine \<Rightarrow> promotion_error + unit" where
  "validate_decision d expected =
     and_then (require (sd_engine d = expected) WrongEngine) (\<lambda>_.
     and_then (require_version_token (sd_engine_version d) ''engineVersion'') (\<lambda>_.
     and_then (require_version_token (sd_policy_version d) ''policyVersion'') (\<lambda>_.
     and_then (require (is_stable_hash (sd_fingerprint d)) MissingDecisionFingerprint) (\<lambda>_.
     and_then (normalize_reason_codes (sd_reasons d)) (\<lambda>_.
       if sd_status d = Recommended
       then case sd_selected d of
              None \<Rightarrow> Inl (InvalidToken ''selectedSolutionToken'')
            | Some token \<Rightarrow>
                and_then (require_opaque_token token ''selectedSolutionToken'') (\<lambda>_.
                  require (sd_role d \<noteq> None) MissingRole)
       else require (sd_selected d = None \<and> sd_role d = None) UnexpectedSelection)))))"

definition normalize_decision :: "shadow_decision \<Rightarrow> serving_engine \<Rightarrow> promotion_error + shadow_decision" where
  "normalize_decision d expected =
     and_then (validate_decision d expected) (\<lambda>_.
     and_then (normalize_reason_codes (sd_reasons d)) (\<lambda>codes. Inr (d\<lparr>sd_reasons := codes\<rparr>)))"

definition critical_regression_order :: "critical_regression list" where
  "critical_regression_order =
     [CommercialInfluence, HardConstraintViolation, NonDeterministicDecision, PiiInTrace,
      PriceIntegrity, PrivacyViolation, PublicRateIntegrity, UnsafeRecommendation]"

definition create_critical_regressions :: "safety_signals \<Rightarrow> critical_regression list" where
  "create_critical_regressions s =
     (let codes =
        (if commercial_firewall s \<noteq> CheckPass then [CommercialInfluence] else []) @
        (if hard_constraints s \<noteq> CheckPass then [HardConstraintViolation] else []) @
        (if deterministic_replay s \<noteq> CheckPass then [NonDeterministicDecision] else []) @
        (if price_integrity s \<noteq> PricePass then [PriceIntegrity] else []) @
        (if privacy_firewall s \<noteq> CheckPass then [PrivacyViolation] else []) @
        (if public_rate_consistency s \<notin> {RatesVerified, RatesNotApplicable} then [PublicRateIntegrity] else []) @
        (if recommendation_safety s \<noteq> CheckPass then [UnsafeRecommendation] else [])
      in filter (\<lambda>c. c \<in> set codes) critical_regression_order)"

definition create_reason_diff :: "string list \<Rightarrow> string list \<Rightarrow> promotion_error + reason_diff" where
  "create_reason_diff v2_reasons v3_reasons =
     and_then (normalize_reason_codes v2_reasons) (\<lambda>v2.
     and_then (normalize_reason_codes v3_reasons) (\<lambda>v3.
       Inr \<lparr>rd_common = filter (\<lambda>c. c \<in> set v3) v2,
            rd_added = filter (\<lambda>c. c \<notin> set v2) v3,
            rd_missing = filter (\<lambda>c. c \<notin> set v3) v2\<rparr>))"

definition create_decision_diff :: "shadow_decision \<Rightarrow> shadow_decision \<Rightarrow> promotion_error + decision_diff" where
  "create_decision_diff v2 v3 =
     and_then (create_reason_diff (sd_reasons v2) (sd_reasons v3)) (\<lambda>reasons.
       let status = (sd_status v2 = sd_status v3);
           selection = (sd_selected v2 = sd_selected v3);
           role = (sd_role v2 = sd_role v3);
           exact = (rd_added reasons = [] \<and> rd_missing reasons = []);
           kind =
             (if \<not> status \<and> (sd_status v2 = Abstained \<or> sd_status v3 = Abstained) then DiffAbstention
              else if \<not> status then DiffStatus
              else if \<not> selection then DiffSelection
              else if \<not> role then DiffRole
              else if \<not> exact then DiffReasonsOnly
              else DiffNone)
       in Inr \<lparr>diff_kind_of = kind, status_agreement = status, selection_agreement = selection,
               role_agreement = role, exact_reason_agreement = exact, diff_reasons = reasons\<rparr>)"

section \<open>Shadow records\<close>

definition comparison_fingerprint :: "shadow_comparison \<Rightarrow> promotion_error + string" where
  "comparison_fingerprint c = hash_of (comparison_json c) ''stayopti-v3-shadow-comparison''"

definition failure_fingerprint :: "shadow_failure \<Rightarrow> promotion_error + string" where
  "failure_fingerprint f = hash_of (failure_json f) ''stayopti-v3-shadow-error''"

definition comparison_input_json :: "string \<Rightarrow> segment \<Rightarrow> shadow_decision \<Rightarrow> shadow_decision \<Rightarrow> safety_signals \<Rightarrow> json" where
  "comparison_input_json token seg v2 v3 safety =
     JObject
       [(''comparisonToken'', JString token), (''segment'', segment_json seg), (''v2'', decision_json v2),
        (''v3'', decision_json v3), (''safety'', safety_json safety)]"

definition create_shadow_comparison ::
  "string \<Rightarrow> segment \<Rightarrow> shadow_decision \<Rightarrow> shadow_decision \<Rightarrow> safety_signals \<Rightarrow> promotion_error + shadow_comparison" where
  "create_shadow_comparison token seg v2_input v3_input safety =
     and_then (require (find_forbidden_paths (comparison_input_json token seg v2_input v3_input safety) ''root'' = [])
                 ForbiddenFields) (\<lambda>_.
     and_then (require_opaque_token token ''comparisonToken'') (\<lambda>_.
     and_then (normalize_decision v2_input EngineV2) (\<lambda>v2.
     and_then (normalize_decision v3_input EngineV3) (\<lambda>v3.
     and_then (hash_of (JObject [(''comparisonToken'', JString token),
                                 (''v2DecisionFingerprint'', JString (sd_fingerprint v2)),
                                 (''v3DecisionFingerprint'', JString (sd_fingerprint v3))])
                 ''stayopti-v3-shadow-comparison-id'') (\<lambda>cid.
     and_then (create_decision_diff v2 v3) (\<lambda>diff.
       let core = \<lparr>sc_id = cid, sc_segment = seg, sc_v2 = v2, sc_v3 = v3, sc_safety = safety, sc_diff = diff,
                   sc_regressions = create_critical_regressions safety, sc_fingerprint = []\<rparr>
       in and_then (comparison_fingerprint core) (\<lambda>fp. Inr (core\<lparr>sc_fingerprint := fp\<rparr>))))))))"

definition create_shadow_error :: "string \<Rightarrow> segment \<Rightarrow> string \<Rightarrow> promotion_error + shadow_failure" where
  "create_shadow_error token seg v2_fingerprint =
     and_then (require_opaque_token token ''comparisonToken'') (\<lambda>_.
     and_then (require (is_stable_hash v2_fingerprint) MissingDecisionFingerprint) (\<lambda>_.
     and_then (hash_of (JObject [(''comparisonToken'', JString token), (''v2DecisionFingerprint'', JString v2_fingerprint)])
                 ''stayopti-v3-shadow-error-id'') (\<lambda>fid.
       let core = \<lparr>sf_id = fid, sf_segment = seg, sf_fingerprint = []\<rparr>
       in and_then (failure_fingerprint core) (\<lambda>fp. Inr (core\<lparr>sf_fingerprint := fp\<rparr>)))))"

text \<open>
  \<open>validateShadowObservationV3\<close>. What follows a throw inside its \<open>try\<close> is skipped and
  \<open>invalid-shape\<close> is added to the issues found so far.
\<close>

definition observation_id :: "shadow_observation \<Rightarrow> string" where
  "observation_id obs = (case obs of Comparison c \<Rightarrow> sc_id c | Failure f \<Rightarrow> sf_id f)"

definition observation_fingerprint :: "shadow_observation \<Rightarrow> string" where
  "observation_fingerprint obs = (case obs of Comparison c \<Rightarrow> sc_fingerprint c | Failure f \<Rightarrow> sf_fingerprint f)"

definition observation_segment :: "shadow_observation \<Rightarrow> segment" where
  "observation_segment obs = (case obs of Comparison c \<Rightarrow> sc_segment c | Failure f \<Rightarrow> sf_segment f)"

definition observation_json :: "shadow_observation \<Rightarrow> json" where
  "observation_json obs =
     (case obs of
        Comparison c \<Rightarrow> (case comparison_json c of
           JObject kvs \<Rightarrow> JObject (kvs @ [(''fingerprint'', JString (sc_fingerprint c))]) | v \<Rightarrow> v)
      | Failure f \<Rightarrow> (case failure_json f of
           JObject kvs \<Rightarrow> JObject (kvs @ [(''fingerprint'', JString (sf_fingerprint f))]) | v \<Rightarrow> v))"

definition fingerprint_issues :: "string \<Rightarrow> promotion_error + string \<Rightarrow> json \<Rightarrow> shadow_issue list" where
  "fingerprint_issues fp expected v =
     (case expected of
        Inl _ \<Rightarrow> [InvalidShape]
      | Inr h \<Rightarrow> (if fp \<noteq> h then [FingerprintMismatch] else []) @
          (if find_forbidden_paths v ''root'' \<noteq> [] then [InvalidShape] else []))"

definition comparison_issues :: "shadow_comparison \<Rightarrow> shadow_issue list" where
  "comparison_issues c =
     (case and_then (validate_decision (sc_v2 c) EngineV2) (\<lambda>_.
           and_then (validate_decision (sc_v3 c) EngineV3) (\<lambda>_. create_decision_diff (sc_v2 c) (sc_v3 c))) of
        Inl _ \<Rightarrow> [InvalidShape]
      | Inr diff \<Rightarrow>
          (if sc_diff c \<noteq> diff then [DerivedDiffMismatch] else []) @
          (if sc_regressions c \<noteq> create_critical_regressions (sc_safety c) then [CriticalRegressionMismatch] else []) @
          fingerprint_issues (sc_fingerprint c) (comparison_fingerprint c) (observation_json (Comparison c)))"

definition observation_issues :: "shadow_observation \<Rightarrow> shadow_issue list" where
  "observation_issues obs =
     (if is_stable_hash (observation_id obs) then [] else [InvalidShape]) @
     (case obs of
        Comparison c \<Rightarrow> comparison_issues c
      | Failure f \<Rightarrow> fingerprint_issues (sf_fingerprint f) (failure_fingerprint f) (observation_json obs))"

record shadow_validation =
  sv_valid :: bool
  sv_issues :: "shadow_issue list"

definition validation_of :: "shadow_issue list \<Rightarrow> shadow_validation" where
  "validation_of issues =
     \<lparr>sv_valid = (length issues = 0),
      sv_issues = js_sort (\<lambda>a b. compare_strings (issue_text a) (issue_text b)) (js_set issues)\<rparr>"

definition validate_shadow_observation :: "shadow_observation \<Rightarrow> shadow_validation" where
  "validate_shadow_observation obs = validation_of (observation_issues obs)"

section \<open>Shadow runs\<close>

datatype run_mode = RunOff | RunShadow

record 'p shadow_run =
  run_public_result :: 'p
  run_v3_executed :: bool
  run_observation :: "shadow_observation option"

text \<open>
  The execution of v3 is the value its call has: a decision with safety signals, or an error
  it throws.
\<close>

definition run_shadow_with_derived_safety ::
  "run_mode \<Rightarrow> string \<Rightarrow> segment \<Rightarrow> 'p \<Rightarrow> shadow_decision \<Rightarrow> (unit \<Rightarrow> promotion_error + shadow_decision \<times> safety_signals) \<Rightarrow>
     promotion_error + 'p shadow_run" where
  "run_shadow_with_derived_safety mode token seg public_result v2_decision run_v3 =
     and_then (normalize_decision v2_decision EngineV2) (\<lambda>v2.
     and_then (require_opaque_token token ''comparisonToken'') (\<lambda>_.
       if mode = RunOff
       then Inr \<lparr>run_public_result = public_result, run_v3_executed = False, run_observation = None\<rparr>
       else case and_then (run_v3 ()) (\<lambda>(decision, safety). create_shadow_comparison token seg v2 decision safety) of
              Inr c \<Rightarrow> Inr \<lparr>run_public_result = public_result, run_v3_executed = True, run_observation = Some (Comparison c)\<rparr>
            | Inl _ \<Rightarrow>
                and_then (create_shadow_error token seg (sd_fingerprint v2)) (\<lambda>f.
                  Inr \<lparr>run_public_result = public_result, run_v3_executed = True, run_observation = Some (Failure f)\<rparr>)))"

definition run_shadow ::
  "run_mode \<Rightarrow> string \<Rightarrow> segment \<Rightarrow> 'p \<Rightarrow> shadow_decision \<Rightarrow> safety_signals \<Rightarrow> (unit \<Rightarrow> promotion_error + shadow_decision) \<Rightarrow>
     promotion_error + 'p shadow_run" where
  "run_shadow mode token seg public_result v2_decision safety run_v3 =
     run_shadow_with_derived_safety mode token seg public_result v2_decision
       (\<lambda>u. and_then (run_v3 u) (\<lambda>decision. Inr (decision, safety)))"

section \<open>The dashboard\<close>

definition round6 :: "jsnum \<Rightarrow> jsnum" where
  "round6 v = js_div (js_round (v * Fin 1000000)) (Fin 1000000)"

definition safe_rate :: "nat \<Rightarrow> nat \<Rightarrow> jsnum option" where
  "safe_rate numerator denominator =
     (if denominator = 0 then None else Some (round6 (js_div (Fin (of_nat numerator)) (Fin (of_nat denominator)))))"

record segment_metric =
  sm_dimension :: string
  sm_value :: string
  sm_observations :: nat
  sm_comparisons :: nat
  sm_errors :: nat
  sm_selection_divergences :: nat
  sm_status_divergences :: nat
  sm_regressions :: nat

record dashboard_gates =
  dg_observations_met :: bool
  dg_comparisons_met :: bool
  dg_error_rate_ok :: bool
  dg_no_regressions :: bool
  dg_segments_ok :: bool

datatype dashboard_status = CollectingEvidence | BlockedByRegression | ReadyForCanary

record dashboard =
  db_id :: string
  db_observations :: nat
  db_comparisons :: nat
  db_errors :: nat
  db_agreements :: nat
  db_selection_divergences :: nat
  db_status_divergences :: nat
  db_abstention_divergences :: nat
  db_regressions :: nat
  db_error_rate :: jsnum
  db_agreement_rate :: "jsnum option"
  db_selection_rate :: "jsnum option"
  db_status_rate :: "jsnum option"
  db_reason_rate :: "jsnum option"
  db_regression_counts :: "(critical_regression \<times> nat) list"
  db_reason_counts :: "(string \<times> nat \<times> nat) list"
  db_segments :: "segment_metric list"
  db_gates :: dashboard_gates
  db_status :: dashboard_status
  db_fingerprint :: string

text \<open>\<open>STAYOPTI_PROMOTION_THRESHOLDS_V3\<close>.\<close>

definition minimum_shadow_observations :: nat where "minimum_shadow_observations = 1000"
definition minimum_shadow_comparisons :: nat where "minimum_shadow_comparisons = 990"
definition minimum_segment_group :: nat where "minimum_segment_group = 30"
definition maximum_shadow_error_rate :: jsnum where "maximum_shadow_error_rate = lit 0.005"
definition maximum_critical_regressions :: nat where "maximum_critical_regressions = 0"
definition maximum_canary_basis_points :: jsnum where "maximum_canary_basis_points = Fin 500"
definition minimum_canary_observations :: jsnum where "minimum_canary_observations = Fin 500"
definition minimum_canary_hours :: jsnum where "minimum_canary_hours = Fin 24"
definition maximum_error_rate_regression :: jsnum where "maximum_error_rate_regression = lit 0.002"
definition maximum_latency_regression :: jsnum where "maximum_latency_regression = Fin 100"

definition comparisons_of :: "shadow_observation list \<Rightarrow> shadow_comparison list" where
  "comparisons_of obs = concat (map (\<lambda>ob. case ob of Comparison c \<Rightarrow> [c] | Failure _ \<Rightarrow> []) obs)"

definition failures_of :: "shadow_observation list \<Rightarrow> shadow_failure list" where
  "failures_of obs = concat (map (\<lambda>ob. case ob of Comparison _ \<Rightarrow> [] | Failure f \<Rightarrow> [f]) obs)"

definition how_many :: "('a \<Rightarrow> bool) \<Rightarrow> 'a list \<Rightarrow> nat" where
  "how_many p xs = length (filter p xs)"

definition regression_total :: "shadow_comparison list \<Rightarrow> nat" where
  "regression_total cs = sum_list (map (\<lambda>c. length (sc_regressions c)) cs)"

definition segment_dimensions :: "string list" where
  "segment_dimensions = [''profile'', ''destination'', ''leadTime'', ''duration'', ''coverage'']"

definition segment_value :: "string \<Rightarrow> shadow_observation \<Rightarrow> string" where
  "segment_value axis ob =
     (case map_of (segment_fields (observation_segment ob)) axis of Some v \<Rightarrow> v | None \<Rightarrow> [])"

definition segment_metric_of :: "shadow_observation list \<Rightarrow> string \<Rightarrow> string \<Rightarrow> segment_metric" where
  "segment_metric_of obs axis v =
     (let group = filter (\<lambda>ob. segment_value axis ob = v) obs;
          cs = comparisons_of group
      in \<lparr>sm_dimension = axis, sm_value = v, sm_observations = length group, sm_comparisons = length cs,
          sm_errors = length group - length cs,
          sm_selection_divergences = how_many (\<lambda>c. \<not> selection_agreement (sc_diff c)) cs,
          sm_status_divergences = how_many (\<lambda>c. \<not> status_agreement (sc_diff c)) cs,
          sm_regressions = regression_total cs\<rparr>)"

definition segment_metrics :: "shadow_observation list \<Rightarrow> segment_metric list" where
  "segment_metrics obs =
     concat (map (\<lambda>axis. map (segment_metric_of obs axis)
                (js_sort compare_strings (js_set (map (segment_value axis) obs)))) segment_dimensions)"

definition reason_diff_counts :: "shadow_comparison list \<Rightarrow> (string \<times> nat \<times> nat) list" where
  "reason_diff_counts cs =
     map (\<lambda>code. (code, how_many (\<lambda>c. code \<in> set (rd_added (diff_reasons (sc_diff c)))) cs,
                        how_many (\<lambda>c. code \<in> set (rd_missing (diff_reasons (sc_diff c)))) cs))
       (js_sort compare_strings
          (js_set (concat (map (\<lambda>c. rd_added (diff_reasons (sc_diff c)) @ rd_missing (diff_reasons (sc_diff c))) cs))))"

definition regression_counts :: "shadow_comparison list \<Rightarrow> (critical_regression \<times> nat) list" where
  "regression_counts cs =
     filter (\<lambda>(code, n). 0 < n)
       (map (\<lambda>code. (code, how_many (\<lambda>c. code \<in> set (sc_regressions c)) cs)) critical_regression_order)"

definition dashboard_gates_of :: "shadow_observation list \<Rightarrow> jsnum \<Rightarrow> dashboard_gates" where
  "dashboard_gates_of obs error_rate =
     (let cs = comparisons_of obs; metrics = segment_metrics obs
      in \<lparr>dg_observations_met = (minimum_shadow_observations \<le> length obs),
          dg_comparisons_met = (minimum_shadow_comparisons \<le> length cs),
          dg_error_rate_ok = (error_rate \<le> maximum_shadow_error_rate),
          dg_no_regressions = (regression_total cs \<le> maximum_critical_regressions),
          dg_segments_ok = (metrics \<noteq> [] \<and> list_all (\<lambda>m. minimum_segment_group \<le> sm_observations m) metrics)\<rparr>)"

definition dashboard_status_of :: "dashboard_gates \<Rightarrow> dashboard_status" where
  "dashboard_status_of g =
     (if dg_observations_met g \<and> dg_comparisons_met g \<and> dg_error_rate_ok g \<and> dg_no_regressions g \<and> dg_segments_ok g
      then ReadyForCanary
      else if \<not> dg_no_regressions g \<or> \<not> dg_error_rate_ok g then BlockedByRegression
      else CollectingEvidence)"

fun dashboard_status_text :: "dashboard_status \<Rightarrow> string" where
  "dashboard_status_text CollectingEvidence = ''collecting-shadow-evidence''"
| "dashboard_status_text BlockedByRegression = ''blocked-by-regression''"
| "dashboard_status_text ReadyForCanary = ''ready-for-canary-review''"

definition metric_json :: "segment_metric \<Rightarrow> json" where
  "metric_json m =
     JObject
       [(''dimension'', JString (sm_dimension m)), (''value'', JString (sm_value m)),
        (''observationCount'', json_count (sm_observations m)), (''comparisonCount'', json_count (sm_comparisons m)),
        (''executionErrorCount'', json_count (sm_errors m)),
        (''selectionDivergenceCount'', json_count (sm_selection_divergences m)),
        (''statusDivergenceCount'', json_count (sm_status_divergences m)),
        (''criticalRegressionCount'', json_count (sm_regressions m))]"

definition dashboard_core_fields :: "dashboard \<Rightarrow> (string \<times> json) list" where
  "dashboard_core_fields d =
     [(''version'', JString promotion_version), (''application'', JString ''internal-promotion-dashboard''),
      (''publicServingEngine'', JString ''v2''), (''rawDecisionPayloadStored'', JBool False),
      (''piiAllowed'', JBool False), (''commercialFieldsAllowed'', JBool False),
      (''counts'', JObject
        [(''observations'', json_count (db_observations d)), (''comparisons'', json_count (db_comparisons d)),
         (''executionErrors'', json_count (db_errors d)), (''exactDecisionAgreements'', json_count (db_agreements d)),
         (''selectionDivergences'', json_count (db_selection_divergences d)),
         (''statusDivergences'', json_count (db_status_divergences d)),
         (''abstentionDivergences'', json_count (db_abstention_divergences d)),
         (''criticalRegressions'', json_count (db_regressions d))]),
      (''rates'', JObject
        [(''executionErrorRate'', JNumber (db_error_rate d)),
         (''exactDecisionAgreementRate'', json_option JNumber (db_agreement_rate d)),
         (''selectionAgreementRate'', json_option JNumber (db_selection_rate d)),
         (''statusAgreementRate'', json_option JNumber (db_status_rate d)),
         (''exactReasonAgreementRate'', json_option JNumber (db_reason_rate d))]),
      (''criticalRegressionCounts'', JArray (map (\<lambda>(code, n).
         JObject [(''code'', JString (regression_text code)), (''count'', json_count n)]) (db_regression_counts d))),
      (''reasonDiffCounts'', JArray (map (\<lambda>(code, a, m).
         JObject [(''reasonCode'', JString code), (''addedInV3Count'', json_count a),
                  (''missingFromV3Count'', json_count m)]) (db_reason_counts d))),
      (''segmentMetrics'', JArray (map metric_json (db_segments d))),
      (''gateSummary'', JObject
        [(''minimumObservationCountMet'', JBool (dg_observations_met (db_gates d))),
         (''minimumComparisonCountMet'', JBool (dg_comparisons_met (db_gates d))),
         (''executionErrorRateWithinLimit'', JBool (dg_error_rate_ok (db_gates d))),
         (''zeroCriticalRegressions'', JBool (dg_no_regressions (db_gates d))),
         (''observedSegmentGroupsSufficient'', JBool (dg_segments_ok (db_gates d)))]),
      (''status'', JString (dashboard_status_text (db_status d))), (''audit'', audit_json)]"

definition dashboard_fingerprint :: "dashboard \<Rightarrow> promotion_error + string" where
  "dashboard_fingerprint d =
     hash_of (JObject ((''dashboardId'', JString (db_id d)) # dashboard_core_fields d)) ''stayopti-v3-shadow-dashboard''"

definition dashboard_core :: "shadow_observation list \<Rightarrow> dashboard" where
  "dashboard_core obs =
     (let cs = comparisons_of obs;
          selection = how_many (\<lambda>c. \<not> selection_agreement (sc_diff c)) cs;
          status = how_many (\<lambda>c. \<not> status_agreement (sc_diff c)) cs;
          agreements = how_many (\<lambda>c. diff_kind_of (sc_diff c) = DiffNone) cs;
          error_rate = (case safe_rate (length (failures_of obs)) (length obs) of None \<Rightarrow> Fin 0 | Some r \<Rightarrow> r);
          gates = dashboard_gates_of obs error_rate
      in \<lparr>db_id = [], db_observations = length obs, db_comparisons = length cs, db_errors = length (failures_of obs),
          db_agreements = agreements, db_selection_divergences = selection, db_status_divergences = status,
          db_abstention_divergences = how_many (\<lambda>c. diff_kind_of (sc_diff c) = DiffAbstention) cs,
          db_regressions = regression_total cs, db_error_rate = error_rate,
          db_agreement_rate = safe_rate agreements (length cs),
          db_selection_rate = safe_rate (length cs - selection) (length cs),
          db_status_rate = safe_rate (length cs - status) (length cs),
          db_reason_rate = safe_rate (how_many (\<lambda>c. exact_reason_agreement (sc_diff c)) cs) (length cs),
          db_regression_counts = regression_counts cs, db_reason_counts = reason_diff_counts cs,
          db_segments = segment_metrics obs, db_gates = gates, db_status = dashboard_status_of gates,
          db_fingerprint = []\<rparr>)"

definition create_shadow_dashboard :: "shadow_observation list \<Rightarrow> promotion_error + dashboard" where
  "create_shadow_dashboard obs =
     and_then (require (\<not> list_ex (\<lambda>ob. \<not> sv_valid (validate_shadow_observation ob)) obs) InvalidObservations) (\<lambda>_.
     and_then (require (length (js_set (map observation_id obs)) = length (map observation_id obs)) DuplicateObservationIds) (\<lambda>_.
       let core = dashboard_core obs
       in and_then (hash_of (JObject
                      [(''observationFingerprints'',
                        json_strings (js_sort compare_strings (map observation_fingerprint obs))),
                       (''core'', JObject (dashboard_core_fields core))]) ''stayopti-v3-shadow-dashboard-id'') (\<lambda>did.
          let identified = core\<lparr>db_id := did\<rparr>
          in and_then (dashboard_fingerprint identified) (\<lambda>fp. Inr (identified\<lparr>db_fingerprint := fp\<rparr>)))))"

definition validate_dashboard :: "dashboard \<Rightarrow> promotion_error + shadow_validation" where
  "validate_dashboard d =
     and_then (dashboard_fingerprint d) (\<lambda>fp.
       Inr (validation_of
         ((if is_stable_hash (db_id d) then [] else [InvalidShape]) @
          (if db_fingerprint d \<noteq> fp then [FingerprintMismatch] else []) @
          (if find_forbidden_paths (JObject ((''dashboardId'', JString (db_id d)) # dashboard_core_fields d @
               [(''fingerprint'', JString (db_fingerprint d))])) ''root'' \<noteq> [] then [InvalidShape] else []))))"

section \<open>Hashing never fails on records without free numbers\<close>

fun finite_json :: "json \<Rightarrow> bool" where
  "finite_json (JNumber v) = is_fin v"
| "finite_json (JArray vs) = list_all finite_json vs"
| "finite_json (JObject kvs) = list_all (\<lambda>(key, v). finite_json v) kvs"
| "finite_json _ = True"

lemma sequence_option_defined: "sequence_option xs \<noteq> None \<longleftrightarrow> None \<notin> set xs"
  by (induction xs) (auto split: option.splits)

lemma stable_serialize_defined: "finite_json v \<Longrightarrow> stable_serialize v \<noteq> None"
proof (induction v)
  case (JNumber x)
  then show ?case by (cases x) simp_all
next
  case (JArray vs)
  then have "None \<notin> set (map stable_serialize vs)" by (fastforce simp: list_all_iff)
  then have "sequence_option (map stable_serialize vs) \<noteq> None" by (simp only: sequence_option_defined simp_thms)
  then show ?case by auto
next
  case (JObject kvs)
  let ?s = "js_sort by_key (map (map_prod id stable_serialize) kvs)"
  have "stable_serialize v \<noteq> None" if "(key, v) \<in> set kvs" for key v
    using that JObject by (fastforce simp: list_all_iff intro: snds.intros)
  then have "None \<notin> set (map (\<lambda>(key, text). map_option (\<lambda>t. string_json key @ '':'' @ t) text) ?s)"
    by (fastforce simp: map_prod_def)
  then have "sequence_option (map (\<lambda>(key, text). map_option (\<lambda>t. string_json key @ '':'' @ t) text) ?s) \<noteq> None"
    by (simp only: sequence_option_defined simp_thms)
  then show ?case by auto
qed simp_all

lemma hash_of_defined: "finite_json v \<Longrightarrow> \<exists>h. hash_of v ns = Inr h"
  using stable_serialize_defined [of v] by (auto simp: hash_of_def stable_hash_def)

lemma hash_of_stable: "hash_of v ns = Inr h \<Longrightarrow> is_stable_hash h"
  by (auto simp: hash_of_def stable_hash_def is_stable_hash_def hex8_length hex8_chars split: option.splits)

lemma hash_of_never_error: "hash_of v ns = Inl e \<Longrightarrow> e = NonFiniteNumber"
  by (auto simp: hash_of_def split: option.splits)

lemma finite_json_strings [simp]: "finite_json (json_strings xs)"
  by (simp add: json_strings_def list_all_iff)

lemma finite_json_count [simp]: "finite_json (json_count n)"
  by (simp add: json_count_def)

lemma finite_json_option [simp]: "finite_json (json_option f x) \<longleftrightarrow> (case x of None \<Rightarrow> True | Some y \<Rightarrow> finite_json (f y))"
  by (simp add: json_option_def split: option.split)

lemma finite_audit [simp]: "finite_json audit_json"
  by (simp add: audit_json_def)

lemma finite_segment [simp]: "finite_json (segment_json seg)"
  by (simp add: segment_json_def segment_fields_def)

lemma finite_decision [simp]: "finite_json (decision_json d)"
  by (simp add: decision_json_def split: option.split)

lemma finite_safety [simp]: "finite_json (safety_json s)"
  by (simp add: safety_json_def)

lemma finite_diff [simp]: "finite_json (diff_json d)"
  by (simp add: diff_json_def)

lemma finite_comparison [simp]: "finite_json (comparison_json c)"
  by (simp add: comparison_json_def shadow_record_fields_def)

lemma finite_failure [simp]: "finite_json (failure_json f)"
  by (simp add: failure_json_def shadow_record_fields_def)

section \<open>No record holds a forbidden field\<close>

definition forbidden_key :: "string \<Rightarrow> bool" where
  "forbidden_key key \<longleftrightarrow> map ascii_lower key \<in> set forbidden_keys"

fun clean_json :: "json \<Rightarrow> bool" where
  "clean_json (JArray vs) = list_all clean_json vs"
| "clean_json (JObject kvs) = list_all (\<lambda>(key, v). \<not> forbidden_key key \<and> clean_json v) kvs"
| "clean_json _ = True"

lemma concat_Nil: "(\<And>x. x \<in> set xs \<Longrightarrow> f x = []) \<Longrightarrow> concat (map f xs) = []"
  by simp

lemma clean_json_paths: "clean_json v \<Longrightarrow> find_forbidden_paths v path = []"
proof (induction v arbitrary: path)
  case (JArray vs)
  then have "\<forall>f \<in> set (map find_forbidden_paths vs). \<forall>path. f path = []" by (simp add: list_all_iff)
  then show ?case by (auto dest!: set_zip_rightD)
next
  case (JObject kvs)
  show ?case
    unfolding find_forbidden_paths.simps
  proof (rule concat_Nil)
    fix p assume "p \<in> set (map (map_prod id find_forbidden_paths) kvs)"
    then obtain key v where p: "p = (key, find_forbidden_paths v)" and kv: "(key, v) \<in> set kvs" by auto
    with JObject.prems have c: "\<not> forbidden_key key" "clean_json v" by (auto simp: list_all_iff)
    from JObject.IH [OF kv _ c(2)] have "find_forbidden_paths v path = []" for path by (simp add: snds.simps)
    with c(1) show "(case p of (key, f) \<Rightarrow> (if map ascii_lower key \<in> set forbidden_keys then [path @ ''.'' @ key] else []) @ f (path @ ''.'' @ key)) = []"
      by (simp add: p forbidden_key_def)
  qed
qed simp_all

lemma record_keys_clean:
  "list_all (\<lambda>k. \<not> forbidden_key k)
     [''schemaVersion'', ''internalOnly'', ''engineVersion'', ''policyVersion'', ''promotionVersion'', ''profile'',
      ''destination'', ''leadTime'', ''duration'', ''coverage'', ''engine'', ''decisionFingerprint'', ''status'',
      ''selectedSolutionToken'', ''role'', ''reasonCodes'', ''priceIntegrity'', ''publicRateConsistency'',
      ''commercialFirewall'', ''privacyFirewall'', ''deterministicReplay'', ''hardConstraints'',
      ''recommendationSafety'', ''kind'', ''statusAgreement'', ''selectionAgreement'', ''roleAgreement'',
      ''exactReasonAgreement'', ''reasonDiff'', ''common'', ''addedInV3'', ''missingFromV3'', ''recordType'',
      ''comparisonId'', ''application'', ''publicServingEngine'', ''v3Authoritative'', ''segment'', ''v2'', ''v3'',
      ''safety'', ''diff'', ''criticalRegressions'', ''audit'', ''errorCode'', ''fingerprint'', ''comparisonToken'']"
  by code_simp

lemma record_key_clean [simp]:
  "\<not> forbidden_key ''schemaVersion''" "\<not> forbidden_key ''internalOnly''" "\<not> forbidden_key ''engineVersion''"
  "\<not> forbidden_key ''policyVersion''" "\<not> forbidden_key ''promotionVersion''" "\<not> forbidden_key ''profile''"
  "\<not> forbidden_key ''destination''" "\<not> forbidden_key ''leadTime''" "\<not> forbidden_key ''duration''"
  "\<not> forbidden_key ''coverage''" "\<not> forbidden_key ''engine''" "\<not> forbidden_key ''decisionFingerprint''"
  "\<not> forbidden_key ''status''" "\<not> forbidden_key ''selectedSolutionToken''" "\<not> forbidden_key ''role''"
  "\<not> forbidden_key ''reasonCodes''" "\<not> forbidden_key ''priceIntegrity''"
  "\<not> forbidden_key ''publicRateConsistency''" "\<not> forbidden_key ''commercialFirewall''"
  "\<not> forbidden_key ''privacyFirewall''" "\<not> forbidden_key ''deterministicReplay''"
  "\<not> forbidden_key ''hardConstraints''" "\<not> forbidden_key ''recommendationSafety''" "\<not> forbidden_key ''kind''"
  "\<not> forbidden_key ''statusAgreement''" "\<not> forbidden_key ''selectionAgreement''"
  "\<not> forbidden_key ''roleAgreement''" "\<not> forbidden_key ''exactReasonAgreement''"
  "\<not> forbidden_key ''reasonDiff''" "\<not> forbidden_key ''common''" "\<not> forbidden_key ''addedInV3''"
  "\<not> forbidden_key ''missingFromV3''" "\<not> forbidden_key ''recordType''" "\<not> forbidden_key ''comparisonId''"
  "\<not> forbidden_key ''application''" "\<not> forbidden_key ''publicServingEngine''"
  "\<not> forbidden_key ''v3Authoritative''" "\<not> forbidden_key ''segment''" "\<not> forbidden_key ''v2''"
  "\<not> forbidden_key ''v3''" "\<not> forbidden_key ''safety''" "\<not> forbidden_key ''diff''"
  "\<not> forbidden_key ''criticalRegressions''" "\<not> forbidden_key ''audit''" "\<not> forbidden_key ''errorCode''"
  "\<not> forbidden_key ''fingerprint''" "\<not> forbidden_key ''comparisonToken''"
  using record_keys_clean by (simp_all only: list.pred_inject simp_thms)

section \<open>What is recorded is valid\<close>

lemma js_set_distinct: "distinct xs \<Longrightarrow> js_set xs = xs"
  by (simp add: js_set_def distinct_remdups_id)

lemma sort_strings_sorted: "sorted (js_sort compare_strings xs)"
  using strings.sorted_sort [of xs]
  by (auto simp: strings.not_after_def intro: sorted_wrt_mono_rel [rotated])

lemma sort_strings_id: "sorted xs \<Longrightarrow> js_sort compare_strings xs = xs"
  by (rule strings.sort_sorted_id) (auto simp: strings.not_after_def intro: sorted_wrt_mono_rel [rotated])

lemma normalize_reason_codes_Inr:
  assumes "normalize_reason_codes codes = Inr xs"
  shows "set xs = set codes" and "distinct xs" and "sorted xs" and "normalize_reason_codes xs = Inr xs"
proof -
  from assms have valid: "\<not> list_ex (\<lambda>c. \<not> bounded_token '':._-'' 1 127 c) codes"
    and xs: "xs = js_sort compare_strings (js_set codes)"
    by (auto simp: normalize_reason_codes_def split: if_splits)
  show s: "set xs = set codes" and d: "distinct xs" and o: "sorted xs"
    by (simp_all add: xs sort_strings_sorted)
  have "\<not> list_ex (\<lambda>c. \<not> bounded_token '':._-'' 1 127 c) xs" using valid s by (simp add: list_ex_iff)
  then show "normalize_reason_codes xs = Inr xs"
    by (simp add: normalize_reason_codes_def js_set_distinct [OF d] sort_strings_id [OF o])
qed

lemma normalize_decision_Inr:
  assumes "normalize_decision d e = Inr d'"
  shows "validate_decision d' e = Inr () \<and> normalize_reason_codes (sd_reasons d') = Inr (sd_reasons d') \<and>
    sd_fingerprint d' = sd_fingerprint d \<and> is_stable_hash (sd_fingerprint d')"
proof -
  from assms obtain codes where v: "validate_decision d e = Inr ()"
    and c: "normalize_reason_codes (sd_reasons d) = Inr codes" and d': "d' = d\<lparr>sd_reasons := codes\<rparr>"
    by (auto simp: normalize_decision_def and_then_Inr_iff)
  have n: "normalize_reason_codes codes = Inr codes" by (rule normalize_reason_codes_Inr [OF c])
  have sel: "sd_engine d' = sd_engine d" "sd_engine_version d' = sd_engine_version d" "sd_policy_version d' = sd_policy_version d"
    "sd_fingerprint d' = sd_fingerprint d" "sd_status d' = sd_status d" "sd_selected d' = sd_selected d"
    "sd_role d' = sd_role d" "sd_reasons d' = codes"
    by (simp_all add: d')
  have "validate_decision d' e = validate_decision d e"
    unfolding validate_decision_def sel c n by simp
  moreover have "is_stable_hash (sd_fingerprint d)" using v by (auto simp: validate_decision_def and_then_Inr_iff)
  ultimately show ?thesis using v n by (simp add: d')
qed

lemma comparison_fingerprint_upd [simp]: "comparison_fingerprint (c\<lparr>sc_fingerprint := fp\<rparr>) = comparison_fingerprint c"
  by (simp add: comparison_fingerprint_def comparison_json_def)

lemma failure_fingerprint_upd [simp]: "failure_fingerprint (f\<lparr>sf_fingerprint := fp\<rparr>) = failure_fingerprint f"
  by (simp add: failure_fingerprint_def failure_json_def)

lemma clean_strings [simp]: "clean_json (json_strings xs)"
  by (simp add: json_strings_def list_all_iff)

lemma clean_option [simp]: "clean_json (json_option f x) \<longleftrightarrow> (case x of None \<Rightarrow> True | Some y \<Rightarrow> clean_json (f y))"
  by (simp add: json_option_def split: option.split)

lemma clean_parts [simp]:
  "clean_json audit_json" "clean_json (segment_json seg)" "clean_json (decision_json d)" "clean_json (safety_json s)"
  "clean_json (diff_json df)"
  by (simp_all add: audit_json_def segment_json_def segment_fields_def decision_json_def safety_json_def diff_json_def
      split: option.split)

lemma clean_observation: "clean_json (observation_json obs)"
  by (simp add: observation_json_def comparison_json_def failure_json_def shadow_record_fields_def split: shadow_observation.split)

lemma create_shadow_comparison_Inr:
  assumes "create_shadow_comparison token seg v2_input v3_input safety = Inr c"
  obtains v2 v3 where "normalize_decision v2_input EngineV2 = Inr v2" and "normalize_decision v3_input EngineV3 = Inr v3"
    and "create_decision_diff v2 v3 = Inr (sc_diff c)" and "sc_v2 c = v2" and "sc_v3 c = v3" and "sc_segment c = seg"
    and "sc_regressions c = create_critical_regressions (sc_safety c)" and "sc_safety c = safety"
    and "is_stable_hash (sc_id c)" and "comparison_fingerprint c = Inr (sc_fingerprint c)"
  using assms
  by (auto simp: create_shadow_comparison_def and_then_Inr_iff Let_def comparison_fingerprint_def comparison_json_def
      dest: hash_of_stable)

lemma created_comparison_valid:
  assumes "create_shadow_comparison token seg v2_input v3_input safety = Inr c"
  shows "observation_issues (Comparison c) = []"
  using assms
proof (rule create_shadow_comparison_Inr)
  fix v2 v3
  assume a: "normalize_decision v2_input EngineV2 = Inr v2" "normalize_decision v3_input EngineV3 = Inr v3"
    "create_decision_diff v2 v3 = Inr (sc_diff c)" "sc_v2 c = v2" "sc_v3 c = v3"
    "sc_regressions c = create_critical_regressions (sc_safety c)" "is_stable_hash (sc_id c)"
    "comparison_fingerprint c = Inr (sc_fingerprint c)"
  then show ?thesis
    using normalize_decision_Inr [OF a(1)] normalize_decision_Inr [OF a(2)]
    by (simp add: observation_issues_def observation_id_def comparison_issues_def fingerprint_issues_def
        clean_json_paths [OF clean_observation])
qed

lemma create_shadow_error_Inr:
  "bounded_token '':_-'' 7 127 token \<Longrightarrow> is_stable_hash fp \<Longrightarrow>
     \<exists>f. create_shadow_error token seg fp = Inr f \<and> observation_issues (Failure f) = []"
proof -
  assume t: "bounded_token '':_-'' 7 127 token" and fp: "is_stable_hash fp"
  obtain fid where fid: "hash_of (JObject [(''comparisonToken'', JString token), (''v2DecisionFingerprint'', JString fp)])
      ''stayopti-v3-shadow-error-id'' = Inr fid" using hash_of_defined by fastforce
  obtain h where h: "failure_fingerprint \<lparr>sf_id = fid, sf_segment = seg, sf_fingerprint = []\<rparr> = Inr h"
    unfolding failure_fingerprint_def using hash_of_defined [OF finite_failure] by blast
  let ?f = "\<lparr>sf_id = fid, sf_segment = seg, sf_fingerprint = h\<rparr>"
  have "create_shadow_error token seg fp = Inr ?f"
    using t fp fid h by (simp add: create_shadow_error_def require_opaque_token_def)
  moreover have "failure_fingerprint ?f = Inr h"
    using h by (simp add: failure_fingerprint_def failure_json_def)
  ultimately show ?thesis
    using hash_of_stable [OF fid]
    by (simp add: observation_issues_def observation_id_def fingerprint_issues_def clean_json_paths [OF clean_observation])
qed

lemma validation_of_valid: "sv_valid (validation_of is) \<longleftrightarrow> is = []"
  by (simp add: validation_of_def)

text \<open>C25. A shadow run cannot hurt the public answer: whatever engine v3 does - succeed, throw, or return
  something invalid - the call returns, its public result is the v2 result it was given, and what
  it records is a valid observation. It fails only on an invalid v2 decision or token, and with
  the mode off v3 is not run and nothing is recorded.\<close>

theorem shadow_run_isolated:
  "((\<exists>r. run_shadow_with_derived_safety mode token seg public v2 run_v3 = Inr r) \<longleftrightarrow>
     (\<exists>d. normalize_decision v2 EngineV2 = Inr d) \<and> bounded_token '':_-'' 7 127 token) \<and>
   (case run_shadow_with_derived_safety mode token seg public v2 run_v3 of
      Inl _ \<Rightarrow> True
    | Inr r \<Rightarrow> run_public_result r = public \<and> run_v3_executed r = (mode = RunShadow) \<and>
        (case run_observation r of
           None \<Rightarrow> mode = RunOff
         | Some ob \<Rightarrow> mode = RunShadow \<and> sv_valid (validate_shadow_observation ob) \<and> observation_segment ob = seg))"
proof (cases "normalize_decision v2 EngineV2")
  case (Inl e)
  then show ?thesis by (simp add: run_shadow_with_derived_safety_def)
next
  case (Inr d)
  show ?thesis
  proof (cases "bounded_token '':_-'' 7 127 token")
    case False
    then show ?thesis by (simp add: run_shadow_with_derived_safety_def Inr require_opaque_token_def)
  next
    case True
    have fp: "is_stable_hash (sd_fingerprint d)" using normalize_decision_Inr [OF Inr] by (elim conjE)
    obtain f where f: "create_shadow_error token seg (sd_fingerprint d) = Inr f" "observation_issues (Failure f) = []"
      using create_shadow_error_Inr [OF True fp] by blast
    then have seg: "sf_segment f = seg" by (auto simp: create_shadow_error_def and_then_Inr_iff Let_def)
    let ?run = "and_then (run_v3 ()) (\<lambda>(decision, safety). create_shadow_comparison token seg d decision safety)"
    show ?thesis
    proof (cases mode)
      case RunOff
      then show ?thesis by (simp add: run_shadow_with_derived_safety_def Inr require_opaque_token_def True)
    next
      case RunShadow
      show ?thesis
      proof (cases ?run)
        case (Inl e)
        then show ?thesis
          using f seg RunShadow True \<open>normalize_decision v2 EngineV2 = Inr d\<close>
          by (simp add: run_shadow_with_derived_safety_def require_opaque_token_def validate_shadow_observation_def
              validation_of_valid observation_segment_def)
      next
        case (Inr c)
        then obtain decision safety where c: "create_shadow_comparison token seg d decision safety = Inr c"
          by (auto simp: and_then_Inr_iff)
        then have "sc_segment c = seg" by (rule create_shadow_comparison_Inr)
        with created_comparison_valid [OF c] show ?thesis
          using Inr RunShadow True \<open>normalize_decision v2 EngineV2 = Inr d\<close>
          by (simp add: run_shadow_with_derived_safety_def require_opaque_token_def validate_shadow_observation_def
              validation_of_valid observation_segment_def)
      qed
    qed
  qed
qed

section \<open>Differences and dashboards\<close>

text \<open>The difference of two decisions says exactly what differs: the kind is none exactly when status,
  selection, role and the set of reasons agree, abstention exactly when the statuses differ and
  one side abstained; the reason codes are split into common, added and missing ones; and
  exchanging the engines exchanges added and missing and keeps the kind.\<close>

theorem decision_diff_exact:
  assumes "create_decision_diff v2 v3 = Inr d"
  shows "(diff_kind_of d = DiffNone \<longleftrightarrow> sd_status v2 = sd_status v3 \<and> sd_selected v2 = sd_selected v3 \<and>
      sd_role v2 = sd_role v3 \<and> set (sd_reasons v2) = set (sd_reasons v3)) \<and>
    (diff_kind_of d = DiffAbstention \<longleftrightarrow>
      sd_status v2 \<noteq> sd_status v3 \<and> (sd_status v2 = Abstained \<or> sd_status v3 = Abstained)) \<and>
    set (rd_common (diff_reasons d)) = set (sd_reasons v2) \<inter> set (sd_reasons v3) \<and>
    set (rd_added (diff_reasons d)) = set (sd_reasons v3) - set (sd_reasons v2) \<and>
    set (rd_missing (diff_reasons d)) = set (sd_reasons v2) - set (sd_reasons v3) \<and>
    (\<exists>e. create_decision_diff v3 v2 = Inr e \<and> diff_kind_of e = diff_kind_of d \<and>
       rd_added (diff_reasons e) = rd_missing (diff_reasons d) \<and> rd_missing (diff_reasons e) = rd_added (diff_reasons d))"
proof -
  from assms obtain r2 r3 where r2: "normalize_reason_codes (sd_reasons v2) = Inr r2"
    and r3: "normalize_reason_codes (sd_reasons v3) = Inr r3"
    by (auto simp: create_decision_diff_def create_reason_diff_def and_then_Inr_iff)
  have s: "set r2 = set (sd_reasons v2)" "set r3 = set (sd_reasons v3)"
    using normalize_reason_codes_Inr(1) [OF r2] normalize_reason_codes_Inr(1) [OF r3] by simp_all
  let ?exact = "filter (\<lambda>c. c \<notin> set r2) r3 = [] \<and> filter (\<lambda>c. c \<notin> set r3) r2 = []"
  have exact: "?exact \<longleftrightarrow> set (sd_reasons v2) = set (sd_reasons v3)"
    by (auto simp: filter_empty_conv s [symmetric])
  define reasons where "reasons = \<lparr>rd_common = filter (\<lambda>c. c \<in> set r3) r2, rd_added = filter (\<lambda>c. c \<notin> set r2) r3,
      rd_missing = filter (\<lambda>c. c \<notin> set r3) r2\<rparr>"
  have rs: "diff_reasons d = reasons"
    using assms by (auto simp: create_decision_diff_def create_reason_diff_def r2 r3 Let_def reasons_def)
  have kind: "diff_kind_of d =
      (if sd_status v2 \<noteq> sd_status v3 \<and> (sd_status v2 = Abstained \<or> sd_status v3 = Abstained) then DiffAbstention
       else if sd_status v2 \<noteq> sd_status v3 then DiffStatus else if sd_selected v2 \<noteq> sd_selected v3 then DiffSelection
       else if sd_role v2 \<noteq> sd_role v3 then DiffRole else if \<not> ?exact then DiffReasonsOnly else DiffNone)"
    using assms by (auto simp: create_decision_diff_def create_reason_diff_def r2 r3 Let_def)
  have "\<exists>e. create_decision_diff v3 v2 = Inr e \<and> diff_kind_of e = diff_kind_of d \<and>
       rd_added (diff_reasons e) = filter (\<lambda>c. c \<notin> set r3) r2 \<and> rd_missing (diff_reasons e) = filter (\<lambda>c. c \<notin> set r2) r3"
    unfolding kind by (auto simp: create_decision_diff_def create_reason_diff_def r2 r3 Let_def)
  moreover have "diff_kind_of d = DiffNone \<longleftrightarrow> sd_status v2 = sd_status v3 \<and> sd_selected v2 = sd_selected v3 \<and>
      sd_role v2 = sd_role v3 \<and> set (sd_reasons v2) = set (sd_reasons v3)"
    unfolding kind exact by simp
  moreover have "diff_kind_of d = DiffAbstention \<longleftrightarrow>
      sd_status v2 \<noteq> sd_status v3 \<and> (sd_status v2 = Abstained \<or> sd_status v3 = Abstained)"
    unfolding kind by simp
  ultimately show ?thesis unfolding rs by (auto simp: reasons_def s)
qed

lemma comparisons_failures: "length (comparisons_of obs) + length (failures_of obs) = length obs"
  by (induction obs) (auto simp: comparisons_of_def failures_of_def split: shadow_observation.splits)

lemma group_sizes:
  "distinct vs \<Longrightarrow> f ` set xs \<subseteq> set vs \<Longrightarrow> (\<Sum>v\<leftarrow>vs. length (filter (\<lambda>x. f x = v) xs)) = length xs"
proof (induction xs)
  case (Cons x xs)
  have "(\<Sum>v\<leftarrow>vs. length (filter (\<lambda>x. f x = v) (x # xs))) =
      (\<Sum>v\<leftarrow>vs. (if f x = v then 1 else 0) + length (filter (\<lambda>x. f x = v) xs))"
    by (intro arg_cong [of _ _ sum_list] map_cong) auto
  also have "\<dots> = (\<Sum>v\<leftarrow>vs. if f x = v then 1 else 0) + length xs"
    using Cons by (simp add: sum_list_addf)
  also have "(\<Sum>v\<leftarrow>vs. if f x = v then 1 else 0) = (\<Sum>v \<in> set vs. if f x = v then 1 else 0 :: nat)"
    by (rule sum_list_distinct_conv_sum_set [OF Cons.prems(1)])
  also have "\<dots> = 1" using Cons.prems(2) by simp
  finally show ?case by simp
qed simp

lemma segment_metrics_axis:
  assumes "axis \<in> set segment_dimensions"
  shows "filter (\<lambda>m. sm_dimension m = axis) (segment_metrics obs) =
    map (segment_metric_of obs axis) (js_sort compare_strings (js_set (map (segment_value axis) obs)))"
proof -
  have "sm_dimension (segment_metric_of obs a v) = a" for a v by (simp add: segment_metric_of_def Let_def)
  then have f: "filter (\<lambda>m. sm_dimension m = axis) (map (segment_metric_of obs a) vs) =
      (if a = axis then map (segment_metric_of obs a) vs else [])" for a vs
    by (simp add: filter_map comp_def)
  have "distinct segment_dimensions" by (simp add: segment_dimensions_def)
  with assms have "concat (map (\<lambda>a. if a = axis then g a else []) segment_dimensions) = g axis" for g :: "string \<Rightarrow> segment_metric list"
    by (auto simp: segment_dimensions_def)
  then show ?thesis by (simp add: segment_metrics_def filter_concat comp_def f)
qed

lemma segment_groups_sum:
  assumes "axis \<in> set segment_dimensions"
  shows "(\<Sum>m\<leftarrow>filter (\<lambda>m. sm_dimension m = axis) (segment_metrics obs). sm_observations m) = length obs"
proof -
  have "sm_observations (segment_metric_of obs axis v) = length (filter (\<lambda>ob. segment_value axis ob = v) obs)" for v
    by (simp add: segment_metric_of_def Let_def)
  then show ?thesis
    unfolding segment_metrics_axis [OF assms] by (simp add: comp_def group_sizes)
qed

lemma regression_total_0: "regression_total cs = 0 \<longleftrightarrow> (\<forall>c \<in> set cs. sc_regressions c = [])"
  by (induction cs) (auto simp: regression_total_def)

lemma js_set_length: "length (js_set xs) = length xs \<longleftrightarrow> distinct xs" for xs :: "string list"
  using card_distinct [of xs] distinct_card [of xs] distinct_card [of "js_set xs"] by auto

lemma create_shadow_dashboard_Inr:
  assumes "create_shadow_dashboard obs = Inr d"
  shows "\<exists>did fp. d = dashboard_core obs\<lparr>db_id := did, db_fingerprint := fp\<rparr> \<and> is_stable_hash did \<and>
     dashboard_fingerprint (dashboard_core obs\<lparr>db_id := did\<rparr>) = Inr fp \<and>
     (\<forall>ob \<in> set obs. sv_valid (validate_shadow_observation ob)) \<and> distinct (map observation_id obs)"
proof -
  from assms obtain did fp ns v where ok: "\<not> list_ex (\<lambda>ob. \<not> sv_valid (validate_shadow_observation ob)) obs"
    and dist: "length (js_set (map observation_id obs)) = length (map observation_id obs)"
    and did: "hash_of v ns = Inr did" and fp: "dashboard_fingerprint (dashboard_core obs\<lparr>db_id := did\<rparr>) = Inr fp"
    and d: "d = dashboard_core obs\<lparr>db_id := did, db_fingerprint := fp\<rparr>"
    unfolding create_shadow_dashboard_def Let_def and_then_Inr_iff require_Inr_iff by blast
  from ok have "\<forall>ob \<in> set obs. sv_valid (validate_shadow_observation ob)" by (simp add: list_ex_iff)
  moreover from dist have "distinct (map observation_id obs)" by (simp only: js_set_length)
  ultimately show ?thesis using d fp hash_of_stable [OF did] by blast
qed

lemma dashboard_fingerprint_upd [simp]: "dashboard_fingerprint (d\<lparr>db_fingerprint := fp\<rparr>) = dashboard_fingerprint d"
  by (simp add: dashboard_fingerprint_def dashboard_core_fields_def)

lemma dashboard_keys_clean:
  "list_all (\<lambda>k. \<not> forbidden_key k)
     [''version'', ''rawDecisionPayloadStored'', ''piiAllowed'', ''commercialFieldsAllowed'', ''counts'',
      ''observations'', ''comparisons'', ''executionErrors'', ''exactDecisionAgreements'',
      ''selectionDivergences'', ''statusDivergences'', ''abstentionDivergences'', ''rates'',
      ''executionErrorRate'', ''exactDecisionAgreementRate'', ''selectionAgreementRate'',
      ''statusAgreementRate'', ''exactReasonAgreementRate'', ''criticalRegressionCounts'', ''code'',
      ''count'', ''reasonDiffCounts'', ''reasonCode'', ''addedInV3Count'', ''missingFromV3Count'',
      ''segmentMetrics'', ''dimension'', ''value'', ''observationCount'', ''comparisonCount'',
      ''executionErrorCount'', ''selectionDivergenceCount'', ''statusDivergenceCount'',
      ''criticalRegressionCount'', ''gateSummary'', ''minimumObservationCountMet'',
      ''minimumComparisonCountMet'', ''executionErrorRateWithinLimit'', ''zeroCriticalRegressions'',
      ''observedSegmentGroupsSufficient'', ''dashboardId'']"
  by code_simp

lemma dashboard_key_clean [simp]:
  "\<not> forbidden_key ''version''" "\<not> forbidden_key ''rawDecisionPayloadStored''"
  "\<not> forbidden_key ''piiAllowed''" "\<not> forbidden_key ''commercialFieldsAllowed''"
  "\<not> forbidden_key ''counts''" "\<not> forbidden_key ''observations''"
  "\<not> forbidden_key ''comparisons''" "\<not> forbidden_key ''executionErrors''"
  "\<not> forbidden_key ''exactDecisionAgreements''" "\<not> forbidden_key ''selectionDivergences''"
  "\<not> forbidden_key ''statusDivergences''" "\<not> forbidden_key ''abstentionDivergences''"
  "\<not> forbidden_key ''rates''" "\<not> forbidden_key ''executionErrorRate''"
  "\<not> forbidden_key ''exactDecisionAgreementRate''" "\<not> forbidden_key ''selectionAgreementRate''"
  "\<not> forbidden_key ''statusAgreementRate''" "\<not> forbidden_key ''exactReasonAgreementRate''"
  "\<not> forbidden_key ''criticalRegressionCounts''" "\<not> forbidden_key ''code''"
  "\<not> forbidden_key ''count''" "\<not> forbidden_key ''reasonDiffCounts''"
  "\<not> forbidden_key ''reasonCode''" "\<not> forbidden_key ''addedInV3Count''"
  "\<not> forbidden_key ''missingFromV3Count''" "\<not> forbidden_key ''segmentMetrics''"
  "\<not> forbidden_key ''dimension''" "\<not> forbidden_key ''value''"
  "\<not> forbidden_key ''observationCount''" "\<not> forbidden_key ''comparisonCount''"
  "\<not> forbidden_key ''executionErrorCount''" "\<not> forbidden_key ''selectionDivergenceCount''"
  "\<not> forbidden_key ''statusDivergenceCount''" "\<not> forbidden_key ''criticalRegressionCount''"
  "\<not> forbidden_key ''gateSummary''" "\<not> forbidden_key ''minimumObservationCountMet''"
  "\<not> forbidden_key ''minimumComparisonCountMet''"
  "\<not> forbidden_key ''executionErrorRateWithinLimit''"
  "\<not> forbidden_key ''zeroCriticalRegressions''"
  "\<not> forbidden_key ''observedSegmentGroupsSufficient''" "\<not> forbidden_key ''dashboardId''"
  using dashboard_keys_clean by (simp_all only: list.pred_inject simp_thms)

lemma clean_count [simp]: "clean_json (json_count n)"
  by (simp add: json_count_def)

lemma clean_dashboard: "list_all (\<lambda>(key, v). \<not> forbidden_key key \<and> clean_json v) (dashboard_core_fields d)"
proof -
  have "list_all clean_json (map metric_json ms)" for ms
    by (simp add: list_all_iff metric_json_def)
  moreover have "list_all clean_json (map (\<lambda>(code, n). JObject [(''code'', JString (f code)), (''count'', json_count n)]) xs)"
    for f :: "critical_regression \<Rightarrow> string" and xs
    by (auto simp: list_all_iff)
  moreover have "list_all clean_json (map (\<lambda>(code, a, m). JObject [(''reasonCode'', JString code),
      (''addedInV3Count'', json_count a), (''missingFromV3Count'', json_count m)]) xs)" for xs
    by (auto simp: list_all_iff)
  ultimately show ?thesis
    by (simp add: dashboard_core_fields_def split: option.split)
qed

lemma round6_mono: "v \<le> w \<Longrightarrow> round6 v \<le> round6 w"
  by (simp add: round6_def div_Fin_mono js_round_mono times_Fin_mono)

lemma safe_rate_bounds:
  assumes "n \<le> m" and "safe_rate n m = Some r"
  shows "Fin 0 \<le> r \<and> r \<le> Fin 1"
proof -
  have one: "double 1" using double_of_int [of 1] by simp
  from assms have m: "0 < m" and r: "r = round6 (js_div (Fin (of_nat n)) (Fin (of_nat m)))"
    by (auto simp: safe_rate_def split: if_splits)
  have "Fin 0 \<le> js_div (Fin (of_nat n)) (Fin (of_nat m))" using m by (simp add: rnd_nonneg)
  moreover have "js_div (Fin (of_nat n)) (Fin (of_nat m)) \<le> Fin 1"
    using assms(1) m one by (simp add: rnd_le_double)
  ultimately have "round6 (Fin 0) \<le> r \<and> r \<le> round6 (Fin 1)" unfolding r by (blast intro: round6_mono)
  moreover have "round6 (Fin 0) = Fin 0" "round6 (Fin 1) = Fin 1"
    using rnd_of_int [of 1000000] rnd_of_int [of 1] js_round_of_int [of 1000000] js_round_of_int [of 0]
    by (simp_all add: round6_def del: js_round_of_int)
  ultimately show ?thesis by simp
qed

lemma bounded_fin: "Fin a \<le> x \<Longrightarrow> x \<le> Fin b \<Longrightarrow> is_fin x"
  by (cases x) auto

lemma finite_rate: "n \<le> m \<Longrightarrow> case safe_rate n m of None \<Rightarrow> True | Some r \<Rightarrow> is_fin r"
  using safe_rate_bounds [of n m] by (auto split: option.split intro: bounded_fin)

lemma how_many_le: "how_many p xs \<le> length xs"
  by (simp add: how_many_def)

lemma finite_dashboard: "list_all (\<lambda>(key, v). finite_json v) (dashboard_core_fields (dashboard_core obs))"
proof -
  have e: "length (failures_of obs) \<le> length obs" using comparisons_failures [of obs] by simp
  have m: "list_all finite_json (map metric_json ms)" for ms
    by (simp add: list_all_iff metric_json_def)
  have c: "list_all finite_json (map (\<lambda>(code, n). JObject [(''code'', JString (f code)), (''count'', json_count n)]) xs)"
    for f :: "critical_regression \<Rightarrow> string" and xs
    by (auto simp: list_all_iff)
  have r: "list_all finite_json (map (\<lambda>(code, a, m). JObject [(''reasonCode'', JString code),
      (''addedInV3Count'', json_count a), (''missingFromV3Count'', json_count m)]) xs)" for xs
    by (auto simp: list_all_iff)
  have s: "finite_json (json_option JNumber x) \<longleftrightarrow> (case x of None \<Rightarrow> True | Some v \<Rightarrow> is_fin v)" for x
    by (simp split: option.split)
  have "is_fin (case safe_rate (length (failures_of obs)) (length obs) of None \<Rightarrow> Fin 0 | Some r \<Rightarrow> r)"
    using finite_rate [OF e] by (simp split: option.splits)
  then show ?thesis
    using m c r
    by (simp add: dashboard_core_fields_def dashboard_core_def Let_def s finite_rate how_many_le del: finite_json_option)
qed

lemma list_all_fields_object: "list_all (\<lambda>(key, v). finite_json v) kvs \<Longrightarrow> finite_json (JObject kvs)"
  by simp

lemma dashboard_core_fields_upd [simp]:
  "dashboard_core_fields (d\<lparr>db_id := did\<rparr>) = dashboard_core_fields d"
  "dashboard_core_fields (d\<lparr>db_fingerprint := fp\<rparr>) = dashboard_core_fields d"
  by (simp_all add: dashboard_core_fields_def)

lemma dashboard_total:
  assumes ok: "list_all (\<lambda>ob. sv_valid (validate_shadow_observation ob)) obs \<and> distinct (map observation_id obs)"
  shows "\<exists>d. create_shadow_dashboard obs = Inr d"
proof -
  from ok have v: "\<not> list_ex (\<lambda>ob. \<not> sv_valid (validate_shadow_observation ob)) obs"
    by (simp add: list_all_iff list_ex_iff)
  have l: "length (js_set (map observation_id obs)) = length (map observation_id obs)"
    using ok by (simp only: js_set_length)
  let ?fields = "dashboard_core_fields (dashboard_core obs)"
  have f: "finite_json (JObject ?fields)" by (rule list_all_fields_object [OF finite_dashboard])
  have "finite_json (JObject [(''observationFingerprints'', json_strings xs), (''core'', JObject ?fields)])" for xs
    using f by simp
  then obtain did where did: "hash_of (JObject [(''observationFingerprints'',
      json_strings (js_sort compare_strings (map observation_fingerprint obs))),
      (''core'', JObject ?fields)]) ''stayopti-v3-shadow-dashboard-id'' = Inr did"
    using hash_of_defined by blast
  have "finite_json (JObject ((''dashboardId'', JString did) # ?fields))" using f by simp
  then obtain fp where "dashboard_fingerprint (dashboard_core obs\<lparr>db_id := did\<rparr>) = Inr fp"
    using hash_of_defined by (fastforce simp: dashboard_fingerprint_def)
  then show "\<exists>d. create_shadow_dashboard obs = Inr d"
    by (simp add: create_shadow_dashboard_def Let_def v l did del: length_map)
qed

text \<open>A dashboard is computed for exactly the lists of valid observations with distinct identities.\<close>

theorem dashboard_defined_iff:
  "(\<exists>d. create_shadow_dashboard obs = Inr d) \<longleftrightarrow>
     list_all (\<lambda>ob. sv_valid (validate_shadow_observation ob)) obs \<and> distinct (map observation_id obs)"
  using create_shadow_dashboard_Inr dashboard_total by (auto simp: list_all_iff)

text \<open>The safety signals of a comparison that leave no critical regression.\<close>

definition safety_passes :: "safety_signals \<Rightarrow> bool" where
  "safety_passes s \<longleftrightarrow>
     price_integrity s = PricePass \<and> public_rate_consistency s \<in> {RatesVerified, RatesNotApplicable} \<and>
     commercial_firewall s = CheckPass \<and> privacy_firewall s = CheckPass \<and> deterministic_replay s = CheckPass \<and>
     hard_constraints s = CheckPass \<and> recommendation_safety s = CheckPass"

lemma critical_regressions_Nil: "create_critical_regressions s = [] \<longleftrightarrow> safety_passes s"
  unfolding create_critical_regressions_def Let_def filter_empty_conv critical_regression_order_def safety_passes_def
  by (simp, blast)

lemma valid_comparison_regressions:
  "sv_valid (validate_shadow_observation (Comparison c)) \<Longrightarrow> sc_regressions c = create_critical_regressions (sc_safety c)"
  by (auto simp: validate_shadow_observation_def validation_of_valid observation_issues_def comparison_issues_def
      split: sum.splits if_splits)

lemma set_comparisons_of: "c \<in> set (comparisons_of obs) \<longleftrightarrow> Comparison c \<in> set obs"
  by (induction obs) (auto simp: comparisons_of_def split: shadow_observation.splits)

lemma segment_metrics_all:
  "list_all (\<lambda>m. k \<le> sm_observations m) (segment_metrics obs) \<longleftrightarrow>
     list_all (\<lambda>axis. list_all (\<lambda>ob. k \<le> length (filter (\<lambda>o2. segment_value axis o2 = segment_value axis ob) obs)) obs)
       segment_dimensions"
  by (auto simp: segment_metrics_def list_all_iff segment_metric_of_def Let_def)

lemma segment_metrics_Nil: "segment_metrics obs = [] \<longleftrightarrow> obs = []"
proof -
  have "js_sort compare_strings (js_set xs) = [] \<longleftrightarrow> set (js_sort compare_strings (js_set xs)) = {}" for xs :: "string list"
    by (simp only: set_empty)
  then have "js_sort compare_strings (js_set xs) = [] \<longleftrightarrow> xs = []" for xs :: "string list" by simp
  then show ?thesis by (simp add: segment_metrics_def segment_dimensions_def)
qed

lemma created_dashboard_valid:
  assumes "create_shadow_dashboard obs = Inr d"
  shows "validate_dashboard d = Inr (validation_of [])"
proof -
  obtain did fp where d: "d = dashboard_core obs\<lparr>db_id := did, db_fingerprint := fp\<rparr>" and did: "is_stable_hash did"
    and fp: "dashboard_fingerprint (dashboard_core obs\<lparr>db_id := did\<rparr>) = Inr fp"
    using create_shadow_dashboard_Inr [OF assms] by blast
  have "dashboard_fingerprint d = Inr fp" unfolding d dashboard_fingerprint_upd by (rule fp)
  moreover have "db_id d = did" "db_fingerprint d = fp" by (simp_all add: d)
  moreover have "clean_json (JObject ((''dashboardId'', JString x) # dashboard_core_fields d @ [(''fingerprint'', JString y)]))" for x y
    using clean_dashboard [of d] by simp
  then have "find_forbidden_paths (JObject ((''dashboardId'', JString x) # dashboard_core_fields d @ [(''fingerprint'', JString y)])) p = []" for x y p
    by (rule clean_json_paths)
  ultimately show ?thesis using did by (simp add: validate_dashboard_def del: find_forbidden_paths.simps)
qed

lemma dashboard_gates_exact:
  assumes "\<forall>ob \<in> set obs. sv_valid (validate_shadow_observation ob)"
  shows "dg_no_regressions (dashboard_gates_of obs rate) \<longleftrightarrow> list_all (\<lambda>c. safety_passes (sc_safety c)) (comparisons_of obs)"
proof -
  have "sc_regressions c = [] \<longleftrightarrow> safety_passes (sc_safety c)" if "c \<in> set (comparisons_of obs)" for c
    using assms that valid_comparison_regressions [of c] by (simp add: set_comparisons_of critical_regressions_Nil)
  then show ?thesis
    by (simp add: dashboard_gates_of_def Let_def maximum_critical_regressions_def regression_total_0 list_all_iff)
qed

text \<open>A dashboard reports its observations truthfully: comparisons and failures add up to the observations,
  on every axis of the segments the groups add up to them too, it is ready for a canary exactly
  when there are at least 1000 observations with 990 comparisons, at most 0.5 per cent failures,
  every safety signal of every comparison passed and every group that occurs has 30 observations;
  it is blocked exactly when a safety signal failed or the error rate is too high; and the record
  is valid.\<close>

theorem dashboard_exact:
  assumes "create_shadow_dashboard obs = Inr d"
  shows "db_observations d = length obs \<and> db_comparisons d + db_errors d = length obs \<and>
    (db_status d = ReadyForCanary \<longleftrightarrow>
       1000 \<le> length obs \<and> 990 \<le> length (comparisons_of obs) \<and> db_error_rate d \<le> lit 0.005 \<and>
       list_all (\<lambda>c. safety_passes (sc_safety c)) (comparisons_of obs) \<and>
       list_all (\<lambda>axis. list_all (\<lambda>ob. 30 \<le> length (filter (\<lambda>o2. segment_value axis o2 = segment_value axis ob) obs)) obs)
         segment_dimensions) \<and>
    (db_status d = BlockedByRegression \<longleftrightarrow>
       \<not> list_all (\<lambda>c. safety_passes (sc_safety c)) (comparisons_of obs) \<or> \<not> db_error_rate d \<le> lit 0.005) \<and>
    list_all (\<lambda>axis. (\<Sum>m\<leftarrow>filter (\<lambda>m. sm_dimension m = axis) (db_segments d). sm_observations m) = length obs)
      segment_dimensions \<and>
    validate_dashboard d = Inr (validation_of [])"
proof -
  obtain did fp where d: "d = dashboard_core obs\<lparr>db_id := did, db_fingerprint := fp\<rparr>"
    and v: "\<forall>ob \<in> set obs. sv_valid (validate_shadow_observation ob)"
    using create_shadow_dashboard_Inr [OF assms] by blast
  define g where "g = dashboard_gates_of obs (db_error_rate d)"
  have sel: "db_observations d = length obs" "db_comparisons d = length (comparisons_of obs)"
    "db_errors d = length (failures_of obs)" "db_segments d = segment_metrics obs" "db_status d = dashboard_status_of g"
    by (simp_all add: d g_def dashboard_core_def Let_def)
  have n: "dg_no_regressions g \<longleftrightarrow> list_all (\<lambda>c. safety_passes (sc_safety c)) (comparisons_of obs)"
    unfolding g_def by (rule dashboard_gates_exact [OF v])
  have e: "dg_error_rate_ok g \<longleftrightarrow> db_error_rate d \<le> lit 0.005"
    by (simp add: g_def dashboard_gates_of_def Let_def maximum_shadow_error_rate_def)
  have s: "dg_segments_ok g \<longleftrightarrow> obs \<noteq> [] \<and> list_all (\<lambda>axis. list_all (\<lambda>ob.
      30 \<le> length (filter (\<lambda>o2. segment_value axis o2 = segment_value axis ob) obs)) obs) segment_dimensions"
    by (simp add: g_def dashboard_gates_of_def Let_def minimum_segment_group_def segment_metrics_all segment_metrics_Nil)
  have c: "dg_observations_met g \<longleftrightarrow> 1000 \<le> length obs" "dg_comparisons_met g \<longleftrightarrow> 990 \<le> length (comparisons_of obs)"
    by (simp_all add: g_def dashboard_gates_of_def Let_def minimum_shadow_observations_def minimum_shadow_comparisons_def)
  have ready: "dashboard_status_of g = ReadyForCanary \<longleftrightarrow> dg_observations_met g \<and> dg_comparisons_met g \<and>
      dg_error_rate_ok g \<and> dg_no_regressions g \<and> dg_segments_ok g"
    and blocked: "dashboard_status_of g = BlockedByRegression \<longleftrightarrow> \<not> dg_no_regressions g \<or> \<not> dg_error_rate_ok g"
    by (simp_all add: dashboard_status_of_def)
  have ne: "1000 \<le> length obs \<Longrightarrow> obs \<noteq> []" by auto
  have sums: "list_all (\<lambda>axis. (\<Sum>m\<leftarrow>filter (\<lambda>m. sm_dimension m = axis) (segment_metrics obs). sm_observations m) = length obs)
      segment_dimensions"
    by (simp add: list_all_iff segment_groups_sum)
  show ?thesis
    unfolding sel ready blocked c e n s
    using ne sums comparisons_failures [of obs] created_dashboard_valid [OF assms] by blast
qed

definition sample_segment :: segment where
  "sample_segment = \<lparr>seg_profile = BalancedProfile, seg_destination = Urban, seg_lead_time = ShortLead,
     seg_duration = ShortStay, seg_coverage = HighCoverage\<rparr>"

lemma dashboard_exact_witness:
  "\<exists>obs d. create_shadow_dashboard obs = Inr d \<and> length obs = 1 \<and> db_comparisons d + db_errors d = 1 \<and>
     db_status d \<noteq> ReadyForCanary"
proof -
  have "bounded_token '':_-'' 7 127 ''token-0001''" by code_simp
  moreover have "is_stable_hash ''fnv1a32-00000000''" by code_simp
  ultimately obtain f where f: "observation_issues (Failure f) = []"
    using create_shadow_error_Inr by blast
  then have "sv_valid (validate_shadow_observation (Failure f))"
    by (simp add: validate_shadow_observation_def validation_of_valid)
  then obtain d where d: "create_shadow_dashboard [Failure f] = Inr d"
    using dashboard_total [of "[Failure f]"] by auto
  then show ?thesis using dashboard_exact [OF d] by (intro exI [of _ "[Failure f]"] exI [of _ d]) simp
qed

definition sample_decision :: "serving_engine \<Rightarrow> decision_status \<Rightarrow> shadow_decision" where
  "sample_decision e s = \<lparr>sd_engine = e, sd_engine_version = ''2.0.0'', sd_policy_version = ''2.0.0'',
     sd_fingerprint = ''fnv1a32-00000000'', sd_status = s, sd_selected = None, sd_role = None, sd_reasons = []\<rparr>"

lemma decision_diff_exact_witness:
  "\<exists>d. create_decision_diff (sample_decision EngineV2 NoFeasibleSolution) (sample_decision EngineV3 Abstained) = Inr d \<and>
     diff_kind_of d = DiffAbstention"
proof -
  obtain d where d: "create_decision_diff (sample_decision EngineV2 NoFeasibleSolution) (sample_decision EngineV3 Abstained) = Inr d"
    by (simp add: create_decision_diff_def create_reason_diff_def normalize_reason_codes_def sample_decision_def Let_def)
  with decision_diff_exact [OF d] show ?thesis by (simp add: sample_decision_def)
qed

end
