(* ===== verification/Promotion.thy ===== *)
theory Promotion
  imports ShadowComparison
begin

text \<open>
  The promotion of engine v3, the second half of
  \<open>src/src/engine-v3/promotion/shadowCanaryPromotionV3.ts\<close>: the review of the gates, the
  authorization of a stage, the kill switch and the assignment of a request to an engine.
  \<open>validateEvaluationCalibrationResultV3\<close> belongs to the offline evaluation, which is not
  modelled; it is the parameter \<open>evaluation_valid\<close>.
\<close>

section \<open>Reason codes\<close>

text \<open>\<open>SMARTSTAY_REASON_CODES_V3\<close> of \<open>src/src/engine-v3/contract/reasonCodesV3.ts\<close>.\<close>

definition smartstay_reason_codes :: "string list" where
  "smartstay_reason_codes =
     [''adapter:from-v2'', ''adapter:v2-evidence-bridged'',
      ''counterfactual:exact-thresholds-unavailable'', ''counterfactual:exact-thresholds-available'',
      ''context:evaluated'', ''context:golden-gate-pending'', ''context:partial'',
      ''context:shadow-only'', ''context:unavailable'', ''context:unknown-not-penalty'',
      ''convenience:evaluated'', ''convenience:insufficient-coverage'', ''decision:abstained'',
      ''decision:decisionally-equivalent'', ''decision:no-feasible-solution'', ''decision:recommended'',
      ''explanation:abstention-explained'', ''explanation:alternative-available'',
      ''explanation:alternative-unavailable'', ''explanation:copy-evidence-aligned'',
      ''explanation:evaluated'', ''explanation:no-uncalibrated-percentage'',
      ''explanation:primary-reason-available'', ''explanation:primary-reason-unavailable'',
      ''explanation:public-gate-pending'', ''explanation:recommendation-available'',
      ''explanation:recommendation-unavailable'', ''explanation:shadow-only'',
      ''explanation:switch-condition-available'', ''explanation:switch-condition-unavailable'',
      ''explanation:trade-off-available'', ''explanation:trade-off-unavailable'',
      ''explanation:uncertainty-available'', ''explanation:uncertainty-unavailable'',
      ''evaluation:adversarial-required'', ''evaluation:blind-expert-required'',
      ''evaluation:blind-human-required'', ''evaluation:commercially-neutral'',
      ''evaluation:counterfactual-required'', ''evaluation:critical-regression-blocked'',
      ''evaluation:gate-fail'', ''evaluation:gate-pass'', ''evaluation:golden-dataset-required'',
      ''evaluation:insufficient-data'', ''evaluation:no-production-self-promotion'',
      ''evaluation:offline-only'', ''evaluation:primary-metrics-evaluated'',
      ''evaluation:provider-dependence-audited'', ''evaluation:results-not-observed'',
      ''evaluation:segment-audited'', ''evaluation:shadow-promotion-required'',
      ''evaluation:thresholds-frozen'', ''firewall:commercial-fields-absent'',
      ''flexibility:cancellation-protection-evaluated'', ''flexibility:context-unavailable'',
      ''flexibility:monetary-value-available'', ''flexibility:monetary-value-unavailable'',
      ''flexibility:pay-later-value-available'', ''flexibility:payment-timing-unknown'',
      ''friction:evaluated'', ''geometry:commercially-neutral'', ''geometry:comparison-incomparable'',
      ''geometry:decision-map-internal'', ''geometry:diminishing-returns'', ''geometry:evaluated'',
      ''geometry:marginal-value-evaluated'', ''geometry:missing-data-not-disadvantage'',
      ''geometry:pairwise-equivalent'', ''geometry:pairwise-preferred'', ''geometry:partial'',
      ''geometry:shadow-only'', ''geometry:strong-pareto-dominated'',
      ''geometry:strong-pareto-frontier'', ''geometry:threshold-available'',
      ''geometry:threshold-unavailable'', ''geometry:unavailable'', ''geometry:weak-pareto-dominated'',
      ''geometry:weak-pareto-frontier'', ''integrity:availability-recheck-required'',
      ''integrity:compatible-temporal-pair-unavailable'', ''integrity:cost-incomplete'',
      ''integrity:coverage-computed'', ''integrity:nightly-prices-invalid'',
      ''integrity:nightly-prices-not-provided'', ''integrity:offer-canonicalized'',
      ''integrity:public-rates-failed'', ''integrity:public-rates-unverified'',
      ''integrity:public-split-promotion-blocked'', ''integrity:public-v3-promotion-blocked'',
      ''integrity:recheck-decision-replay-required'', ''integrity:scope-incomplete'',
      ''integrity:temporal-evidence-complete'', ''interaction:context-unavailable'',
      ''interaction:destination-aware'', ''interaction:group'', ''interaction:long-stay'',
      ''location:destination-aware'', ''location:straight-line-fallback-only'',
      ''location:travel-time-evaluated'', ''location:travel-time-unavailable'',
      ''location:trip-specific'', ''outcome:attribution-measured'',
      ''outcome:collection-disabled-default'', ''outcome:consent-denied'', ''outcome:consent-required'',
      ''outcome:consent-valid'', ''outcome:deletion-tested'',
      ''outcome:no-production-self-modification'', ''outcome:offline-dataset-ready'',
      ''outcome:offline-only'', ''outcome:pii-rejected'', ''outcome:privacy-signal-blocked'',
      ''outcome:pseudonymous-only'', ''outcome:retention-enforced'', ''outcome:schema-versioned'',
      ''outcome:shadow-promotion-required'', ''outcome:trace-pii-free'', ''peer:compatible-context'',
      ''peer:declared-fallback'', ''peer:direct-comparison-allowed'',
      ''peer:direct-comparison-blocked'', ''peer:exact-context'', ''peer:fallback-explicit'',
      ''peer:unavailable'', ''preference:declared'', ''preference:inferred'',
      ''preference:neutral-default'', ''promotion:calibration-gate-required'',
      ''promotion:canary-blocked'', ''promotion:canary-eligible'',
      ''promotion:critical-regression-blocked'', ''promotion:decision-diff-recorded'',
      ''promotion:human-gate-required'', ''promotion:kill-switch-activated'',
      ''promotion:kill-switch-armed'', ''promotion:manual-approval-required'',
      ''promotion:monitoring-required'', ''promotion:no-automatic-promotion'',
      ''promotion:policy-audit-visible'', ''promotion:public-disabled'',
      ''promotion:public-rates-verified'', ''promotion:reason-diff-recorded'',
      ''promotion:rollback-required'', ''promotion:v2-public-authority'', ''promotion:v3-shadow-only'',
      ''risk:canonical-floor-applied'', ''risk:evaluated'', ''risk:insufficient-evidence'',
      ''risk:shadow-only'', ''risk:source-score-used'', ''risk:uncertainty-separate'',
      ''robustness:evaluated'', ''robustness:decisionally-equivalent'', ''robustness:near-tie'',
      ''robustness:no-good-option'', ''robustness:scenario-evaluated'',
      ''robustness:scenario-not-applicable'', ''robustness:scenario-stable'',
      ''robustness:scenario-unstable'', ''robustness:shadow-only'', ''regret:evaluated'',
      ''regret:normalized-evaluated'', ''abstention:indistinguishable-options'',
      ''abstention:insufficient-evidence'', ''abstention:no-feasible-solution'',
      ''abstention:no-good-option'', ''abstention:not-required'', ''abstention:unstable-choice'',
      ''relaxation:not-needed'', ''relaxation:recommended'', ''relaxation:unavailable'',
      ''role:best-choice'', ''role:best-sensible-saving'', ''role:split-saver'',
      ''role:worthwhile-comfort-upgrade'', ''room:upgrade-not-worthwhile'',
      ''room:upgrade-unavailable'', ''room:upgrade-worthwhile'', ''scale:analyzed-set-only'',
      ''scale:bounds-validated'', ''scale:bounds-violated'', ''scale:coarse-to-fine-planned'',
      ''scale:coverage-computed'', ''scale:dynamic-computation-bounded'',
      ''scale:full-equivalence-failed'', ''scale:full-equivalence-pass'',
      ''scale:full-equivalence-unavailable'', ''scale:ineligible-pruned'',
      ''scale:missing-bound-protected'', ''scale:policy-candidate-protected'',
      ''scale:public-market-claim-blocked'', ''scale:safe-bound-pruned'', ''scale:safe-bound-retained'',
      ''scale:safe-pruning-audited'', ''scale:scarcity-current-set-only'',
      ''scale:search-wide-context'', ''scale:shadow-only'', ''scale:source-set-complete'',
      ''scale:source-set-partial'', ''scale:source-set-unknown'', ''scale:strong-alternative-lost'',
      ''scale:strong-alternatives-preserved'', ''scale:work-budget-blocked'',
      ''scale:work-budget-pass'', ''solution:single'', ''solution:split'', ''temporal:not-evaluated'',
      ''utility:budget-no-spend-bias'', ''utility:evaluated'', ''utility:non-linear'',
      ''utility:shadow-only'', ''utility:unavailable'', ''calibration:evaluated'',
      ''fairness:evaluated'', ''quality:marginal-evaluated'', ''savings:quality-preserved'']"

definition is_reason_code :: "string \<Rightarrow> bool" where
  "is_reason_code code \<longleftrightarrow> code \<in> set smartstay_reason_codes"

definition unique_reason_codes :: "string list \<Rightarrow> string list" where
  "unique_reason_codes codes = js_sort compare_strings (js_set codes)"

section \<open>Types\<close>

datatype target_stage = ToShadow | ToCanary | ToPublic

datatype promotion_stage = StageOff | StageAt target_stage

datatype gate_result_status = GatePass | GateFail | GatePending

record gate_evidence =
  ge_status :: gate_result_status
  ge_fingerprint :: "string option"

record external_gates =
  eg_public_rates :: gate_evidence
  eg_invariants :: gate_evidence
  eg_security :: gate_evidence
  eg_human :: gate_evidence
  eg_monitoring :: gate_evidence

datatype run_status = NotRun | RunPass | RunFail

record canary_evidence =
  ce_status :: run_status
  ce_observations :: jsnum
  ce_hours :: jsnum
  ce_error_rate :: "jsnum option"
  ce_latency :: "jsnum option"
  ce_regressions :: jsnum
  ce_rollback_drill :: run_status
  ce_fingerprint :: "string option"

datatype evaluation_status = EvaluationPass | EvaluationFail | EvaluationInsufficient

record evaluation_result =
  er_status :: evaluation_status
  er_candidate_state :: string
  er_fingerprint :: string

datatype gate_id =
    EvaluationGate | PublicRateGate | InvariantGate | SecurityGate | HumanGate | DashboardGate
  | MonitoringGate | CanaryGate

record gate_result =
  gr_id :: gate_id
  gr_status :: gate_result_status
  gr_required_for :: "target_stage list"
  gr_fingerprint :: "string option"

record stage_eligibility =
  el_shadow :: bool
  el_canary :: bool
  el_public :: bool

record promotion_review =
  pr_id :: string
  pr_highest :: promotion_stage
  pr_eligibility :: stage_eligibility
  pr_gates :: "gate_result list"
  pr_reasons :: "string list"
  pr_fingerprint :: string

datatype authorization_status = Authorized | Blocked

datatype public_engine = ServeV2 | ServeMixedCanary | ServeV3

record promotion_authorization =
  pa_id :: string
  pa_target :: target_stage
  pa_status :: authorization_status
  pa_review_fingerprint :: string
  pa_manual_approval :: bool
  pa_public_engine :: public_engine
  pa_canary_limit :: jsnum
  pa_fingerprint :: string

datatype trigger_code =
    ManualTrigger | PriceTrigger | RateTrigger | RegressionTrigger | ErrorRateTrigger | LatencyTrigger

record kill_switch =
  ks_id :: string
  ks_active :: bool
  ks_rollback :: bool
  ks_triggers :: "trigger_code list"
  ks_fingerprint :: string

datatype assignment_reason =
    AuthorizationBlocked | ShadowV2Authoritative | CanaryV2Control | CanaryV3Assigned | PublicV3Authorized
  | KillSwitchFallback

record serving_assignment =
  sa_id :: string
  sa_target :: target_stage
  sa_engine :: serving_engine
  sa_bucket :: "jsnum option"
  sa_allocation :: jsnum
  sa_kill_switch :: bool
  sa_rollback :: bool
  sa_reason :: assignment_reason
  sa_fingerprint :: string

fun target_text :: "target_stage \<Rightarrow> string" where
  "target_text ToShadow = ''shadow''" | "target_text ToCanary = ''canary''" | "target_text ToPublic = ''public''"

fun stage_text :: "promotion_stage \<Rightarrow> string" where
  "stage_text StageOff = ''off''" | "stage_text (StageAt t) = target_text t"

fun stage_rank :: "promotion_stage \<Rightarrow> nat" where
  "stage_rank StageOff = 0"
| "stage_rank (StageAt ToShadow) = 1"
| "stage_rank (StageAt ToCanary) = 2"
| "stage_rank (StageAt ToPublic) = 3"

fun gate_id_text :: "gate_id \<Rightarrow> string" where
  "gate_id_text EvaluationGate = ''evaluation-calibration''"
| "gate_id_text PublicRateGate = ''public-rate-consistency''"
| "gate_id_text InvariantGate = ''invariants''"
| "gate_id_text SecurityGate = ''security''"
| "gate_id_text HumanGate = ''human-evaluation''"
| "gate_id_text DashboardGate = ''shadow-dashboard''"
| "gate_id_text MonitoringGate = ''monitoring''"
| "gate_id_text CanaryGate = ''canary-evidence''"

fun gate_status_text :: "gate_result_status \<Rightarrow> string" where
  "gate_status_text GatePass = ''pass''" | "gate_status_text GateFail = ''fail''" | "gate_status_text GatePending = ''pending''"

fun trigger_text :: "trigger_code \<Rightarrow> string" where
  "trigger_text ManualTrigger = ''manual-trigger''"
| "trigger_text PriceTrigger = ''price-integrity''"
| "trigger_text RateTrigger = ''public-rate-integrity''"
| "trigger_text RegressionTrigger = ''critical-regression''"
| "trigger_text ErrorRateTrigger = ''error-rate-regression''"
| "trigger_text LatencyTrigger = ''latency-regression''"

fun assignment_reason_text :: "assignment_reason \<Rightarrow> string" where
  "assignment_reason_text AuthorizationBlocked = ''authorization-blocked''"
| "assignment_reason_text ShadowV2Authoritative = ''shadow-v2-authoritative''"
| "assignment_reason_text CanaryV2Control = ''canary-v2-control''"
| "assignment_reason_text CanaryV3Assigned = ''canary-v3-assigned''"
| "assignment_reason_text PublicV3Authorized = ''public-v3-authorized''"
| "assignment_reason_text KillSwitchFallback = ''kill-switch-v2-fallback''"

fun public_engine_text :: "public_engine \<Rightarrow> string" where
  "public_engine_text ServeV2 = ''v2''" | "public_engine_text ServeMixedCanary = ''mixed-canary''" | "public_engine_text ServeV3 = ''v3''"

text \<open>\<open>PROMOTION_GATE_REQUIREMENTS\<close>, in the order of its keys.\<close>

definition all_gates :: "gate_id list" where
  "all_gates = [EvaluationGate, PublicRateGate, InvariantGate, SecurityGate, HumanGate, DashboardGate, MonitoringGate, CanaryGate]"

fun gate_requirements :: "gate_id \<Rightarrow> target_stage list" where
  "gate_requirements DashboardGate = [ToCanary, ToPublic]"
| "gate_requirements MonitoringGate = [ToCanary, ToPublic]"
| "gate_requirements CanaryGate = [ToPublic]"
| "gate_requirements _ = [ToShadow, ToCanary, ToPublic]"

section \<open>The review\<close>

definition is_evidence_fingerprint :: "string option \<Rightarrow> bool" where
  "is_evidence_fingerprint v =
     (case v of
        None \<Rightarrow> False
      | Some s \<Rightarrow> is_stable_hash s \<or>
          (take 7 s = ''sha256-'' \<and> length s = 71 \<and> list_all hex_char (drop 7 s)))"

definition validate_gate_evidence :: "gate_evidence \<Rightarrow> string \<Rightarrow> promotion_error + unit" where
  "validate_gate_evidence e label =
     require (if ge_status e = GatePending then ge_fingerprint e = None else is_evidence_fingerprint (ge_fingerprint e))
       (InvalidEvidenceLinkage label)"

definition validate_external_gates :: "external_gates \<Rightarrow> promotion_error + unit" where
  "validate_external_gates gates =
     and_then (validate_gate_evidence (eg_public_rates gates) ''publicRateConsistency'') (\<lambda>_.
     and_then (validate_gate_evidence (eg_invariants gates) ''invariants'') (\<lambda>_.
     and_then (validate_gate_evidence (eg_security gates) ''security'') (\<lambda>_.
     and_then (validate_gate_evidence (eg_human gates) ''humanEvaluation'') (\<lambda>_.
       validate_gate_evidence (eg_monitoring gates) ''monitoring''))))"

definition canary_evidence_passes :: "canary_evidence \<Rightarrow> bool" where
  "canary_evidence_passes e \<longleftrightarrow>
     ce_status e = RunPass \<and> minimum_canary_observations \<le> ce_observations e \<and> minimum_canary_hours \<le> ce_hours e \<and>
     (case ce_error_rate e of None \<Rightarrow> False | Some r \<Rightarrow> r \<le> maximum_error_rate_regression) \<and>
     (case ce_latency e of None \<Rightarrow> False | Some l \<Rightarrow> l \<le> maximum_latency_regression) \<and>
     num_eq (ce_regressions e) (Fin 0) \<and> ce_rollback_drill e = RunPass \<and> is_evidence_fingerprint (ce_fingerprint e)"

definition validate_canary_evidence :: "canary_evidence \<Rightarrow> promotion_error + unit" where
  "validate_canary_evidence e =
     and_then (require
       (js_is_integer (ce_observations e) \<and> \<not> ce_observations e < Fin 0 \<and> is_fin (ce_hours e) \<and> \<not> ce_hours e < Fin 0 \<and>
        js_is_integer (ce_regressions e) \<and> \<not> ce_regressions e < Fin 0 \<and>
        \<not> list_ex (\<lambda>v. case v of None \<Rightarrow> False | Some x \<Rightarrow> \<not> is_fin x \<or> x < Fin 0) [ce_error_rate e, ce_latency e])
       InvalidCanaryValues) (\<lambda>_.
     require (if ce_status e = NotRun then ce_fingerprint e = None else is_evidence_fingerprint (ce_fingerprint e))
       InvalidCanaryLinkage)"

definition stages_json :: "target_stage list \<Rightarrow> json" where
  "stages_json ts = json_strings (map target_text ts)"

definition gate_json :: "gate_result \<Rightarrow> json" where
  "gate_json g =
     JObject
       [(''gateId'', JString (gate_id_text (gr_id g))), (''status'', JString (gate_status_text (gr_status g))),
        (''requiredFor'', stages_json (gr_required_for g)), (''evidenceFingerprint'', json_option JString (gr_fingerprint g))]"

definition review_core_fields :: "promotion_review \<Rightarrow> (string \<times> json) list" where
  "review_core_fields r =
     [(''version'', JString promotion_version), (''phase'', JString ''v3-11''), (''publicServingEngine'', JString ''v2''),
      (''publicV3Enabled'', JBool False), (''automaticPromotionAllowed'', JBool False),
      (''manualApprovalRequired'', JBool True), (''highestEligibleStage'', JString (stage_text (pr_highest r))),
      (''stageEligibility'', JObject
        [(''shadow'', JBool (el_shadow (pr_eligibility r))), (''canary'', JBool (el_canary (pr_eligibility r))),
         (''public'', JBool (el_public (pr_eligibility r)))]),
      (''gateResults'', JArray (map gate_json (pr_gates r))), (''reasonCodes'', json_strings (pr_reasons r)),
      (''audit'', audit_json)]"

definition review_fingerprint :: "promotion_review \<Rightarrow> promotion_error + string" where
  "review_fingerprint r =
     hash_of (JObject ((''reviewId'', JString (pr_id r)) # review_core_fields r)) ''stayopti-v3-promotion-review''"

definition evaluation_passes :: "(evaluation_result \<Rightarrow> bool) \<Rightarrow> evaluation_result option \<Rightarrow> bool" where
  "evaluation_passes evaluation_valid result =
     (case result of
        None \<Rightarrow> False
      | Some r \<Rightarrow> evaluation_valid r \<and> er_status r = EvaluationPass \<and>
          er_candidate_state r = ''eligible-for-v3-11-shadow-gate'')"

definition dashboard_passes :: "dashboard option \<Rightarrow> promotion_error + bool" where
  "dashboard_passes db =
     (case db of
        None \<Rightarrow> Inr False
      | Some d \<Rightarrow> and_then (validate_dashboard d) (\<lambda>v. Inr (sv_valid v \<and> db_status d = ReadyForCanary)))"

definition promotion_gates ::
  "bool \<Rightarrow> evaluation_result option \<Rightarrow> bool \<Rightarrow> dashboard option \<Rightarrow> external_gates \<Rightarrow> canary_evidence \<Rightarrow> gate_result list" where
  "promotion_gates evaluation_pass evaluation dashboard_pass db gates canary =
     (let computed = (\<lambda>passed absent. if passed then GatePass else if absent then GatePending else GateFail);
          external = (\<lambda>g stages e. \<lparr>gr_id = g, gr_status = ge_status e, gr_required_for = stages, gr_fingerprint = ge_fingerprint e\<rparr>)
      in [\<lparr>gr_id = EvaluationGate, gr_status = computed evaluation_pass (evaluation = None),
           gr_required_for = [ToShadow, ToCanary, ToPublic], gr_fingerprint = map_option er_fingerprint evaluation\<rparr>,
          external PublicRateGate [ToShadow, ToCanary, ToPublic] (eg_public_rates gates),
          external InvariantGate [ToShadow, ToCanary, ToPublic] (eg_invariants gates),
          external SecurityGate [ToShadow, ToCanary, ToPublic] (eg_security gates),
          external HumanGate [ToShadow, ToCanary, ToPublic] (eg_human gates),
          \<lparr>gr_id = DashboardGate, gr_status = computed dashboard_pass (db = None),
           gr_required_for = [ToCanary, ToPublic], gr_fingerprint = map_option db_fingerprint db\<rparr>,
          external MonitoringGate [ToCanary, ToPublic] (eg_monitoring gates),
          \<lparr>gr_id = CanaryGate, gr_status = computed (canary_evidence_passes canary) (ce_status canary = NotRun),
           gr_required_for = [ToPublic], gr_fingerprint = ce_fingerprint canary\<rparr>])"

definition passes_for :: "gate_result list \<Rightarrow> target_stage \<Rightarrow> bool" where
  "passes_for gates stage = list_all (\<lambda>g. gr_status g = GatePass) (filter (\<lambda>g. stage \<in> set (gr_required_for g)) gates)"

definition highest_stage :: "stage_eligibility \<Rightarrow> promotion_stage" where
  "highest_stage el =
     (if el_public el then StageAt ToPublic else if el_canary el then StageAt ToCanary
      else if el_shadow el then StageAt ToShadow else StageOff)"

definition review_reason_codes :: "bool \<Rightarrow> external_gates \<Rightarrow> bool \<Rightarrow> dashboard option \<Rightarrow> string list" where
  "review_reason_codes evaluation_pass gates canary_eligible db =
     unique_reason_codes
       ([''promotion:v2-public-authority'', ''promotion:public-disabled'', ''promotion:no-automatic-promotion'',
         ''promotion:manual-approval-required'', ''promotion:policy-audit-visible'', ''promotion:kill-switch-armed'',
         (if evaluation_pass then ''evaluation:gate-pass'' else ''promotion:calibration-gate-required''),
         (if ge_status (eg_human gates) = GatePass then ''evaluation:blind-human-required'' else ''promotion:human-gate-required''),
         (if ge_status (eg_public_rates gates) = GatePass then ''promotion:public-rates-verified''
          else ''integrity:public-rates-unverified''),
         (if ge_status (eg_monitoring gates) = GatePass then ''promotion:policy-audit-visible'' else ''promotion:monitoring-required''),
         (if canary_eligible then ''promotion:canary-eligible'' else ''promotion:canary-blocked'')] @
        (if 0 < (case db of None \<Rightarrow> 0 | Some d \<Rightarrow> db_regressions d) then [''promotion:critical-regression-blocked''] else []))"

definition create_promotion_review ::
  "(evaluation_result \<Rightarrow> bool) \<Rightarrow> evaluation_result option \<Rightarrow> dashboard option \<Rightarrow> external_gates \<Rightarrow> canary_evidence \<Rightarrow>
     promotion_error + promotion_review" where
  "create_promotion_review evaluation_valid evaluation db gates canary =
     and_then (validate_external_gates gates) (\<lambda>_.
     and_then (validate_canary_evidence canary) (\<lambda>_.
     and_then (dashboard_passes db) (\<lambda>dashboard_pass.
       let evaluation_pass = evaluation_passes evaluation_valid evaluation;
           results = promotion_gates evaluation_pass evaluation dashboard_pass db gates canary;
           el = \<lparr>el_shadow = passes_for results ToShadow, el_canary = passes_for results ToCanary,
                 el_public = passes_for results ToPublic\<rparr>;
           core = \<lparr>pr_id = [], pr_highest = highest_stage el, pr_eligibility = el, pr_gates = results,
                   pr_reasons = review_reason_codes evaluation_pass gates (el_canary el) db, pr_fingerprint = []\<rparr>
       in and_then (hash_of (JObject (review_core_fields core)) ''stayopti-v3-promotion-review-id'') (\<lambda>rid.
          let identified = core\<lparr>pr_id := rid\<rparr>
          in and_then (review_fingerprint identified) (\<lambda>fp. Inr (identified\<lparr>pr_fingerprint := fp\<rparr>))))))"

definition find_gate :: "gate_result list \<Rightarrow> gate_id \<Rightarrow> gate_result option" where
  "find_gate gates g = js_first (filter (\<lambda>r. gr_id r = g) gates)"

definition gate_shape_ok :: "gate_result \<Rightarrow> bool" where
  "gate_shape_ok g \<longleftrightarrow>
     gr_required_for g = gate_requirements (gr_id g) \<and>
     (if gr_status g = GatePending then gr_fingerprint g = None else is_evidence_fingerprint (gr_fingerprint g))"

definition gate_passes_for :: "gate_result list \<Rightarrow> target_stage \<Rightarrow> bool" where
  "gate_passes_for gates stage =
     list_all (\<lambda>g. map_option gr_status (find_gate gates g) = Some GatePass)
       (filter (\<lambda>g. stage \<in> set (gate_requirements g)) all_gates)"

definition validate_promotion_review :: "promotion_review \<Rightarrow> promotion_error + shadow_validation" where
  "validate_promotion_review r =
     (let gate_ids = map gr_id (pr_gates r);
          el = pr_eligibility r;
          issues =
            (if \<not> is_stable_hash (pr_id r) \<or> list_ex (\<lambda>c. \<not> is_reason_code c) (pr_reasons r) then [InvalidShape] else []) @
            (if length gate_ids \<noteq> length all_gates \<or> length (js_set gate_ids) \<noteq> length all_gates \<or>
                list_ex (\<lambda>g. g \<notin> set gate_ids) all_gates \<or> list_ex (\<lambda>g. \<not> gate_shape_ok g) (pr_gates r)
             then [InvalidShape] else []) @
            (if el_shadow el \<noteq> gate_passes_for (pr_gates r) ToShadow \<or> el_canary el \<noteq> gate_passes_for (pr_gates r) ToCanary \<or>
                el_public el \<noteq> gate_passes_for (pr_gates r) ToPublic
             then [InvalidShape] else []) @
            (if pr_highest r \<noteq> highest_stage el then [InvalidShape] else [])
      in and_then (review_fingerprint r) (\<lambda>fp.
           Inr (validation_of (issues @ (if pr_fingerprint r \<noteq> fp then [FingerprintMismatch] else [])))))"

section \<open>The authorization\<close>

fun authorization_status_text :: "authorization_status \<Rightarrow> string" where
  "authorization_status_text Authorized = ''authorized''" | "authorization_status_text Blocked = ''blocked''"

definition authorization_core_fields :: "promotion_authorization \<Rightarrow> (string \<times> json) list" where
  "authorization_core_fields a =
     [(''version'', JString promotion_version), (''targetStage'', JString (target_text (pa_target a))),
      (''status'', JString (authorization_status_text (pa_status a))),
      (''reviewFingerprint'', JString (pa_review_fingerprint a)), (''manualApprovalRecorded'', JBool (pa_manual_approval a)),
      (''automaticPromotion'', JBool False), (''publicServingEngine'', JString (public_engine_text (pa_public_engine a))),
      (''canaryAllocationLimitBasisPoints'', JNumber (pa_canary_limit a)), (''killSwitch'', JString ''armed''),
      (''audit'', audit_json)]"

definition authorization_fingerprint :: "promotion_authorization \<Rightarrow> promotion_error + string" where
  "authorization_fingerprint a =
     hash_of (JObject ((''authorizationId'', JString (pa_id a)) # authorization_core_fields a)) ''stayopti-v3-promotion-authorization''"

definition public_engine_for :: "authorization_status \<Rightarrow> target_stage \<Rightarrow> public_engine" where
  "public_engine_for status target =
     (if status = Authorized \<and> target = ToPublic then ServeV3
      else if status = Authorized \<and> target = ToCanary then ServeMixedCanary else ServeV2)"

definition create_promotion_authorization ::
  "promotion_review \<Rightarrow> target_stage \<Rightarrow> string option \<Rightarrow> promotion_error + promotion_authorization" where
  "create_promotion_authorization review target approval =
     and_then (validate_promotion_review review) (\<lambda>v.
     and_then (require (sv_valid v) InvalidReview) (\<lambda>_.
     and_then (case approval of None \<Rightarrow> Inr () | Some token \<Rightarrow> require_opaque_token token ''manualApprovalToken'') (\<lambda>_.
       let eligible = (stage_rank (StageAt target) \<le> stage_rank (pr_highest review));
           status = (if eligible \<and> approval \<noteq> None then Authorized else Blocked);
           core = \<lparr>pa_id = [], pa_target = target, pa_status = status, pa_review_fingerprint = pr_fingerprint review,
                   pa_manual_approval = (approval \<noteq> None), pa_public_engine = public_engine_for status target,
                   pa_canary_limit = maximum_canary_basis_points, pa_fingerprint = []\<rparr>
       in and_then (case approval of None \<Rightarrow> Inr JNull
                    | Some token \<Rightarrow> and_then (hash_of (JString token) ''stayopti-v3-manual-approval'') (\<lambda>h. Inr (JString h))) (\<lambda>approval_json.
          and_then (hash_of (JObject [(''reviewFingerprint'', JString (pr_fingerprint review)),
                                      (''targetStage'', JString (target_text target)),
                                      (''approvalFingerprint'', approval_json)])
                      ''stayopti-v3-promotion-authorization-id'') (\<lambda>aid.
          let identified = core\<lparr>pa_id := aid\<rparr>
          in and_then (authorization_fingerprint identified) (\<lambda>fp. Inr (identified\<lparr>pa_fingerprint := fp\<rparr>)))))))"

definition validate_promotion_authorization :: "promotion_authorization \<Rightarrow> promotion_error + bool" where
  "validate_promotion_authorization a =
     (if is_stable_hash (pa_id a) \<and> is_stable_hash (pa_review_fingerprint a) \<and>
         (pa_status a \<noteq> Authorized \<or> pa_manual_approval a) \<and>
         num_eq (pa_canary_limit a) maximum_canary_basis_points \<and>
         pa_public_engine a = public_engine_for (pa_status a) (pa_target a)
      then and_then (authorization_fingerprint a) (\<lambda>fp. Inr (pa_fingerprint a = fp))
      else Inr False)"

section \<open>The kill switch\<close>

definition kill_switch_core_fields :: "kill_switch \<Rightarrow> (string \<times> json) list" where
  "kill_switch_core_fields k =
     [(''version'', JString promotion_version), (''armed'', JBool True), (''active'', JBool (ks_active k)),
      (''rollbackRequired'', JBool (ks_rollback k)), (''triggerCodes'', json_strings (map trigger_text (ks_triggers k))),
      (''audit'', audit_json)]"

definition kill_switch_fingerprint :: "kill_switch \<Rightarrow> promotion_error + string" where
  "kill_switch_fingerprint k =
     hash_of (JObject ((''stateId'', JString (ks_id k)) # kill_switch_core_fields k)) ''stayopti-v3-kill-switch''"

record kill_telemetry =
  kt_manual :: bool
  kt_price :: check_result
  kt_rates_verified :: bool
  kt_regressions :: jsnum
  kt_error_rate :: jsnum
  kt_latency :: jsnum

definition trigger_codes :: "kill_telemetry \<Rightarrow> trigger_code list" where
  "trigger_codes t =
     (if kt_manual t then [ManualTrigger] else []) @
     (if kt_price t = CheckFail then [PriceTrigger] else []) @
     (if \<not> kt_rates_verified t then [RateTrigger] else []) @
     (if Fin 0 < kt_regressions t then [RegressionTrigger] else []) @
     (if maximum_error_rate_regression < kt_error_rate t then [ErrorRateTrigger] else []) @
     (if maximum_latency_regression < kt_latency t then [LatencyTrigger] else [])"

definition evaluate_kill_switch :: "kill_telemetry \<Rightarrow> promotion_error + kill_switch" where
  "evaluate_kill_switch t =
     and_then (require
       (js_is_integer (kt_regressions t) \<and> \<not> kt_regressions t < Fin 0 \<and> is_fin (kt_error_rate t) \<and>
        \<not> kt_error_rate t < Fin 0 \<and> is_fin (kt_latency t) \<and> \<not> kt_latency t < Fin 0) InvalidTelemetry) (\<lambda>_.
       let triggers = trigger_codes t;
           active = (0 < length triggers);
           core = \<lparr>ks_id = [], ks_active = active, ks_rollback = active, ks_triggers = triggers, ks_fingerprint = []\<rparr>
       in and_then (hash_of (JObject (kill_switch_core_fields core)) ''stayopti-v3-kill-switch-id'') (\<lambda>kid.
          let identified = core\<lparr>ks_id := kid\<rparr>
          in and_then (kill_switch_fingerprint identified) (\<lambda>fp. Inr (identified\<lparr>ks_fingerprint := fp\<rparr>))))"

definition validate_kill_switch :: "kill_switch \<Rightarrow> promotion_error + bool" where
  "validate_kill_switch k =
     (if ks_active k = (0 < length (ks_triggers k)) \<and> ks_rollback k = ks_active k \<and>
         length (js_set (ks_triggers k)) = length (ks_triggers k) \<and> is_stable_hash (ks_id k)
      then and_then (kill_switch_fingerprint k) (\<lambda>fp. Inr (ks_fingerprint k = fp))
      else Inr False)"

section \<open>The assignment of a request\<close>

definition assignment_core_fields :: "serving_assignment \<Rightarrow> (string \<times> json) list" where
  "assignment_core_fields a =
     [(''version'', JString promotion_version), (''targetStage'', JString (target_text (sa_target a))),
      (''servingEngine'', JString (engine_text (sa_engine a))), (''canaryBucket'', json_option JNumber (sa_bucket a)),
      (''canaryAllocationBasisPoints'', JNumber (sa_allocation a)), (''killSwitchActive'', JBool (sa_kill_switch a)),
      (''rollbackRequired'', JBool (sa_rollback a)), (''reason'', JString (assignment_reason_text (sa_reason a))),
      (''audit'', audit_json)]"

definition assignment_fingerprint :: "serving_assignment \<Rightarrow> promotion_error + string" where
  "assignment_fingerprint a =
     hash_of (JObject ((''assignmentId'', JString (sa_id a)) # assignment_core_fields a)) ''stayopti-v3-serving-assignment''"

definition canary_bucket :: "string \<Rightarrow> promotion_error + int" where
  "canary_bucket exposure_token =
     and_then (hash_of (JString exposure_token) ''stayopti-v3-canary-bucket'') (\<lambda>h.
       Inr (parse_hex (drop (length h - 8) h) mod 10000))"

definition choose_engine ::
  "promotion_authorization \<Rightarrow> kill_switch \<Rightarrow> int \<Rightarrow> jsnum \<Rightarrow> serving_engine \<times> assignment_reason \<times> jsnum option \<times> jsnum" where
  "choose_engine a k bucket allocation =
     (if ks_active k then (EngineV2, KillSwitchFallback, None, Fin 0)
      else if pa_status a \<noteq> Authorized then (EngineV2, AuthorizationBlocked, None, Fin 0)
      else if pa_target a = ToShadow then (EngineV2, ShadowV2Authoritative, None, Fin 0)
      else if pa_target a = ToCanary
      then if Fin (of_int bucket) < allocation
           then (EngineV3, CanaryV3Assigned, Some (Fin (of_int bucket)), allocation)
           else (EngineV2, CanaryV2Control, Some (Fin (of_int bucket)), allocation)
      else (EngineV3, PublicV3Authorized, None, Fin 0))"

definition create_serving_assignment ::
  "promotion_authorization \<Rightarrow> string \<Rightarrow> jsnum \<Rightarrow> kill_switch \<Rightarrow> promotion_error + serving_assignment" where
  "create_serving_assignment a exposure_token allocation k =
     and_then (validate_promotion_authorization a) (\<lambda>valid_authorization.
     and_then (require valid_authorization InvalidAuthorization) (\<lambda>_.
     and_then (validate_kill_switch k) (\<lambda>valid_switch.
     and_then (require valid_switch InvalidKillSwitch) (\<lambda>_.
     and_then (require_opaque_token exposure_token ''exposureToken'') (\<lambda>_.
     and_then (require (js_is_integer allocation \<and> \<not> allocation < Fin 0 \<and> \<not> maximum_canary_basis_points < allocation)
                 AllocationExceedsLimit) (\<lambda>_.
     and_then (canary_bucket exposure_token) (\<lambda>bucket.
       let (engine, reason, assigned_bucket, assigned_allocation) = choose_engine a k bucket allocation;
           core = \<lparr>sa_id = [], sa_target = pa_target a, sa_engine = engine, sa_bucket = assigned_bucket,
                   sa_allocation = assigned_allocation, sa_kill_switch = ks_active k, sa_rollback = ks_rollback k,
                   sa_reason = reason, sa_fingerprint = []\<rparr>
       in and_then (hash_of (JString exposure_token) ''stayopti-v3-canary-exposure'') (\<lambda>exposure.
          and_then (hash_of (JObject [(''authorizationFingerprint'', JString (pa_fingerprint a)),
                                      (''exposureFingerprint'', JString exposure),
                                      (''killSwitchFingerprint'', JString (ks_fingerprint k)),
                                      (''canaryAllocationBasisPoints'', JNumber assigned_allocation)])
                      ''stayopti-v3-serving-assignment-id'') (\<lambda>sid.
          let identified = core\<lparr>sa_id := sid\<rparr>
          in and_then (assignment_fingerprint identified) (\<lambda>fp. Inr (identified\<lparr>sa_fingerprint := fp\<rparr>)))))))))))"

definition validate_serving_assignment :: "serving_assignment \<Rightarrow> promotion_error + bool" where
  "validate_serving_assignment a =
     (let bucket_ok = (case sa_bucket a of None \<Rightarrow> True
            | Some b \<Rightarrow> js_is_integer b \<and> Fin 0 \<le> b \<and> b < Fin 10000);
          pair_ok = (if sa_reason a \<in> {AuthorizationBlocked, ShadowV2Authoritative, CanaryV2Control, KillSwitchFallback}
                     then sa_engine a = EngineV2 else sa_engine a = EngineV3);
          fallback_ok = (if sa_kill_switch a then sa_engine a = EngineV2 \<and> sa_reason a = KillSwitchFallback
                         else sa_reason a \<noteq> KillSwitchFallback)
      in if is_stable_hash (sa_id a) \<and> js_is_integer (sa_allocation a) \<and> Fin 0 \<le> sa_allocation a \<and>
            sa_allocation a \<le> maximum_canary_basis_points \<and> bucket_ok \<and> pair_ok \<and> fallback_ok \<and>
            sa_rollback a = sa_kill_switch a
         then and_then (assignment_fingerprint a) (\<lambda>fp. Inr (sa_fingerprint a = fp))
         else Inr False)"

section \<open>The default control\<close>

record promotion_control =
  pc_id :: string
  pc_fingerprint :: string

definition control_core_fields :: "(string \<times> json) list" where
  "control_core_fields =
     [(''version'', JString promotion_version), (''stage'', JString ''off''), (''publicServingEngine'', JString ''v2''),
      (''v3Execution'', JString ''disabled''), (''canaryAllocationBasisPoints'', JNumber (Fin 0)),
      (''automaticPromotionAllowed'', JBool False), (''publicV3Enabled'', JBool False),
      (''manualApprovalRequired'', JBool True), (''killSwitch'', JString ''armed''), (''audit'', audit_json)]"

definition control_fingerprint :: "string \<Rightarrow> promotion_error + string" where
  "control_fingerprint cid =
     hash_of (JObject ((''controlId'', JString cid) # control_core_fields)) ''stayopti-v3-default-promotion-control''"

definition create_default_control :: "promotion_error + promotion_control" where
  "create_default_control =
     and_then (hash_of (JObject control_core_fields) ''stayopti-v3-default-promotion-control-id'') (\<lambda>cid.
     and_then (control_fingerprint cid) (\<lambda>fp. Inr \<lparr>pc_id = cid, pc_fingerprint = fp\<rparr>))"

definition validate_default_control :: "promotion_control \<Rightarrow> promotion_error + bool" where
  "validate_default_control c =
     (if is_stable_hash (pc_id c) then and_then (control_fingerprint (pc_id c)) (\<lambda>fp. Inr (pc_fingerprint c = fp))
      else Inr False)"

section \<open>The review is exact\<close>

lemma review_core_fields_upd [simp]:
  "review_core_fields (r\<lparr>pr_id := i\<rparr>) = review_core_fields r"
  "review_core_fields (r\<lparr>pr_fingerprint := fp\<rparr>) = review_core_fields r"
  by (simp_all add: review_core_fields_def)

lemma review_fingerprint_upd [simp]: "review_fingerprint (r\<lparr>pr_fingerprint := fp\<rparr>) = review_fingerprint r"
  by (simp add: review_fingerprint_def)

lemma finite_gates: "list_all finite_json (map gate_json gs)"
  by (simp add: list_all_iff gate_json_def stages_json_def split: option.split)

lemma finite_review: "list_all (\<lambda>(key, v). finite_json v) (review_core_fields r)"
  using finite_gates [of "pr_gates r"] by (simp add: review_core_fields_def)

lemma review_fingerprint_total: "\<exists>fp. review_fingerprint r = Inr fp"
  using hash_of_defined [of "JObject ((''reviewId'', JString (pr_id r)) # review_core_fields r)"] finite_review [of r]
  by (simp add: review_fingerprint_def)

text \<open>What a review computes from its inputs.\<close>

definition gates_of ::
  "(evaluation_result \<Rightarrow> bool) \<Rightarrow> evaluation_result option \<Rightarrow> bool \<Rightarrow> dashboard option \<Rightarrow> external_gates \<Rightarrow> canary_evidence \<Rightarrow>
     gate_result list" where
  "gates_of evaluation_valid evaluation dashboard_pass db gates canary =
     promotion_gates (evaluation_passes evaluation_valid evaluation) evaluation dashboard_pass db gates canary"

lemma create_promotion_review_Inr:
  assumes "create_promotion_review evaluation_valid evaluation db gates canary = Inr r"
  obtains dashboard_pass where "validate_external_gates gates = Inr ()" and "validate_canary_evidence canary = Inr ()"
    and "dashboard_passes db = Inr dashboard_pass"
    and "pr_gates r = gates_of evaluation_valid evaluation dashboard_pass db gates canary"
    and "pr_eligibility r = \<lparr>el_shadow = passes_for (pr_gates r) ToShadow, el_canary = passes_for (pr_gates r) ToCanary,
                             el_public = passes_for (pr_gates r) ToPublic\<rparr>"
    and "pr_highest r = highest_stage (pr_eligibility r)"
    and "pr_reasons r = review_reason_codes (evaluation_passes evaluation_valid evaluation) gates (el_canary (pr_eligibility r)) db"
    and "is_stable_hash (pr_id r)" and "review_fingerprint r = Inr (pr_fingerprint r)"
proof -
  let ?e = "evaluation_passes evaluation_valid evaluation"
  from assms obtain dp rid fp v where
    ok: "validate_external_gates gates = Inr ()" "validate_canary_evidence canary = Inr ()" "dashboard_passes db = Inr dp"
    and rid: "hash_of v ''stayopti-v3-promotion-review-id'' = Inr rid"
    and r: "let results = gates_of evaluation_valid evaluation dp db gates canary;
        el = \<lparr>el_shadow = passes_for results ToShadow, el_canary = passes_for results ToCanary, el_public = passes_for results ToPublic\<rparr>;
        core = \<lparr>pr_id = rid, pr_highest = highest_stage el, pr_eligibility = el, pr_gates = results,
                pr_reasons = review_reason_codes ?e gates (el_canary el) db, pr_fingerprint = []\<rparr>
      in review_fingerprint core = Inr fp \<and> r = core\<lparr>pr_fingerprint := fp\<rparr>"
    by (auto simp: create_promotion_review_def and_then_Inr_iff Let_def gates_of_def)
  from r have "review_fingerprint r = Inr (pr_fingerprint r)"
    by (auto simp: Let_def review_fingerprint_def review_core_fields_def)
  moreover have "is_stable_hash (pr_id r)" using r hash_of_stable [OF rid] by (auto simp: Let_def)
  ultimately show thesis using r by (intro that [OF ok]) (auto simp: Let_def)
qed

definition external_pass :: "external_gates \<Rightarrow> bool" where
  "external_pass gates \<longleftrightarrow>
     ge_status (eg_public_rates gates) = GatePass \<and> ge_status (eg_invariants gates) = GatePass \<and>
     ge_status (eg_security gates) = GatePass \<and> ge_status (eg_human gates) = GatePass"

lemma passes_for_gates:
  fixes evaluation_valid evaluation dp db gates canary
  defines "gs \<equiv> gates_of evaluation_valid evaluation dp db gates canary"
  shows "passes_for gs ToShadow \<longleftrightarrow> evaluation_passes evaluation_valid evaluation \<and> external_pass gates"
    and "passes_for gs ToCanary \<longleftrightarrow>
      evaluation_passes evaluation_valid evaluation \<and> external_pass gates \<and> dp \<and> ge_status (eg_monitoring gates) = GatePass"
    and "passes_for gs ToPublic \<longleftrightarrow>
      evaluation_passes evaluation_valid evaluation \<and> external_pass gates \<and> dp \<and> ge_status (eg_monitoring gates) = GatePass \<and>
      canary_evidence_passes canary"
  by (auto simp: gs_def passes_for_def gates_of_def promotion_gates_def Let_def external_pass_def split: if_splits)

lemma highest_stage_rank:
  assumes "el_public el \<Longrightarrow> el_canary el" and "el_canary el \<Longrightarrow> el_shadow el"
  shows "stage_rank (StageAt t) \<le> stage_rank (highest_stage el) \<longleftrightarrow>
    (case t of ToShadow \<Rightarrow> el_shadow el | ToCanary \<Rightarrow> el_canary el | ToPublic \<Rightarrow> el_public el)"
  using assms by (cases t) (auto simp: highest_stage_def)

lemma gate_ids_of: "map gr_id (gates_of evaluation_valid evaluation dp db gates canary) = all_gates"
  by (simp add: gates_of_def promotion_gates_def Let_def all_gates_def)

lemma all_gates_distinct: "distinct all_gates" "js_set all_gates = all_gates"
proof -
  show "distinct all_gates" by (simp add: all_gates_def)
  then show "js_set all_gates = all_gates" by (simp add: js_set_def distinct_remdups_id)
qed

lemma gate_passes_for_gates:
  "gate_passes_for (gates_of evaluation_valid evaluation dp db gates canary) t =
     passes_for (gates_of evaluation_valid evaluation dp db gates canary) t"
  by (cases t)
    (simp_all add: gate_passes_for_def passes_for_def gates_of_def promotion_gates_def Let_def all_gates_def find_gate_def js_first_def)

definition linked :: "gate_result_status \<Rightarrow> string option \<Rightarrow> bool" where
  "linked status fp \<longleftrightarrow> (if status = GatePending then fp = None else is_evidence_fingerprint fp)"

lemma gate_shape_linked:
  "gate_shape_ok g \<longleftrightarrow> gr_required_for g = gate_requirements (gr_id g) \<and> linked (gr_status g) (gr_fingerprint g)"
  by (simp add: gate_shape_ok_def linked_def)

lemma validate_gate_evidence_iff: "validate_gate_evidence e label = Inr () \<longleftrightarrow> linked (ge_status e) (ge_fingerprint e)"
  by (simp add: validate_gate_evidence_def require_Inr_iff linked_def)

lemma gate_shapes:
  assumes "validate_external_gates gates = Inr ()" and "validate_canary_evidence canary = Inr ()"
    and "dp \<Longrightarrow> db \<noteq> None"
  shows "list_all gate_shape_ok (gates_of evaluation_valid evaluation dp db gates canary) \<longleftrightarrow>
    (evaluation = None \<or> is_evidence_fingerprint (map_option er_fingerprint evaluation)) \<and>
    (db = None \<or> is_evidence_fingerprint (map_option db_fingerprint db))"
proof -
  let ?e = "evaluation_passes evaluation_valid evaluation"
  have ext: "linked (ge_status e) (ge_fingerprint e)"
    if "e \<in> {eg_public_rates gates, eg_invariants gates, eg_security gates, eg_human gates, eg_monitoring gates}" for e
    using assms(1) that by (auto simp: validate_external_gates_def and_then_Inr_iff validate_gate_evidence_iff)
  have ev: "linked (if ?e then GatePass else if evaluation = None then GatePending else GateFail) (map_option er_fingerprint evaluation) \<longleftrightarrow>
      evaluation = None \<or> is_evidence_fingerprint (map_option er_fingerprint evaluation)"
    by (auto simp: linked_def evaluation_passes_def split: option.splits)
  have d: "linked (if dp then GatePass else if db = None then GatePending else GateFail) (map_option db_fingerprint db) \<longleftrightarrow>
      db = None \<or> is_evidence_fingerprint (map_option db_fingerprint db)"
    using assms(3) by (auto simp: linked_def)
  have c: "linked (if canary_evidence_passes canary then GatePass else if ce_status canary = NotRun then GatePending else GateFail)
      (ce_fingerprint canary)"
    using assms(2)
    by (auto simp: linked_def canary_evidence_passes_def validate_canary_evidence_def and_then_Inr_iff require_Inr_iff)
  show ?thesis
    by (simp only: gates_of_def promotion_gates_def Let_def list.pred_inject gate_shape_linked gate_result.simps
        gate_requirements.simps ev d c ext insert_iff simp_thms)
qed

lemma review_codes_known:
  "list_all is_reason_code [''promotion:v2-public-authority'', ''promotion:public-disabled'', ''promotion:no-automatic-promotion'',
     ''promotion:manual-approval-required'', ''promotion:policy-audit-visible'', ''promotion:kill-switch-armed'',
     ''evaluation:gate-pass'', ''promotion:calibration-gate-required'', ''evaluation:blind-human-required'',
     ''promotion:human-gate-required'', ''promotion:public-rates-verified'', ''integrity:public-rates-unverified'',
     ''promotion:monitoring-required'', ''promotion:canary-eligible'', ''promotion:canary-blocked'',
     ''promotion:critical-regression-blocked'']"
  by (simp only: list.pred_inject simp_thms, unfold is_reason_code_def smartstay_reason_codes_def list.set,
      (intro conjI)?, (rule insertI1 | rule insertI2)+)

lemma review_reasons_known: "list_all is_reason_code (review_reason_codes e gates c db)"
  using review_codes_known unfolding list.pred_inject
  by (simp add: list_all_iff review_reason_codes_def unique_reason_codes_def)

section \<open>Sealed records\<close>

text \<open>
  Every record of the promotion is sealed by a fingerprint of its other fields. What the
  validators rely on: setting the fingerprint changes nothing it covers.
\<close>

locale sealed_record =
  fixes fingerprint :: "'r \<Rightarrow> 'e + string"
    and with_fp :: "string \<Rightarrow> 'r \<Rightarrow> 'r"
    and fp_of :: "'r \<Rightarrow> string"
  assumes fingerprint_with_fp: "fingerprint (with_fp h r) = fingerprint r"
    and fp_of_with_fp: "fp_of (with_fp h r) = h"
begin

lemma sealed: "fingerprint r = Inr h \<Longrightarrow> fingerprint (with_fp h r) = Inr (fp_of (with_fp h r))"
  by (simp add: fingerprint_with_fp fp_of_with_fp)

lemma sealed_check: "fingerprint r = Inr h \<Longrightarrow> and_then (fingerprint (with_fp h r)) (\<lambda>fp. Inr (fp_of (with_fp h r) = fp)) = Inr True"
  by (simp add: sealed and_then_simps)

lemma tampered: "fingerprint r = Inr h \<Longrightarrow> and_then (fingerprint r') (\<lambda>fp. Inr (fp_of (with_fp h r) = fp)) = Inr True \<longleftrightarrow> fingerprint r' = fingerprint r"
  by (auto simp: fp_of_with_fp and_then_Inr_iff)

end

lemma core_fields_upd [simp]:
  "authorization_core_fields (a\<lparr>pa_fingerprint := fp\<rparr>) = authorization_core_fields a"
  "kill_switch_core_fields (k\<lparr>ks_fingerprint := fp\<rparr>) = kill_switch_core_fields k"
  "assignment_core_fields (s\<lparr>sa_fingerprint := fp\<rparr>) = assignment_core_fields s"
  by (simp_all add: authorization_core_fields_def kill_switch_core_fields_def assignment_core_fields_def)

interpretation review_seal: sealed_record review_fingerprint "\<lambda>h. pr_fingerprint_update (\<lambda>_. h)" pr_fingerprint
  by unfold_locales simp_all

interpretation authorization_seal: sealed_record authorization_fingerprint "\<lambda>h. pa_fingerprint_update (\<lambda>_. h)" pa_fingerprint
  by unfold_locales (simp_all add: authorization_fingerprint_def)

interpretation kill_switch_seal: sealed_record kill_switch_fingerprint "\<lambda>h. ks_fingerprint_update (\<lambda>_. h)" ks_fingerprint
  by unfold_locales (simp_all add: kill_switch_fingerprint_def)

interpretation assignment_seal: sealed_record assignment_fingerprint "\<lambda>h. sa_fingerprint_update (\<lambda>_. h)" sa_fingerprint
  by unfold_locales (simp_all add: assignment_fingerprint_def)

interpretation dashboard_seal: sealed_record dashboard_fingerprint "\<lambda>h. db_fingerprint_update (\<lambda>_. h)" db_fingerprint
  by unfold_locales simp_all

section \<open>Authorizations\<close>

lemma create_promotion_authorization_Inr:
  assumes "create_promotion_authorization review target approval = Inr a"
  shows "(\<exists>v. validate_promotion_review review = Inr v \<and> sv_valid v) \<and>
    pa_target a = target \<and> pa_manual_approval a = (approval \<noteq> None) \<and>
    pa_status a = (if stage_rank (StageAt target) \<le> stage_rank (pr_highest review) \<and> approval \<noteq> None then Authorized else Blocked) \<and>
    pa_public_engine a = public_engine_for (pa_status a) target \<and> pa_review_fingerprint a = pr_fingerprint review \<and>
    pa_canary_limit a = Fin 500 \<and> is_stable_hash (pa_id a) \<and> authorization_fingerprint a = Inr (pa_fingerprint a)"
proof -
  define status where "status = (if stage_rank (StageAt target) \<le> stage_rank (pr_highest review) \<and> approval \<noteq> None then Authorized else Blocked)"
  define core where "core = \<lparr>pa_id = [], pa_target = target, pa_status = status, pa_review_fingerprint = pr_fingerprint review,
      pa_manual_approval = (approval \<noteq> None), pa_public_engine = public_engine_for status target,
      pa_canary_limit = maximum_canary_basis_points, pa_fingerprint = []\<rparr>"
  from assms obtain v aid fp w where v: "validate_promotion_review review = Inr v" "sv_valid v"
    and aid: "hash_of w ''stayopti-v3-promotion-authorization-id'' = Inr aid"
    and fp: "authorization_fingerprint (core\<lparr>pa_id := aid\<rparr>) = Inr fp"
    and a: "a = core\<lparr>pa_id := aid\<rparr>\<lparr>pa_fingerprint := fp\<rparr>"
    unfolding create_promotion_authorization_def and_then_Inr_iff require_Inr_iff Let_def core_def status_def by blast
  have "authorization_fingerprint a = Inr (pa_fingerprint a)"
    unfolding a by (rule authorization_seal.sealed [OF fp])
  moreover have "is_stable_hash (pa_id a)" using hash_of_stable [OF aid] by (simp add: a)
  ultimately show ?thesis using v by (auto simp: a core_def status_def maximum_canary_basis_points_def)
qed

lemma review_fingerprint_stable: "review_fingerprint r = Inr h \<Longrightarrow> is_stable_hash h"
  by (auto simp: review_fingerprint_def dest: hash_of_stable)

lemma valid_review_fingerprint:
  assumes "validate_promotion_review review = Inr v" and "sv_valid v"
  shows "is_stable_hash (pr_fingerprint review)"
proof -
  obtain fp issues where fp: "review_fingerprint review = Inr fp"
    and v: "v = validation_of (issues @ (if pr_fingerprint review \<noteq> fp then [FingerprintMismatch] else []))"
    using assms(1) unfolding validate_promotion_review_def Let_def and_then_Inr_iff sum.inject by blast
  from v assms(2) have "pr_fingerprint review = fp" by (simp add: validation_of_valid split: if_splits)
  with review_fingerprint_stable [OF fp] show ?thesis by simp
qed

lemma created_authorization_valid:
  assumes "create_promotion_authorization review target approval = Inr a"
  shows "validate_promotion_authorization a = Inr True"
proof -
  obtain v where "validate_promotion_review review = Inr v" "sv_valid v"
    using create_promotion_authorization_Inr [OF assms] by blast
  then have "is_stable_hash (pa_review_fingerprint a)"
    using valid_review_fingerprint create_promotion_authorization_Inr [OF assms] by simp
  then show ?thesis
    using create_promotion_authorization_Inr [OF assms]
    by (auto simp: validate_promotion_authorization_def and_then_simps maximum_canary_basis_points_def num_eq_def split: if_splits)
qed

section \<open>The kill switch\<close>

definition telemetry_ok :: "kill_telemetry \<Rightarrow> bool" where
  "telemetry_ok t \<longleftrightarrow>
     js_is_integer (kt_regressions t) \<and> \<not> kt_regressions t < Fin 0 \<and> is_fin (kt_error_rate t) \<and>
     \<not> kt_error_rate t < Fin 0 \<and> is_fin (kt_latency t) \<and> \<not> kt_latency t < Fin 0"

lemma finite_kill_switch: "finite_json (JObject (kill_switch_core_fields k))"
  by (simp add: kill_switch_core_fields_def)

lemma trigger_codes_distinct: "distinct (trigger_codes t)"
  by (simp add: trigger_codes_def)

lemma evaluate_kill_switch_Inr:
  assumes "evaluate_kill_switch t = Inr k"
  shows "telemetry_ok t \<and> ks_triggers k = trigger_codes t \<and> ks_active k = (trigger_codes t \<noteq> []) \<and>
    ks_rollback k = ks_active k \<and> is_stable_hash (ks_id k) \<and> kill_switch_fingerprint k = Inr (ks_fingerprint k)"
proof -
  define core where "core = \<lparr>ks_id = [], ks_active = 0 < length (trigger_codes t), ks_rollback = 0 < length (trigger_codes t),
      ks_triggers = trigger_codes t, ks_fingerprint = []\<rparr>"
  from assms obtain kid fp w where ok: "telemetry_ok t"
    and kid: "hash_of w ''stayopti-v3-kill-switch-id'' = Inr kid"
    and fp: "kill_switch_fingerprint (core\<lparr>ks_id := kid\<rparr>) = Inr fp"
    and k: "k = core\<lparr>ks_id := kid\<rparr>\<lparr>ks_fingerprint := fp\<rparr>"
    unfolding evaluate_kill_switch_def and_then_Inr_iff require_Inr_iff Let_def core_def telemetry_ok_def by blast
  have "kill_switch_fingerprint k = Inr (ks_fingerprint k)"
    unfolding k by (rule kill_switch_seal.sealed [OF fp])
  moreover have "is_stable_hash (ks_id k)" using hash_of_stable [OF kid] by (simp add: k)
  ultimately show ?thesis using ok by (simp add: k core_def)
qed

lemma evaluate_kill_switch_total: "telemetry_ok t \<Longrightarrow> \<exists>k. evaluate_kill_switch t = Inr k"
proof -
  assume t: "telemetry_ok t"
  obtain kid where kid: "hash_of (JObject (kill_switch_core_fields \<lparr>ks_id = [], ks_active = trigger_codes t \<noteq> [],
      ks_rollback = trigger_codes t \<noteq> [], ks_triggers = trigger_codes t, ks_fingerprint = []\<rparr>)) ''stayopti-v3-kill-switch-id'' = Inr kid"
    using hash_of_defined [OF finite_kill_switch] by blast
  have "\<exists>fp. kill_switch_fingerprint k = Inr fp" for k
    using finite_kill_switch [of k] by (auto simp: kill_switch_fingerprint_def intro!: hash_of_defined)
  then obtain fp where fp: "kill_switch_fingerprint \<lparr>ks_id = kid, ks_active = trigger_codes t \<noteq> [],
      ks_rollback = trigger_codes t \<noteq> [], ks_triggers = trigger_codes t, ks_fingerprint = []\<rparr> = Inr fp" by blast
  show ?thesis
    using t kid fp by (simp add: evaluate_kill_switch_def telemetry_ok_def and_then_simps require_simps Let_def)
qed

lemma created_kill_switch_valid: "evaluate_kill_switch t = Inr k \<Longrightarrow> validate_kill_switch k = Inr True"
  using evaluate_kill_switch_Inr [of t k] trigger_codes_distinct [of t]
  by (simp add: validate_kill_switch_def js_set_distinct and_then_simps)

lemma trigger_codes_Nil:
  "trigger_codes t = [] \<longleftrightarrow> \<not> kt_manual t \<and> kt_price t \<noteq> CheckFail \<and> kt_rates_verified t \<and> \<not> Fin 0 < kt_regressions t \<and>
     \<not> lit 0.002 < kt_error_rate t \<and> \<not> Fin 100 < kt_latency t"
  by (simp add: trigger_codes_def maximum_error_rate_regression_def maximum_latency_regression_def)

text \<open>C33. The kill switch is computed for exactly the telemetry whose numbers are counts and finite rates, and
  then it is active exactly when a trigger fires: a manual trigger, a failed price check, public
  rates not verified, a critical regression, an error rate more than 0.2 per cent or a latency
  more than 100 ms above the baseline; the record is valid.\<close>

theorem kill_switch_exact:
  "case evaluate_kill_switch t of
     Inl e \<Rightarrow> e = InvalidTelemetry \<and> \<not> telemetry_ok t
   | Inr k \<Rightarrow> telemetry_ok t \<and> validate_kill_switch k = Inr True \<and> ks_rollback k = ks_active k \<and>
       (ks_active k \<longleftrightarrow> kt_manual t \<or> kt_price t = CheckFail \<or> kt_rates_verified t = False \<or> Fin 0 < kt_regressions t \<or>
          lit 0.002 < kt_error_rate t \<or> Fin 100 < kt_latency t)"
proof (cases "evaluate_kill_switch t")
  case (Inl e)
  then have "\<not> telemetry_ok t" using evaluate_kill_switch_total by fastforce
  then have "evaluate_kill_switch t = Inl InvalidTelemetry"
    by (simp only: evaluate_kill_switch_def telemetry_ok_def require_simps and_then_simps)
  with \<open>\<not> telemetry_ok t\<close> show ?thesis by simp
next
  case (Inr k)
  then show ?thesis
    using evaluate_kill_switch_Inr [OF Inr] created_kill_switch_valid [OF Inr] trigger_codes_Nil [of t]
    by (simp only: sum.case) blast
qed

section \<open>What a review decides\<close>

definition dashboard_ready :: "dashboard option \<Rightarrow> bool" where
  "dashboard_ready db \<longleftrightarrow>
     (case db of
        None \<Rightarrow> False
      | Some d \<Rightarrow> db_status d = ReadyForCanary \<and> is_stable_hash (db_id d) \<and> dashboard_fingerprint d = Inr (db_fingerprint d))"

text \<open>The abstract specification of the promotion: which stage the evidence admits.\<close>

definition stage_admitted ::
  "(evaluation_result \<Rightarrow> bool) \<Rightarrow> evaluation_result option \<Rightarrow> dashboard option \<Rightarrow> external_gates \<Rightarrow> canary_evidence \<Rightarrow>
     target_stage \<Rightarrow> bool" where
  "stage_admitted evaluation_valid evaluation db gates canary target \<longleftrightarrow>
     evaluation_passes evaluation_valid evaluation \<and> external_pass gates \<and>
     (target = ToShadow \<or> dashboard_ready db \<and> ge_status (eg_monitoring gates) = GatePass) \<and>
     (target \<noteq> ToPublic \<or> canary_evidence_passes canary)"

lemma dashboard_passes_ready: "dashboard_passes db = Inr dp \<Longrightarrow> dp = dashboard_ready db"
proof (cases db)
  case (Some d)
  assume "dashboard_passes db = Inr dp"
  with Some obtain fp where fp: "dashboard_fingerprint d = Inr fp" by (auto simp: dashboard_passes_def validate_dashboard_def and_then_Inr_iff)
  have "clean_json (JObject ((''dashboardId'', JString x) # dashboard_core_fields d @ [(''fingerprint'', JString y)]))" for x y
    using clean_dashboard [of d] by simp
  then have "find_forbidden_paths (JObject ((''dashboardId'', JString x) # dashboard_core_fields d @ [(''fingerprint'', JString y)])) p = []" for x y p
    by (rule clean_json_paths)
  then have "validate_dashboard d = Inr (validation_of
      ((if is_stable_hash (db_id d) then [] else [InvalidShape]) @ (if db_fingerprint d \<noteq> fp then [FingerprintMismatch] else [])))"
    by (simp add: validate_dashboard_def fp del: find_forbidden_paths.simps)
  with \<open>dashboard_passes db = Inr dp\<close> Some show ?thesis
    by (auto simp: dashboard_passes_def dashboard_ready_def fp validation_of_valid split: if_splits)
qed (simp add: dashboard_passes_def dashboard_ready_def)

lemma review_stages:
  assumes "create_promotion_review evaluation_valid evaluation db gates canary = Inr r"
  shows "el_shadow (pr_eligibility r) = stage_admitted evaluation_valid evaluation db gates canary ToShadow"
    and "el_canary (pr_eligibility r) = stage_admitted evaluation_valid evaluation db gates canary ToCanary"
    and "el_public (pr_eligibility r) = stage_admitted evaluation_valid evaluation db gates canary ToPublic"
    and "stage_rank (StageAt t) \<le> stage_rank (pr_highest r) \<longleftrightarrow> stage_admitted evaluation_valid evaluation db gates canary t"
proof -
  let ?adm = "stage_admitted evaluation_valid evaluation db gates canary"
  from assms obtain dp where dp: "dashboard_passes db = Inr dp"
    and gs: "pr_gates r = gates_of evaluation_valid evaluation dp db gates canary"
    and el: "pr_eligibility r = \<lparr>el_shadow = passes_for (pr_gates r) ToShadow, el_canary = passes_for (pr_gates r) ToCanary,
                             el_public = passes_for (pr_gates r) ToPublic\<rparr>"
    and hi: "pr_highest r = highest_stage (pr_eligibility r)"
    by (rule create_promotion_review_Inr)
  have d: "dp = dashboard_ready db" by (rule dashboard_passes_ready [OF dp])
  show s: "el_shadow (pr_eligibility r) = ?adm ToShadow" and c: "el_canary (pr_eligibility r) = ?adm ToCanary"
    and p: "el_public (pr_eligibility r) = ?adm ToPublic"
    by (simp_all add: el gs passes_for_gates stage_admitted_def d)
  show "stage_rank (StageAt t) \<le> stage_rank (pr_highest r) \<longleftrightarrow> ?adm t"
    unfolding hi using s c p
    by (subst highest_stage_rank) (auto simp: stage_admitted_def split: target_stage.split)
qed

lemma list_ex_not: "list_ex (\<lambda>x. \<not> P x) xs \<longleftrightarrow> \<not> list_all P xs"
  by (simp add: list_ex_iff list_all_iff)

lemma review_validation:
  assumes "create_promotion_review evaluation_valid evaluation db gates canary = Inr r"
  shows "\<exists>v. validate_promotion_review r = Inr v \<and>
    (sv_valid v \<longleftrightarrow> (evaluation = None \<or> is_evidence_fingerprint (map_option er_fingerprint evaluation)) \<and>
                 (db = None \<or> is_evidence_fingerprint (map_option db_fingerprint db)))"
proof -
  from assms obtain dp where ok: "validate_external_gates gates = Inr ()" "validate_canary_evidence canary = Inr ()"
    and dp: "dashboard_passes db = Inr dp"
    and gs: "pr_gates r = gates_of evaluation_valid evaluation dp db gates canary"
    and el: "pr_eligibility r = \<lparr>el_shadow = passes_for (pr_gates r) ToShadow, el_canary = passes_for (pr_gates r) ToCanary,
                             el_public = passes_for (pr_gates r) ToPublic\<rparr>"
    and hi: "pr_highest r = highest_stage (pr_eligibility r)"
    and rs: "pr_reasons r = review_reason_codes (evaluation_passes evaluation_valid evaluation) gates (el_canary (pr_eligibility r)) db"
    and idh: "is_stable_hash (pr_id r)" and fp: "review_fingerprint r = Inr (pr_fingerprint r)"
    by (rule create_promotion_review_Inr)
  have ids: "map gr_id (pr_gates r) = all_gates" by (simp add: gs gate_ids_of)
  have shapes: "list_all gate_shape_ok (pr_gates r) \<longleftrightarrow>
      (evaluation = None \<or> is_evidence_fingerprint (map_option er_fingerprint evaluation)) \<and>
      (db = None \<or> is_evidence_fingerprint (map_option db_fingerprint db))"
    unfolding gs by (rule gate_shapes [OF ok]) (use dashboard_passes_ready [OF dp] in \<open>auto simp: dashboard_ready_def split: option.splits\<close>)
  have "list_all (\<lambda>g. g \<in> set all_gates) all_gates" by (simp add: list_all_iff)
  moreover have "gate_passes_for (pr_gates r) t = passes_for (pr_gates r) t" for t
    unfolding gs by (rule gate_passes_for_gates)
  moreover have "list_all is_reason_code (pr_reasons r)" unfolding rs by (rule review_reasons_known)
  ultimately have "validate_promotion_review r = Inr (validation_of (if list_all gate_shape_ok (pr_gates r) then [] else [InvalidShape]))"
    by (simp add: validate_promotion_review_def Let_def ids fp idh hi list_ex_not all_gates_distinct el)
  then show ?thesis by (simp add: validation_of_valid shapes)
qed

text \<open>C18. A review admits exactly the stages its evidence earns: shadow needs the offline evaluation and
  the four external gates, canary a ready and untampered dashboard and monitoring too, public also
  a passing canary; the highest stage is the last of them, so stages are earned in order; and the
  review is a valid record exactly when the fingerprints it links are.\<close>

theorem promotion_review_exact:
  assumes "create_promotion_review evaluation_valid evaluation db gates canary = Inr r"
  shows "el_shadow (pr_eligibility r) = stage_admitted evaluation_valid evaluation db gates canary ToShadow \<and>
    el_canary (pr_eligibility r) = stage_admitted evaluation_valid evaluation db gates canary ToCanary \<and>
    el_public (pr_eligibility r) = stage_admitted evaluation_valid evaluation db gates canary ToPublic \<and>
    (stage_rank (StageAt t) \<le> stage_rank (pr_highest r) \<longleftrightarrow> stage_admitted evaluation_valid evaluation db gates canary t) \<and>
    (\<exists>v. validate_promotion_review r = Inr v \<and>
      (sv_valid v \<longleftrightarrow> (evaluation = None \<or> is_evidence_fingerprint (map_option er_fingerprint evaluation)) \<and>
                   (db = None \<or> is_evidence_fingerprint (map_option db_fingerprint db))))"
  using review_stages [OF assms] review_validation [OF assms] by blast

section \<open>Who serves a request\<close>

lemma canary_bucket_range:
  assumes "canary_bucket token = Inr b"
  shows "0 \<le> b \<and> b < 10000"
  using assms by (auto simp: canary_bucket_def and_then_Inr_iff)

lemma canary_bucket_total: "\<exists>b. canary_bucket token = Inr b"
  using hash_of_defined [of "JString token" "''stayopti-v3-canary-bucket''"]
  by (auto simp: canary_bucket_def and_then_Inr_iff)

lemma create_serving_assignment_Inr:
  assumes "create_serving_assignment a token allocation k = Inr s"
  shows "validate_promotion_authorization a = Inr True \<and> validate_kill_switch k = Inr True \<and>
    bounded_token '':_-'' 7 127 token \<and> js_is_integer allocation \<and> \<not> allocation < Fin 0 \<and> \<not> Fin 500 < allocation \<and>
    (\<exists>b. canary_bucket token = Inr b \<and> (sa_engine s, sa_reason s, sa_bucket s, sa_allocation s) = choose_engine a k b allocation) \<and>
    sa_target s = pa_target a \<and> sa_kill_switch s = ks_active k \<and> sa_rollback s = ks_rollback k \<and> is_stable_hash (sa_id s) \<and>
    assignment_fingerprint s = Inr (sa_fingerprint s)"
proof -
  from assms obtain b va vk where v: "validate_promotion_authorization a = Inr va" "va" "validate_kill_switch k = Inr vk" "vk"
    and ok: "bounded_token '':_-'' 7 127 token" "js_is_integer allocation \<and> \<not> allocation < Fin 0 \<and> \<not> Fin 500 < allocation"
    and b: "canary_bucket token = Inr b"
    unfolding create_serving_assignment_def and_then_Inr_iff require_Inr_iff require_opaque_token_def maximum_canary_basis_points_def
    by blast
  obtain e reason bucket al where c: "choose_engine a k b allocation = (e, reason, bucket, al)" by (metis prod_cases4)
  define core where "core = \<lparr>sa_id = [], sa_target = pa_target a, sa_engine = e, sa_bucket = bucket,
                   sa_allocation = al, sa_kill_switch = ks_active k, sa_rollback = ks_rollback k,
                   sa_reason = reason, sa_fingerprint = []\<rparr>"
  from assms obtain sid fp w where sid: "hash_of w ''stayopti-v3-serving-assignment-id'' = Inr sid"
    and fp: "assignment_fingerprint (core\<lparr>sa_id := sid\<rparr>) = Inr fp" and s: "s = core\<lparr>sa_id := sid\<rparr>\<lparr>sa_fingerprint := fp\<rparr>"
    unfolding create_serving_assignment_def and_then_Inr_iff require_Inr_iff Let_def core_def
    by (auto simp: b c and_then_Inr_iff)
  have "assignment_fingerprint s = Inr (sa_fingerprint s)"
    unfolding s by (rule assignment_seal.sealed [OF fp])
  moreover have "is_stable_hash (sa_id s)" using hash_of_stable [OF sid] by (simp add: s)
  moreover have "(sa_engine s, sa_reason s, sa_bucket s, sa_allocation s) = choose_engine a k b allocation"
    by (simp add: s core_def c)
  ultimately show ?thesis using v ok b by (simp add: s core_def)
qed

lemma serves_v3_iff:
  "fst (choose_engine a k b allocation) = EngineV3 \<longleftrightarrow>
     \<not> ks_active k \<and> pa_status a = Authorized \<and>
     (pa_target a = ToPublic \<or> pa_target a = ToCanary \<and> Fin (of_int b) < allocation)"
  by (cases "pa_target a") (simp_all add: choose_engine_def)

text \<open>C17. From the evidence to the answered request: when a review, an authorization and an assignment are made
  one from the other, the request is served by engine v3 exactly when the kill switch is inactive,
  a human approved, the evidence admits the stage, and the stage is public or it is the canary and
  the bucket of the request is below the allocation, which is at most five per cent. Every other
  request is served by engine v2.\<close>

theorem v3_serves_exactly_admitted:
  assumes "create_promotion_review evaluation_valid evaluation db gates canary = Inr r"
    and "create_promotion_authorization r target approval = Inr a"
    and "create_serving_assignment a token allocation k = Inr s"
  shows "(sa_engine s = EngineV3 \<longleftrightarrow>
      \<not> ks_active k \<and> approval \<noteq> None \<and> stage_admitted evaluation_valid evaluation db gates canary target \<and>
      (target = ToPublic \<or> target = ToCanary \<and> (\<exists>b. canary_bucket token = Inr b \<and> Fin (of_int b) < allocation))) \<and>
    (ks_active k = (sa_reason s = KillSwitchFallback)) \<and> \<not> Fin 500 < allocation"
proof -
  obtain b where b: "canary_bucket token = Inr b"
    and c: "(sa_engine s, sa_reason s, sa_bucket s, sa_allocation s) = choose_engine a k b allocation"
    and al: "\<not> Fin 500 < allocation"
    using create_serving_assignment_Inr [OF assms(3)] by blast
  have t: "pa_target a = target" and st: "pa_status a = Authorized \<longleftrightarrow>
      stage_admitted evaluation_valid evaluation db gates canary target \<and> approval \<noteq> None"
    using create_promotion_authorization_Inr [OF assms(2)] review_stages(4) [OF assms(1), of target] by (auto split: if_splits)
  have e: "sa_engine s = fst (choose_engine a k b allocation)" by (simp flip: c)
  have "sa_reason s = fst (snd (choose_engine a k b allocation))" by (simp flip: c)
  then have "sa_reason s = KillSwitchFallback \<longleftrightarrow> ks_active k"
    by (cases "pa_target a") (simp_all add: choose_engine_def)
  then show ?thesis unfolding e serves_v3_iff t st using b al by auto
qed

lemma created_assignment_valid:
  assumes "create_serving_assignment a token allocation k = Inr s"
  shows "validate_serving_assignment s = Inr True"
proof -
  obtain b where k: "validate_kill_switch k = Inr True" and al: "js_is_integer allocation" "\<not> allocation < Fin 0" "\<not> Fin 500 < allocation"
    and b: "canary_bucket token = Inr b"
    and c: "(sa_engine s, sa_reason s, sa_bucket s, sa_allocation s) = choose_engine a k b allocation"
    and s: "sa_kill_switch s = ks_active k" "sa_rollback s = ks_rollback k" "is_stable_hash (sa_id s)"
    "assignment_fingerprint s = Inr (sa_fingerprint s)"
    using create_serving_assignment_Inr [OF assms] by blast
  have r: "ks_rollback k = ks_active k" using k by (simp add: validate_kill_switch_def split: if_splits)
  have bk: "js_is_integer (Fin (of_int b))" "Fin 0 \<le> Fin (of_int b)" "Fin (of_int b) < Fin 10000"
    using canary_bucket_range [OF b] by simp_all
  have z: "js_is_integer (Fin 0)" "Fin 0 \<le> Fin 0" "Fin 0 \<le> maximum_canary_basis_points"
    by (simp_all add: maximum_canary_basis_points_def)
  have al2: "Fin 0 \<le> allocation" "allocation \<le> maximum_canary_basis_points"
    using al by (cases allocation; simp add: maximum_canary_basis_points_def)+
  show ?thesis
    using c s r bk z al(1) al2
    by (cases "pa_target a") (auto simp: validate_serving_assignment_def Let_def choose_engine_def split: if_splits)
qed

lemma finite_control: "finite_json (JObject control_core_fields)"
  by (simp add: control_core_fields_def)

lemma default_control_valid: "\<exists>c. create_default_control = Inr c \<and> validate_default_control c = Inr True"
proof -
  obtain cid where cid: "hash_of (JObject control_core_fields) ''stayopti-v3-default-promotion-control-id'' = Inr cid"
    using hash_of_defined [OF finite_control] by blast
  have "finite_json (JObject ((''controlId'', JString cid) # control_core_fields))"
    using finite_control by simp
  then obtain fp where "control_fingerprint cid = Inr fp"
    using hash_of_defined by (fastforce simp: control_fingerprint_def)
  with cid show ?thesis by (simp add: create_default_control_def validate_default_control_def hash_of_stable [OF cid])
qed

text \<open>Every record the promotion creates passes its own validator: authorizations, kill switch states,
  assignments and the default control, which is always created.\<close>

theorem promotion_records_validate:
  "(case create_promotion_authorization review target approval of
      Inl _ \<Rightarrow> True | Inr a \<Rightarrow> validate_promotion_authorization a = Inr True) \<and>
   (case evaluate_kill_switch t of Inl _ \<Rightarrow> True | Inr k \<Rightarrow> validate_kill_switch k = Inr True) \<and>
   (case create_serving_assignment a token allocation k of
      Inl _ \<Rightarrow> True | Inr s \<Rightarrow> validate_serving_assignment s = Inr True) \<and>
   (case create_default_control of Inl _ \<Rightarrow> False | Inr c \<Rightarrow> validate_default_control c = Inr True)"
proof -
  obtain c where c: "create_default_control = Inr c" "validate_default_control c = Inr True"
    using default_control_valid by blast
  show ?thesis
    unfolding c(1) sum.case c(2)
    by (auto split: sum.split dest: created_authorization_valid created_kill_switch_valid created_assignment_valid)
qed

text \<open>The canary is sticky: the bucket of a request is between 0 and 9999 and depends on its token only, so
  raising the allocation keeps every request that engine v3 served on engine v3, as long as the
  kill switch stays inactive.\<close>

theorem canary_sticky:
  assumes "create_serving_assignment a token allocation k = Inr s"
    and "create_serving_assignment a token allocation' k' = Inr s'"
    and "allocation \<le> allocation'" and "\<not> ks_active k'"
  shows "(sa_engine s = EngineV3 \<longrightarrow> sa_engine s' = EngineV3) \<and>
    (\<exists>b. canary_bucket token = Inr b \<and> 0 \<le> b \<and> b < 10000 \<and> sa_bucket s \<in> {None, Some (Fin (of_int b))})"
proof -
  obtain b where b: "canary_bucket token = Inr b"
    and c: "(sa_engine s, sa_reason s, sa_bucket s, sa_allocation s) = choose_engine a k b allocation"
    using create_serving_assignment_Inr [OF assms(1)] by blast
  have c': "(sa_engine s', sa_reason s', sa_bucket s', sa_allocation s') = choose_engine a k' b allocation'"
    using create_serving_assignment_Inr [OF assms(2)] b by simp
  have e: "sa_engine s = fst (choose_engine a k b allocation)" "sa_engine s' = fst (choose_engine a k' b allocation')"
    by (simp_all flip: c c')
  have "sa_bucket s = fst (snd (snd (choose_engine a k b allocation)))" by (simp flip: c)
  then have "sa_bucket s \<in> {None, Some (Fin (of_int b))}"
    by (cases "pa_target a") (simp_all add: choose_engine_def)
  moreover have "Fin (of_int b) < allocation \<Longrightarrow> Fin (of_int b) < allocation'"
    using assms(3) by (cases allocation; cases allocation'; simp)
  ultimately show ?thesis
    using assms(4) b canary_bucket_range [OF b] unfolding e serves_v3_iff by blast
qed

section \<open>The promotion can complete\<close>

lemma create_review_total:
  assumes "validate_external_gates gates = Inr ()" and "validate_canary_evidence canary = Inr ()" and "dashboard_passes db = Inr dp"
  shows "\<exists>r. create_promotion_review evaluation_valid evaluation db gates canary = Inr r"
proof -
  have "\<exists>h. hash_of (JObject (review_core_fields r)) ns = Inr h" for r ns
    using finite_review [of r] by (intro hash_of_defined) simp
  moreover have "\<exists>fp. review_fingerprint r = Inr fp" for r by (rule review_fingerprint_total)
  ultimately show ?thesis
    using assms unfolding create_promotion_review_def and_then_Inr_iff Let_def by metis
qed

lemma create_authorization_total:
  assumes "validate_promotion_review r = Inr v" and "sv_valid v" and "bounded_token '':_-'' 7 127 approval"
  shows "\<exists>a. create_promotion_authorization r target (Some approval) = Inr a"
proof -
  define status where "status = (if stage_rank (StageAt target) \<le> stage_rank (pr_highest r) then Authorized else Blocked)"
  obtain h where h: "hash_of (JString approval) ''stayopti-v3-manual-approval'' = Inr h"
    using hash_of_defined [of "JString approval"] by fastforce
  obtain aid where aid: "hash_of (JObject [(''reviewFingerprint'', JString (pr_fingerprint r)),
      (''targetStage'', JString (target_text target)), (''approvalFingerprint'', JString h)])
      ''stayopti-v3-promotion-authorization-id'' = Inr aid"
    using hash_of_defined by fastforce
  obtain fp where fp: "authorization_fingerprint \<lparr>pa_id = aid, pa_target = target, pa_status = status,
      pa_review_fingerprint = pr_fingerprint r, pa_manual_approval = True, pa_public_engine = public_engine_for status target,
      pa_canary_limit = maximum_canary_basis_points, pa_fingerprint = []\<rparr> = Inr fp"
    using hash_of_defined
    by (fastforce simp: authorization_fingerprint_def authorization_core_fields_def maximum_canary_basis_points_def)
  show ?thesis
    using assms h aid fp
    by (simp add: create_promotion_authorization_def require_opaque_token_def Let_def flip: status_def)
qed

lemma create_assignment_total:
  assumes "validate_promotion_authorization a = Inr True" and "validate_kill_switch k = Inr True"
    and "bounded_token '':_-'' 7 127 token" and "js_is_integer allocation" and "Fin 0 \<le> allocation" and "allocation \<le> Fin 500"
  shows "\<exists>s. create_serving_assignment a token allocation k = Inr s"
proof -
  obtain b where b: "canary_bucket token = Inr b" using canary_bucket_total by blast
  obtain e reason bucket al where c: "choose_engine a k b allocation = (e, reason, bucket, al)" by (metis prod_cases4)
  have "is_fin allocation" using assms(4) by (cases allocation) simp_all
  then have f: "is_fin al" "case bucket of None \<Rightarrow> True | Some x \<Rightarrow> is_fin x"
    using c by (auto simp: choose_engine_def split: if_splits)
  obtain x where x: "hash_of (JString token) ''stayopti-v3-canary-exposure'' = Inr x"
    using hash_of_defined [of "JString token"] by fastforce
  have "finite_json (JObject [(''authorizationFingerprint'', JString (pa_fingerprint a)), (''exposureFingerprint'', JString x),
      (''killSwitchFingerprint'', JString (ks_fingerprint k)), (''canaryAllocationBasisPoints'', JNumber al)])"
    using f by simp
  then obtain sid where sid: "hash_of (JObject [(''authorizationFingerprint'', JString (pa_fingerprint a)),
      (''exposureFingerprint'', JString x), (''killSwitchFingerprint'', JString (ks_fingerprint k)),
      (''canaryAllocationBasisPoints'', JNumber al)]) ''stayopti-v3-serving-assignment-id'' = Inr sid"
    using hash_of_defined by blast
  let ?s = "\<lparr>sa_id = sid, sa_target = pa_target a, sa_engine = e, sa_bucket = bucket, sa_allocation = al,
      sa_kill_switch = ks_active k, sa_rollback = ks_rollback k, sa_reason = reason, sa_fingerprint = []\<rparr>"
  have "finite_json (JObject ((''assignmentId'', JString sid) # assignment_core_fields ?s))"
    using f by (auto simp: assignment_core_fields_def split: option.splits)
  then obtain fp where fp: "assignment_fingerprint ?s = Inr fp"
    using hash_of_defined by (fastforce simp: assignment_fingerprint_def)
  have "\<not> allocation < Fin 0" "\<not> maximum_canary_basis_points < allocation"
    using assms(5,6) by (cases allocation; simp add: maximum_canary_basis_points_def)+
  then show ?thesis
    using assms(1-4) b c x sid fp
    by (simp add: create_serving_assignment_def require_opaque_token_def Let_def)
qed

lemma promotion_completes:
  assumes "validate_external_gates gates = Inr ()" and "validate_canary_evidence canary = Inr ()"
    and "is_evidence_fingerprint (Some (er_fingerprint e))" and "dashboard_ready (Some d)"
    and "stage_admitted evaluation_valid (Some e) (Some d) gates canary target"
    and "bounded_token '':_-'' 7 127 approval" and "bounded_token '':_-'' 7 127 token"
    and "telemetry_ok t" and "trigger_codes t = []"
    and "js_is_integer allocation" and "Fin 0 \<le> allocation" and "allocation \<le> Fin 500"
  shows "\<exists>r a k s. create_promotion_review evaluation_valid (Some e) (Some d) gates canary = Inr r \<and>
    create_promotion_authorization r target (Some approval) = Inr a \<and> pa_status a = Authorized \<and>
    evaluate_kill_switch t = Inr k \<and> \<not> ks_active k \<and> create_serving_assignment a token allocation k = Inr s"
proof -
  have d: "is_stable_hash (db_fingerprint d)" "\<exists>dp. dashboard_passes (Some d) = Inr dp"
    using assms(4) by (auto simp: dashboard_ready_def dashboard_passes_def validate_dashboard_def dashboard_fingerprint_def dest: hash_of_stable)
  then obtain r where r: "create_promotion_review evaluation_valid (Some e) (Some d) gates canary = Inr r"
    using create_review_total [OF assms(1,2)] by blast
  have "is_evidence_fingerprint (map_option db_fingerprint (Some d))" using d(1) by (simp add: is_evidence_fingerprint_def)
  then obtain v where v: "validate_promotion_review r = Inr v" "sv_valid v"
    using review_validation [OF r] assms(3) by auto
  then obtain a where a: "create_promotion_authorization r target (Some approval) = Inr a"
    using create_authorization_total assms(6) by blast
  have st: "pa_status a = Authorized"
    using create_promotion_authorization_Inr [OF a] review_stages(4) [OF r, of target] assms(5) by simp
  obtain k where k: "evaluate_kill_switch t = Inr k" using evaluate_kill_switch_total [OF assms(8)] by blast
  have "\<not> ks_active k" using evaluate_kill_switch_Inr [OF k] assms(9) by simp
  moreover have "\<exists>s. create_serving_assignment a token allocation k = Inr s"
    by (rule create_assignment_total [OF created_authorization_valid [OF a] created_kill_switch_valid [OF k] assms(7,10-12)])
  ultimately show ?thesis using r a st k by blast
qed

text \<open>C34. The promotion can complete: once the gates of the public stage pass on linked evidence, an approval and
  quiet telemetry are enough for the review, the authorization, the kill switch and the assignment
  to be created, and the request is served by engine v3.\<close>

theorem promotion_can_complete:
  assumes "validate_external_gates gates = Inr ()" and "validate_canary_evidence canary = Inr ()"
    and "is_evidence_fingerprint (Some (er_fingerprint e))"
    and "stage_admitted evaluation_valid (Some e) (Some d) gates canary ToPublic"
    and "bounded_token '':_-'' 7 127 approval" and "bounded_token '':_-'' 7 127 token"
    and "telemetry_ok t" and "trigger_codes t = []"
    and "js_is_integer allocation" and "Fin 0 \<le> allocation" and "allocation \<le> Fin 500"
  shows "\<exists>r a k s. create_promotion_review evaluation_valid (Some e) (Some d) gates canary = Inr r \<and>
    create_promotion_authorization r ToPublic (Some approval) = Inr a \<and> evaluate_kill_switch t = Inr k \<and>
    create_serving_assignment a token allocation k = Inr s \<and> sa_engine s = EngineV3"
proof -
  have "dashboard_ready (Some d)" using assms(4) by (simp add: stage_admitted_def)
  then obtain r a k s where c: "create_promotion_review evaluation_valid (Some e) (Some d) gates canary = Inr r"
    "create_promotion_authorization r ToPublic (Some approval) = Inr a" "pa_status a = Authorized" "evaluate_kill_switch t = Inr k"
    "\<not> ks_active k" "create_serving_assignment a token allocation k = Inr s"
    using promotion_completes [OF assms(1-3) _ assms(4-11)] by blast
  have "pa_target a = ToPublic" using create_promotion_authorization_Inr [OF c(2)] by simp
  then have "fst (choose_engine a k b allocation) = EngineV3" for b using c(3,5) by (simp add: serves_v3_iff)
  moreover obtain b where "(sa_engine s, sa_reason s, sa_bucket s, sa_allocation s) = choose_engine a k b allocation"
    using create_serving_assignment_Inr [OF c(6)] by blast
  ultimately have "sa_engine s = EngineV3" by (metis fst_conv)
  with c show ?thesis by blast
qed

subsection \<open>Sample evidence\<close>

definition sample_fingerprint :: string where "sample_fingerprint = ''fnv1a32-00000000''"

definition sample_gate :: gate_evidence where
  "sample_gate = \<lparr>ge_status = GatePass, ge_fingerprint = Some sample_fingerprint\<rparr>"

definition sample_gates :: external_gates where
  "sample_gates = \<lparr>eg_public_rates = sample_gate, eg_invariants = sample_gate, eg_security = sample_gate, eg_human = sample_gate,
     eg_monitoring = sample_gate\<rparr>"

definition sample_canary :: canary_evidence where
  "sample_canary = \<lparr>ce_status = RunPass, ce_observations = Fin 500, ce_hours = Fin 24, ce_error_rate = Some (Fin 0),
     ce_latency = Some (Fin 0), ce_regressions = Fin 0, ce_rollback_drill = RunPass, ce_fingerprint = Some sample_fingerprint\<rparr>"

definition sample_evaluation :: evaluation_result where
  "sample_evaluation = \<lparr>er_status = EvaluationPass, er_candidate_state = ''eligible-for-v3-11-shadow-gate'',
     er_fingerprint = sample_fingerprint\<rparr>"

definition sample_telemetry :: kill_telemetry where
  "sample_telemetry = \<lparr>kt_manual = False, kt_price = CheckPass, kt_rates_verified = True, kt_regressions = Fin 0,
     kt_error_rate = Fin 0, kt_latency = Fin 0\<rparr>"

lemma lit_002: "Fin 0 \<le> lit 0.002"
  by (simp add: rnd_nonneg)

lemma sample_stable: "is_stable_hash sample_fingerprint" "is_evidence_fingerprint (Some sample_fingerprint)"
proof -
  show "is_stable_hash sample_fingerprint" by code_simp
  then show "is_evidence_fingerprint (Some sample_fingerprint)" by (simp add: is_evidence_fingerprint_def)
qed

lemma sample_token: "bounded_token '':_-'' 7 127 ''token-0001''"
  by code_simp

lemma sample_telemetry_quiet: "telemetry_ok sample_telemetry" "trigger_codes sample_telemetry = []"
  using lit_002
  by (auto simp: telemetry_ok_def sample_telemetry_def trigger_codes_def maximum_error_rate_regression_def
      maximum_latency_regression_def jsnum_not_less)

lemma sample_evidence:
  "validate_external_gates sample_gates = Inr ()" "validate_canary_evidence sample_canary = Inr ()"
  "is_evidence_fingerprint (Some (er_fingerprint sample_evaluation))"
  "dashboard_ready (Some d) \<Longrightarrow> stage_admitted (\<lambda>_. True) (Some sample_evaluation) (Some d) sample_gates sample_canary target"
  using sample_stable(2) lit_002
  by (auto simp: validate_external_gates_def validate_gate_evidence_def sample_gates_def sample_gate_def validate_canary_evidence_def
      sample_canary_def sample_evaluation_def stage_admitted_def evaluation_passes_def external_pass_def canary_evidence_passes_def
      minimum_canary_observations_def minimum_canary_hours_def maximum_error_rate_regression_def maximum_latency_regression_def num_eq_def)

lemma ready_dashboard: "\<exists>d. dashboard_ready (Some d)"
proof -
  let ?d = "(dashboard_core [])\<lparr>db_id := sample_fingerprint, db_status := ReadyForCanary\<rparr>"
  have f: "dashboard_core_fields ?d = map (\<lambda>(key, v). if key = ''status'' then (key, JString (dashboard_status_text ReadyForCanary)) else (key, v))
      (dashboard_core_fields (dashboard_core []))"
    by (simp add: dashboard_core_fields_def)
  have "list_all (\<lambda>(key, v). finite_json v) (dashboard_core_fields ?d)"
    unfolding f using finite_dashboard [of "[]"] by (auto simp: list_all_iff split: if_splits)
  then have "finite_json (JObject ((''dashboardId'', JString (db_id ?d)) # dashboard_core_fields ?d))" by simp
  then obtain fp where fp: "dashboard_fingerprint ?d = Inr fp"
    unfolding dashboard_fingerprint_def using hash_of_defined by blast
  have "dashboard_ready (Some (?d\<lparr>db_fingerprint := fp\<rparr>))"
    using fp sample_stable(1) by (simp add: dashboard_ready_def dashboard_seal.fingerprint_with_fp)
  then show ?thesis by blast
qed

lemma promotion_can_complete_witness:
  "\<exists>d r a k s. create_promotion_review (\<lambda>_. True) (Some sample_evaluation) (Some d) sample_gates sample_canary = Inr r \<and>
    create_promotion_authorization r ToPublic (Some ''token-0001'') = Inr a \<and> evaluate_kill_switch sample_telemetry = Inr k \<and>
    create_serving_assignment a ''token-0001'' (Fin 0) k = Inr s \<and> sa_engine s = EngineV3"
proof -
  obtain d where d: "dashboard_ready (Some d)" using ready_dashboard by blast
  have "js_is_integer (Fin 0)" "Fin 0 \<le> Fin 0" "Fin 0 \<le> Fin 500" by simp_all
  from promotion_can_complete [OF sample_evidence(1-3) sample_evidence(4) [OF d] sample_token sample_token sample_telemetry_quiet this]
  show ?thesis by blast
qed

text \<open>A chain of records in the canary stage with an allocation of 5 per cent.\<close>

lemma sample_chain:
  "\<exists>d r a k s. dashboard_ready (Some d) \<and>
    create_promotion_review (\<lambda>_. True) (Some sample_evaluation) (Some d) sample_gates sample_canary = Inr r \<and>
    create_promotion_authorization r ToCanary (Some ''token-0001'') = Inr a \<and> evaluate_kill_switch sample_telemetry = Inr k \<and>
    \<not> ks_active k \<and> create_serving_assignment a ''token-0001'' (Fin 500) k = Inr s"
proof -
  obtain d where d: "dashboard_ready (Some d)" using ready_dashboard by blast
  have "js_is_integer (Fin 500)" "Fin 0 \<le> Fin 500" "Fin 500 \<le> Fin 500" by simp_all
  from promotion_completes [OF sample_evidence(1-3) d sample_evidence(4) [OF d] sample_token sample_token sample_telemetry_quiet this] d
  show ?thesis by blast
qed

lemma v3_serves_exactly_admitted_witness:
  "\<exists>a k s. create_serving_assignment a ''token-0001'' (Fin 500) k = Inr s \<and>
     (sa_engine s = EngineV3 \<longleftrightarrow> (\<exists>b. canary_bucket ''token-0001'' = Inr b \<and> Fin (of_int b) < Fin 500))"
proof -
  obtain d r a k s where d: "dashboard_ready (Some d)"
    and c: "create_promotion_review (\<lambda>_. True) (Some sample_evaluation) (Some d) sample_gates sample_canary = Inr r"
    "create_promotion_authorization r ToCanary (Some ''token-0001'') = Inr a"
    "create_serving_assignment a ''token-0001'' (Fin 500) k = Inr s" and k: "\<not> ks_active k"
    using sample_chain by blast
  show ?thesis
    using v3_serves_exactly_admitted [OF c] sample_evidence(4) [OF d, of ToCanary] k c(3) by auto
qed

lemma promotion_review_exact_witness:
  "\<exists>d r. create_promotion_review (\<lambda>_. True) (Some sample_evaluation) (Some d) sample_gates sample_canary = Inr r \<and>
     el_public (pr_eligibility r)"
proof -
  obtain d where d: "dashboard_ready (Some d)" using ready_dashboard by blast
  then obtain dp where "dashboard_passes (Some d) = Inr dp"
    by (auto simp: dashboard_ready_def dashboard_passes_def validate_dashboard_def)
  then obtain r where r: "create_promotion_review (\<lambda>_. True) (Some sample_evaluation) (Some d) sample_gates sample_canary = Inr r"
    using create_review_total [OF sample_evidence(1,2)] by blast
  with promotion_review_exact [OF r] sample_evidence(4) [OF d] show ?thesis by blast
qed

lemma canary_sticky_witness:
  "\<exists>a k s. create_serving_assignment a ''token-0001'' (Fin 500) k = Inr s \<and> \<not> ks_active k \<and>
     (\<exists>b. canary_bucket ''token-0001'' = Inr b \<and> 0 \<le> b \<and> b < 10000)"
proof -
  obtain a k s where c: "create_serving_assignment a ''token-0001'' (Fin 500) k = Inr s" "\<not> ks_active k"
    using sample_chain by blast
  have "Fin 500 \<le> Fin 500" by simp
  from canary_sticky [OF c(1) c(1) this c(2)] c show ?thesis by blast
qed

end
