(* ===== verification/DecisionTies.thy ===== *)
theory DecisionTies
  imports StableHash
begin

text \<open>
  Ties of decisions, \<open>src/src/engine-v3/decision/decisionTieProjectionV3.ts\<close>: the projection of
  a value that leaves out what identifies a provider, the resolution of a tie, and the first
  candidates of a ranking with everything that ties with the last of them. A comparator of the
  callers is an argument; what it has to promise is the locale \<open>signed_comparator\<close>.
\<close>

section \<open>The projection\<close>

text \<open>The keys of the expression \<open>OPAQUE_OR_FORBIDDEN_KEY\<close>, in lower case.\<close>

definition opaque_keys :: "string list" where
  "opaque_keys =
     [''id'', ''ids'', ''provider'', ''sourceprovider'', ''providername'', ''hotelid'', ''offerid'', ''solutionid'',
      ''providerid'', ''rawpayload'', ''rawresponse'', ''commission'', ''markup'', ''affiliaterevenue'',
      ''providerpriority'', ''clickprobability'', ''usereconomicvalue'']"

definition ends_with :: "string \<Rightarrow> string \<Rightarrow> bool" where
  "ends_with suffix s \<longleftrightarrow> length suffix \<le> length s \<and> drop (length s - length suffix) s = suffix"

definition is_opaque_key :: "string \<Rightarrow> bool" where
  "is_opaque_key key \<longleftrightarrow>
     map ascii_lower key \<in> set opaque_keys \<or> ends_with ''Id'' key \<or> ends_with ''Ids'' key \<or>
     ends_with ''_id'' (map ascii_lower key) \<or> ends_with ''_ids'' (map ascii_lower key)"

fun tie_projection :: "json \<Rightarrow> json" where
  "tie_projection (JArray vs) = JArray (map tie_projection vs)"
| "tie_projection (JObject kvs) =
     JObject (filter (\<lambda>(key, v). \<not> is_opaque_key key) (map (map_prod id tie_projection) kvs))"
| "tie_projection v = v"

section \<open>Resolving a tie\<close>

datatype tie_class = Distinct | Equivalent

record 'c tie_resolution =
  tie_ordered :: "'c list"
  tie_leaders :: "'c list"
  tie_classification :: tie_class
  tie_representative :: "'c option"

text \<open>
  The leaders are sorted by the text of their projection. A projection without a text
  (\<open>None\<close>) makes the comparator throw, and with two leaders or more it is called on each.
\<close>

definition by_text :: "string \<times> 'c \<Rightarrow> string \<times> 'c \<Rightarrow> jsnum" where
  "by_text first second = compare_strings (fst first) (fst second)"

definition tie_texts :: "('c \<Rightarrow> json) \<Rightarrow> 'c list \<Rightarrow> (string \<times> 'c) list option" where
  "tie_texts project leaders =
     sequence_option (map (\<lambda>c. map_option (\<lambda>t. (t, c)) (stable_serialize (project c))) leaders)"

definition resolve_decision_tie ::
  "('c \<Rightarrow> 'c \<Rightarrow> jsnum) \<Rightarrow> ('c \<Rightarrow> json) \<Rightarrow> 'c list \<Rightarrow> 'c tie_resolution option" where
  "resolve_decision_tie cmp project candidates =
     (let ordered = js_sort cmp candidates
      in case ordered of
           [] \<Rightarrow> Some \<lparr>tie_ordered = [], tie_leaders = [], tie_classification = Distinct, tie_representative = None\<rparr>
         | first # _ \<Rightarrow>
             (let leaders = filter (\<lambda>c. num_eq (cmp first c) (Fin 0)) ordered
              in case leaders of
                   [leader] \<Rightarrow> Some \<lparr>tie_ordered = ordered, tie_leaders = leaders, tie_classification = Distinct,
                                     tie_representative = Some leader\<rparr>
                 | _ \<Rightarrow>
                     (case tie_texts project leaders of
                        None \<Rightarrow> None
                      | Some texts \<Rightarrow>
                          (case js_sort by_text texts of
                             a # b # _ \<Rightarrow> Some \<lparr>tie_ordered = ordered, tie_leaders = leaders,
                               tie_classification = Equivalent,
                               tie_representative = (if num_eq (by_text a b) (Fin 0) then None else Some (snd a))\<rparr>
                           | _ \<Rightarrow> None))))"

text \<open>\<open>takeDecisionTopWithBoundaryTiesV3\<close>; \<open>None\<close> is the error for a bad limit.\<close>

definition take_top :: "('c \<Rightarrow> 'c \<Rightarrow> jsnum) \<Rightarrow> jsnum \<Rightarrow> 'c list \<Rightarrow> 'c list option" where
  "take_top cmp limit candidates =
     (if \<not> js_is_integer limit \<or> limit \<le> Fin 0 then None
      else
        let ordered = js_sort cmp candidates;
            index = min (nat \<lfloor>fin_val limit\<rfloor>) (length ordered) - 1
        in if ordered = [] then Some []
           else Some (map snd (filter (\<lambda>(i, c). Fin (of_nat i) < limit \<or> num_eq (cmp c (ordered ! index)) (Fin 0))
                        (zip [0 ..< length ordered] ordered))))"

section \<open>Comparators that compute signs\<close>

lemma filter_length_mono: "(\<And>x. x \<in> set xs \<Longrightarrow> P x \<Longrightarrow> Q x) \<Longrightarrow> length (filter P xs) \<le> length (filter Q xs)"
  by (induction xs) (auto simp: le_SucI)

text \<open>
  The source also tests a comparator against zero: it is zero exactly where neither side comes
  after the other.
\<close>

locale signed_comparator = comparator +
  assumes zero_iff: "x \<in> A \<Longrightarrow> y \<in> A \<Longrightarrow> cmp x y = Fin 0 \<longleftrightarrow> \<not> Fin 0 < cmp x y \<and> \<not> Fin 0 < cmp y x"
begin

definition before :: "'a \<Rightarrow> 'a \<Rightarrow> bool" where
  "before x y \<longleftrightarrow> Fin 0 < cmp y x"

lemma zero_test: "x \<in> A \<Longrightarrow> y \<in> A \<Longrightarrow> num_eq (cmp x y) (Fin 0) \<longleftrightarrow> \<not> before x y \<and> \<not> before y x"
  using zero_iff [of x y] by (auto simp: num_eq_def before_def)

lemma before_asym: "x \<in> A \<Longrightarrow> y \<in> A \<Longrightarrow> before x y \<Longrightarrow> \<not> before y x"
  using total [of y x] by (simp add: before_def)

lemma not_before_trans: "x \<in> A \<Longrightarrow> y \<in> A \<Longrightarrow> z \<in> A \<Longrightarrow> \<not> before x y \<Longrightarrow> \<not> before y z \<Longrightarrow> \<not> before x z"
  using trans [of z y x] by (auto simp: before_def)

lemma sorted_not_before:
  "set xs \<subseteq> A \<Longrightarrow> i \<le> j \<Longrightarrow> j < length xs \<Longrightarrow> \<not> before (js_sort cmp xs ! j) (js_sort cmp xs ! i)"
proof -
  assume a: "set xs \<subseteq> A" "i \<le> j" "j < length xs"
  show ?thesis
  proof (cases "i = j")
    case True
    have "js_sort cmp xs ! j \<in> A" using a nth_mem [of j "js_sort cmp xs"] by (auto simp del: nth_mem)
    then show ?thesis using True before_asym by blast
  next
    case False
    then have "not_after (js_sort cmp xs ! i) (js_sort cmp xs ! j)"
      using a sorted_wrt_nth_less [OF sorted_sort [OF a(1)], of i j] by simp
    then show ?thesis by (simp add: before_def not_after_def)
  qed
qed

text \<open>The candidates that come before an element are among the first of the sorted list.\<close>

lemma length_before:
  assumes "set xs \<subseteq> A" and "j < length xs"
  shows "length (filter (\<lambda>c. before c (js_sort cmp xs ! j)) xs) \<le> j"
proof -
  let ?o = "js_sort cmp xs"
  have "length (filter (\<lambda>c. before c (?o ! j)) xs) = length (filter (\<lambda>c. before c (?o ! j)) ?o)"
    by (metis mset_filter mset_js_sort size_mset)
  also have "\<dots> = card {i. i < length ?o \<and> before (?o ! i) (?o ! j)}"
    by (rule length_filter_conv_card)
  also have "\<dots> \<le> card {..<j}"
  proof (rule card_mono)
    show "{i. i < length ?o \<and> before (?o ! i) (?o ! j)} \<subseteq> {..<j}"
      using sorted_not_before [OF assms(1)] by (auto simp: not_le [symmetric])
  qed simp
  finally show ?thesis by simp
qed

lemma take_top_members:
  assumes A: "set xs \<subseteq> A" and top: "take_top cmp (Fin (of_nat k)) xs = Some ys" and k: "0 < k"
  shows "set ys = {c \<in> set xs. length (filter (\<lambda>d. before d c) xs) < k}"
proof (cases "xs = []")
  case True
  then show ?thesis using top k by (auto simp: take_top_def Let_def split: if_splits)
next
  case False
  let ?o = "js_sort cmp xs"
  define n where "n = min k (length ?o) - 1"
  have "0 < length xs" using False by simp
  then have n: "n < length xs" using k by (auto simp: n_def min_def)
  have inA: "?o ! i \<in> A" if "i < length xs" for i
    using that A nth_mem [of i ?o] by (auto simp del: nth_mem)
  have ys: "ys = map snd (filter (\<lambda>(i, c). i < k \<or> num_eq (cmp c (?o ! n)) (Fin 0)) (zip [0 ..< length ?o] ?o))"
    using top False k by (simp add: take_top_def Let_def n_def del: js_sort_simps split: if_splits)
  have mem: "c \<in> set ys \<longleftrightarrow> (\<exists>i < length xs. c = ?o ! i \<and> (i < k \<or> num_eq (cmp c (?o ! n)) (Fin 0)))" for c
    by (auto simp: ys set_zip image_iff)
  have same: "length (filter (\<lambda>d. before d c) xs) = length (filter (\<lambda>d. before d c) ?o)" for c
    by (metis mset_filter mset_js_sort size_mset)
  have ranked: "i < k \<or> num_eq (cmp (?o ! i) (?o ! n)) (Fin 0) \<longleftrightarrow> length (filter (\<lambda>d. before d (?o ! i)) xs) < k"
    if i: "i < length xs" for i
  proof
    assume "i < k \<or> num_eq (cmp (?o ! i) (?o ! n)) (Fin 0)"
    then show "length (filter (\<lambda>d. before d (?o ! i)) xs) < k"
    proof
      assume "i < k"
      then show ?thesis using length_before [OF A i] by simp
    next
      assume "num_eq (cmp (?o ! i) (?o ! n)) (Fin 0)"
      then have t: "\<not> before (?o ! i) (?o ! n)" "\<not> before (?o ! n) (?o ! i)"
        using zero_test [OF inA [OF i] inA [OF n]] by blast+
      have "before d (?o ! i) \<Longrightarrow> before d (?o ! n)" if "d \<in> set xs" for d
        using not_before_trans [of d "?o ! n" "?o ! i"] t(2) that A inA [OF i] inA [OF n] by blast
      then have "length (filter (\<lambda>d. before d (?o ! i)) xs) \<le> length (filter (\<lambda>d. before d (?o ! n)) xs)"
        by (rule filter_length_mono)
      also have "\<dots> \<le> n" by (rule length_before [OF A n])
      finally show ?thesis using k by (simp add: n_def)
    qed
  next
    assume few: "length (filter (\<lambda>d. before d (?o ! i)) xs) < k"
    show "i < k \<or> num_eq (cmp (?o ! i) (?o ! n)) (Fin 0)"
    proof (rule ccontr)
      assume "\<not> (i < k \<or> num_eq (cmp (?o ! i) (?o ! n)) (Fin 0))"
      then have ik: "k \<le> i" and ne: "\<not> num_eq (cmp (?o ! i) (?o ! n)) (Fin 0)" by auto
      have kl: "k < length xs" "n = k - 1" using ik i by (simp_all add: n_def)
      have "\<not> before (?o ! i) (?o ! n)" using sorted_not_before [OF A, of n i] ik i kl by simp
      then have bn: "before (?o ! n) (?o ! i)" using ne zero_test [OF inA [OF i] inA [OF n]] by blast
      have "before (?o ! j) (?o ! i)" if "j < k" for j
      proof (rule ccontr)
        assume "\<not> before (?o ! j) (?o ! i)"
        moreover have "\<not> before (?o ! n) (?o ! j)" using sorted_not_before [OF A, of j n] that kl n by simp
        ultimately have "\<not> before (?o ! n) (?o ! i)"
          using not_before_trans inA [OF n] inA [OF i] inA [of j] that kl by (meson order.strict_trans)
        with bn show False by blast
      qed
      then have "{..<k} \<subseteq> {j. j < length ?o \<and> before (?o ! j) (?o ! i)}" using kl by auto
      then have "card {..<k} \<le> card {j. j < length ?o \<and> before (?o ! j) (?o ! i)}" by (rule card_mono [rotated]) simp
      also have "\<dots> = length (filter (\<lambda>d. before d (?o ! i)) ?o)" by (simp only: length_filter_conv_card)
      finally show False using few by (simp add: same)
    qed
  qed
  have inxs: "c \<in> set xs \<longleftrightarrow> (\<exists>i < length xs. c = ?o ! i)" for c
    by (metis in_set_conv_nth length_js_sort set_js_sort)
  have "c \<in> set ys \<longleftrightarrow> (\<exists>i < length xs. c = ?o ! i \<and> length (filter (\<lambda>d. before d (?o ! i)) xs) < k)" for c
    unfolding mem by (simp only: ranked cong: conj_cong)
  also have "(\<exists>i < length xs. c = ?o ! i \<and> length (filter (\<lambda>d. before d (?o ! i)) xs) < k) \<longleftrightarrow>
      c \<in> set xs \<and> length (filter (\<lambda>d. before d c) xs) < k" for c
    unfolding inxs by (auto simp del: js_sort_simps)
  finally show ?thesis by blast
qed

lemma tie_leaders_minimal:
  assumes A: "set xs \<subseteq> A" and o: "js_sort cmp xs = first # rest"
  shows "set (filter (\<lambda>c. num_eq (cmp first c) (Fin 0)) (first # rest)) = {c \<in> set xs. \<forall>d \<in> set xs. \<not> before d c}"
proof -
  have xs: "set (first # rest) = set xs" by (metis o set_js_sort)
  then have f: "first \<in> set xs" by auto
  have least: "\<not> before d first" if "d \<in> set xs" for d
    using sort_first_minimal [OF A, of first d] that o by (simp add: before_def)
  have "num_eq (cmp first c) (Fin 0) \<longleftrightarrow> (\<forall>d \<in> set xs. \<not> before d c)" if c: "c \<in> set xs" for c
  proof -
    have "\<not> before first c \<Longrightarrow> d \<in> set xs \<Longrightarrow> \<not> before d c" for d
      using not_before_trans [of d first c] least [of d] A c f by blast
    then show ?thesis using zero_test [of first c] least [OF c] A c f by blast
  qed
  then show ?thesis unfolding set_filter xs by blast
qed

end

section \<open>What a tie resolves to\<close>

lemma map_fst_insert: "map fst (js_insert by_text x xs) = js_insert compare_strings (fst x) (map fst xs)"
  by (induction xs) (simp_all add: by_text_def)

lemma map_fst_sort: "map fst (js_sort by_text xs) = js_sort compare_strings (map fst xs)"
  by (induction xs) (simp_all add: map_fst_insert)

lemma sequence_option_eq_Some: "sequence_option xs = Some ys \<longleftrightarrow> xs = map Some ys"
  by (induction xs arbitrary: ys) (auto split: option.splits simp: Cons_eq_map_conv)

lemma tie_texts_Some:
  "tie_texts project ls = Some ts \<longleftrightarrow> map snd ts = ls \<and> (\<forall>(t, c) \<in> set ts. stable_serialize (project c) = Some t)"
  unfolding tie_texts_def sequence_option_eq_Some
proof (induction ls arbitrary: ts)
  case (Cons l ls)
  show ?case
  proof (cases ts)
    case (Cons p ps)
    with Cons.IH [of ps] show ?thesis by (cases "stable_serialize (project l)"; cases p) auto
  qed simp
qed auto

lemma tie_texts_defined: "(\<exists>ts. tie_texts project ls = Some ts) \<longleftrightarrow> (\<forall>c \<in> set ls. stable_serialize (project c) \<noteq> None)"
proof
  assume d: "\<forall>c \<in> set ls. stable_serialize (project c) \<noteq> None"
  have "tie_texts project ls = Some (map (\<lambda>c. (the (stable_serialize (project c)), c)) ls)"
    unfolding tie_texts_Some using d by (auto simp: comp_def)
  then show "\<exists>ts. tie_texts project ls = Some ts" by blast
qed (force simp: tie_texts_Some)

lemma resolve_form:
  assumes "resolve_decision_tie cmp project xs = Some r" and "js_sort cmp xs = first # rest"
  defines "ls \<equiv> filter (\<lambda>c. num_eq (cmp first c) (Fin 0)) (first # rest)"
  shows "tie_leaders r = ls \<and>
    (length ls = 1 \<and> tie_classification r = Distinct \<and> tie_representative r = Some (hd ls) \<or>
     length ls \<noteq> 1 \<and> tie_classification r = Equivalent \<and>
     (\<exists>ts a b more. tie_texts project ls = Some ts \<and> js_sort by_text ts = a # b # more \<and>
        tie_representative r = (if fst a = fst b then None else Some (snd a))))"
proof -
  have eq: "num_eq (by_text a b) (Fin 0) \<longleftrightarrow> fst a = fst b" for a b :: "string \<times> 'a"
    by (auto simp: by_text_def compare_strings_def num_eq_def)
  have r: "(case ls of
       [leader] \<Rightarrow> Some \<lparr>tie_ordered = first # rest, tie_leaders = ls, tie_classification = Distinct,
                         tie_representative = Some leader\<rparr>
     | _ \<Rightarrow>
         (case tie_texts project ls of
            None \<Rightarrow> None
          | Some texts \<Rightarrow>
              (case js_sort by_text texts of
                 a # b # _ \<Rightarrow> Some \<lparr>tie_ordered = first # rest, tie_leaders = ls, tie_classification = Equivalent,
                   tie_representative = (if fst a = fst b then None else Some (snd a))\<rparr>
               | _ \<Rightarrow> None))) = Some r"
    using assms(1) by (simp only: resolve_decision_tie_def Let_def assms(2) list.case ls_def eq)
  show ?thesis
  proof (cases "\<exists>l. ls = [l]")
    case True
    then show ?thesis using r by auto
  next
    case False
    then have n: "length ls \<noteq> 1" by (cases ls rule: remdups_adj.cases) auto
    have c: "(case tie_texts project ls of
        None \<Rightarrow> None
      | Some texts \<Rightarrow>
          (case js_sort by_text texts of
             a # b # _ \<Rightarrow> Some \<lparr>tie_ordered = first # rest, tie_leaders = ls, tie_classification = Equivalent,
               tie_representative = (if fst a = fst b then None else Some (snd a))\<rparr>
           | _ \<Rightarrow> None)) = Some r"
      using r False by (cases ls rule: remdups_adj.cases) simp_all
    then obtain ts where ts: "tie_texts project ls = Some ts" by (cases "tie_texts project ls") auto
    with c obtain a b more where "js_sort by_text ts = a # b # more"
      by (cases "js_sort by_text ts" rule: remdups_adj.cases) auto
    with c ts n show ?thesis by (cases a; cases b) auto
  qed
qed

text \<open>Arrival order manufactures no superiority: permuting the candidates of a decision changes neither
  whether it is a tie, nor who the leaders are, nor the text of the representative; and a leader is
  exactly a candidate that no other comes before.\<close>

theorem tie_resolution_order_independent:
  assumes "signed_comparator cmp A" and "set xs \<subseteq> A" and "mset xs = mset ys"
    and "resolve_decision_tie cmp project xs = Some r" and "resolve_decision_tie cmp project ys = Some r'"
  shows "tie_classification r = tie_classification r' \<and> mset (tie_leaders r) = mset (tie_leaders r') \<and>
    set (tie_leaders r) = {c \<in> set xs. \<forall>d \<in> set xs. \<not> Fin 0 < cmp c d} \<and>
    map_option (\<lambda>c. stable_serialize (project c)) (tie_representative r) =
    map_option (\<lambda>c. stable_serialize (project c)) (tie_representative r')"
proof (cases "js_sort cmp xs")
  case Nil
  then have "xs = []" "ys = []" using assms(3) by auto
  then show ?thesis using assms(4,5) by (auto simp: resolve_decision_tie_def)
next
  case (Cons first rest)
  have ne: "xs \<noteq> []" "ys \<noteq> []" using Cons assms(3) by auto
  then obtain first' rest' where Cons': "js_sort cmp ys = first' # rest'" by (cases "js_sort cmp ys") auto
  have sets: "set ys = set xs" using assms(3) by (metis set_mset_mset)
  let ?min = "\<lambda>c. \<forall>d \<in> set xs. \<not> Fin 0 < cmp c d"
  define ls where "ls = filter (\<lambda>c. num_eq (cmp first c) (Fin 0)) (first # rest)"
  define ls' where "ls' = filter (\<lambda>c. num_eq (cmp first' c) (Fin 0)) (first' # rest')"
  have s: "set ls = {c \<in> set xs. ?min c}" "set ls' = {c \<in> set xs. ?min c}"
    using signed_comparator.tie_leaders_minimal [OF assms(1,2) Cons]
      signed_comparator.tie_leaders_minimal [OF assms(1) _ Cons'] assms(2)
    by (simp_all only: ls_def ls'_def sets signed_comparator.before_def [OF assms(1)])
  have xs: "mset (first # rest) = mset xs" "mset (first' # rest') = mset ys" by (metis Cons Cons' mset_js_sort)+
  have "ls = filter ?min (first # rest)" "ls' = filter ?min (first' # rest')"
    unfolding ls_def ls'_def using s xs(1,2) [THEN mset_eq_setD] sets
    by (auto intro!: filter_cong simp: ls_def ls'_def set_eq_iff)
  then have ms: "mset ls = mset ls'" using xs assms(3) by (simp only: mset_filter)
  then have len: "length ls = length ls'" by (rule mset_eq_length)
  note form = resolve_form [OF assms(4) Cons, folded ls_def] and form' = resolve_form [OF assms(5) Cons', folded ls'_def]
  have f: "tie_leaders r = ls" "tie_leaders r' = ls'" using form form' by blast+
  have texts: "map fst (js_sort by_text ts) = map fst (js_sort by_text ts')"
    if t: "tie_texts project ls = Some ts" "tie_texts project ls' = Some ts'" for ts ts'
  proof -
    have "map Some (map fst ts) = map (stable_serialize \<circ> project) ls" if "tie_texts project ls = Some ts" for ls ts
      using that by (fastforce simp: tie_texts_Some)
    then have "mset (map Some (map fst ts)) = mset (map Some (map fst ts'))"
      using t ms by (metis mset_map)
    then have "image_mset Some (mset (map fst ts)) = image_mset Some (mset (map fst ts'))" by (simp only: mset_map)
    then have "mset (map fst ts) = mset (map fst ts')" by (rule injD [OF multiset.inj_map, rotated]) simp
    then show ?thesis
      unfolding map_fst_sort by (intro strings.sort_order_independent) (auto simp: not_less)
  qed
  show ?thesis
  proof (cases "length ls = 1")
    case True
    then obtain l where "ls = [l]" by (cases ls) auto
    moreover from this ms have "ls' = [l]" by simp
    ultimately show ?thesis using form form' s f by simp
  next
    case False
    then obtain ts a b more ts' a' b' more' where
      r: "tie_classification r = Equivalent" "tie_texts project ls = Some ts" "js_sort by_text ts = a # b # more"
        "tie_representative r = (if fst a = fst b then None else Some (snd a))" and
      r': "tie_classification r' = Equivalent" "tie_texts project ls' = Some ts'" "js_sort by_text ts' = a' # b' # more'"
        "tie_representative r' = (if fst a' = fst b' then None else Some (snd a'))"
      using form form' len by metis
    have ab: "fst a = fst a'" "fst b = fst b'" using texts [OF r(2) r'(2)] r(3) r'(3) by simp_all
    have t: "stable_serialize (project (snd a)) = Some (fst a)" if "tie_texts project ls = Some ts" "a \<in> set ts" for ls ts a
      using that by (auto simp: tie_texts_Some)
    have "a \<in> set ts" "a' \<in> set ts'" using r(3) r'(3) by (metis list.set_intros(1) set_js_sort)+
    then show ?thesis using r r' ab t [OF r(2)] t [OF r'(2)] s f ms by simp
  qed
qed

text \<open>C22. The first candidates of a ranking are exactly those with fewer than the limit before them: nobody
  who ties with the last one is cut off, and nobody worse is let in.\<close>

theorem take_top_exact:
  assumes "signed_comparator cmp A" and "set xs \<subseteq> A" and "0 < k"
  shows "\<exists>ys. take_top cmp (Fin (of_nat k)) xs = Some ys \<and>
    set ys = {c \<in> set xs. length (filter (\<lambda>d. Fin 0 < cmp c d) xs) < k}"
proof -
  have "take_top cmp (Fin (of_nat k)) xs \<noteq> None" using assms(3) by (simp add: take_top_def Let_def)
  then obtain ys where ys: "take_top cmp (Fin (of_nat k)) xs = Some ys" by blast
  with signed_comparator.take_top_members [OF assms(1,2) ys assms(3)] show ?thesis
    by (simp add: signed_comparator.before_def [OF assms(1)])
qed

interpretation strings_sign: signed_comparator compare_strings UNIV
  by unfold_locales (auto simp: compare_strings_def)

lemma take_top_exact_witness:
  "\<exists>ys. take_top compare_strings (Fin (of_nat 1)) [''b'', ''a'', ''a''] = Some ys \<and> ''a'' \<in> set ys \<and> ''b'' \<notin> set ys"
proof -
  have s: "signed_comparator compare_strings UNIV" by unfold_locales
  have A: "set [''b'', ''a'', ''a''] \<subseteq> UNIV" and k: "0 < (1::nat)" by simp_all
  have n: "length (filter (\<lambda>d. Fin 0 < compare_strings ''b'' d) [''b'', ''a'', ''a'']) = 2"
    "length (filter (\<lambda>d. Fin 0 < compare_strings ''a'' d) [''b'', ''a'', ''a'']) = 0" by code_simp+
  have m: "''a'' \<in> set [''b'', ''a'', ''a'']" by simp
  from take_top_exact [OF s A k] obtain ys where ys: "take_top compare_strings (Fin (of_nat 1)) [''b'', ''a'', ''a''] = Some ys"
    and set: "set ys = {c \<in> set [''b'', ''a'', ''a'']. length (filter (\<lambda>d. Fin 0 < compare_strings c d) [''b'', ''a'', ''a'']) < 1}"
    by blast
  have "''a'' \<in> set ys" unfolding set mem_Collect_eq n using m by simp
  moreover have "''b'' \<notin> set ys" unfolding set mem_Collect_eq n by simp
  ultimately show ?thesis using ys by blast
qed

lemma tie_resolution_order_independent_witness:
  "\<exists>r. resolve_decision_tie compare_strings JString [''a'', ''b''] = Some r \<and> tie_classification r = Distinct \<and>
     ''b'' \<notin> set (tie_leaders r)"
proof -
  have s: "signed_comparator compare_strings UNIV" by unfold_locales
  have r: "resolve_decision_tie compare_strings JString [''a'', ''b''] =
      Some \<lparr>tie_ordered = [''a'', ''b''], tie_leaders = [''a''], tie_classification = Distinct, tie_representative = Some ''a''\<rparr>"
    by code_simp
  have A: "set [''a'', ''b''] \<subseteq> UNIV" by simp
  have b: "Fin 0 < compare_strings ''b'' ''a''" by code_simp
  have m: "''a'' \<in> set [''a'', ''b'']" by simp
  let ?r = "\<lparr>tie_ordered = [''a'', ''b''], tie_leaders = [''a''], tie_classification = Distinct, tie_representative = Some ''a''\<rparr>"
  have "set (tie_leaders ?r) = {c \<in> set [''a'', ''b'']. \<forall>d \<in> set [''a'', ''b'']. \<not> Fin 0 < compare_strings c d}"
    using tie_resolution_order_independent [OF s A refl r r] by blast
  with b m have "''b'' \<notin> set (tie_leaders ?r)" by blast
  moreover have "tie_classification ?r = Distinct" by simp
  ultimately show ?thesis using r by blast
qed

end
