(* ===== verification/SearchScale.thy ===== *)
theory SearchScale
  imports DecisionTies Promotion
begin

text \<open>
  Search-wide scale and coverage, \<open>src/src/engine-v3/scale/searchWideScaleCoverageV3.ts\<close>: which
  candidates of a large search are worth the full evaluation, judged by coarse score bounds, and
  the audit that compares the plan with the full evaluation. \<open>localeCompare\<close> is the parameter
  \<open>collate\<close> and \<open>Math.log2\<close>, whose value ECMA-262 leaves to the host, the parameter
  \<open>log2\<close>.
\<close>

section \<open>Types\<close>

datatype source_completeness = SourceComplete | SourcePartial | SourceUnknown

datatype scale_disposition = RetainedProtected | RetainedSafeBound | RetainedMissingBound | PrunedIneligible | PrunedSafeBound

datatype scope_claim = CompleteResultSet | PartialResultSet | AnalyzedSet

datatype scarcity = ScarceSet | LimitedSet | AmpleSet | UnknownScarcity

datatype equivalence_status = AuditEquivalent | AuditNotEquivalent | AuditUnavailable

datatype scale_status = ScalePass | ScaleBlocked | ScaleUnavailable

record scale_candidate =
  cd_hotel_id :: string
  cd_eligible :: bool
  cd_lower :: "jsnum option"
  cd_upper :: "jsnum option"
  cd_full :: "jsnum option"
  cd_coverage :: jsnum
  cd_protected :: bool

record scale_options =
  so_fine_target :: "jsnum option"
  so_output_limit :: "jsnum option"
  so_equivalence :: "jsnum option"
  so_strong :: "jsnum option"
  so_max_candidates :: "jsnum option"
  so_max_fine :: "jsnum option"
  so_max_bytes :: "jsnum option"
  so_max_operations :: "jsnum option"

record scale_policy =
  sp_fine_target :: jsnum
  sp_output_limit :: jsnum
  sp_equivalence :: jsnum
  sp_strong :: jsnum
  sp_max_candidates :: jsnum
  sp_max_fine :: jsnum
  sp_max_bytes :: jsnum
  sp_max_operations :: jsnum

record scale_evaluated = scale_candidate +
  ev_retained :: bool
  ev_disposition :: scale_disposition
  ev_reasons :: "string list"

record search_scope =
  ss_completeness :: source_completeness
  ss_reported :: "jsnum option"
  ss_analyzed :: jsnum
  ss_ratio :: "jsnum option"
  ss_claim :: scope_claim
  ss_reasons :: "string list"

record search_context =
  sx_analyzed :: jsnum
  sx_eligible :: jsnum
  sx_full :: jsnum
  sx_high_evidence :: jsnum
  sx_ratio :: "jsnum option"
  sx_scarcity :: scarcity
  sx_reasons :: "string list"

record equivalence_audit =
  ea_status :: equivalence_status
  ea_tolerance :: jsnum
  ea_strong_tolerance :: jsnum
  ea_full_top :: "string list"
  ea_planned_top :: "string list"
  ea_exact_match :: bool
  ea_loss :: "jsnum option"
  ea_strong :: "string list"
  ea_lost :: "string list"
  ea_violations :: "string list"
  ea_tie :: tie_class
  ea_expanded :: bool
  ea_reasons :: "string list"

record work_budget =
  wb_operations :: jsnum
  wb_fine :: jsnum
  wb_bytes :: jsnum
  wb_candidates_ok :: bool
  wb_operations_ok :: bool
  wb_fine_ok :: bool
  wb_memory_ok :: bool
  wb_within :: bool
  wb_reasons :: "string list"

record scale_evaluation =
  sl_id :: string
  sl_status :: scale_status
  sl_policy :: scale_policy
  sl_candidates :: "scale_evaluated list"
  sl_retained :: "string list"
  sl_pruned :: "string list"
  sl_cutoff :: "jsnum option"
  sl_scope :: search_scope
  sl_context :: search_context
  sl_equivalence :: equivalence_audit
  sl_budget :: work_budget
  sl_reasons :: "string list"
  sl_fingerprint :: string

datatype scale_error =
    NotPositiveInteger string
  | NotNonNegative string
  | ToleranceTooLarge
  | DuplicateHotelIds
  | BadScaleCandidate string
  | BoundsNotBoth string
  | BoundsInverted string
  | UnknownSetWithTotal
  | ReportedCountRequired
  | CompleteCountMismatch
  | PartialCountMismatch
  | UnhashableEvaluation

section \<open>Options and candidates\<close>

definition require_positive_integer :: "jsnum \<Rightarrow> string \<Rightarrow> scale_error + unit" where
  "require_positive_integer v label = require (js_is_integer v \<and> \<not> v \<le> Fin 0) (NotPositiveInteger label)"

definition require_non_negative :: "jsnum \<Rightarrow> string \<Rightarrow> scale_error + unit" where
  "require_non_negative v label = require (is_fin v \<and> \<not> v < Fin 0) (NotNonNegative label)"

text \<open>\<open>{ ...DEFAULT_OPTIONS, ...options }\<close>.\<close>

definition merge_scale_options :: "scale_options \<Rightarrow> scale_policy" where
  "merge_scale_options opts =
     (let given = (\<lambda>v d. case v of None \<Rightarrow> d | Some x \<Rightarrow> x)
      in \<lparr>sp_fine_target = given (so_fine_target opts) (Fin 128), sp_output_limit = given (so_output_limit opts) (Fin 4),
          sp_equivalence = given (so_equivalence opts) (lit 0.5), sp_strong = given (so_strong opts) (Fin 2),
          sp_max_candidates = given (so_max_candidates opts) (Fin 50000),
          sp_max_fine = given (so_max_fine opts) (Fin 1024),
          sp_max_bytes = given (so_max_bytes opts) (Fin 67108864),
          sp_max_operations = given (so_max_operations opts) (Fin 2000000)\<rparr>)"

definition resolve_scale_options :: "scale_options \<Rightarrow> scale_error + scale_policy" where
  "resolve_scale_options opts =
     (let p = merge_scale_options opts
      in and_then (require_positive_integer (sp_fine_target p) ''fineEvaluationTarget'') (\<lambda>_.
         and_then (require_positive_integer (sp_output_limit p) ''outputCandidateLimit'') (\<lambda>_.
         and_then (require_positive_integer (sp_max_candidates p) ''maximumCandidateCount'') (\<lambda>_.
         and_then (require_positive_integer (sp_max_fine p) ''maximumFineEvaluationCount'') (\<lambda>_.
         and_then (require_positive_integer (sp_max_bytes p) ''maximumEstimatedWorkingBytes'') (\<lambda>_.
         and_then (require_positive_integer (sp_max_operations p) ''maximumCoarseOperationCount'') (\<lambda>_.
         and_then (require_non_negative (sp_equivalence p) ''equivalenceTolerance'') (\<lambda>_.
         and_then (require_non_negative (sp_strong p) ''strongAlternativeTolerance'') (\<lambda>_.
         and_then (require (\<not> (Fin 100 < sp_equivalence p \<or> Fin 100 < sp_strong p)) ToleranceTooLarge) (\<lambda>_.
           Inr p))))))))))"

definition is_finite_in_range :: "jsnum option \<Rightarrow> rat \<Rightarrow> rat \<Rightarrow> bool" where
  "is_finite_in_range v low high =
     (case v of None \<Rightarrow> False | Some x \<Rightarrow> is_fin x \<and> Fin low \<le> x \<and> x \<le> Fin high)"

definition validate_scale_candidate :: "scale_candidate \<Rightarrow> scale_error + unit" where
  "validate_scale_candidate c =
     (let missing = (cd_lower c = None \<and> cd_upper c = None);
          present = (is_finite_in_range (cd_lower c) 0 100 \<and> is_finite_in_range (cd_upper c) 0 100)
      in and_then (require (\<not> js_blank (cd_hotel_id c) \<and> is_finite_in_range (Some (cd_coverage c)) 0 1 \<and>
                     (cd_full c = None \<or> is_finite_in_range (cd_full c) 0 100)) (BadScaleCandidate (cd_hotel_id c))) (\<lambda>_.
         and_then (require (missing \<or> present) (BoundsNotBoth (cd_hotel_id c))) (\<lambda>_.
           require (\<not> present \<or> \<not> the (cd_upper c) < the (cd_lower c)) (BoundsInverted (cd_hotel_id c)))))"

section \<open>The plan\<close>

definition by_descending :: "jsnum \<Rightarrow> jsnum \<Rightarrow> jsnum" where
  "by_descending first second = second - first"

definition known_lower_bounds :: "scale_candidate list \<Rightarrow> jsnum list" where
  "known_lower_bounds cs =
     js_sort by_descending (map (\<lambda>c. the (cd_lower c)) (filter (\<lambda>c. cd_eligible c \<and> cd_lower c \<noteq> None) cs))"

definition resolve_safe_cutoff :: "scale_candidate list \<Rightarrow> scale_policy \<Rightarrow> jsnum option" where
  "resolve_safe_cutoff cs p =
     (let bounds = known_lower_bounds cs
      in case bounds of
           [] \<Rightarrow> None
         | best # _ \<Rightarrow>
             (let index = min (nat \<lfloor>fin_val (sp_fine_target p)\<rfloor>) (length bounds) - 1;
                  finalist = bounds ! index - sp_equivalence p;
                  strong = best - sp_strong p - sp_equivalence p
              in Some (round6 (js_max (Fin 0) (js_min finalist strong)))))"

definition score_epsilon :: jsnum where
  "score_epsilon = lit 0.000001"

definition disposition_of :: "scale_candidate \<Rightarrow> jsnum option \<Rightarrow> scale_disposition" where
  "disposition_of c cutoff =
     (if \<not> cd_eligible c then PrunedIneligible
      else if cd_protected c then RetainedProtected
      else case (cd_lower c, cd_upper c, cutoff) of
             (Some _, Some upper, Some limit) \<Rightarrow>
               if limit \<le> upper + score_epsilon then RetainedSafeBound else PrunedSafeBound
           | _ \<Rightarrow> RetainedMissingBound)"

fun disposition_text :: "scale_disposition \<Rightarrow> string" where
  "disposition_text RetainedProtected = ''retained-protected''"
| "disposition_text RetainedSafeBound = ''retained-safe-bound''"
| "disposition_text RetainedMissingBound = ''retained-missing-bound''"
| "disposition_text PrunedIneligible = ''pruned-ineligible''"
| "disposition_text PrunedSafeBound = ''pruned-safe-bound''"

fun disposition_reason :: "scale_disposition \<Rightarrow> string" where
  "disposition_reason RetainedProtected = ''scale:policy-candidate-protected''"
| "disposition_reason RetainedMissingBound = ''scale:missing-bound-protected''"
| "disposition_reason RetainedSafeBound = ''scale:safe-bound-retained''"
| "disposition_reason PrunedIneligible = ''scale:ineligible-pruned''"
| "disposition_reason PrunedSafeBound = ''scale:safe-bound-pruned''"

definition evaluate_scale_candidate :: "scale_candidate \<Rightarrow> jsnum option \<Rightarrow> scale_evaluated" where
  "evaluate_scale_candidate c cutoff =
     (let d = disposition_of c cutoff
      in scale_candidate.extend (scale_candidate.truncate c\<lparr>cd_hotel_id := js_trim (cd_hotel_id c)\<rparr>)
           \<lparr>ev_retained = (take 9 (disposition_text d) = ''retained-''), ev_disposition = d,
            ev_reasons = unique_reason_codes [''scale:coarse-to-fine-planned'', disposition_reason d]\<rparr>)"

section \<open>Scope and context\<close>

definition resolve_scope :: "nat \<Rightarrow> source_completeness \<Rightarrow> jsnum option \<Rightarrow> scale_error + search_scope" where
  "resolve_scope n completeness reported =
     (let count = Fin (of_nat n);
          claim = (case completeness of SourceComplete \<Rightarrow> CompleteResultSet | SourcePartial \<Rightarrow> PartialResultSet | SourceUnknown \<Rightarrow> AnalyzedSet);
          reason = (case completeness of SourceComplete \<Rightarrow> ''scale:source-set-complete'' | SourcePartial \<Rightarrow> ''scale:source-set-partial''
                      | SourceUnknown \<Rightarrow> ''scale:source-set-unknown'')
      in and_then (require (\<not> (completeness = SourceUnknown \<and> reported \<noteq> None)) UnknownSetWithTotal) (\<lambda>_.
         and_then (require (\<not> (completeness \<noteq> SourceUnknown \<and>
             (case reported of None \<Rightarrow> True | Some r \<Rightarrow> \<not> js_is_integer r \<or> r < Fin 0))) ReportedCountRequired) (\<lambda>_.
         and_then (require (\<not> (completeness = SourceComplete \<and> reported \<noteq> Some count)) CompleteCountMismatch) (\<lambda>_.
         and_then (require (\<not> (completeness = SourcePartial \<and>
             (case reported of None \<Rightarrow> True | Some r \<Rightarrow> r \<le> count))) PartialCountMismatch) (\<lambda>_.
           Inr \<lparr>ss_completeness = completeness, ss_reported = reported, ss_analyzed = count,
                ss_ratio = (case reported of
                    None \<Rightarrow> None
                  | Some r \<Rightarrow> if num_eq r (Fin 0) then (if n = 0 then Some (Fin 1) else None) else Some (round6 (js_div count r))),
                ss_claim = claim,
                ss_reasons = unique_reason_codes [''scale:coverage-computed'', ''scale:analyzed-set-only'',
                  ''scale:public-market-claim-blocked'', reason]\<rparr>)))))"

definition search_context_of :: "scale_evaluated list \<Rightarrow> search_context" where
  "search_context_of cs =
     (let analyzed = length cs;
          eligible = how_many cd_eligible cs;
          ratio = (if analyzed = 0 then None else Some (round6 (js_div (Fin (of_nat eligible)) (Fin (of_nat analyzed)))))
      in \<lparr>sx_analyzed = Fin (of_nat analyzed), sx_eligible = Fin (of_nat eligible),
          sx_full = Fin (of_nat (how_many (\<lambda>c. cd_eligible c \<and> cd_full c \<noteq> None) cs)),
          sx_high_evidence = Fin (of_nat (how_many (\<lambda>c. cd_eligible c \<and> Fin (3 / 4) \<le> cd_coverage c) cs)),
          sx_ratio = ratio,
          sx_scarcity = (case ratio of
              None \<Rightarrow> UnknownScarcity
            | Some r \<Rightarrow>
                if eligible \<le> 2 \<or> r < lit 0.05 then ScarceSet
                else if eligible \<le> 8 \<or> r < lit 0.2 then LimitedSet else AmpleSet),
          sx_reasons = unique_reason_codes [''scale:search-wide-context'', ''scale:scarcity-current-set-only'']\<rparr>)"

section \<open>The audit\<close>

definition compare_full_score :: "scale_evaluated \<Rightarrow> scale_evaluated \<Rightarrow> jsnum" where
  "compare_full_score first second =
     (let score = (\<lambda>c. case cd_full c of None \<Rightarrow> Fin (- 1) | Some s \<Rightarrow> s) in score second - score first)"

definition violates_bounds :: "scale_evaluated \<Rightarrow> bool" where
  "violates_bounds c =
     (case (cd_full c, cd_lower c, cd_upper c) of
        (Some full, Some lower, Some upper) \<Rightarrow> full + score_epsilon < lower \<or> upper < full - score_epsilon
      | _ \<Rightarrow> False)"

definition sort_ids :: "string list \<Rightarrow> string list" where
  "sort_ids ids = js_sort compare_strings ids"

definition fully_scored :: "scale_evaluated list \<Rightarrow> scale_evaluated list" where
  "fully_scored cs = js_sort compare_full_score (filter (\<lambda>c. cd_eligible c \<and> cd_full c \<noteq> None) cs)"

definition planned_scored :: "scale_evaluated list \<Rightarrow> scale_evaluated list" where
  "planned_scored cs = js_sort compare_full_score (filter ev_retained (fully_scored cs))"

definition top_score :: "scale_evaluated list \<Rightarrow> jsnum option" where
  "top_score cs = (case js_first cs of None \<Rightarrow> None | Some c \<Rightarrow> cd_full c)"

text \<open>\<open>createEquivalenceAudit\<close>; \<open>None\<close> is the error of a bad limit, which the policy excludes.\<close>

definition equivalence_audit_of :: "scale_evaluated list \<Rightarrow> scale_policy \<Rightarrow> equivalence_audit option" where
  "equivalence_audit_of cs p =
     (case (take_top compare_full_score (sp_output_limit p) (fully_scored cs),
            take_top compare_full_score (sp_output_limit p) (planned_scored cs)) of
        (Some full_top, Some planned_top) \<Rightarrow>
          (let best_full = top_score full_top;
               best_planned = top_score planned_top;
               loss = (case (best_full, best_planned) of
                   (Some f, Some q) \<Rightarrow> Some (round6 (js_max (Fin 0) (f - q))) | _ \<Rightarrow> None);
               strong = (case best_full of
                   None \<Rightarrow> []
                 | Some best \<Rightarrow> sort_ids (map cd_hotel_id (filter (\<lambda>c. cd_protected c \<or>
                     (case cd_full c of None \<Rightarrow> False | Some f \<Rightarrow> best - sp_strong p \<le> f + score_epsilon)) (fully_scored cs))));
               retained = map cd_hotel_id (filter ev_retained cs);
               lost = filter (\<lambda>i. i \<notin> set retained) strong;
               violations = sort_ids (map cd_hotel_id (filter violates_bounds cs));
               full_ids = map cd_hotel_id full_top;
               planned_ids = map cd_hotel_id planned_top;
               status = (if fully_scored cs = [] then AuditUnavailable
                         else if (case loss of None \<Rightarrow> False | Some l \<Rightarrow> l \<le> sp_equivalence p + score_epsilon) \<and>
                                 lost = [] \<and> violations = [] then AuditEquivalent
                         else AuditNotEquivalent)
           in Some \<lparr>ea_status = status, ea_tolerance = sp_equivalence p, ea_strong_tolerance = sp_strong p,
                    ea_full_top = full_ids, ea_planned_top = planned_ids,
                    ea_exact_match = (stable_serialize (json_strings (sort_ids full_ids)) =
                                      stable_serialize (json_strings (sort_ids planned_ids))),
                    ea_loss = loss, ea_strong = strong, ea_lost = lost, ea_violations = violations,
                    ea_tie = (if 1 < length full_top \<and> cd_full (full_top ! 0) = cd_full (full_top ! 1) then Equivalent else Distinct),
                    ea_expanded = (sp_output_limit p < Fin (of_nat (length full_top)) \<or>
                                   sp_output_limit p < Fin (of_nat (length planned_top))),
                    ea_reasons = unique_reason_codes
                      [case status of AuditEquivalent \<Rightarrow> ''scale:full-equivalence-pass''
                         | AuditNotEquivalent \<Rightarrow> ''scale:full-equivalence-failed''
                         | AuditUnavailable \<Rightarrow> ''scale:full-equivalence-unavailable'',
                       if violations = [] then ''scale:bounds-validated'' else ''scale:bounds-violated'',
                       if lost = [] then ''scale:strong-alternatives-preserved'' else ''scale:strong-alternative-lost'',
                       ''scale:safe-pruning-audited'']\<rparr>)
      | _ \<Rightarrow> None)"

definition work_budget_of :: "(jsnum \<Rightarrow> jsnum) \<Rightarrow> nat \<Rightarrow> nat \<Rightarrow> scale_policy \<Rightarrow> work_budget" where
  "work_budget_of log2 candidate_count retained_count p =
     (let n = Fin (of_nat candidate_count); r = Fin (of_nat retained_count);
          operations = js_ceil (n * (Fin 7 + log2 (js_max (Fin 2) n)));
          bytes = n * Fin 320 + r * Fin 192 + sp_fine_target p * Fin 64;
          candidates_ok = (n \<le> sp_max_candidates p);
          operations_ok = (operations \<le> sp_max_operations p);
          fine_ok = (r \<le> sp_max_fine p);
          memory_ok = (bytes \<le> sp_max_bytes p);
          fits = (candidates_ok \<and> operations_ok \<and> fine_ok \<and> memory_ok)
      in \<lparr>wb_operations = operations, wb_fine = r, wb_bytes = bytes, wb_candidates_ok = candidates_ok,
          wb_operations_ok = operations_ok, wb_fine_ok = fine_ok, wb_memory_ok = memory_ok, wb_within = fits,
          wb_reasons = unique_reason_codes [''scale:dynamic-computation-bounded'',
            if fits then ''scale:work-budget-pass'' else ''scale:work-budget-blocked'']\<rparr>)"

section \<open>The evaluation\<close>

fun completeness_text :: "source_completeness \<Rightarrow> string" where
  "completeness_text SourceComplete = ''complete''"
| "completeness_text SourcePartial = ''partial''"
| "completeness_text SourceUnknown = ''unknown''"

fun claim_text :: "scope_claim \<Rightarrow> string" where
  "claim_text CompleteResultSet = ''complete-source-result-set''"
| "claim_text PartialResultSet = ''partial-source-result-set''"
| "claim_text AnalyzedSet = ''current-analyzed-set''"

fun scarcity_text :: "scarcity \<Rightarrow> string" where
  "scarcity_text ScarceSet = ''scarce-current-set''"
| "scarcity_text LimitedSet = ''limited-current-set''"
| "scarcity_text AmpleSet = ''ample-current-set''"
| "scarcity_text UnknownScarcity = ''unknown''"

fun audit_text :: "equivalence_status \<Rightarrow> string" where
  "audit_text AuditEquivalent = ''equivalent''"
| "audit_text AuditNotEquivalent = ''not-equivalent''"
| "audit_text AuditUnavailable = ''unavailable''"

fun scale_status_text :: "scale_status \<Rightarrow> string" where
  "scale_status_text ScalePass = ''pass''"
| "scale_status_text ScaleBlocked = ''blocked''"
| "scale_status_text ScaleUnavailable = ''unavailable''"

fun tie_class_text :: "tie_class \<Rightarrow> string" where
  "tie_class_text Distinct = ''DECISIONALLY_DISTINCT''"
| "tie_class_text Equivalent = ''DECISIONALLY_EQUIVALENT''"

definition scale_policy_json :: "scale_policy \<Rightarrow> json" where
  "scale_policy_json p =
     JObject
       [(''fineEvaluationTarget'', JNumber (sp_fine_target p)), (''outputCandidateLimit'', JNumber (sp_output_limit p)),
        (''equivalenceTolerance'', JNumber (sp_equivalence p)), (''strongAlternativeTolerance'', JNumber (sp_strong p)),
        (''maximumCandidateCount'', JNumber (sp_max_candidates p)), (''maximumFineEvaluationCount'', JNumber (sp_max_fine p)),
        (''maximumEstimatedWorkingBytes'', JNumber (sp_max_bytes p)),
        (''maximumCoarseOperationCount'', JNumber (sp_max_operations p))]"

definition scale_candidate_json :: "scale_evaluated \<Rightarrow> json" where
  "scale_candidate_json c =
     JObject
       [(''hotelId'', JString (cd_hotel_id c)), (''eligible'', JBool (cd_eligible c)),
        (''coarseScoreLowerBound'', json_option JNumber (cd_lower c)),
        (''coarseScoreUpperBound'', json_option JNumber (cd_upper c)),
        (''fullDecisionScore'', json_option JNumber (cd_full c)), (''evidenceCoverage'', JNumber (cd_coverage c)),
        (''protectedByPolicy'', JBool (cd_protected c)), (''retainedForFineEvaluation'', JBool (ev_retained c)),
        (''disposition'', JString (disposition_text (ev_disposition c))), (''reasonCodes'', json_strings (ev_reasons c))]"

definition scope_json :: "search_scope \<Rightarrow> json" where
  "scope_json s =
     JObject
       [(''sourceSetCompleteness'', JString (completeness_text (ss_completeness s))),
        (''sourceReportedHotelCount'', json_option JNumber (ss_reported s)), (''analyzedHotelCount'', JNumber (ss_analyzed s)),
        (''coverageRatioOfReportedSet'', json_option JNumber (ss_ratio s)), (''claimScope'', JString (claim_text (ss_claim s))),
        (''marketCoverageClaimAllowed'', JBool False), (''scopeLabel'', JString ''analyzed-set-not-market''),
        (''reasonCodes'', json_strings (ss_reasons s))]"

definition context_json :: "search_context \<Rightarrow> json" where
  "context_json s =
     JObject
       [(''analyzedHotelCount'', JNumber (sx_analyzed s)), (''eligibleHotelCount'', JNumber (sx_eligible s)),
        (''fullScoreHotelCount'', JNumber (sx_full s)), (''highEvidenceHotelCount'', JNumber (sx_high_evidence s)),
        (''eligibleRatio'', json_option JNumber (sx_ratio s)), (''relativeScarcity'', JString (scarcity_text (sx_scarcity s))),
        (''scarcityBasis'', JString ''current-analyzed-set-only''), (''commercialUrgencyClaimAllowed'', JBool False),
        (''reasonCodes'', json_strings (sx_reasons s))]"

definition equivalence_json :: "equivalence_audit \<Rightarrow> json" where
  "equivalence_json e =
     JObject
       [(''status'', JString (audit_text (ea_status e))), (''tolerance'', JNumber (ea_tolerance e)),
        (''strongAlternativeTolerance'', JNumber (ea_strong_tolerance e)), (''fullTopHotelIds'', json_strings (ea_full_top e)),
        (''coarseToFineTopHotelIds'', json_strings (ea_planned_top e)), (''exactTopSetMatch'', JBool (ea_exact_match e)),
        (''maximumTopScoreLoss'', json_option JNumber (ea_loss e)), (''strongAlternativeHotelIds'', json_strings (ea_strong e)),
        (''lostStrongAlternativeHotelIds'', json_strings (ea_lost e)), (''boundViolationHotelIds'', json_strings (ea_violations e)),
        (''decisionTieClassification'', JString (tie_class_text (ea_tie e))),
        (''outputLimitExpandedForDecisionTie'', JBool (ea_expanded e)), (''reasonCodes'', json_strings (ea_reasons e))]"

definition budget_json :: "work_budget \<Rightarrow> json" where
  "budget_json w =
     JObject
       [(''coarseOperationCount'', JNumber (wb_operations w)), (''fineEvaluationCount'', JNumber (wb_fine w)),
        (''estimatedWorkingBytes'', JNumber (wb_bytes w)), (''candidateCountWithinBudget'', JBool (wb_candidates_ok w)),
        (''coarseOperationsWithinBudget'', JBool (wb_operations_ok w)), (''fineEvaluationsWithinBudget'', JBool (wb_fine_ok w)),
        (''estimatedMemoryWithinBudget'', JBool (wb_memory_ok w)), (''withinBudget'', JBool (wb_within w)),
        (''reasonCodes'', json_strings (wb_reasons w))]"

definition scale_core_fields :: "scale_evaluation \<Rightarrow> (string \<times> json) list" where
  "scale_core_fields s =
     [(''phase'', JString ''v3-08''), (''rankingApplication'', JString ''shadow-only''),
      (''runtimeApplication'', JString ''shadow-plan-only''), (''publicPresentation'', JString ''disabled''),
      (''status'', JString (scale_status_text (sl_status s))), (''policy'', scale_policy_json (sl_policy s)),
      (''candidates'', JArray (map scale_candidate_json (sl_candidates s))), (''retainedHotelIds'', json_strings (sl_retained s)),
      (''prunedHotelIds'', json_strings (sl_pruned s)), (''safeCutoffLowerBound'', json_option JNumber (sl_cutoff s)),
      (''scope'', scope_json (sl_scope s)), (''searchWideContext'', context_json (sl_context s)),
      (''equivalence'', equivalence_json (sl_equivalence s)), (''workBudget'', budget_json (sl_budget s)),
      (''reasonCodes'', json_strings (sl_reasons s))]"

definition scale_hash :: "json \<Rightarrow> string \<Rightarrow> scale_error + string" where
  "scale_hash v ns = (case stable_hash v ns of None \<Rightarrow> Inl UnhashableEvaluation | Some h \<Rightarrow> Inr h)"

definition scale_fingerprint :: "scale_evaluation \<Rightarrow> scale_error + string" where
  "scale_fingerprint s =
     scale_hash (JObject ((''evaluationId'', JString (sl_id s)) # scale_core_fields s)) ''stayopti-v3-search-wide-scale-coverage''"

definition trim_candidate :: "scale_candidate \<Rightarrow> scale_candidate" where
  "trim_candidate c = c\<lparr>cd_hotel_id := js_trim (cd_hotel_id c)\<rparr>"

fun validate_all :: "scale_candidate list \<Rightarrow> scale_error + unit" where
  "validate_all [] = Inr ()"
| "validate_all (c # cs) = and_then (validate_scale_candidate c) (\<lambda>_. validate_all cs)"

definition by_candidate_id :: "(string \<Rightarrow> string \<Rightarrow> jsnum) \<Rightarrow> scale_candidate \<Rightarrow> scale_candidate \<Rightarrow> jsnum" where
  "by_candidate_id collate first second = collate (cd_hotel_id first) (cd_hotel_id second)"

definition scale_status_of :: "equivalence_audit \<Rightarrow> work_budget \<Rightarrow> scale_status" where
  "scale_status_of audit budget =
     (if ea_status audit = AuditUnavailable then ScaleUnavailable
      else if ea_status audit = AuditEquivalent \<and> wb_within budget then ScalePass else ScaleBlocked)"

text \<open>The evaluation before its identity and fingerprint are set, from checked and sorted candidates.\<close>

definition scale_core ::
  "(jsnum \<Rightarrow> jsnum) \<Rightarrow> scale_policy \<Rightarrow> scale_candidate list \<Rightarrow> search_scope \<Rightarrow> scale_evaluated list \<Rightarrow> equivalence_audit \<Rightarrow>
     scale_evaluation" where
  "scale_core log2 p cs scope evaluated audit =
     (let retained = sort_ids (map cd_hotel_id (filter ev_retained evaluated));
          context = search_context_of evaluated;
          budget = work_budget_of log2 (length evaluated) (length retained) p
      in \<lparr>sl_id = [], sl_status = scale_status_of audit budget, sl_policy = p, sl_candidates = evaluated, sl_retained = retained,
          sl_pruned = sort_ids (map cd_hotel_id (filter (\<lambda>c. \<not> ev_retained c) evaluated)), sl_cutoff = resolve_safe_cutoff cs p,
          sl_scope = scope, sl_context = context, sl_equivalence = audit, sl_budget = budget,
          sl_reasons = unique_reason_codes
            ([''scale:shadow-only'', ''scale:coarse-to-fine-planned'', ''scale:safe-pruning-audited''] @ ss_reasons scope @
             sx_reasons context @ ea_reasons audit @ wb_reasons budget),
          sl_fingerprint = []\<rparr>)"

definition evaluate_search_scale ::
  "(string \<Rightarrow> string \<Rightarrow> jsnum) \<Rightarrow> (jsnum \<Rightarrow> jsnum) \<Rightarrow> scale_candidate list \<Rightarrow> source_completeness \<Rightarrow> jsnum option \<Rightarrow>
     scale_options \<Rightarrow> scale_error + scale_evaluation" where
  "evaluate_search_scale collate log2 candidates completeness reported opts =
     and_then (resolve_scale_options opts) (\<lambda>p.
     let ids = map (\<lambda>c. js_trim (cd_hotel_id c)) candidates
     in and_then (require (length (js_set ids) = length ids) DuplicateHotelIds) (\<lambda>_.
        and_then (validate_all candidates) (\<lambda>_.
        let cs = js_sort (by_candidate_id collate) (map trim_candidate candidates);
            evaluated = map (\<lambda>c. evaluate_scale_candidate c (resolve_safe_cutoff cs p)) cs
        in and_then (resolve_scope (length evaluated) completeness reported) (\<lambda>scope.
           case equivalence_audit_of evaluated p of
             None \<Rightarrow> Inl (NotPositiveInteger ''outputCandidateLimit'')
           | Some audit \<Rightarrow>
               let core = scale_core log2 p cs scope evaluated audit
               in and_then (scale_hash (JObject (scale_core_fields core)) ''stayopti-v3-search-wide-scale-evaluation'') (\<lambda>sid.
                  let identified = core\<lparr>sl_id := sid\<rparr>
                  in and_then (scale_fingerprint identified) (\<lambda>fp. Inr (identified\<lparr>sl_fingerprint := fp\<rparr>)))))))"

datatype scale_issue = ScaleInvalidShape | ScaleFingerprintMismatch | ScaleReplayMismatch

text \<open>
  \<open>validateSearchWideScaleCoverageV3\<close>: the issues found, in the order they are pushed. The
  fingerprint of an evaluation that holds a number that is not finite throws.
\<close>

definition scale_json :: "scale_evaluation \<Rightarrow> json" where
  "scale_json s =
     JObject ((''evaluationId'', JString (sl_id s)) # scale_core_fields s @ [(''fingerprint'', JString (sl_fingerprint s))])"

definition replay_scale ::
  "(string \<Rightarrow> string \<Rightarrow> jsnum) \<Rightarrow> (jsnum \<Rightarrow> jsnum) \<Rightarrow> scale_evaluation \<Rightarrow> scale_error + scale_evaluation" where
  "replay_scale collate log2 s =
     (let p = sl_policy s
      in evaluate_search_scale collate log2 (map scale_candidate.truncate (sl_candidates s)) (ss_completeness (sl_scope s))
           (ss_reported (sl_scope s))
           \<lparr>so_fine_target = Some (sp_fine_target p), so_output_limit = Some (sp_output_limit p),
            so_equivalence = Some (sp_equivalence p), so_strong = Some (sp_strong p),
            so_max_candidates = Some (sp_max_candidates p), so_max_fine = Some (sp_max_fine p),
            so_max_bytes = Some (sp_max_bytes p), so_max_operations = Some (sp_max_operations p)\<rparr>)"

definition scale_issues ::
  "(string \<Rightarrow> string \<Rightarrow> jsnum) \<Rightarrow> (jsnum \<Rightarrow> jsnum) \<Rightarrow> scale_evaluation \<Rightarrow> scale_error + scale_issue list" where
  "scale_issues collate log2 s =
     and_then (scale_fingerprint s) (\<lambda>fp.
       Inr ((if sl_fingerprint s \<noteq> fp then [ScaleFingerprintMismatch] else []) @
            (case replay_scale collate log2 s of
               Inl _ \<Rightarrow> [ScaleInvalidShape]
             | Inr replay \<Rightarrow>
                 (case (stable_serialize (scale_json replay), stable_serialize (scale_json s)) of
                    (Some a, Some b) \<Rightarrow> if a \<noteq> b then [ScaleReplayMismatch] else []
                  | _ \<Rightarrow> [ScaleInvalidShape]))))"

section \<open>One rounding of a score\<close>

lemma rnd_close:
  assumes q: "\<bar>q\<bar> \<le> 1000" and g: "on_grid q"
  obtains r where "rnd q = Fin r" and "\<bar>r - q\<bar> \<le> 1 / 1000000000000" and "on_grid r"
proof -
  have d: "double 1000" "double (- 1000)" using double_of_int [of 1000] by simp_all
  have "Fin (- 1000) \<le> rnd q" "rnd q \<le> Fin 1000"
    using q d by (auto intro!: rnd_ge_double rnd_le_double)
  then obtain r where r: "rnd q = Fin r" by (cases "rnd q") auto
  have "\<bar>r - q\<bar> \<le> 1 / 1000000000000"
  proof (cases "0 \<le> q")
    case True
    have "\<bar>r - q\<bar> \<le> q * eps" by (rule rnd_rel_error [OF True g r])
    also have "\<dots> \<le> 1000 * eps" using q by (intro mult_right_mono) auto
    finally show ?thesis by linarith
  next
    case False
    have m: "rnd (- q) = Fin (- r)" using r by (simp add: rnd_minus)
    have g': "on_grid (- q)" using on_grid_int_mult [OF g, of "-1"] by simp
    have "\<bar>- r - - q\<bar> \<le> - q * eps" by (rule rnd_rel_error [OF _ g' m]) (use False in simp)
    also have "\<dots> \<le> 1000 * eps" using q by (intro mult_right_mono) auto
    finally show ?thesis by linarith
  qed
  from that [OF r this rnd_on_grid [OF r]] show thesis .
qed

lemma score_epsilon_value: "score_epsilon = Fin (4722366482869645 / 4722366482869645213696)"
  by code_simp

lemma score_epsilon_grid: "on_grid (4722366482869645 / 4722366482869645213696)"
  using rnd_on_grid [of "1 / 1000000"] score_epsilon_value by (simp add: score_epsilon_def)

lemma round6_close:
  assumes "0 \<le> q" and "q \<le> 100" and g: "on_grid q"
  obtains r where "round6 (Fin q) = Fin r" and "r \<le> q + 6 / 10000000" and "0 \<le> r"
proof -
  have g6: "on_grid (q * 1000000)" using on_grid_int_mult [OF g, of 1000000] by (simp add: mult.commute)
  have d: "double 100000000" using double_of_int [of 100000000] by simp
  have "Fin 0 \<le> rnd (q * 1000000)" "rnd (q * 1000000) \<le> Fin 100000000"
    using assms(1,2) d by (auto intro!: rnd_nonneg rnd_le_double)
  then obtain a where a: "rnd (q * 1000000) = Fin a" "0 \<le> a" "a \<le> 100000000" by (cases "rnd (q * 1000000)") auto
  have ae: "a \<le> q * 1000000 + 1 / 20"
  proof -
    have "\<bar>a - q * 1000000\<bar> \<le> q * 1000000 * eps" by (rule rnd_rel_error [OF _ g6 a(1)]) (use assms in simp)
    also have "\<dots> \<le> 100000000 * eps" using assms by (intro mult_right_mono) auto
    finally show ?thesis by linarith
  qed
  define n where "n = \<lfloor>a + 1 / 2\<rfloor>"
  have n: "of_int n \<le> a + 1 / 2" "0 \<le> n" "n \<le> 100000000" using a by (auto simp: n_def floor_le_iff)
  have r1: "js_round (Fin q * Fin 1000000) = Fin (of_int n)" by (simp add: a n_def)
  have e: "round6 (Fin q) = rnd (of_int n / 1000000)" using r1 by (simp add: round6_def)
  have "rnd (of_int n / 1000000) \<le> Fin (of_int n / 1000000 + 1 / 100000000)"
  proof -
    define v :: rat where "v = of_int n / 1000000"
    have v: "0 \<le> v" "v \<le> 100" using n by (simp_all add: v_def field_simps)
    show ?thesis
    proof (cases "rnd v")
      case (Fin r)
      have "r \<le> v + 1 / 100000000"
      proof -
        have d100: "double 100" using double_of_int [of 100] by simp
        have mag: "rnd_mag v - v \<le> 1 / 100000000" if "0 < v"
        proof -
          have "ulp_exp v \<le> ulp_exp 100" using v that by (intro ulp_exp_mono) auto
          moreover have "ulp_exp 100 = -46" by code_simp
          ultimately have "(2::rat) powi ulp_exp v \<le> 2 powi (-46)" by (intro powi_mono) simp
          then have "\<bar>rnd_mag v - v\<bar> \<le> 2 powi (-46) / 2" using rnd_mag_error [of v] by linarith
          moreover have "(2::rat) powi (-46) = 1 / 70368744177664" by (simp add: power_int_def power_one_over)
          ultimately show ?thesis by linarith
        qed
        show ?thesis
        proof (cases "v = 0")
          case False
          with v have "0 < v" by simp
          with Fin have "r = rnd_mag v" by (metis jsnum.distinct(1) jsnum.inject rnd_pos_form)
          with mag \<open>0 < v\<close> show ?thesis by simp
        qed (use Fin in simp)
      qed
      with Fin show ?thesis by (simp add: v_def)
    next
      case PosInf
      have "rnd v \<le> Fin 100" using v double_of_int [of 100] by (intro rnd_le_double) simp_all
      with PosInf show ?thesis by simp
    qed (use rnd_not_NaN in \<open>auto simp: v_def\<close>)
  qed
  moreover have "Fin 0 \<le> rnd (of_int n / 1000000)" using n by (intro rnd_nonneg) simp
  ultimately obtain r where r: "rnd (of_int n / 1000000) = Fin r" "0 \<le> r" "r \<le> of_int n / 1000000 + 1 / 100000000"
    by (cases "rnd (of_int n / 1000000)") auto
  have "r \<le> q + 6 / 10000000" using r(3) n(1) ae by (simp add: field_simps)
  with r e show thesis by (intro that) simp_all
qed

text \<open>
  A score within the strong tolerance of the best one is never below the safe cutoff: the
  tolerance of equivalence absorbs the rounding of the whole chain of operations.
\<close>

lemma cutoff_keeps:
  assumes g: "on_grid l1" "on_grid f1" "on_grid b" "on_grid f" "on_grid u" "on_grid st" "on_grid eqt"
    and range: "0 \<le> l1" "l1 \<le> 100" "0 \<le> f1" "f1 \<le> 100" "0 \<le> b" "b \<le> 100" "0 \<le> f" "f \<le> 100" "0 \<le> u" "u \<le> 100"
      "0 \<le> st" "st \<le> 100" "1 / 100000 \<le> eqt" "eqt \<le> 100"
    and bound1: "\<not> Fin f1 + score_epsilon < Fin l1" and best: "f1 \<le> b"
    and near: "Fin b - Fin st \<le> Fin f + score_epsilon" and bound2: "\<not> Fin u < Fin f - score_epsilon"
    and x: "x = Fin 0 \<or> x \<le> Fin l1 - Fin st - Fin eqt"
  shows "round6 (js_max (Fin 0) x) \<le> Fin u + score_epsilon"
proof -
  let ?e = "4722366482869645 / 4722366482869645213696 :: rat"
  have ge: "on_grid ?e" by (rule score_epsilon_grid)
  have diff: "on_grid (p - q)" if "on_grid p" "on_grid q" for p q using on_grid_diff that .
  obtain a1 where a1: "rnd (f1 + ?e) = Fin a1" "\<bar>a1 - (f1 + ?e)\<bar> \<le> 1 / 1000000000000"
    by (rule rnd_close [of "f1 + ?e"]) (use range g ge in \<open>auto intro: on_grid_add\<close>)
  obtain a2 where a2: "rnd (b - st) = Fin a2" "\<bar>a2 - (b - st)\<bar> \<le> 1 / 1000000000000"
    by (rule rnd_close [of "b - st"]) (use range g in \<open>auto intro: diff\<close>)
  obtain a3 where a3: "rnd (f + ?e) = Fin a3" "\<bar>a3 - (f + ?e)\<bar> \<le> 1 / 1000000000000"
    by (rule rnd_close [of "f + ?e"]) (use range g ge in \<open>auto intro: on_grid_add\<close>)
  obtain a4 where a4: "rnd (f - ?e) = Fin a4" "\<bar>a4 - (f - ?e)\<bar> \<le> 1 / 1000000000000"
    by (rule rnd_close [of "f - ?e"]) (use range g ge in \<open>auto intro: diff\<close>)
  obtain a5 where a5: "rnd (u + ?e) = Fin a5" "\<bar>a5 - (u + ?e)\<bar> \<le> 1 / 1000000000000"
    by (rule rnd_close [of "u + ?e"]) (use range g ge in \<open>auto intro: on_grid_add\<close>)
  obtain a6 where a6: "rnd (l1 - st) = Fin a6" "\<bar>a6 - (l1 - st)\<bar> \<le> 1 / 1000000000000" "on_grid a6"
    by (rule rnd_close [of "l1 - st"]) (use range g in \<open>auto intro: diff\<close>)
  have "\<bar>a6 - eqt\<bar> \<le> 1000" using a6(2) range by linarith
  then obtain a7 where a7: "rnd (a6 - eqt) = Fin a7" "\<bar>a7 - (a6 - eqt)\<bar> \<le> 1 / 1000000000000" "on_grid a7"
    by (rule rnd_close [OF _ diff [OF a6(3) g(7)]])
  have i1: "l1 \<le> a1" using bound1 a1(1) by (simp add: score_epsilon_value)
  have i2: "a2 \<le> a3" using near a2(1) a3(1) by (simp add: score_epsilon_value)
  have i3: "a4 \<le> u" using bound2 a4(1) by (simp add: score_epsilon_value)
  have s: "Fin l1 - Fin st - Fin eqt = Fin a7" by (simp add: a6(1) a7(1))
  have u: "Fin u + score_epsilon = Fin a5" by (simp add: score_epsilon_value a5(1))
  have "a7 \<le> u + 3 * ?e - eqt + 8 / 1000000000000"
    using a1(2) a2(2) a3(2) a4(2) a6(2) a7(2) i1 i2 i3 best by linarith
  then have a7u: "a7 + 6 / 10000000 \<le> a5" using a5(2) range by linarith
  have a5: "0 \<le> a5" using a5(2) range by linarith
  have "js_max (Fin 0) x \<le> js_max (Fin 0) (Fin a7)"
    using x s by (cases x) (auto simp: js_max_def)
  then have "round6 (js_max (Fin 0) x) \<le> round6 (js_max (Fin 0) (Fin a7))" by (rule round6_mono)
  also have "round6 (js_max (Fin 0) (Fin a7)) \<le> Fin a5"
  proof (cases "0 \<le> a7")
    case True
    have "a7 \<le> 100" using a7(2) a6(2) range by linarith
    then obtain r where "round6 (Fin a7) = Fin r" "r \<le> a7 + 6 / 10000000"
      using round6_close [OF True _ a7(3)] by blast
    moreover have "js_max (Fin 0) (Fin a7) = Fin a7" using True by (auto simp: js_max_def)
    ultimately show ?thesis using a7u by simp
  next
    case False
    have "round6 (Fin 0) = Fin 0" using js_round_of_int [of 0] by (simp add: round6_def del: js_round_of_int)
    moreover have "js_max (Fin 0) (Fin a7) = Fin 0" using False by (auto simp: js_max_def)
    ultimately show ?thesis using a5 by simp
  qed
  finally show ?thesis using u by simp
qed

section \<open>Ranking by the full score\<close>

definition scored_doubles :: "scale_evaluated set" where
  "scored_doubles = {c. \<exists>q. cd_full c = Some (Fin q) \<and> on_grid q}"

lemma scoredE:
  assumes "c \<in> scored_doubles"
  obtains q where "cd_full c = Some (Fin q)" and "on_grid q"
  using assms by (auto simp: scored_doubles_def)

lemma compare_scored:
  "cd_full a = Some (Fin p) \<Longrightarrow> cd_full b = Some (Fin q) \<Longrightarrow> compare_full_score a b = rnd (q - p)"
  by (simp add: compare_full_score_def)

lemma rnd_sign: "on_grid p \<Longrightarrow> on_grid q \<Longrightarrow> Fin 0 < rnd (q - p) \<longleftrightarrow> p < q"
  by (simp add: rnd_pos_iff on_grid_diff)

lemma rnd_zero: "on_grid p \<Longrightarrow> on_grid q \<Longrightarrow> rnd (q - p) = Fin 0 \<longleftrightarrow> p = q"
proof
  assume g: "on_grid p" "on_grid q" and z: "rnd (q - p) = Fin 0"
  have "rnd (p - q) = js_neg (rnd (q - p))" using rnd_minus [of "q - p"] by simp
  with z have "rnd (p - q) = Fin 0" by simp
  with z rnd_sign [OF g] rnd_sign [OF g(2,1)] show "p = q" by auto
qed simp

interpretation full_score: signed_comparator compare_full_score scored_doubles
proof
  fix x y z
  assume "x \<in> scored_doubles" "y \<in> scored_doubles"
  then obtain p q where pq: "cd_full x = Some (Fin p)" "cd_full y = Some (Fin q)" "on_grid p" "on_grid q"
    by (elim scoredE)
  note cmp = compare_scored [OF pq(1,2)] compare_scored [OF pq(2,1)]
  show "Fin 0 < compare_full_score x y \<Longrightarrow> \<not> Fin 0 < compare_full_score y x"
    unfolding cmp using rnd_sign pq by simp
  show "compare_full_score x y = Fin 0 \<longleftrightarrow> \<not> Fin 0 < compare_full_score x y \<and> \<not> Fin 0 < compare_full_score y x"
    unfolding cmp using rnd_sign [of p q] rnd_sign [of q p] rnd_zero pq by auto
  assume "z \<in> scored_doubles" and xyz: "\<not> Fin 0 < compare_full_score x y" "\<not> Fin 0 < compare_full_score y z"
  then obtain r where r: "cd_full z = Some (Fin r)" "on_grid r" by (elim scoredE)
  show "\<not> Fin 0 < compare_full_score x z"
    using xyz unfolding cmp compare_scored [OF pq(2) r(1)] compare_scored [OF pq(1) r(1)]
    using rnd_sign pq r by simp
qed

lemma take_top_first:
  assumes "take_top cmp limit xs = Some ys"
  shows "js_first ys = js_first (js_sort cmp xs)"
proof (cases "js_sort cmp xs")
  case Nil
  then show ?thesis using assms by (auto simp: take_top_def Let_def split: if_splits)
next
  case (Cons y os)
  have l: "\<not> limit \<le> Fin 0" "js_is_integer limit" using assms by (auto simp: take_top_def split: if_splits)
  then have "Fin 0 < limit" by (cases limit) auto
  moreover have "[0..<length (y # os)] = 0 # [1..<length (y # os)]" by (simp add: upt_rec)
  ultimately show ?thesis
    using assms l by (auto simp: take_top_def Let_def Cons split: if_splits)
qed

lemma top_score_max:
  assumes "set xs \<subseteq> scored_doubles" and "xs \<noteq> []"
  obtains c b where "c \<in> set xs" and "top_score (js_sort compare_full_score xs) = Some (Fin b)" and "cd_full c = Some (Fin b)"
    and "on_grid b" and "\<And>d f. d \<in> set xs \<Longrightarrow> cd_full d = Some (Fin f) \<Longrightarrow> f \<le> b"
proof -
  obtain c where c: "js_first (js_sort compare_full_score xs) = Some c"
    using assms(2) by (cases "js_first (js_sort compare_full_score xs)") auto
  then have cin: "c \<in> set xs" using js_first_Some_in by fastforce
  then obtain b where b: "cd_full c = Some (Fin b)" "on_grid b" using assms(1) scoredE by blast
  have "f \<le> b" if d: "d \<in> set xs" "cd_full d = Some (Fin f)" for d f
  proof -
    have "on_grid f" using d assms(1) by (force elim: scoredE)
    moreover have "\<not> Fin 0 < compare_full_score c d"
      using full_score.sort_first_minimal [OF assms(1) c d(1)] by simp
    ultimately show ?thesis using rnd_sign [OF b(2), of f] by (simp add: compare_scored [OF b(1) d(2)])
  qed
  then show thesis using cin b c by (intro that [of c b]) (simp_all add: top_score_def)
qed

section \<open>The structure of an evaluation\<close>

lemma evaluated_fields [simp]:
  "cd_hotel_id (evaluate_scale_candidate c l) = js_trim (cd_hotel_id c)"
  "cd_eligible (evaluate_scale_candidate c l) = cd_eligible c" "cd_lower (evaluate_scale_candidate c l) = cd_lower c"
  "cd_upper (evaluate_scale_candidate c l) = cd_upper c" "cd_full (evaluate_scale_candidate c l) = cd_full c"
  "cd_coverage (evaluate_scale_candidate c l) = cd_coverage c" "cd_protected (evaluate_scale_candidate c l) = cd_protected c"
  "ev_disposition (evaluate_scale_candidate c l) = disposition_of c l"
  by (simp_all add: evaluate_scale_candidate_def Let_def scale_candidate.defs)

lemma evaluated_truncate:
  "scale_candidate.truncate (evaluate_scale_candidate c l) = scale_candidate.truncate c\<lparr>cd_hotel_id := js_trim (cd_hotel_id c)\<rparr>"
  by (simp add: evaluate_scale_candidate_def Let_def scale_candidate.defs)

lemma evaluated_retained [simp]:
  "ev_retained (evaluate_scale_candidate c l) \<longleftrightarrow>
     disposition_of c l \<in> {RetainedProtected, RetainedSafeBound, RetainedMissingBound}"
  by (cases "disposition_of c l") (simp_all add: evaluate_scale_candidate_def Let_def scale_candidate.defs)

lemma retained_iff:
  "disposition_of c l \<in> {RetainedProtected, RetainedSafeBound, RetainedMissingBound} \<longleftrightarrow>
     cd_eligible c \<and> (cd_protected c \<or> cd_lower c = None \<or> cd_upper c = None \<or> l = None \<or>
       the l \<le> the (cd_upper c) + score_epsilon)"
  by (auto simp: disposition_of_def split: option.splits)

lemma validate_all_Inr: "validate_all cs = Inr () \<longleftrightarrow> (\<forall>c \<in> set cs. validate_scale_candidate c = Inr ())"
  by (induction cs) (auto simp: and_then_Inr_iff)

lemma scale_core_fields_upd [simp]:
  "scale_core_fields (s\<lparr>sl_id := i\<rparr>) = scale_core_fields s" "scale_core_fields (s\<lparr>sl_fingerprint := fp\<rparr>) = scale_core_fields s"
  by (simp_all add: scale_core_fields_def)

lemma scale_fingerprint_upd [simp]: "scale_fingerprint (s\<lparr>sl_fingerprint := fp\<rparr>) = scale_fingerprint s"
  by (simp add: scale_fingerprint_def)

lemma evaluate_search_scale_Inr:
  assumes "evaluate_search_scale collate log2 candidates completeness reported opts = Inr s"
  obtains p scope audit cs evaluated sid fp
  where "resolve_scale_options opts = Inr p" and "distinct (map (\<lambda>c. js_trim (cd_hotel_id c)) candidates)"
    and "\<forall>c \<in> set candidates. validate_scale_candidate c = Inr ()"
    and "cs = js_sort (by_candidate_id collate) (map trim_candidate candidates)"
    and "evaluated = map (\<lambda>c. evaluate_scale_candidate c (resolve_safe_cutoff cs p)) cs"
    and "resolve_scope (length evaluated) completeness reported = Inr scope"
    and "equivalence_audit_of evaluated p = Some audit"
    and "scale_hash (JObject (scale_core_fields (scale_core log2 p cs scope evaluated audit)))
      ''stayopti-v3-search-wide-scale-evaluation'' = Inr sid"
    and "scale_fingerprint (scale_core log2 p cs scope evaluated audit\<lparr>sl_id := sid\<rparr>) = Inr fp"
    and "s = scale_core log2 p cs scope evaluated audit\<lparr>sl_id := sid, sl_fingerprint := fp\<rparr>"
proof -
  from assms obtain p where p: "resolve_scale_options opts = Inr p"
    by (auto simp: evaluate_search_scale_def and_then_Inr_iff)
  define cs where "cs = js_sort (by_candidate_id collate) (map trim_candidate candidates)"
  define evaluated where "evaluated = map (\<lambda>c. evaluate_scale_candidate c (resolve_safe_cutoff cs p)) cs"
  from assms obtain scope u where d: "length (js_set (map (\<lambda>c. js_trim (cd_hotel_id c)) candidates)) =
      length (map (\<lambda>c. js_trim (cd_hotel_id c)) candidates)"
    and v: "validate_all candidates = Inr u" and sc: "resolve_scope (length evaluated) completeness reported = Inr scope"
    and rest: "(case equivalence_audit_of evaluated p of
             None \<Rightarrow> Inl (NotPositiveInteger ''outputCandidateLimit'')
           | Some audit \<Rightarrow>
               and_then (scale_hash (JObject (scale_core_fields (scale_core log2 p cs scope evaluated audit)))
                  ''stayopti-v3-search-wide-scale-evaluation'') (\<lambda>sid.
                  and_then (scale_fingerprint (scale_core log2 p cs scope evaluated audit\<lparr>sl_id := sid\<rparr>)) (\<lambda>fp.
                    Inr (scale_core log2 p cs scope evaluated audit\<lparr>sl_id := sid\<rparr>\<lparr>sl_fingerprint := fp\<rparr>)))) = Inr s"
    unfolding evaluate_search_scale_def Let_def p and_then_simps and_then_Inr_iff require_Inr_iff cs_def evaluated_def by blast
  from rest obtain audit where a: "equivalence_audit_of evaluated p = Some audit" by (cases "equivalence_audit_of evaluated p") auto
  from rest [unfolded a option.case and_then_Inr_iff] obtain sid fp where
    h: "scale_hash (JObject (scale_core_fields (scale_core log2 p cs scope evaluated audit)))
      ''stayopti-v3-search-wide-scale-evaluation'' = Inr sid"
    "scale_fingerprint (scale_core log2 p cs scope evaluated audit\<lparr>sl_id := sid\<rparr>) = Inr fp"
    "s = scale_core log2 p cs scope evaluated audit\<lparr>sl_id := sid, sl_fingerprint := fp\<rparr>" by auto
  have "distinct (map (\<lambda>c. js_trim (cd_hotel_id c)) candidates)" using d by (simp only: js_set_length)
  moreover have "\<forall>c \<in> set candidates. validate_scale_candidate c = Inr ()" using v by (simp flip: validate_all_Inr)
  ultimately show thesis using that [OF p _ _ cs_def evaluated_def sc a h] by blast
qed

lemma scale_core_fields_of [simp]:
  "sl_status (scale_core log2 p cs scope evaluated audit) = scale_status_of audit (sl_budget (scale_core log2 p cs scope evaluated audit))"
  "sl_policy (scale_core log2 p cs scope evaluated audit) = p" "sl_candidates (scale_core log2 p cs scope evaluated audit) = evaluated"
  "sl_retained (scale_core log2 p cs scope evaluated audit) = sort_ids (map cd_hotel_id (filter ev_retained evaluated))"
  "sl_pruned (scale_core log2 p cs scope evaluated audit) = sort_ids (map cd_hotel_id (filter (\<lambda>c. \<not> ev_retained c) evaluated))"
  "sl_cutoff (scale_core log2 p cs scope evaluated audit) = resolve_safe_cutoff cs p"
  "sl_scope (scale_core log2 p cs scope evaluated audit) = scope"
  "sl_equivalence (scale_core log2 p cs scope evaluated audit) = audit"
  by (simp_all add: scale_core_def Let_def)

section \<open>What the audit says\<close>

definition scorable :: "scale_evaluated \<Rightarrow> bool" where
  "scorable c \<longleftrightarrow> cd_eligible c \<and> cd_full c \<noteq> None"

lemma set_fully_scored [simp]: "set (fully_scored es) = {c \<in> set es. scorable c}"
  by (auto simp: fully_scored_def scorable_def)

lemma set_planned_scored [simp]: "set (planned_scored es) = {c \<in> set es. scorable c \<and> ev_retained c}"
  by (auto simp: planned_scored_def)

lemma fully_scored_Nil: "fully_scored es = [] \<longleftrightarrow> (\<forall>c \<in> set es. \<not> scorable c)"
  by (metis (mono_tags, lifting) empty_Collect_eq set_empty set_fully_scored)

lemma audit_tops:
  assumes "equivalence_audit_of es p = Some audit"
  obtains ft pt where "take_top compare_full_score (sp_output_limit p) (fully_scored es) = Some ft"
    and "take_top compare_full_score (sp_output_limit p) (planned_scored es) = Some pt"
    and "ea_loss audit = (case (top_score ft, top_score pt) of
           (Some f, Some q) \<Rightarrow> Some (round6 (js_max (Fin 0) (f - q))) | _ \<Rightarrow> None)"
    and "ea_strong audit = (case top_score ft of
           None \<Rightarrow> []
         | Some best \<Rightarrow> sort_ids (map cd_hotel_id (filter (\<lambda>c. cd_protected c \<or>
             (case cd_full c of None \<Rightarrow> False | Some f \<Rightarrow> best - sp_strong p \<le> f + score_epsilon)) (fully_scored es))))"
    and "ea_lost audit = filter (\<lambda>i. i \<notin> set (map cd_hotel_id (filter ev_retained es))) (ea_strong audit)"
    and "ea_violations audit = sort_ids (map cd_hotel_id (filter violates_bounds es))"
    and "ea_status audit = (if fully_scored es = [] then AuditUnavailable
           else if (case ea_loss audit of None \<Rightarrow> False | Some l \<Rightarrow> l \<le> sp_equivalence p + score_epsilon) \<and>
                   ea_lost audit = [] \<and> ea_violations audit = [] then AuditEquivalent
           else AuditNotEquivalent)"
proof -
  from assms obtain ft pt where t: "take_top compare_full_score (sp_output_limit p) (fully_scored es) = Some ft"
    "take_top compare_full_score (sp_output_limit p) (planned_scored es) = Some pt"
    by (auto simp: equivalence_audit_of_def split: option.splits)
  note e = assms [unfolded equivalence_audit_of_def t option.case prod.case Let_def option.inject, symmetric]
  show thesis
    by (rule that [OF t]) (simp_all only: e equivalence_audit.select_convs, simp split: option.split)
qed

lemma top_score_first: "js_first xs = js_first ys \<Longrightarrow> top_score xs = top_score ys"
  by (simp add: top_score_def)

text \<open>The best scores of the full evaluation and of the plan.\<close>

lemma audit_best:
  assumes "take_top compare_full_score l xs = Some ys" and "set xs \<subseteq> scored_doubles" and "xs \<noteq> []"
  obtains c b where "c \<in> set xs" and "top_score ys = Some (Fin b)" and "cd_full c = Some (Fin b)"
    and "on_grid b" and "\<And>d f. d \<in> set xs \<Longrightarrow> cd_full d = Some (Fin f) \<Longrightarrow> f \<le> b"
  using top_score_max [OF assms(2,3)] top_score_first [OF take_top_first [OF assms(1)]] by metis

definition finite_doubles :: "scale_candidate \<Rightarrow> bool" where
  "finite_doubles c \<longleftrightarrow>
     list_all (\<lambda>v. case v of None \<Rightarrow> True | Some x \<Rightarrow> js_wf x) [cd_lower c, cd_upper c, cd_full c]"

lemma in_range: "is_finite_in_range v lo hi \<longleftrightarrow> (\<exists>q. v = Some (Fin q) \<and> lo \<le> q \<and> q \<le> hi)"
  by (auto simp: is_finite_in_range_def is_fin_iff split: option.splits)

lemma valid_candidate:
  assumes "validate_scale_candidate c = Inr ()" and "finite_doubles c"
  shows "cd_full c = None \<or> (\<exists>q. cd_full c = Some (Fin q) \<and> on_grid q \<and> 0 \<le> q \<and> q \<le> 100)"
    and "cd_lower c = None \<and> cd_upper c = None \<or>
      (\<exists>l u. cd_lower c = Some (Fin l) \<and> cd_upper c = Some (Fin u) \<and> on_grid l \<and> on_grid u \<and> 0 \<le> l \<and> u \<le> 100 \<and> l \<le> u)"
  using assms
  by (auto simp: validate_scale_candidate_def Let_def and_then_Inr_iff in_range finite_doubles_def split: option.splits)

lemma resolved_policy:
  assumes "resolve_scale_options opts = Inr p"
  obtains e t where "sp_equivalence p = Fin e" and "0 \<le> e" and "e \<le> 100" and "sp_strong p = Fin t" and "0 \<le> t" and "t \<le> 100"
proof -
  have a: "is_fin (sp_equivalence p) \<and> \<not> sp_equivalence p < Fin 0 \<and> is_fin (sp_strong p) \<and> \<not> sp_strong p < Fin 0 \<and>
      \<not> Fin 100 < sp_equivalence p \<and> \<not> Fin 100 < sp_strong p"
    using assms by (auto simp: resolve_scale_options_def Let_def and_then_Inr_iff require_non_negative_def)
  then show thesis
    using that by (cases "sp_equivalence p"; cases "sp_strong p") (auto simp: not_less)
qed

text \<open>What one evaluation computes, with the evaluated candidates as the sorted inputs.\<close>

lemma run_evaluated:
  assumes run: "evaluate_search_scale collate log2 candidates completeness reported opts = Inr s"
  shows "sl_candidates s = map (\<lambda>c. evaluate_scale_candidate c (sl_cutoff s)) (js_sort (by_candidate_id collate) (map trim_candidate candidates))"
  by (rule evaluate_search_scale_Inr [OF run]) simp

lemma run_cutoff:
  assumes run: "evaluate_search_scale collate log2 candidates completeness reported opts = Inr s"
  shows "sl_cutoff s = resolve_safe_cutoff (js_sort (by_candidate_id collate) (map trim_candidate candidates)) (sl_policy s)"
  by (rule evaluate_search_scale_Inr [OF run]) simp

lemma run_audited:
  assumes run: "evaluate_search_scale collate log2 candidates completeness reported opts = Inr s"
  shows "equivalence_audit_of (sl_candidates s) (sl_policy s) = Some (sl_equivalence s)"
  by (rule evaluate_search_scale_Inr [OF run]) simp

lemma run_policy:
  assumes run: "evaluate_search_scale collate log2 candidates completeness reported opts = Inr s"
  shows "resolve_scale_options opts = Inr (sl_policy s)"
  by (rule evaluate_search_scale_Inr [OF run]) simp

lemma run_lists:
  assumes run: "evaluate_search_scale collate log2 candidates completeness reported opts = Inr s"
  shows "sl_retained s = sort_ids (map cd_hotel_id (filter ev_retained (sl_candidates s)))"
    and "sl_pruned s = sort_ids (map cd_hotel_id (filter (\<lambda>c. \<not> ev_retained c) (sl_candidates s)))"
    and "sl_status s = scale_status_of (sl_equivalence s) (sl_budget s)"
  by (rule evaluate_search_scale_Inr [OF run], simp add: scale_core_def Let_def)+

lemma run_ids:
  assumes run: "evaluate_search_scale collate log2 candidates completeness reported opts = Inr s"
  shows "mset (map cd_hotel_id (sl_candidates s)) = mset (map (\<lambda>c. js_trim (cd_hotel_id c)) candidates)"
proof -
  have "map cd_hotel_id (sl_candidates s) = map (\<lambda>c. js_trim (cd_hotel_id c)) (js_sort (by_candidate_id collate) (map trim_candidate candidates))"
    by (subst run_evaluated [OF run]) simp
  then have "mset (map cd_hotel_id (sl_candidates s)) = image_mset (\<lambda>c. js_trim (cd_hotel_id c)) (mset (map trim_candidate candidates))"
    by (simp only: mset_map mset_js_sort)
  also have "\<dots> = mset (map (\<lambda>c. js_trim (cd_hotel_id c)) candidates)"
    by (simp add: image_mset.compositionality comp_def trim_candidate_def)
  finally show ?thesis .
qed

lemma run_distinct_ids:
  assumes run: "evaluate_search_scale collate log2 candidates completeness reported opts = Inr s"
  shows "distinct (map cd_hotel_id (sl_candidates s))"
proof -
  have "distinct (map (\<lambda>c. js_trim (cd_hotel_id c)) candidates)" by (rule evaluate_search_scale_Inr [OF run])
  then show ?thesis using mset_eq_imp_distinct_iff [OF run_ids [OF run]] by simp
qed

lemma run_members:
  assumes run: "evaluate_search_scale collate log2 candidates completeness reported opts = Inr s"
    and "e \<in> set (sl_candidates s)"
  obtains c where "c \<in> set candidates" and "validate_scale_candidate c = Inr ()"
    and "e = evaluate_scale_candidate (trim_candidate c) (sl_cutoff s)"
proof -
  have "\<forall>c \<in> set candidates. validate_scale_candidate c = Inr ()" by (rule evaluate_search_scale_Inr [OF run])
  moreover from assms(2) have "e \<in> set (map (\<lambda>c. evaluate_scale_candidate c (sl_cutoff s)) (js_sort (by_candidate_id collate) (map trim_candidate candidates)))"
    by (simp only: run_evaluated [OF run, symmetric])
  ultimately show thesis using that by auto
qed

lemma run_retained:
  assumes run: "evaluate_search_scale collate log2 candidates completeness reported opts = Inr s"
    and e: "e \<in> set (sl_candidates s)"
  shows "ev_retained e \<longleftrightarrow> cd_eligible e \<and>
     (cd_protected e \<or> cd_lower e = None \<or> cd_upper e = None \<or> sl_cutoff s = None \<or>
      the (sl_cutoff s) \<le> the (cd_upper e) + score_epsilon)"
proof -
  obtain c where "e = evaluate_scale_candidate (trim_candidate c) (sl_cutoff s)" by (rule run_members [OF assms])
  then show ?thesis by (simp only: evaluated_retained retained_iff evaluated_fields)
qed

lemma run_in_range:
  assumes run: "evaluate_search_scale collate log2 candidates completeness reported opts = Inr s"
    and d: "list_all finite_doubles candidates" and e: "e \<in> set (sl_candidates s)"
  shows "cd_full e = None \<or> (\<exists>q. cd_full e = Some (Fin q) \<and> on_grid q \<and> 0 \<le> q \<and> q \<le> 100)"
    and "cd_lower e = None \<and> cd_upper e = None \<or>
      (\<exists>l u. cd_lower e = Some (Fin l) \<and> cd_upper e = Some (Fin u) \<and> on_grid l \<and> on_grid u \<and> 0 \<le> l \<and> u \<le> 100 \<and> l \<le> u)"
proof -
  obtain c where c: "c \<in> set candidates" "validate_scale_candidate c = Inr ()"
    "e = evaluate_scale_candidate (trim_candidate c) (sl_cutoff s)" by (rule run_members [OF run e])
  with d have "finite_doubles c" by (simp add: list_all_iff)
  note valid_candidate [OF c(2) this]
  then show "cd_full e = None \<or> (\<exists>q. cd_full e = Some (Fin q) \<and> on_grid q \<and> 0 \<le> q \<and> q \<le> 100)"
    and "cd_lower e = None \<and> cd_upper e = None \<or>
      (\<exists>l u. cd_lower e = Some (Fin l) \<and> cd_upper e = Some (Fin u) \<and> on_grid l \<and> on_grid u \<and> 0 \<le> l \<and> u \<le> 100 \<and> l \<le> u)"
    by (simp_all add: c(3) trim_candidate_def)
qed

lemma run_scored:
  assumes run: "evaluate_search_scale collate log2 candidates completeness reported opts = Inr s"
    and d: "list_all finite_doubles candidates"
  shows "set (fully_scored (sl_candidates s)) \<subseteq> scored_doubles" and "set (planned_scored (sl_candidates s)) \<subseteq> scored_doubles"
  using run_in_range(1) [OF assms] by (fastforce simp: scored_doubles_def scorable_def)+

section \<open>The plan is exact, and safe\<close>

text \<open>The plan of a search partitions its hotels: the retained and the pruned ids are together exactly the
  ids of the candidates, each once and in order; a candidate is retained exactly when it is
  eligible and is protected, or lacks bounds, or its upper bound reaches the safe cutoff.\<close>

theorem scale_plan_exact:
  assumes "evaluate_search_scale collate log2 candidates completeness reported opts = Inr s"
  shows "mset (sl_retained s @ sl_pruned s) = mset (map (\<lambda>c. js_trim (cd_hotel_id c)) candidates) \<and>
    distinct (sl_retained s @ sl_pruned s) \<and> sorted (sl_retained s) \<and> sorted (sl_pruned s) \<and>
    sl_retained s = sort_ids (map cd_hotel_id (filter ev_retained (sl_candidates s))) \<and>
    list_all (\<lambda>e. ev_retained e \<longleftrightarrow> cd_eligible e \<and>
      (cd_protected e \<or> cd_lower e = None \<or> cd_upper e = None \<or> sl_cutoff s = None \<or>
       the (sl_cutoff s) \<le> the (cd_upper e) + score_epsilon)) (sl_candidates s)"
proof -
  have "mset (sl_retained s @ sl_pruned s) = mset (map cd_hotel_id (sl_candidates s))"
  proof -
    have "mset (filter P xs) + mset (filter (\<lambda>x. \<not> P x) xs) = mset xs" for P and xs :: "scale_evaluated list"
      by (induction xs) auto
    then have "image_mset cd_hotel_id (mset (filter ev_retained (sl_candidates s)) + mset (filter (\<lambda>c. \<not> ev_retained c) (sl_candidates s))) =
        image_mset cd_hotel_id (mset (sl_candidates s))" by (simp only:)
    then show ?thesis
      unfolding run_lists(1,2) [OF assms] sort_ids_def by (simp only: mset_append mset_js_sort mset_map image_mset_union)
  qed
  moreover from this have "distinct (sl_retained s @ sl_pruned s)"
    using run_distinct_ids [OF assms] mset_eq_imp_distinct_iff by blast
  moreover have "sorted (sl_retained s)" "sorted (sl_pruned s)"
    by (simp_all add: run_lists(1,2) [OF assms] sort_ids_def sort_strings_sorted)
  ultimately show ?thesis
    unfolding list_all_iff using run_ids [OF assms] run_lists(1) [OF assms] run_retained [OF assms] by simp
qed

lemma lost_Nil:
  assumes "distinct (map cd_hotel_id es)" and "ids = sort_ids (map cd_hotel_id (filter P (fully_scored es)))"
  shows "filter (\<lambda>i. i \<notin> set (map cd_hotel_id (filter ev_retained es))) ids = [] \<longleftrightarrow>
    (\<forall>c \<in> set es. scorable c \<and> P c \<longrightarrow> ev_retained c)"
proof -
  have inj: "inj_on cd_hotel_id (set es)" using assms(1) by (simp add: distinct_map)
  have "set ids = cd_hotel_id ` {c \<in> set es. scorable c \<and> P c}" by (auto simp: assms(2) sort_ids_def)
  then show ?thesis using inj by (auto simp: filter_empty_conv inj_on_eq_iff)
qed

lemma budget_within:
  assumes run: "evaluate_search_scale collate log2 candidates completeness reported opts = Inr s" and "wb_within (sl_budget s)"
  defines "n \<equiv> Fin (of_nat (length candidates))" and "r \<equiv> Fin (of_nat (length (sl_retained s)))"
  shows "n \<le> sp_max_candidates (sl_policy s) \<and> js_ceil (n * (Fin 7 + log2 (js_max (Fin 2) n))) \<le> sp_max_operations (sl_policy s) \<and>
    r \<le> sp_max_fine (sl_policy s) \<and>
    n * Fin 320 + r * Fin 192 + sp_fine_target (sl_policy s) * Fin 64 \<le> sp_max_bytes (sl_policy s)"
proof -
  have b: "sl_budget s = work_budget_of log2 (length (sl_candidates s)) (length (sl_retained s)) (sl_policy s)"
    by (rule evaluate_search_scale_Inr [OF run]) (simp add: scale_core_def Let_def)
  have l: "length (sl_candidates s) = length candidates" by (subst run_evaluated [OF run]) simp
  show ?thesis
    using assms(2) unfolding b l n_def r_def work_budget_of_def Let_def work_budget.select_convs by blast
qed

text \<open>C20. A plan that passes loses nothing that matters and fits its budget. Under doubles as scores: every eligible
  candidate that is protected is retained, whether or not it has a full score; every scored candidate within the
  strong tolerance of the best score is retained; the best retained score is within the equivalence tolerance of
  the best; every score lies within its bounds; and the number of candidates, the coarse operations, the number of
  full evaluations and the estimated memory all keep to the limits of the policy.\<close>

theorem scale_pass_sound:
  assumes "evaluate_search_scale collate log2 candidates completeness reported opts = Inr s"
    and "list_all finite_doubles candidates" and "sl_status s = ScalePass"
  shows "\<exists>b q. (\<exists>c \<in> set (sl_candidates s). scorable c \<and> cd_full c = Some (Fin b)) \<and>
    (\<exists>c \<in> set (sl_candidates s). scorable c \<and> ev_retained c \<and> cd_full c = Some (Fin q)) \<and>
    (\<forall>c \<in> set (sl_candidates s). \<forall>f. scorable c \<and> cd_full c = Some (Fin f) \<longrightarrow> f \<le> b \<and>
       (Fin b - sp_strong (sl_policy s) \<le> Fin f + score_epsilon \<longrightarrow> ev_retained c)) \<and>
    (\<forall>c \<in> set (sl_candidates s). cd_eligible c \<and> cd_protected c \<longrightarrow> ev_retained c) \<and>
    round6 (js_max (Fin 0) (Fin b - Fin q)) \<le> sp_equivalence (sl_policy s) + score_epsilon \<and>
    (\<forall>c \<in> set (sl_candidates s). \<not> violates_bounds c) \<and>
    Fin (of_nat (length candidates)) \<le> sp_max_candidates (sl_policy s) \<and>
    js_ceil (Fin (of_nat (length candidates)) * (Fin 7 + log2 (js_max (Fin 2) (Fin (of_nat (length candidates)))))) \<le>
      sp_max_operations (sl_policy s) \<and>
    Fin (of_nat (length (sl_retained s))) \<le> sp_max_fine (sl_policy s) \<and>
    Fin (of_nat (length candidates)) * Fin 320 + Fin (of_nat (length (sl_retained s))) * Fin 192 +
      sp_fine_target (sl_policy s) * Fin 64 \<le> sp_max_bytes (sl_policy s)"
proof -
  let ?es = "sl_candidates s"
  obtain ft pt where ft: "take_top compare_full_score (sp_output_limit (sl_policy s)) (fully_scored ?es) = Some ft"
    and pt: "take_top compare_full_score (sp_output_limit (sl_policy s)) (planned_scored ?es) = Some pt"
    and loss: "ea_loss (sl_equivalence s) = (case (top_score ft, top_score pt) of
           (Some f, Some q) \<Rightarrow> Some (round6 (js_max (Fin 0) (f - q))) | _ \<Rightarrow> None)"
    and strong: "ea_strong (sl_equivalence s) = (case top_score ft of
           None \<Rightarrow> []
         | Some best \<Rightarrow> sort_ids (map cd_hotel_id (filter (\<lambda>c. cd_protected c \<or>
             (case cd_full c of None \<Rightarrow> False | Some f \<Rightarrow> best - sp_strong (sl_policy s) \<le> f + score_epsilon)) (fully_scored ?es))))"
    and lost: "ea_lost (sl_equivalence s) = filter (\<lambda>i. i \<notin> set (map cd_hotel_id (filter ev_retained ?es))) (ea_strong (sl_equivalence s))"
    and viol: "ea_violations (sl_equivalence s) = sort_ids (map cd_hotel_id (filter violates_bounds ?es))"
    and status: "ea_status (sl_equivalence s) = (if fully_scored ?es = [] then AuditUnavailable
           else if (case ea_loss (sl_equivalence s) of None \<Rightarrow> False | Some l \<Rightarrow> l \<le> sp_equivalence (sl_policy s) + score_epsilon) \<and>
                   ea_lost (sl_equivalence s) = [] \<and> ea_violations (sl_equivalence s) = [] then AuditEquivalent
           else AuditNotEquivalent)"
    by (rule audit_tops [OF run_audited [OF assms(1)]])
  have "ea_status (sl_equivalence s) = AuditEquivalent" and within: "wb_within (sl_budget s)"
    using assms(3) unfolding run_lists(3) [OF assms(1)] by (auto simp: scale_status_of_def split: if_splits)
  then have ne: "fully_scored ?es \<noteq> []"
    and l: "case ea_loss (sl_equivalence s) of None \<Rightarrow> False | Some l \<Rightarrow> l \<le> sp_equivalence (sl_policy s) + score_epsilon"
    and n1: "ea_lost (sl_equivalence s) = []" and n2: "ea_violations (sl_equivalence s) = []"
    using status by (simp_all split: if_splits)
  obtain c b where b: "c \<in> set (fully_scored ?es)" "top_score ft = Some (Fin b)" "cd_full c = Some (Fin b)"
    and best: "\<And>d f. d \<in> set (fully_scored ?es) \<Longrightarrow> cd_full d = Some (Fin f) \<Longrightarrow> f \<le> b"
    by (rule audit_best [OF ft run_scored(1) [OF assms(1,2)] ne]) blast
  have "planned_scored ?es \<noteq> []"
  proof
    assume n: "planned_scored ?es = []"
    then have "pt = []" using pt by (auto simp: take_top_def Let_def split: if_splits)
    with l loss b(2) show False by (simp add: top_score_def)
  qed
  then obtain c' q where q: "c' \<in> set (planned_scored ?es)" "top_score pt = Some (Fin q)" "cd_full c' = Some (Fin q)"
    by (rule audit_best [OF pt run_scored(2) [OF assms(1,2)]]) blast
  have "\<forall>c \<in> set ?es. scorable c \<and> (cd_protected c \<or>
      (case cd_full c of None \<Rightarrow> False | Some f \<Rightarrow> Fin b - sp_strong (sl_policy s) \<le> f + score_epsilon)) \<longrightarrow> ev_retained c"
    using n1 lost_Nil [OF run_distinct_ids [OF assms(1)]] strong b(2) unfolding lost by simp
  moreover have "\<forall>c \<in> set ?es. \<not> violates_bounds c"
  proof -
    have "set (ea_violations (sl_equivalence s)) = cd_hotel_id ` {c \<in> set ?es. violates_bounds c}"
      by (auto simp: viol sort_ids_def)
    with n2 show ?thesis by auto
  qed
  moreover have "\<forall>c \<in> set ?es. cd_eligible c \<and> cd_protected c \<longrightarrow> ev_retained c"
    using run_retained [OF assms(1)] by blast
  moreover note budget_within [OF assms(1) within]
  moreover have "round6 (js_max (Fin 0) (Fin b - Fin q)) \<le> sp_equivalence (sl_policy s) + score_epsilon"
    using l loss b(2) q(2) by simp
  ultimately show ?thesis
    using b(1,3) q(1,3) best by (intro exI [of _ b] exI [of _ q]) auto
qed

text \<open>
  The work limits apart, sound bounds are enough: when every eligible candidate with bounds has a
  full score, every score lies within its bounds, and the tolerance of equivalence is at least
  1/100000, the audit finds nothing to object to.
\<close>

lemma run_cutoff_form:
  assumes run: "evaluate_search_scale collate log2 candidates completeness reported opts = Inr s"
    and d: "list_all finite_doubles candidates" and limit: "sl_cutoff s = Some limit"
    and p: "sp_equivalence (sl_policy s) = Fin eqt" "sp_strong (sl_policy s) = Fin st"
  obtains e l x where "e \<in> set (sl_candidates s)" and "cd_eligible e" and "cd_lower e = Some (Fin l)"
    and "limit = round6 (js_max (Fin 0) x)" and "x \<le> Fin l - Fin st - Fin eqt"
proof -
  let ?cs = "js_sort (by_candidate_id collate) (map trim_candidate candidates)"
  let ?bs = "known_lower_bounds ?cs"
  have lower: "\<exists>e \<in> set (sl_candidates s). \<exists>l. cd_eligible e \<and> cd_lower e = Some (Fin l) \<and> v = Fin l" if "v \<in> set ?bs" for v
  proof -
    from that obtain c where c: "c \<in> trim_candidate ` set candidates" "cd_eligible c" "cd_lower c = Some v" by (fastforce simp: known_lower_bounds_def)
    have e: "evaluate_scale_candidate c (sl_cutoff s) \<in> set (sl_candidates s)" using c(1) by (subst run_evaluated [OF run]) simp
    from run_in_range(2) [OF run d e] c show ?thesis using e by (auto intro!: bexI [OF _ e])
  qed
  obtain best bs where bs: "?bs = best # bs" using limit unfolding run_cutoff [OF run] resolve_safe_cutoff_def Let_def
    by (cases ?bs) auto
  define i where "i = min (nat \<lfloor>fin_val (sp_fine_target (sl_policy s))\<rfloor>) (length ?bs) - 1"
  have i: "i < length ?bs" using bs by (auto simp: i_def)
  have cutv: "limit = round6 (js_max (Fin 0) (js_min (?bs ! i - Fin eqt) (best - Fin st - Fin eqt)))"
    using limit unfolding run_cutoff [OF run] resolve_safe_cutoff_def Let_def bs p i_def by simp
  obtain e l where e: "e \<in> set (sl_candidates s)" "cd_eligible e" "cd_lower e = Some (Fin l)" "best = Fin l"
    using lower [of best] bs by auto
  obtain l' where l': "?bs ! i = Fin l'" using lower [OF nth_mem [OF i]] by auto
  have "rnd a \<noteq> NaN" for a by (rule rnd_not_NaN)
  then have nn: "?bs ! i - Fin eqt \<noteq> NaN" "best - Fin st - Fin eqt \<noteq> NaN"
    unfolding l' e(4) by (simp_all, cases "rnd (l - st)") (auto simp: minus_jsnum_def)
  show thesis by (rule that [OF e(1-3) cutv]) (use js_min_le [OF nn] e(4) in simp)
qed

text \<open>C19. Pruning by sound bounds costs nothing: if the scores and bounds are doubles, every eligible candidate with
  a lower bound has a full score, every score is within its bounds, and the equivalence tolerance
  is at least 1/100000, then the audit never finds the plan inequivalent, no strong alternative is
  lost and the best candidate of all is among those retained.\<close>

theorem coarse_to_fine_safe:
  assumes "evaluate_search_scale collate log2 candidates completeness reported opts = Inr s"
    and "list_all finite_doubles candidates"
    and "list_all (\<lambda>c. cd_eligible c \<and> cd_lower c \<noteq> None \<longrightarrow> cd_full c \<noteq> None) (sl_candidates s)"
    and "list_all (\<lambda>c. \<not> violates_bounds c) (sl_candidates s)"
    and "js_wf (sp_equivalence (sl_policy s))" and "js_wf (sp_strong (sl_policy s))"
    and "Fin (1 / 100000) \<le> sp_equivalence (sl_policy s)"
  shows "ea_status (sl_equivalence s) \<noteq> AuditNotEquivalent \<and> ea_lost (sl_equivalence s) = [] \<and>
    (fully_scored (sl_candidates s) \<noteq> [] \<longrightarrow> ea_loss (sl_equivalence s) = Some (Fin 0))"
proof (cases "fully_scored (sl_candidates s) = []")
  case True
  show ?thesis
    by (rule audit_tops [OF run_audited [OF assms(1)]])
      (simp add: True top_score_def take_top_def Let_def split: if_splits)
next
  case False
  let ?es = "sl_candidates s"
  note run = assms(1)
  obtain ft pt where ft: "take_top compare_full_score (sp_output_limit (sl_policy s)) (fully_scored ?es) = Some ft"
    and pt: "take_top compare_full_score (sp_output_limit (sl_policy s)) (planned_scored ?es) = Some pt"
    and loss: "ea_loss (sl_equivalence s) = (case (top_score ft, top_score pt) of
           (Some f, Some q) \<Rightarrow> Some (round6 (js_max (Fin 0) (f - q))) | _ \<Rightarrow> None)"
    and strong: "ea_strong (sl_equivalence s) = (case top_score ft of
           None \<Rightarrow> []
         | Some best \<Rightarrow> sort_ids (map cd_hotel_id (filter (\<lambda>c. cd_protected c \<or>
             (case cd_full c of None \<Rightarrow> False | Some f \<Rightarrow> best - sp_strong (sl_policy s) \<le> f + score_epsilon)) (fully_scored ?es))))"
    and lost: "ea_lost (sl_equivalence s) = filter (\<lambda>i. i \<notin> set (map cd_hotel_id (filter ev_retained ?es))) (ea_strong (sl_equivalence s))"
    and viol: "ea_violations (sl_equivalence s) = sort_ids (map cd_hotel_id (filter violates_bounds ?es))"
    and status: "ea_status (sl_equivalence s) = (if fully_scored ?es = [] then AuditUnavailable
           else if (case ea_loss (sl_equivalence s) of None \<Rightarrow> False | Some l \<Rightarrow> l \<le> sp_equivalence (sl_policy s) + score_epsilon) \<and>
                   ea_lost (sl_equivalence s) = [] \<and> ea_violations (sl_equivalence s) = [] then AuditEquivalent
           else AuditNotEquivalent)"
    by (rule audit_tops [OF run_audited [OF run]])
  obtain eqt st where pol: "sp_equivalence (sl_policy s) = Fin eqt" "0 \<le> eqt" "eqt \<le> 100" "sp_strong (sl_policy s) = Fin st"
    "0 \<le> st" "st \<le> 100" by (rule resolved_policy [OF run_policy [OF run]])
  have pg: "on_grid eqt" "on_grid st" "1 / 100000 \<le> eqt" using assms(5-7) by (simp_all add: pol)
  obtain c b where b: "c \<in> set (fully_scored ?es)" "top_score ft = Some (Fin b)" "cd_full c = Some (Fin b)" "on_grid b"
    and best: "\<And>d f. d \<in> set (fully_scored ?es) \<Longrightarrow> cd_full d = Some (Fin f) \<Longrightarrow> f \<le> b"
    by (rule audit_best [OF ft run_scored(1) [OF assms(1,2)] False]) blast
  have br: "0 \<le> b" "b \<le> 100" using run_in_range(1) [OF run assms(2), of c] b by auto
  have keep: "ev_retained d" if d: "d \<in> set ?es" "scorable d" "cd_protected d \<or>
      (case cd_full d of None \<Rightarrow> False | Some f \<Rightarrow> Fin b - sp_strong (sl_policy s) \<le> f + score_epsilon)" for d
  proof (rule ccontr)
    assume "\<not> ev_retained d"
    with run_retained [OF run d(1)] d(2) obtain limit u l where n: "\<not> cd_protected d" "cd_lower d = Some l" "cd_upper d = Some u"
        "sl_cutoff s = Some limit" "\<not> limit \<le> u + score_epsilon"
      by (auto simp: scorable_def)
    obtain ld ud where lu: "cd_lower d = Some (Fin ld)" "cd_upper d = Some (Fin ud)" "on_grid ud" "0 \<le> ld" "ld \<le> ud" "ud \<le> 100"
      using run_in_range(2) [OF run assms(2) d(1)] n by auto
    from d(2) obtain f where f: "cd_full d = Some (Fin f)" "on_grid f" "0 \<le> f" "f \<le> 100"
      using run_in_range(1) [OF run assms(2) d(1)] by (auto simp: scorable_def)
    obtain e l x where e: "e \<in> set ?es" "cd_eligible e" "cd_lower e = Some (Fin l)"
      and x: "limit = round6 (js_max (Fin 0) x)" "x \<le> Fin l - Fin st - Fin eqt"
      by (rule run_cutoff_form [OF run assms(2) n(4) pol(1,4)])
    have "cd_full e \<noteq> None" using assms(3) e by (simp add: list_all_iff)
    then obtain f1 where f1: "cd_full e = Some (Fin f1)" "on_grid f1" "0 \<le> f1" "f1 \<le> 100"
      using run_in_range(1) [OF run assms(2) e(1)] by auto
    obtain ue where ue: "cd_upper e = Some (Fin ue)" "on_grid l" "0 \<le> l" "l \<le> ue" "ue \<le> 100"
      using run_in_range(2) [OF run assms(2) e(1)] e(3) by auto
    have "\<not> violates_bounds e" "\<not> violates_bounds d" using assms(4) e(1) d(1) by (simp_all add: list_all_iff)
    then have v: "\<not> Fin f1 + score_epsilon < Fin l" "\<not> Fin ud < Fin f - score_epsilon"
      using f1(1) e(3) ue(1) lu f(1) by (simp_all add: violates_bounds_def)
    have "f1 \<le> b" by (rule best [OF _ f1(1)]) (use e(1,2) f1(1) in \<open>simp add: scorable_def\<close>)
    moreover have "Fin b - Fin st \<le> Fin f + score_epsilon" using d(3) n(1) f(1) pol(4) by simp
    ultimately have "round6 (js_max (Fin 0) x) \<le> Fin ud + score_epsilon"
      using cutoff_keeps [OF ue(2) f1(2) b(4) f(2) lu(3) pg(2,1) ue(3) _ f1(3,4) br f(3,4) _ lu(6) pol(5,6) pg(3) pol(3) v(1) _ _ v(2)]
        x(2) ue lu by fastforce
    with n lu x(1) show False by simp
  qed
  have self: "Fin b - Fin st \<le> Fin b + score_epsilon"
    unfolding score_epsilon_value using pol(5) by (simp add: rnd_mono)
  have "ev_retained c" by (rule keep) (use b self pol(4) in simp_all)
  then have cp: "c \<in> set (planned_scored ?es)" using b(1) by simp
  then have "planned_scored ?es \<noteq> []" by (metis empty_iff empty_set)
  then obtain c' q where q: "c' \<in> set (planned_scored ?es)" "top_score pt = Some (Fin q)" "cd_full c' = Some (Fin q)"
    and qbest: "\<And>d f. d \<in> set (planned_scored ?es) \<Longrightarrow> cd_full d = Some (Fin f) \<Longrightarrow> f \<le> q"
    by (rule audit_best [OF pt run_scored(2) [OF assms(1,2)]]) blast
  have "q = b" using qbest [OF cp b(3)] best [of c' q] q by simp
  moreover have "round6 (Fin 0) = Fin 0" using js_round_of_int [of 0] by (simp add: round6_def del: js_round_of_int)
  ultimately have l0: "ea_loss (sl_equivalence s) = Some (Fin 0)" using loss b(2) q(2) by (simp add: js_max_def)
  have n1: "ea_lost (sl_equivalence s) = []"
    using lost_Nil [OF run_distinct_ids [OF run]] strong b(2) keep unfolding lost by simp
  have "filter violates_bounds ?es = []" using assms(4) by (simp add: list_all_iff filter_empty_conv)
  then have "ea_violations (sl_equivalence s) = []" by (simp add: viol sort_ids_def)
  moreover have "Fin 0 \<le> Fin eqt + score_epsilon"
    unfolding score_epsilon_value using pol(2) by (simp add: rnd_nonneg)
  ultimately show ?thesis using status False l0 n1 pol(1) by simp
qed

section \<open>Replay\<close>

lemma sequence_option_all: "sequence_option xs = Some ys \<Longrightarrow> None \<notin> set xs"
  using sequence_option_defined [of xs] by simp

lemma serialized_finite: "stable_serialize v \<noteq> None \<Longrightarrow> finite_json v"
proof (induction v)
  case (JNumber x)
  then show ?case by (cases x) simp_all
next
  case (JArray vs)
  then obtain ps where "sequence_option (map stable_serialize vs) = Some ps" by auto
  from sequence_option_all [OF this] have "\<forall>v \<in> set vs. stable_serialize v \<noteq> None" by (metis image_eqI list.set_map)
  with JArray.IH show ?case by (auto simp: list_all_iff)
next
  case (JObject kvs)
  then obtain ps where "sequence_option (map (\<lambda>(key, text). map_option (\<lambda>t. string_json key @ '':'' @ t) text)
      (js_sort by_key (map (map_prod id stable_serialize) kvs))) = Some ps" by auto
  from sequence_option_all [OF this] have n: "\<forall>(key, v) \<in> set kvs. stable_serialize v \<noteq> None" by force
  have "finite_json v" if "(key, v) \<in> set kvs" for key v
    by (rule JObject.IH [OF that]) (use n that in auto)
  then show ?case by (auto simp: list_all_iff)
qed simp_all

lemma serialize_scale:
  assumes "scale_fingerprint s = Inr h"
  shows "\<exists>t. stable_serialize (scale_json s) = Some t"
proof -
  have "finite_json (JObject ((''evaluationId'', JString (sl_id s)) # scale_core_fields s))"
    using assms by (intro serialized_finite) (auto simp: scale_fingerprint_def scale_hash_def stable_hash_def split: option.splits)
  then have "finite_json (scale_json s)" by (simp add: scale_json_def)
  from stable_serialize_defined [OF this] show ?thesis by auto
qed

interpretation scale_seal: sealed_record scale_fingerprint "\<lambda>h. sl_fingerprint_update (\<lambda>_. h)" sl_fingerprint
  by unfold_locales simp_all

lemma resolved_again:
  assumes "resolve_scale_options opts = Inr p"
  shows "resolve_scale_options
           \<lparr>so_fine_target = Some (sp_fine_target p), so_output_limit = Some (sp_output_limit p),
            so_equivalence = Some (sp_equivalence p), so_strong = Some (sp_strong p),
            so_max_candidates = Some (sp_max_candidates p), so_max_fine = Some (sp_max_fine p),
            so_max_bytes = Some (sp_max_bytes p), so_max_operations = Some (sp_max_operations p)\<rparr> = Inr p" (is "resolve_scale_options ?o = _")
proof -
  have "p = merge_scale_options opts" using assms by (auto simp: resolve_scale_options_def Let_def and_then_Inr_iff)
  moreover have "merge_scale_options ?o = p" by (simp add: merge_scale_options_def Let_def)
  ultimately have "merge_scale_options ?o = merge_scale_options opts" by simp
  then show ?thesis using assms unfolding resolve_scale_options_def by simp
qed

lemma resolved_scope_fields:
  "resolve_scope n completeness reported = Inr scope \<Longrightarrow> ss_completeness scope = completeness \<and> ss_reported scope = reported"
  by (auto simp: resolve_scope_def Let_def and_then_Inr_iff)

lemma validate_trimmed: "validate_scale_candidate c = Inr () \<Longrightarrow> validate_scale_candidate (trim_candidate c) = Inr ()"
  by (auto simp: validate_scale_candidate_def trim_candidate_def js_blank_def Let_def and_then_Inr_iff)

lemma sorted_ids_again:
  assumes "collation collate"
  shows "js_sort (by_candidate_id collate) (js_sort (by_candidate_id collate) cs) = js_sort (by_candidate_id collate) cs"
proof -
  have e: "by_candidate_id collate = (\<lambda>x y. collate (cd_hotel_id x) (cd_hotel_id y))" by (intro ext) (simp add: by_candidate_id_def)
  show ?thesis
    unfolding e
    by (rule comparator.sort_sorted_id [OF collation.comparator_by_key [OF assms]],
        simp, rule comparator.sorted_sort [OF collation.comparator_by_key [OF assms]], simp)
qed

text \<open>C21. An evaluation can be replayed: evaluated again from its own candidates, scope and policy it comes out
  the same, so its own validation finds no issue.\<close>

theorem scale_replay_valid:
  assumes "evaluate_search_scale collate log2 candidates completeness reported opts = Inr s" and "collation collate"
  shows "replay_scale collate log2 s = Inr s \<and> scale_issues collate log2 s = Inr []"
proof -
  note run = assms(1)
  obtain p scope audit cs evaluated sid fp
    where p: "resolve_scale_options opts = Inr p" and d: "distinct (map (\<lambda>c. js_trim (cd_hotel_id c)) candidates)"
    and v: "\<forall>c \<in> set candidates. validate_scale_candidate c = Inr ()"
    and cs: "cs = js_sort (by_candidate_id collate) (map trim_candidate candidates)"
    and ev: "evaluated = map (\<lambda>c. evaluate_scale_candidate c (resolve_safe_cutoff cs p)) cs"
    and sc: "resolve_scope (length evaluated) completeness reported = Inr scope"
    and au: "equivalence_audit_of evaluated p = Some audit"
    and sid: "scale_hash (JObject (scale_core_fields (scale_core log2 p cs scope evaluated audit)))
      ''stayopti-v3-search-wide-scale-evaluation'' = Inr sid"
    and fp: "scale_fingerprint (scale_core log2 p cs scope evaluated audit\<lparr>sl_id := sid\<rparr>) = Inr fp"
    and s: "s = scale_core log2 p cs scope evaluated audit\<lparr>sl_id := sid, sl_fingerprint := fp\<rparr>"
    by (rule evaluate_search_scale_Inr [OF run])
  let ?again = "map scale_candidate.truncate evaluated"
  have trimmed: "\<forall>c \<in> set cs. trim_candidate c = c" by (auto simp: cs trim_candidate_def)
  have again: "?again = cs"
  proof -
    have "scale_candidate.truncate (evaluate_scale_candidate c l) = c" if "c \<in> set cs" for c l
    proof -
      have "scale_candidate.truncate x = x" for x :: scale_candidate by (simp add: scale_candidate.defs)
      with trimmed that show ?thesis by (simp add: evaluated_truncate trim_candidate_def)
    qed
    then show ?thesis unfolding ev map_map comp_def by (simp add: map_idI)
  qed
  have again_cs: "map trim_candidate cs = cs" using trimmed by (simp add: map_idI)
  have sorted: "js_sort (by_candidate_id collate) cs = cs" unfolding cs by (rule sorted_ids_again [OF assms(2)])
  have "mset (map cd_hotel_id cs) = mset (map (\<lambda>c. js_trim (cd_hotel_id c)) candidates)"
    unfolding cs mset_map mset_js_sort by (simp add: image_mset.compositionality comp_def trim_candidate_def)
  then have "distinct (map cd_hotel_id cs)" using d mset_eq_imp_distinct_iff by blast
  moreover have "map (\<lambda>c. js_trim (cd_hotel_id c)) cs = map cd_hotel_id cs"
    using trimmed by (intro map_cong) (auto simp: trim_candidate_def scale_candidate.defs dest!: arg_cong [where f = cd_hotel_id])
  ultimately have ids: "distinct (map (\<lambda>c. js_trim (cd_hotel_id c)) cs)" by (simp only:)
  have valid: "validate_all cs = Inr ()"
    unfolding validate_all_Inr using v validate_trimmed by (auto simp: cs)
  have fields: "sl_policy s = p" "sl_candidates s = evaluated" "sl_scope s = scope" by (simp_all add: s)
  have scope: "ss_completeness scope = completeness" "ss_reported scope = reported" using resolved_scope_fields [OF sc] by simp_all
  have "replay_scale collate log2 s = Inr s"
    unfolding replay_scale_def Let_def fields again scope evaluate_search_scale_def resolved_again [OF p] and_then_simps
    unfolding js_set_length valid again_cs sorted
    unfolding ev [symmetric] sc and_then_simps au option.case sid fp
    using ids by (simp add: s)
  moreover have "scale_fingerprint s = Inr (sl_fingerprint s)" using scale_seal.sealed [OF fp] by (simp add: s)
  ultimately show ?thesis using serialize_scale [of s] by (auto simp: scale_issues_def)
qed

section \<open>A search evaluated\<close>

text \<open>The evaluation before it is hashed, and when the hashes exist.\<close>

definition scale_plan ::
  "(string \<Rightarrow> string \<Rightarrow> jsnum) \<Rightarrow> (jsnum \<Rightarrow> jsnum) \<Rightarrow> scale_candidate list \<Rightarrow> source_completeness \<Rightarrow> jsnum option \<Rightarrow>
     scale_options \<Rightarrow> scale_evaluation option" where
  "scale_plan collate log2 candidates completeness reported opts =
     (case resolve_scale_options opts of
        Inl _ \<Rightarrow> None
      | Inr p \<Rightarrow>
          let cs = js_sort (by_candidate_id collate) (map trim_candidate candidates);
              evaluated = map (\<lambda>c. evaluate_scale_candidate c (resolve_safe_cutoff cs p)) cs
          in case (resolve_scope (length evaluated) completeness reported, equivalence_audit_of evaluated p) of
               (Inr scope, Some audit) \<Rightarrow> Some (scale_core log2 p cs scope evaluated audit)
             | _ \<Rightarrow> None)"

lemma scale_hash_defined: "finite_json v \<Longrightarrow> \<exists>h. scale_hash v ns = Inr h"
  using stable_serialize_defined [of v] by (auto simp: scale_hash_def stable_hash_def)

lemma scale_evaluates:
  assumes "scale_plan collate log2 candidates completeness reported opts = Some core"
    and "distinct (map (\<lambda>c. js_trim (cd_hotel_id c)) candidates)" and "validate_all candidates = Inr ()"
    and "finite_json (JObject (scale_core_fields core))"
  shows "\<exists>sid fp. evaluate_search_scale collate log2 candidates completeness reported opts = Inr (core\<lparr>sl_id := sid, sl_fingerprint := fp\<rparr>)"
proof -
  define cs where "cs = js_sort (by_candidate_id collate) (map trim_candidate candidates)"
  obtain p where p: "resolve_scale_options opts = Inr p"
    using assms(1) by (cases "resolve_scale_options opts") (auto simp: scale_plan_def)
  define evaluated where "evaluated = map (\<lambda>c. evaluate_scale_candidate c (resolve_safe_cutoff cs p)) cs"
  note plan = assms(1) [unfolded scale_plan_def p sum.case Let_def cs_def [symmetric] evaluated_def [symmetric]]
  obtain scope where sc: "resolve_scope (length evaluated) completeness reported = Inr scope"
    using plan by (cases "resolve_scope (length evaluated) completeness reported") (simp_all only: sum.case prod.case option.distinct)
  obtain audit where au: "equivalence_audit_of evaluated p = Some audit"
    using plan unfolding sc by (cases "equivalence_audit_of evaluated p") (simp_all only: sum.case prod.case option.case option.distinct)
  have core: "core = scale_core log2 p cs scope evaluated audit"
    using plan unfolding sc au by (simp only: sum.case prod.case option.case option.inject)
  obtain sid where sid: "scale_hash (JObject (scale_core_fields core)) ''stayopti-v3-search-wide-scale-evaluation'' = Inr sid"
    using scale_hash_defined [OF assms(4)] by blast
  have "finite_json (JObject ((''evaluationId'', JString sid) # scale_core_fields core))" using assms(4) by simp
  from scale_hash_defined [OF this] obtain fp where fp: "scale_fingerprint (core\<lparr>sl_id := sid\<rparr>) = Inr fp"
    by (auto simp: scale_fingerprint_def)
  have "evaluate_search_scale collate log2 candidates completeness reported opts = Inr (core\<lparr>sl_id := sid, sl_fingerprint := fp\<rparr>)"
    unfolding evaluate_search_scale_def p and_then_simps Let_def cs_def [symmetric] evaluated_def [symmetric]
    unfolding js_set_length assms(3) sc au and_then_simps option.case core [symmetric] sid fp
    using assms(2) by simp
  then show ?thesis by blast
qed

definition sample_hotel :: "string \<Rightarrow> int \<Rightarrow> int \<Rightarrow> int \<Rightarrow> scale_candidate" where
  "sample_hotel hid lower upper full =
     \<lparr>cd_hotel_id = hid, cd_eligible = True, cd_lower = Some (Fin (of_int lower)), cd_upper = Some (Fin (of_int upper)),
      cd_full = Some (Fin (of_int full)), cd_coverage = Fin 1, cd_protected = False\<rparr>"

definition sample_hotels :: "scale_candidate list" where
  "sample_hotels = [sample_hotel ''b'' 80 90 85, sample_hotel ''a'' 10 20 15]"

definition sample_scale_options :: scale_options where
  "sample_scale_options =
     \<lparr>so_fine_target = Some (Fin 1), so_output_limit = Some (Fin 1), so_equivalence = None, so_strong = None,
      so_max_candidates = None, so_max_fine = None, so_max_bytes = None, so_max_operations = None\<rparr>"

definition unit_log :: "jsnum \<Rightarrow> jsnum" where
  "unit_log v = Fin 1"

lemma sample_scale_plan:
  "(case scale_plan compare_strings unit_log sample_hotels SourceComplete (Some (Fin 2)) sample_scale_options of
      None \<Rightarrow> False
    | Some s \<Rightarrow> finite_json (JObject (scale_core_fields s)) \<and> sl_status s = ScalePass \<and> sl_retained s = [''b''] \<and>
        sl_pruned s = [''a''] \<and> list_all (\<lambda>c. cd_eligible c \<and> cd_lower c \<noteq> None \<longrightarrow> cd_full c \<noteq> None) (sl_candidates s) \<and>
        list_all (\<lambda>c. \<not> violates_bounds c) (sl_candidates s) \<and> fully_scored (sl_candidates s) \<noteq> [] \<and>
        sp_equivalence (sl_policy s) = Fin (1 / 2) \<and> sp_strong (sl_policy s) = Fin 2) = True"
  by code_simp

lemma sample_hotels_ok:
  "list_all finite_doubles sample_hotels" "distinct (map (\<lambda>c. js_trim (cd_hotel_id c)) sample_hotels)"
  "validate_all sample_hotels = Inr ()"
proof -
  have "on_grid (of_int n)" for n by simp
  then show "list_all finite_doubles sample_hotels"
    by (simp add: sample_hotels_def sample_hotel_def finite_doubles_def)
  show "distinct (map (\<lambda>c. js_trim (cd_hotel_id c)) sample_hotels)" "validate_all sample_hotels = Inr ()"
    by code_simp+
qed

lemma sample_scale:
  obtains s where "evaluate_search_scale compare_strings unit_log sample_hotels SourceComplete (Some (Fin 2)) sample_scale_options = Inr s"
    and "sl_status s = ScalePass" and "sl_retained s = [''b'']" and "sl_pruned s = [''a'']"
    and "list_all (\<lambda>c. cd_eligible c \<and> cd_lower c \<noteq> None \<longrightarrow> cd_full c \<noteq> None) (sl_candidates s)"
    and "list_all (\<lambda>c. \<not> violates_bounds c) (sl_candidates s)" and "fully_scored (sl_candidates s) \<noteq> []"
    and "sp_equivalence (sl_policy s) = Fin (1 / 2)" and "sp_strong (sl_policy s) = Fin 2"
proof -
  obtain core where core: "scale_plan compare_strings unit_log sample_hotels SourceComplete (Some (Fin 2)) sample_scale_options = Some core"
    "finite_json (JObject (scale_core_fields core))" "sl_status core = ScalePass" "sl_retained core = [''b'']"
    "sl_pruned core = [''a'']" "list_all (\<lambda>c. cd_eligible c \<and> cd_lower c \<noteq> None \<longrightarrow> cd_full c \<noteq> None) (sl_candidates core)"
    "list_all (\<lambda>c. \<not> violates_bounds c) (sl_candidates core)" "fully_scored (sl_candidates core) \<noteq> []"
    "sp_equivalence (sl_policy core) = Fin (1 / 2)" "sp_strong (sl_policy core) = Fin 2"
    using sample_scale_plan unfolding eq_True by (split option.split_asm) blast+
  obtain sid fp where "evaluate_search_scale compare_strings unit_log sample_hotels SourceComplete (Some (Fin 2)) sample_scale_options =
      Inr (core\<lparr>sl_id := sid, sl_fingerprint := fp\<rparr>)"
    using scale_evaluates [OF core(1) sample_hotels_ok(2,3) core(2)] by blast
  then show thesis using core by (intro that [of "core\<lparr>sl_id := sid, sl_fingerprint := fp\<rparr>"]) simp_all
qed

lemma scale_plan_exact_witness:
  "\<exists>s. evaluate_search_scale compare_strings unit_log sample_hotels SourceComplete (Some (Fin 2)) sample_scale_options = Inr s \<and>
     mset (sl_retained s @ sl_pruned s) = {#''a'', ''b''#}"
proof (rule sample_scale)
  fix s
  assume "evaluate_search_scale compare_strings unit_log sample_hotels SourceComplete (Some (Fin 2)) sample_scale_options = Inr s"
  moreover have "mset (map (\<lambda>c. js_trim (cd_hotel_id c)) sample_hotels) = {#''a'', ''b''#}" by code_simp
  ultimately show ?thesis using scale_plan_exact by metis
qed

lemma scale_pass_sound_witness:
  "\<exists>s. evaluate_search_scale compare_strings unit_log sample_hotels SourceComplete (Some (Fin 2)) sample_scale_options = Inr s \<and>
     sl_status s = ScalePass \<and> Fin (of_nat (length (sl_retained s))) \<le> sp_max_fine (sl_policy s)"
  by (rule sample_scale) (use scale_pass_sound sample_hotels_ok(1) in blast)

lemma coarse_to_fine_safe_witness:
  "\<exists>s. evaluate_search_scale compare_strings unit_log sample_hotels SourceComplete (Some (Fin 2)) sample_scale_options = Inr s \<and>
     sl_pruned s = [''a''] \<and> ea_loss (sl_equivalence s) = Some (Fin 0)"
proof (rule sample_scale)
  fix s
  assume s: "evaluate_search_scale compare_strings unit_log sample_hotels SourceComplete (Some (Fin 2)) sample_scale_options = Inr s"
    and "sl_pruned s = [''a'']" "fully_scored (sl_candidates s) \<noteq> []"
    and a: "list_all (\<lambda>c. cd_eligible c \<and> cd_lower c \<noteq> None \<longrightarrow> cd_full c \<noteq> None) (sl_candidates s)"
      "list_all (\<lambda>c. \<not> violates_bounds c) (sl_candidates s)"
    and p: "sp_equivalence (sl_policy s) = Fin (1 / 2)" "sp_strong (sl_policy s) = Fin 2"
  moreover have "js_wf (Fin (1 / 2))" "js_wf (Fin 2)" using on_grid_half on_grid_of_int [of 2] by simp_all
  ultimately show ?thesis
    using coarse_to_fine_safe [OF s sample_hotels_ok(1) a] by (intro exI [of _ s]) simp
qed

lemma scale_replay_valid_witness:
  "\<exists>s. evaluate_search_scale compare_strings unit_log sample_hotels SourceComplete (Some (Fin 2)) sample_scale_options = Inr s \<and>
     scale_issues compare_strings unit_log s = Inr []"
  by (rule sample_scale) (use scale_replay_valid code_units.collation_axioms in blast)

end
