(* ===== verification/PriceValue.thy ===== *)
theory PriceValue
  imports PeerGroups FloatSums
begin

text \<open>
  The price-value engine, \<open>src/src/engine-v2/price-value/priceValueEngine.ts\<close>: how the
  total cost of a stay compares with the budget and with the costs of its peers.
  \<open>x ** y\<close> and \<open>Math.exp\<close>, whose values ECMA-262 leaves to the host, are the
  parameters \<open>raise\<close> and \<open>expo\<close>; \<open>localeCompare\<close> is \<open>collate\<close>.
\<close>

section \<open>Types\<close>

datatype price_status = PriceInvalid | PriceUnavailable | PriceUsable | PriceStrongData

record price_candidate =
  pv_hotel_id :: string
  pv_evidence :: "evidence_fact list"
  pv_gate :: reliability_gate

record price_options =
  po_evidence_confidence :: "jsnum option"
  po_peer_count :: "jsnum option"

record budget_evaluation =
  bg_provided :: bool
  bg_total :: "jsnum option"
  bg_within :: "bool option"
  bg_difference :: "jsnum option"
  bg_overage :: "jsnum option"
  bg_overage_ratio :: "jsnum option"
  bg_utilization :: "jsnum option"
  bg_fit :: "jsnum option"

record price_baseline =
  bl_available :: bool
  bl_mode :: peer_group_mode
  bl_sample_size :: nat
  bl_reference_count :: nat
  bl_currency_mismatches :: nat
  bl_missing_prices :: nat
  bl_minimum :: "jsnum option"
  bl_first_quartile :: "jsnum option"
  bl_median :: "jsnum option"
  bl_third_quartile :: "jsnum option"
  bl_maximum :: "jsnum option"
  bl_confidence :: jsnum
  bl_reference_ids :: "id list"
  bl_evidence_ids :: "id list"

record relative_price =
  rp_ratio :: "jsnum option"
  rp_saving :: "jsnum option"
  rp_saving_percentage :: "jsnum option"
  rp_percentile :: "jsnum option"
  rp_value :: "jsnum option"

record price_evaluation =
  pe_hotel_id :: id
  pe_status :: price_status
  pe_eligible :: bool
  pe_total_cost :: "jsnum option"
  pe_currency :: "string option"
  pe_completeness :: "string option"
  pe_budget :: budget_evaluation
  pe_baseline :: price_baseline
  pe_relative :: relative_price
  pe_score :: "jsnum option"
  pe_confidence :: jsnum
  pe_warning_codes :: "string list"
  pe_evidence_ids :: "id list"

record price_input =
  pi_target :: id
  pi_candidates :: "price_candidate list"
  pi_assignment :: peer_assignment
  pi_budget :: "jsnum option"

record price_facts =
  pf_cost_fact :: "evidence_fact option"
  pf_currency_fact :: "evidence_fact option"
  pf_completeness_fact :: "evidence_fact option"
  pf_total_cost :: "jsnum option"
  pf_currency :: "string option"
  pf_completeness :: "string option"
  pf_evidence_ids :: "id list"

record peer_reference =
  pr_hotel_id :: id
  pr_total_cost :: jsnum
  pr_currency :: string
  pr_confidence :: jsnum
  pr_evidence_ids :: "id list"

datatype price_error =
    PriceHotelIdRequired
  | DuplicatePriceCandidate id
  | PriceTargetRequired
  | AssignmentMismatch
  | BudgetNotPositive

section \<open>Reading the facts\<close>

definition is_positive_finite :: "jsnum \<Rightarrow> bool" where
  "is_positive_finite v \<longleftrightarrow> is_fin v \<and> Fin 0 < v"

definition normalize_currency :: "evidence_value \<Rightarrow> string option" where
  "normalize_currency value =
     (case value of
        VString s \<Rightarrow>
          let units = concat (map upper_code_units (js_trim s))
          in if length units = 3 \<and> list_all (\<lambda>n. 65 \<le> n \<and> n \<le> 90) units then Some (map char_of units) else None
      | _ \<Rightarrow> None)"

text \<open>\<open>getKnownFact\<close>: the known fact of a code, confident enough, of greatest confidence.\<close>

definition confident_fact :: "evidence_fact list \<Rightarrow> string \<Rightarrow> jsnum \<Rightarrow> evidence_fact option" where
  "confident_fact evidence code minimum =
     js_first
       (js_sort by_confidence_descending
          (filter (\<lambda>f. fact_code f = code \<and> availability f = Known \<and> minimum \<le> fact_confidence f) evidence))"

definition optional_id :: "evidence_fact option \<Rightarrow> string list" where
  "optional_id f = (case f of None \<Rightarrow> [] | Some g \<Rightarrow> [fact_id g])"

definition extract_price_facts :: "price_candidate \<Rightarrow> jsnum \<Rightarrow> price_facts" where
  "extract_price_facts c minimum =
     (let cost = confident_fact (pv_evidence c) ''stay.cost.total'' minimum;
          currency = confident_fact (pv_evidence c) ''stay.currency'' minimum;
          completeness = confident_fact (pv_evidence c) ''stay.cost.completeness'' minimum
      in \<lparr>pf_cost_fact = cost, pf_currency_fact = currency, pf_completeness_fact = completeness,
          pf_total_cost = (case cost of
              None \<Rightarrow> None
            | Some f \<Rightarrow> (case fact_value f of VNumber v \<Rightarrow> if is_positive_finite v then Some v else None | _ \<Rightarrow> None)),
          pf_currency = (case currency of None \<Rightarrow> None | Some f \<Rightarrow> normalize_currency (fact_value f)),
          pf_completeness = (case completeness of
              None \<Rightarrow> None
            | Some f \<Rightarrow> (case fact_value f of VString s \<Rightarrow> if js_trim s \<noteq> [] then Some (js_trim s) else None | _ \<Rightarrow> None)),
          pf_evidence_ids = unique_sorted (optional_id cost @ optional_id currency @ optional_id completeness)\<rparr>)"

fun validate_price_ids :: "id list \<Rightarrow> price_candidate list \<Rightarrow> price_error + unit" where
  "validate_price_ids seen [] = Inr ()"
| "validate_price_ids seen (c # cs) =
     (let hotel_id = js_trim (pv_hotel_id c)
      in if hotel_id = [] then Inl PriceHotelIdRequired
         else if hotel_id \<in> set seen then Inl (DuplicatePriceCandidate hotel_id)
         else validate_price_ids (hotel_id # seen) cs)"

definition validate_budget :: "jsnum option \<Rightarrow> price_error + jsnum option" where
  "validate_budget budget =
     (case budget of None \<Rightarrow> Inr None | Some b \<Rightarrow> if is_positive_finite b then Inr budget else Inl BudgetNotPositive)"

section \<open>The budget\<close>

definition budget_fit_score ::
  "(jsnum \<Rightarrow> jsnum \<Rightarrow> jsnum) \<Rightarrow> (jsnum \<Rightarrow> jsnum) \<Rightarrow> jsnum \<Rightarrow> jsnum \<Rightarrow> jsnum" where
  "budget_fit_score raise expo cost budget =
     (let utilization = js_div cost budget
      in if utilization \<le> Fin 1 then clamp (Fin 100 - Fin 20 * raise utilization (lit 1.6)) (Fin 0) (Fin 100)
         else clamp (Fin 80 * expo (Fin (- 3) * (utilization - Fin 1))) (Fin 0) (Fin 100))"

definition create_budget_evaluation ::
  "(jsnum \<Rightarrow> jsnum \<Rightarrow> jsnum) \<Rightarrow> (jsnum \<Rightarrow> jsnum) \<Rightarrow> jsnum option \<Rightarrow> jsnum option \<Rightarrow> string option \<Rightarrow> budget_evaluation" where
  "create_budget_evaluation raise expo cost budget completeness =
     (case (budget, cost) of
        (Some b, Some c) \<Rightarrow>
          (let difference = b - c; overage = js_max (c - b) (Fin 0); utilization = js_div c b;
               inside = (if b < c then Some False
                         else if completeness = Some ''reported-complete'' then Some True else None)
           in \<lparr>bg_provided = True, bg_total = Some (round_to 2 b), bg_within = inside,
               bg_difference = Some (round_to 2 difference), bg_overage = Some (round_to 2 overage),
               bg_overage_ratio = Some (round_to 4 (js_div overage b)), bg_utilization = Some (round_to 4 utilization),
               bg_fit = Some (round_to 2 (budget_fit_score raise expo c b))\<rparr>)
      | _ \<Rightarrow>
          \<lparr>bg_provided = (budget \<noteq> None), bg_total = budget, bg_within = None, bg_difference = None, bg_overage = None,
           bg_overage_ratio = None, bg_utilization = None, bg_fit = None\<rparr>)"

section \<open>The peers\<close>

definition percentile :: "jsnum list \<Rightarrow> jsnum \<Rightarrow> jsnum option" where
  "percentile xs p =
     (case xs of
        [] \<Rightarrow> None
      | [x] \<Rightarrow> Some x
      | _ \<Rightarrow>
          (let position = Fin (of_nat (length xs - 1)) * p;
               lower_index = js_floor position; upper_index = js_ceil position;
               lower = xs ! nat \<lfloor>fin_val lower_index\<rfloor>; upper = xs ! nat \<lfloor>fin_val upper_index\<rfloor>
           in if num_eq lower_index upper_index then Some lower
              else Some (lower + (upper - lower) * (position - lower_index))))"

definition price_percentile :: "jsnum \<Rightarrow> jsnum list \<Rightarrow> jsnum option" where
  "price_percentile cost references =
     (if references = [] then None
      else
        let lower = Fin (of_nat (length (filter (\<lambda>c. c < cost) references)));
            equal = Fin (of_nat (length (filter (\<lambda>c. num_eq c cost) references)))
        in Some (js_div (lower + equal * lit 0.5) (Fin (of_nat (length references))) * Fin 100))"

definition relative_value_score :: "jsnum \<Rightarrow> jsnum" where
  "relative_value_score ratio =
     (if ratio \<le> lit 0.75 then Fin 100
      else if ratio \<le> Fin 1 then Fin 100 - Fin 20 * js_div (ratio - lit 0.75) (lit 0.25)
      else if ratio \<le> lit 1.25 then Fin 80 - Fin 40 * js_div (ratio - Fin 1) (lit 0.25)
      else if ratio \<le> lit 1.5 then Fin 40 - Fin 30 * js_div (ratio - lit 1.25) (lit 0.25)
      else js_max (Fin 0) (Fin 10 - Fin 20 * (ratio - lit 1.5)))"

definition unavailable_baseline :: "peer_assignment \<Rightarrow> nat \<Rightarrow> nat \<Rightarrow> price_baseline" where
  "unavailable_baseline assignment mismatches missing =
     (let g = assigned_group assignment
      in \<lparr>bl_available = False, bl_mode = peer_mode g, bl_sample_size = sample_size g, bl_reference_count = 0,
          bl_currency_mismatches = mismatches, bl_missing_prices = missing, bl_minimum = None, bl_first_quartile = None,
          bl_median = None, bl_third_quartile = None, bl_maximum = None, bl_confidence = Fin 0, bl_reference_ids = [],
          bl_evidence_ids = unique_sorted (peer_evidence_ids g)\<rparr>)"

text \<open>\<open>candidatesById.get\<close>: the ids are distinct once the candidates are validated.\<close>

definition candidate_of :: "price_candidate list \<Rightarrow> id \<Rightarrow> price_candidate option" where
  "candidate_of candidates hotel_id = find (\<lambda>c. pv_hotel_id c = hotel_id) candidates"

definition reference_member_ids :: "price_input \<Rightarrow> id list" where
  "reference_member_ids input = unique_sorted (filter (\<lambda>h. h \<noteq> pi_target input) (member_ids (pi_assignment input)))"

definition mean_fact_confidence :: "price_facts \<Rightarrow> jsnum" where
  "mean_fact_confidence facts =
     (let known = (\<lambda>f. case f of None \<Rightarrow> [] | Some g \<Rightarrow> [fact_confidence g]);
          cs = known (pf_cost_fact facts) @ known (pf_currency_fact facts)
      in if cs \<noteq> [] then js_div (js_sum cs) (Fin (of_nat (length cs))) else Fin 0)"

text \<open>The loop over the members: the references, and how many were left out and why.\<close>

definition reference_step ::
  "price_candidate list \<Rightarrow> string \<Rightarrow> jsnum \<Rightarrow> peer_reference list \<times> nat \<times> nat \<Rightarrow> id \<Rightarrow> peer_reference list \<times> nat \<times> nat" where
  "reference_step candidates currency minimum acc hotel_id =
     (case acc of (references, mismatches, missing) \<Rightarrow>
       (case candidate_of candidates hotel_id of
          None \<Rightarrow> (references, mismatches, missing + 1)
        | Some c \<Rightarrow>
            if \<not> gate_eligible (pv_gate c) then (references, mismatches, missing + 1)
            else
              let facts = extract_price_facts c minimum
              in case (pf_total_cost facts, pf_currency facts) of
                   (Some cost, Some cur) \<Rightarrow>
                     if cur \<noteq> currency then (references, mismatches + 1, missing)
                     else (references @
                             [\<lparr>pr_hotel_id = hotel_id, pr_total_cost = cost, pr_currency = cur,
                               pr_confidence = mean_fact_confidence facts, pr_evidence_ids = pf_evidence_ids facts\<rparr>],
                           mismatches, missing)
                 | _ \<Rightarrow> (references, mismatches, missing + 1)))"

definition by_cost :: "(string \<Rightarrow> string \<Rightarrow> jsnum) \<Rightarrow> peer_reference \<Rightarrow> peer_reference \<Rightarrow> jsnum" where
  "by_cost collate first second =
     js_or (pr_total_cost first - pr_total_cost second) (collate (pr_hotel_id first) (pr_hotel_id second))"

text \<open>\<open>null\<close> passed to \<open>round\<close> as a number counts as 0.\<close>

definition number_or_zero :: "jsnum option \<Rightarrow> jsnum" where
  "number_or_zero v = (case v of None \<Rightarrow> Fin 0 | Some x \<Rightarrow> x)"

definition available_baseline ::
  "(string \<Rightarrow> string \<Rightarrow> jsnum) \<Rightarrow> price_input \<Rightarrow> peer_reference list \<Rightarrow> nat \<Rightarrow> nat \<Rightarrow> price_baseline" where
  "available_baseline collate input references mismatches missing =
     (let g = assigned_group (pi_assignment input);
          sorted_references = js_sort (by_cost collate) references;
          costs = map pr_total_cost sorted_references;
          potential = js_max (Fin (of_nat (length (reference_member_ids input)))) (Fin 1);
          coverage = js_div (Fin (of_nat (length references))) potential;
          average = js_div (js_sum (map pr_confidence references)) (Fin (of_nat (length references)));
          confidence = clamp (peer_confidence g * coverage * average) (Fin 0) (Fin 1)
      in \<lparr>bl_available = True, bl_mode = peer_mode g, bl_sample_size = sample_size g, bl_reference_count = length references,
          bl_currency_mismatches = mismatches, bl_missing_prices = missing,
          bl_minimum = Some (round_to 2 (costs ! 0)),
          bl_first_quartile = Some (round_to 2 (number_or_zero (percentile costs (lit 0.25)))),
          bl_median = Some (round_to 2 (number_or_zero (percentile costs (lit 0.5)))),
          bl_third_quartile = Some (round_to 2 (number_or_zero (percentile costs (lit 0.75)))),
          bl_maximum = Some (round_to 2 (costs ! (length costs - 1))),
          bl_confidence = round_to 4 confidence, bl_reference_ids = map pr_hotel_id sorted_references,
          bl_evidence_ids = unique_sorted (peer_evidence_ids g @ concat (map pr_evidence_ids references))\<rparr>)"

definition build_peer_baseline ::
  "(string \<Rightarrow> string \<Rightarrow> jsnum) \<Rightarrow> price_input \<Rightarrow> string \<Rightarrow> jsnum \<Rightarrow> jsnum \<Rightarrow> price_baseline" where
  "build_peer_baseline collate input currency minimum peer_count =
     (let assignment = pi_assignment input
      in if peer_mode (assigned_group assignment) = PeerUnavailable \<or> member_ids assignment = []
         then unavailable_baseline assignment 0 0
         else
           case foldl (reference_step (pi_candidates input) currency minimum) ([], 0, 0) (reference_member_ids input) of
             (references, mismatches, missing) \<Rightarrow>
               if Fin (of_nat (length references)) < peer_count then unavailable_baseline assignment mismatches missing
               else available_baseline collate input references mismatches missing)"

definition empty_relative_price :: relative_price where
  "empty_relative_price =
     \<lparr>rp_ratio = None, rp_saving = None, rp_saving_percentage = None, rp_percentile = None, rp_value = None\<rparr>"

definition reference_costs :: "price_candidate list \<Rightarrow> jsnum \<Rightarrow> id list \<Rightarrow> jsnum list" where
  "reference_costs candidates minimum ids =
     concat (map (\<lambda>h. case candidate_of candidates h of
                       None \<Rightarrow> []
                     | Some c \<Rightarrow> (case pf_total_cost (extract_price_facts c minimum) of None \<Rightarrow> [] | Some v \<Rightarrow> [v])) ids)"

definition create_relative_price :: "jsnum option \<Rightarrow> price_baseline \<Rightarrow> price_candidate list \<Rightarrow> jsnum \<Rightarrow> relative_price" where
  "create_relative_price cost baseline candidates minimum =
     (case (cost, bl_median baseline) of
        (Some c, Some median) \<Rightarrow>
          if \<not> bl_available baseline then empty_relative_price
          else
            let ratio = js_div c median; saving = median - c;
                references = reference_costs candidates minimum (bl_reference_ids baseline)
            in \<lparr>rp_ratio = Some (round_to 4 ratio), rp_saving = Some (round_to 2 saving),
                rp_saving_percentage = Some (round_to 2 (js_div saving median * Fin 100)),
                rp_percentile = Some (round_to 2 (number_or_zero (price_percentile c references))),
                rp_value = Some (round_to 2 (relative_value_score ratio))\<rparr>
      | _ \<Rightarrow> empty_relative_price)"

section \<open>The evaluation\<close>

definition combined_score :: "jsnum option \<Rightarrow> jsnum option \<Rightarrow> jsnum option" where
  "combined_score fit value =
     (case (fit, value) of
        (Some f, Some v) \<Rightarrow> Some (f * lit 0.6 + v * lit 0.4)
      | (Some f, None) \<Rightarrow> Some f
      | (None, v) \<Rightarrow> v)"

definition target_evidence_confidence :: "price_facts \<Rightarrow> jsnum" where
  "target_evidence_confidence facts =
     (let part = (\<lambda>f w. case f of None \<Rightarrow> [] | Some g \<Rightarrow> [(fact_confidence g, w)]);
          parts = part (pf_cost_fact facts) (lit 0.5) @ part (pf_currency_fact facts) (lit 0.2) @
                  part (pf_completeness_fact facts) (lit 0.3)
      in if parts = [] then Fin 0
         else
           let confidence = js_div (js_sum (map (\<lambda>(v, w). v * w) parts)) (js_sum (map snd parts));
               factor = (if pf_completeness facts = Some ''reported-tax-status-unknown'' then Some (lit 0.9)
                         else if pf_completeness facts = Some ''partial'' then Some (lit 0.85)
                         else if pf_completeness facts \<noteq> Some ''reported-complete'' then Some (lit 0.7) else None)
           in clamp (case factor of None \<Rightarrow> confidence | Some k \<Rightarrow> confidence * k) (Fin 0) (Fin 1))"

definition overall_confidence :: "jsnum \<Rightarrow> price_baseline \<Rightarrow> bool \<Rightarrow> jsnum" where
  "overall_confidence target baseline budget_given =
     (let parts = [(target, lit 0.5)] @ (if bl_available baseline then [(bl_confidence baseline, lit 0.35)] else []) @
                  (if budget_given then [(Fin 1, lit 0.15)] else [])
      in clamp (js_div (js_sum (map (\<lambda>(v, w). v * w) parts)) (js_sum (map snd parts))) (Fin 0) (Fin 1))"

definition invalid_price ::
  "(jsnum \<Rightarrow> jsnum \<Rightarrow> jsnum) \<Rightarrow> (jsnum \<Rightarrow> jsnum) \<Rightarrow> price_input \<Rightarrow> price_candidate option \<Rightarrow> jsnum option \<Rightarrow> string \<Rightarrow>
     price_evaluation" where
  "invalid_price raise expo input target budget code =
     \<lparr>pe_hotel_id = pi_target input, pe_status = PriceInvalid, pe_eligible = False, pe_total_cost = None,
      pe_currency = None, pe_completeness = None, pe_budget = create_budget_evaluation raise expo None budget None,
      pe_baseline = unavailable_baseline (pi_assignment input) 0 0, pe_relative = empty_relative_price, pe_score = None,
      pe_confidence = Fin 0, pe_warning_codes = [code],
      pe_evidence_ids = unique_sorted ((case target of None \<Rightarrow> [] | Some c \<Rightarrow> gate_evidence_ids (pv_gate c)) @
        peer_evidence_ids (assigned_group (pi_assignment input)))\<rparr>"

definition price_warnings :: "price_input \<Rightarrow> price_candidate \<Rightarrow> price_facts \<Rightarrow> jsnum option \<Rightarrow> price_baseline \<Rightarrow> string list" where
  "price_warnings input target facts budget baseline =
     unique_sorted
       ((if \<not> gate_eligible (pv_gate target) then [''target-not-eligible-for-primary-ranking''] else []) @
        (if pf_completeness facts \<noteq> Some ''reported-complete'' then
           [if pf_completeness facts = Some ''reported-tax-status-unknown'' then ''target-tax-status-unknown''
            else if pf_completeness facts = Some ''partial'' then ''target-cost-partial''
            else ''target-cost-completeness-unavailable''] else []) @
        (if budget = None then [''budget-not-provided''] else []) @
        (if \<not> bl_available baseline then
           [if peer_mode (assigned_group (pi_assignment input)) = PeerUnavailable then ''peer-group-unavailable''
            else ''peer-baseline-insufficient''] else []) @
        (if 0 < bl_currency_mismatches baseline then [''peer-currency-mismatch''] else []) @
        (if 0 < bl_missing_prices baseline then [''peer-price-evidence-missing''] else []))"

definition price_status_of ::
  "reliability_gate \<Rightarrow> price_facts \<Rightarrow> price_baseline \<Rightarrow> jsnum option \<Rightarrow> jsnum option \<Rightarrow> jsnum \<Rightarrow> string list \<Rightarrow> price_status" where
  "price_status_of g facts baseline budget score confidence warnings =
     (if score = None then PriceUnavailable
      else if gate_status g = GateStrongData \<and> gate_eligible g \<and> pf_completeness facts = Some ''reported-complete'' \<and>
              bl_available baseline \<and> lit 0.75 \<le> bl_confidence baseline \<and> budget \<noteq> None \<and> lit 0.85 \<le> confidence \<and>
              warnings = [] then PriceStrongData
      else PriceUsable)"

definition price_evaluation_of ::
  "(jsnum \<Rightarrow> jsnum \<Rightarrow> jsnum) \<Rightarrow> (jsnum \<Rightarrow> jsnum) \<Rightarrow> (string \<Rightarrow> string \<Rightarrow> jsnum) \<Rightarrow> price_input \<Rightarrow> price_candidate \<Rightarrow> price_facts \<Rightarrow>
     jsnum \<Rightarrow> string \<Rightarrow> jsnum option \<Rightarrow> jsnum \<Rightarrow> jsnum \<Rightarrow> price_evaluation" where
  "price_evaluation_of raise expo collate input target facts cost currency budget minimum peer_count =
     (let g = pv_gate target;
          baseline = build_peer_baseline collate input currency minimum peer_count;
          spending = create_budget_evaluation raise expo (Some cost) budget (pf_completeness facts);
          relative = create_relative_price (Some cost) baseline (pi_candidates input) minimum;
          score = combined_score (bg_fit spending) (rp_value relative);
          confidence = overall_confidence (target_evidence_confidence facts) baseline (budget \<noteq> None);
          warnings = price_warnings input target facts budget baseline
      in \<lparr>pe_hotel_id = pi_target input, pe_status = price_status_of g facts baseline budget score confidence warnings,
          pe_eligible = (gate_eligible g \<and> score \<noteq> None), pe_total_cost = Some (round_to 2 cost), pe_currency = Some currency,
          pe_completeness = pf_completeness facts, pe_budget = spending, pe_baseline = baseline, pe_relative = relative,
          pe_score = map_option (round_to 2) score, pe_confidence = round_to 4 confidence, pe_warning_codes = warnings,
          pe_evidence_ids = unique_sorted (pf_evidence_ids facts @ bl_evidence_ids baseline @ gate_evidence_ids g)\<rparr>)"

text \<open>The evaluation of validated input: the early returns, then the whole.\<close>

definition price_outcome ::
  "(jsnum \<Rightarrow> jsnum \<Rightarrow> jsnum) \<Rightarrow> (jsnum \<Rightarrow> jsnum) \<Rightarrow> (string \<Rightarrow> string \<Rightarrow> jsnum) \<Rightarrow> price_input \<Rightarrow> jsnum option \<Rightarrow>
     jsnum \<Rightarrow> jsnum \<Rightarrow> price_evaluation" where
  "price_outcome raise expo collate input budget minimum peer_count =
     (case candidate_of (pi_candidates input) (pi_target input) of
        None \<Rightarrow> invalid_price raise expo input None budget ''target-candidate-not-found''
      | Some target \<Rightarrow>
          if gate_status (pv_gate target) = GateInvalid
          then invalid_price raise expo input (Some target) budget ''target-reliability-invalid''
          else
            let facts = extract_price_facts target minimum
            in case pf_total_cost facts of
                 None \<Rightarrow> invalid_price raise expo input (Some target) budget ''target-comparable-cost-unavailable''
               | Some cost \<Rightarrow>
                   (case pf_currency facts of
                      None \<Rightarrow> invalid_price raise expo input (Some target) budget ''target-currency-unavailable''
                    | Some currency \<Rightarrow>
                        price_evaluation_of raise expo collate input target facts cost currency budget minimum peer_count))"

definition evaluate_price_value ::
  "(jsnum \<Rightarrow> jsnum \<Rightarrow> jsnum) \<Rightarrow> (jsnum \<Rightarrow> jsnum) \<Rightarrow> (string \<Rightarrow> string \<Rightarrow> jsnum) \<Rightarrow> price_input \<Rightarrow> price_options \<Rightarrow>
     price_error + price_evaluation" where
  "evaluate_price_value raise expo collate input opts =
     and_then (validate_price_ids [] (pi_candidates input)) (\<lambda>_.
     and_then (require (\<not> js_blank (pi_target input)) PriceTargetRequired) (\<lambda>_.
     and_then (require (assigned_hotel_id (pi_assignment input) = pi_target input) AssignmentMismatch) (\<lambda>_.
     and_then (validate_budget (pi_budget input)) (\<lambda>budget.
       Inr (price_outcome raise expo collate input budget (normalize_ratio (po_evidence_confidence opts) (lit 0.6))
         (normalize_minimum (po_peer_count opts) (Fin 2)))))))"

section \<open>Cheaper is never worse\<close>

definition antitone :: "jsnum set \<Rightarrow> (jsnum \<Rightarrow> jsnum) \<Rightarrow> bool" where
  "antitone D f \<longleftrightarrow> (\<forall>x \<in> D. \<forall>y \<in> D. x \<le> y \<longrightarrow> f y \<le> f x)"

lemma antitoneD: "antitone D f \<Longrightarrow> x \<in> D \<Longrightarrow> y \<in> D \<Longrightarrow> x \<le> y \<Longrightarrow> f y \<le> f x"
  by (simp add: antitone_def)

lemma antitoneI: "(\<And>x y. x \<in> D \<Longrightarrow> y \<in> D \<Longrightarrow> x \<le> y \<Longrightarrow> f y \<le> f x) \<Longrightarrow> antitone D f"
  by (simp add: antitone_def)

lemma antitone_glue:
  assumes "antitone D f" and "antitone D g" and "c \<in> D" and "g c \<le> f c"
  shows "antitone D (\<lambda>r. if r \<le> c then f r else g r)"
proof (rule antitoneI)
  fix x y
  assume xy: "x \<in> D" "y \<in> D" "x \<le> y"
  show "(if y \<le> c then f y else g y) \<le> (if x \<le> c then f x else g x)"
  proof (cases "x \<le> c \<and> \<not> y \<le> c")
    case True
    then have "c \<le> y" using xy by (cases c; cases y) auto
    then have "g y \<le> g c" using assms(2,3) xy by (blast intro: antitoneD)
    moreover have "f c \<le> f x" using assms(1,3) xy True by (blast intro: antitoneD)
    ultimately show ?thesis using True assms(4) by (auto intro: jsnum_le_trans)
  next
    case False
    then show ?thesis using xy assms(1,2) jsnum_le_trans [OF xy(3)] by (auto intro: antitoneD)
  qed
qed

lemma Fin_minus_antimono: "x \<le> y \<Longrightarrow> Fin a - y \<le> Fin a - x"
  by (cases x; cases y) (auto simp: minus_jsnum_def intro: rnd_mono)

lemma minus_Fin_mono: "x \<le> y \<Longrightarrow> x - Fin a \<le> y - Fin a"
  by (cases x; cases y) (auto simp: minus_jsnum_def intro: rnd_mono)

lemma Fin_times_mono: "x \<le> y \<Longrightarrow> 0 < c \<Longrightarrow> Fin c * x \<le> Fin c * y"
  by (cases x; cases y) (auto intro: rnd_mono)

lemma Fin_times_antimono: "x \<le> y \<Longrightarrow> c < 0 \<Longrightarrow> Fin c * y \<le> Fin c * x"
  by (cases x; cases y) (auto intro: rnd_mono)

lemma js_max_mono: "x \<le> y \<Longrightarrow> js_max (Fin a) x \<le> js_max (Fin a) y"
  by (cases x; cases y) (auto simp: js_max_def)

lemma lit_quarters: "lit 0.75 = Fin (3 / 4)" "lit 0.25 = Fin (1 / 4)" "lit 1.25 = Fin (5 / 4)" "lit 1.5 = Fin (3 / 2)" "lit 0.5 = Fin (1 / 2)"
  by code_simp+

lemma relative_value_score_antitone: "antitone UNIV relative_value_score"
proof -
  have slope: "antitone UNIV (\<lambda>r. Fin a - Fin b * js_div (r - Fin c) (Fin (1 / 4)))" if "0 < b" for a b c
    using that by (auto intro!: antitoneI Fin_minus_antimono Fin_times_mono div_Fin_mono minus_Fin_mono)
  have tail: "antitone UNIV (\<lambda>r. js_max (Fin 0) (Fin 10 - Fin 20 * (r - Fin (3 / 2))))"
    by (auto intro!: antitoneI js_max_mono Fin_minus_antimono Fin_times_mono minus_Fin_mono)
  have const: "antitone UNIV (\<lambda>r. Fin 100)" by (simp add: antitone_def)
  have e: "relative_value_score = (\<lambda>r. if r \<le> Fin (3 / 4) then Fin 100
      else if r \<le> Fin 1 then Fin 100 - Fin 20 * js_div (r - Fin (3 / 4)) (Fin (1 / 4))
      else if r \<le> Fin (5 / 4) then Fin 80 - Fin 40 * js_div (r - Fin 1) (Fin (1 / 4))
      else if r \<le> Fin (3 / 2) then Fin 40 - Fin 30 * js_div (r - Fin (5 / 4)) (Fin (1 / 4))
      else js_max (Fin 0) (Fin 10 - Fin 20 * (r - Fin (3 / 2))))"
    by (intro ext) (simp only: relative_value_score_def lit_quarters)
  show ?thesis
    unfolding e
    by (intro antitone_glue slope tail const UNIV_I; code_simp)
qed

text \<open>What the theorems need of the host's power and exponential functions.\<close>

definition monotone_math :: "(jsnum \<Rightarrow> jsnum \<Rightarrow> jsnum) \<Rightarrow> (jsnum \<Rightarrow> jsnum) \<Rightarrow> bool" where
  "monotone_math raise expo \<longleftrightarrow>
     (\<forall>x y. Fin 0 \<le> x \<and> x \<le> y \<longrightarrow> raise x (lit 1.6) \<le> raise y (lit 1.6)) \<and> raise (Fin 1) (lit 1.6) = Fin 1 \<and>
     (\<forall>x y. x \<le> y \<longrightarrow> expo x \<le> expo y) \<and> expo (Fin 0) = Fin 1"

lemma monotone_mathD:
  assumes "monotone_math raise expo"
  shows "Fin 0 \<le> x \<Longrightarrow> x \<le> y \<Longrightarrow> raise x (lit 1.6) \<le> raise y (lit 1.6)" and "raise (Fin 1) (lit 1.6) = Fin 1"
    and "x \<le> y \<Longrightarrow> expo x \<le> expo y" and "expo (Fin 0) = Fin 1"
  using assms unfolding monotone_math_def by blast+

lemma budget_fit_antitone:
  assumes m: "monotone_math raise expo" and b: "0 < b" and x: "Fin 0 \<le> x" and y: "x \<le> y"
  shows "budget_fit_score raise expo y (Fin b) \<le> budget_fit_score raise expo x (Fin b)"
proof -
  let ?f = "\<lambda>u. clamp (Fin 100 - Fin 20 * raise u (lit 1.6)) (Fin 0) (Fin 100)"
  let ?g = "\<lambda>u. clamp (Fin 80 * expo (Fin (- 3) * (u - Fin 1))) (Fin 0) (Fin 100)"
  have he: "x \<le> y \<Longrightarrow> expo x \<le> expo y" for x y using m by (simp add: monotone_math_def)
  have f: "antitone {u. Fin 0 \<le> u} ?f"
    using m by (intro antitoneI clamp_mono Fin_minus_antimono Fin_times_mono) (auto simp: monotone_math_def)
  have g: "antitone {u. Fin 0 \<le> u} ?g"
    by (intro antitoneI clamp_mono Fin_times_mono he Fin_times_antimono minus_Fin_mono) simp_all
  have "?g (Fin 1) \<le> ?f (Fin 1)"
    using m rnd_of_int [of 80] by (simp add: monotone_math_def clamp_def js_min_def js_max_def rnd_numeral)
  then have key: "antitone {u. Fin 0 \<le> u} (\<lambda>u. if u \<le> Fin 1 then ?f u else ?g u)"
    by (intro antitone_glue [OF f g]) simp_all
  have xy: "js_div x (Fin b) \<le> js_div y (Fin b)" using y b by (rule div_Fin_mono)
  have x0: "Fin 0 \<le> js_div x (Fin b)" using div_Fin_mono [OF x b] b by simp
  then have y0: "Fin 0 \<le> js_div y (Fin b)" using xy by (rule jsnum_le_trans)
  show ?thesis
    unfolding budget_fit_score_def Let_def
    by (rule antitoneD [OF key _ _ xy]) (simp_all only: mem_Collect_eq x0 y0)
qed

lemma combined_score_mono:
  assumes "f' \<le> f" and "v' \<le> v"
  shows "f' * lit 0.6 + v' * lit 0.4 \<le> f * lit 0.6 + v * lit 0.4 \<or> f * lit 0.6 + v * lit 0.4 = NaN \<or> f' * lit 0.6 + v' * lit 0.4 = NaN"
proof -
  obtain a c where l: "lit 0.6 = Fin a" "0 < a" "lit 0.4 = Fin c" "0 < c"
  proof -
    have "(case lit 0.6 of Fin a \<Rightarrow> 0 < a | _ \<Rightarrow> False)" "(case lit 0.4 of Fin a \<Rightarrow> 0 < a | _ \<Rightarrow> False)" by code_simp+
    then show thesis using that by (auto split: jsnum.splits)
  qed
  show ?thesis
    unfolding l using jsnum_add_mono times_Fin_mono [OF assms(1) l(2)] times_Fin_mono [OF assms(2) l(4)] by blast
qed

section \<open>The structure of an evaluation\<close>

definition evidence_minimum :: "price_options \<Rightarrow> jsnum" where
  "evidence_minimum opts = normalize_ratio (po_evidence_confidence opts) (lit 0.6)"

definition peer_minimum :: "price_options \<Rightarrow> jsnum" where
  "peer_minimum opts = normalize_minimum (po_peer_count opts) (Fin 2)"

lemma evaluate_price_cases [consumes 1, case_names invalid valid]:
  assumes "evaluate_price_value raise expo collate input opts = Inr e"
  obtains target code where "e = invalid_price raise expo input target (pi_budget input) code"
  | target cost currency where "validate_price_ids [] (pi_candidates input) = Inr ()"
    and "candidate_of (pi_candidates input) (pi_target input) = Some target"
    and "gate_status (pv_gate target) \<noteq> GateInvalid"
    and "pf_total_cost (extract_price_facts target (evidence_minimum opts)) = Some cost"
    and "pf_currency (extract_price_facts target (evidence_minimum opts)) = Some currency"
    and "validate_budget (pi_budget input) = Inr (pi_budget input)"
    and "e = price_evaluation_of raise expo collate input target (extract_price_facts target (evidence_minimum opts)) cost currency
      (pi_budget input) (evidence_minimum opts) (peer_minimum opts)"
proof -
  have b: "validate_budget (pi_budget input) = Inr budget \<Longrightarrow> budget = pi_budget input" for budget
    by (auto simp: validate_budget_def split: option.splits if_splits)
  from assms have v: "validate_price_ids [] (pi_candidates input) = Inr ()" "validate_budget (pi_budget input) = Inr (pi_budget input)"
    and r: "e = price_outcome raise expo collate input (pi_budget input) (evidence_minimum opts) (peer_minimum opts)"
    unfolding evaluate_price_value_def and_then_Inr_iff evidence_minimum_def [symmetric] peer_minimum_def [symmetric]
    by (auto dest: b)
  show thesis
  proof (cases "candidate_of (pi_candidates input) (pi_target input)")
    case None
    then show thesis by (intro that(1)) (simp add: r price_outcome_def)
  next
    case target: (Some target)
    consider "gate_status (pv_gate target) = GateInvalid" | "gate_status (pv_gate target) \<noteq> GateInvalid"
        "pf_total_cost (extract_price_facts target (evidence_minimum opts)) = None"
      | cost where "gate_status (pv_gate target) \<noteq> GateInvalid"
        "pf_total_cost (extract_price_facts target (evidence_minimum opts)) = Some cost"
        "pf_currency (extract_price_facts target (evidence_minimum opts)) = None"
      | cost currency where "gate_status (pv_gate target) \<noteq> GateInvalid"
        "pf_total_cost (extract_price_facts target (evidence_minimum opts)) = Some cost"
        "pf_currency (extract_price_facts target (evidence_minimum opts)) = Some currency" by fastforce
    then show thesis
      by cases (simp_all add: r price_outcome_def target Let_def that(1) that(2) [OF v(1) target _ _ _ v(2)])
  qed
qed

lemma total_cost_positive: "pf_total_cost (extract_price_facts c m) = Some v \<Longrightarrow> is_positive_finite v"
  by (auto simp: extract_price_facts_def Let_def split: option.splits evidence_value.splits if_splits)

lemma budget_positive: "validate_budget (Some b) = Inr x \<Longrightarrow> is_positive_finite b"
  by (auto simp: validate_budget_def split: if_splits)

lemma positive_finiteE:
  assumes "is_positive_finite v"
  obtains q where "v = Fin q" and "0 < q"
  using assms by (cases v) (auto simp: is_positive_finite_def)

section \<open>Ranges\<close>

lemma relative_value_score_range: "r \<noteq> NaN \<Longrightarrow> Fin 0 \<le> relative_value_score r \<and> relative_value_score r \<le> Fin 100"
proof -
  assume r: "r \<noteq> NaN"
  have "relative_value_score PosInf = Fin 0" "relative_value_score NegInf = Fin 100" by code_simp+
  then show ?thesis
    using antitoneD [OF relative_value_score_antitone, of r PosInf] antitoneD [OF relative_value_score_antitone, of NegInf r] r by simp
qed

lemma power_not_NaN: "monotone_math raise expo \<Longrightarrow> Fin 0 \<le> x \<Longrightarrow> raise x (lit 1.6) \<noteq> NaN"
  using monotone_mathD(1) [of raise expo x x] by (cases x) auto

lemma expo_not_NaN: "monotone_math raise expo \<Longrightarrow> x \<noteq> NaN \<Longrightarrow> expo x \<noteq> NaN"
  using monotone_mathD(3) [of raise expo x x] by (cases x) auto

lemma Fin_times_not_NaN: "x \<noteq> NaN \<Longrightarrow> c \<noteq> 0 \<Longrightarrow> Fin c * x \<noteq> NaN"
  by (cases x) auto

lemma Fin_minus_not_NaN: "x \<noteq> NaN \<Longrightarrow> Fin a - x \<noteq> NaN" "x \<noteq> NaN \<Longrightarrow> x - Fin a \<noteq> NaN"
  by (cases x; simp add: minus_jsnum_def)+

lemma budget_fit_range:
  assumes m: "monotone_math raise expo" and "is_positive_finite c" and "is_positive_finite b"
  shows "Fin 0 \<le> budget_fit_score raise expo c b \<and> budget_fit_score raise expo c b \<le> Fin 100"
proof -
  obtain p q where pq: "c = Fin p" "0 < p" "b = Fin q" "0 < q" using assms(2,3) by (metis positive_finiteE)
  have u: "Fin 0 \<le> js_div c b" using div_Fin_mono [of "Fin 0" c q] pq by simp
  then have un: "js_div c b \<noteq> NaN" by auto
  have "Fin 100 - Fin 20 * raise (js_div c b) (lit 1.6) \<noteq> NaN"
    by (intro Fin_minus_not_NaN Fin_times_not_NaN power_not_NaN [OF m u]) simp
  moreover have "Fin 80 * expo (Fin (- 3) * (js_div c b - Fin 1)) \<noteq> NaN"
    by (intro Fin_times_not_NaN expo_not_NaN [OF m] Fin_minus_not_NaN un) simp_all
  ultimately show ?thesis unfolding budget_fit_score_def Let_def using clamp_bounds [of _ "Fin 0" "Fin 100"] by simp
qed

definition in_score_range :: "jsnum \<Rightarrow> bool" where
  "in_score_range x \<longleftrightarrow> Fin 0 \<le> x \<and> x \<le> Fin 100"

lemma round_score: "in_score_range x \<Longrightarrow> in_score_range (round_to 2 x)"
  using round_to_between [of 0 x 100 2] by (simp add: in_score_range_def)

lemma score_weights: "in_score_range f \<Longrightarrow> in_score_range v \<Longrightarrow> in_score_range (f * lit 0.6 + v * lit 0.4)"
proof -
  assume r: "in_score_range f" "in_score_range v"
  then obtain p q where pq: "f = Fin p" "0 \<le> p" "p \<le> 100" "v = Fin q" "0 \<le> q" "q \<le> 100"
    unfolding in_score_range_def by (metis jsnum_between_Fin)
  obtain a c where l: "lit 0.6 = Fin a" "0 < a" "lit 0.4 = Fin c" "0 < c"
  proof -
    have "(case lit 0.6 of Fin a \<Rightarrow> 0 < a | _ \<Rightarrow> False)" "(case lit 0.4 of Fin a \<Rightarrow> 0 < a | _ \<Rightarrow> False)" by code_simp+
    then show thesis using that by (auto split: jsnum.splits)
  qed
  have "Fin 100 * lit 0.6 + Fin 100 * lit 0.4 \<le> Fin 100" by code_simp
  then have top: "Fin 100 * Fin a + Fin 100 * Fin c \<le> Fin 100" by (simp only: l)
  have "Fin 0 * Fin a \<le> f * Fin a" "Fin 0 * Fin c \<le> v * Fin c"
    using r l unfolding in_score_range_def by (blast intro: times_Fin_mono)+
  then have n: "Fin 0 \<le> f * Fin a" "Fin 0 \<le> v * Fin c" by simp_all
  have "f * Fin a \<le> Fin 100 * Fin a" "v * Fin c \<le> Fin 100 * Fin c"
    using r l unfolding in_score_range_def by (blast intro: times_Fin_mono)+
  then have "f * Fin a + v * Fin c \<le> Fin 100 * Fin a + Fin 100 * Fin c" using n by (intro nonneg_add_mono)
  with top have "f * Fin a + v * Fin c \<le> Fin 100" by (rule jsnum_le_trans [rotated])
  with add_nonneg [OF n] show ?thesis unfolding l in_score_range_def by blast
qed

lemma bg_fit_cases:
  "bg_fit (create_budget_evaluation raise expo (Some c) budget completeness) =
     (case budget of None \<Rightarrow> None | Some b \<Rightarrow> Some (round_to 2 (budget_fit_score raise expo c b)))"
  by (simp add: create_budget_evaluation_def Let_def split: option.split)

lemma rp_value_cases:
  "rp_value (create_relative_price (Some c) baseline cs m) =
     (case bl_median baseline of None \<Rightarrow> None
      | Some median \<Rightarrow> if bl_available baseline then Some (round_to 2 (relative_value_score (js_div c median))) else None)"
  by (simp add: create_relative_price_def empty_relative_price_def Let_def split: option.split)

section \<open>Quartiles\<close>

definition interpolate :: "rat \<Rightarrow> rat \<Rightarrow> rat \<Rightarrow> jsnum" where
  "interpolate l u f = Fin l + (Fin u - Fin l) * Fin f"

lemma grid_below_double:
  assumes "on_grid q" and "0 < q" and "q \<le> 2 powi (-1021)"
  shows "double q"
proof -
  obtain n where n: "q = of_int n * 2 powi (-1074)" using assms(1) by (auto simp: on_grid_def)
  have e: "(2::rat) powi (-1021) = 2 ^ 53 * 2 powi (-1074)"
    using power_int_add [of "2::rat" 53 "-1074"] powi_of_nat [of 53] by simp
  have "of_int n \<le> (2 ^ 53 :: rat)" "0 < (of_int n :: rat)"
    using assms(2,3) unfolding n e by (simp_all add: zero_less_mult_iff)
  then have "n \<le> 2 ^ 53" "0 < n"
    by (metis of_int_le_iff of_int_numeral of_int_power, simp)
  moreover have "q < 2 powi 1024"
    using assms(3) power_int_strict_increasing [of "-1021" 1024 "2::rat"] by linarith
  ultimately show ?thesis unfolding double_def using n assms(2) by (intro exI [of _ n] exI [of _ "-1074"]) auto
qed

text \<open>Three quarters of the rounded distance, rounded, never exceed the distance.\<close>

lemma part_of_distance:
  assumes g: "on_grid d" and d: "0 \<le> d" and r: "rnd d = Fin r" and f: "0 \<le> f" "f \<le> 3 / 4"
  obtains x where "rnd (r * f) = Fin x" and "0 \<le> x" and "x \<le> d"
proof -
  have r0: "0 \<le> r" using rnd_nonneg [OF d] r by simp
  have rf: "0 \<le> r * f" "r * f \<le> r * (3 / 4)" "r * (3 / 4) \<le> r"
    using mult_nonneg_nonneg [OF r0 f(1)] mult_left_mono [OF f(2) r0] r0 by simp_all
  have dr: "double r" by (rule rnd_double [OF r])
  obtain x where x: "rnd (r * f) = Fin x" "0 \<le> x" "x \<le> r"
    using rnd_between [OF double_0 dr] rf by force
  have "x \<le> d"
  proof (cases "double d")
    case True
    then show ?thesis using x r by (simp add: rnd_exact)
  next
    case False
    have d0: "0 < d" using False d by (cases "d = 0") auto
    have big: "2 powi (-1021) < d" using False grid_below_double [OF g d0] by fastforce
    have "double (2 powi (-1021))"
      unfolding double_def by (intro exI [of _ 1] exI [of _ "-1021"]) (auto simp: power_int_strict_increasing)
    then have rbig: "2 powi (-1021) \<le> r" using rnd_ge_double [of "2 powi (-1021)" d] big r by simp
    then have rp: "0 < r" by (meson less_le_trans powi_pos)
    have "x \<le> r * (3 / 4) + r / 9007199254740992"
    proof (cases "r * f = 0")
      case True
      then show ?thesis using x rp by simp
    next
      case False
      then have p: "0 < r * f" using rf by linarith
      then have "x = rnd_mag (r * f)" using x(1) by (metis jsnum.distinct(1) jsnum.inject rnd_pos_form)
      then have "x \<le> r * f + 2 powi ulp_exp (r * f) / 2" using rnd_mag_error [of "r * f"] by linarith
      also have "\<dots> \<le> r * f + 2 powi ulp_exp r / 2"
        using powi_mono [OF ulp_exp_mono [OF p, of r]] rf by linarith
      also have "\<dots> \<le> r * (3 / 4) + r / 9007199254740992"
      proof -
        have "(2::rat) powi (-1021) < 2 powi (rlog2 r + 1)" using rlog2_bounds(2) [OF rp] rbig by linarith
        then have "-1021 < rlog2 r + 1" by (simp only: powi_less_iff)
        then have "-1074 \<le> rlog2 r - 52" by simp
        then have "ulp_exp r = rlog2 r - 52" by (simp add: ulp_exp_def)
        moreover have "(2::rat) powi rlog2 r = 2 powi (rlog2 r - 52) * 4503599627370496"
          using power_int_add [of "2::rat" "rlog2 r - 52" 52] powi_of_nat [of 52] by simp
        ultimately show ?thesis using rlog2_bounds(1) [OF rp] rf(2) by simp
      qed
      finally show ?thesis .
    qed
    moreover have "r \<le> d * (1 + eps)" by (rule rnd_upper [OF d g r])
    ultimately show ?thesis using d0 by simp
  qed
  with x show thesis by (intro that)
qed

lemma interpolate_bounds:
  assumes "double l" and "double u" and "0 \<le> l" and "l \<le> u" and "0 \<le> f" and "f \<le> 3 / 4"
  obtains v where "interpolate l u f = Fin v" and "l \<le> v" and "v \<le> u"
proof -
  have g: "on_grid (u - l)" using assms(1,2) by (intro on_grid_diff double_on_grid)
  obtain r where r: "rnd (u - l) = Fin r"
    using rnd_between [OF double_0 assms(2), of "u - l"] assms(3,4) by auto
  obtain x where x: "rnd (r * f) = Fin x" "0 \<le> x" "x \<le> u - l"
    by (rule part_of_distance [OF g _ r assms(5,6)]) (use assms(4) in auto)
  obtain v where v: "rnd (l + x) = Fin v" "l \<le> v" "v \<le> u"
    using rnd_between [OF assms(1,2), of "l + x"] x by force
  show thesis by (rule that [OF _ v(2,3)]) (simp add: interpolate_def r x(1) v(1))
qed

lemma interpolate_mono:
  assumes "0 \<le> f" and "f \<le> f'" and "l \<le> u" and "double u" and "0 \<le> l"
  shows "interpolate l u f \<le> interpolate l u f'"
proof -
  obtain r where r: "rnd (u - l) = Fin r" "0 \<le> r"
    using rnd_between [OF double_0 assms(4), of "u - l"] assms(3,5) by auto
  have "rnd (r * f) \<le> rnd (r * f')" using r assms(2) by (intro rnd_mono mult_left_mono)
  then show ?thesis
    unfolding interpolate_def using r
    by (cases "rnd (r * f)"; cases "rnd (r * f')") (auto intro: rnd_mono)
qed

lemma interpolate_0:
  assumes "double l" and "double u" and "0 \<le> l" and "l \<le> u"
  shows "interpolate l u 0 = Fin l"
proof -
  obtain r where "rnd (u - l) = Fin r"
    using rnd_between [OF double_0 assms(2), of "u - l"] assms(3,4) by auto
  then show ?thesis by (simp add: interpolate_def rnd_exact [OF assms(1)])
qed

text \<open>The quartile \<open>k / 4\<close> of a sorted list.\<close>

definition quartile :: "nat \<Rightarrow> rat list \<Rightarrow> jsnum" where
  "quartile k qs =
     (let m = length qs - 1; i = (m * k) div 4
      in interpolate (qs ! i) (qs ! min (i + 1) m) (of_nat ((m * k) mod 4) / 4))"

lemma sorted_doubles_between:
  assumes "sorted qs" and "list_all (\<lambda>q. 0 < q \<and> double q) qs" and "i \<le> j" and "j < length qs"
  shows "double (qs ! i)" and "double (qs ! j)" and "0 < qs ! i" and "qs ! i \<le> qs ! j"
proof -
  have "i < length qs" using assms(3,4) by simp
  then show "double (qs ! i)" "double (qs ! j)" "0 < qs ! i" using assms(2,4) by (simp_all add: list_all_length)
  show "qs ! i \<le> qs ! j" by (rule sorted_nth_mono [OF assms(1,3,4)])
qed

lemma quartile_position:
  fixes k m i :: nat
  assumes "k \<le> 3" and "i = (m * k) div 4"
  shows "i \<le> m" and "0 < (m * k) mod 4 \<Longrightarrow> i + 1 \<le> m"
proof -
  have "m * k \<le> m * 3" using assms(1) by simp
  then show "i \<le> m" using assms(2) by linarith
  assume "0 < (m * k) mod 4"
  moreover have "4 * i + (m * k) mod 4 = m * k" using assms(2) by simp
  ultimately show "i + 1 \<le> m" using \<open>m * k \<le> m * 3\<close> by linarith
qed

lemma quartile_bounds:
  assumes s: "sorted qs" "list_all (\<lambda>q. 0 < q \<and> double q) qs" and ne: "qs \<noteq> []" and k: "k \<le> 3"
  obtains v where "quartile k qs = Fin v" and "qs ! ((length qs - 1) * k div 4) \<le> v"
    and "v \<le> qs ! min ((length qs - 1) * k div 4 + 1) (length qs - 1)"
proof -
  let ?m = "length qs - 1"
  let ?i = "?m * k div 4"
  let ?f = "of_nat (?m * k mod 4) / 4 :: rat"
  have "?m < length qs" using ne by simp
  then have i: "?i \<le> min (?i + 1) ?m" "min (?i + 1) ?m < length qs"
    using quartile_position(1) [OF k refl, of ?m] by (simp_all only: min_less_iff_disj le_add1 min.bounded_iff simp_thms)
  have "?m * k mod 4 \<le> 3" by (simp add: less_Suc_eq_le [symmetric])
  then have "of_nat (?m * k mod 4) \<le> (3::rat)" by (metis of_nat_le_iff of_nat_numeral)
  then have f: "0 \<le> ?f" "?f \<le> 3 / 4" by simp_all
  note b = sorted_doubles_between [OF s i]
  obtain v where "interpolate (qs ! ?i) (qs ! min (?i + 1) ?m) ?f = Fin v" "qs ! ?i \<le> v" "v \<le> qs ! min (?i + 1) ?m"
    by (rule interpolate_bounds [OF b(1,2) _ b(4) f]) (use b(3) in auto)
  then show thesis by (intro that) (simp_all add: quartile_def Let_def)
qed

lemma quartile_mono:
  assumes s: "sorted qs" "list_all (\<lambda>q. 0 < q \<and> double q) qs" and ne: "qs \<noteq> []" and k: "k \<le> k'" "k' \<le> 3"
  shows "quartile k qs \<le> quartile k' qs"
proof -
  let ?m = "length qs - 1"
  let ?i = "?m * k div 4" and ?j = "?m * k' div 4"
  have ij: "?i \<le> ?j" using k by (intro div_le_mono) simp
  have i3: "k \<le> 3" using k by simp
  obtain v where v: "quartile k qs = Fin v" "v \<le> qs ! min (?i + 1) ?m"
    by (rule quartile_bounds [OF s ne i3])
  obtain w where w: "quartile k' qs = Fin w" "qs ! ?j \<le> w"
    by (rule quartile_bounds [OF s ne k(2)])
  show ?thesis
  proof (cases "?i = ?j")
    case True
    have "?m * k = 4 * ?i + ?m * k mod 4" "?m * k' = 4 * ?j + ?m * k' mod 4" by simp_all
    moreover have "?m * k \<le> ?m * k'" using k by simp
    ultimately have "?m * k mod 4 \<le> ?m * k' mod 4" using True by linarith
    then have f: "of_nat (?m * k mod 4) / 4 \<le> (of_nat (?m * k' mod 4) / 4 :: rat)" by simp
    have "?m < length qs" using ne by simp
    then have i: "?i \<le> min (?i + 1) ?m" "min (?i + 1) ?m < length qs"
      using quartile_position(1) [OF i3 refl, of ?m] by (simp_all only: min_less_iff_disj le_add1 min.bounded_iff simp_thms)
    note b = sorted_doubles_between [OF s i]
    show ?thesis
      unfolding quartile_def Let_def True [symmetric]
      by (rule interpolate_mono [OF _ f b(4,2)]) (use b(3) in auto)
  next
    case False
    with ij have "?i + 1 \<le> ?j" by linarith
    then have "min (?i + 1) ?m \<le> ?j" by (rule min.coboundedI1)
    moreover have "?j < length qs" using quartile_position(1) [OF k(2) refl, of ?m] ne by (cases qs) auto
    ultimately have "qs ! min (?i + 1) ?m \<le> qs ! ?j" by (rule sorted_nth_mono [OF s(1)])
    with v w show ?thesis by simp
  qed
qed

lemma js_ceil_Fin [simp]: "js_ceil (Fin q) = Fin (of_int \<lceil>q\<rceil>)"
  by (simp add: js_ceil_def ceiling_def)

lemma quarter_double: "n \<le> 2 ^ 53 \<Longrightarrow> double (of_nat n / 4)"
  using double_dyadic [of "int n" 2] by simp

lemma percentile_quartile:
  assumes s: "sorted qs" "list_all (\<lambda>q. 0 < q \<and> double q) qs" and ne: "qs \<noteq> []" and k: "k \<le> 3" and len: "length qs \<le> 2 ^ 50"
  shows "percentile (map Fin qs) (Fin (of_nat k / 4)) = Some (quartile k qs)"
proof (cases "length qs = 1")
  case True
  then obtain q where q: "qs = [q]" by (cases qs) auto
  then show ?thesis using s(2) interpolate_0 [of q q] by (simp add: percentile_def quartile_def Let_def)
next
  case False
  let ?m = "length qs - 1"
  define n where "n = ?m * k"
  define i where "i = n div 4"
  define r where "r = n mod 4"
  have l2: "\<exists>a b cs. map Fin qs = a # b # cs" using ne False by (cases qs; cases "tl qs") auto
  have "n \<le> 2 ^ 50 * 3" unfolding n_def using len k by (intro mult_mono) auto
  then have n53: "n \<le> 2 ^ 53" by simp
  have nr: "(of_nat n :: rat) / 4 = of_nat i + of_nat r / 4"
  proof -
    have "n = 4 * i + r" by (simp add: i_def r_def)
    then have "(of_nat n :: rat) = 4 * of_nat i + of_nat r" by (metis of_nat_add of_nat_mult of_nat_numeral)
    then show ?thesis by simp
  qed
  have r4: "r \<le> 3" by (simp add: r_def less_Suc_eq_le [symmetric])
  then have rr: "0 \<le> (of_nat r :: rat)" "of_nat r \<le> (3 :: rat)" by (simp, metis of_nat_le_iff of_nat_numeral)
  have "(of_nat ?m :: rat) * (of_nat k / 4) = of_nat n / 4" by (simp add: n_def)
  then have pos: "Fin (of_nat ?m) * Fin (of_nat k / 4) = Fin (of_nat n / 4)"
    using rnd_exact [OF quarter_double [OF n53]] by simp
  have fl: "\<lfloor>of_nat n / 4 :: rat\<rfloor> = int i" unfolding nr by (rule floor_unique) (use rr in auto)
  have im: "i \<le> ?m" "0 < r \<Longrightarrow> i + 1 \<le> ?m"
    using quartile_position [OF k, of i ?m] by (simp_all add: n_def i_def r_def)
  have ml: "?m < length qs" using ne by simp
  have body: "percentile (map Fin qs) (Fin (of_nat k / 4)) =
    (let lower = map Fin qs ! i; upper = map Fin qs ! nat \<lceil>of_nat n / 4 :: rat\<rceil>
     in if num_eq (Fin (of_int (int i))) (Fin (of_int \<lceil>of_nat n / 4 :: rat\<rceil>)) then Some lower
        else Some (lower + (upper - lower) * (Fin (of_nat n / 4) - Fin (of_int (int i)))))"
  proof -
    obtain a b cs where c: "map Fin qs = a # b # cs" using l2 by (elim exE) (rule that)
    have "length (a # b # cs) - 1 = ?m" by (metis c length_map)
    then show ?thesis
      unfolding c percentile_def list.case unfolding c [symmetric] Let_def length_map pos js_floor.simps js_ceil_Fin fl fin_val.simps
        floor_of_int nat_int by simp
  qed
  show ?thesis
  proof (cases "r = 0")
    case True
    then have "\<lceil>of_nat n / 4 :: rat\<rceil> = int i" unfolding nr by simp
    moreover have "interpolate (qs ! i) (qs ! min (i + 1) ?m) 0 = Fin (qs ! i)"
    proof -
      have m: "i \<le> min (i + 1) ?m" "min (i + 1) ?m < length qs" using im ml by auto
      note b = sorted_doubles_between [OF s m]
      show ?thesis by (rule interpolate_0 [OF b(1,2) _ b(4)]) (use b(3) in simp)
    qed
    ultimately show ?thesis
      unfolding body quartile_def Let_def n_def [symmetric] i_def [symmetric] r_def [symmetric] True
      using im ml by (simp add: num_eq_def)
  next
    case False
    then have "1 \<le> r" by simp
    then have r1: "1 \<le> (of_nat r :: rat)" by (metis of_nat_1 of_nat_le_iff)
    have cl: "\<lceil>of_nat n / 4 :: rat\<rceil> = int (i + 1)" unfolding nr by (rule ceiling_unique) (use rr r1 in auto)
    have "of_nat n / 4 - of_int (int i) = (of_nat r / 4 :: rat)" unfolding nr by simp
    then have d: "Fin (of_nat n / 4) - Fin (of_int (int i)) = Fin (of_nat r / 4)"
      using rnd_exact [OF quarter_double [of r]] r4 unfolding minus_Fin by (simp only:) simp
    have "min (i + 1) ?m = i + 1" using im(2) False by simp
    then show ?thesis
      unfolding body quartile_def Let_def n_def [symmetric] i_def [symmetric] r_def [symmetric] cl d nat_int
      using im ml False by (simp add: num_eq_def interpolate_def)
  qed
qed

section \<open>Sorting the references by cost\<close>

lemma rnd_zero_iff: "on_grid p \<Longrightarrow> on_grid q \<Longrightarrow> rnd (p - q) = Fin 0 \<longleftrightarrow> p = q"
proof
  assume g: "on_grid p" "on_grid q" and z: "rnd (p - q) = Fin 0"
  have "rnd (q - p) = js_neg (rnd (p - q))" using rnd_minus [of "p - q"] by simp
  with z have "rnd (q - p) = Fin 0" by simp
  with z rnd_pos_iff [OF on_grid_diff [OF g]] rnd_pos_iff [OF on_grid_diff [OF g(2,1)]] show "p = q" by auto
qed simp

lemma by_cost_pos:
  assumes "pr_total_cost x = Fin p" and "pr_total_cost y = Fin q" and "on_grid p" and "on_grid q"
  shows "Fin 0 < by_cost collate x y \<longleftrightarrow> q < p \<or> p = q \<and> Fin 0 < collate (pr_hotel_id x) (pr_hotel_id y)"
  using rnd_pos_iff [OF on_grid_diff [OF assms(3,4)]] rnd_zero_iff [OF assms(3,4)]
  by (auto simp: by_cost_def js_or_def assms(1,2))

definition costed :: "peer_reference set" where
  "costed = {r. \<exists>q. pr_total_cost r = Fin q \<and> 0 < q \<and> double q}"

lemma by_cost_comparator:
  assumes "collation collate"
  shows "comparator (by_cost collate) costed"
proof -
  show ?thesis
  proof
    fix x y z
    assume "x \<in> costed" "y \<in> costed"
    then obtain p q where pq: "pr_total_cost x = Fin p" "pr_total_cost y = Fin q" "on_grid p" "on_grid q"
      by (auto simp: costed_def double_on_grid)
    show "Fin 0 < by_cost collate x y \<Longrightarrow> \<not> Fin 0 < by_cost collate y x"
      using collation.collate_total [OF assms] by (auto simp: by_cost_pos [OF pq] by_cost_pos [OF pq(2,1,4,3)])
    assume "z \<in> costed" and n: "\<not> Fin 0 < by_cost collate x y" "\<not> Fin 0 < by_cost collate y z"
    then obtain r where r: "pr_total_cost z = Fin r" "on_grid r" by (auto simp: costed_def double_on_grid)
    show "\<not> Fin 0 < by_cost collate x z"
      using n collation.collate_trans [OF assms]
      unfolding by_cost_pos [OF pq] by_cost_pos [OF pq(2) r(1) pq(4) r(2)] by_cost_pos [OF pq(1) r(1) pq(3) r(2)] by fastforce
  qed
qed

lemma sorted_costs:
  assumes "collation collate" and "set references \<subseteq> costed"
  obtains qs where "map pr_total_cost (js_sort (by_cost collate) references) = map Fin qs" and "sorted qs"
    and "list_all (\<lambda>q. 0 < q \<and> double q) qs"
proof -
  let ?s = "js_sort (by_cost collate) references"
  let ?qs = "map (\<lambda>r. fin_val (pr_total_cost r)) ?s"
  have c: "\<And>r. r \<in> set ?s \<Longrightarrow> pr_total_cost r = Fin (fin_val (pr_total_cost r)) \<and> 0 < fin_val (pr_total_cost r) \<and> double (fin_val (pr_total_cost r))"
    using assms(2) by (auto simp: costed_def)
  have "sorted_wrt (comparator.not_after (by_cost collate)) ?s"
    by (rule comparator.sorted_sort [OF by_cost_comparator [OF assms(1)] assms(2)])
  then have "sorted_wrt (\<lambda>x y. fin_val (pr_total_cost x) \<le> fin_val (pr_total_cost y)) ?s"
  proof (rule sorted_wrt_mono_rel [rotated])
    fix x y
    assume xy: "x \<in> set ?s" "y \<in> set ?s" and n: "comparator.not_after (by_cost collate) x y"
    have "\<not> Fin 0 < by_cost collate x y" using n by (simp add: comparator.not_after_def [OF by_cost_comparator [OF assms(1)]])
    moreover have "on_grid (fin_val (pr_total_cost x))" "on_grid (fin_val (pr_total_cost y))"
      using c xy double_on_grid by blast+
    ultimately show "fin_val (pr_total_cost x) \<le> fin_val (pr_total_cost y)"
      using by_cost_pos [of x "fin_val (pr_total_cost x)" y "fin_val (pr_total_cost y)" collate] c xy by (metis not_le)
  qed
  then have s: "sorted ?qs" by (simp add: sorted_map)
  have l: "list_all (\<lambda>q. 0 < q \<and> double q) ?qs" using c by (simp add: list_all_iff)
  show thesis by (rule that [OF _ s l]) (use c in simp)
qed

section \<open>The references\<close>

definition comparable_peer :: "price_candidate list \<Rightarrow> string \<Rightarrow> jsnum \<Rightarrow> id \<Rightarrow> bool" where
  "comparable_peer candidates currency minimum hotel_id =
     (case candidate_of candidates hotel_id of
        None \<Rightarrow> False
      | Some c \<Rightarrow> gate_eligible (pv_gate c) \<and> pf_total_cost (extract_price_facts c minimum) \<noteq> None \<and>
          pf_currency (extract_price_facts c minimum) = Some currency)"

definition priced_reference :: "price_candidate list \<Rightarrow> jsnum \<Rightarrow> peer_reference \<Rightarrow> bool" where
  "priced_reference candidates minimum r \<longleftrightarrow>
     (\<exists>c. candidate_of candidates (pr_hotel_id r) = Some c \<and> pf_total_cost (extract_price_facts c minimum) = Some (pr_total_cost r))"

lemma reference_step_cases:
  obtains (kept) r where "reference_step cs currency m (rs, a, b) h = (rs @ [r], a, b)" and "pr_hotel_id r = h"
      and "comparable_peer cs currency m h" and "priced_reference cs m r"
  | (dropped) a' b' where "reference_step cs currency m (rs, a, b) h = (rs, a', b')" and "a' + b' = a + b + 1"
      and "\<not> comparable_peer cs currency m h"
proof (cases "candidate_of cs h")
  case None
  then show thesis by (intro dropped [of a "b + 1"]) (simp_all add: reference_step_def comparable_peer_def)
next
  case c: (Some c)
  show thesis
  proof (cases "gate_eligible (pv_gate c)")
    case False
    then show thesis using c by (intro dropped [of a "b + 1"]) (simp_all add: reference_step_def comparable_peer_def)
  next
    case g: True
    show thesis
    proof (cases "pf_total_cost (extract_price_facts c m)")
      case None
      then show thesis using c g by (intro dropped [of a "b + 1"]) (simp_all add: reference_step_def comparable_peer_def Let_def)
    next
      case cost: (Some cost)
      show thesis
      proof (cases "pf_currency (extract_price_facts c m)")
        case None
        then show thesis using c g cost
          by (intro dropped [of a "b + 1"]) (simp_all add: reference_step_def comparable_peer_def Let_def)
      next
        case cur: (Some cur)
        show thesis
        proof (cases "cur = currency")
          case True
          then show thesis using c g cost cur
            by (intro kept [of "\<lparr>pr_hotel_id = h, pr_total_cost = cost, pr_currency = cur,
                 pr_confidence = mean_fact_confidence (extract_price_facts c m),
                 pr_evidence_ids = pf_evidence_ids (extract_price_facts c m)\<rparr>"])
              (simp_all add: reference_step_def comparable_peer_def priced_reference_def Let_def)
        next
          case False
          then show thesis using c g cost cur
            by (intro dropped [of "a + 1" b]) (simp_all add: reference_step_def comparable_peer_def Let_def)
        qed
      qed
    qed
  qed
qed

lemma reference_loop:
  "foldl (reference_step cs currency m) (rs, a, b) ids = (rs', a', b') \<Longrightarrow> list_all (priced_reference cs m) rs \<Longrightarrow>
     map pr_hotel_id rs' = map pr_hotel_id rs @ filter (comparable_peer cs currency m) ids \<and>
     length rs' + a' + b' = length rs + a + b + length ids \<and> list_all (priced_reference cs m) rs'"
proof (induction ids arbitrary: rs a b)
  case (Cons h ids)
  show ?case
  proof (cases rule: reference_step_cases [of cs currency m rs a b h])
    case (kept r)
    with Cons.prems show ?thesis using Cons.IH [of "rs @ [r]" a b] by simp
  next
    case (dropped a2 b2)
    with Cons.prems show ?thesis using Cons.IH [of rs a2 b2] by simp
  qed
qed simp

definition double_input :: "price_input \<Rightarrow> bool" where
  "double_input input \<longleftrightarrow>
     list_all (\<lambda>c. list_all (\<lambda>f. case fact_value f of VNumber v \<Rightarrow> js_double v | _ \<Rightarrow> True) (pv_evidence c)) (pi_candidates input)"

lemma candidate_of_in: "candidate_of cs h = Some c \<Longrightarrow> c \<in> set cs \<and> pv_hotel_id c = h"
  by (auto simp: candidate_of_def find_Some_iff)

lemma confident_fact_in:
  assumes "confident_fact ev code m = Some f"
  shows "f \<in> set ev \<and> fact_code f = code \<and> availability f = Known \<and> m \<le> fact_confidence f"
  using assms unfolding confident_fact_def by (drule_tac js_first_Some_in) auto

lemma total_cost_fact:
  assumes "pf_total_cost (extract_price_facts c m) = Some v"
  shows "\<exists>f \<in> set (pv_evidence c). fact_code f = ''stay.cost.total'' \<and> fact_value f = VNumber v"
  using assms confident_fact_in [of "pv_evidence c" "''stay.cost.total''" m]
  by (fastforce simp: extract_price_facts_def Let_def split: option.splits evidence_value.splits if_splits)

lemma priced_costed:
  assumes "double_input input" and "list_all (priced_reference (pi_candidates input) m) rs"
  shows "set rs \<subseteq> costed"
proof
  fix r
  assume "r \<in> set rs"
  then obtain c where c: "candidate_of (pi_candidates input) (pr_hotel_id r) = Some c"
      "pf_total_cost (extract_price_facts c m) = Some (pr_total_cost r)"
    using assms(2) by (auto simp: list_all_iff priced_reference_def)
  obtain q where q: "pr_total_cost r = Fin q" "0 < q" by (rule positive_finiteE [OF total_cost_positive [OF c(2)]])
  have "js_double (pr_total_cost r)"
    using total_cost_fact [OF c(2)] candidate_of_in [OF c(1)] assms(1) by (fastforce simp: double_input_def list_all_iff)
  with q show "r \<in> costed" by (simp add: costed_def)
qed

lemma peer_minimum_ge: "Fin 1 \<le> peer_minimum opts"
  by (auto simp: peer_minimum_def normalize_minimum_def js_max_def split: option.splits jsnum.splits)

lemma baseline_available:
  assumes "bl_available (build_peer_baseline collate input currency m k)" and "Fin 1 \<le> k"
  obtains references mismatches missing
  where "build_peer_baseline collate input currency m k = available_baseline collate input references mismatches missing"
    and "map pr_hotel_id references = filter (comparable_peer (pi_candidates input) currency m) (reference_member_ids input)"
    and "length references + mismatches + missing = length (reference_member_ids input)"
    and "list_all (priced_reference (pi_candidates input) m) references" and "references \<noteq> []"
proof -
  obtain rs a b where f: "foldl (reference_step (pi_candidates input) currency m) ([], 0, 0) (reference_member_ids input) = (rs, a, b)"
    by (metis surj_pair)
  have u: "\<not> bl_available (unavailable_baseline x y z)" for x y z by (simp add: unavailable_baseline_def Let_def)
  have e: "build_peer_baseline collate input currency m k = available_baseline collate input rs a b" and n: "\<not> Fin (of_nat (length rs)) < k"
    using assms(1) u by (auto simp: build_peer_baseline_def Let_def f split: if_splits)
  have "rs \<noteq> []" using n assms(2) by (cases k) auto
  then show thesis using that [OF e] reference_loop [OF f] by simp
qed

text \<open>The numbers of an available baseline.\<close>

lemma baseline_numbers:
  assumes "collation collate" and "set rs \<subseteq> costed" and "rs \<noteq> []" and "length rs \<le> 2 ^ 50"
  obtains lo q1 q2 q3 hi where "bl_minimum (available_baseline collate input rs a b) = Some (round_to 2 (Fin lo))"
    and "bl_first_quartile (available_baseline collate input rs a b) = Some (round_to 2 (Fin q1))"
    and "bl_median (available_baseline collate input rs a b) = Some (round_to 2 (Fin q2))"
    and "bl_third_quartile (available_baseline collate input rs a b) = Some (round_to 2 (Fin q3))"
    and "bl_maximum (available_baseline collate input rs a b) = Some (round_to 2 (Fin hi))"
    and "0 < lo" and "lo \<le> q1" and "q1 \<le> q2" and "q2 \<le> q3" and "q3 \<le> hi"
proof -
  obtain qs where qs: "map pr_total_cost (js_sort (by_cost collate) rs) = map Fin qs"
    and s: "sorted qs" "list_all (\<lambda>q. 0 < q \<and> double q) qs"
    by (rule sorted_costs [OF assms(1,2)])
  have "length qs = length rs" using arg_cong [OF qs, where f = length] by simp
  then have ne: "qs \<noteq> []" and l: "length qs \<le> 2 ^ 50" using assms(3,4) by auto
  obtain v1 where v1: "quartile 1 qs = Fin v1" "qs ! ((length qs - 1) * 1 div 4) \<le> v1" by (rule quartile_bounds [OF s ne, of 1]) simp
  obtain v2 where v2: "quartile 2 qs = Fin v2" by (rule quartile_bounds [OF s ne, of 2]) simp
  obtain v3 where v3: "quartile 3 qs = Fin v3" "v3 \<le> qs ! min ((length qs - 1) * 3 div 4 + 1) (length qs - 1)"
    by (rule quartile_bounds [OF s ne, of 3]) simp
  have o: "v1 \<le> v2" "v2 \<le> v3" using quartile_mono [OF s ne, of 1 2] quartile_mono [OF s ne, of 2 3] v1 v2 v3 by simp_all
  have ml: "length qs - 1 < length qs" using ne by simp
  then have lo: "qs ! 0 \<le> v1" using v1(2) sorted_nth_mono [OF s(1), of 0 "(length qs - 1) * 1 div 4"] by fastforce
  have hi: "v3 \<le> qs ! (length qs - 1)"
    using v3(2) sorted_nth_mono [OF s(1), of "min ((length qs - 1) * 3 div 4 + 1) (length qs - 1)" "length qs - 1"] ml by fastforce
  have pos: "0 < qs ! 0" using s(2) ne by (simp add: list_all_length)
  have p1: "percentile (map Fin qs) (lit 0.25) = Some (Fin v1)"
    unfolding lit_quarters using percentile_quartile [OF s ne _ l, of 1] v1(1) by simp
  have p2: "percentile (map Fin qs) (lit 0.5) = Some (Fin v2)"
    unfolding lit_quarters using percentile_quartile [OF s ne _ l, of 2] v2 by simp
  have p3: "percentile (map Fin qs) (lit 0.75) = Some (Fin v3)"
    unfolding lit_quarters using percentile_quartile [OF s ne _ l, of 3] v3(1) by simp
  have n: "map Fin qs ! 0 = Fin (qs ! 0)" "map Fin qs ! (length (map Fin qs) - 1) = Fin (qs ! (length qs - 1))"
    using ne ml by simp_all
  show thesis
    by (rule that [of "qs ! 0" v1 v2 v3 "qs ! (length qs - 1)"])
      (simp_all only: available_baseline_def Let_def qs p1 p2 p3 n number_or_zero_def option.case price_baseline.simps pos lo o hi)
qed

section \<open>The properties\<close>

text \<open>
  The assumptions of an evaluation with peers: a collation, numbers that are doubles, and no more
  members than an array of the host can hold.
\<close>

definition proper_peers :: "(string \<Rightarrow> string \<Rightarrow> jsnum) \<Rightarrow> price_input \<Rightarrow> bool" where
  "proper_peers collate input \<longleftrightarrow>
     collation collate \<and> double_input input \<and> length (reference_member_ids input) \<le> 2 ^ 50"

lemma valid_evaluation:
  assumes "evaluate_price_value raise expo collate input opts = Inr e" and "pe_status e \<noteq> PriceInvalid"
  obtains target cost currency where "candidate_of (pi_candidates input) (pi_target input) = Some target"
    and "pf_total_cost (extract_price_facts target (evidence_minimum opts)) = Some cost"
    and "pf_currency (extract_price_facts target (evidence_minimum opts)) = Some currency"
    and "\<forall>b. pi_budget input = Some b \<longrightarrow> is_positive_finite b"
    and "e = price_evaluation_of raise expo collate input target (extract_price_facts target (evidence_minimum opts)) cost currency
      (pi_budget input) (evidence_minimum opts) (peer_minimum opts)"
  using assms(1)
proof (cases rule: evaluate_price_cases)
  case (invalid target code)
  with assms(2) show thesis by (simp add: invalid_price_def)
next
  case (valid target cost currency)
  show thesis by (rule that [OF valid(2,4,5) _ valid(7)]) (use valid(6) budget_positive in fastforce)
qed

lemma evaluation_parts:
  assumes "e = price_evaluation_of raise expo collate input target facts cost currency budget m k"
  shows "pe_baseline e = build_peer_baseline collate input currency m k" and "pe_currency e = Some currency"
    and "pe_score e = map_option (round_to 2) (combined_score
      (case budget of None \<Rightarrow> None | Some b \<Rightarrow> Some (round_to 2 (budget_fit_score raise expo cost b)))
      (case bl_median (pe_baseline e) of None \<Rightarrow> None
       | Some median \<Rightarrow> if bl_available (pe_baseline e) then Some (round_to 2 (relative_value_score (js_div cost median))) else None))"
    and "pe_budget e = create_budget_evaluation raise expo (Some cost) budget (pf_completeness facts)"
  by (simp_all add: assms price_evaluation_of_def Let_def bg_fit_cases rp_value_cases cong: option.case_cong)

text \<open>C24. An available baseline is built from exactly the comparable peers - the members other than the target that
  are eligible and have a total cost in the same currency - every member is counted once, as a
  reference, a currency mismatch or a missing price, and the quartiles are in order.\<close>

theorem price_baseline_exact:
  assumes "evaluate_price_value raise expo collate input opts = Inr e" and "pe_status e \<noteq> PriceInvalid"
    and "proper_peers collate input" and "bl_available (pe_baseline e)"
  shows "\<exists>lo q1 q2 q3 hi. bl_minimum (pe_baseline e) = Some lo \<and> bl_first_quartile (pe_baseline e) = Some q1 \<and>
      bl_median (pe_baseline e) = Some q2 \<and> bl_third_quartile (pe_baseline e) = Some q3 \<and> bl_maximum (pe_baseline e) = Some hi \<and>
      Fin 0 \<le> lo \<and> lo \<le> q1 \<and> q1 \<le> q2 \<and> q2 \<le> q3 \<and> q3 \<le> hi \<and>
      distinct (bl_reference_ids (pe_baseline e)) \<and>
      set (bl_reference_ids (pe_baseline e)) =
        {h \<in> set (member_ids (pi_assignment input)) - {pi_target input, []}.
           comparable_peer (pi_candidates input) (the (pe_currency e)) (evidence_minimum opts) h} \<and>
      bl_reference_count (pe_baseline e) = length (bl_reference_ids (pe_baseline e)) \<and>
      bl_reference_count (pe_baseline e) + bl_currency_mismatches (pe_baseline e) + bl_missing_prices (pe_baseline e) =
        length (reference_member_ids input)"
proof -
  obtain target cost currency where e: "e = price_evaluation_of raise expo collate input target
      (extract_price_facts target (evidence_minimum opts)) cost currency (pi_budget input) (evidence_minimum opts) (peer_minimum opts)"
    by (rule valid_evaluation [OF assms(1,2)])
  note parts = evaluation_parts [OF e]
  have p: "collation collate" "double_input input" "length (reference_member_ids input) \<le> 2 ^ 50"
    using assms(3) by (simp_all add: proper_peers_def)
  obtain rs a b where b: "pe_baseline e = available_baseline collate input rs a b"
    and ids: "map pr_hotel_id rs = filter (comparable_peer (pi_candidates input) currency (evidence_minimum opts)) (reference_member_ids input)"
    and count: "length rs + a + b = length (reference_member_ids input)"
    and pr: "list_all (priced_reference (pi_candidates input) (evidence_minimum opts)) rs" and ne: "rs \<noteq> []"
    using baseline_available [OF assms(4) [unfolded parts(1)] peer_minimum_ge] parts(1) by metis
  obtain lo q1 q2 q3 hi where n: "bl_minimum (pe_baseline e) = Some (round_to 2 (Fin lo))"
      "bl_first_quartile (pe_baseline e) = Some (round_to 2 (Fin q1))" "bl_median (pe_baseline e) = Some (round_to 2 (Fin q2))"
      "bl_third_quartile (pe_baseline e) = Some (round_to 2 (Fin q3))" "bl_maximum (pe_baseline e) = Some (round_to 2 (Fin hi))"
    and o: "0 < lo" "lo \<le> q1" "q1 \<le> q2" "q2 \<le> q3" "q3 \<le> hi"
    by (rule baseline_numbers [OF p(1) priced_costed [OF p(2) pr] ne, of input a b, folded b]) (use count p(3) in simp)
  have "Fin 0 \<le> round_to 2 (Fin lo)" using round_to_at_least [of 0 "Fin lo" 2] o(1) by simp
  moreover have fields: "bl_reference_ids (pe_baseline e) = map pr_hotel_id (js_sort (by_cost collate) rs)"
    "bl_reference_count (pe_baseline e) = length rs" "bl_currency_mismatches (pe_baseline e) = a" "bl_missing_prices (pe_baseline e) = b"
    by (simp_all add: b available_baseline_def Let_def)
  moreover have "mset (bl_reference_ids (pe_baseline e)) = mset (map pr_hotel_id rs)"
    unfolding fields(1) mset_map mset_js_sort ..
  then have s: "set (bl_reference_ids (pe_baseline e)) = set (map pr_hotel_id rs)"
    and d: "distinct (bl_reference_ids (pe_baseline e)) \<longleftrightarrow> distinct (map pr_hotel_id rs)"
    by (rule mset_eq_setD, rule mset_eq_imp_distinct_iff)
  moreover have "distinct (map pr_hotel_id rs)" unfolding ids by (simp add: reference_member_ids_def)
  moreover have "set (map pr_hotel_id rs) = {h \<in> set (member_ids (pi_assignment input)) - {pi_target input, []}.
      comparable_peer (pi_candidates input) (the (pe_currency e)) (evidence_minimum opts) h}"
    unfolding ids parts(2) by (auto simp: reference_member_ids_def)
  ultimately show ?thesis
    using n round_to_mono [of "Fin lo" "Fin q1" 2] round_to_mono [of "Fin q1" "Fin q2" 2] round_to_mono [of "Fin q2" "Fin q3" 2]
      round_to_mono [of "Fin q3" "Fin hi" 2] o count length_map [of pr_hotel_id "js_sort (by_cost collate) rs"]
    by (intro exI [of _ "round_to 2 (Fin lo)"] exI [of _ "round_to 2 (Fin q1)"] exI [of _ "round_to 2 (Fin q2)"]
        exI [of _ "round_to 2 (Fin q3)"] exI [of _ "round_to 2 (Fin hi)"] conjI)
      (simp_all only: d length_js_sort less_eq_jsnum.simps simp_thms)
qed

lemma baseline_median:
  assumes "proper_peers collate input" and "bl_available (build_peer_baseline collate input currency m (peer_minimum opts))"
  obtains v where "bl_median (build_peer_baseline collate input currency m (peer_minimum opts)) = Some v" and "Fin 0 \<le> v"
proof -
  have p: "collation collate" "double_input input" "length (reference_member_ids input) \<le> 2 ^ 50"
    using assms(1) by (simp_all add: proper_peers_def)
  obtain rs a b where b: "build_peer_baseline collate input currency m (peer_minimum opts) = available_baseline collate input rs a b"
    and count: "length rs + a + b = length (reference_member_ids input)"
    and pr: "list_all (priced_reference (pi_candidates input) m) rs" and ne: "rs \<noteq> []"
    by (rule baseline_available [OF assms(2) peer_minimum_ge])
  obtain lo q1 q2 where q: "bl_median (available_baseline collate input rs a b) = Some (round_to 2 (Fin q2))" "0 < lo" "lo \<le> q1" "q1 \<le> q2"
    by (rule baseline_numbers [OF p(1) priced_costed [OF p(2) pr] ne, of input a b]) (use count p(3) in simp)
  have "Fin 0 \<le> round_to 2 (Fin q2)" using round_to_at_least [of 0 "Fin q2" 2] q by simp
  with q b show thesis by (intro that) simp_all
qed

lemma ratio_mono: "0 < c \<Longrightarrow> c \<le> d \<Longrightarrow> Fin 0 \<le> m \<Longrightarrow> js_div (Fin c) m \<le> js_div (Fin d) m"
  by (cases m) (auto intro!: rnd_mono divide_right_mono)

lemma value_in_range: "0 < c \<Longrightarrow> Fin 0 \<le> m \<Longrightarrow> in_score_range (round_to 2 (relative_value_score (js_div (Fin c) m)))"
  using ratio_mono [of c c m] relative_value_score_range [of "js_div (Fin c) m"]
  by (intro round_score) (cases "js_div (Fin c) m", auto simp: in_score_range_def)

lemma fit_in_range:
  "monotone_math raise expo \<Longrightarrow> is_positive_finite c \<Longrightarrow> is_positive_finite b \<Longrightarrow>
     in_score_range (round_to 2 (budget_fit_score raise expo c b))"
  using budget_fit_range [of raise expo c b] by (intro round_score) (simp add: in_score_range_def)

lemma combined_in_range:
  "case_option True in_score_range f \<Longrightarrow> case_option True in_score_range v \<Longrightarrow>
     case_option True in_score_range (map_option (round_to 2) (combined_score f v))"
  using score_weights by (auto simp: combined_score_def round_score split: option.splits)

text \<open>Every price-value score is a number between 0 and 100, whatever the costs and the budget, and a stay has one
  exactly when its evaluation is usable; an invalid evaluation is never eligible.\<close>

theorem price_score_range:
  assumes "evaluate_price_value raise expo collate input opts = Inr e" and "monotone_math raise expo"
    and "proper_peers collate input"
  shows "(case pe_score e of None \<Rightarrow> pe_status e \<in> {PriceInvalid, PriceUnavailable} \<and> \<not> pe_eligible e
          | Some s \<Rightarrow> Fin 0 \<le> s \<and> s \<le> Fin 100 \<and> pe_status e \<in> {PriceUsable, PriceStrongData})"
proof (cases "pe_status e = PriceInvalid")
  case True
  from assms(1) show ?thesis
  proof (cases rule: evaluate_price_cases)
    case (invalid target code)
    then show ?thesis by (simp add: invalid_price_def)
  next
    case (valid target cost currency)
    with True show ?thesis by (simp add: price_evaluation_of_def price_status_of_def Let_def split: if_splits)
  qed
next
  case False
  obtain target cost currency where c: "pf_total_cost (extract_price_facts target (evidence_minimum opts)) = Some cost"
    and b: "\<forall>b. pi_budget input = Some b \<longrightarrow> is_positive_finite b"
    and e: "e = price_evaluation_of raise expo collate input target
      (extract_price_facts target (evidence_minimum opts)) cost currency (pi_budget input) (evidence_minimum opts) (peer_minimum opts)"
    by (rule valid_evaluation [OF assms(1) False])
  note parts = evaluation_parts [OF e]
  have pc: "is_positive_finite cost" by (rule total_cost_positive [OF c])
  then obtain q where q: "cost = Fin q" "0 < q" by (rule positive_finiteE)
  have "case_option True in_score_range (pe_score e)"
    unfolding parts(3)
  proof (rule combined_in_range)
    show "case_option True in_score_range (case pi_budget input of None \<Rightarrow> None
        | Some b \<Rightarrow> Some (round_to 2 (budget_fit_score raise expo cost b)))"
      using fit_in_range [OF assms(2) pc] b by (simp split: option.split)
    show "case_option True in_score_range (case bl_median (pe_baseline e) of None \<Rightarrow> None
        | Some median \<Rightarrow> if bl_available (pe_baseline e) then Some (round_to 2 (relative_value_score (js_div cost median))) else None)"
    proof (cases "bl_available (pe_baseline e)")
      case True
      then obtain v where "bl_median (pe_baseline e) = Some v" "Fin 0 \<le> v"
        unfolding parts(1) by (rule baseline_median [OF assms(3)])
      with True q show ?thesis by (simp add: value_in_range)
    qed (simp split: option.split)
  qed
  moreover have "pe_score e = None \<longleftrightarrow> pe_status e = PriceUnavailable" "pe_score e = None \<Longrightarrow> \<not> pe_eligible e"
    "pe_status e \<in> {PriceUnavailable, PriceUsable, PriceStrongData}"
    by (simp_all add: e price_evaluation_of_def Let_def price_status_of_def)
  ultimately show ?thesis by (auto simp: in_score_range_def split: option.splits)
qed

section \<open>Comparing two costs\<close>

text \<open>The input with other evidence about the target.\<close>

definition with_target_evidence :: "evidence_fact list \<Rightarrow> price_input \<Rightarrow> price_input" where
  "with_target_evidence evidence input =
     input\<lparr>pi_candidates := map (\<lambda>c. if pv_hotel_id c = pi_target input then c\<lparr>pv_evidence := evidence\<rparr> else c) (pi_candidates input)\<rparr>"

text \<open>The total cost that the engine reads for the target.\<close>

definition target_cost :: "price_input \<Rightarrow> price_options \<Rightarrow> jsnum option" where
  "target_cost input opts =
     (case candidate_of (pi_candidates input) (pi_target input) of
        None \<Rightarrow> None
      | Some c \<Rightarrow> pf_total_cost (extract_price_facts c (evidence_minimum opts)))"

lemma with_target_evidence_fields [simp]:
  "pi_target (with_target_evidence ev input) = pi_target input" "pi_assignment (with_target_evidence ev input) = pi_assignment input"
  "pi_budget (with_target_evidence ev input) = pi_budget input"
  "reference_member_ids (with_target_evidence ev input) = reference_member_ids input"
  by (simp_all add: with_target_evidence_def reference_member_ids_def)

lemma candidate_of_with_evidence:
  "h \<noteq> pi_target input \<Longrightarrow> candidate_of (pi_candidates (with_target_evidence ev input)) h = candidate_of (pi_candidates input) h"
proof -
  assume h: "h \<noteq> pi_target input"
  have "find (\<lambda>c. pv_hotel_id c = h) (map (\<lambda>c. if pv_hotel_id c = pi_target input then c\<lparr>pv_evidence := ev\<rparr> else c) cs) =
      find (\<lambda>c. pv_hotel_id c = h) cs" for cs
    using h by (induction cs) auto
  then show ?thesis by (simp add: candidate_of_def with_target_evidence_def)
qed

lemma foldl_step_cong: "(\<And>acc x. x \<in> set xs \<Longrightarrow> f acc x = g acc x) \<Longrightarrow> foldl f acc xs = foldl g acc xs"
  by (induction xs arbitrary: acc) simp_all

lemma baseline_with_evidence:
  "build_peer_baseline collate (with_target_evidence ev input) currency m k = build_peer_baseline collate input currency m k"
proof -
  have "foldl (reference_step (pi_candidates (with_target_evidence ev input)) currency m) ([], 0, 0) (reference_member_ids input) =
      foldl (reference_step (pi_candidates input) currency m) ([], 0, 0) (reference_member_ids input)"
    by (rule foldl_step_cong) (auto simp: reference_step_def candidate_of_with_evidence reference_member_ids_def)
  moreover have "available_baseline collate (with_target_evidence ev input) = available_baseline collate input"
    by (intro ext) (simp add: available_baseline_def)
  ultimately show ?thesis by (simp only: build_peer_baseline_def with_target_evidence_fields)
qed

text \<open>C23. A cheaper stay is never scored worse: if only the evidence about the target changes, the currency stays and
  the total cost rises, then the score does not rise - through the power, the exponential, the five
  pieces of the relative score, their joins, the weights and every rounding.\<close>

theorem cheaper_never_scores_worse:
  assumes "evaluate_price_value raise expo collate input opts = Inr e" and "pe_status e \<noteq> PriceInvalid"
    and "evaluate_price_value raise expo collate (with_target_evidence evidence input) opts = Inr e'" and "pe_status e' \<noteq> PriceInvalid"
    and "pe_currency e' = pe_currency e" and "target_cost input opts = Some x"
    and "target_cost (with_target_evidence evidence input) opts = Some y" and "x \<le> y"
    and "monotone_math raise expo" and "proper_peers collate input"
  shows "case pe_score e of None \<Rightarrow> pe_score e' = None | Some s \<Rightarrow> (\<exists>s'. pe_score e' = Some s' \<and> s' \<le> s)"
proof -
  let ?m = "evidence_minimum opts"
  obtain t c cur where t: "candidate_of (pi_candidates input) (pi_target input) = Some t"
      "pf_total_cost (extract_price_facts t ?m) = Some c" and b: "\<forall>b. pi_budget input = Some b \<longrightarrow> is_positive_finite b"
    and e: "e = price_evaluation_of raise expo collate input t (extract_price_facts t ?m) c cur (pi_budget input) ?m (peer_minimum opts)"
    by (rule valid_evaluation [OF assms(1,2)])
  obtain t' c' cur' where t': "candidate_of (pi_candidates (with_target_evidence evidence input)) (pi_target input) = Some t'"
      "pf_total_cost (extract_price_facts t' ?m) = Some c'"
    and e': "e' = price_evaluation_of raise expo collate (with_target_evidence evidence input) t' (extract_price_facts t' ?m) c' cur'
      (pi_budget input) ?m (peer_minimum opts)"
    by (rule valid_evaluation [OF assms(3,4)]) simp
  have cc: "c = x" "c' = y" using assms(6,7) t t' by (simp_all add: target_cost_def)
  obtain p q where pq: "x = Fin p" "0 < p" "y = Fin q" "0 < q"
    using total_cost_positive [OF t(2)] total_cost_positive [OF t'(2)] cc by (metis positive_finiteE)
  then have le: "p \<le> q" using assms(8) by simp
  note parts = evaluation_parts [OF e] and parts' = evaluation_parts [OF e']
  have cur: "cur' = cur" using assms(5) parts(2) parts'(2) by simp
  have base: "pe_baseline e' = pe_baseline e" unfolding parts(1) parts'(1) cur by (rule baseline_with_evidence)
  have fit: "case pi_budget input of None \<Rightarrow> True | Some b \<Rightarrow>
      round_to 2 (budget_fit_score raise expo y b) \<le> round_to 2 (budget_fit_score raise expo x b) \<and>
      in_score_range (round_to 2 (budget_fit_score raise expo x b)) \<and> in_score_range (round_to 2 (budget_fit_score raise expo y b))"
  proof (cases "pi_budget input")
    case (Some w)
    then obtain r where r: "w = Fin r" "0 < r" using b positive_finiteE by metis
    have "is_positive_finite x" "is_positive_finite y" "is_positive_finite w" using pq r by (simp_all add: is_positive_finite_def)
    moreover have "budget_fit_score raise expo y w \<le> budget_fit_score raise expo x w"
      unfolding r(1) by (rule budget_fit_antitone [OF assms(9) r(2)]) (use pq le in simp_all)
    ultimately show ?thesis using Some fit_in_range [OF assms(9)] by (simp add: round_to_mono)
  qed simp
  have val: "bl_available (pe_baseline e) \<Longrightarrow> \<exists>v. bl_median (pe_baseline e) = Some v \<and>
      round_to 2 (relative_value_score (js_div y v)) \<le> round_to 2 (relative_value_score (js_div x v)) \<and>
      in_score_range (round_to 2 (relative_value_score (js_div x v))) \<and> in_score_range (round_to 2 (relative_value_score (js_div y v)))"
  proof -
    assume "bl_available (pe_baseline e)"
    then obtain v where v: "bl_median (pe_baseline e) = Some v" "Fin 0 \<le> v"
      unfolding parts(1) by (rule baseline_median [OF assms(10)])
    have "js_div x v \<le> js_div y v" unfolding pq by (rule ratio_mono [OF pq(2) le v(2)])
    then have "relative_value_score (js_div y v) \<le> relative_value_score (js_div x v)"
      by (intro antitoneD [OF relative_value_score_antitone]) simp_all
    then show ?thesis using v value_in_range [OF pq(2) v(2)] value_in_range [OF pq(4) v(2)] pq by (simp add: round_to_mono)
  qed
  have both: "f' \<le> f \<Longrightarrow> v' \<le> v \<Longrightarrow> in_score_range f \<Longrightarrow> in_score_range v \<Longrightarrow> in_score_range f' \<Longrightarrow> in_score_range v' \<Longrightarrow>
      round_to 2 (f' * lit 0.6 + v' * lit 0.4) \<le> round_to 2 (f * lit 0.6 + v * lit 0.4)" for f f' v v'
    using combined_score_mono [of f' f v' v] score_weights [of f v] score_weights [of f' v']
    by (intro round_to_mono) (auto simp: in_score_range_def)
  show ?thesis
  proof (cases "bl_available (pe_baseline e)")
    case True
    then obtain v where v: "bl_median (pe_baseline e) = Some v"
      "round_to 2 (relative_value_score (js_div y v)) \<le> round_to 2 (relative_value_score (js_div x v))"
      "in_score_range (round_to 2 (relative_value_score (js_div x v)))" "in_score_range (round_to 2 (relative_value_score (js_div y v)))"
      using val by blast
    show ?thesis
      unfolding parts(3) parts'(3) base
      using True v fit both round_to_mono [OF v(2)] by (cases "pi_budget input") (simp_all add: cc combined_score_def)
  next
    case False
    then have n: "(case bl_median (pe_baseline e) of None \<Rightarrow> None
        | Some median \<Rightarrow> if bl_available (pe_baseline e) then Some (round_to 2 (relative_value_score (js_div z median))) else None) = None" for z
      by (simp split: option.split)
    show ?thesis
      unfolding parts(3) parts'(3) base n
      using fit by (cases "pi_budget input") (simp_all add: cc combined_score_def round_to_mono)
  qed
qed

text \<open>What a budget says: over it the stay is never within budget and its fit is at most 80; within it the fit
  is at least 80, and "within budget" is only claimed when the cost is reported as complete.\<close>

theorem budget_evaluation_sound:
  assumes "evaluate_price_value raise expo collate input opts = Inr e" and "pe_status e \<noteq> PriceInvalid"
    and "monotone_math raise expo" and "pi_budget input = Some b" and "target_cost input opts = Some x"
  shows "bg_within (pe_budget e) = (if b < x then Some False else if pe_completeness e = Some ''reported-complete'' then Some True else None) \<and>
    (\<exists>f. bg_fit (pe_budget e) = Some f \<and> (if b < x then Fin 0 \<le> f \<and> f \<le> Fin 80 else Fin 80 \<le> f \<and> f \<le> Fin 100))"
proof -
  let ?m = "evidence_minimum opts"
  obtain t c cur where t: "candidate_of (pi_candidates input) (pi_target input) = Some t"
      "pf_total_cost (extract_price_facts t ?m) = Some c" and bp: "\<forall>b. pi_budget input = Some b \<longrightarrow> is_positive_finite b"
    and e: "e = price_evaluation_of raise expo collate input t (extract_price_facts t ?m) c cur (pi_budget input) ?m (peer_minimum opts)"
    by (rule valid_evaluation [OF assms(1,2)])
  have cx: "c = x" using assms(5) t by (simp add: target_cost_def)
  have pos: "is_positive_finite x" "is_positive_finite b" using total_cost_positive [OF t(2)] cx bp assms(4) by simp_all
  then obtain p q where pq: "x = Fin p" "0 < p" "b = Fin q" "0 < q" by (metis positive_finiteE)
  let ?u = "js_div x b"
  let ?inside = "clamp (Fin 100 - Fin 20 * raise ?u (lit 1.6)) (Fin 0) (Fin 100)"
  let ?over = "clamp (Fin 80 * expo (Fin (- 3) * (?u - Fin 1))) (Fin 0) (Fin 100)"
  have u: "Fin 0 \<le> ?u" using div_Fin_mono [of "Fin 0" x q] pq by simp
  have at1: "clamp (Fin 100 - Fin 20 * Fin 1) (Fin 0) (Fin 100) = Fin 80" "clamp (Fin 80 * Fin 1) (Fin 0) (Fin 100) = Fin 80" by code_simp+
  have inside: "Fin 80 \<le> ?inside" if "?u \<le> Fin 1"
  proof -
    have "raise ?u (lit 1.6) \<le> Fin 1" using monotone_mathD(1) [OF assms(3) u that] monotone_mathD(2) [OF assms(3)] by simp
    then have "clamp (Fin 100 - Fin 20 * Fin 1) (Fin 0) (Fin 100) \<le> ?inside"
      by (intro clamp_mono Fin_minus_antimono Fin_times_mono) simp_all
    with at1 show ?thesis by simp
  qed
  have over: "?over \<le> Fin 80" if "Fin 1 \<le> ?u"
  proof -
    have "?u - Fin 1 \<ge> Fin 1 - Fin 1" using that by (rule minus_Fin_mono)
    then have "Fin (- 3) * (?u - Fin 1) \<le> Fin (- 3) * (Fin 1 - Fin 1)" by (rule Fin_times_antimono) simp
    then have "expo (Fin (- 3) * (?u - Fin 1)) \<le> expo (Fin 0)" by (intro monotone_mathD(3) [OF assms(3)]) simp
    then have "?over \<le> clamp (Fin 80 * Fin 1) (Fin 0) (Fin 100)"
      unfolding monotone_mathD(4) [OF assms(3)] by (intro clamp_mono Fin_times_mono) simp_all
    with at1 show ?thesis by simp
  qed
  have fit: "if b < x then budget_fit_score raise expo x b \<le> Fin 80 else Fin 80 \<le> budget_fit_score raise expo x b"
  proof (cases "b < x")
    case True
    have "js_div (Fin q) (Fin q) \<le> js_div (Fin p) (Fin q)" using True pq by (intro div_Fin_mono) simp_all
    then have u1: "Fin 1 \<le> ?u" using pq by simp
    show ?thesis
    proof (cases "?u \<le> Fin 1")
      case True
      with u1 have "?u = Fin 1" by (cases ?u) auto
      with \<open>b < x\<close> show ?thesis using at1 monotone_mathD(2) [OF assms(3)] by (simp only: budget_fit_score_def Let_def) simp
    next
      case False
      with \<open>b < x\<close> over [OF u1] show ?thesis by (simp only: budget_fit_score_def Let_def if_True if_False)
    qed
  next
    case False
    have "js_div (Fin p) (Fin q) \<le> js_div (Fin q) (Fin q)" using False pq by (intro div_Fin_mono) simp_all
    then have "?u \<le> Fin 1" using pq by simp
    with inside False show ?thesis by (simp only: budget_fit_score_def Let_def if_True if_False)
  qed
  have r80: "round_to 2 (Fin 80) = Fin 80" by code_simp
  have "in_score_range (round_to 2 (budget_fit_score raise expo x b))" by (rule fit_in_range [OF assms(3) pos])
  moreover have "if b < x then round_to 2 (budget_fit_score raise expo x b) \<le> Fin 80 else Fin 80 \<le> round_to 2 (budget_fit_score raise expo x b)"
    using fit round_to_mono [of "budget_fit_score raise expo x b" "Fin 80" 2] round_to_mono [of "Fin 80" "budget_fit_score raise expo x b" 2]
    by (simp add: r80 split: if_splits)
  moreover have "bg_within (pe_budget e) = (if b < x then Some False else if pe_completeness e = Some ''reported-complete'' then Some True else None)"
    "bg_fit (pe_budget e) = Some (round_to 2 (budget_fit_score raise expo x b))"
    by (simp_all add: e price_evaluation_of_def create_budget_evaluation_def Let_def assms(4) cx)
  ultimately show ?thesis by (simp add: in_score_range_def split: if_splits)
qed

section \<open>The order of the candidates\<close>

lemma validate_price_ids_iff:
  "validate_price_ids seen cs = Inr () \<longleftrightarrow>
     distinct (map (\<lambda>c. js_trim (pv_hotel_id c)) cs) \<and> (\<forall>c \<in> set cs. js_trim (pv_hotel_id c) \<noteq> [] \<and> js_trim (pv_hotel_id c) \<notin> set seen)"
  by (induction cs arbitrary: seen) (auto simp: Let_def image_iff)

lemma candidate_of_Some_iff:
  assumes "distinct (map pv_hotel_id cs)"
  shows "candidate_of cs h = Some c \<longleftrightarrow> c \<in> set cs \<and> pv_hotel_id c = h"
proof
  assume c: "c \<in> set cs \<and> pv_hotel_id c = h"
  then obtain d where d: "candidate_of cs h = Some d" by (cases "candidate_of cs h") (auto simp: candidate_of_def find_None_iff)
  then have "d = c" using candidate_of_in [OF d] c assms by (auto simp: distinct_map inj_on_def)
  with d show "candidate_of cs h = Some c" by simp
qed (rule candidate_of_in)

lemma candidate_of_permuted:
  assumes "distinct (map pv_hotel_id cs)" and "mset cs' = mset cs"
  shows "candidate_of cs' = candidate_of cs"
proof (intro ext option.expand)
  fix h
  have d: "distinct (map pv_hotel_id cs')"
    using assms mset_eq_imp_distinct_iff [of "map pv_hotel_id cs'" "map pv_hotel_id cs"] by simp
  have s: "set cs' = set cs" by (rule mset_eq_setD [OF assms(2)])
  note iff = candidate_of_Some_iff [OF assms(1), of h] candidate_of_Some_iff [OF d, of h]
  show "candidate_of cs' h = None \<longleftrightarrow> candidate_of cs h = None" using iff s by (metis option.exhaust)
  show "candidate_of cs' h \<noteq> None \<Longrightarrow> candidate_of cs h \<noteq> None \<Longrightarrow> the (candidate_of cs' h) = the (candidate_of cs h)"
    using iff s by (metis option.collapse)
qed

lemma price_outcome_candidates:
  assumes "candidate_of cs = candidate_of (pi_candidates input)"
  shows "price_outcome raise expo collate (input\<lparr>pi_candidates := cs\<rparr>) budget m k = price_outcome raise expo collate input budget m k"
proof -
  have f: "pi_candidates (input\<lparr>pi_candidates := cs\<rparr>) = cs" "pi_assignment (input\<lparr>pi_candidates := cs\<rparr>) = pi_assignment input"
    "pi_target (input\<lparr>pi_candidates := cs\<rparr>) = pi_target input" by simp_all
  have s: "reference_step cs = reference_step (pi_candidates input)" by (intro ext) (simp only: reference_step_def assms)
  have r: "reference_costs cs = reference_costs (pi_candidates input)" by (intro ext) (simp only: reference_costs_def assms)
  have ids: "reference_member_ids (input\<lparr>pi_candidates := cs\<rparr>) = reference_member_ids input" by (simp add: reference_member_ids_def)
  have a: "available_baseline collate (input\<lparr>pi_candidates := cs\<rparr>) = available_baseline collate input"
    by (intro ext) (simp add: available_baseline_def ids)
  have b: "build_peer_baseline collate (input\<lparr>pi_candidates := cs\<rparr>) = build_peer_baseline collate input"
    by (intro ext) (simp only: build_peer_baseline_def s a ids f)
  have w: "price_warnings (input\<lparr>pi_candidates := cs\<rparr>) = price_warnings input" by (intro ext) (simp add: price_warnings_def)
  have c: "create_relative_price cost bl cs = create_relative_price cost bl (pi_candidates input)" for cost bl
    by (intro ext) (simp only: create_relative_price_def r)
  have i: "invalid_price raise expo (input\<lparr>pi_candidates := cs\<rparr>) = invalid_price raise expo input"
    by (intro ext) (simp add: invalid_price_def)
  have v: "price_evaluation_of raise expo collate (input\<lparr>pi_candidates := cs\<rparr>) = price_evaluation_of raise expo collate input"
    by (intro ext) (simp add: price_evaluation_of_def b w c)
  show ?thesis by (simp only: price_outcome_def i v f assms)
qed

text \<open>The order of the candidates does not matter.\<close>

theorem price_order_independent:
  assumes "evaluate_price_value raise expo collate input opts = Inr e" and "mset candidates = mset (pi_candidates input)"
  shows "evaluate_price_value raise expo collate (input\<lparr>pi_candidates := candidates\<rparr>) opts = Inr e"
proof -
  have v: "validate_price_ids [] (pi_candidates input) = Inr ()"
    using assms(1) by (auto simp: evaluate_price_value_def and_then_Inr_iff)
  have m: "mset (map f candidates) = mset (map f (pi_candidates input))" for f :: "price_candidate \<Rightarrow> string" by (simp add: assms(2))
  have "validate_price_ids [] candidates = Inr ()"
    using v m [of "\<lambda>c. js_trim (pv_hotel_id c)"] mset_eq_setD [OF assms(2)] mset_eq_imp_distinct_iff
    unfolding validate_price_ids_iff by metis
  moreover have "distinct (map pv_hotel_id (pi_candidates input))"
    using v unfolding validate_price_ids_iff by (auto simp: distinct_map inj_on_def)
  note price_outcome_candidates [OF candidate_of_permuted [OF this assms(2)]]
  ultimately show ?thesis using assms(1) by (simp add: evaluate_price_value_def v)
qed

section \<open>A concrete evaluation\<close>

definition price_fact :: "id \<Rightarrow> string \<Rightarrow> evidence_value \<Rightarrow> evidence_fact" where
  "price_fact i code v =
     \<lparr>fact_id = i, fact_code = code, availability = Known, fact_value = v, fact_unit = None, fact_source = FromProvider,
      source_provider = None, source_field = None, fact_confidence = Fin 1, severity = Information,
      missing_reason_code = None, captured_at = None, derived_from = []\<rparr>"

definition price_evidence :: "rat \<Rightarrow> evidence_fact list" where
  "price_evidence cost =
     [price_fact ''f1'' ''stay.cost.total'' (VNumber (Fin cost)), price_fact ''f2'' ''stay.currency'' (VString '' eur ''),
      price_fact ''f3'' ''stay.cost.completeness'' (VString ''reported-complete'')]"

definition stay_of :: "id \<Rightarrow> rat \<Rightarrow> price_candidate" where
  "stay_of h cost =
     \<lparr>pv_hotel_id = h, pv_evidence = price_evidence cost,
      pv_gate = \<lparr>gate_status = GateStrongData, gate_eligible = True, blocking_reason_codes = [], gate_warning_codes = [],
        gate_evidence_ids = []\<rparr>\<rparr>"

definition sample_price_input :: price_input where
  "sample_price_input =
     \<lparr>pi_target = ''a'', pi_candidates = [stay_of ''a'' 100, stay_of ''b'' 90, stay_of ''c'' 120],
      pi_assignment = \<lparr>assigned_hotel_id = ''a'',
        assigned_group = \<lparr>peer_group_id = None, peer_mode = SameCategory, peer_category = Hotel, sample_size = 3,
          reference_price_count = 2, peer_confidence = Fin 1, peer_evidence_ids = []\<rparr>,
        member_ids = [''a'', ''b'', ''c'']\<rparr>,
      pi_budget = Some (Fin 150)\<rparr>"

definition sample_price_options :: price_options where
  "sample_price_options = \<lparr>po_evidence_confidence = None, po_peer_count = None\<rparr>"

text \<open>A power and an exponential function that satisfy the assumptions.\<close>

definition linear_power :: "jsnum \<Rightarrow> jsnum \<Rightarrow> jsnum" where
  "linear_power x y = x"

definition step_exponential :: "jsnum \<Rightarrow> jsnum" where
  "step_exponential x = (if x < Fin 0 then Fin (1 / 2) else Fin 1)"

lemma sample_math: "monotone_math linear_power step_exponential"
  unfolding monotone_math_def linear_power_def step_exponential_def
  by (auto dest: jsnum_le_less_trans)

abbreviation sample_price :: "price_input \<Rightarrow> price_error + price_evaluation" where
  "sample_price input \<equiv> evaluate_price_value linear_power step_exponential compare_strings input sample_price_options"

lemma evaluation_status:
  assumes "e = price_evaluation_of raise expo collate input target facts cost currency budget m k"
  shows "pe_status e \<noteq> PriceInvalid" and "pe_completeness e = pf_completeness facts" and "budget \<noteq> None \<Longrightarrow> pe_score e \<noteq> None"
proof -
  show "pe_status e \<noteq> PriceInvalid" "pe_completeness e = pf_completeness facts"
    by (simp_all add: assms price_evaluation_of_def price_status_of_def Let_def)
  show "budget \<noteq> None \<Longrightarrow> pe_score e \<noteq> None"
    unfolding evaluation_parts(3) [OF assms] by (auto simp: combined_score_def split: option.split)
qed

lemma sample_price_form:
  assumes "input = sample_price_input \<and> cost = 100 \<or> input = with_target_evidence (price_evidence 110) sample_price_input \<and> cost = 110"
  obtains e where "sample_price input = Inr e"
    and "e = price_evaluation_of linear_power step_exponential compare_strings input (stay_of ''a'' cost)
      (extract_price_facts (stay_of ''a'' cost) (lit 0.6)) (Fin cost) ''EUR'' (Some (Fin 150)) (lit 0.6) (Fin 2)"
proof -
  have "validate_price_ids [] (pi_candidates sample_price_input) = Inr ()"
    "validate_price_ids [] (pi_candidates (with_target_evidence (price_evidence 110) sample_price_input)) = Inr ()" by code_simp+
  then have v: "validate_price_ids [] (pi_candidates input) = Inr ()" using assms by blast
  have "pf_total_cost (extract_price_facts (stay_of ''a'' 100) (lit 0.6)) = Some (Fin 100)"
    "pf_currency (extract_price_facts (stay_of ''a'' 100) (lit 0.6)) = Some ''EUR''"
    "pf_total_cost (extract_price_facts (stay_of ''a'' 110) (lit 0.6)) = Some (Fin 110)"
    "pf_currency (extract_price_facts (stay_of ''a'' 110) (lit 0.6)) = Some ''EUR''" by code_simp+
  then have f: "pf_total_cost (extract_price_facts (stay_of ''a'' cost) (lit 0.6)) = Some (Fin cost)"
    "pf_currency (extract_price_facts (stay_of ''a'' cost) (lit 0.6)) = Some ''EUR''" using assms by blast+
  have c: "candidate_of (pi_candidates input) (pi_target input) = Some (stay_of ''a'' cost)"
    using assms by (auto simp: candidate_of_def with_target_evidence_def sample_price_input_def stay_of_def)
  have g: "gate_status (pv_gate (stay_of ''a'' cost)) \<noteq> GateInvalid" by (simp add: stay_of_def)
  have b: "validate_budget (pi_budget input) = Inr (Some (Fin 150))"
    using assms by (auto simp: validate_budget_def is_positive_finite_def sample_price_input_def with_target_evidence_def)
  have t: "\<not> js_blank (pi_target input)" "assigned_hotel_id (pi_assignment input) = pi_target input"
    using assms by (auto simp: sample_price_input_def with_target_evidence_def js_blank_iff js_space_def)
  show thesis
    by (rule that [OF _ refl])
      (simp only: evaluate_price_value_def v b t and_then_simps require_simps price_outcome_def c g f Let_def option.case if_False
        normalize_ratio_def normalize_minimum_def sample_price_options_def price_options.simps simp_thms)
qed

lemma sample_baseline:
  "bl_available (build_peer_baseline compare_strings sample_price_input ''EUR'' (lit 0.6) (Fin 2))"
  "bl_median (build_peer_baseline compare_strings sample_price_input ''EUR'' (lit 0.6) (Fin 2)) = Some (Fin 105)"
  by code_simp+

lemma sample_price_Inr:
  obtains e where "sample_price sample_price_input = Inr e" and "pe_status e \<noteq> PriceInvalid" and "bl_available (pe_baseline e)"
    and "bl_median (pe_baseline e) = Some (Fin 105)" and "pe_currency e = Some ''EUR''" and "pe_completeness e = Some ''reported-complete''"
    and "pe_score e \<noteq> None"
proof -
  obtain e where e: "sample_price sample_price_input = Inr e"
    "e = price_evaluation_of linear_power step_exponential compare_strings sample_price_input (stay_of ''a'' 100)
      (extract_price_facts (stay_of ''a'' 100) (lit 0.6)) (Fin 100) ''EUR'' (Some (Fin 150)) (lit 0.6) (Fin 2)"
    by (rule sample_price_form [OF disjI1, OF conjI, OF refl refl])
  note parts = evaluation_parts [OF e(2)]
  have "pf_completeness (extract_price_facts (stay_of ''a'' 100) (lit 0.6)) = Some ''reported-complete''" by code_simp
  with evaluation_status [OF e(2)] parts(1,2) sample_baseline show thesis
    by (intro that [OF e(1)]) (simp_all only: option.distinct simp_thms)
qed

lemma sample_proper: "proper_peers compare_strings sample_price_input"
proof -
  have "double 90" "double 100" "double 120" using double_of_int [of 90] double_of_int [of 100] double_of_int [of 120] by simp_all
  then have "double_input sample_price_input"
    by (simp add: double_input_def sample_price_input_def stay_of_def price_evidence_def price_fact_def)
  moreover have "reference_member_ids sample_price_input = [''b'', ''c'']" by code_simp
  ultimately show ?thesis by (simp add: proper_peers_def code_units.collation_axioms)
qed

lemma price_baseline_exact_witness:
  "\<exists>e. sample_price sample_price_input = Inr e \<and> bl_median (pe_baseline e) = Some (Fin 105) \<and> distinct (bl_reference_ids (pe_baseline e))"
proof -
  obtain e where e: "sample_price sample_price_input = Inr e" "pe_status e \<noteq> PriceInvalid" "bl_available (pe_baseline e)"
    "bl_median (pe_baseline e) = Some (Fin 105)" by (rule sample_price_Inr)
  from price_baseline_exact [OF e(1,2) sample_proper e(3)] e show ?thesis by (intro exI [of _ e]) blast
qed

lemma price_score_range_witness:
  "\<exists>e s. sample_price sample_price_input = Inr e \<and> pe_score e = Some s \<and> s \<le> Fin 100"
proof -
  obtain e where e: "sample_price sample_price_input = Inr e" "pe_score e \<noteq> None" by (rule sample_price_Inr)
  with price_score_range [OF e(1) sample_math sample_proper] show ?thesis by (cases "pe_score e") auto
qed

lemma cheaper_never_scores_worse_witness:
  "\<exists>e e' s s'. sample_price sample_price_input = Inr e \<and>
     sample_price (with_target_evidence (price_evidence 110) sample_price_input) = Inr e' \<and>
     pe_score e = Some s \<and> pe_score e' = Some s' \<and> s' \<le> s"
proof -
  obtain e where e: "sample_price sample_price_input = Inr e" "pe_status e \<noteq> PriceInvalid" "pe_currency e = Some ''EUR''" "pe_score e \<noteq> None"
    by (rule sample_price_Inr)
  obtain e' where e': "sample_price (with_target_evidence (price_evidence 110) sample_price_input) = Inr e'"
    "e' = price_evaluation_of linear_power step_exponential compare_strings (with_target_evidence (price_evidence 110) sample_price_input)
      (stay_of ''a'' 110) (extract_price_facts (stay_of ''a'' 110) (lit 0.6)) (Fin 110) ''EUR'' (Some (Fin 150)) (lit 0.6) (Fin 2)"
    by (rule sample_price_form [OF disjI2, OF conjI, OF refl refl])
  have n: "pe_status e' \<noteq> PriceInvalid" by (rule evaluation_status [OF e'(2)])
  have cur: "pe_currency e' = pe_currency e" using evaluation_parts(2) [OF e'(2)] e(3) by simp
  have c: "target_cost sample_price_input sample_price_options = Some (Fin 100)"
    "target_cost (with_target_evidence (price_evidence 110) sample_price_input) sample_price_options = Some (Fin 110)"
    by code_simp+
  from cheaper_never_scores_worse [OF e(1,2) e'(1) n cur c _ sample_math sample_proper] e(1,4) e'(1)
  show ?thesis by (cases "pe_score e") auto
qed

lemma budget_evaluation_sound_witness:
  "\<exists>e f. sample_price sample_price_input = Inr e \<and> bg_within (pe_budget e) = Some True \<and> bg_fit (pe_budget e) = Some f \<and> Fin 80 \<le> f"
proof -
  obtain e where e: "sample_price sample_price_input = Inr e" "pe_status e \<noteq> PriceInvalid" "pe_completeness e = Some ''reported-complete''"
    by (rule sample_price_Inr)
  have c: "pi_budget sample_price_input = Some (Fin 150)" "target_cost sample_price_input sample_price_options = Some (Fin 100)"
    by code_simp+
  from budget_evaluation_sound [OF e(1,2) sample_math c] e show ?thesis by auto
qed

lemma price_order_independent_witness:
  "\<exists>e. sample_price (sample_price_input\<lparr>pi_candidates := [stay_of ''c'' 120, stay_of ''b'' 90, stay_of ''a'' 100]\<rparr>) = Inr e \<and>
     pe_score e \<noteq> None"
proof -
  obtain e where e: "sample_price sample_price_input = Inr e" "pe_score e \<noteq> None" by (rule sample_price_Inr)
  have "mset [stay_of ''c'' 120, stay_of ''b'' 90, stay_of ''a'' 100] = mset (pi_candidates sample_price_input)"
    by (simp add: sample_price_input_def)
  from price_order_independent [OF e(1) this] e(2) show ?thesis by blast
qed

end
