(* ===== verification/Ranking.thy ===== *)
theory Ranking
  imports PriceValue ParetoEngine StableHash
begin

text \<open>
  Ranking stability and diversity,
  \<open>src/src/engine-v2/ranking/rankingStabilityDiversityEngine.ts\<close>: the candidates are ordered by
  score, candidates whose scores are equivalent keep the order of the previous ranking, and the
  visible part is filled with a greedy choice that trades a bounded amount of score for variety.
  \<open>Math.log\<close> is the parameter \<open>ln_of\<close>. Of the reports of other engines the records hold the
  properties that this engine reads. The loop that fills the visible part is a
  \<open>partial_function\<close>: that it ends is a theorem.
\<close>

section \<open>Types\<close>

datatype ranking_status = RankingUnavailable | RankingUsable | RankingStrongData

datatype location_status = LocationInvalid | LocationUnavailable | LocationUsable | LocationStrongData

record location_report =
  lr_hotel_id :: id
  lr_status :: location_status
  lr_selected_distance :: "jsnum option"
  lr_confidence :: jsnum
  lr_evidence_ids :: "id list"

record recommendation_report =
  rr_hotel_id :: id
  rr_role :: recommendation_role
  rr_primary_in_group :: bool
  rr_smart_score :: "jsnum option"
  rr_utility_score :: "jsnum option"
  rr_evidence_ids :: "id list"

record ranking_candidate =
  rk_hotel_id :: string
  rk_eligible :: bool
  rk_recommendation :: recommendation_report
  rk_utility :: utility_evaluation
  rk_accommodation :: accommodation_profile
  rk_risk :: risk_assessment
  rk_price :: "price_evaluation option"
  rk_location :: "location_report option"
  rk_provider :: "string option"
  rk_property_key :: "string option"
  rk_offer_key :: "string option"
  rk_exclusion_codes :: "string list"

record ranking_input =
  rin_candidates :: "ranking_candidate list"
  rin_previous :: "string list"

record ranking_options =
  ro_maximum_visible :: "jsnum option"
  ro_score_tolerance :: "jsnum option"
  ro_confidence_tolerance :: "jsnum option"
  ro_coverage_tolerance :: "jsnum option"
  ro_risk_tolerance :: "jsnum option"
  ro_price_ratio :: "jsnum option"
  ro_score_sacrifice :: "jsnum option"
  ro_penalty_scale :: "jsnum option"
  ro_same_category :: "jsnum option"
  ro_same_unit_type :: "jsnum option"
  ro_same_provider :: "jsnum option"
  ro_near_duplicates :: "jsnum option"
  ro_price_band_ratio :: "jsnum option"
  ro_distance_band_km :: "jsnum option"
  ro_strong_confidence :: "jsnum option"
  ro_strong_coverage :: "jsnum option"
  ro_protect_roles :: "bool option"

record ranking_resolved =
  rs_maximum_visible :: jsnum
  rs_score_tolerance :: jsnum
  rs_confidence_tolerance :: jsnum
  rs_coverage_tolerance :: jsnum
  rs_risk_tolerance :: jsnum
  rs_price_ratio :: jsnum
  rs_score_sacrifice :: jsnum
  rs_penalty_scale :: jsnum
  rs_same_category :: jsnum
  rs_same_unit_type :: jsnum
  rs_same_provider :: jsnum
  rs_near_duplicates :: jsnum
  rs_price_band_ratio :: jsnum
  rs_distance_band_km :: jsnum
  rs_strong_confidence :: jsnum
  rs_strong_coverage :: jsnum
  rs_protect_roles :: bool

record stability_band =
  sb_id :: string
  sb_anchor :: id
  sb_members :: "id list"
  sb_minimum_score :: jsnum
  sb_maximum_score :: jsnum
  sb_previous_applied :: bool

record duplicate_group =
  dg_id :: string
  dg_identity_key :: string
  dg_primary :: id
  dg_members :: "id list"
  dg_suppressed :: "id list"

record ranking_candidate_evaluation =
  re_hotel_id :: id
  re_eligible :: bool
  re_base_score :: "jsnum option"
  re_base_rank :: "nat option"
  re_stable_rank :: "nat option"
  re_diversified_rank :: "nat option"
  re_visible_rank :: "nat option"
  re_visible :: bool
  re_rank_band :: rank_band
  re_stability_band :: "string option"
  re_duplicate_group :: "string option"
  re_role_anchor :: bool
  re_penalty :: jsnum
  re_suppressed_by :: "id option"
  re_key :: string
  re_dimension_codes :: "string list"
  re_reason_codes :: "string list"
  re_evidence_ids :: "id list"

record ranking_evaluation =
  rv_status :: ranking_status
  rv_base_ranking :: "id list"
  rv_stable_ranking :: "id list"
  rv_diversified_ranking :: "id list"
  rv_visible :: "id list"
  rv_additional :: "id list"
  rv_excluded :: "id list"
  rv_bands :: "stability_band list"
  rv_duplicate_groups :: "duplicate_group list"
  rv_evaluations :: "ranking_candidate_evaluation list"
  rv_stability_applied :: bool
  rv_diversity_applied :: bool
  rv_reason_codes :: "string list"

record comparable_cost =
  cc_amount :: jsnum
  cc_currency :: string

text \<open>\<open>NormalizedCandidate\<close>, and \<open>StableCandidate\<close>, which adds the ranks to one.\<close>

record ranked_candidate =
  rc_hotel_id :: id
  rc_source :: ranking_candidate
  rc_eligible :: bool
  rc_score :: "jsnum option"
  rc_confidence :: jsnum
  rc_coverage :: jsnum
  rc_risk :: jsnum
  rc_cost :: "comparable_cost option"
  rc_distance :: "jsnum option"
  rc_provider :: "string option"
  rc_category :: accommodation_category
  rc_unit_type :: unit_type
  rc_duplicate_key :: "string option"
  rc_role_anchor :: bool
  rc_exclusion_codes :: "string list"
  rc_evidence_ids :: "id list"

record stable_candidate =
  sc_candidate :: ranked_candidate
  sc_base_rank :: nat
  sc_stable_rank :: nat
  sc_band_id :: string

record diversity_selection =
  ds_candidate :: stable_candidate
  ds_penalty :: jsnum
  ds_dimension_codes :: "string list"
  ds_fallback :: bool

datatype ranking_error =
    RankingHotelIdRequired
  | DuplicateRankingHotelId id
  | RankingHotelIdMismatch id
  | RankingPreferenceMismatch
  | InvalidPreviousHotelId
  | DuplicatePreviousHotelId id

definition primary_role_order :: "recommendation_role list" where
  "primary_role_order = [BestChoice, BestSensibleSaving, WorthwhileComfortUpgrade]"

section \<open>Helpers\<close>

definition normalize_positive_number :: "jsnum option \<Rightarrow> jsnum \<Rightarrow> jsnum" where
  "normalize_positive_number value fallback =
     (case value of Some v \<Rightarrow> if is_fin v \<and> Fin 0 < v then v else fallback | None \<Rightarrow> fallback)"

definition normalize_positive_integer :: "jsnum option \<Rightarrow> jsnum \<Rightarrow> jsnum \<Rightarrow> jsnum" where
  "normalize_positive_integer value fallback maximum =
     (case value of
        Some v \<Rightarrow> if is_fin v then clamp (js_round v) (Fin 1) maximum else fallback
      | None \<Rightarrow> fallback)"

definition resolve_ranking_options :: "ranking_options \<Rightarrow> ranking_resolved" where
  "resolve_ranking_options opts =
     \<lparr>rs_maximum_visible = normalize_positive_integer (ro_maximum_visible opts) (Fin 10) (Fin 100),
      rs_score_tolerance = normalize_non_negative_number (ro_score_tolerance opts) (lit 0.75),
      rs_confidence_tolerance = normalize_ratio (ro_confidence_tolerance opts) (lit 0.08),
      rs_coverage_tolerance = normalize_ratio (ro_coverage_tolerance opts) (lit 0.08),
      rs_risk_tolerance = normalize_non_negative_number (ro_risk_tolerance opts) (Fin 6),
      rs_price_ratio = normalize_ratio (ro_price_ratio opts) (lit 0.03),
      rs_score_sacrifice = normalize_non_negative_number (ro_score_sacrifice opts) (Fin 3),
      rs_penalty_scale = normalize_non_negative_number (ro_penalty_scale opts) (Fin 6),
      rs_same_category = normalize_positive_integer (ro_same_category opts) (Fin 4) (Fin 100),
      rs_same_unit_type = normalize_positive_integer (ro_same_unit_type opts) (Fin 4) (Fin 100),
      rs_same_provider = normalize_positive_integer (ro_same_provider opts) (Fin 4) (Fin 100),
      rs_near_duplicates = normalize_positive_integer (ro_near_duplicates opts) (Fin 1) (Fin 20),
      rs_price_band_ratio = normalize_positive_number (ro_price_band_ratio opts) (lit 0.15),
      rs_distance_band_km = normalize_positive_number (ro_distance_band_km opts) (Fin 1),
      rs_strong_confidence = normalize_ratio (ro_strong_confidence opts) (lit 0.8),
      rs_strong_coverage = normalize_ratio (ro_strong_coverage opts) (lit 0.8),
      rs_protect_roles = (case ro_protect_roles opts of Some b \<Rightarrow> b | None \<Rightarrow> True)\<rparr>"

text \<open>
  \<open>toLowerCase\<close> of a character of the model, and \<open>replace(/\s+/g, " ")\<close>: the flag says that the
  character before was white space.
\<close>

definition lower_char :: "char \<Rightarrow> char" where
  "lower_char c =
     (let n = of_char c :: nat
      in if 65 \<le> n \<and> n \<le> 90 \<or> 192 \<le> n \<and> n \<le> 222 \<and> n \<noteq> 215 then char_of (n + 32) else c)"

fun collapse_spaces :: "bool \<Rightarrow> string \<Rightarrow> string" where
  "collapse_spaces after_space [] = []"
| "collapse_spaces after_space (c # cs) =
     (if js_space c then (if after_space then [] else '' '') @ collapse_spaces True cs
      else c # collapse_spaces False cs)"

definition normalize_optional_key :: "string option \<Rightarrow> string option" where
  "normalize_optional_key value =
     (case value of
        None \<Rightarrow> None
      | Some s \<Rightarrow> if js_blank s then None else Some (collapse_spaces False (map lower_char (js_trim s))))"

definition normalize_provider :: "string option \<Rightarrow> string option" where
  "normalize_provider value = normalize_optional_key value"

definition get_comparable_cost :: "price_evaluation option \<Rightarrow> comparable_cost option" where
  "get_comparable_cost evaluation =
     (case evaluation of
        None \<Rightarrow> None
      | Some e \<Rightarrow>
          if price_evaluation.pe_status e = PriceInvalid \<or> price_evaluation.pe_status e = PriceUnavailable then None
          else
            (case price_evaluation.pe_total_cost e of
               None \<Rightarrow> None
             | Some amount \<Rightarrow>
                 if \<not> is_positive_finite amount then None
                 else
                   (case price_evaluation.pe_currency e of
                      None \<Rightarrow> None
                    | Some text \<Rightarrow>
                        map_option (\<lambda>c. \<lparr>cc_amount = amount, cc_currency = c\<rparr>) (normalize_currency (VString text)))))"

definition get_comparable_distance :: "location_report option \<Rightarrow> jsnum option" where
  "get_comparable_distance evaluation =
     (case evaluation of
        None \<Rightarrow> None
      | Some e \<Rightarrow>
          if lr_status e = LocationInvalid \<or> lr_status e = LocationUnavailable then None
          else
            (case lr_selected_distance e of
               None \<Rightarrow> None
             | Some d \<Rightarrow>
                 if \<not> is_fin d \<or> d < Fin 0 \<or> \<not> is_fin (lr_confidence e) \<or> lr_confidence e < lit 0.55 then None
                 else Some d))"

definition finite_score :: "jsnum option \<Rightarrow> jsnum option" where
  "finite_score value = (case value of Some v \<Rightarrow> if is_fin v then Some (clamp v (Fin 0) (Fin 100)) else None | None \<Rightarrow> None)"

definition get_candidate_score :: "ranking_candidate \<Rightarrow> jsnum option" where
  "get_candidate_score c =
     (case finite_score (rr_smart_score (rk_recommendation c)) of
        Some v \<Rightarrow> Some v
      | None \<Rightarrow>
          (case finite_score (rr_utility_score (rk_recommendation c)) of
             Some v \<Rightarrow> Some v
           | None \<Rightarrow> finite_score (utility_score (rk_utility c))))"

text \<open>
  The signature of all weights, in the order of their names. What \<open>Number(weight).toFixed(6)\<close> prints is kept as data: the
  sign and the millionths, the number itself from \<open>1e21\<close> on, and a name of its own for NaN and for each infinity (the
  signature of the Pareto engine has one word for these three).
\<close>

datatype weight_text = WeightFixed bool int | WeightExact rat | WeightNaN | WeightInfinity | WeightMinusInfinity

fun weight_fixed6 :: "jsnum \<Rightarrow> weight_text" where
  "weight_fixed6 (Fin q) =
     (if 10 ^ 21 \<le> \<bar>q\<bar> then WeightExact q else WeightFixed (q < 0) \<lfloor>\<bar>q\<bar> * 1000000 + 1 / 2\<rfloor>)"
| "weight_fixed6 PosInf = WeightInfinity"
| "weight_fixed6 NegInf = WeightMinusInfinity"
| "weight_fixed6 NaN = WeightNaN"

definition ranking_signature :: "utility_evaluation \<Rightarrow> preference_id \<times> (utility_dimension \<times> weight_text) list" where
  "ranking_signature utility =
     (pref_id (util_preference utility),
      map (\<lambda>d. (d, weight_fixed6 (pref_weights (util_preference utility) d))) (sort_dimensions dimension_codes))"

definition is_primary_role :: "recommendation_role \<Rightarrow> bool" where
  "is_primary_role role \<longleftrightarrow> role \<in> set primary_role_order"

section \<open>Validation\<close>

definition component_hotel_ids :: "ranking_candidate \<Rightarrow> id list" where
  "component_hotel_ids c =
     [util_hotel_id (rk_utility c), rr_hotel_id (rk_recommendation c)] @
     (case rk_price c of None \<Rightarrow> [] | Some e \<Rightarrow> [price_evaluation.pe_hotel_id e]) @
     (case rk_location c of None \<Rightarrow> [] | Some e \<Rightarrow> [lr_hotel_id e])"

fun validate_ranking_candidates ::
  "id list \<Rightarrow> (preference_id \<times> (utility_dimension \<times> weight_text) list) option \<Rightarrow> ranking_candidate list \<Rightarrow>
     ranking_error + unit" where
  "validate_ranking_candidates seen signature [] = Inr ()"
| "validate_ranking_candidates seen signature (c # cs) =
     (let hotel_id = js_trim (rk_hotel_id c); own = ranking_signature (rk_utility c)
      in if hotel_id = [] then Inl RankingHotelIdRequired
         else if hotel_id \<in> set seen then Inl (DuplicateRankingHotelId hotel_id)
         else if list_ex (\<lambda>v. v \<noteq> hotel_id) (component_hotel_ids c) then Inl (RankingHotelIdMismatch hotel_id)
         else if signature \<noteq> None \<and> signature \<noteq> Some own then Inl RankingPreferenceMismatch
         else validate_ranking_candidates (hotel_id # seen) (Some own) cs)"

fun validate_previous_ids :: "id list \<Rightarrow> string list \<Rightarrow> ranking_error + unit" where
  "validate_previous_ids seen [] = Inr ()"
| "validate_previous_ids seen (value # rest) =
     (let hotel_id = js_trim value
      in if hotel_id = [] then Inl InvalidPreviousHotelId
         else if hotel_id \<in> set seen then Inl (DuplicatePreviousHotelId hotel_id)
         else validate_previous_ids (hotel_id # seen) rest)"

definition validate_ranking_input :: "ranking_input \<Rightarrow> ranking_error + unit" where
  "validate_ranking_input input =
     and_then (validate_ranking_candidates [] None (rin_candidates input))
       (\<lambda>_. validate_previous_ids [] (rin_previous input))"

section \<open>Candidates\<close>

definition duplicate_key :: "ranking_candidate \<Rightarrow> string option" where
  "duplicate_key c =
     (case normalize_optional_key (rk_property_key c) of
        Some k \<Rightarrow> Some (''property:'' @ k)
      | None \<Rightarrow> map_option (\<lambda>k. ''offer:'' @ k) (normalize_optional_key (rk_offer_key c)))"

definition normalize_ranking_candidate :: "ranking_candidate \<Rightarrow> ranked_candidate" where
  "normalize_ranking_candidate c =
     (let score = get_candidate_score c;
          utility = rk_utility c;
          risk = clamp (if is_fin (risk_score (rk_risk c)) then risk_score (rk_risk c) else Fin 100) (Fin 0) (Fin 100);
          report = rk_recommendation c
      in \<lparr>rc_hotel_id = js_trim (rk_hotel_id c), rc_source = c,
          rc_eligible =
            (rk_eligible c \<and> util_eligible utility \<and> util_status utility \<noteq> UtilityInvalid \<and>
             util_status utility \<noteq> UtilityUnavailable \<and> score \<noteq> None \<and> risk_level (rk_risk c) \<noteq> RiskHigh \<and>
             risk < Fin 60),
          rc_score = score,
          rc_confidence = normalize_ratio (Some (score_confidence utility)) (Fin 0),
          rc_coverage = normalize_ratio (Some (evidence_coverage utility)) (Fin 0),
          rc_risk = risk,
          rc_cost = get_comparable_cost (rk_price c),
          rc_distance = get_comparable_distance (rk_location c),
          rc_provider = normalize_provider (rk_provider c),
          rc_category = acc_category (rk_accommodation c),
          rc_unit_type = acc_unit_type (rk_accommodation c),
          rc_duplicate_key = duplicate_key c,
          rc_role_anchor = (rr_primary_in_group report \<and> is_primary_role (rr_role report)),
          rc_exclusion_codes = unique_sorted (rk_exclusion_codes c),
          rc_evidence_ids =
            unique_sorted (util_evidence_ids utility @ rr_evidence_ids report @ risk_evidence_ids (rk_risk c) @
              acc_evidence_ids (rk_accommodation c) @
              (case rk_price c of None \<Rightarrow> [] | Some e \<Rightarrow> price_evaluation.pe_evidence_ids e) @
              (case rk_location c of None \<Rightarrow> [] | Some e \<Rightarrow> lr_evidence_ids e))\<rparr>)"

definition score_or_lowest :: "ranked_candidate \<Rightarrow> jsnum" where
  "score_or_lowest c = (case rc_score c of Some v \<Rightarrow> v | None \<Rightarrow> Fin (- 1))"

definition cost_or_infinity :: "ranked_candidate \<Rightarrow> jsnum" where
  "cost_or_infinity c = (case rc_cost c of Some k \<Rightarrow> cc_amount k | None \<Rightarrow> PosInf)"

definition compare_base_candidates :: "ranked_candidate \<Rightarrow> ranked_candidate \<Rightarrow> jsnum" where
  "compare_base_candidates first second =
     (if rc_eligible first \<noteq> rc_eligible second then (if rc_eligible first then Fin (- 1) else Fin 1)
      else
        js_or (score_or_lowest second - score_or_lowest first)
          (js_or (rc_confidence second - rc_confidence first)
            (js_or (rc_coverage second - rc_coverage first)
              (js_or (rc_risk first - rc_risk second)
                (js_or (cost_or_infinity first - cost_or_infinity second)
                  (compare_strings (rc_hotel_id first) (rc_hotel_id second)))))))"

section \<open>Stability bands\<close>

definition costs_equivalent :: "comparable_cost option \<Rightarrow> comparable_cost option \<Rightarrow> jsnum \<Rightarrow> bool" where
  "costs_equivalent first second maximum_ratio =
     (case (first, second) of
        (Some a, Some b) \<Rightarrow>
          cc_currency a = cc_currency b \<and>
          js_div (js_abs (cc_amount a - cc_amount b)) (js_max (js_max (cc_amount a) (cc_amount b)) (Fin 1)) \<le> maximum_ratio
      | _ \<Rightarrow> True)"

definition candidates_equivalent :: "ranking_resolved \<Rightarrow> ranked_candidate \<Rightarrow> ranked_candidate \<Rightarrow> bool" where
  "candidates_equivalent opts anchor c =
     (case (rc_score anchor, rc_score c) of
        (Some a, Some b) \<Rightarrow>
          rc_eligible anchor \<and> rc_eligible c \<and>
          js_abs (a - b) \<le> rs_score_tolerance opts \<and>
          js_abs (rc_confidence anchor - rc_confidence c) \<le> rs_confidence_tolerance opts \<and>
          js_abs (rc_coverage anchor - rc_coverage c) \<le> rs_coverage_tolerance opts \<and>
          js_abs (rc_risk anchor - rc_risk c) \<le> rs_risk_tolerance opts \<and>
          costs_equivalent (rc_cost anchor) (rc_cost c) (rs_price_ratio opts)
      | _ \<Rightarrow> False)"

text \<open>The loop that groups: a candidate joins the last group when it is equivalent to its first member.\<close>

definition group_step :: "('c \<Rightarrow> 'c \<Rightarrow> bool) \<Rightarrow> 'c list list \<Rightarrow> 'c \<Rightarrow> 'c list list" where
  "group_step equivalent grouped c =
     (if grouped = [] \<or> \<not> equivalent (hd (last grouped)) c then grouped @ [[c]]
      else butlast grouped @ [last grouped @ [c]])"

definition group_equivalent :: "ranking_resolved \<Rightarrow> ranked_candidate list \<Rightarrow> ranked_candidate list list" where
  "group_equivalent opts candidates = foldl (group_step (candidates_equivalent opts)) [] candidates"

text \<open>\<open>new Map(entries)\<close>: a later entry of a key replaces the value of the earlier.\<close>

definition map_from :: "('k \<times> 'v) list \<Rightarrow> ('k \<times> 'v) list" where
  "map_from entries = foldl (\<lambda>m (k, v). AList.update k v m) [] entries"

definition previous_order_of :: "string list \<Rightarrow> (id \<times> nat) list" where
  "previous_order_of previous = map_from (map (\<lambda>(i, h). (js_trim h, i)) (enumerate 0 previous))"

definition by_previous :: "(id \<times> nat) list \<Rightarrow> (id \<times> nat) list \<Rightarrow> ranked_candidate \<Rightarrow> ranked_candidate \<Rightarrow> jsnum" where
  "by_previous previous base_order first second =
     (case (map_of previous (rc_hotel_id first), map_of previous (rc_hotel_id second)) of
        (Some p, Some q) \<Rightarrow> Fin (of_nat p) - Fin (of_nat q)
      | (Some p, None) \<Rightarrow> Fin (- 1)
      | (None, Some q) \<Rightarrow> Fin 1
      | (None, None) \<Rightarrow>
          (case map_of base_order (rc_hotel_id first) of None \<Rightarrow> Fin 0 | Some i \<Rightarrow> Fin (of_nat i)) -
          (case map_of base_order (rc_hotel_id second) of None \<Rightarrow> Fin 0 | Some j \<Rightarrow> Fin (of_nat j)))"

definition order_members :: "(id \<times> nat) list \<Rightarrow> ranked_candidate list \<Rightarrow> ranked_candidate list" where
  "order_members previous members =
     js_sort (by_previous previous (map_from (map (\<lambda>(i, m). (rc_hotel_id m, i)) (enumerate 0 members)))) members"

definition band_id :: "ranked_candidate list \<Rightarrow> string" where
  "band_id members = ''stability:'' @ join_with ''|'' (unique_sorted (map rc_hotel_id members))"

text \<open>\<open>Math.min(...values)\<close> and \<open>Math.max(...values)\<close>.\<close>

definition js_minimum :: "jsnum list \<Rightarrow> jsnum" where
  "js_minimum values = foldl js_min PosInf values"

definition js_maximum :: "jsnum list \<Rightarrow> jsnum" where
  "js_maximum values = foldl js_max NegInf values"

definition stability_band_of :: "(id \<times> nat) list \<Rightarrow> ranked_candidate list \<Rightarrow> stability_band" where
  "stability_band_of previous members =
     (let scores = map (\<lambda>m. number_or_zero (rc_score m)) members
      in \<lparr>sb_id = band_id members, sb_anchor = rc_hotel_id (hd members),
          sb_members = map rc_hotel_id (order_members previous members),
          sb_minimum_score = round_to 4 (js_minimum scores), sb_maximum_score = round_to 4 (js_maximum scores),
          sb_previous_applied =
            (1 < length (filter (\<lambda>m. map_of previous (rc_hotel_id m) \<noteq> None) members))\<rparr>)"

text \<open>\<open>findIndex\<close>, of an element that is there.\<close>

fun find_index :: "('a \<Rightarrow> bool) \<Rightarrow> 'a list \<Rightarrow> nat" where
  "find_index P [] = 0"
| "find_index P (x # xs) = (if P x then 0 else Suc (find_index P xs))"

definition create_stability_bands ::
  "ranked_candidate list \<Rightarrow> (id \<times> nat) list \<Rightarrow> ranking_resolved \<Rightarrow> stability_band list \<times> stable_candidate list" where
  "create_stability_bands base_eligible previous opts =
     (let grouped = group_equivalent opts base_eligible;
          ordered = concat (map (\<lambda>members. map (\<lambda>m. (m, band_id members)) (order_members previous members)) grouped)
      in (map (stability_band_of previous) grouped,
          map (\<lambda>(rank, m, b).
                 \<lparr>sc_candidate = m,
                  sc_base_rank = find_index (\<lambda>c. rc_hotel_id c = rc_hotel_id m) base_eligible + 1,
                  sc_stable_rank = rank, sc_band_id = b\<rparr>)
            (enumerate 1 ordered)))"

section \<open>The price of sameness\<close>

text \<open>
  A band as the parts its string is built of: a currency code has three letters and different
  numbers print differently, so equal strings are equal parts.
\<close>

definition get_price_band :: "(jsnum \<Rightarrow> jsnum) \<Rightarrow> jsnum \<Rightarrow> stable_candidate \<Rightarrow> (string \<times> jsnum) option" where
  "get_price_band ln_of ratio c =
     (case rc_cost (sc_candidate c) of
        None \<Rightarrow> None
      | Some k \<Rightarrow>
          let base = ln_of (Fin 1 + ratio)
          in Some (cc_currency k,
               if Fin 0 < base then js_floor (js_div (ln_of (cc_amount k)) base) else js_round (cc_amount k)))"

definition get_distance_band :: "jsnum \<Rightarrow> stable_candidate \<Rightarrow> jsnum option" where
  "get_distance_band band_km c = map_option (\<lambda>d. js_floor (js_div d band_km)) (rc_distance (sc_candidate c))"

definition count_selected_by :: "stable_candidate list \<Rightarrow> (stable_candidate \<Rightarrow> 'k option) \<Rightarrow> 'k option \<Rightarrow> nat" where
  "count_selected_by selected selector value =
     (if value = None then 0 else length (filter (\<lambda>c. selector c = value) selected))"

text \<open>
  What one dimension adds: a penalty when the value was selected before, more when it has reached
  its limit, and the dimension's code when the value is new among selected candidates that have one.
\<close>

definition dimension_effect ::
  "string \<Rightarrow> jsnum \<Rightarrow> (jsnum \<times> jsnum) option \<Rightarrow> (stable_candidate \<Rightarrow> 'k option) \<Rightarrow> stable_candidate \<Rightarrow> stable_candidate list \<Rightarrow>
     jsnum list \<times> string list" where
  "dimension_effect code weight limit selector c selected =
     (case selector c of
        None \<Rightarrow> ([], [])
      | Some _ \<Rightarrow>
          let same = count_selected_by selected selector (selector c)
          in ((if 0 < same then [weight] else []) @
              (case limit of None \<Rightarrow> [] | Some (maximum, extra) \<Rightarrow> if maximum \<le> Fin (of_nat same) then [extra] else []),
              if same = 0 \<and> list_ex (\<lambda>s. selector s \<noteq> None) selected then [code] else []))"

definition is_property_key :: "string option \<Rightarrow> bool" where
  "is_property_key key = (case key of None \<Rightarrow> False | Some k \<Rightarrow> take 9 k = ''property:'')"

definition near_duplicate_count :: "(string \<times> nat) list \<Rightarrow> stable_candidate \<Rightarrow> nat" where
  "near_duplicate_count counts c =
     (case rc_duplicate_key (sc_candidate c) of
        None \<Rightarrow> 0
      | Some k \<Rightarrow> (case map_of counts k of None \<Rightarrow> 0 | Some n \<Rightarrow> n))"

definition exceeds_near_duplicates :: "ranking_resolved \<Rightarrow> (string \<times> nat) list \<Rightarrow> stable_candidate \<Rightarrow> bool" where
  "exceeds_near_duplicates opts counts c \<longleftrightarrow>
     rc_duplicate_key (sc_candidate c) \<noteq> None \<and> rs_near_duplicates opts \<le> Fin (of_nat (near_duplicate_count counts c))"

definition calculate_diversity_selection ::
  "(jsnum \<Rightarrow> jsnum) \<Rightarrow> stable_candidate \<Rightarrow> stable_candidate list \<Rightarrow> (string \<times> nat) list \<Rightarrow> ranking_resolved \<Rightarrow> bool \<Rightarrow>
     diversity_selection option" where
  "calculate_diversity_selection ln_of c selected counts opts allow_fallback =
     (let exceeds = exceeds_near_duplicates opts counts c
      in if exceeds \<and> (is_property_key (rc_duplicate_key (sc_candidate c)) \<or> \<not> allow_fallback) then None
         else
           let category = dimension_effect ''category'' (Fin 1) (Some (rs_same_category opts, Fin 3))
                 (\<lambda>s. Some (rc_category (sc_candidate s))) c selected;
               unit = dimension_effect ''unit-type'' (Fin 1) (Some (rs_same_unit_type opts, Fin 3))
                 (\<lambda>s. Some (rc_unit_type (sc_candidate s))) c selected;
               provider = dimension_effect ''provider'' (lit 0.75) (Some (rs_same_provider opts, lit 2.5))
                 (\<lambda>s. rc_provider (sc_candidate s)) c selected;
               price = dimension_effect ''price-band'' (lit 0.75) None
                 (get_price_band ln_of (rs_price_band_ratio opts)) c selected;
               distance = dimension_effect ''distance-band'' (lit 0.5) None
                 (get_distance_band (rs_distance_band_km opts)) c selected;
               raw_penalty = js_sum (fst category @ fst unit @ fst provider @ fst price @ fst distance @
                 (if exceeds then [Fin 20] else []))
           in Some \<lparr>ds_candidate = c, ds_penalty = round_to 4 (raw_penalty * rs_penalty_scale opts),
                 ds_dimension_codes =
                   unique_sorted (snd category @ snd unit @ snd provider @ snd price @ snd distance),
                 ds_fallback = exceeds\<rparr>)"

section \<open>Filling the visible part\<close>

definition select_role_anchor ::
  "stable_candidate list \<Rightarrow> stable_candidate list \<times> string list \<Rightarrow> recommendation_role \<Rightarrow> stable_candidate list \<times> string list" where
  "select_role_anchor candidates acc role =
     (case acc of (selected, used) \<Rightarrow>
        (case find (\<lambda>c. rc_role_anchor (sc_candidate c) \<and>
                     rr_role (rk_recommendation (rc_source (sc_candidate c))) = role \<and>
                     (case rc_duplicate_key (sc_candidate c) of None \<Rightarrow> True | Some k \<Rightarrow> k \<notin> set used)) candidates of
           None \<Rightarrow> (selected, used)
         | Some c \<Rightarrow>
             (selected @ [c], (case rc_duplicate_key (sc_candidate c) of None \<Rightarrow> [] | Some k \<Rightarrow> [k]) @ used)))"

definition select_role_anchors :: "stable_candidate list \<Rightarrow> ranking_resolved \<Rightarrow> stable_candidate list" where
  "select_role_anchors candidates opts =
     (if \<not> rs_protect_roles opts then []
      else fst (foldl (select_role_anchor candidates) ([], []) primary_role_order))"

record diversity_state =
  dv_selected :: "stable_candidate list"
  dv_counts :: "(string \<times> nat) list"
  dv_metadata :: "(id \<times> diversity_selection) list"
  dv_remaining :: "stable_candidate list"

abbreviation sc_hotel_id :: "stable_candidate \<Rightarrow> id" where
  "sc_hotel_id c \<equiv> rc_hotel_id (sc_candidate c)"

abbreviation sc_score :: "stable_candidate \<Rightarrow> jsnum" where
  "sc_score c \<equiv> score_or_lowest (sc_candidate c)"

definition count_duplicate :: "(string \<times> nat) list \<Rightarrow> stable_candidate \<Rightarrow> (string \<times> nat) list" where
  "count_duplicate counts c =
     (case rc_duplicate_key (sc_candidate c) of
        None \<Rightarrow> counts
      | Some k \<Rightarrow> AList.update k (near_duplicate_count counts c + 1) counts)"

definition initial_state :: "stable_candidate list \<Rightarrow> ranking_resolved \<Rightarrow> diversity_state" where
  "initial_state candidates opts =
     (let selected = select_role_anchors candidates opts;
          ids = map sc_hotel_id selected
      in \<lparr>dv_selected = selected, dv_counts = foldl count_duplicate [] selected,
          dv_metadata = foldl (\<lambda>m c. AList.update (sc_hotel_id c)
              \<lparr>ds_candidate = c, ds_penalty = Fin 0, ds_dimension_codes = [], ds_fallback = False\<rparr> m) [] selected,
          dv_remaining = filter (\<lambda>c. sc_hotel_id c \<notin> set ids) candidates\<rparr>)"

definition by_penalty :: "diversity_selection \<Rightarrow> diversity_selection \<Rightarrow> jsnum" where
  "by_penalty first second =
     js_or (ds_penalty first - ds_penalty second)
       (js_or (sc_score (ds_candidate second) - sc_score (ds_candidate first))
         (js_or (Fin (of_nat (sc_stable_rank (ds_candidate first))) - Fin (of_nat (sc_stable_rank (ds_candidate second))))
           (compare_strings (sc_hotel_id (ds_candidate first)) (sc_hotel_id (ds_candidate second)))))"

fun splice_first :: "('a \<Rightarrow> bool) \<Rightarrow> 'a list \<Rightarrow> 'a list" where
  "splice_first P [] = []"
| "splice_first P (x # xs) = (if P x then xs else x # splice_first P xs)"

definition selectable :: "ranking_resolved \<Rightarrow> diversity_state \<Rightarrow> stable_candidate list" where
  "selectable opts st =
     filter (\<lambda>c. \<not> is_property_key (rc_duplicate_key (sc_candidate c)) \<or>
                 Fin (of_nat (near_duplicate_count (dv_counts st) c)) < rs_near_duplicates opts) (dv_remaining st)"

definition quality_window :: "ranking_resolved \<Rightarrow> diversity_state \<Rightarrow> stable_candidate list" where
  "quality_window opts st =
     (let candidates = selectable opts st;
          highest = js_maximum (map sc_score candidates)
      in filter (\<lambda>c. highest - rs_score_sacrifice opts \<le> sc_score c) candidates)"

definition selections_of ::
  "(jsnum \<Rightarrow> jsnum) \<Rightarrow> ranking_resolved \<Rightarrow> diversity_state \<Rightarrow> bool \<Rightarrow> diversity_selection list" where
  "selections_of ln_of opts st allow_fallback =
     List.map_filter (\<lambda>c. calculate_diversity_selection ln_of c (dv_selected st) (dv_counts st) opts allow_fallback)
       (quality_window opts st)"

definition next_selection ::
  "(jsnum \<Rightarrow> jsnum) \<Rightarrow> ranking_resolved \<Rightarrow> diversity_state \<Rightarrow> diversity_selection option" where
  "next_selection ln_of opts st =
     (let strict = selections_of ln_of opts st False
      in if strict \<noteq> [] then js_first (js_sort by_penalty strict)
         else map_option (\<lambda>s. s\<lparr>ds_fallback := True\<rparr>)
                (js_first (js_sort by_penalty (selections_of ln_of opts st True))))"

definition take_selection :: "diversity_state \<Rightarrow> diversity_selection \<Rightarrow> diversity_state" where
  "take_selection st s =
     (let c = ds_candidate s
      in \<lparr>dv_selected = dv_selected st @ [c], dv_counts = count_duplicate (dv_counts st) c,
          dv_metadata = AList.update (sc_hotel_id c) s (dv_metadata st),
          dv_remaining = splice_first (\<lambda>r. sc_hotel_id r = sc_hotel_id c) (dv_remaining st)\<rparr>)"

text \<open>One round of the loop; \<open>None\<close> when its condition fails or it breaks.\<close>

definition diversity_round ::
  "(jsnum \<Rightarrow> jsnum) \<Rightarrow> ranking_resolved \<Rightarrow> nat \<Rightarrow> diversity_state \<Rightarrow> diversity_state option" where
  "diversity_round ln_of opts candidate_count st =
     (if Fin (of_nat (length (dv_selected st))) < js_min (rs_maximum_visible opts) (Fin (of_nat candidate_count)) \<and>
         dv_remaining st \<noteq> []
      then if selectable opts st = [] then None
           else map_option (take_selection st) (next_selection ln_of opts st)
      else None)"

partial_function (option) run_rounds :: "('s \<Rightarrow> 's option) \<Rightarrow> 's \<Rightarrow> 's option" where
  "run_rounds next_state st = (case next_state st of None \<Rightarrow> Some st | Some st' \<Rightarrow> run_rounds next_state st')"

text \<open>A slice from the start, up to a number that is an integer.\<close>

definition slice_to :: "jsnum \<Rightarrow> 'a list \<Rightarrow> 'a list" where
  "slice_to limit xs = take (nat \<lfloor>fin_val limit\<rfloor>) xs"

definition diversify_candidates ::
  "(jsnum \<Rightarrow> jsnum) \<Rightarrow> stable_candidate list \<Rightarrow> ranking_resolved \<Rightarrow>
     (stable_candidate list \<times> stable_candidate list \<times> (id \<times> diversity_selection) list) option" where
  "diversify_candidates ln_of candidates opts =
     map_option (\<lambda>st.
         let visible = slice_to (rs_maximum_visible opts) (dv_selected st)
         in (visible, filter (\<lambda>c. sc_hotel_id c \<notin> set (map sc_hotel_id visible)) candidates, dv_metadata st))
       (run_rounds (diversity_round ln_of opts (length candidates)) (initial_state candidates opts))"

section \<open>Near duplicates\<close>

definition collect_duplicates :: "stable_candidate list \<Rightarrow> (string \<times> stable_candidate list) list" where
  "collect_duplicates candidates =
     foldl (\<lambda>m c. case rc_duplicate_key (sc_candidate c) of
                None \<Rightarrow> m
              | Some k \<Rightarrow> AList.update k ((case map_of m k of None \<Rightarrow> [] | Some members \<Rightarrow> members) @ [c]) m)
       [] candidates"

definition by_stable_rank :: "stable_candidate \<Rightarrow> stable_candidate \<Rightarrow> jsnum" where
  "by_stable_rank first second =
     js_or (Fin (of_nat (sc_stable_rank first)) - Fin (of_nat (sc_stable_rank second)))
       (compare_strings (sc_hotel_id first) (sc_hotel_id second))"

definition duplicate_group_of :: "id list \<Rightarrow> string \<times> stable_candidate list \<Rightarrow> duplicate_group" where
  "duplicate_group_of visible_ids entry =
     (let ordered = js_sort by_stable_rank (snd entry);
          visible_members = filter (\<lambda>m. sc_hotel_id m \<in> set visible_ids) ordered;
          primary = (case js_first visible_members of Some m \<Rightarrow> m | None \<Rightarrow> hd ordered)
      in \<lparr>dg_id = ''duplicate:'' @ fst entry, dg_identity_key = fst entry, dg_primary = sc_hotel_id primary,
          dg_members = map sc_hotel_id ordered,
          dg_suppressed = map sc_hotel_id (filter (\<lambda>m. sc_hotel_id m \<notin> set visible_ids) ordered)\<rparr>)"

definition create_near_duplicate_groups :: "stable_candidate list \<Rightarrow> id list \<Rightarrow> duplicate_group list" where
  "create_near_duplicate_groups candidates visible_ids =
     map (duplicate_group_of visible_ids)
       (js_sort (\<lambda>a b. compare_strings (fst a) (fst b))
         (filter (\<lambda>(k, members). 1 < length members) (collect_duplicates candidates)))"

definition get_rank_band :: "bool \<Rightarrow> nat option \<Rightarrow> jsnum option \<Rightarrow> rank_band" where
  "get_rank_band eligible visible_rank score =
     (if \<not> eligible then BandExcluded
      else
        (case visible_rank of
           Some r \<Rightarrow> if r \<le> 3 then BandTop else BandStrong
         | None \<Rightarrow> if Fin 65 \<le> number_or_zero score then BandAcceptable else BandWeak))"

section \<open>The evaluation\<close>

definition ranks_of :: "id list \<Rightarrow> (id \<times> nat) list" where
  "ranks_of ids = map_from (map (\<lambda>(i, h). (h, i)) (enumerate 1 ids))"

definition groups_by_hotel :: "duplicate_group list \<Rightarrow> (id \<times> duplicate_group) list" where
  "groups_by_hotel groups = map_from (concat (map (\<lambda>g. map (\<lambda>h. (h, g)) (dg_members g)) groups))"

definition candidate_reasons ::
  "stability_band list \<Rightarrow> ranked_candidate \<Rightarrow> stable_candidate option \<Rightarrow> diversity_selection option \<Rightarrow> nat option \<Rightarrow> id option \<Rightarrow>
     string list" where
  "candidate_reasons bands c found metadata visible_rank suppressed =
     unique_sorted
       (rc_exclusion_codes c @
        [if rc_eligible c then ''ranking-candidate-eligible'' else ''ranking-candidate-excluded''] @
        (case found of
           None \<Rightarrow> []
         | Some s \<Rightarrow>
             (case find (\<lambda>b. sb_id b = sc_band_id s) bands of
                None \<Rightarrow> []
              | Some b \<Rightarrow> if 1 < length (sb_members b) then [''ranking-equivalence-band''] else [])) @
        (case metadata of
           None \<Rightarrow> []
         | Some m \<Rightarrow>
             (if ds_dimension_codes m \<noteq> [] then [''ranking-diversity-contribution''] else []) @
             (if ds_fallback m then [''ranking-near-duplicate-fallback''] else [])) @
        (if rc_role_anchor c \<and> visible_rank \<noteq> None then [''ranking-primary-role-protected''] else []) @
        (if suppressed \<noteq> None then [''ranking-near-duplicate-suppressed''] else []) @
        (if visible_rank \<noteq> None then [''ranking-visible'']
         else if rc_eligible c then [''ranking-additional-result''] else []))"

definition evaluate_ranked_candidate ::
  "stability_band list \<Rightarrow> (id \<times> stable_candidate) list \<Rightarrow> (id \<times> nat) list \<Rightarrow> (id \<times> nat) list \<Rightarrow>
     (id \<times> diversity_selection) list \<Rightarrow> (id \<times> duplicate_group) list \<Rightarrow> ranked_candidate \<Rightarrow> ranking_candidate_evaluation" where
  "evaluate_ranked_candidate bands stables visible_ranks diversified_ranks metadata groups c =
     (let h = rc_hotel_id c;
          found = map_of stables h;
          visible_rank = map_of visible_ranks h;
          selection = map_of metadata h;
          group = map_of groups h;
          suppressed = (if visible_rank = None then map_option dg_primary group else None)
      in \<lparr>re_hotel_id = h, re_eligible = rc_eligible c, re_base_score = map_option (round_to 4) (rc_score c),
          re_base_rank = map_option sc_base_rank found, re_stable_rank = map_option sc_stable_rank found,
          re_diversified_rank = map_of diversified_ranks h, re_visible_rank = visible_rank,
          re_visible = (visible_rank \<noteq> None), re_rank_band = get_rank_band (rc_eligible c) visible_rank (rc_score c),
          re_stability_band = map_option sc_band_id found, re_duplicate_group = map_option dg_id group,
          re_role_anchor = rc_role_anchor c,
          re_penalty = (case selection of None \<Rightarrow> Fin 0 | Some s \<Rightarrow> ds_penalty s),
          re_suppressed_by = suppressed,
          re_key = join_with ''::''
            [''ranking-v2'', (case found of None \<Rightarrow> ''excluded'' | Some s \<Rightarrow> sc_band_id s), h],
          re_dimension_codes = (case selection of None \<Rightarrow> [] | Some s \<Rightarrow> ds_dimension_codes s),
          re_reason_codes = candidate_reasons bands c found selection visible_rank suppressed,
          re_evidence_ids = rc_evidence_ids c\<rparr>)"

definition rank_or_infinity :: "nat option \<Rightarrow> jsnum" where
  "rank_or_infinity rank = (case rank of Some r \<Rightarrow> Fin (of_nat r) | None \<Rightarrow> PosInf)"

definition by_diversified_rank :: "ranking_candidate_evaluation \<Rightarrow> ranking_candidate_evaluation \<Rightarrow> jsnum" where
  "by_diversified_rank first second =
     js_or (rank_or_infinity (re_diversified_rank first) - rank_or_infinity (re_diversified_rank second))
       (compare_strings (re_hotel_id first) (re_hotel_id second))"

definition ranking_reasons ::
  "bool \<Rightarrow> stability_band list \<Rightarrow> bool \<Rightarrow> bool \<Rightarrow> duplicate_group list \<Rightarrow> stable_candidate list \<Rightarrow> string list" where
  "ranking_reasons none_eligible bands stability_applied diversity_applied groups visible =
     unique_sorted
       ([if none_eligible then ''ranking-no-eligible-candidates'' else ''ranking-deterministic-order''] @
        (if list_ex (\<lambda>b. 1 < length (sb_members b)) bands then [''ranking-equivalence-bands-created''] else []) @
        (if stability_applied then [''ranking-previous-order-preserved-within-equivalence''] else []) @
        (if diversity_applied then [''ranking-diversity-applied''] else []) @
        (if groups \<noteq> [] then [''ranking-near-duplicates-grouped''] else []) @
        (if list_ex (\<lambda>c. rc_role_anchor (sc_candidate c)) visible
         then [''ranking-primary-recommendation-roles-protected''] else []))"

text \<open>
  The result from the sorted candidates and the outcome of the loop. \<open>JSON.stringify\<close> of two
  lists of strings gives equal texts only for equal lists.
\<close>

definition ranking_result ::
  "ranking_resolved \<Rightarrow> ranked_candidate list \<Rightarrow> stability_band list \<Rightarrow> stable_candidate list \<Rightarrow> stable_candidate list \<Rightarrow>
     stable_candidate list \<Rightarrow> (id \<times> diversity_selection) list \<Rightarrow> ranking_evaluation" where
  "ranking_result opts normalized bands stables visible additional metadata =
     (let eligible = filter rc_eligible normalized;
          excluded_ids = map rc_hotel_id (filter (\<lambda>c. \<not> rc_eligible c) normalized);
          visible_ids = map sc_hotel_id visible;
          diversified_ids = map sc_hotel_id (visible @ additional) @ excluded_ids;
          groups = create_near_duplicate_groups stables visible_ids;
          evaluations = js_sort by_diversified_rank
            (map (evaluate_ranked_candidate bands (map_from (map (\<lambda>s. (sc_hotel_id s, s)) stables)) (ranks_of visible_ids)
                (ranks_of diversified_ids) metadata (groups_by_hotel groups)) normalized);
          base_ids = map rc_hotel_id normalized;
          stable_ids = map sc_hotel_id stables @ excluded_ids;
          stability_applied = (list_ex sb_previous_applied bands \<and> stable_ids \<noteq> base_ids);
          diversity_applied =
            (visible_ids \<noteq> map sc_hotel_id (slice_to (rs_maximum_visible opts) stables) \<or>
             list_ex (\<lambda>g. dg_suppressed g \<noteq> []) groups);
          strong = (visible \<noteq> [] \<and>
            list_all (\<lambda>c. rs_strong_confidence opts \<le> rc_confidence (sc_candidate c) \<and>
                          rs_strong_coverage opts \<le> rc_coverage (sc_candidate c)) visible)
      in \<lparr>rv_status = (if eligible = [] then RankingUnavailable else if strong then RankingStrongData else RankingUsable),
          rv_base_ranking = base_ids, rv_stable_ranking = stable_ids, rv_diversified_ranking = diversified_ids,
          rv_visible = visible_ids, rv_additional = map sc_hotel_id additional, rv_excluded = excluded_ids,
          rv_bands = bands, rv_duplicate_groups = groups, rv_evaluations = evaluations,
          rv_stability_applied = stability_applied, rv_diversity_applied = diversity_applied,
          rv_reason_codes =
            ranking_reasons (eligible = []) bands stability_applied diversity_applied groups visible\<rparr>)"

definition ranking_outcome ::
  "(jsnum \<Rightarrow> jsnum) \<Rightarrow> ranking_input \<Rightarrow> ranking_resolved \<Rightarrow> ranking_evaluation option" where
  "ranking_outcome ln_of input opts =
     (let normalized = js_sort compare_base_candidates (map normalize_ranking_candidate (rin_candidates input));
          eligible = filter rc_eligible normalized
      in case create_stability_bands eligible (previous_order_of (rin_previous input)) opts of
           (bands, stables) \<Rightarrow>
             map_option (\<lambda>(visible, additional, metadata). ranking_result opts normalized bands stables visible additional metadata)
               (diversify_candidates ln_of stables opts))"

text \<open>The outer option is \<open>None\<close> if the loop does not end.\<close>

definition evaluate_ranking ::
  "(jsnum \<Rightarrow> jsnum) \<Rightarrow> ranking_input \<Rightarrow> ranking_options \<Rightarrow> (ranking_error + ranking_evaluation) option" where
  "evaluate_ranking ln_of input opts =
     (case validate_ranking_input input of
        Inl e \<Rightarrow> Some (Inl e)
      | Inr _ \<Rightarrow> map_option Inr (ranking_outcome ln_of input (resolve_ranking_options opts)))"

end
