(* ===== verification/RankingOrder.thy ===== *)
theory RankingOrder
  imports Ranking
begin

text \<open>
  The order of the ranking engine: its comparators keep the contract of \<open>comparator\<close>, the loop
  that fills the visible part ends for every input, validation accepts exactly the well-formed
  inputs, and the stability bands partition the base order and keep the previous order within.
\<close>

section \<open>Comparators\<close>

lemma js_or_difference_pos:
  assumes "js_wf a" and "js_wf b"
  shows "Fin 0 < js_or (a - b) r \<longleftrightarrow> b < a \<or> a = b \<and> Fin 0 < r"
proof (cases "\<exists>p q. a = Fin p \<and> b = Fin q")
  case True
  then obtain p q where "a = Fin p" "b = Fin q" by blast
  with assms show ?thesis
    using rnd_pos_iff [OF on_grid_diff, of p q] rnd_zero_iff [of p q] by (auto simp: js_or_def)
next
  case False
  with assms show ?thesis by (cases a; cases b) (auto simp: js_or_def minus_jsnum_def uminus_jsnum_def)
qed

lemma wf_trichotomy: "js_wf a \<Longrightarrow> js_wf b \<Longrightarrow> a < b \<or> a = b \<or> b < a"
  by (cases a; cases b) auto

lemma jsnum_less_trans: "a < b \<Longrightarrow> b < c \<Longrightarrow> a < (c::jsnum)"
  by (cases a; cases b; cases c) auto

lemma jsnum_less_asym: "a < b \<Longrightarrow> \<not> b < (a::jsnum)"
  by (cases a; cases b) auto

lemma jsnum_less_irrefl [simp]: "\<not> a < (a::jsnum)"
  by (cases a) auto

text \<open>A sort by a number and, where the numbers are equal, by another comparator.\<close>

lemma comparator_by_number:
  assumes r: "comparator r A" and wf: "\<And>x. x \<in> A \<Longrightarrow> js_wf (f x)"
  shows "comparator (\<lambda>a b. js_or (f a - f b) (r a b)) A"
proof
  fix x y z
  assume xy: "x \<in> A" "y \<in> A"
  note pos = js_or_difference_pos [OF wf wf]
  show "Fin 0 < js_or (f x - f y) (r x y) \<Longrightarrow> \<not> Fin 0 < js_or (f y - f x) (r y x)"
    using comparator.total [OF r xy] xy jsnum_less_asym by (auto simp: pos)
  assume z: "z \<in> A" and le: "\<not> Fin 0 < js_or (f x - f y) (r x y)" "\<not> Fin 0 < js_or (f y - f z) (r y z)"
  from le xy z have "f x < f y \<or> f x = f y \<and> \<not> Fin 0 < r x y" "f y < f z \<or> f y = f z \<and> \<not> Fin 0 < r y z"
    using wf_trichotomy [OF wf wf] by (auto simp: pos)
  then have "f x < f z \<or> f x = f z \<and> \<not> Fin 0 < r x z"
    using jsnum_less_trans comparator.trans [OF r xy z] by metis
  then show "\<not> Fin 0 < js_or (f x - f z) (r x z)"
    using xy z jsnum_less_asym by (auto simp: pos)
qed

lemma difference_flip: "js_wf a \<Longrightarrow> js_wf b \<Longrightarrow> Fin 0 < js_or (b - a) r \<longleftrightarrow> Fin 0 < js_or (js_neg a - js_neg b) r"
  by (cases a; cases b) (auto simp: js_or_def minus_jsnum_def uminus_jsnum_def)

lemma js_wf_neg: "js_wf a \<Longrightarrow> js_wf (js_neg a)"
  using on_grid_int_mult [of _ "-1"] by (cases a) auto

lemma comparator_cong:
  assumes "comparator r A" and "\<And>x y. x \<in> A \<Longrightarrow> y \<in> A \<Longrightarrow> Fin 0 < cmp x y \<longleftrightarrow> Fin 0 < r x y"
  shows "comparator cmp A"
proof
  show "\<And>x y. x \<in> A \<Longrightarrow> y \<in> A \<Longrightarrow> Fin 0 < cmp x y \<Longrightarrow> \<not> Fin 0 < cmp y x"
    by (simp add: assms(2) comparator.total [OF assms(1)])
  show "\<And>x y z. x \<in> A \<Longrightarrow> y \<in> A \<Longrightarrow> z \<in> A \<Longrightarrow> \<not> Fin 0 < cmp x y \<Longrightarrow> \<not> Fin 0 < cmp y z \<Longrightarrow> \<not> Fin 0 < cmp x z"
    by (simp add: assms(2)) (rule comparator.trans [OF assms(1)])
qed

lemma comparator_by_number_descending:
  assumes "comparator r A" and wf: "\<And>x. x \<in> A \<Longrightarrow> js_wf (f x)"
  shows "comparator (\<lambda>a b. js_or (f b - f a) (r a b)) A"
proof (rule comparator_cong)
  show "comparator (\<lambda>a b. js_or (js_neg (f a) - js_neg (f b)) (r a b)) A"
    by (rule comparator_by_number [OF assms(1)]) (simp add: wf js_wf_neg)
  show "Fin 0 < js_or (f y - f x) (r x y) \<longleftrightarrow> Fin 0 < js_or (js_neg (f x) - js_neg (f y)) (r x y)"
    if "x \<in> A" and "y \<in> A" for x y
    using that by (intro difference_flip wf)
qed

lemma comparator_flag_first:
  assumes "comparator r A"
  shows "comparator (\<lambda>a b. if P a \<noteq> P b then (if P a then Fin (- 1) else Fin 1) else r a b) A"
proof
  fix x y z
  assume xy: "x \<in> A" "y \<in> A"
  show "Fin 0 < (if P x \<noteq> P y then (if P x then Fin (- 1) else Fin 1) else r x y) \<Longrightarrow>
     \<not> Fin 0 < (if P y \<noteq> P x then (if P y then Fin (- 1) else Fin 1) else r y x)"
    using comparator.total [OF assms xy] by (cases "P x"; cases "P y") simp_all
  assume z: "z \<in> A"
  show "\<not> Fin 0 < (if P x \<noteq> P y then (if P x then Fin (- 1) else Fin 1) else r x y) \<Longrightarrow>
     \<not> Fin 0 < (if P y \<noteq> P z then (if P y then Fin (- 1) else Fin 1) else r y z) \<Longrightarrow>
     \<not> Fin 0 < (if P x \<noteq> P z then (if P x then Fin (- 1) else Fin 1) else r x z)"
    using comparator.trans [OF assms xy z] by (cases "P x"; cases "P y"; cases "P z") simp_all
qed

lemma comparator_UNIV: "comparator r UNIV \<Longrightarrow> comparator r A"
  unfolding comparator_def by blast

lemma js_wf_of_nat [simp]: "js_wf (Fin (of_nat n))"
  using on_grid_of_int [of "int n"] by simp

text \<open>The numbers of a candidate are doubles; a candidate without a cost counts as infinitely dear.\<close>

definition ranked_wf :: "ranked_candidate \<Rightarrow> bool" where
  "ranked_wf c \<longleftrightarrow>
     js_wf (score_or_lowest c) \<and> js_wf (rc_confidence c) \<and> js_wf (rc_coverage c) \<and> js_wf (rc_risk c) \<and>
     js_wf (cost_or_infinity c)"

interpretation base_order: comparator compare_base_candidates "{c. ranked_wf c}"
  unfolding compare_base_candidates_def
  by (intro comparator_flag_first comparator_by_number comparator_by_number_descending
      comparator_UNIV [OF comparator_by_string]) (simp_all add: ranked_wf_def)

lemma base_order_faithful:
  assumes "ranked_wf x" and "ranked_wf y"
    and "\<not> Fin 0 < compare_base_candidates x y" and "\<not> Fin 0 < compare_base_candidates y x"
  shows "rc_hotel_id x = rc_hotel_id y"
  using assms
  by (auto simp: compare_base_candidates_def ranked_wf_def js_or_difference_pos not_less split: if_splits
      dest: wf_trichotomy)

lemma sort_base_independent:
  assumes "mset xs = mset ys" and "\<forall>x \<in> set xs. ranked_wf x" and "inj_on rc_hotel_id (set xs)"
  shows "js_sort compare_base_candidates xs = js_sort compare_base_candidates ys"
proof (rule base_order.sort_order_independent [OF assms(1)])
  show "set xs \<subseteq> {c. ranked_wf c}" using assms(2) by blast
  show "x = y" if "x \<in> set xs" "y \<in> set xs" "\<not> Fin 0 < compare_base_candidates x y"
    "\<not> Fin 0 < compare_base_candidates y x" for x y
    using that assms(2,3) base_order_faithful [of x y] by (blast dest: inj_onD)
qed

section \<open>Maps from entries\<close>

lemma update_fresh: "k \<notin> fst ` set m \<Longrightarrow> AList.update k v m = m @ [(k, v)]"
  by (induction m) auto

lemma map_from_distinct: "distinct (map fst entries) \<Longrightarrow> map_from entries = entries"
proof -
  have "foldl (\<lambda>m (k, v). AList.update k v m) m entries = m @ entries"
    if "distinct (map fst (m @ entries))" for m
    using that
  proof (induction entries arbitrary: m)
    case (Cons e es)
    obtain k v where e: "e = (k, v)" by fastforce
    with Cons.prems have "AList.update k v m = m @ [(k, v)]" by (intro update_fresh) auto
    with Cons e show ?case by simp
  qed simp
  from this [of "[]"] show "distinct (map fst entries) \<Longrightarrow> map_from entries = entries"
    by (simp add: map_from_def)
qed

lemma map_of_map_from: "map_of (map_from entries) = map_of (rev entries)"
proof -
  have "map_of (foldl (\<lambda>m (k, v). AList.update k v m) m entries) = map_of (rev entries @ m)" for m
  proof (induction entries arbitrary: m)
    case (Cons e es)
    obtain k v where e: "e = (k, v)" by fastforce
    have "map_of (rev es @ AList.update k v m) = map_of (rev es @ (k, v) # m)"
      by (simp add: map_add_def update_conv' fun_eq_iff)
    with Cons e show ?case by simp
  qed simp
  from this [of "[]"] show ?thesis by (simp add: map_from_def)
qed

lemma map_of_enumerate:
  assumes "distinct xs"
  shows "map_of (map (\<lambda>(i, x). (x, i)) (enumerate n xs)) x = Some i \<longleftrightarrow> n \<le> i \<and> i < n + length xs \<and> xs ! (i - n) = x"
  using assms
proof (induction xs arbitrary: n)
  case (Cons y ys)
  show ?case
  proof (cases "y = x")
    case True
    with Cons.prems show ?thesis
      by (auto simp: nth_Cons' in_set_conv_nth)
  next
    case False
    with Cons show ?thesis by (auto simp: nth_Cons' Suc_le_eq)
  qed
qed simp

lemma fst_swap_enumerate [simp]: "map (\<lambda>e. snd e) (enumerate n xs) = xs"
  by (induction xs arbitrary: n) simp_all

lemma ranks_of_Some:
  assumes "distinct ids"
  shows "map_of (ranks_of ids) h = Some r \<longleftrightarrow> 1 \<le> r \<and> r \<le> length ids \<and> ids ! (r - 1) = h"
proof -
  have "map fst (map (\<lambda>(i, h). (h, i)) (enumerate 1 ids)) = ids"
    by (simp add: comp_def case_prod_beta' fst_swap_enumerate)
  then have "map_from (map (\<lambda>(i, h). (h, i)) (enumerate 1 ids)) = map (\<lambda>(i, h). (h, i)) (enumerate 1 ids)"
    using assms by (intro map_from_distinct) (simp only:)
  then show ?thesis using map_of_enumerate [OF assms, of 1 h r] by (auto simp: ranks_of_def)
qed

lemma ranks_of_None: "distinct ids \<Longrightarrow> map_of (ranks_of ids) h = None \<longleftrightarrow> h \<notin> set ids"
proof -
  assume d: "distinct ids"
  have "h \<in> set ids \<longleftrightarrow> (\<exists>r. 1 \<le> r \<and> r \<le> length ids \<and> ids ! (r - 1) = h)"
  proof
    assume "h \<in> set ids"
    then obtain i where "i < length ids" "ids ! i = h" by (auto simp: in_set_conv_nth)
    then have "1 \<le> i + 1 \<and> i + 1 \<le> length ids \<and> ids ! (i + 1 - 1) = h" by simp
    then show "\<exists>r. 1 \<le> r \<and> r \<le> length ids \<and> ids ! (r - 1) = h" by blast
  next
    assume "\<exists>r. 1 \<le> r \<and> r \<le> length ids \<and> ids ! (r - 1) = h"
    then obtain r where "1 \<le> r" "r \<le> length ids" "ids ! (r - 1) = h" by blast
    then have "ids ! (r - 1) \<in> set ids" by (intro nth_mem) simp
    with \<open>ids ! (r - 1) = h\<close> show "h \<in> set ids" by simp
  qed
  then show ?thesis using ranks_of_Some [OF d, of h] by (metis not_None_eq)
qed

section \<open>The loop ends\<close>

lemma run_rounds_ends:
  fixes size_of :: "'s \<Rightarrow> nat"
  assumes "\<And>s t. keeps s \<Longrightarrow> next_state s = Some t \<Longrightarrow> keeps t \<and> size_of t < size_of s" and "keeps s"
  obtains t where "run_rounds next_state s = Some t" and "keeps t" and "next_state t = None"
proof -
  have "\<exists>t. run_rounds next_state s = Some t \<and> keeps t \<and> next_state t = None"
    using assms(2)
  proof (induction s rule: measure_induct_rule [of size_of])
    case (less s)
    show ?case
    proof (cases "next_state s")
      case None
      with less.prems show ?thesis by (simp add: run_rounds.simps [of _ s])
    next
      case (Some t)
      with less assms(1) [of s t] show ?thesis by (simp add: run_rounds.simps [of _ s])
    qed
  qed
  with that show thesis by blast
qed

lemma length_splice_first: "x \<in> set xs \<Longrightarrow> P x \<Longrightarrow> length (splice_first P xs) < length xs"
  by (induction xs) auto

lemma in_map_filter: "y \<in> set (List.map_filter f xs) \<longleftrightarrow> (\<exists>x \<in> set xs. f x = Some y)"
  by (force simp: List.map_filter_def)

lemma selection_candidate:
  "calculate_diversity_selection ln_of c selected counts opts allow = Some s \<Longrightarrow> ds_candidate s = c"
  by (auto simp: calculate_diversity_selection_def Let_def split: if_splits)

lemma selections_of_in:
  "s \<in> set (selections_of ln_of opts st allow) \<Longrightarrow> ds_candidate s \<in> set (quality_window opts st)"
  by (auto simp: selections_of_def in_map_filter dest: selection_candidate)

lemma quality_window_in: "c \<in> set (quality_window opts st) \<Longrightarrow> c \<in> set (selectable opts st)"
  by (simp add: quality_window_def Let_def)

lemma selectable_in: "c \<in> set (selectable opts st) \<Longrightarrow> c \<in> set (dv_remaining st)"
  by (simp add: selectable_def)

lemma next_selection_in:
  assumes "next_selection ln_of opts st = Some s"
  shows "ds_candidate s \<in> set (quality_window opts st)"
proof (cases "selections_of ln_of opts st False = []")
  case False
  with assms have "s \<in> set (selections_of ln_of opts st False)"
    by (auto simp: next_selection_def Let_def dest: js_first_Some_in)
  then show ?thesis by (rule selections_of_in)
next
  case True
  with assms obtain s' where "s' \<in> set (selections_of ln_of opts st True)" "ds_candidate s = ds_candidate s'"
    by (auto simp: next_selection_def Let_def dest!: js_first_Some_in)
  then show ?thesis using selections_of_in by simp
qed

lemma diversity_round_Some:
  "diversity_round ln_of opts n st = Some st' \<longleftrightarrow>
     Fin (of_nat (length (dv_selected st))) < js_min (rs_maximum_visible opts) (Fin (of_nat n)) \<and>
     selectable opts st \<noteq> [] \<and> (\<exists>s. next_selection ln_of opts st = Some s \<and> st' = take_selection st s)"
  by (auto simp: diversity_round_def selectable_def)

lemma diversity_round_shrinks:
  assumes "diversity_round ln_of opts n st = Some st'"
  shows "length (dv_remaining st') < length (dv_remaining st)"
proof -
  from assms obtain s where s: "next_selection ln_of opts st = Some s" "st' = take_selection st s"
    by (auto simp: diversity_round_Some)
  then have "ds_candidate s \<in> set (dv_remaining st)"
    using next_selection_in quality_window_in selectable_in by blast
  with s(2) show ?thesis by (auto simp: take_selection_def Let_def intro: length_splice_first)
qed

lemma ranking_outcome_defined: "\<exists>ev. ranking_outcome ln_of input ro = Some ev"
proof -
  let ?bands = "create_stability_bands (filter rc_eligible
     (js_sort compare_base_candidates (map normalize_ranking_candidate (rin_candidates input))))
     (previous_order_of (rin_previous input)) ro"
  obtain bands stables where b: "?bands = (bands, stables)" by fastforce
  let ?next = "diversity_round ln_of ro (length stables)"
  have "\<And>s t. ?next s = Some t \<Longrightarrow> True \<and> length (dv_remaining t) < length (dv_remaining s)"
    using diversity_round_shrinks by blast
  then obtain st where "run_rounds ?next (initial_state stables ro) = Some st"
    by (rule run_rounds_ends [where keeps = "\<lambda>_. True" and s = "initial_state stables ro"]) auto
  then show ?thesis by (auto simp: ranking_outcome_def Let_def b diversify_candidates_def)
qed

text \<open>C3. The engine returns for every input: the loop that fills the visible part removes a candidate
  from the remaining ones in every round, so it ends, and the result is a value or one of the
  errors of the validation.\<close>

theorem ranking_returns: "\<exists>result. evaluate_ranking ln_of input opts = Some result"
  using ranking_outcome_defined by (auto simp: evaluate_ranking_def split: sum.splits)

section \<open>Validated input\<close>

abbreviation trimmed_id :: "ranking_candidate \<Rightarrow> id" where
  "trimmed_id c \<equiv> js_trim (rk_hotel_id c)"

definition same_preferences :: "ranking_candidate list \<Rightarrow> bool" where
  "same_preferences cs \<longleftrightarrow>
     (\<forall>c \<in> set cs. \<forall>d \<in> set cs. ranking_signature (rk_utility c) = ranking_signature (rk_utility d))"

definition candidate_ids_ok :: "ranking_candidate \<Rightarrow> bool" where
  "candidate_ids_ok c \<longleftrightarrow> trimmed_id c \<noteq> [] \<and> (\<forall>v \<in> set (component_hotel_ids c). v = trimmed_id c)"

lemma validate_ranking_candidates_iff:
  "validate_ranking_candidates seen signature cs = Inr () \<longleftrightarrow>
     distinct (map trimmed_id cs) \<and> (\<forall>c \<in> set cs. trimmed_id c \<notin> set seen \<and> candidate_ids_ok c) \<and>
     same_preferences cs \<and> (\<forall>c \<in> set cs. signature = None \<or> signature = Some (ranking_signature (rk_utility c)))"
proof (induction cs arbitrary: seen signature)
  case (Cons c cs)
  let ?own = "ranking_signature (rk_utility c)"
  have step: "validate_ranking_candidates seen signature (c # cs) = Inr () \<longleftrightarrow>
      trimmed_id c \<notin> set seen \<and> candidate_ids_ok c \<and> (signature = None \<or> signature = Some ?own) \<and>
      validate_ranking_candidates (trimmed_id c # seen) (Some ?own) cs = Inr ()"
    unfolding validate_ranking_candidates.simps Let_def candidate_ids_ok_def list_ex_iff by (cases signature) auto
  have same: "same_preferences (c # cs) \<longleftrightarrow> same_preferences cs \<and> (\<forall>d \<in> set cs. ?own = ranking_signature (rk_utility d))"
    unfolding same_preferences_def set_simps by (metis insert_iff)
  have ids: "distinct (map trimmed_id (c # cs)) \<longleftrightarrow> distinct (map trimmed_id cs) \<and> (\<forall>d \<in> set cs. trimmed_id d \<noteq> trimmed_id c)"
    by (auto simp: image_iff)
  show ?case
    unfolding step Cons same ids
    by (simp only: set_simps ball_simps insert_iff de_Morgan_disj option.distinct option.inject simp_thms) blast
qed (simp add: same_preferences_def)

lemma validate_previous_ids_iff:
  "validate_previous_ids seen previous = Inr () \<longleftrightarrow>
     distinct (map js_trim previous) \<and> (\<forall>h \<in> set previous. js_trim h \<noteq> [] \<and> js_trim h \<notin> set seen)"
  by (induction previous arbitrary: seen) (auto simp: Let_def image_iff)

definition ranking_input_ok :: "ranking_input \<Rightarrow> bool" where
  "ranking_input_ok input \<longleftrightarrow>
     distinct (map trimmed_id (rin_candidates input)) \<and> (\<forall>c \<in> set (rin_candidates input). candidate_ids_ok c) \<and>
     same_preferences (rin_candidates input) \<and> distinct (map js_trim (rin_previous input)) \<and>
     (\<forall>h \<in> set (rin_previous input). js_trim h \<noteq> [])"

lemma validate_ranking_input_iff: "validate_ranking_input input = Inr () \<longleftrightarrow> ranking_input_ok input"
  by (auto simp: validate_ranking_input_def ranking_input_ok_def and_then_Inr_iff validate_ranking_candidates_iff
      validate_previous_ids_iff)

text \<open>The candidates in base order, and what every result is built from.\<close>

definition base_candidates :: "ranking_input \<Rightarrow> ranked_candidate list" where
  "base_candidates input = js_sort compare_base_candidates (map normalize_ranking_candidate (rin_candidates input))"

lemma normalized_fields [simp]:
  "rc_hotel_id (normalize_ranking_candidate c) = trimmed_id c"
  "rc_source (normalize_ranking_candidate c) = c"
  "rc_score (normalize_ranking_candidate c) = get_candidate_score c"
  "rc_duplicate_key (normalize_ranking_candidate c) = duplicate_key c"
  by (simp_all add: normalize_ranking_candidate_def Let_def)

lemma mset_base_candidates: "mset (base_candidates input) = mset (map normalize_ranking_candidate (rin_candidates input))"
  by (simp add: base_candidates_def)

lemma mset_base_ids: "mset (map rc_hotel_id (base_candidates input)) = mset (map trimmed_id (rin_candidates input))"
  using arg_cong [OF mset_base_candidates, of "image_mset rc_hotel_id" input] by (simp add: image_mset.compositionality comp_def)

lemma distinct_base_ids: "ranking_input_ok input \<Longrightarrow> distinct (map rc_hotel_id (base_candidates input))"
  using mset_eq_imp_distinct_iff [OF mset_base_ids [of input]] by (simp add: ranking_input_ok_def)

lemma base_candidates_in: "c \<in> set (base_candidates input) \<longleftrightarrow> (\<exists>d \<in> set (rin_candidates input). c = normalize_ranking_candidate d)"
  by (auto simp: base_candidates_def)

lemma ranking_parts:
  assumes "evaluate_ranking ln_of input opts = Some (Inr ev)"
  obtains bands stables st where "ranking_input_ok input"
    and "create_stability_bands (filter rc_eligible (base_candidates input)) (previous_order_of (rin_previous input))
           (resolve_ranking_options opts) = (bands, stables)"
    and "run_rounds (diversity_round ln_of (resolve_ranking_options opts) (length stables))
           (initial_state stables (resolve_ranking_options opts)) = Some st"
    and "ev = ranking_result (resolve_ranking_options opts) (base_candidates input) bands stables
           (slice_to (rs_maximum_visible (resolve_ranking_options opts)) (dv_selected st))
           (filter (\<lambda>c. sc_hotel_id c \<notin> set (map sc_hotel_id (slice_to (rs_maximum_visible (resolve_ranking_options opts)) (dv_selected st)))) stables)
           (dv_metadata st)"
proof -
  let ?b = "create_stability_bands (filter rc_eligible (base_candidates input)) (previous_order_of (rin_previous input))
           (resolve_ranking_options opts)"
  obtain bands stables where b: "?b = (bands, stables)" by fastforce
  from assms have ok: "ranking_input_ok input"
    by (auto simp: evaluate_ranking_def simp flip: validate_ranking_input_iff split: sum.splits)
  then have "evaluate_ranking ln_of input opts = map_option Inr (ranking_outcome ln_of input (resolve_ranking_options opts))"
    by (simp add: evaluate_ranking_def flip: validate_ranking_input_iff)
  with assms have "ranking_outcome ln_of input (resolve_ranking_options opts) = Some ev" by auto
  with that [OF ok b] show thesis
    by (auto simp: ranking_outcome_def base_candidates_def [symmetric] Let_def b diversify_candidates_def)
qed

section \<open>Stability bands\<close>

text \<open>The grouping, as a recursion: a group is a candidate with those that follow it and are equivalent to it.\<close>

function greedy_groups :: "('c \<Rightarrow> 'c \<Rightarrow> bool) \<Rightarrow> 'c list \<Rightarrow> 'c list list" where
  "greedy_groups equivalent [] = []"
| "greedy_groups equivalent (x # xs) =
     (x # takeWhile (equivalent x) xs) # greedy_groups equivalent (dropWhile (equivalent x) xs)"
  by pat_completeness auto

termination
  by (relation "measure (length \<circ> snd)") (simp_all add: le_imp_less_Suc length_dropWhile_le)

lemma foldl_group_step:
  "foldl (group_step eq) (gs @ [x # ys]) zs = gs @ (x # ys @ takeWhile (eq x) zs) # greedy_groups eq (dropWhile (eq x) zs)"
proof (induction zs arbitrary: gs x ys)
  case (Cons z zs)
  show ?case
  proof (cases "eq x z")
    case True
    with Cons [of gs x "ys @ [z]"] show ?thesis by (simp add: group_step_def butlast_append)
  next
    case False
    with Cons [of "gs @ [x # ys]" z "[]"] show ?thesis by (simp add: group_step_def)
  qed
qed simp

lemma group_step_greedy: "foldl (group_step eq) [] xs = greedy_groups eq xs"
proof (cases xs)
  case (Cons y ys)
  then show ?thesis using foldl_group_step [of eq "[]" y "[]" ys] by (simp add: group_step_def)
qed simp

text \<open>C5. The loop that groups the candidates into stability bands by pushing onto the last group computes the
  greedy partition: a band is a candidate together with the longest run of candidates after it that are
  equivalent to it.\<close>

theorem stability_grouping_greedy: "group_equivalent opts candidates = greedy_groups (candidates_equivalent opts) candidates"
  by (simp add: group_equivalent_def group_step_greedy)

lemma concat_greedy: "concat (greedy_groups eq xs) = xs"
  by (induction eq xs rule: greedy_groups.induct) simp_all

lemma greedy_nonempty: "g \<in> set (greedy_groups eq xs) \<Longrightarrow> g \<noteq> []"
  by (induction eq xs rule: greedy_groups.induct) auto

lemma greedy_equivalent: "g \<in> set (greedy_groups eq xs) \<Longrightarrow> c \<in> set (tl g) \<Longrightarrow> eq (hd g) c"
  by (induction eq xs rule: greedy_groups.induct) (auto dest: set_takeWhileD)

lemma concat_groups: "concat (group_equivalent opts cs) = cs"
  by (simp add: group_equivalent_def group_step_greedy concat_greedy)

lemma group_nonempty: "g \<in> set (group_equivalent opts cs) \<Longrightarrow> g \<noteq> []"
  by (auto simp: group_equivalent_def group_step_greedy dest: greedy_nonempty)

lemma group_members: "g \<in> set (group_equivalent opts cs) \<Longrightarrow> set g \<subseteq> set cs"
  using concat_groups [of opts cs] by (metis UN_upper set_concat)

lemma mset_order_members [simp]: "mset (order_members previous g) = mset g"
  by (simp add: order_members_def)

lemma set_order_members [simp]: "set (order_members previous g) = set g"
  by (metis mset_order_members mset_eq_setD)

lemma stable_bands_fields:
  assumes "create_stability_bands cs previous opts = (bands, stables)"
  shows "bands = map (stability_band_of previous) (group_equivalent opts cs)"
    and "map sc_candidate stables = concat (map (order_members previous) (group_equivalent opts cs))"
    and "map sc_stable_rank stables = [1..<Suc (length cs)]"
    and "\<forall>s \<in> set stables. sc_base_rank s = find_index (\<lambda>c. rc_hotel_id c = sc_hotel_id s) cs + 1"
proof -
  let ?o = "concat (map (\<lambda>g. map (\<lambda>m. (m, band_id g)) (order_members previous g)) (group_equivalent opts cs))"
  from assms have b: "bands = map (stability_band_of previous) (group_equivalent opts cs)"
    and s: "stables = map (\<lambda>(rank, m, b). \<lparr>sc_candidate = m,
                  sc_base_rank = find_index (\<lambda>c. rc_hotel_id c = rc_hotel_id m) cs + 1,
                  sc_stable_rank = rank, sc_band_id = b\<rparr>) (enumerate 1 ?o)"
    by (simp_all add: create_stability_bands_def Let_def)
  show "bands = map (stability_band_of previous) (group_equivalent opts cs)" by (rule b)
  have "map sc_candidate stables = map fst (map snd (enumerate 1 ?o))"
    unfolding s map_map by (intro map_cong refl) (simp add: case_prod_beta)
  also have "\<dots> = map fst ?o" by (simp only: map_snd_enumerate)
  also have "\<dots> = concat (map (order_members previous) (group_equivalent opts cs))"
    by (simp add: map_concat comp_def)
  finally show c: "map sc_candidate stables = concat (map (order_members previous) (group_equivalent opts cs))" .
  have "mset (concat (map (order_members previous) gs)) = mset (concat gs)" for gs
    by (induction gs) simp_all
  then have "length (concat (map (order_members previous) gs)) = length (concat gs)" for gs
    using mset_eq_length by blast
  then have "length stables = length cs"
    using arg_cong [OF c, of length] by (simp add: concat_groups del: length_concat)
  moreover have "map sc_stable_rank stables = map fst (enumerate 1 ?o)"
    by (simp add: s comp_def case_prod_beta)
  then have "map sc_stable_rank stables = [1..<1 + length ?o]" by (simp del: length_concat)
  moreover have "length stables = length ?o" by (simp add: s del: length_concat)
  ultimately show "map sc_stable_rank stables = [1..<Suc (length cs)]" by (simp del: length_concat)
  show "\<forall>s \<in> set stables. sc_base_rank s = find_index (\<lambda>c. rc_hotel_id c = sc_hotel_id s) cs + 1"
    by (auto simp: s)
qed

lemma mset_stables:
  assumes "create_stability_bands cs previous opts = (bands, stables)"
  shows "mset (map sc_candidate stables) = mset cs"
proof -
  have "mset (concat (map (order_members previous) gs)) = mset (concat gs)" for gs
    by (induction gs) simp_all
  then show ?thesis by (simp add: stable_bands_fields(2) [OF assms] concat_groups del: mset_concat mset_map)
qed

lemma mset_stable_ids:
  assumes "create_stability_bands cs previous opts = (bands, stables)"
  shows "mset (map sc_hotel_id stables) = mset (map rc_hotel_id cs)"
  using arg_cong [OF mset_stables [OF assms], of "image_mset rc_hotel_id"] by (simp add: image_mset.compositionality comp_def)

subsection \<open>The order within a band\<close>

definition position_in :: "'a list \<Rightarrow> 'a \<Rightarrow> nat option" where
  "position_in xs x = (if x \<in> set xs then Some (find_index (\<lambda>y. y = x) xs) else None)"

lemma find_index_less: "x \<in> set xs \<Longrightarrow> P x \<Longrightarrow> find_index P xs < length xs \<and> P (xs ! find_index P xs)"
  by (induction xs) auto

lemma find_index_nth: "distinct xs \<Longrightarrow> i < length xs \<Longrightarrow> find_index (\<lambda>y. y = xs ! i) xs = i"
  by (induction xs arbitrary: i) (auto simp: nth_Cons split: nat.splits)

lemma position_in_Some: "distinct xs \<Longrightarrow> position_in xs x = Some i \<longleftrightarrow> i < length xs \<and> xs ! i = x"
  using find_index_less [of x xs "\<lambda>y. y = x"] find_index_nth [of xs i] by (auto simp: position_in_def)

lemma map_of_positions:
  assumes "distinct xs"
  shows "map_of (map_from (map (\<lambda>(i, x). (x, i)) (enumerate 0 xs))) x = position_in xs x"
proof -
  have "map fst (map (\<lambda>(i, x). (x, i)) (enumerate 0 xs)) = xs" by (simp add: comp_def case_prod_beta')
  then have m: "map_from (map (\<lambda>(i, x). (x, i)) (enumerate 0 xs)) = map (\<lambda>(i, x). (x, i)) (enumerate 0 xs)"
    using assms by (intro map_from_distinct) (simp only:)
  show ?thesis
    unfolding m
  proof (rule option.expand)
    show "(map_of (map (\<lambda>(i, x). (x, i)) (enumerate 0 xs)) x = None) = (position_in xs x = None)"
      by (simp add: map_of_eq_None_iff image_image case_prod_beta position_in_def)
        (metis fst_swap_enumerate list.set_map)
    show "map_of (map (\<lambda>(i, x). (x, i)) (enumerate 0 xs)) x \<noteq> None \<Longrightarrow> position_in xs x \<noteq> None \<Longrightarrow>
        the (map_of (map (\<lambda>(i, x). (x, i)) (enumerate 0 xs)) x) = the (position_in xs x)"
      using map_of_enumerate [OF assms, of 0 x] position_in_Some [OF assms, of x] by fastforce
  qed
qed

lemma enumerate_map: "map (\<lambda>(i, x). (f x, i)) (enumerate n xs) = map (\<lambda>(i, y). (y, i)) (enumerate n (map f xs))"
  by (induction xs arbitrary: n) simp_all

lemma previous_position:
  assumes "distinct (map js_trim previous)"
  shows "map_of (previous_order_of previous) h = position_in (map js_trim previous) h"
  unfolding previous_order_of_def enumerate_map [where f = js_trim] by (rule map_of_positions [OF assms])

text \<open>Members of the previous ranking come first, at their position there; the others follow in base order.\<close>

definition band_position :: "string list \<Rightarrow> ranked_candidate list \<Rightarrow> ranked_candidate \<Rightarrow> nat \<times> nat" where
  "band_position previous g m =
     (case position_in (map js_trim previous) (rc_hotel_id m) of
        Some p \<Rightarrow> (0, p)
      | None \<Rightarrow> (1, find_index (\<lambda>c. rc_hotel_id c = rc_hotel_id m) g))"

definition position_before :: "nat \<times> nat \<Rightarrow> nat \<times> nat \<Rightarrow> bool" where
  "position_before a b \<longleftrightarrow> fst a < fst b \<or> fst a = fst b \<and> snd a < snd b"

lemma difference_of_nat_pos: "Fin 0 < Fin (of_nat p) - Fin (of_nat q) \<longleftrightarrow> q < p"
  using sub_pos_iff [OF js_wf_of_nat js_wf_of_nat, of p q] by simp

lemma find_index_id: "find_index (\<lambda>c. f c = x) g = find_index (\<lambda>y. y = x) (map f g)"
  by (induction g) simp_all

lemma base_position:
  assumes "distinct (map rc_hotel_id g)" and "m \<in> set g"
  shows "map_of (map_from (map (\<lambda>(i, m). (rc_hotel_id m, i)) (enumerate 0 g))) (rc_hotel_id m) =
     Some (find_index (\<lambda>c. rc_hotel_id c = rc_hotel_id m) g)"
  unfolding enumerate_map [where f = rc_hotel_id] map_of_positions [OF assms(1)] using assms(2) by (simp add: position_in_def find_index_id [where f = rc_hotel_id])

lemma by_previous_pos:
  assumes "distinct (map js_trim previous)" and "distinct (map rc_hotel_id g)" and "x \<in> set g" and "y \<in> set g"
  shows "Fin 0 < by_previous (previous_order_of previous) (map_from (map (\<lambda>(i, m). (rc_hotel_id m, i)) (enumerate 0 g))) x y \<longleftrightarrow>
     position_before (band_position previous g y) (band_position previous g x)"
  unfolding by_previous_def previous_position [OF assms(1)] base_position [OF assms(2,3)] base_position [OF assms(2,4)]
  by (cases "position_in (map js_trim previous) (rc_hotel_id x)"; cases "position_in (map js_trim previous) (rc_hotel_id y)")
    (simp_all add: band_position_def position_before_def difference_of_nat_pos del: minus_Fin)

lemma by_previous_comparator:
  assumes "distinct (map js_trim previous)" and "distinct (map rc_hotel_id g)"
  shows "comparator (by_previous (previous_order_of previous) (map_from (map (\<lambda>(i, m). (rc_hotel_id m, i)) (enumerate 0 g)))) (set g)"
proof
  fix x y z
  assume xy: "x \<in> set g" "y \<in> set g"
  note pos = by_previous_pos [OF assms]
  let ?by = "by_previous (previous_order_of previous) (map_from (map (\<lambda>(i, m). (rc_hotel_id m, i)) (enumerate 0 g)))"
  show "Fin 0 < ?by x y \<Longrightarrow> \<not> Fin 0 < ?by y x"
    unfolding pos [OF xy] pos [OF xy(2,1)] by (auto simp: position_before_def)
  assume z: "z \<in> set g"
  show "\<not> Fin 0 < ?by x y \<Longrightarrow> \<not> Fin 0 < ?by y z \<Longrightarrow> \<not> Fin 0 < ?by x z"
    unfolding pos [OF xy] pos [OF xy(2) z] pos [OF xy(1) z] by (auto simp: position_before_def)
qed

lemma band_position_inj:
  assumes "distinct (map js_trim previous)" and "distinct (map rc_hotel_id g)" and "x \<in> set g" and "y \<in> set g"
    and "band_position previous g x = band_position previous g y"
  shows "x = y"
proof -
  have "rc_hotel_id x = rc_hotel_id y"
  proof (cases "position_in (map js_trim previous) (rc_hotel_id x)")
    case (Some p)
    with assms(5) have "position_in (map js_trim previous) (rc_hotel_id y) = Some p"
      by (auto simp: band_position_def split: option.splits)
    with Some position_in_Some [OF assms(1)] show ?thesis by metis
  next
    case None
    with assms(5) have "find_index (\<lambda>c. rc_hotel_id c = rc_hotel_id x) g = find_index (\<lambda>c. rc_hotel_id c = rc_hotel_id y) g"
      by (auto simp: band_position_def split: option.splits)
    with find_index_less [OF assms(3), of "\<lambda>c. rc_hotel_id c = rc_hotel_id x"]
      find_index_less [OF assms(4), of "\<lambda>c. rc_hotel_id c = rc_hotel_id y"] show ?thesis by metis
  qed
  with assms(2-4) show ?thesis by (metis distinct_map inj_onD)
qed

lemma order_members_sorted:
  assumes "distinct (map js_trim previous)" and "distinct (map rc_hotel_id g)"
  shows "sorted_wrt (\<lambda>x y. position_before (band_position previous g x) (band_position previous g y))
     (order_members (previous_order_of previous) g)"
proof -
  let ?by = "by_previous (previous_order_of previous) (map_from (map (\<lambda>(i, m). (rc_hotel_id m, i)) (enumerate 0 g)))"
  let ?o = "order_members (previous_order_of previous) g"
  have "sorted_wrt (comparator.not_after ?by) ?o"
    unfolding order_members_def by (rule comparator.sorted_sort [OF by_previous_comparator [OF assms]]) simp
  then have "\<forall>i j. i < j \<and> j < length ?o \<longrightarrow> \<not> Fin 0 < ?by (?o ! i) (?o ! j)"
    by (simp add: sorted_wrt_iff_nth_less comparator.not_after_def [OF by_previous_comparator [OF assms]])
  moreover have "distinct ?o"
    using assms(2) mset_eq_imp_distinct_iff [OF mset_order_members] by (metis distinct_map)
  then have "\<forall>i j. i < j \<and> j < length ?o \<longrightarrow> ?o ! i \<noteq> ?o ! j" by (auto simp: nth_eq_iff_index_eq)
  moreover have "\<forall>i. i < length ?o \<longrightarrow> ?o ! i \<in> set g" by (metis nth_mem set_order_members)
  ultimately have "position_before (band_position previous g (?o ! i)) (band_position previous g (?o ! j))"
    if "i < j" and "j < length ?o" for i j
  proof -
    have m: "?o ! i \<in> set g" "?o ! j \<in> set g" using that \<open>\<forall>i. i < length ?o \<longrightarrow> ?o ! i \<in> set g\<close> by auto
    have "\<not> position_before (band_position previous g (?o ! j)) (band_position previous g (?o ! i))"
      using that \<open>\<forall>i j. i < j \<and> j < length ?o \<longrightarrow> \<not> Fin 0 < ?by (?o ! i) (?o ! j)\<close>
      unfolding by_previous_pos [OF assms m, symmetric] by blast
    moreover have "?o ! i \<noteq> ?o ! j" using that \<open>\<forall>i j. i < j \<and> j < length ?o \<longrightarrow> ?o ! i \<noteq> ?o ! j\<close> by blast
    then have "band_position previous g (?o ! i) \<noteq> band_position previous g (?o ! j)"
      using band_position_inj [OF assms m] by blast
    ultimately show ?thesis by (auto simp: position_before_def prod_eq_iff)
  qed
  then show ?thesis unfolding sorted_wrt_iff_nth_less by blast
qed

text \<open>C4. A stability band holds candidates equivalent to its first, in the order of the previous
  ranking: two members that were ranked before keep their order, they precede the members
  that are new, and the new ones keep the base order. The bands partition the base order.\<close>

theorem stability_band_order:
  assumes "distinct (map js_trim previous)" and "distinct (map rc_hotel_id candidates)"
    and "create_stability_bands candidates (previous_order_of previous) opts = (bands, stables)"
  shows "\<exists>groups. concat groups = candidates \<and>
     map sc_candidate stables = concat (map (order_members (previous_order_of previous)) groups) \<and>
     map sb_members bands = map (map rc_hotel_id \<circ> order_members (previous_order_of previous)) groups \<and>
     list_all (\<lambda>g. g \<noteq> [] \<and> list_all (candidates_equivalent opts (hd g)) (tl g) \<and>
        mset (order_members (previous_order_of previous) g) = mset g \<and>
        sorted_wrt (\<lambda>x y. position_before (band_position previous g x) (band_position previous g y))
          (order_members (previous_order_of previous) g)) groups"
proof (intro exI conjI)
  let ?gs = "group_equivalent opts candidates"
  show "concat ?gs = candidates" by (rule concat_groups)
  show "map sc_candidate stables = concat (map (order_members (previous_order_of previous)) ?gs)"
    by (rule stable_bands_fields(2) [OF assms(3)])
  show "map sb_members bands = map (map rc_hotel_id \<circ> order_members (previous_order_of previous)) ?gs"
    by (simp add: stable_bands_fields(1) [OF assms(3)] stability_band_of_def Let_def)
  have "distinct (map rc_hotel_id g)" if "g \<in> set ?gs" for g
    using that assms(2) concat_groups [of opts candidates] by (metis distinct_concat_iff map_concat image_eqI list.set_map)
  moreover have "list_all (candidates_equivalent opts (hd g)) (tl g)" if "g \<in> set ?gs" for g
    using that greedy_equivalent [of g] by (auto simp: list_all_iff group_equivalent_def group_step_greedy)
  ultimately show "list_all (\<lambda>g. g \<noteq> [] \<and> list_all (candidates_equivalent opts (hd g)) (tl g) \<and>
        mset (order_members (previous_order_of previous) g) = mset g \<and>
        sorted_wrt (\<lambda>x y. position_before (band_position previous g x) (band_position previous g y))
          (order_members (previous_order_of previous) g)) ?gs"
    using group_nonempty order_members_sorted [OF assms(1)] unfolding list_all_iff by simp
qed

end
