(* ===== verification/RankingDiversity.thy ===== *)
theory RankingDiversity
  imports RankingOrder
begin

text \<open>
  What the visible part of a ranking promises. The invariant \<open>diversity_inv\<close> of the loop says that
  every choice was free and scored within the sacrifice of the best free candidate; from it follow the
  bounds on near duplicates and on the loss of score, that the visible part is filled, that role anchors
  keep their place, and that the lists and the evaluations of a result agree.
\<close>

section \<open>Limits and scores\<close>

lemma positive_integer_nat:
  assumes "1 \<le> f" and "f \<le> m"
  shows "\<exists>n. normalize_positive_integer v (Fin (of_nat f)) (Fin (of_nat m)) = Fin (of_nat n) \<and> 1 \<le> n \<and> n \<le> m"
proof (cases "\<exists>q. v = Some (Fin q)")
  case True
  then obtain q where v: "v = Some (Fin q)" by blast
  define k where "k = \<lfloor>q + 1/2\<rfloor>"
  have "clamp (Fin (of_int k)) (Fin 1) (Fin (of_nat m)) = Fin (of_nat (nat (min (max k 1) (int m))))"
  proof -
    have "of_int k < (1::rat) \<longleftrightarrow> k < 1" "(of_nat m :: rat) = of_int (int m)" by simp_all
    then show ?thesis
      using assms by (simp add: clamp_def js_min_def js_max_def min_def max_def)
  qed
  moreover have "1 \<le> nat (min (max k 1) (int m))" "nat (min (max k 1) (int m)) \<le> m" using assms by linarith+
  moreover have "normalize_positive_integer v (Fin (of_nat f)) (Fin (of_nat m)) = clamp (Fin (of_int k)) (Fin 1) (Fin (of_nat m))"
    by (simp add: normalize_positive_integer_def v k_def)
  ultimately show ?thesis by metis
next
  case False
  then have "normalize_positive_integer v (Fin (of_nat f)) (Fin (of_nat m)) = Fin (of_nat f)"
    by (auto simp: normalize_positive_integer_def is_fin_iff split: option.splits)
  with assms show ?thesis by blast
qed

definition visible_limit :: "ranking_options \<Rightarrow> nat" where
  "visible_limit opts = nat \<lfloor>fin_val (rs_maximum_visible (resolve_ranking_options opts))\<rfloor>"

definition duplicate_limit :: "ranking_options \<Rightarrow> nat" where
  "duplicate_limit opts = nat \<lfloor>fin_val (rs_near_duplicates (resolve_ranking_options opts))\<rfloor>"

lemma resolved_limits:
  "rs_maximum_visible (resolve_ranking_options opts) = Fin (of_nat (visible_limit opts))"
  "1 \<le> visible_limit opts" "visible_limit opts \<le> 100"
  "rs_near_duplicates (resolve_ranking_options opts) = Fin (of_nat (duplicate_limit opts))"
  "1 \<le> duplicate_limit opts" "duplicate_limit opts \<le> 20"
proof -
  obtain n where "rs_maximum_visible (resolve_ranking_options opts) = Fin (of_nat n)" "1 \<le> n" "n \<le> 100"
    using positive_integer_nat [of 10 100 "ro_maximum_visible opts"] by (auto simp: resolve_ranking_options_def)
  then show "rs_maximum_visible (resolve_ranking_options opts) = Fin (of_nat (visible_limit opts))"
    "1 \<le> visible_limit opts" "visible_limit opts \<le> 100" by (simp_all add: visible_limit_def)
  obtain n where "rs_near_duplicates (resolve_ranking_options opts) = Fin (of_nat n)" "1 \<le> n" "n \<le> 20"
    using positive_integer_nat [of 1 20 "ro_near_duplicates opts"] by (auto simp: resolve_ranking_options_def)
  then show "rs_near_duplicates (resolve_ranking_options opts) = Fin (of_nat (duplicate_limit opts))"
    "1 \<le> duplicate_limit opts" "duplicate_limit opts \<le> 20" by (simp_all add: duplicate_limit_def)
qed

lemma score_sacrifice_form:
  obtains s where "rs_score_sacrifice (resolve_ranking_options opts) = Fin s" and "0 \<le> s"
proof (cases "rs_score_sacrifice (resolve_ranking_options opts)")
  case (Fin s)
  moreover have "Fin 0 \<le> rs_score_sacrifice (resolve_ranking_options opts)"
    by (simp add: resolve_ranking_options_def normalize_non_negative_bounds)
  ultimately show thesis using that by simp
qed (auto simp: resolve_ranking_options_def normalize_non_negative_number_def is_fin_iff split: option.splits if_splits)

lemma finite_score_range: "finite_score v = Some s \<Longrightarrow> \<exists>q. s = Fin q \<and> 0 \<le> q \<and> q \<le> 100"
  by (auto simp: finite_score_def clamp_def js_min_def js_max_def is_fin_iff split: option.splits if_splits)

lemma candidate_score_range: "get_candidate_score c = Some s \<Longrightarrow> \<exists>q. s = Fin q \<and> 0 \<le> q \<and> q \<le> 100"
  by (auto simp: get_candidate_score_def dest: finite_score_range split: option.splits)

lemma eligible_score:
  assumes "c \<in> set (base_candidates input)" and "rc_eligible c"
  obtains q where "rc_score c = Some (Fin q)" and "score_or_lowest c = Fin q" and "0 \<le> q" and "q \<le> 100"
proof -
  from assms(1) obtain d where c: "c = normalize_ranking_candidate d" by (auto simp: base_candidates_in)
  with assms(2) have "get_candidate_score d \<noteq> None" by (simp add: normalize_ranking_candidate_def Let_def)
  then obtain s where s: "get_candidate_score d = Some s" by blast
  with candidate_score_range [OF s] that c show thesis by (auto simp: score_or_lowest_def)
qed

lemma js_maximum_Fin: "js_maximum (map Fin (q # qs)) = Fin (Max (set (q # qs)))"
proof -
  have "foldl js_max (Fin q) (map Fin qs) = Fin (Max (set (q # qs)))" for q
  proof (induction qs arbitrary: q)
    case (Cons r rs)
    have "js_max (Fin q) (Fin r) = Fin (max q r)" by (simp add: js_max_def max_def)
    moreover have "Max (set (max q r # rs)) = Max (set (q # r # rs))"
      by (cases rs) (simp_all add: max.assoc)
    ultimately show ?case using Cons [of "max q r"] by simp
  qed simp
  moreover have "js_max NegInf (Fin q) = Fin q" by (simp add: js_max_def)
  ultimately show ?thesis by (simp add: js_maximum_def)
qed

lemma js_maximum_finite:
  assumes "xs \<noteq> []" and "\<forall>x \<in> set xs. \<exists>q. x = Fin q"
  shows "js_maximum xs \<in> set xs" and "\<forall>x \<in> set xs. x \<le> js_maximum xs"
proof -
  from assms(2) have "xs = map Fin (map fin_val xs)" by (induction xs) auto
  with assms(1) obtain q qs where xs: "xs = map Fin (q # qs)" by (metis list.exhaust list.simps(8))
  have "Max (set (q # qs)) \<in> set (q # qs)" by (rule Max_in) simp_all
  then show "js_maximum xs \<in> set xs" unfolding xs js_maximum_Fin by (simp only: set_map image_eqI)
  show "\<forall>x \<in> set xs. x \<le> js_maximum xs" unfolding xs js_maximum_Fin by (auto simp del: list.map)
qed

lemma difference_Fin_mono: "Fin a \<le> Fin b \<Longrightarrow> Fin a - Fin s \<le> Fin b - Fin s"
  by (simp add: rnd_mono)

section \<open>Counting near duplicates\<close>

definition key_count :: "stable_candidate list \<Rightarrow> string \<Rightarrow> nat" where
  "key_count cs k = length (filter (\<lambda>c. rc_duplicate_key (sc_candidate c) = Some k) cs)"

lemma key_count_simps [simp]:
  "key_count [] k = 0"
  "key_count (cs @ ds) k = key_count cs k + key_count ds k"
  "key_count (c # cs) k = (if rc_duplicate_key (sc_candidate c) = Some k then 1 else 0) + key_count cs k"
  by (simp_all add: key_count_def)

definition counts_of :: "(string \<times> nat) list \<Rightarrow> string \<Rightarrow> nat" where
  "counts_of counts k = (case map_of counts k of None \<Rightarrow> 0 | Some n \<Rightarrow> n)"

lemma near_duplicate_count_alt:
  "near_duplicate_count counts c = (case rc_duplicate_key (sc_candidate c) of None \<Rightarrow> 0 | Some k \<Rightarrow> counts_of counts k)"
  by (simp add: near_duplicate_count_def counts_of_def split: option.split)

lemma counts_of_count_duplicate:
  "counts_of (count_duplicate counts c) k = counts_of counts k + (if rc_duplicate_key (sc_candidate c) = Some k then 1 else 0)"
  by (auto simp: count_duplicate_def counts_of_def near_duplicate_count_def update_conv' split: option.splits)

lemma counts_of_selected: "counts_of (foldl count_duplicate counts cs) k = counts_of counts k + key_count cs k"
  by (induction cs arbitrary: counts) (simp_all add: counts_of_count_duplicate)

text \<open>A property whose near-duplicate limit the selected candidates have reached.\<close>

definition saturated :: "nat \<Rightarrow> stable_candidate list \<Rightarrow> stable_candidate \<Rightarrow> bool" where
  "saturated limit selected c =
     (case rc_duplicate_key (sc_candidate c) of
        None \<Rightarrow> False
      | Some k \<Rightarrow> is_property_key (Some k) \<and> limit \<le> key_count selected k)"

lemma selectable_iff:
  assumes "rs_near_duplicates opts = Fin (of_nat limit)" and "\<forall>k. counts_of (dv_counts st) k = key_count (dv_selected st) k"
  shows "c \<in> set (selectable opts st) \<longleftrightarrow> c \<in> set (dv_remaining st) \<and> \<not> saturated limit (dv_selected st) c"
proof -
  have "Fin (of_nat n) < Fin (of_nat limit) \<longleftrightarrow> n < limit" for n by simp
  then show ?thesis
    using assms by (cases "rc_duplicate_key (sc_candidate c)")
      (auto simp: selectable_def saturated_def near_duplicate_count_alt is_property_key_def not_less)
qed

section \<open>The anchors\<close>

definition can_anchor :: "recommendation_role \<Rightarrow> string list \<Rightarrow> stable_candidate \<Rightarrow> bool" where
  "can_anchor role used c \<longleftrightarrow>
     rc_role_anchor (sc_candidate c) \<and> rr_role (rk_recommendation (rc_source (sc_candidate c))) = role \<and>
     (case rc_duplicate_key (sc_candidate c) of None \<Rightarrow> True | Some k \<Rightarrow> k \<notin> set used)"

lemma select_anchors_snoc:
  assumes "foldl (select_role_anchor candidates) ([], []) roles = (selected, used)"
  shows "foldl (select_role_anchor candidates) ([], []) (roles @ [role]) =
     (case find (can_anchor role used) candidates of
        None \<Rightarrow> (selected, used)
      | Some c \<Rightarrow> (selected @ [c], (case rc_duplicate_key (sc_candidate c) of None \<Rightarrow> [] | Some k \<Rightarrow> [k]) @ used))"
proof -
  have "can_anchor role used = (\<lambda>c. rc_role_anchor (sc_candidate c) \<and>
     rr_role (rk_recommendation (rc_source (sc_candidate c))) = role \<and>
     (case rc_duplicate_key (sc_candidate c) of None \<Rightarrow> True | Some k \<Rightarrow> k \<notin> set used))"
    by (simp add: can_anchor_def fun_eq_iff)
  with assms show ?thesis by (simp add: select_role_anchor_def [of candidates "(selected, used)"])
qed

lemma anchors_invariant:
  assumes "distinct roles" and "foldl (select_role_anchor candidates) ([], []) roles = (selected, used)"
  shows "set selected \<subseteq> set candidates \<and> distinct selected \<and> length selected \<le> length roles \<and>
    (\<forall>c \<in> set selected. rc_role_anchor (sc_candidate c) \<and> rr_role (rk_recommendation (rc_source (sc_candidate c))) \<in> set roles) \<and>
    (\<forall>k. key_count selected k \<le> 1) \<and> (\<forall>k. k \<in> set used \<longleftrightarrow> 0 < key_count selected k)"
  using assms
proof (induction roles arbitrary: selected used rule: rev_induct)
  case (snoc role roles)
  obtain sel us where f: "foldl (select_role_anchor candidates) ([], []) roles = (sel, us)" by fastforce
  note IH = snoc.IH [OF _ f]
  show ?case
  proof (cases "find (can_anchor role us) candidates")
    case None
    with snoc.prems select_anchors_snoc [OF f] have "selected = sel" "used = us" by simp_all
    with IH snoc.prems(1) show ?thesis by auto
  next
    case (Some c)
    with snoc.prems select_anchors_snoc [OF f] have s: "selected = sel @ [c]"
      "used = (case rc_duplicate_key (sc_candidate c) of None \<Rightarrow> [] | Some k \<Rightarrow> [k]) @ us"
      by simp_all
    from Some have "c \<in> set candidates" "can_anchor role us c" by (auto simp: find_Some_iff)
    then have c: "c \<in> set candidates" "rc_role_anchor (sc_candidate c)"
      "rr_role (rk_recommendation (rc_source (sc_candidate c))) = role"
      "\<forall>k. rc_duplicate_key (sc_candidate c) = Some k \<longrightarrow> k \<notin> set us"
      by (auto simp: can_anchor_def)
    with IH snoc.prems(1) have "c \<notin> set sel" by auto
    with IH snoc.prems(1) c show ?thesis
      unfolding s by (cases "rc_duplicate_key (sc_candidate c)") auto
  qed
qed simp

lemma role_anchors:
  "set (select_role_anchors cs opts) \<subseteq> set cs" "distinct (select_role_anchors cs opts)"
  "length (select_role_anchors cs opts) \<le> 3"
  "\<forall>c \<in> set (select_role_anchors cs opts). rc_role_anchor (sc_candidate c)"
  "key_count (select_role_anchors cs opts) k \<le> 1"
proof -
  obtain selected used where f: "foldl (select_role_anchor cs) ([], []) primary_role_order = (selected, used)" by fastforce
  have "distinct primary_role_order" "length primary_role_order = 3" by (simp_all add: primary_role_order_def)
  with anchors_invariant [OF _ f]
  show "set (select_role_anchors cs opts) \<subseteq> set cs" "distinct (select_role_anchors cs opts)"
    "length (select_role_anchors cs opts) \<le> 3" "\<forall>c \<in> set (select_role_anchors cs opts). rc_role_anchor (sc_candidate c)"
    "key_count (select_role_anchors cs opts) k \<le> 1"
    unfolding select_role_anchors_def f by simp_all
qed

lemma anchor_covered:
  assumes "c \<in> set candidates" and "rc_role_anchor (sc_candidate c)"
    and "rr_role (rk_recommendation (rc_source (sc_candidate c))) \<in> set roles" and "distinct roles"
    and "foldl (select_role_anchor candidates) ([], []) roles = (selected, used)"
  shows "\<exists>d \<in> set selected.
    rr_role (rk_recommendation (rc_source (sc_candidate d))) = rr_role (rk_recommendation (rc_source (sc_candidate c))) \<or>
    rc_duplicate_key (sc_candidate d) = rc_duplicate_key (sc_candidate c) \<and> rc_duplicate_key (sc_candidate c) \<noteq> None"
  using assms(3-5)
proof (induction roles arbitrary: selected used rule: rev_induct)
  case (snoc role roles)
  obtain sel us where f: "foldl (select_role_anchor candidates) ([], []) roles = (sel, us)" by fastforce
  let ?role = "\<lambda>c. rr_role (rk_recommendation (rc_source (sc_candidate c)))"
  have sub: "set sel \<subseteq> set selected"
    using snoc.prems(3) select_anchors_snoc [OF f] by (auto split: option.splits)
  show ?case
  proof (cases "?role c = role")
    case False
    with snoc.prems have "?role c \<in> set roles" "distinct roles" by auto
    from snoc.IH [OF this f] sub show ?thesis by blast
  next
    case role: True
    show ?thesis
    proof (cases "find (can_anchor role us) candidates")
      case None
      then have "\<not> can_anchor role us c" using assms(1) by (auto simp: find_None_iff)
      with role assms(2) obtain k where k: "rc_duplicate_key (sc_candidate c) = Some k" "k \<in> set us"
        by (auto simp: can_anchor_def split: option.splits)
      have "distinct roles" using snoc.prems(2) by simp
      with anchors_invariant [OF _ f] k have "0 < key_count sel k" by blast
      then obtain d where "d \<in> set sel" "rc_duplicate_key (sc_candidate d) = Some k"
        by (auto simp: key_count_def filter_empty_conv)
      with k sub show ?thesis by auto
    next
      case (Some d)
      with snoc.prems(3) select_anchors_snoc [OF f] have "d \<in> set selected" by auto
      moreover from Some have "?role d = role" by (auto simp: find_Some_iff can_anchor_def)
      ultimately show ?thesis using role by auto
    qed
  qed
qed simp

section \<open>The greedy choice\<close>

text \<open>
  Every candidate chosen after the anchors was free to be chosen, and scored at least as much as any
  other free candidate less the sacrifice.
\<close>

definition chosen_well ::
  "jsnum \<Rightarrow> nat \<Rightarrow> stable_candidate list \<Rightarrow> stable_candidate list \<Rightarrow> stable_candidate list \<Rightarrow> bool" where
  "chosen_well sacrifice limit candidates anchors rest \<longleftrightarrow>
     (\<forall>i < length rest. \<not> saturated limit (anchors @ take i rest) (rest ! i) \<and>
        (\<forall>c \<in> set candidates. c \<notin> set (anchors @ take i rest) \<longrightarrow> \<not> saturated limit (anchors @ take i rest) c \<longrightarrow>
           sc_score c - sacrifice \<le> sc_score (rest ! i)))"

definition diversity_inv ::
  "jsnum \<Rightarrow> nat \<Rightarrow> stable_candidate list \<Rightarrow> stable_candidate list \<Rightarrow> diversity_state \<Rightarrow> bool" where
  "diversity_inv sacrifice limit candidates anchors st \<longleftrightarrow>
     mset (dv_selected st) + mset (dv_remaining st) = mset candidates \<and>
     (\<forall>k. counts_of (dv_counts st) k = key_count (dv_selected st) k) \<and>
     (\<exists>rest. dv_selected st = anchors @ rest \<and> chosen_well sacrifice limit candidates anchors rest)"

lemma chosen_well_snoc:
  "chosen_well sac limit cs as (rest @ [c]) \<longleftrightarrow>
     chosen_well sac limit cs as rest \<and> \<not> saturated limit (as @ rest) c \<and>
     (\<forall>d \<in> set cs. d \<notin> set (as @ rest) \<longrightarrow> \<not> saturated limit (as @ rest) d \<longrightarrow> sc_score d - sac \<le> sc_score c)"
  unfolding chosen_well_def by (simp add: All_less_Suc nth_append conj_commute cong: conj_cong)

lemma property_count_bound:
  assumes "chosen_well sac limit cs as rest" and "1 \<le> limit" and "\<forall>k. key_count as k \<le> 1" and "is_property_key (Some k)"
  shows "key_count (as @ rest) k \<le> limit"
  using assms(1)
proof (induction rest rule: rev_induct)
  case Nil
  have "key_count as k \<le> 1" using assms(3) by blast
  with assms(2) show ?case by simp
next
  case (snoc c rest)
  then have le: "key_count (as @ rest) k \<le> limit" and ns: "\<not> saturated limit (as @ rest) c"
    by (simp_all add: chosen_well_snoc)
  show ?case
  proof (cases "rc_duplicate_key (sc_candidate c) = Some k")
    case True
    with ns assms(4) have "key_count (as @ rest) k < limit" by (simp add: saturated_def)
    then show ?thesis using True by simp
  next
    case False
    with le show ?thesis by simp
  qed
qed

lemma mset_splice_first:
  "distinct (map f xs) \<Longrightarrow> c \<in> set xs \<Longrightarrow> add_mset c (mset (splice_first (\<lambda>r. f r = f c) xs)) = mset xs"
proof (induction xs)
  case (Cons x xs)
  show ?case
  proof (cases "f x = f c")
    case True
    with Cons.prems have "x = c" by (auto simp: image_iff)
    then show ?thesis by simp
  next
    case False
    with Cons show ?thesis by (auto simp: add_mset_commute)
  qed
qed simp

lemma distinct_part:
  assumes "mset xs + mset ys = mset zs" and "distinct (map f zs)"
  shows "distinct (map f ys)" and "set xs \<inter> set ys = {}" and "set xs \<union> set ys = set zs" and "distinct (map f xs)"
proof -
  from assms(1) have m: "mset zs = mset (xs @ ys)" by simp
  then have "mset (map f zs) = mset (map f (xs @ ys))" by (simp only: mset_map)
  with assms(2) have d: "distinct (map f (xs @ ys))" by (metis mset_eq_imp_distinct_iff)
  then show "distinct (map f ys)" "distinct (map f xs)" by simp_all
  from d have "distinct (xs @ ys)" by (metis distinct_map)
  then show "set xs \<inter> set ys = {}" by simp
  show "set xs \<union> set ys = set zs" using mset_eq_setD [OF m] by simp
qed

lemma initial_state_inv:
  assumes "distinct (map sc_hotel_id candidates)"
  shows "diversity_inv sac limit candidates (select_role_anchors candidates opts) (initial_state candidates opts)"
proof -
  let ?as = "select_role_anchors candidates opts"
  let ?in = "\<lambda>c. sc_hotel_id c \<in> set (map sc_hotel_id ?as)"
  have sub: "set ?as \<subseteq> set candidates" and d: "distinct ?as" by (rule role_anchors)+
  have "set (filter ?in candidates) = set ?as"
    using sub assms by (auto simp: distinct_map dest: inj_onD)
  moreover have "distinct (filter ?in candidates)" using assms by (simp add: distinct_map)
  ultimately have "mset (filter ?in candidates) = mset ?as"
    using d set_eq_iff_mset_eq_distinct by blast
  then have "mset ?as + mset (filter (\<lambda>c. \<not> ?in c) candidates) = mset candidates"
    by (metis multiset_partition mset_filter)
  moreover have "counts_of [] k = 0" for k by (simp add: counts_of_def)
  ultimately show ?thesis
    by (simp add: diversity_inv_def initial_state_def Let_def counts_of_selected chosen_well_def)
qed

lemma diversity_round_inv:
  assumes "distinct (map sc_hotel_id candidates)" and "\<forall>c \<in> set candidates. \<exists>q. sc_score c = Fin q"
    and lim: "rs_near_duplicates opts = Fin (of_nat limit)" and sac: "rs_score_sacrifice opts = Fin s"
    and inv: "diversity_inv (Fin s) limit candidates as st"
    and round: "diversity_round ln_of opts n st = Some st'"
  shows "diversity_inv (Fin s) limit candidates as st'"
proof -
  from round obtain sel where sel: "next_selection ln_of opts st = Some sel" "st' = take_selection st sel"
    by (auto simp: diversity_round_Some)
  define c where "c = ds_candidate sel"
  have win: "c \<in> set (quality_window opts st)" using sel(1) by (auto simp: c_def dest: next_selection_in)
  from inv obtain rest where m: "mset (dv_selected st) + mset (dv_remaining st) = mset candidates"
    and counts: "\<forall>k. counts_of (dv_counts st) k = key_count (dv_selected st) k"
    and rest: "dv_selected st = as @ rest" "chosen_well (Fin s) limit candidates as rest"
    by (auto simp: diversity_inv_def)
  note parts = distinct_part [OF m assms(1)]
  note selectable = selectable_iff [OF lim counts]
  have c: "c \<in> set (dv_remaining st)" "\<not> saturated limit (as @ rest) c"
    using quality_window_in [OF win] selectable rest(1) by auto
  have "sc_score d - Fin s \<le> sc_score c" if d: "d \<in> set candidates" "d \<notin> set (as @ rest)" "\<not> saturated limit (as @ rest) d" for d
  proof -
    have "d \<in> set (dv_remaining st)" using d(1,2) parts(3) rest(1) by auto
    with d(3) have ds: "d \<in> set (selectable opts st)" using selectable rest(1) by simp
    have fin: "\<forall>x \<in> set (map sc_score (selectable opts st)). \<exists>q. x = Fin q"
      using assms(2) selectable parts(3) by auto
    define h where "h = js_maximum (map sc_score (selectable opts st))"
    have din: "sc_score d \<in> set (map sc_score (selectable opts st))" using ds by (simp only: set_map image_eqI)
    then have ne: "map sc_score (selectable opts st) \<noteq> []" by (metis empty_iff empty_set)
    have "h \<in> set (map sc_score (selectable opts st))"
      unfolding h_def by (rule js_maximum_finite(1) [OF ne fin])
    have le: "sc_score d \<le> h"
      unfolding h_def using js_maximum_finite(2) [OF ne fin] din by blast
    with \<open>h \<in> _\<close> fin obtain a b where "h = Fin a" "sc_score d = Fin b" using assms(2) d(1) by blast
    with le have "sc_score d - Fin s \<le> h - Fin s" by (simp only: difference_Fin_mono)
    also have "\<dots> \<le> sc_score c" using win by (simp add: quality_window_def Let_def h_def sac)
    finally show ?thesis .
  qed
  with rest(2) c(2) have "chosen_well (Fin s) limit candidates as (rest @ [c])" by (simp add: chosen_well_snoc)
  moreover have "mset (dv_selected st') + mset (dv_remaining st') = mset candidates"
    unfolding m [symmetric] mset_splice_first [OF parts(1) c(1), symmetric]
    by (simp add: sel(2) take_selection_def Let_def c_def [symmetric])
  moreover have "counts_of (dv_counts st') k = key_count (dv_selected st') k" for k
    using counts by (simp add: sel(2) take_selection_def Let_def c_def [symmetric] counts_of_count_duplicate)
  moreover have "dv_selected st' = as @ rest @ [c]"
    using rest(1) by (simp add: sel(2) take_selection_def Let_def c_def [symmetric])
  ultimately show ?thesis unfolding diversity_inv_def by blast
qed

lemma final_state:
  assumes "distinct (map sc_hotel_id candidates)" and "\<forall>c \<in> set candidates. \<exists>q. sc_score c = Fin q"
    and "rs_near_duplicates opts = Fin (of_nat limit)" and "rs_score_sacrifice opts = Fin s"
    and "run_rounds (diversity_round ln_of opts n) (initial_state candidates opts) = Some st"
  shows "diversity_inv (Fin s) limit candidates (select_role_anchors candidates opts) st"
    and "diversity_round ln_of opts n st = None"
proof -
  let ?inv = "diversity_inv (Fin s) limit candidates (select_role_anchors candidates opts)"
  have step: "?inv t' \<and> length (dv_remaining t') < length (dv_remaining t)"
    if "?inv t" and "diversity_round ln_of opts n t = Some t'" for t t'
    using diversity_round_inv [OF assms(1-4) that] diversity_round_shrinks [OF that(2)] by blast
  obtain t where "run_rounds (diversity_round ln_of opts n) (initial_state candidates opts) = Some t"
    and "?inv t" and "diversity_round ln_of opts n t = None"
    by (rule run_rounds_ends [of ?inv "diversity_round ln_of opts n" "\<lambda>t. length (dv_remaining t)", OF step initial_state_inv [OF assms(1)]])
  with assms(5) show "?inv st" "diversity_round ln_of opts n st = None" by auto
qed

text \<open>A round finds a candidate as long as one is free: the best of the free candidates lies in the window.\<close>

lemma next_selection_exists:
  assumes fin: "\<forall>c \<in> set (dv_remaining st). \<exists>q. sc_score c = Fin q \<and> double q" and "selectable opts st \<noteq> []"
    and lim: "rs_near_duplicates opts = Fin (of_nat limit)" and sac: "rs_score_sacrifice opts = Fin s" "0 \<le> s"
    and counts: "\<forall>k. counts_of (dv_counts st) k = key_count (dv_selected st) k"
  shows "next_selection ln_of opts st \<noteq> None"
proof -
  define h where "h = js_maximum (map sc_score (selectable opts st))"
  have "\<forall>x \<in> set (map sc_score (selectable opts st)). \<exists>q. x = Fin q" using fin selectable_in by fastforce
  then have "h \<in> set (map sc_score (selectable opts st))"
    unfolding h_def using assms(2) by (intro js_maximum_finite) simp_all
  then obtain c where c: "c \<in> set (selectable opts st)" "sc_score c = h" by auto
  with fin selectable_in obtain q where q: "h = Fin q" "double q" by metis
  have "h - Fin s \<le> h" using sac(2) q by (simp add: rnd_le_double)
  with c have win: "c \<in> set (quality_window opts st)"
    by (simp add: quality_window_def Let_def h_def [symmetric] sac(1))
  have "\<not> (exceeds_near_duplicates opts (dv_counts st) c \<and> is_property_key (rc_duplicate_key (sc_candidate c)))"
  proof -
    have "\<not> saturated limit (dv_selected st) c" using c(1) selectable_iff [OF lim counts] by simp
    moreover have "Fin (of_nat limit) \<le> Fin (of_nat n) \<longleftrightarrow> limit \<le> n" for n by simp
    ultimately show ?thesis
      using counts by (cases "rc_duplicate_key (sc_candidate c)")
        (auto simp: exceeds_near_duplicates_def saturated_def near_duplicate_count_alt lim)
  qed
  then have "calculate_diversity_selection ln_of c (dv_selected st) (dv_counts st) opts True \<noteq> None"
    by (auto simp: calculate_diversity_selection_def Let_def)
  then obtain sel where "calculate_diversity_selection ln_of c (dv_selected st) (dv_counts st) opts True = Some sel" by blast
  with win have "sel \<in> set (selections_of ln_of opts st True)" unfolding selections_of_def in_map_filter by blast
  then have "selections_of ln_of opts st True \<noteq> []" by (metis empty_iff empty_set)
  moreover have "js_first (js_sort by_penalty ss) \<noteq> None" if "ss \<noteq> []" for ss using that by simp
  ultimately show ?thesis by (simp only: next_selection_def Let_def option.map_disc_iff split: if_splits) blast
qed

section \<open>Results\<close>

lemma ranking_result_fields:
  "rv_base_ranking (ranking_result opts normalized bands stables visible additional metadata) = map rc_hotel_id normalized"
  "rv_stable_ranking (ranking_result opts normalized bands stables visible additional metadata) =
     map sc_hotel_id stables @ map rc_hotel_id (filter (\<lambda>c. \<not> rc_eligible c) normalized)"
  "rv_diversified_ranking (ranking_result opts normalized bands stables visible additional metadata) =
     map sc_hotel_id (visible @ additional) @ map rc_hotel_id (filter (\<lambda>c. \<not> rc_eligible c) normalized)"
  "rv_visible (ranking_result opts normalized bands stables visible additional metadata) = map sc_hotel_id visible"
  "rv_additional (ranking_result opts normalized bands stables visible additional metadata) = map sc_hotel_id additional"
  "rv_excluded (ranking_result opts normalized bands stables visible additional metadata) =
     map rc_hotel_id (filter (\<lambda>c. \<not> rc_eligible c) normalized)"
  "rv_duplicate_groups (ranking_result opts normalized bands stables visible additional metadata) =
     create_near_duplicate_groups stables (map sc_hotel_id visible)"
  "rv_evaluations (ranking_result opts normalized bands stables visible additional metadata) =
     js_sort by_diversified_rank
       (map (evaluate_ranked_candidate bands (map_from (map (\<lambda>s. (sc_hotel_id s, s)) stables))
          (ranks_of (map sc_hotel_id visible))
          (ranks_of (map sc_hotel_id (visible @ additional) @ map rc_hotel_id (filter (\<lambda>c. \<not> rc_eligible c) normalized)))
          metadata (groups_by_hotel (create_near_duplicate_groups stables (map sc_hotel_id visible)))) normalized)"
  "rv_diversity_applied (ranking_result opts normalized bands stables visible additional metadata) \<longleftrightarrow>
     map sc_hotel_id visible \<noteq> map sc_hotel_id (slice_to (rs_maximum_visible opts) stables) \<or>
     list_ex (\<lambda>g. dg_suppressed g \<noteq> []) (create_near_duplicate_groups stables (map sc_hotel_id visible))"
  unfolding ranking_result_def Let_def by (simp_all only: ranking_evaluation.simps)

lemma slice_to_limit: "slice_to (rs_maximum_visible (resolve_ranking_options opts)) xs = take (visible_limit opts) xs"
  by (simp add: slice_to_def visible_limit_def)

lemma stables_eligible:
  assumes "create_stability_bands (filter rc_eligible (base_candidates input)) previous opts = (bands, stables)"
    and "c \<in> set stables"
  shows "sc_candidate c \<in> set (base_candidates input)" and "rc_eligible (sc_candidate c)"
proof -
  have "sc_candidate c \<in> set (map sc_candidate stables)" using assms(2) by simp
  then have "sc_candidate c \<in> set (filter rc_eligible (base_candidates input))"
    using mset_eq_setD [OF mset_stables [OF assms(1)]] by simp
  then show "sc_candidate c \<in> set (base_candidates input)" "rc_eligible (sc_candidate c)" by simp_all
qed

lemma ranking_state:
  assumes "evaluate_ranking ln_of input opts = Some (Inr ev)"
  obtains bands stables visible additional st s where "ranking_input_ok input"
    and "create_stability_bands (filter rc_eligible (base_candidates input)) (previous_order_of (rin_previous input))
           (resolve_ranking_options opts) = (bands, stables)"
    and "ev = ranking_result (resolve_ranking_options opts) (base_candidates input) bands stables visible additional (dv_metadata st)"
    and "visible = take (visible_limit opts) (dv_selected st)"
    and "additional = filter (\<lambda>c. sc_hotel_id c \<notin> set (map sc_hotel_id visible)) stables"
    and "rs_score_sacrifice (resolve_ranking_options opts) = Fin s" and "0 \<le> s"
    and "diversity_inv (Fin s) (duplicate_limit opts) stables (select_role_anchors stables (resolve_ranking_options opts)) st"
    and "diversity_round ln_of (resolve_ranking_options opts) (length stables) st = None"
    and "distinct (map sc_hotel_id stables)"
proof -
  let ?ro = "resolve_ranking_options opts"
  from ranking_parts [OF assms] obtain bands stables st where ok: "ranking_input_ok input"
    and b: "create_stability_bands (filter rc_eligible (base_candidates input)) (previous_order_of (rin_previous input)) ?ro = (bands, stables)"
    and run: "run_rounds (diversity_round ln_of ?ro (length stables)) (initial_state stables ?ro) = Some st"
    and ev: "ev = ranking_result ?ro (base_candidates input) bands stables
           (slice_to (rs_maximum_visible ?ro) (dv_selected st))
           (filter (\<lambda>c. sc_hotel_id c \<notin> set (map sc_hotel_id (slice_to (rs_maximum_visible ?ro) (dv_selected st)))) stables)
           (dv_metadata st)" by blast
  obtain s where s: "rs_score_sacrifice ?ro = Fin s" "0 \<le> s" by (rule score_sacrifice_form)
  have "distinct (map rc_hotel_id (filter rc_eligible (base_candidates input)))"
    using distinct_base_ids [OF ok] by (rule distinct_map_filter)
  then have d: "distinct (map sc_hotel_id stables)"
    using mset_eq_imp_distinct_iff [OF mset_stable_ids [OF b]] by blast
  have fin: "\<forall>c \<in> set stables. \<exists>q. sc_score c = Fin q"
    using stables_eligible [OF b] eligible_score by metis
  note final = final_state [OF d fin resolved_limits(4) s(1) run]
  show thesis by (rule that [OF ok b ev [unfolded slice_to_limit] refl refl s final d])
qed

lemma visible_part:
  assumes "diversity_inv sac limit stables as st" and "distinct (map sc_hotel_id stables)"
    and "visible = take n (dv_selected st)" and "additional = filter (\<lambda>c. sc_hotel_id c \<notin> set (map sc_hotel_id visible)) stables"
  shows "set visible \<subseteq> set stables" and "distinct (map sc_hotel_id visible)"
    and "mset (map sc_hotel_id (visible @ additional)) = mset (map sc_hotel_id stables)"
proof -
  from assms(1) have "mset (dv_selected st) + mset (dv_remaining st) = mset stables" by (simp add: diversity_inv_def)
  from distinct_part [OF this assms(2)]
  show sub: "set visible \<subseteq> set stables" and d: "distinct (map sc_hotel_id visible)"
    unfolding assms(3) by (auto dest: in_set_takeD simp flip: take_map)
  let ?in = "\<lambda>c. sc_hotel_id c \<in> set (map sc_hotel_id visible)"
  have "set (filter ?in stables) = set visible"
    using sub assms(2) by (auto simp: distinct_map dest: inj_onD)
  moreover have "distinct (filter ?in stables)" "distinct visible" using assms(2) d by (simp_all add: distinct_map)
  ultimately have "mset (filter ?in stables) = mset visible" using set_eq_iff_mset_eq_distinct by blast
  then have "mset (visible @ additional) = mset stables"
    unfolding assms(4) mset_append by (metis multiset_partition mset_filter)
  then show "mset (map sc_hotel_id (visible @ additional)) = mset (map sc_hotel_id stables)"
    by (simp only: mset_map)
qed

lemma mset_flag_split: "mset (map f (filter P xs)) + mset (map f (filter (\<lambda>x. \<not> P x) xs)) = mset (map f xs)"
  by (induction xs) auto

text \<open>C2. The engine ranks every hotel exactly once: the base, the stable and the diversified ranking are
  orders of the same hotels, the ids of the input. The diversified ranking is the visible part,
  then the additional hotels, then the excluded ones, and the first two are the eligible hotels.\<close>

theorem ranking_lists_every_hotel_once:
  assumes "evaluate_ranking ln_of input opts = Some (Inr ev)"
  shows "mset (rv_base_ranking ev) = mset (map trimmed_id (rin_candidates input)) \<and>
    distinct (rv_base_ranking ev) \<and>
    mset (rv_stable_ranking ev) = mset (rv_base_ranking ev) \<and>
    rv_diversified_ranking ev = rv_visible ev @ rv_additional ev @ rv_excluded ev \<and>
    mset (rv_diversified_ranking ev) = mset (rv_base_ranking ev) \<and>
    mset (rv_visible ev @ rv_additional ev) =
       mset (map trimmed_id (filter (\<lambda>c. rc_eligible (normalize_ranking_candidate c)) (rin_candidates input)))"
proof (intro conjI)
  from ranking_state [OF assms] obtain bands stables visible additional st s where ok: "ranking_input_ok input"
    and b: "create_stability_bands (filter rc_eligible (base_candidates input)) (previous_order_of (rin_previous input))
           (resolve_ranking_options opts) = (bands, stables)"
    and ev: "ev = ranking_result (resolve_ranking_options opts) (base_candidates input) bands stables visible additional (dv_metadata st)"
    and v: "visible = take (visible_limit opts) (dv_selected st)"
      "additional = filter (\<lambda>c. sc_hotel_id c \<notin> set (map sc_hotel_id visible)) stables"
    and inv: "diversity_inv (Fin s) (duplicate_limit opts) stables (select_role_anchors stables (resolve_ranking_options opts)) st"
    and d: "distinct (map sc_hotel_id stables)"
    by metis
  note fields = ranking_result_fields [of "resolve_ranking_options opts" "base_candidates input" bands stables visible additional "dv_metadata st", folded ev]
  note part = visible_part [OF inv d v]
  have el: "mset (map sc_hotel_id stables) = mset (map rc_hotel_id (filter rc_eligible (base_candidates input)))"
    by (rule mset_stable_ids [OF b])
  show "mset (rv_base_ranking ev) = mset (map trimmed_id (rin_candidates input))"
    unfolding fields by (rule mset_base_ids)
  show "distinct (rv_base_ranking ev)" unfolding fields by (rule distinct_base_ids [OF ok])
  show "mset (rv_stable_ranking ev) = mset (rv_base_ranking ev)"
    unfolding fields mset_append el by (rule mset_flag_split)
  show "rv_diversified_ranking ev = rv_visible ev @ rv_additional ev @ rv_excluded ev" unfolding fields by simp
  show "mset (rv_diversified_ranking ev) = mset (rv_base_ranking ev)"
    unfolding fields mset_append part(3) el by (rule mset_flag_split)
  have "mset (filter rc_eligible (base_candidates input)) =
      mset (filter rc_eligible (map normalize_ranking_candidate (rin_candidates input)))"
    by (simp add: mset_base_candidates del: mset_map)
  then have "mset (map rc_hotel_id (filter rc_eligible (base_candidates input))) =
      mset (map rc_hotel_id (filter rc_eligible (map normalize_ranking_candidate (rin_candidates input))))"
    by (simp only: mset_map)
  also have "map rc_hotel_id (filter rc_eligible (map normalize_ranking_candidate cs)) =
      map trimmed_id (filter (\<lambda>c. rc_eligible (normalize_ranking_candidate c)) cs)" for cs
    by (induction cs) simp_all
  finally show "mset (rv_visible ev @ rv_additional ev) =
       mset (map trimmed_id (filter (\<lambda>c. rc_eligible (normalize_ranking_candidate c)) (rin_candidates input)))"
    unfolding fields map_append [symmetric] part(3) el .
qed

section \<open>Candidates of the input and of the result\<close>

lemma stable_of_input:
  assumes "create_stability_bands (filter rc_eligible (base_candidates input)) previous opts = (bands, stables)"
    and "c \<in> set (rin_candidates input)" and "rc_eligible (normalize_ranking_candidate c)"
  obtains s where "s \<in> set stables" and "sc_candidate s = normalize_ranking_candidate c"
proof -
  have "normalize_ranking_candidate c \<in> set (filter rc_eligible (base_candidates input))"
    using assms(2,3) base_candidates_in by auto
  then have "normalize_ranking_candidate c \<in> set (map sc_candidate stables)"
    using mset_eq_setD [OF mset_stables [OF assms(1)]] by simp
  with that show thesis by auto
qed

lemma input_of_stable:
  assumes "create_stability_bands (filter rc_eligible (base_candidates input)) previous opts = (bands, stables)"
    and "s \<in> set stables"
  obtains c where "c \<in> set (rin_candidates input)" and "sc_candidate s = normalize_ranking_candidate c"
    and "rc_eligible (normalize_ranking_candidate c)"
  using stables_eligible [OF assms] that by (auto simp: base_candidates_in)

lemma input_id_unique:
  "ranking_input_ok input \<Longrightarrow> c \<in> set (rin_candidates input) \<Longrightarrow> d \<in> set (rin_candidates input) \<Longrightarrow>
     trimmed_id c = trimmed_id d \<Longrightarrow> c = d"
  by (auto simp: ranking_input_ok_def distinct_map dest: inj_onD)

lemma stable_id_unique:
  "distinct (map sc_hotel_id stables) \<Longrightarrow> s \<in> set stables \<Longrightarrow> t \<in> set stables \<Longrightarrow> sc_hotel_id s = sc_hotel_id t \<Longrightarrow> s = t"
  by (auto simp: distinct_map dest: inj_onD)

text \<open>How many of the hotels listed have a near-duplicate key.\<close>

definition listed_with_key :: "ranking_input \<Rightarrow> id list \<Rightarrow> string \<Rightarrow> nat" where
  "listed_with_key input ids k =
     length (filter (\<lambda>c. duplicate_key c = Some k \<and> trimmed_id c \<in> set ids) (rin_candidates input))"

definition property_full :: "nat \<Rightarrow> ranking_input \<Rightarrow> id list \<Rightarrow> ranking_candidate \<Rightarrow> bool" where
  "property_full limit input ids c =
     (case duplicate_key c of
        None \<Rightarrow> False
      | Some k \<Rightarrow> is_property_key (Some k) \<and> limit \<le> listed_with_key input ids k)"

lemma length_filter_card: "distinct (map f ys) \<Longrightarrow> length (filter P ys) = card (f ` set (filter P ys))"
  using distinct_card [of "map f (filter P ys)"] by (simp add: distinct_map_filter)

lemma listed_with_key_count:
  assumes ok: "ranking_input_ok input"
    and b: "create_stability_bands (filter rc_eligible (base_candidates input)) previous opts = (bands, stables)"
    and xs: "set xs \<subseteq> set stables" "distinct (map sc_hotel_id xs)"
  shows "listed_with_key input (map sc_hotel_id xs) k = key_count xs k"
proof -
  let ?P = "\<lambda>c. duplicate_key c = Some k \<and> trimmed_id c \<in> set (map sc_hotel_id xs)"
  let ?Q = "\<lambda>s. rc_duplicate_key (sc_candidate s) = Some k"
  have "trimmed_id ` set (filter ?P (rin_candidates input)) = sc_hotel_id ` set (filter ?Q xs)"
  proof (intro equalityI subsetI)
    fix h
    assume "h \<in> trimmed_id ` set (filter ?P (rin_candidates input))"
    then obtain c s where c: "c \<in> set (rin_candidates input)" "duplicate_key c = Some k" "h = trimmed_id c"
      and s: "s \<in> set xs" "sc_hotel_id s = trimmed_id c" by auto
    then obtain d where d: "d \<in> set (rin_candidates input)" "sc_candidate s = normalize_ranking_candidate d"
      using input_of_stable [OF b] xs(1) by blast
    have "trimmed_id c = trimmed_id d" using s(2) d(2) by simp
    then have "c = d" by (rule input_id_unique [OF ok c(1) d(1)])
    with d(2) c(2) s(1) have "s \<in> set (filter ?Q xs)" by simp
    moreover have "h = sc_hotel_id s" using s(2) c(3) by simp
    ultimately show "h \<in> sc_hotel_id ` set (filter ?Q xs)" by (rule rev_image_eqI)
  next
    fix h
    assume "h \<in> sc_hotel_id ` set (filter ?Q xs)"
    then obtain s where s: "s \<in> set xs" "?Q s" "h = sc_hotel_id s" by auto
    with xs(1) obtain d where d: "d \<in> set (rin_candidates input)" "sc_candidate s = normalize_ranking_candidate d"
      using input_of_stable [OF b] by blast
    have h: "h = trimmed_id d" using s(3) d(2) by simp
    moreover have "h \<in> set (map sc_hotel_id xs)" using s(1,3) by simp
    ultimately have "d \<in> set (filter ?P (rin_candidates input))" using s(2) d by simp
    then show "h \<in> trimmed_id ` set (filter ?P (rin_candidates input))" using h by (rule rev_image_eqI)
  qed
  moreover have "length (filter ?P (rin_candidates input)) = card (trimmed_id ` set (filter ?P (rin_candidates input)))"
    by (rule length_filter_card) (use ok in \<open>simp add: ranking_input_ok_def\<close>)
  moreover have "length (filter ?Q xs) = card (sc_hotel_id ` set (filter ?Q xs))" by (rule length_filter_card [OF xs(2)])
  ultimately show ?thesis unfolding listed_with_key_def key_count_def by (simp only:)
qed

lemma saturated_property_full:
  assumes "ranking_input_ok input"
    and "create_stability_bands (filter rc_eligible (base_candidates input)) previous opts = (bands, stables)"
    and "set xs \<subseteq> set stables" and "distinct (map sc_hotel_id xs)" and "sc_candidate s = normalize_ranking_candidate c"
  shows "saturated limit xs s \<longleftrightarrow> property_full limit input (map sc_hotel_id xs) c"
  using listed_with_key_count [OF assms(1-4)] assms(5)
  by (simp add: saturated_def property_full_def split: option.split)

text \<open>C7. The visible part holds at most as many hotels as the options allow, and of one property at most
  as many as the near-duplicate limit allows.\<close>

theorem visible_part_bounded:
  assumes "evaluate_ranking ln_of input opts = Some (Inr ev)"
  shows "length (rv_visible ev) \<le> visible_limit opts \<and> visible_limit opts \<le> 100 \<and>
    (is_property_key (Some k) \<longrightarrow> listed_with_key input (rv_visible ev) k \<le> duplicate_limit opts)"
proof -
  from ranking_state [OF assms] obtain bands stables visible additional st s where ok: "ranking_input_ok input"
    and b: "create_stability_bands (filter rc_eligible (base_candidates input)) (previous_order_of (rin_previous input))
           (resolve_ranking_options opts) = (bands, stables)"
    and ev: "ev = ranking_result (resolve_ranking_options opts) (base_candidates input) bands stables visible additional (dv_metadata st)"
    and v: "visible = take (visible_limit opts) (dv_selected st)"
      "additional = filter (\<lambda>c. sc_hotel_id c \<notin> set (map sc_hotel_id visible)) stables"
    and inv: "diversity_inv (Fin s) (duplicate_limit opts) stables (select_role_anchors stables (resolve_ranking_options opts)) st"
    and d: "distinct (map sc_hotel_id stables)"
    by metis
  note part = visible_part [OF inv d v]
  have vis: "rv_visible ev = map sc_hotel_id visible" unfolding ev by (rule ranking_result_fields)
  have "listed_with_key input (rv_visible ev) k \<le> duplicate_limit opts" if k: "is_property_key (Some k)"
  proof -
    from inv obtain rest where rest: "dv_selected st = select_role_anchors stables (resolve_ranking_options opts) @ rest"
      "chosen_well (Fin s) (duplicate_limit opts) stables (select_role_anchors stables (resolve_ranking_options opts)) rest"
      by (auto simp: diversity_inv_def)
    have le: "key_count (dv_selected st) k \<le> duplicate_limit opts"
      unfolding rest(1) using property_count_bound [OF rest(2) resolved_limits(5) _ k] role_anchors(5) by blast
    have "key_count (dv_selected st) k = key_count visible k + key_count (drop (visible_limit opts) (dv_selected st)) k"
      unfolding v(1) by (simp flip: key_count_simps(2))
    then have "key_count visible k \<le> duplicate_limit opts" using le by linarith
    then show ?thesis unfolding vis listed_with_key_count [OF ok b part(1,2)] .
  qed
  moreover have "length (rv_visible ev) \<le> visible_limit opts" unfolding vis v(1) by simp
  ultimately show ?thesis using resolved_limits(3) by blast
qed

lemma selected_prefix:
  assumes "visible = take n (as @ rest)" and "i < length visible"
  shows "length as \<le> i \<Longrightarrow> visible ! i = rest ! (i - length as) \<and> i - length as < length rest \<and>
      take i visible = as @ take (i - length as) rest"
    and "i < length as \<Longrightarrow> visible ! i \<in> set as"
proof -
  from assms have i: "i < n" "i < length (as @ rest)" by simp_all
  then have nth: "visible ! i = (as @ rest) ! i" and take: "take i visible = take i (as @ rest)"
    unfolding assms(1) by (simp_all add: min_def del: take_append)
  show "length as \<le> i \<Longrightarrow> visible ! i = rest ! (i - length as) \<and> i - length as < length rest \<and>
      take i visible = as @ take (i - length as) rest"
    unfolding nth take using i by (auto simp: nth_append)
  show "i < length as \<Longrightarrow> visible ! i \<in> set as" unfolding nth by (simp add: nth_append)
qed

text \<open>C1. Variety costs a bounded amount of score: a visible hotel that does not hold its place as a role
  anchor scores at least as much as every eligible hotel that was still free when it was chosen, less the
  maximal sacrifice.\<close>

theorem score_sacrifice_bounded:
  assumes "evaluate_ranking ln_of input opts = Some (Inr ev)"
    and "v \<in> set (rin_candidates input)" and "i < length (rv_visible ev)" and "trimmed_id v = rv_visible ev ! i"
    and "\<not> rc_role_anchor (normalize_ranking_candidate v)"
    and "c \<in> set (rin_candidates input)" and "rc_eligible (normalize_ranking_candidate c)"
    and "trimmed_id c \<notin> set (take i (rv_visible ev))"
    and "\<not> property_full (duplicate_limit opts) input (take i (rv_visible ev)) c"
  shows "\<exists>x y. get_candidate_score c = Some x \<and> get_candidate_score v = Some y \<and>
    x - rs_score_sacrifice (resolve_ranking_options opts) \<le> y"
proof -
  let ?as = "\<lambda>stables. select_role_anchors stables (resolve_ranking_options opts)"
  from ranking_state [OF assms(1)] obtain bands stables visible additional st s where ok: "ranking_input_ok input"
    and b: "create_stability_bands (filter rc_eligible (base_candidates input)) (previous_order_of (rin_previous input))
           (resolve_ranking_options opts) = (bands, stables)"
    and ev: "ev = ranking_result (resolve_ranking_options opts) (base_candidates input) bands stables visible additional (dv_metadata st)"
    and v: "visible = take (visible_limit opts) (dv_selected st)"
      "additional = filter (\<lambda>c. sc_hotel_id c \<notin> set (map sc_hotel_id visible)) stables"
    and sac: "rs_score_sacrifice (resolve_ranking_options opts) = Fin s"
    and inv: "diversity_inv (Fin s) (duplicate_limit opts) stables (?as stables) st"
    and d: "distinct (map sc_hotel_id stables)"
    by metis
  note part = visible_part [OF inv d v]
  have vis: "rv_visible ev = map sc_hotel_id visible" unfolding ev by (rule ranking_result_fields)
  from inv obtain rest where rest: "dv_selected st = ?as stables @ rest"
    "chosen_well (Fin s) (duplicate_limit opts) stables (?as stables) rest" by (auto simp: diversity_inv_def)
  have i: "i < length visible" using assms(3) vis by simp
  have vi: "visible ! i \<in> set stables" using part(1) i nth_mem by blast
  then obtain w where w: "w \<in> set (rin_candidates input)" "sc_candidate (visible ! i) = normalize_ranking_candidate w"
    by (rule input_of_stable [OF b])
  have "trimmed_id w = trimmed_id v" using w(2) assms(4) i vis by simp
  then have wv: "w = v" using input_id_unique [OF ok w(1) assms(2)] by simp
  have le: "length (?as stables) \<le> i"
  proof (rule ccontr)
    assume "\<not> length (?as stables) \<le> i"
    then have "visible ! i \<in> set (?as stables)" using selected_prefix(2) [OF v(1) [unfolded rest(1)] i] by simp
    with role_anchors(4) w(2) wv assms(5) show False by metis
  qed
  note prefix = selected_prefix(1) [OF v(1) [unfolded rest(1)] i le]
  from assms(6,7) obtain t where t: "t \<in> set stables" "sc_candidate t = normalize_ranking_candidate c"
    by (rule stable_of_input [OF b])
  have sub: "set (take i visible) \<subseteq> set stables" "distinct (map sc_hotel_id (take i visible))"
    using part(1,2) by (auto dest: in_set_takeD simp flip: take_map)
  have free: "t \<notin> set (take i visible)"
  proof
    assume "t \<in> set (take i visible)"
    then have "sc_hotel_id t \<in> set (take i (rv_visible ev))" unfolding vis take_map set_map by (rule imageI)
    with assms(8) t(2) show False by simp
  qed
  have "\<not> saturated (duplicate_limit opts) (take i visible) t"
    using assms(9) saturated_property_full [OF ok b sub t(2)] by (simp add: vis take_map)
  with free t(1) rest(2) prefix have "sc_score t - Fin s \<le> sc_score (visible ! i)"
    unfolding chosen_well_def by metis
  moreover obtain p q where "rc_score (sc_candidate t) = Some p" "sc_score t = p"
    "rc_score (sc_candidate (visible ! i)) = Some q" "sc_score (visible ! i) = q"
    using eligible_score stables_eligible [OF b t(1)] stables_eligible [OF b vi] by metis
  ultimately show ?thesis unfolding sac using t(2) w(2) wv by auto
qed

text \<open>The scores that the candidates are ranked by are doubles.\<close>

definition double_ranking_scores :: "ranking_input \<Rightarrow> bool" where
  "double_ranking_scores input \<longleftrightarrow> (\<forall>c \<in> set (rin_candidates input). \<forall>q. get_candidate_score c = Some (Fin q) \<longrightarrow> double q)"

lemma double_stable_scores:
  assumes "double_ranking_scores input"
    and "create_stability_bands (filter rc_eligible (base_candidates input)) previous opts = (bands, stables)"
    and "s \<in> set stables"
  shows "\<exists>q. sc_score s = Fin q \<and> double q"
proof -
  from assms(3) obtain c where c: "c \<in> set (rin_candidates input)" "sc_candidate s = normalize_ranking_candidate c"
    by (rule input_of_stable [OF assms(2)])
  obtain q where "rc_score (sc_candidate s) = Some (Fin q)" "sc_score s = Fin q"
    using eligible_score stables_eligible [OF assms(2,3)] by metis
  with c assms(1) show ?thesis by (auto simp: double_ranking_scores_def)
qed

text \<open>C8. The visible part is filled: it holds as many hotels as the options allow, unless every further eligible
  hotel belongs to a property that has reached the near-duplicate limit.\<close>

theorem visible_part_filled:
  assumes "evaluate_ranking ln_of input opts = Some (Inr ev)" and "double_ranking_scores input"
    and "c \<in> set (rin_candidates input)" and "trimmed_id c \<in> set (rv_additional ev)"
  shows "length (rv_visible ev) = visible_limit opts \<or> property_full (duplicate_limit opts) input (rv_visible ev) c"
proof (rule disjCI)
  let ?ro = "resolve_ranking_options opts"
  assume not_full: "\<not> property_full (duplicate_limit opts) input (rv_visible ev) c"
  from ranking_state [OF assms(1)] obtain bands stables visible additional st s where ok: "ranking_input_ok input"
    and b: "create_stability_bands (filter rc_eligible (base_candidates input)) (previous_order_of (rin_previous input)) ?ro = (bands, stables)"
    and ev: "ev = ranking_result ?ro (base_candidates input) bands stables visible additional (dv_metadata st)"
    and v: "visible = take (visible_limit opts) (dv_selected st)"
      "additional = filter (\<lambda>c. sc_hotel_id c \<notin> set (map sc_hotel_id visible)) stables"
    and sac: "rs_score_sacrifice ?ro = Fin s" "0 \<le> s"
    and inv: "diversity_inv (Fin s) (duplicate_limit opts) stables (select_role_anchors stables ?ro) st"
    and stop: "diversity_round ln_of ?ro (length stables) st = None"
    and d: "distinct (map sc_hotel_id stables)"
    by metis
  note part = visible_part [OF inv d v]
  have vis: "rv_visible ev = map sc_hotel_id visible" "rv_additional ev = map sc_hotel_id additional"
    unfolding ev by (rule ranking_result_fields)+
  have m: "mset (dv_selected st) + mset (dv_remaining st) = mset stables"
    and counts: "\<forall>k. counts_of (dv_counts st) k = key_count (dv_selected st) k"
    using inv by (auto simp: diversity_inv_def)
  show "length (rv_visible ev) = visible_limit opts"
  proof (rule ccontr)
    assume "length (rv_visible ev) \<noteq> visible_limit opts"
    then have short: "length (dv_selected st) < visible_limit opts" and all: "visible = dv_selected st"
      unfolding vis v(1) by simp_all
    from assms(4) obtain t where t: "t \<in> set stables" "sc_hotel_id t = trimmed_id c" "sc_hotel_id t \<notin> set (map sc_hotel_id visible)"
      unfolding vis v(2) by auto
    obtain e where e: "e \<in> set (rin_candidates input)" "sc_candidate t = normalize_ranking_candidate e"
      using input_of_stable [OF b t(1)] by blast
    with t(2) input_id_unique [OF ok e(1) assms(3)] have tc: "sc_candidate t = normalize_ranking_candidate c" by simp
    have "t \<notin> set (dv_selected st)" using t(3) unfolding all by auto
    then have rem: "t \<in> set (dv_remaining st)" using t(1) distinct_part(3) [OF m d] by blast
    have "\<not> saturated (duplicate_limit opts) (dv_selected st) t"
      using not_full saturated_property_full [OF ok b part(1,2) tc] by (simp add: vis all)
    with rem have "t \<in> set (selectable ?ro st)" using selectable_iff [OF resolved_limits(4) counts] by blast
    then have ne: "selectable ?ro st \<noteq> []" by (metis empty_iff empty_set)
    have "\<forall>r \<in> set (dv_remaining st). \<exists>q. sc_score r = Fin q \<and> double q"
      using double_stable_scores [OF assms(2) b] distinct_part(3) [OF m d] by blast
    then have some: "next_selection ln_of ?ro st \<noteq> None"
      by (rule next_selection_exists [OF _ ne resolved_limits(4) sac counts])
    have "length (dv_selected st) + length (dv_remaining st) = length stables"
      using arg_cong [OF m, of size] by simp
    with rem have "length (dv_selected st) < length stables" by (cases "dv_remaining st") simp_all
    with short have "Fin (of_nat (length (dv_selected st))) < js_min (rs_maximum_visible ?ro) (Fin (of_nat (length stables)))"
      unfolding resolved_limits(1) by (simp add: js_min_def)
    with ne some have "diversity_round ln_of ?ro (length stables) st \<noteq> None"
      using diversity_round_Some by fast
    with stop show False by contradiction
  qed
qed

text \<open>A hotel that leads the group of a primary recommendation role keeps its place: with room for three
  hotels, an eligible role anchor whose role and near-duplicate key no other eligible anchor has is among
  the first three visible hotels.\<close>

theorem role_anchors_visible:
  assumes "evaluate_ranking ln_of input opts = Some (Inr ev)" and "3 \<le> visible_limit opts"
    and "rs_protect_roles (resolve_ranking_options opts)"
    and "c \<in> set (rin_candidates input)" and "rc_eligible (normalize_ranking_candidate c)"
    and "rc_role_anchor (normalize_ranking_candidate c)"
    and "list_all (\<lambda>d. rc_eligible (normalize_ranking_candidate d) \<and> rc_role_anchor (normalize_ranking_candidate d) \<and>
        (rr_role (rk_recommendation d) = rr_role (rk_recommendation c) \<or> duplicate_key d \<noteq> None \<and> duplicate_key d = duplicate_key c) \<longrightarrow>
        trimmed_id d = trimmed_id c) (rin_candidates input)"
  shows "trimmed_id c \<in> set (take 3 (rv_visible ev))"
proof -
  let ?ro = "resolve_ranking_options opts"
  from ranking_state [OF assms(1)] obtain bands stables visible additional st s where ok: "ranking_input_ok input"
    and b: "create_stability_bands (filter rc_eligible (base_candidates input)) (previous_order_of (rin_previous input)) ?ro = (bands, stables)"
    and ev: "ev = ranking_result ?ro (base_candidates input) bands stables visible additional (dv_metadata st)"
    and v: "visible = take (visible_limit opts) (dv_selected st)"
    and inv: "diversity_inv (Fin s) (duplicate_limit opts) stables (select_role_anchors stables ?ro) st"
    by metis
  obtain selected used where f: "foldl (select_role_anchor stables) ([], []) primary_role_order = (selected, used)" by fastforce
  have anchors: "select_role_anchors stables ?ro = selected" using assms(3) by (simp add: select_role_anchors_def f)
  obtain t where t: "t \<in> set stables" "sc_candidate t = normalize_ranking_candidate c"
    by (rule stable_of_input [OF b assms(4,5)])
  have "is_primary_role (rr_role (rk_recommendation c))"
    using assms(6) by (simp add: normalize_ranking_candidate_def Let_def)
  then have "rr_role (rk_recommendation (rc_source (sc_candidate t))) \<in> set primary_role_order"
    using t(2) by (simp add: is_primary_role_def)
  moreover have "distinct primary_role_order" by (simp add: primary_role_order_def)
  ultimately obtain u where u: "u \<in> set selected"
    "rr_role (rk_recommendation (rc_source (sc_candidate u))) = rr_role (rk_recommendation (rc_source (sc_candidate t))) \<or>
     rc_duplicate_key (sc_candidate u) = rc_duplicate_key (sc_candidate t) \<and> rc_duplicate_key (sc_candidate t) \<noteq> None"
    using anchor_covered [OF t(1) _ _ _ f] t(2) assms(6) by auto
  have us: "u \<in> set stables" using u(1) role_anchors(1) [of stables ?ro] anchors by blast
  obtain d where d: "d \<in> set (rin_candidates input)" "sc_candidate u = normalize_ranking_candidate d"
    "rc_eligible (normalize_ranking_candidate d)" by (rule input_of_stable [OF b us])
  have "rc_role_anchor (normalize_ranking_candidate d)" using role_anchors(4) [of stables ?ro] u(1) anchors d(2) by auto
  moreover have "rr_role (rk_recommendation d) = rr_role (rk_recommendation c) \<or> duplicate_key d \<noteq> None \<and> duplicate_key d = duplicate_key c"
    using u(2) d(2) t(2) by auto
  ultimately have same: "trimmed_id d = trimmed_id c" using assms(7) d(1,3) unfolding list_all_iff by blast
  from inv obtain rest where "dv_selected st = selected @ rest" by (auto simp: diversity_inv_def anchors)
  moreover have "length selected \<le> 3" using role_anchors(3) [of stables ?ro] anchors by simp
  ultimately have "set selected \<subseteq> set (take 3 visible)" using assms(2) unfolding v by (auto simp: min_def)
  with u(1) have "u \<in> set (take 3 visible)" by blast
  moreover have "rv_visible ev = map sc_hotel_id visible" unfolding ev by (rule ranking_result_fields)
  ultimately have "sc_hotel_id u \<in> set (take 3 (rv_visible ev))" by (simp add: take_map)
  with d(2) same show ?thesis by simp
qed

text \<open>The numbers of all candidates are doubles.\<close>

definition double_candidates :: "ranking_input \<Rightarrow> bool" where
  "double_candidates input \<longleftrightarrow> (\<forall>c \<in> set (rin_candidates input). ranked_wf (normalize_ranking_candidate c))"

text \<open>C10. The order in which the candidates arrive does not matter.\<close>

theorem ranking_order_independent:
  assumes "mset (rin_candidates input') = mset (rin_candidates input)" and "rin_previous input' = rin_previous input"
    and "double_candidates input" and "evaluate_ranking ln_of input opts = Some (Inr ev)"
  shows "evaluate_ranking ln_of input' opts = Some (Inr ev)"
proof -
  have set: "set (rin_candidates input') = set (rin_candidates input)" using assms(1) by (rule mset_eq_setD)
  from assms(4) have ok: "ranking_input_ok input"
    by (auto simp: evaluate_ranking_def simp flip: validate_ranking_input_iff split: sum.splits)
  have ids: "mset (map trimmed_id (rin_candidates input')) = mset (map trimmed_id (rin_candidates input))"
    using assms(1) by (simp only: mset_map)
  have ok': "ranking_input_ok input'"
    using ok unfolding ranking_input_ok_def same_preferences_def set assms(2) mset_eq_imp_distinct_iff [OF ids] .
  have "js_sort compare_base_candidates (map normalize_ranking_candidate (rin_candidates input')) =
      js_sort compare_base_candidates (map normalize_ranking_candidate (rin_candidates input))"
  proof (rule sort_base_independent)
    show "mset (map normalize_ranking_candidate (rin_candidates input')) =
        mset (map normalize_ranking_candidate (rin_candidates input))" using assms(1) by (simp only: mset_map)
    show "\<forall>x \<in> set (map normalize_ranking_candidate (rin_candidates input')). ranked_wf x"
      using assms(3) set by (simp add: double_candidates_def)
    show "inj_on rc_hotel_id (set (map normalize_ranking_candidate (rin_candidates input')))"
    proof (rule inj_onI)
      fix x y
      assume "x \<in> set (map normalize_ranking_candidate (rin_candidates input'))"
        "y \<in> set (map normalize_ranking_candidate (rin_candidates input'))" "rc_hotel_id x = rc_hotel_id y"
      then obtain c d where "x = normalize_ranking_candidate c" "y = normalize_ranking_candidate d"
        "c \<in> set (rin_candidates input)" "d \<in> set (rin_candidates input)" "trimmed_id c = trimmed_id d"
        unfolding set_map set by auto
      then show "x = y" using input_id_unique [OF ok, of c d] by blast
    qed
  qed
  then have "ranking_outcome ln_of input' ro = ranking_outcome ln_of input ro" for ro
    using assms(2) by (simp add: ranking_outcome_def)
  then show ?thesis
    using assms(4) ok ok' by (simp add: evaluate_ranking_def flip: validate_ranking_input_iff)
qed

lemma ranking_signature_eq:
  "ranking_signature u = ranking_signature v \<longleftrightarrow>
     pref_id (util_preference u) = pref_id (util_preference v) \<and>
     list_all (\<lambda>d. weight_fixed6 (pref_weights (util_preference u) d) = weight_fixed6 (pref_weights (util_preference v) d)) dimension_codes"
  by (auto simp: ranking_signature_def list_all_iff)

text \<open>C11. The engine throws exactly for input that is not well formed: a blank or repeated hotel id, a component of
  another hotel, two candidates whose preference or some weight, printed with six decimals, differ (NaN and the two
  infinities print differently), or a blank or repeated id in the previous ranking.\<close>

theorem ranking_throws_iff:
  "(\<exists>e. evaluate_ranking ln_of input opts = Some (Inl e)) \<longleftrightarrow>
   \<not> (distinct (map (\<lambda>c. js_trim (rk_hotel_id c)) (rin_candidates input)) \<and>
      list_all (\<lambda>c. js_trim (rk_hotel_id c) \<noteq> [] \<and> list_all (\<lambda>v. v = js_trim (rk_hotel_id c)) (component_hotel_ids c))
        (rin_candidates input) \<and>
      list_all (\<lambda>c. list_all (\<lambda>d. pref_id (util_preference (rk_utility c)) = pref_id (util_preference (rk_utility d)) \<and>
          list_all (\<lambda>x. weight_fixed6 (pref_weights (util_preference (rk_utility c)) x) =
            weight_fixed6 (pref_weights (util_preference (rk_utility d)) x)) dimension_codes)
        (rin_candidates input)) (rin_candidates input) \<and>
      distinct (map js_trim (rin_previous input)) \<and> list_all (\<lambda>h. js_trim h \<noteq> []) (rin_previous input))"
proof -
  have "(\<exists>e. evaluate_ranking ln_of input opts = Some (Inl e)) \<longleftrightarrow> \<not> ranking_input_ok input"
    unfolding validate_ranking_input_iff [symmetric] by (cases "validate_ranking_input input") (simp_all add: evaluate_ranking_def)
  then show ?thesis
    unfolding ranking_input_ok_def same_preferences_def ranking_signature_eq candidate_ids_ok_def list_all_iff .
qed

section \<open>The first choice\<close>

lemma js_or_self [simp]: "js_or (p - p) r = r"
  by (cases p) (simp_all add: js_or_def minus_jsnum_def uminus_jsnum_def)

lemma resolved_caps:
  "\<not> rs_same_category (resolve_ranking_options opts) \<le> Fin 0"
  "\<not> rs_same_unit_type (resolve_ranking_options opts) \<le> Fin 0"
  "\<not> rs_same_provider (resolve_ranking_options opts) \<le> Fin 0"
proof -
  have "\<not> normalize_positive_integer v (Fin 4) (Fin 100) \<le> Fin 0" for v
    using positive_integer_nat [of 4 100 v] by auto
  then show "\<not> rs_same_category (resolve_ranking_options opts) \<le> Fin 0"
    "\<not> rs_same_unit_type (resolve_ranking_options opts) \<le> Fin 0"
    "\<not> rs_same_provider (resolve_ranking_options opts) \<le> Fin 0" by (simp_all add: resolve_ranking_options_def)
qed

lemma dimension_effect_first:
  assumes "\<forall>m e. limit = Some (m, e) \<longrightarrow> \<not> m \<le> Fin 0"
  shows "dimension_effect code weight limit selector c [] = ([], [])"
  using assms by (cases limit) (auto simp: dimension_effect_def count_selected_by_def Let_def split: option.split)

lemma first_selection:
  "calculate_diversity_selection ln_of c [] [] (resolve_ranking_options opts) False =
     Some \<lparr>ds_candidate = c, ds_penalty = round_to 4 (js_sum [] * rs_penalty_scale (resolve_ranking_options opts)),
       ds_dimension_codes = unique_sorted [], ds_fallback = False\<rparr>"
proof -
  have "\<not> exceeds_near_duplicates (resolve_ranking_options opts) [] c"
    using resolved_limits(5) [of opts]
    by (auto simp: exceeds_near_duplicates_def near_duplicate_count_def resolved_limits(4) split: option.splits)
  then show ?thesis
    by (simp add: calculate_diversity_selection_def Let_def dimension_effect_first resolved_caps)
qed

lemma by_penalty_comparator:
  "comparator by_penalty {x. ds_penalty x = p \<and> js_wf (sc_score (ds_candidate x))}"
proof (rule comparator_cong)
  let ?A = "{x. ds_penalty x = p \<and> js_wf (sc_score (ds_candidate x))}"
  let ?r = "\<lambda>first second. js_or (Fin (of_nat (sc_stable_rank (ds_candidate first))) - Fin (of_nat (sc_stable_rank (ds_candidate second))))
           (compare_strings (sc_hotel_id (ds_candidate first)) (sc_hotel_id (ds_candidate second)))"
  have r: "comparator ?r ?A"
    by (intro comparator_by_number comparator_UNIV [OF comparator_by_string] js_wf_of_nat)
  show "comparator (\<lambda>a b. js_or (sc_score (ds_candidate b) - sc_score (ds_candidate a)) (?r a b)) ?A"
    by (rule comparator_by_number_descending [OF r]) simp
  show "Fin 0 < by_penalty x y \<longleftrightarrow> Fin 0 < js_or (sc_score (ds_candidate y) - sc_score (ds_candidate x)) (?r x y)"
    if "x \<in> ?A" and "y \<in> ?A" for x y
    using that by (simp add: by_penalty_def del: minus_Fin)
qed

lemma first_pick:
  assumes st: "dv_selected st = []" "dv_counts st = []"
    and scores: "\<forall>c \<in> set (dv_remaining st). \<exists>q. sc_score c = Fin q \<and> double q"
    and sac: "rs_score_sacrifice (resolve_ranking_options opts) = Fin s" "0 \<le> s"
    and sel: "next_selection ln_of (resolve_ranking_options opts) st = Some sel"
    and d: "d \<in> set (dv_remaining st)"
  shows "sc_score d \<le> sc_score (ds_candidate sel)"
proof -
  let ?ro = "resolve_ranking_options opts"
  define p where "p = round_to 4 (js_sum [] * rs_penalty_scale ?ro)"
  define pick where "pick = (\<lambda>c. \<lparr>ds_candidate = c, ds_penalty = p, ds_dimension_codes = unique_sorted [], ds_fallback = False\<rparr>)"
  have counts: "\<forall>k. counts_of (dv_counts st) k = key_count (dv_selected st) k" by (simp add: st counts_of_def)
  have "\<not> saturated (duplicate_limit opts) [] c" for c
    using resolved_limits(5) [of opts] by (auto simp: saturated_def split: option.splits)
  then have all: "set (selectable ?ro st) = set (dv_remaining st)"
    using selectable_iff [OF resolved_limits(4) counts] by (auto simp: st)
  have strict: "selections_of ln_of ?ro st False = map pick (quality_window ?ro st)"
    by (simp add: selections_of_def st first_selection pick_def p_def List.map_filter_def)
  define h where "h = js_maximum (map sc_score (selectable ?ro st))"
  have fin: "\<forall>x \<in> set (map sc_score (selectable ?ro st)). \<exists>q. x = Fin q" using scores all by auto
  have "sc_score d \<in> set (map sc_score (selectable ?ro st))" using d all by simp
  then have ne: "map sc_score (selectable ?ro st) \<noteq> []" by (metis empty_iff empty_set)
  have "h \<in> set (map sc_score (selectable ?ro st))" unfolding h_def by (rule js_maximum_finite(1) [OF ne fin])
  then obtain m where m: "m \<in> set (dv_remaining st)" "sc_score m = h" using all by auto
  with scores obtain q where q: "h = Fin q" "double q" by metis
  have le: "sc_score d \<le> h"
    unfolding h_def using js_maximum_finite(2) [OF ne fin] \<open>sc_score d \<in> _\<close> by blast
  have "h - Fin s \<le> h" using sac(2) q by (simp add: rnd_le_double)
  with m all have win: "m \<in> set (quality_window ?ro st)"
    by (simp add: quality_window_def Let_def h_def [symmetric] sac(1))
  then have "quality_window ?ro st \<noteq> []" by (metis empty_iff empty_set)
  then have first: "js_first (js_sort by_penalty (map pick (quality_window ?ro st))) = Some sel"
    using sel by (simp add: next_selection_def Let_def strict)
  have wf: "c \<in> set (quality_window ?ro st) \<Longrightarrow> js_wf (sc_score c)" for c
  proof -
    assume "c \<in> set (quality_window ?ro st)"
    then have "c \<in> set (dv_remaining st)" using quality_window_in all by blast
    then obtain q where "sc_score c = Fin q" "double q" using scores by blast
    then show "js_wf (sc_score c)" using double_on_grid by simp
  qed
  then have sub: "set (map pick (quality_window ?ro st)) \<subseteq> {x. ds_penalty x = p \<and> js_wf (sc_score (ds_candidate x))}"
    by (auto simp: pick_def)
  have "sel \<in> set (map pick (quality_window ?ro st)) \<and> \<not> Fin 0 < by_penalty sel (pick m)"
    by (rule comparator.sort_first_minimal [OF by_penalty_comparator sub first]) (use win in simp)
  then obtain c where c: "c \<in> set (quality_window ?ro st)" "sel = pick c" "\<not> Fin 0 < by_penalty (pick c) (pick m)" by auto
  then have "\<not> sc_score c < sc_score m"
    using js_or_difference_pos [OF wf [OF win] wf [OF c(1)]] by (auto simp: by_penalty_def pick_def)
  then have "h \<le> sc_score c" using wf_trichotomy [OF wf [OF win] wf [OF c(1)]] m(2) q
    by (auto simp: jsnum_less_le)
  with le have "sc_score d \<le> sc_score c" by (rule jsnum_le_trans)
  then show ?thesis by (simp add: c(2) pick_def)
qed

definition top_inv :: "stable_candidate list \<Rightarrow> diversity_state \<Rightarrow> bool" where
  "top_inv candidates st \<longleftrightarrow>
     (dv_selected st = [] \<longrightarrow> dv_counts st = [] \<and> dv_remaining st = candidates) \<and>
     (\<forall>c cs. dv_selected st = c # cs \<longrightarrow> (\<forall>d \<in> set candidates. sc_score d \<le> sc_score c))"

lemma diversity_round_top:
  assumes "top_inv candidates st" and "diversity_round ln_of (resolve_ranking_options opts) n st = Some st'"
    and "\<forall>c \<in> set candidates. \<exists>q. sc_score c = Fin q \<and> double q"
  shows "top_inv candidates st'"
proof -
  obtain s where s: "rs_score_sacrifice (resolve_ranking_options opts) = Fin s" "0 \<le> s" by (rule score_sacrifice_form)
  from assms(2) obtain sel where sel: "next_selection ln_of (resolve_ranking_options opts) st = Some sel" "st' = take_selection st sel"
    by (auto simp: diversity_round_Some)
  have st': "dv_selected st' = dv_selected st @ [ds_candidate sel]" by (simp add: sel(2) take_selection_def Let_def)
  show ?thesis
  proof (cases "dv_selected st")
    case Nil
    with assms(1) have st: "dv_counts st = []" "dv_remaining st = candidates" by (auto simp: top_inv_def)
    have "sc_score d \<le> sc_score (ds_candidate sel)" if "d \<in> set candidates" for d
      using first_pick [OF Nil st(1) _ s sel(1)] assms(3) that st(2) by blast
    with Nil st' show ?thesis by (simp add: top_inv_def)
  next
    case (Cons c cs)
    with assms(1) st' show ?thesis by (simp add: top_inv_def)
  qed
qed

text \<open>C9. Without role anchors the first visible hotel is one of greatest score, whatever the previous ranking: an
  order that a stability band preserved decides the top place only between equal scores.\<close>

theorem top_place_has_best_score:
  assumes "evaluate_ranking ln_of input opts = Some (Inr ev)" and "double_ranking_scores input"
    and "list_all (\<lambda>c. \<not> rc_role_anchor (normalize_ranking_candidate c)) (rin_candidates input)"
    and "rv_visible ev = trimmed_id v # others" and "v \<in> set (rin_candidates input)"
    and "c \<in> set (rin_candidates input)" and "rc_eligible (normalize_ranking_candidate c)"
  shows "\<exists>x y. get_candidate_score c = Some x \<and> get_candidate_score v = Some y \<and> x \<le> y"
proof -
  let ?ro = "resolve_ranking_options opts"
  from ranking_parts [OF assms(1)] obtain bands stables st where ok: "ranking_input_ok input"
    and b: "create_stability_bands (filter rc_eligible (base_candidates input)) (previous_order_of (rin_previous input)) ?ro = (bands, stables)"
    and run: "run_rounds (diversity_round ln_of ?ro (length stables)) (initial_state stables ?ro) = Some st"
    and ev: "ev = ranking_result ?ro (base_candidates input) bands stables
           (slice_to (rs_maximum_visible ?ro) (dv_selected st))
           (filter (\<lambda>c. sc_hotel_id c \<notin> set (map sc_hotel_id (slice_to (rs_maximum_visible ?ro) (dv_selected st)))) stables)
           (dv_metadata st)" by blast
  from ranking_state [OF assms(1)] obtain bands' stables' visible additional st' s where b': "create_stability_bands (filter rc_eligible (base_candidates input)) (previous_order_of (rin_previous input)) ?ro = (bands', stables')"
    and ev': "ev = ranking_result ?ro (base_candidates input) bands' stables' visible additional (dv_metadata st')"
    and v': "visible = take (visible_limit opts) (dv_selected st')"
      "additional = filter (\<lambda>c. sc_hotel_id c \<notin> set (map sc_hotel_id visible)) stables'"
    and inv': "diversity_inv (Fin s) (duplicate_limit opts) stables' (select_role_anchors stables' ?ro) st'"
    and d': "distinct (map sc_hotel_id stables')" by metis
  have same: "stables' = stables" using b b' by simp
  have none: "select_role_anchors stables ?ro = []"
  proof (rule ccontr)
    assume "select_role_anchors stables ?ro \<noteq> []"
    then obtain a where a: "a \<in> set (select_role_anchors stables ?ro)" by (meson list.set_sel(1))
    then have "a \<in> set stables" using role_anchors(1) by blast
    then obtain d where "d \<in> set (rin_candidates input)" "sc_candidate a = normalize_ranking_candidate d"
      by (rule input_of_stable [OF b])
    with a role_anchors(4) assms(3) show False unfolding list_all_iff by metis
  qed
  have scores: "\<forall>c \<in> set stables. \<exists>q. sc_score c = Fin q \<and> double q"
    using double_stable_scores [OF assms(2) b] by blast
  let ?next = "diversity_round ln_of ?ro (length stables)"
  have init: "top_inv stables (initial_state stables ?ro)"
    by (simp add: top_inv_def initial_state_def none)
  have step: "top_inv stables t' \<and> length (dv_remaining t') < length (dv_remaining t)"
    if "top_inv stables t" and "?next t = Some t'" for t t'
    using diversity_round_top [OF that scores] diversity_round_shrinks [OF that(2)] by blast
  obtain t where "run_rounds ?next (initial_state stables ?ro) = Some t" and top: "top_inv stables t"
    by (rule run_rounds_ends [of "top_inv stables" ?next "\<lambda>t. length (dv_remaining t)", OF step init])
  with run have tst: "t = st" by simp
  have vis: "rv_visible ev = map sc_hotel_id (take (visible_limit opts) (dv_selected st))"
    unfolding ev ranking_result_fields slice_to_limit by simp
  with assms(4) obtain w ws where w: "dv_selected st = w # ws" "sc_hotel_id w = trimmed_id v"
    by (cases "dv_selected st"; cases "visible_limit opts") auto
  have "rv_visible ev = map sc_hotel_id visible" unfolding ev' by (rule ranking_result_fields)
  with assms(4) obtain w' where w': "w' \<in> set visible" "sc_hotel_id w' = trimmed_id v" by (cases visible) auto
  have w's: "w' \<in> set stables" using visible_part(1) [OF inv' d' v'] w'(1) same by blast
  have "w \<in> set stables"
  proof -
    have "mset (dv_selected st) + mset (dv_remaining st) = mset stables"
    proof -
      have fin: "\<forall>c \<in> set stables. \<exists>q. sc_score c = Fin q" using scores by blast
      obtain s where "rs_score_sacrifice ?ro = Fin s" by (rule score_sacrifice_form)
      from final_state(1) [OF _ fin resolved_limits(4) this run] d' same show ?thesis by (simp add: diversity_inv_def)
    qed
    then have "w \<in># mset stables" using w(1) by (metis list.set_intros(1) set_mset_mset union_iff)
    then show ?thesis by simp
  qed
  obtain e where e: "e \<in> set (rin_candidates input)" "sc_candidate w = normalize_ranking_candidate e"
    using input_of_stable [OF b \<open>w \<in> set stables\<close>] by blast
  with w(2) input_id_unique [OF ok e(1) assms(5)] have wv: "sc_candidate w = normalize_ranking_candidate v" by simp
  obtain u where u: "u \<in> set stables" "sc_candidate u = normalize_ranking_candidate c"
    by (rule stable_of_input [OF b assms(6,7)])
  have "sc_score u \<le> sc_score w" using top w(1) u(1) unfolding tst top_inv_def by blast
  moreover obtain p q where "rc_score (sc_candidate u) = Some p" "sc_score u = p" "rc_score (sc_candidate w) = Some q" "sc_score w = q"
    using eligible_score stables_eligible [OF b u(1)] stables_eligible [OF b \<open>w \<in> set stables\<close>] by metis
  ultimately show ?thesis using u(2) wv by auto
qed

section \<open>The evaluations of the candidates\<close>

lemma evaluate_ranked_fields:
  "re_hotel_id (evaluate_ranked_candidate bands stables vr dr md gs c) = rc_hotel_id c"
  "re_eligible (evaluate_ranked_candidate bands stables vr dr md gs c) = rc_eligible c"
  "re_diversified_rank (evaluate_ranked_candidate bands stables vr dr md gs c) = map_of dr (rc_hotel_id c)"
  "re_visible_rank (evaluate_ranked_candidate bands stables vr dr md gs c) = map_of vr (rc_hotel_id c)"
  "re_visible (evaluate_ranked_candidate bands stables vr dr md gs c) \<longleftrightarrow> map_of vr (rc_hotel_id c) \<noteq> None"
  "re_rank_band (evaluate_ranked_candidate bands stables vr dr md gs c) =
     get_rank_band (rc_eligible c) (map_of vr (rc_hotel_id c)) (rc_score c)"
  "re_stable_rank (evaluate_ranked_candidate bands stables vr dr md gs c) =
     map_option sc_stable_rank (map_of stables (rc_hotel_id c))"
  unfolding evaluate_ranked_candidate_def Let_def by (simp_all only: ranking_candidate_evaluation.simps)

lemma js_wf_rank: "js_wf (rank_or_infinity r)"
  by (cases r) (simp_all add: rank_or_infinity_def del: js_wf.simps(1))

interpretation diversified_order: comparator by_diversified_rank UNIV
  unfolding by_diversified_rank_def
  by (intro comparator_by_number js_wf_rank comparator_by_string)

lemma ranks_of_ids:
  assumes "distinct ids"
  shows "map (\<lambda>h. the (map_of (ranks_of ids) h)) ids = [1..<Suc (length ids)]"
proof (rule nth_equalityI)
  fix i
  assume "i < length (map (\<lambda>h. the (map_of (ranks_of ids) h)) ids)"
  then have i: "i < length ids" by simp
  then have "map_of (ranks_of ids) (ids ! i) = Some (i + 1)" using ranks_of_Some [OF assms] by simp
  with i show "map (\<lambda>h. the (map_of (ranks_of ids) h)) ids ! i = [1..<Suc (length ids)] ! i" by (simp del: upt_Suc)
qed (simp del: upt_Suc)

lemma sort_by_rank:
  assumes d: "distinct ids" and m: "mset (map re_hotel_id es) = mset ids"
    and rank: "\<forall>e \<in> set es. re_diversified_rank e = map_of (ranks_of ids) (re_hotel_id e)"
  shows "map re_hotel_id (js_sort by_diversified_rank es) = ids"
proof -
  let ?ss = "js_sort by_diversified_rank es"
  let ?k = "\<lambda>e. the (re_diversified_rank e)"
  have some: "re_diversified_rank e = Some (?k e) \<and> 1 \<le> ?k e \<and> ids ! (?k e - 1) = re_hotel_id e" if "e \<in> set es" for e
  proof -
    have "re_hotel_id e \<in> set ids" using that mset_eq_setD [OF m] by auto
    then have "map_of (ranks_of ids) (re_hotel_id e) \<noteq> None" using ranks_of_None [OF d] by simp
    then obtain r where r: "map_of (ranks_of ids) (re_hotel_id e) = Some r" by blast
    then have "re_diversified_rank e = Some r" using rank that by simp
    moreover from r have "1 \<le> r \<and> ids ! (r - 1) = re_hotel_id e" using ranks_of_Some [OF d] by blast
    ultimately show ?thesis by simp
  qed
  have "mset (map ?k ?ss) = mset (map ?k es)" by (simp only: mset_map mset_js_sort)
  also have "map ?k es = map (\<lambda>h. the (map_of (ranks_of ids) h)) (map re_hotel_id es)" using rank by simp
  also have "mset \<dots> = mset (map (\<lambda>h. the (map_of (ranks_of ids) h)) ids)"
    unfolding mset_map [of "\<lambda>h. the (map_of (ranks_of ids) h)"] m ..
  also have "\<dots> = mset [1..<Suc (length ids)]" by (simp only: ranks_of_ids [OF d])
  finally have same: "mset (map ?k ?ss) = mset [1..<Suc (length ids)]" .
  have "sorted_wrt diversified_order.not_after ?ss" by (rule diversified_order.sorted_sort) simp
  then have "sorted_wrt (\<lambda>x y. ?k x \<le> ?k y) ?ss"
  proof (rule sorted_wrt_mono_rel [rotated])
    fix x y
    assume xy: "x \<in> set ?ss" "y \<in> set ?ss" and n: "diversified_order.not_after x y"
    then have "\<not> Fin 0 < by_diversified_rank x y" by (simp add: diversified_order.not_after_def)
    then have "\<not> rank_or_infinity (re_diversified_rank y) < rank_or_infinity (re_diversified_rank x)"
      unfolding by_diversified_rank_def using js_or_difference_pos [OF js_wf_rank js_wf_rank] by blast
    moreover obtain a b where "re_diversified_rank x = Some a" "re_diversified_rank y = Some b" using some xy by (metis set_js_sort)
    ultimately show "?k x \<le> ?k y" by (simp add: rank_or_infinity_def)
  qed
  then have "sorted (map ?k ?ss)" by (simp add: sorted_map)
  with same have "map ?k ?ss = [1..<Suc (length ids)]"
    using properties_for_sort [of "map ?k ?ss" "[1..<Suc (length ids)]"] by (simp del: upt_Suc)
  then have "map (\<lambda>r. ids ! (r - 1)) (map ?k ?ss) = map (\<lambda>r. ids ! (r - 1)) [1..<Suc (length ids)]" by (simp only:)
  moreover have "map (\<lambda>r. ids ! (r - 1)) (map ?k ?ss) = map re_hotel_id ?ss" using some by simp
  moreover have "map (\<lambda>r. ids ! (r - 1)) [1..<Suc (length ids)] = ids"
    by (rule nth_equalityI) (simp_all del: upt_Suc)
  ultimately show ?thesis by simp
qed

text \<open>
  What an evaluation states of its hotel agrees with the lists: it is visible, with its rank, exactly when it is
  in the visible part, it has a stable rank exactly when it is eligible, and its band says excluded exactly when
  it is not, and top exactly when it is among the first three visible hotels.
\<close>

definition evaluation_consistent :: "ranking_evaluation \<Rightarrow> ranking_candidate_evaluation \<Rightarrow> bool" where
  "evaluation_consistent ev e \<longleftrightarrow>
     (re_visible e \<longleftrightarrow> re_hotel_id e \<in> set (rv_visible ev)) \<and>
     (case re_visible_rank e of
        None \<Rightarrow> \<not> re_visible e
      | Some r \<Rightarrow> re_visible e \<and> 1 \<le> r \<and> r \<le> length (rv_visible ev) \<and> rv_visible ev ! (r - 1) = re_hotel_id e) \<and>
     (case re_diversified_rank e of
        None \<Rightarrow> False
      | Some r \<Rightarrow> 1 \<le> r \<and> r \<le> length (rv_diversified_ranking ev) \<and> rv_diversified_ranking ev ! (r - 1) = re_hotel_id e) \<and>
     (re_eligible e \<longleftrightarrow> re_hotel_id e \<in> set (rv_visible ev @ rv_additional ev)) \<and>
     (re_stable_rank e \<noteq> None \<longleftrightarrow> re_eligible e) \<and>
     (re_rank_band e = BandExcluded \<longleftrightarrow> \<not> re_eligible e) \<and>
     (re_rank_band e = BandTop \<longleftrightarrow> re_hotel_id e \<in> set (take 3 (rv_visible ev)))"

lemma in_take_iff:
  assumes "distinct xs" and "1 \<le> r" and "r \<le> length xs"
  shows "xs ! (r - 1) \<in> set (take n xs) \<longleftrightarrow> r \<le> n"
proof
  assume "xs ! (r - 1) \<in> set (take n xs)"
  then obtain j where "j < n" "j < length xs" "xs ! j = xs ! (r - 1)" by (auto simp: in_set_conv_nth)
  moreover from this have "j = r - 1" using assms by (simp add: nth_eq_iff_index_eq)
  ultimately show "r \<le> n" by linarith
next
  assume "r \<le> n"
  with assms(2,3) have "r - 1 < n" "r - 1 < length xs" by linarith+
  then have "r - 1 < length (take n xs)" "take n xs ! (r - 1) = xs ! (r - 1)" by simp_all
  then show "xs ! (r - 1) \<in> set (take n xs)" by (metis nth_mem)
qed

text \<open>C6. The evaluations are listed in the diversified order, one for each hotel, and each is consistent with the
  lists of the result.\<close>

theorem ranking_evaluations_consistent:
  assumes "evaluate_ranking ln_of input opts = Some (Inr ev)"
  shows "map re_hotel_id (rv_evaluations ev) = rv_diversified_ranking ev \<and> list_all (evaluation_consistent ev) (rv_evaluations ev)"
proof -
  let ?ro = "resolve_ranking_options opts"
  from ranking_state [OF assms(1)] obtain bands stables visible additional st s where ok: "ranking_input_ok input"
    and b: "create_stability_bands (filter rc_eligible (base_candidates input)) (previous_order_of (rin_previous input)) ?ro = (bands, stables)"
    and ev: "ev = ranking_result ?ro (base_candidates input) bands stables visible additional (dv_metadata st)"
    and v: "visible = take (visible_limit opts) (dv_selected st)"
      "additional = filter (\<lambda>c. sc_hotel_id c \<notin> set (map sc_hotel_id visible)) stables"
    and inv: "diversity_inv (Fin s) (duplicate_limit opts) stables (select_role_anchors stables ?ro) st"
    and d: "distinct (map sc_hotel_id stables)"
    by metis
  note part = visible_part [OF inv d v]
  note fields = ranking_result_fields [of ?ro "base_candidates input" bands stables visible additional "dv_metadata st", folded ev]
  define ids where "ids = rv_diversified_ranking ev"
  define es where "es = map (evaluate_ranked_candidate bands (map_from (map (\<lambda>s. (sc_hotel_id s, s)) stables))
     (ranks_of (map sc_hotel_id visible)) (ranks_of ids) (dv_metadata st)
     (groups_by_hotel (create_near_duplicate_groups stables (map sc_hotel_id visible)))) (base_candidates input)"
  have el: "mset (map sc_hotel_id (visible @ additional)) = mset (map rc_hotel_id (filter rc_eligible (base_candidates input)))"
    unfolding part(3) by (rule mset_stable_ids [OF b])
  have mids: "mset ids = mset (map rc_hotel_id (base_candidates input))"
    unfolding ids_def fields mset_append el by (rule mset_flag_split)
  then have dids: "distinct ids" using distinct_base_ids [OF ok] mset_eq_imp_distinct_iff by blast
  have evs: "rv_evaluations ev = js_sort by_diversified_rank es" unfolding fields es_def ids_def by simp
  have "map re_hotel_id es = map rc_hotel_id (base_candidates input)" by (simp add: es_def evaluate_ranked_fields)
  then have "mset (map re_hotel_id es) = mset ids" by (simp only: mids)
  moreover have "\<forall>e \<in> set es. re_diversified_rank e = map_of (ranks_of ids) (re_hotel_id e)"
    by (simp add: es_def evaluate_ranked_fields)
  ultimately have order: "map re_hotel_id (js_sort by_diversified_rank es) = ids" by (rule sort_by_rank [OF dids])
  have keys: "map fst (map (\<lambda>s. (sc_hotel_id s, s)) stables) = map sc_hotel_id stables" by simp
  have stable: "map_of (map_from (map (\<lambda>s. (sc_hotel_id s, s)) stables)) h \<noteq> None \<longleftrightarrow> h \<in> set (map sc_hotel_id stables)" for h
  proof -
    have "map_from (map (\<lambda>s. (sc_hotel_id s, s)) stables) = map (\<lambda>s. (sc_hotel_id s, s)) stables"
      by (rule map_from_distinct) (simp only: keys d)
    then show ?thesis by (simp only: map_of_eq_None_iff set_map [symmetric] keys not_not)
  qed
  have consistent: "evaluation_consistent ev (evaluate_ranked_candidate bands (map_from (map (\<lambda>s. (sc_hotel_id s, s)) stables))
     (ranks_of (map sc_hotel_id visible)) (ranks_of ids) (dv_metadata st)
     (groups_by_hotel (create_near_duplicate_groups stables (map sc_hotel_id visible))) c)" (is "evaluation_consistent ev ?e")
    if c: "c \<in> set (base_candidates input)" for c
  proof -
    have vis: "rv_visible ev = map sc_hotel_id visible" and dv: "distinct (rv_visible ev)"
      unfolding fields using part(2) by simp_all
    have eligible: "rc_eligible c \<longleftrightarrow> rc_hotel_id c \<in> set (rv_visible ev @ rv_additional ev)"
    proof -
      have "set (rv_visible ev @ rv_additional ev) = rc_hotel_id ` set (filter rc_eligible (base_candidates input))"
        unfolding fields map_append [symmetric] mset_eq_setD [OF el] by simp
      moreover have "rc_hotel_id c = rc_hotel_id c' \<Longrightarrow> c' \<in> set (base_candidates input) \<Longrightarrow> c = c'" for c'
        using distinct_base_ids [OF ok] c by (auto simp: distinct_map dest: inj_onD)
      ultimately show ?thesis using c by auto
    qed
    have "rc_hotel_id c \<in> set ids" using mset_eq_setD [OF mids] c by simp
    then obtain r where r: "map_of (ranks_of ids) (rc_hotel_id c) = Some r" using ranks_of_None [OF dids] by fastforce
    then have dr: "1 \<le> r \<and> r \<le> length (rv_diversified_ranking ev) \<and> rv_diversified_ranking ev ! (r - 1) = rc_hotel_id c"
      using ranks_of_Some [OF dids] by (simp add: ids_def)
    have sr: "re_stable_rank ?e \<noteq> None \<longleftrightarrow> rc_eligible c"
      unfolding evaluate_ranked_fields eligible using stable mset_eq_setD [OF part(3)]
      by (simp add: fields(4,5) del: set_map)
    show ?thesis
    proof (cases "map_of (ranks_of (map sc_hotel_id visible)) (rc_hotel_id c)")
      case None
      then have out: "rc_hotel_id c \<notin> set (rv_visible ev)" using ranks_of_None dv unfolding vis by blast
      then have "rc_hotel_id c \<notin> set (take 3 (rv_visible ev))" using in_set_takeD by fast
      moreover have "get_rank_band (rc_eligible c) None (rc_score c) \<noteq> BandTop"
        "get_rank_band (rc_eligible c) None (rc_score c) = BandExcluded \<longleftrightarrow> \<not> rc_eligible c"
        by (simp_all add: get_rank_band_def)
      ultimately show ?thesis
        using sr eligible dr out unfolding evaluation_consistent_def evaluate_ranked_fields None r by simp
    next
      case (Some q)
      then have q: "1 \<le> q" "q \<le> length (rv_visible ev)" "rv_visible ev ! (q - 1) = rc_hotel_id c"
        using ranks_of_Some dv unfolding vis by blast+
      then have inside: "rc_hotel_id c \<in> set (rv_visible ev)" by (metis One_nat_def Suc_le_eq diff_less less_le_trans nth_mem zero_less_one)
      with eligible have e: "rc_eligible c" by simp
      have "rc_hotel_id c \<in> set (take 3 (rv_visible ev)) \<longleftrightarrow> q \<le> 3" using in_take_iff [OF dv q(1,2), of 3] q(3) by simp
      moreover have "get_rank_band (rc_eligible c) (Some q) (rc_score c) = BandTop \<longleftrightarrow> q \<le> 3"
        "get_rank_band (rc_eligible c) (Some q) (rc_score c) \<noteq> BandExcluded" using e by (simp_all add: get_rank_band_def)
      ultimately show ?thesis
        using sr eligible e dr inside q unfolding evaluation_consistent_def evaluate_ranked_fields Some r by simp
    qed
  qed
  have "list_all (evaluation_consistent ev) (rv_evaluations ev)"
    unfolding evs list_all_iff set_js_sort es_def using consistent by auto
  then show ?thesis using order unfolding evs ids_def by blast
qed

section \<open>A sample\<close>

definition sample_ranking_utility :: "id \<Rightarrow> utility_evaluation" where
  "sample_ranking_utility h =
     \<lparr>util_hotel_id = h, util_status = UtilityUsable, util_eligible = True,
      util_preference = \<lparr>pref_id = Balanced, pref_selected_index = Fin 2, pref_source = DefaultSource,
        pref_weights = (\<lambda>_. Fin 1)\<rparr>,
      raw_utility_score = None, utility_score = None, score_confidence = Fin 1, evidence_coverage = Fin 1,
      available_dimension_codes = [], unavailable_dimension_codes = [], contributions = [], util_warning_codes = [],
      util_evidence_ids = []\<rparr>"

definition sample_stay :: "id \<Rightarrow> rat \<Rightarrow> string option \<Rightarrow> recommendation_role \<Rightarrow> ranking_candidate" where
  "sample_stay h score property role =
     \<lparr>rk_hotel_id = h, rk_eligible = True,
      rk_recommendation = \<lparr>rr_hotel_id = h, rr_role = role, rr_primary_in_group = True, rr_smart_score = Some (Fin score),
        rr_utility_score = None, rr_evidence_ids = []\<rparr>,
      rk_utility = sample_ranking_utility h,
      rk_accommodation = \<lparr>acc_category = Hotel, acc_unit_type = HotelRoom, original_category = None,
        acc_confidence = Fin 1, acc_evidence_ids = []\<rparr>,
      rk_risk = \<lparr>risk_score = Fin 0, risk_level = RiskLow, risk_factor_codes = [], risk_evidence_ids = []\<rparr>,
      rk_price = None, rk_location = None, rk_provider = None, rk_property_key = property, rk_offer_key = None,
      rk_exclusion_codes = []\<rparr>"

text \<open>
  Two hotels whose scores are equivalent and that were ranked the other way round before, and two
  offers of one property.
\<close>

definition sample_ranking :: ranking_input where
  "sample_ranking =
     \<lparr>rin_candidates = [sample_stay ''a'' 90 None Unassigned, sample_stay ''b'' (179/2) None Unassigned,
        sample_stay ''c'' 70 (Some ''k'') Unassigned, sample_stay ''d'' 69 (Some ''k'') Unassigned],
      rin_previous = [''b'', ''a'']\<rparr>"

definition sample_ranking_options :: "nat \<Rightarrow> ranking_options" where
  "sample_ranking_options n =
     \<lparr>ro_maximum_visible = Some (Fin (of_nat n)), ro_score_tolerance = None, ro_confidence_tolerance = None,
      ro_coverage_tolerance = None, ro_risk_tolerance = None, ro_price_ratio = None, ro_score_sacrifice = None,
      ro_penalty_scale = None, ro_same_category = None, ro_same_unit_type = None, ro_same_provider = None,
      ro_near_duplicates = None, ro_price_band_ratio = None, ro_distance_band_km = None, ro_strong_confidence = None,
      ro_strong_coverage = None, ro_protect_roles = None\<rparr>"

text \<open>One evaluation of the whole engine, from which the witnesses take their values.\<close>

declare run_rounds.simps [code]

lemma sample_evaluation:
  "map_option (map_sum id (\<lambda>ev. (rv_visible ev, rv_additional ev, rv_stable_ranking ev, rv_diversity_applied ev,
       rv_reason_codes ev, map (\<lambda>e. (re_hotel_id e, re_suppressed_by e)) (rv_evaluations ev))))
     (evaluate_ranking (\<lambda>_. Fin 0) sample_ranking (sample_ranking_options 2)) =
   Some (Inr ([''a'', ''b''], [''c'', ''d''], [''b'', ''a'', ''c'', ''d''], True,
     [''ranking-deterministic-order'', ''ranking-diversity-applied'', ''ranking-equivalence-bands-created'',
      ''ranking-near-duplicates-grouped'', ''ranking-previous-order-preserved-within-equivalence''],
     [(''a'', None), (''b'', None), (''c'', Some ''c''), (''d'', Some ''c'')]))"
  by code_simp

lemma sample_ranked:
  obtains ev where "evaluate_ranking (\<lambda>_. Fin 0) sample_ranking (sample_ranking_options 2) = Some (Inr ev)"
    and "rv_visible ev = [''a'', ''b'']" and "rv_additional ev = [''c'', ''d'']"
proof -
  obtain r where r: "evaluate_ranking (\<lambda>_. Fin 0) sample_ranking (sample_ranking_options 2) = Some r"
    using sample_evaluation by (auto simp del: evaluate_ranking_def)
  with sample_evaluation obtain ev where "r = Inr ev" by (cases r) auto
  with r sample_evaluation that show thesis by auto
qed

text \<open>
  The hotels \<open>a\<close> and \<open>b\<close> have equivalent scores and \<open>b\<close> came first before: the stable ranking keeps
  \<open>b\<close> first and the result says so, but the visible order is again that of the scores. The hotels
  \<open>c\<close> and \<open>d\<close> are one property and neither is visible: \<open>c\<close> is reported as suppressed by itself,
  and diversity as applied.
\<close>

theorem visible_order_ignores_stability:
  "\<exists>ev. evaluate_ranking (\<lambda>_. Fin 0) sample_ranking (sample_ranking_options 2) = Some (Inr ev) \<and>
     take 2 (rv_stable_ranking ev) = [''b'', ''a''] \<and> rv_visible ev = [''a'', ''b''] \<and>
     ''ranking-previous-order-preserved-within-equivalence'' \<in> set (rv_reason_codes ev)"
proof -
  obtain ev where ev: "evaluate_ranking (\<lambda>_. Fin 0) sample_ranking (sample_ranking_options 2) = Some (Inr ev)"
    by (rule sample_ranked)
  with sample_evaluation show ?thesis by (intro exI [of _ ev]) simp
qed

theorem hidden_group_suppressed_by_itself:
  "\<exists>ev e. evaluate_ranking (\<lambda>_. Fin 0) sample_ranking (sample_ranking_options 2) = Some (Inr ev) \<and>
     e \<in> set (rv_evaluations ev) \<and> re_suppressed_by e = Some (re_hotel_id e) \<and> rv_diversity_applied ev"
proof -
  obtain ev where ev: "evaluate_ranking (\<lambda>_. Fin 0) sample_ranking (sample_ranking_options 2) = Some (Inr ev)"
    by (rule sample_ranked)
  with sample_evaluation have d: "rv_diversity_applied ev"
    and "map (\<lambda>e. (re_hotel_id e, re_suppressed_by e)) (rv_evaluations ev) =
      [(''a'', None), (''b'', None), (''c'', Some ''c''), (''d'', Some ''c'')]" by simp_all
  then have "(''c'', Some ''c'') \<in> set (map (\<lambda>e. (re_hotel_id e, re_suppressed_by e)) (rv_evaluations ev))"
    by (simp only: list.set insert_iff simp_thms)
  then obtain e where "e \<in> set (rv_evaluations ev)" "re_hotel_id e = ''c''" "re_suppressed_by e = Some ''c''" by auto
  with ev d show ?thesis by metis
qed

section \<open>Witnesses\<close>

lemma sample_limit: "visible_limit (sample_ranking_options 2) = 2"
  by code_simp

lemma sample_in:
  "sample_stay ''a'' 90 None Unassigned \<in> set (rin_candidates sample_ranking)"
  "sample_stay ''b'' (179/2) None Unassigned \<in> set (rin_candidates sample_ranking)"
  "sample_stay ''c'' 70 (Some ''k'') Unassigned \<in> set (rin_candidates sample_ranking)"
  by (simp_all add: sample_ranking_def)

lemma sample_flags:
  "rc_eligible (normalize_ranking_candidate (sample_stay ''c'' 70 (Some ''k'') Unassigned))"
  "list_all (\<lambda>c. \<not> rc_role_anchor (normalize_ranking_candidate c)) (rin_candidates sample_ranking)"
  "\<not> property_full (duplicate_limit (sample_ranking_options 2)) sample_ranking [''a''] (sample_stay ''c'' 70 (Some ''k'') Unassigned)"
  by code_simp+

lemma sample_id: "trimmed_id (sample_stay ''a'' q k r) = ''a''" "trimmed_id (sample_stay ''b'' q k r) = ''b''"
  "trimmed_id (sample_stay ''c'' q k r) = ''c''"
  by (simp_all add: sample_stay_def js_trim_def js_space_def)

lemma double_sample: "double 90" "double (179/2)" "double 70" "double 69"
  using double_of_int [of 90] double_of_int [of 70] double_of_int [of 69] double_dyadic [of 179 1] by simp_all

lemma sample_double_ranking_scores: "double_ranking_scores sample_ranking"
proof -
  have "map get_candidate_score (rin_candidates sample_ranking) = [Some (Fin 90), Some (Fin (179/2)), Some (Fin 70), Some (Fin 69)]"
    by code_simp
  then have "get_candidate_score ` set (rin_candidates sample_ranking) = {Some (Fin 90), Some (Fin (179/2)), Some (Fin 70), Some (Fin 69)}"
    by (metis list.set_map list.simps(15) empty_set)
  moreover have "get_candidate_score c \<in> get_candidate_score ` set (rin_candidates sample_ranking)"
    if "c \<in> set (rin_candidates sample_ranking)" for c using that by (rule imageI)
  ultimately have "\<forall>c \<in> set (rin_candidates sample_ranking).
      get_candidate_score c \<in> {Some (Fin 90), Some (Fin (179/2)), Some (Fin 70), Some (Fin 69)}" by blast
  then show ?thesis using double_sample unfolding double_ranking_scores_def by (metis empty_iff insert_iff jsnum.inject(1) option.inject)
qed

lemma sample_double_candidates: "double_candidates sample_ranking"
proof -
  let ?t = "\<lambda>c. (score_or_lowest c, rc_confidence c, rc_coverage c, rc_risk c, cost_or_infinity c)"
  have "map (?t \<circ> normalize_ranking_candidate) (rin_candidates sample_ranking) =
      [(Fin 90, Fin 1, Fin 1, Fin 0, PosInf), (Fin (179/2), Fin 1, Fin 1, Fin 0, PosInf),
       (Fin 70, Fin 1, Fin 1, Fin 0, PosInf), (Fin 69, Fin 1, Fin 1, Fin 0, PosInf)]" (is "_ = ?ts")
    by code_simp
  then have ts: "(?t \<circ> normalize_ranking_candidate) ` set (rin_candidates sample_ranking) = set ?ts" by (metis list.set_map)
  have wf: "list_all (\<lambda>t. js_wf (fst t) \<and> js_wf (fst (snd t)) \<and> js_wf (fst (snd (snd t))) \<and>
      js_wf (fst (snd (snd (snd t)))) \<and> js_wf (snd (snd (snd (snd t))))) ?ts"
    using double_on_grid [OF double_sample(2)] by simp
  have "ranked_wf (normalize_ranking_candidate c)" if "c \<in> set (rin_candidates sample_ranking)" for c
  proof -
    have "(?t \<circ> normalize_ranking_candidate) c \<in> set ?ts" unfolding ts [symmetric] using that by (rule imageI)
    with wf have "(\<lambda>t. js_wf (fst t) \<and> js_wf (fst (snd t)) \<and> js_wf (fst (snd (snd t))) \<and>
      js_wf (fst (snd (snd (snd t)))) \<and> js_wf (snd (snd (snd (snd t))))) ((?t \<circ> normalize_ranking_candidate) c)"
      unfolding list_all_iff by (rule bspec)
    then show ?thesis by (simp only: ranked_wf_def comp_apply fst_conv snd_conv)
  qed
  then show ?thesis by (simp add: double_candidates_def)
qed

lemma ranking_lists_every_hotel_once_witness:
  "\<exists>ev. evaluate_ranking (\<lambda>_. Fin 0) sample_ranking (sample_ranking_options 2) = Some (Inr ev) \<and>
     mset (rv_diversified_ranking ev) = mset (rv_base_ranking ev) \<and> rv_visible ev = [''a'', ''b'']"
proof -
  obtain ev where ev: "evaluate_ranking (\<lambda>_. Fin 0) sample_ranking (sample_ranking_options 2) = Some (Inr ev)" "rv_visible ev = [''a'', ''b'']"
    by (rule sample_ranked)
  with ranking_lists_every_hotel_once [OF ev(1)] show ?thesis by blast
qed

lemma ranking_evaluations_consistent_witness:
  "\<exists>ev. evaluate_ranking (\<lambda>_. Fin 0) sample_ranking (sample_ranking_options 2) = Some (Inr ev) \<and>
     map re_hotel_id (rv_evaluations ev) = rv_diversified_ranking ev \<and> rv_visible ev = [''a'', ''b'']"
proof -
  obtain ev where ev: "evaluate_ranking (\<lambda>_. Fin 0) sample_ranking (sample_ranking_options 2) = Some (Inr ev)" "rv_visible ev = [''a'', ''b'']"
    by (rule sample_ranked)
  with ranking_evaluations_consistent [OF ev(1)] show ?thesis by blast
qed

lemma visible_part_bounded_witness:
  "\<exists>ev. evaluate_ranking (\<lambda>_. Fin 0) sample_ranking (sample_ranking_options 2) = Some (Inr ev) \<and>
     length (rv_visible ev) \<le> 2 \<and> listed_with_key sample_ranking (rv_visible ev) ''property:k'' \<le> duplicate_limit (sample_ranking_options 2)"
proof -
  obtain ev where ev: "evaluate_ranking (\<lambda>_. Fin 0) sample_ranking (sample_ranking_options 2) = Some (Inr ev)"
    by (rule sample_ranked)
  have "is_property_key (Some ''property:k'')" by code_simp
  with visible_part_bounded [OF ev, of "''property:k''"] ev sample_limit show ?thesis by (intro exI [of _ ev]) simp
qed

lemma visible_part_filled_witness:
  "\<exists>ev. evaluate_ranking (\<lambda>_. Fin 0) sample_ranking (sample_ranking_options 2) = Some (Inr ev) \<and>
     (length (rv_visible ev) = 2 \<or>
      property_full (duplicate_limit (sample_ranking_options 2)) sample_ranking (rv_visible ev) (sample_stay ''c'' 70 (Some ''k'') Unassigned))"
proof -
  obtain ev where ev: "evaluate_ranking (\<lambda>_. Fin 0) sample_ranking (sample_ranking_options 2) = Some (Inr ev)"
    "rv_additional ev = [''c'', ''d'']" by (rule sample_ranked)
  from visible_part_filled [OF ev(1) sample_double_ranking_scores sample_in(3)] ev sample_limit show ?thesis
    by (intro exI [of _ ev]) (simp add: sample_id)
qed

lemma score_sacrifice_bounded_witness:
  "\<exists>x y. get_candidate_score (sample_stay ''c'' 70 (Some ''k'') Unassigned) = Some x \<and>
     get_candidate_score (sample_stay ''b'' (179/2) None Unassigned) = Some y \<and>
     x - rs_score_sacrifice (resolve_ranking_options (sample_ranking_options 2)) \<le> y"
proof -
  obtain ev where ev: "evaluate_ranking (\<lambda>_. Fin 0) sample_ranking (sample_ranking_options 2) = Some (Inr ev)" "rv_visible ev = [''a'', ''b'']"
    by (rule sample_ranked)
  have anchor: "\<not> rc_role_anchor (normalize_ranking_candidate (sample_stay ''b'' (179/2) None Unassigned))"
    using sample_flags(2) sample_in(2) by (simp add: list_all_iff)
  show ?thesis
    by (rule score_sacrifice_bounded [OF ev(1) sample_in(2), of 1])
      (use ev(2) anchor sample_in(3) sample_flags in \<open>simp_all add: sample_id\<close>)
qed

lemma top_place_has_best_score_witness:
  "\<exists>x y. get_candidate_score (sample_stay ''c'' 70 (Some ''k'') Unassigned) = Some x \<and>
     get_candidate_score (sample_stay ''a'' 90 None Unassigned) = Some y \<and> x \<le> y"
proof -
  obtain ev where ev: "evaluate_ranking (\<lambda>_. Fin 0) sample_ranking (sample_ranking_options 2) = Some (Inr ev)" "rv_visible ev = [''a'', ''b'']"
    by (rule sample_ranked)
  then have "rv_visible ev = trimmed_id (sample_stay ''a'' 90 None Unassigned) # [''b'']" by (simp add: sample_id)
  from top_place_has_best_score [OF ev(1) sample_double_ranking_scores sample_flags(2) this sample_in(1,3) sample_flags(1)] show ?thesis .
qed

lemma ranking_order_independent_witness:
  "\<exists>ev. evaluate_ranking (\<lambda>_. Fin 0) (sample_ranking\<lparr>rin_candidates := rev (rin_candidates sample_ranking)\<rparr>) (sample_ranking_options 2) =
       Some (Inr ev) \<and> rv_visible ev = [''a'', ''b'']"
proof -
  obtain ev where ev: "evaluate_ranking (\<lambda>_. Fin 0) sample_ranking (sample_ranking_options 2) = Some (Inr ev)" "rv_visible ev = [''a'', ''b'']"
    by (rule sample_ranked)
  have "evaluate_ranking (\<lambda>_. Fin 0) (sample_ranking\<lparr>rin_candidates := rev (rin_candidates sample_ranking)\<rparr>) (sample_ranking_options 2) =
       Some (Inr ev)"
    by (rule ranking_order_independent [OF _ _ sample_double_candidates ev(1)]) simp_all
  with ev(2) show ?thesis by blast
qed

lemma stability_band_order_witness:
  "\<exists>groups. concat groups = filter rc_eligible (base_candidates sample_ranking) \<and> list_all (\<lambda>g. g \<noteq> []) groups \<and> groups \<noteq> []"
proof -
  let ?cs = "filter rc_eligible (base_candidates sample_ranking)"
  let ?o = "resolve_ranking_options (sample_ranking_options 2)"
  have d: "distinct (map js_trim [''b'', ''a''])" "distinct (map rc_hotel_id ?cs)" by code_simp+
  obtain bands stables where "create_stability_bands ?cs (previous_order_of [''b'', ''a'']) ?o = (bands, stables)" by fastforce
  from stability_band_order [OF d this] obtain groups where "concat groups = ?cs" "list_all (\<lambda>g. g \<noteq> []) groups"
    by (auto simp: list_all_iff)
  moreover have "?cs \<noteq> []" by code_simp
  ultimately show ?thesis by (intro exI [of _ groups]) auto
qed

definition sample_anchored :: ranking_input where
  "sample_anchored =
     \<lparr>rin_candidates = [sample_stay ''a'' 90 None Unassigned, sample_stay ''c'' 70 (Some ''k'') BestChoice],
      rin_previous = []\<rparr>"

lemma role_anchors_visible_witness:
  "\<exists>ev. evaluate_ranking (\<lambda>_. Fin 0) sample_anchored (sample_ranking_options 3) = Some (Inr ev) \<and> ''c'' \<in> set (take 3 (rv_visible ev))"
proof -
  have "validate_ranking_input sample_anchored = Inr ()" by code_simp
  then obtain ev where ev: "evaluate_ranking (\<lambda>_. Fin 0) sample_anchored (sample_ranking_options 3) = Some (Inr ev)"
    using ranking_outcome_defined by (fastforce simp: evaluate_ranking_def)
  have "visible_limit (sample_ranking_options 3) = 3" "rs_protect_roles (resolve_ranking_options (sample_ranking_options 3))"
    "rc_eligible (normalize_ranking_candidate (sample_stay ''c'' 70 (Some ''k'') BestChoice))"
    "rc_role_anchor (normalize_ranking_candidate (sample_stay ''c'' 70 (Some ''k'') BestChoice))"
    "list_all (\<lambda>d. rc_eligible (normalize_ranking_candidate d) \<and> rc_role_anchor (normalize_ranking_candidate d) \<and>
        (rr_role (rk_recommendation d) = rr_role (rk_recommendation (sample_stay ''c'' 70 (Some ''k'') BestChoice)) \<or>
         duplicate_key d \<noteq> None \<and> duplicate_key d = duplicate_key (sample_stay ''c'' 70 (Some ''k'') BestChoice)) \<longrightarrow>
        trimmed_id d = trimmed_id (sample_stay ''c'' 70 (Some ''k'') BestChoice)) (rin_candidates sample_anchored)"
    by code_simp+
  moreover have "sample_stay ''c'' 70 (Some ''k'') BestChoice \<in> set (rin_candidates sample_anchored)"
    by (simp add: sample_anchored_def)
  ultimately have "trimmed_id (sample_stay ''c'' 70 (Some ''k'') BestChoice) \<in> set (take 3 (rv_visible ev))"
    by (intro role_anchors_visible [OF ev]) simp_all
  with ev show ?thesis by (intro exI [of _ ev]) (simp add: sample_id)
qed

end
