(* ===== verification/BookingFlexibility.thy ===== *)
theory BookingFlexibility
  imports StableHash Ranking
begin

text \<open>
  The hotels and offers of a search as the offer engines read them, and the flexibility context of a
  booking, \<open>src/src/engine-v2/flexibility/bookingFlexibilityContextEngine.ts\<close>: how close the check-in is and how
  scarce refundable offers are among comparable hotels, which scales the penalty of a non-refundable offer and
  the premium a refundable one may cost. \<open>Date.parse\<close>, which reads dates in formats left to the host, is the
  parameter \<open>date_parse\<close>; the calendar is computed as in ECMA-262. A property that may be \<open>null\<close> or absent is an
  option.
\<close>

section \<open>Hotels and offers\<close>

record hotel_offer =
  ho_id :: string
  ho_provider :: string
  ho_price :: jsnum
  ho_currency :: string
  ho_policy :: "string option"
  ho_refundable :: "bool option"
  ho_free_until :: "string option"
  ho_penalty :: "jsnum option"
  ho_penalty_currency :: "string option"
  ho_penalty_type :: "string option"
  ho_taxes_included :: "bool option"
  ho_excluded_taxes :: "jsnum option"
  ho_unknown_taxes :: "jsnum option"
  ho_total_known :: "jsnum option"
  ho_room_name :: "string option"
  ho_meal_plan :: "string option"
  ho_bookable :: bool

record hotel_view =
  hv_id :: id
  hv_currency :: string
  hv_offers :: "hotel_offer list"
  hv_price :: jsnum
  hv_total_known :: "jsnum option"
  hv_taxes_included :: "bool option"
  hv_excluded_taxes :: "jsnum option"
  hv_unknown_taxes :: "jsnum option"
  hv_category :: "string option"
  hv_provider_type :: "string option"
  hv_stars :: jsnum
  hv_distance :: "jsnum option"

definition is_digit :: "char \<Rightarrow> bool" where
  "is_digit c \<longleftrightarrow> (let n = of_char c :: nat in 48 \<le> n \<and> n \<le> 57)"

text \<open>
  \<open>normalizeText\<close>: lower case, with every run of other characters than letters and digits as one space.
  In a text of such words \<open>\b\<close> stands at the ends of the words.
\<close>

definition is_word_char :: "char \<Rightarrow> bool" where
  "is_word_char c \<longleftrightarrow> is_digit c \<or> (let n = of_char c :: nat in 97 \<le> n \<and> n \<le> 122)"

fun words_of :: "string \<Rightarrow> string \<Rightarrow> string list" where
  "words_of word [] = (if word = [] then [] else [rev word])"
| "words_of word (c # cs) =
     (if is_word_char c then words_of (c # word) cs
      else (if word = [] then [] else [rev word]) @ words_of [] cs)"

definition text_words :: "string option \<Rightarrow> string list" where
  "text_words value = (case value of None \<Rightarrow> [] | Some s \<Rightarrow> words_of [] (map lower_char (js_trim s)))"

section \<open>The context\<close>

datatype lead_time_band = SameDay | LastMinute | ShortNotice | StandardNotice | AdvanceNotice | UnknownNotice

datatype market_availability = Scarce | Limited | Mixed | Common | UnknownAvailability

datatype cohort_mode = CategoryStarBand | SameCategory | SearchMarket

datatype refundability = RefundableAvailable | NonRefundableOnly | UnknownRefundability

datatype deadline_state = NotReported | ActiveDeadline | ExpiredDeadline

record flexibility_context =
  fc_reference_at :: "string option"
  fc_check_in :: "string option"
  fc_lead_time_days :: "jsnum option"
  fc_lead_time_band :: lead_time_band
  fc_cohort_mode :: cohort_mode
  fc_cohort_count :: nat
  fc_known_count :: nat
  fc_refundable_count :: nat
  fc_non_refundable_count :: nat
  fc_unknown_count :: nat
  fc_refundable_share :: "jsnum option"
  fc_market :: market_availability
  fc_penalty_multiplier :: jsnum
  fc_premium_multiplier :: jsnum
  fc_reason_codes :: "string list"

record flexibility_input =
  fi_hotels :: "hotel_view list"
  fi_check_in :: "string option"
  fi_reference_at :: "string option"
  fi_target :: "string option"
  fi_maximum_distance :: "jsnum option"

fun lead_time_code :: "lead_time_band \<Rightarrow> string" where
  "lead_time_code SameDay = ''same-day''"
| "lead_time_code LastMinute = ''last-minute''"
| "lead_time_code ShortNotice = ''short-notice''"
| "lead_time_code StandardNotice = ''standard''"
| "lead_time_code AdvanceNotice = ''advance''"
| "lead_time_code UnknownNotice = ''unknown''"

fun market_code :: "market_availability \<Rightarrow> string" where
  "market_code Scarce = ''scarce''"
| "market_code Limited = ''limited''"
| "market_code Mixed = ''mixed''"
| "market_code Common = ''common''"
| "market_code UnknownAvailability = ''unknown''"

fun cohort_code :: "cohort_mode \<Rightarrow> string" where
  "cohort_code CategoryStarBand = ''category-star-band''"
| "cohort_code SameCategory = ''category''"
| "cohort_code SearchMarket = ''search-market''"

definition normalize_iso_date :: "(string \<Rightarrow> jsnum) \<Rightarrow> string option \<Rightarrow> string option" where
  "normalize_iso_date date_parse value =
     (case value of
        None \<Rightarrow> None
      | Some s \<Rightarrow> if js_blank s then None else if is_fin (date_parse (js_trim s)) then Some (js_trim s) else None)"

text \<open>
  The first day of a year, counted from 1970-01-01, and the year of a day (ECMA-262, DayFromYear and YearFromTime:
  the estimate is off by at most one).
\<close>

definition day_from_year :: "int \<Rightarrow> int" where
  "day_from_year y = 365 * (y - 1970) + (y - 1969) div 4 - (y - 1901) div 100 + (y - 1601) div 400"

definition year_of_day :: "int \<Rightarrow> int" where
  "year_of_day day =
     (let estimate = 1970 + 400 * day div 146097
      in if day < day_from_year estimate then estimate - 1
         else if day_from_year (estimate + 1) \<le> day then estimate + 1 else estimate)"

text \<open>
  \<open>Date.UTC(getUTCFullYear(), getUTCMonth(), getUTCDate())\<close>: midnight of the day. \<open>Date.UTC\<close> reads a year from 0 to
  99 as one of the twentieth century; the two years have the same months, save that 1900 has no 29th of February.
\<close>

definition get_utc_date_start :: "(string \<Rightarrow> jsnum) \<Rightarrow> string \<Rightarrow> jsnum" where
  "get_utc_date_start date_parse value =
     (case date_parse value of
        Fin t \<Rightarrow>
          (let day = \<lfloor>t\<rfloor> div 86400000; year = year_of_day day; offset = day - day_from_year year;
               start = (if 0 \<le> year \<and> year \<le> 99
                 then day_from_year (1900 + year) + (if year = 0 \<and> 59 < offset then offset - 1 else offset)
                 else day)
           in Fin (of_int (start * 86400000)))
      | _ \<Rightarrow> NaN)"

definition get_lead_time_days :: "(string \<Rightarrow> jsnum) \<Rightarrow> string option \<Rightarrow> string option \<Rightarrow> jsnum option" where
  "get_lead_time_days date_parse check_in reference_at =
     (case (check_in, reference_at) of
        (Some c, Some r) \<Rightarrow>
          (let difference =
               js_ceil (js_div (get_utc_date_start date_parse c - get_utc_date_start date_parse r) (Fin 86400000))
           in if is_fin difference then Some (js_max difference (Fin 0)) else None)
      | _ \<Rightarrow> None)"

definition classify_lead_time :: "jsnum option \<Rightarrow> lead_time_band" where
  "classify_lead_time lead_time_days =
     (case lead_time_days of
        None \<Rightarrow> UnknownNotice
      | Some d \<Rightarrow> if num_eq d (Fin 0) then SameDay else if d \<le> Fin 7 then LastMinute else if d \<le> Fin 14 then ShortNotice
          else if d \<le> Fin 30 then StandardNotice else AdvanceNotice)"

fun lead_time_penalty_multiplier :: "lead_time_band \<Rightarrow> jsnum" where
  "lead_time_penalty_multiplier SameDay = lit 0.15"
| "lead_time_penalty_multiplier LastMinute = lit 0.25"
| "lead_time_penalty_multiplier ShortNotice = lit 0.5"
| "lead_time_penalty_multiplier StandardNotice = lit 0.75"
| "lead_time_penalty_multiplier _ = Fin 1"

text \<open>\<open>normalizeCohortText\<close>: the words of the text, joined by dashes.\<close>

definition cohort_text :: "string option \<Rightarrow> string" where
  "cohort_text value = join_with ''-'' (text_words value)"

definition cohort_category :: "hotel_view \<Rightarrow> string" where
  "cohort_category hotel = cohort_text (case hv_category hotel of None \<Rightarrow> hv_provider_type hotel | Some c \<Rightarrow> Some c)"

definition get_distance_eligible_hotels :: "hotel_view list \<Rightarrow> jsnum option \<Rightarrow> hotel_view list" where
  "get_distance_eligible_hotels hotels maximum_distance_km =
     (case maximum_distance_km of
        None \<Rightarrow> hotels
      | Some m \<Rightarrow>
          if \<not> is_fin m \<or> m < Fin 0 then hotels
          else filter (\<lambda>hotel. case hv_distance hotel of None \<Rightarrow> False | Some d \<Rightarrow> is_fin d \<and> d \<le> m) hotels)"

definition resolve_cohort :: "hotel_view list \<Rightarrow> string option \<Rightarrow> hotel_view list \<times> cohort_mode" where
  "resolve_cohort hotels target_id =
     (case Option.bind target_id (\<lambda>i. List.find (\<lambda>hotel. hv_id hotel = i) hotels) of
        None \<Rightarrow> (hotels, SearchMarket)
      | Some target \<Rightarrow>
          let category = cohort_category target;
              same_category = (if category \<noteq> [] then filter (\<lambda>hotel. cohort_category hotel = category) hotels else []);
              star_band = filter (\<lambda>hotel. Fin 0 < hv_stars target \<and> Fin 0 < hv_stars hotel \<and>
                js_abs (hv_stars hotel - hv_stars target) \<le> Fin 1) same_category
          in if 3 \<le> length star_band then (star_band, CategoryStarBand)
             else if 3 \<le> length same_category then (same_category, SameCategory)
             else (hotels, SearchMarket))"

definition get_bookable_offers :: "hotel_view \<Rightarrow> hotel_offer list" where
  "get_bookable_offers hotel = filter ho_bookable (hv_offers hotel)"

definition resolve_cancellation_deadline_state :: "(string \<Rightarrow> jsnum) \<Rightarrow> hotel_offer \<Rightarrow> string option \<Rightarrow> deadline_state" where
  "resolve_cancellation_deadline_state date_parse offer reference_at =
     (case ho_free_until offer of
        None \<Rightarrow> NotReported
      | Some deadline \<Rightarrow>
          if js_blank deadline then NotReported
          else
            (let deadline_time = date_parse (js_trim deadline)
             in if \<not> is_fin deadline_time then NotReported
                else
                  (case reference_at of
                     None \<Rightarrow> ActiveDeadline
                   | Some reference \<Rightarrow>
                       if \<not> is_fin (date_parse reference) then ActiveDeadline
                       else if date_parse reference < deadline_time then ActiveDeadline else ExpiredDeadline)))"

definition resolve_hotel_refundability :: "(string \<Rightarrow> jsnum) \<Rightarrow> string option \<Rightarrow> hotel_view \<Rightarrow> refundability" where
  "resolve_hotel_refundability date_parse reference_at hotel =
     (let offers = get_bookable_offers hotel
      in if list_ex (\<lambda>offer. ho_refundable offer = Some True \<and>
              resolve_cancellation_deadline_state date_parse offer reference_at \<noteq> ExpiredDeadline) offers
         then RefundableAvailable
         else if list_ex (\<lambda>offer. ho_refundable offer = Some False \<or>
              ho_refundable offer = Some True \<and>
              resolve_cancellation_deadline_state date_parse offer reference_at = ExpiredDeadline) offers
         then NonRefundableOnly
         else UnknownRefundability)"

definition classify_market_availability :: "nat \<Rightarrow> jsnum option \<Rightarrow> market_availability" where
  "classify_market_availability known_hotel_count refundable_share =
     (case refundable_share of
        None \<Rightarrow> UnknownAvailability
      | Some share \<Rightarrow>
          if known_hotel_count < 3 then UnknownAvailability
          else if share \<le> lit 0.15 then Scarce else if share \<le> lit 0.35 then Limited
          else if share \<le> lit 0.65 then Mixed else Common)"

fun market_penalty_multiplier :: "market_availability \<Rightarrow> jsnum" where
  "market_penalty_multiplier Scarce = lit 0.2"
| "market_penalty_multiplier Limited = lit 0.45"
| "market_penalty_multiplier Mixed = lit 0.75"
| "market_penalty_multiplier _ = Fin 1"

definition penalty_multiplier :: "lead_time_band \<Rightarrow> market_availability \<Rightarrow> jsnum" where
  "penalty_multiplier band market =
     round_to 4 (clamp (js_min (lead_time_penalty_multiplier band) (market_penalty_multiplier market)) (lit 0.15) (Fin 1))"

definition premium_multiplier :: "jsnum \<Rightarrow> jsnum" where
  "premium_multiplier penalty = round_to 4 (clamp penalty (lit 0.35) (Fin 1))"

definition context_reason_codes :: "cohort_mode \<Rightarrow> lead_time_band \<Rightarrow> market_availability \<Rightarrow> jsnum \<Rightarrow> string list" where
  "context_reason_codes mode band market penalty =
     [''flexibility-cohort:'' @ cohort_code mode, ''flexibility-lead-time:'' @ lead_time_code band,
      ''flexibility-market-availability:'' @ market_code market] @
     (if penalty < Fin 1 then [''flexibility-non-refundable-penalty-contextualized''] else []) @
     (if band = SameDay \<or> band = LastMinute then [''flexibility-close-in-booking''] else []) @
     (if market = Scarce \<or> market = Limited then [''flexibility-refundable-options-limited''] else [])"

definition evaluate_booking_flexibility_context :: "(string \<Rightarrow> jsnum) \<Rightarrow> flexibility_input \<Rightarrow> flexibility_context" where
  "evaluate_booking_flexibility_context date_parse inp =
     (let reference_at = normalize_iso_date date_parse (fi_reference_at inp);
          check_in = normalize_iso_date date_parse (fi_check_in inp);
          lead_time_days = get_lead_time_days date_parse check_in reference_at;
          band = classify_lead_time lead_time_days;
          eligible = get_distance_eligible_hotels (fi_hotels inp) (fi_maximum_distance inp);
          target = (case fi_target inp of None \<Rightarrow> None | Some s \<Rightarrow> if js_blank s then None else Some (js_trim s))
      in case resolve_cohort eligible target of
           (cohort, mode) \<Rightarrow>
             let states = map (resolve_hotel_refundability date_parse reference_at) cohort;
                 refundable = length (filter (\<lambda>s. s = RefundableAvailable) states);
                 non_refundable = length (filter (\<lambda>s. s = NonRefundableOnly) states);
                 unknown = length (filter (\<lambda>s. s = UnknownRefundability) states);
                 known = refundable + non_refundable;
                 share = (if 0 < known then Some (round_to 4 (js_div (Fin (of_nat refundable)) (Fin (of_nat known)))) else None);
                 market = classify_market_availability known share;
                 penalty = penalty_multiplier band market
             in \<lparr>fc_reference_at = reference_at, fc_check_in = check_in, fc_lead_time_days = lead_time_days,
                 fc_lead_time_band = band, fc_cohort_mode = mode, fc_cohort_count = length cohort, fc_known_count = known,
                 fc_refundable_count = refundable, fc_non_refundable_count = non_refundable, fc_unknown_count = unknown,
                 fc_refundable_share = share, fc_market = market, fc_penalty_multiplier = penalty,
                 fc_premium_multiplier = premium_multiplier penalty,
                 fc_reason_codes = unique_sorted (context_reason_codes mode band market penalty)\<rparr>)"

section \<open>The calendar\<close>

lemma year_of_day_bounds: "day_from_year (year_of_day d) \<le> d \<and> d < day_from_year (year_of_day d + 1)"
proof -
  define k where "k = 400 * d div 146097"
  have k: "146097 * k \<le> 400 * d" "400 * d < 146097 * k + 146097"
    using div_mult_mod_eq [of "400 * d" 146097] pos_mod_bound [of "146097::int" "400 * d"] pos_mod_sign [of "146097::int" "400 * d"]
    unfolding k_def by linarith+
  have bounds: "146097 * (y - 1970) - 506 \<le> 400 * day_from_year y \<and> 400 * day_from_year y \<le> 146097 * (y - 1970) + 589"
    for y :: int
  proof -
    define a b c where "a = (y - 1969) div 4" and "b = (y - 1901) div 100" and "c = (y - 1601) div 400"
    have "4 * a \<le> y - 1969" "y - 1969 \<le> 4 * a + 3" "100 * b \<le> y - 1901" "y - 1901 \<le> 100 * b + 99"
      "400 * c \<le> y - 1601" "y - 1601 \<le> 400 * c + 399"
      unfolding a_def b_def c_def by linarith+
    moreover have "day_from_year y = 365 * (y - 1970) + a - b + c" by (simp add: day_from_year_def a_def b_def c_def)
    ultimately show ?thesis by (simp add: algebra_simps)
  qed
  have year: "year_of_day d =
      (if d < day_from_year (1970 + k) then 1970 + k - 1
       else if day_from_year (1970 + k + 1) \<le> d then 1970 + k + 1 else 1970 + k)"
    by (simp add: year_of_day_def Let_def flip: k_def)
  show ?thesis
    using k bounds [of "1970 + k - 1"] bounds [of "1970 + k + 2"] by (auto simp: year add.assoc)
qed

section \<open>The lead time\<close>

lemma rnd_day_multiple:
  assumes "\<bar>k\<bar> \<le> 400000000"
  shows "rnd (of_int (k * 86400000)) = Fin (of_int (k * 86400000))"
proof (rule rnd_exact)
  let ?q = "of_int (k * 86400000) :: rat"
  have k: "\<bar>k * 84375\<bar> \<le> 2 ^ 53" using assms by (simp add: abs_mult)
  have "\<bar>k * 86400000\<bar> \<le> 2 ^ 64" using assms by (simp add: abs_mult)
  then have "of_int \<bar>k * 86400000\<bar> \<le> (of_int (2 ^ 64) :: rat)" by (simp only: of_int_le_iff)
  also have "\<dots> < 2 powi 1024" using powi_less_iff [of 64 1024] powi_of_nat [of 64] by simp
  finally have "\<bar>?q\<bar> < 2 powi 1024" by simp
  then show "double ?q"
    unfolding double_def using k powi_of_nat [of 10] by (intro exI [of _ "k * 84375"] exI [of _ 10]) simp
qed

text \<open>The day of a time, with midnight as the start.\<close>

definition day_of_time :: "rat \<Rightarrow> int" where
  "day_of_time t = \<lfloor>t\<rfloor> div 86400000"

definition modern_time :: "rat \<Rightarrow> bool" where
  "modern_time t \<longleftrightarrow> \<bar>t\<bar> \<le> 8640000000000000 \<and> \<not> (0 \<le> year_of_day (day_of_time t) \<and> year_of_day (day_of_time t) \<le> 99)"

lemma date_start_modern:
  "date_parse s = Fin t \<Longrightarrow> modern_time t \<Longrightarrow> get_utc_date_start date_parse s = Fin (of_int (day_of_time t * 86400000))"
  unfolding get_utc_date_start_def modern_time_def day_of_time_def Let_def by (simp only: jsnum.case if_False)

lemma day_of_time_bound: "modern_time t \<Longrightarrow> \<bar>day_of_time t\<bar> \<le> 100000000"
proof -
  assume "modern_time t"
  then have "-8640000000000000 \<le> t" "t \<le> 8640000000000000" by (auto simp: modern_time_def)
  then have "-8640000000000000 \<le> \<lfloor>t\<rfloor>" "\<lfloor>t\<rfloor> \<le> 8640000000000000" by linarith+
  then show ?thesis unfolding day_of_time_def by linarith
qed

lemma lead_time_difference:
  assumes "date_parse c = Fin tc" "date_parse r = Fin tr" "modern_time tc" "modern_time tr"
  shows "get_lead_time_days date_parse (Some c) (Some r) = Some (Fin (of_int (max (day_of_time tc - day_of_time tr) 0)))"
proof -
  let ?d = "day_of_time tc - day_of_time tr"
  have d: "\<bar>?d\<bar> \<le> 200000000" using day_of_time_bound [OF assms(3)] day_of_time_bound [OF assms(4)] by linarith
  have "get_utc_date_start date_parse c - get_utc_date_start date_parse r = rnd (of_int (?d * 86400000))"
    by (simp add: date_start_modern [where date_parse = date_parse, OF assms(1,3)] date_start_modern [where date_parse = date_parse, OF assms(2,4)] left_diff_distrib)
  also have "\<dots> = Fin (of_int (?d * 86400000))" using d by (intro rnd_day_multiple) simp
  finally have "js_div (get_utc_date_start date_parse c - get_utc_date_start date_parse r) (Fin 86400000) = rnd (of_int ?d)"
    by (simp add: diff_divide_distrib)
  also have "\<dots> = Fin (of_int ?d)" using d by (intro rnd_of_int) simp
  finally have "get_lead_time_days date_parse (Some c) (Some r) = Some (js_max (Fin (of_int ?d)) (Fin 0))"
    by (simp add: get_lead_time_days_def js_ceil_def del: of_int_diff flip: of_int_minus)
  also have "js_max (Fin (of_int ?d)) (Fin 0) = Fin (of_int (max ?d 0))" by (simp add: js_max_def max_def)
  finally show ?thesis .
qed

section \<open>The multipliers\<close>

text \<open>The literals of the engine as doubles, each of which rounds to itself at four decimals.\<close>

lemma multiplier_literals:
  "lit 0.15 = Fin (5404319552844595 / 36028797018963968)" "lit 0.2 = Fin (3602879701896397 / 18014398509481984)"
  "lit 0.25 = Fin (1 / 4)" "lit 0.35 = Fin (3152519739159347 / 9007199254740992)"
  "lit 0.45 = Fin (8106479329266893 / 18014398509481984)" "lit 0.5 = Fin (1 / 2)" "lit 0.75 = Fin (3 / 4)"
  by code_simp+

lemma rounded_literals:
  "round_to 4 (Fin (5404319552844595 / 36028797018963968)) = Fin (5404319552844595 / 36028797018963968)"
  "round_to 4 (Fin (3602879701896397 / 18014398509481984)) = Fin (3602879701896397 / 18014398509481984)"
  "round_to 4 (Fin (1 / 4)) = Fin (1 / 4)"
  "round_to 4 (Fin (3152519739159347 / 9007199254740992)) = Fin (3152519739159347 / 9007199254740992)"
  "round_to 4 (Fin (8106479329266893 / 18014398509481984)) = Fin (8106479329266893 / 18014398509481984)"
  "round_to 4 (Fin (1 / 2)) = Fin (1 / 2)" "round_to 4 (Fin (3 / 4)) = Fin (3 / 4)" "round_to 4 (Fin 1) = Fin 1"
  by code_simp+
text \<open>What the two multipliers can be.\<close>

lemma lead_time_multiplier_range:
  "lead_time_penalty_multiplier band \<in> {lit 0.15, lit 0.25, lit 0.5, lit 0.75, Fin 1}"
  by (cases band) simp_all

lemma market_multiplier_range:
  "market_penalty_multiplier market \<in> {lit 0.2, lit 0.45, lit 0.75, Fin 1}"
  by (cases market) simp_all

lemma penalty_multiplier_min:
  "penalty_multiplier band market = js_min (lead_time_penalty_multiplier band) (market_penalty_multiplier market)"
proof -
  have "round_to 4 (clamp (js_min a b) (lit 0.15) (Fin 1)) = js_min a b"
    if "a \<in> {lit 0.15, lit 0.25, lit 0.5, lit 0.75, Fin 1}" and "b \<in> {lit 0.2, lit 0.45, lit 0.75, Fin 1}" for a b
    using that unfolding multiplier_literals
    by (elim insertE emptyE; hypsubst) (simp_all add: js_min_def js_max_def clamp_def rounded_literals)
  from this [OF lead_time_multiplier_range market_multiplier_range] show ?thesis by (simp only: penalty_multiplier_def)
qed

lemma penalty_multiplier_range:
  "penalty_multiplier band market \<in> {lit 0.15, lit 0.2, lit 0.25, lit 0.45, lit 0.5, lit 0.75, Fin 1}"
proof -
  have "js_min a b \<in> {lit 0.15, lit 0.2, lit 0.25, lit 0.45, lit 0.5, lit 0.75, Fin 1}"
    if "a \<in> {lit 0.15, lit 0.25, lit 0.5, lit 0.75, Fin 1}" and "b \<in> {lit 0.2, lit 0.45, lit 0.75, Fin 1}" for a b
    using that by (auto simp: js_min_def)
  from this [OF lead_time_multiplier_range market_multiplier_range] show ?thesis by (simp only: penalty_multiplier_min)
qed

lemma multiplier_range_bounds:
  assumes "p \<in> {lit 0.15, lit 0.2, lit 0.25, lit 0.45, lit 0.5, lit 0.75, Fin 1}"
  shows "lit 0.15 \<le> p \<and> p \<le> Fin 1" and "lit 0.35 \<le> premium_multiplier p \<and> premium_multiplier p \<le> Fin 1 \<and> p \<le> premium_multiplier p"
proof -
  note p = assms [unfolded multiplier_literals insert_iff empty_iff]
  show "lit 0.15 \<le> p \<and> p \<le> Fin 1"
    unfolding multiplier_literals using p by (elim disjE) simp_all
  show "lit 0.35 \<le> premium_multiplier p \<and> premium_multiplier p \<le> Fin 1 \<and> p \<le> premium_multiplier p"
    unfolding premium_multiplier_def multiplier_literals using p
    by (elim disjE) (simp_all add: js_min_def js_max_def clamp_def rounded_literals)
qed

lemmas multiplier_bounds = multiplier_range_bounds [OF penalty_multiplier_range]

lemma lead_time_multiplier_mono:
  assumes "Fin 0 \<le> d" and "d \<le> d'"
  shows "lead_time_penalty_multiplier (classify_lead_time (Some d)) \<le> lead_time_penalty_multiplier (classify_lead_time (Some d'))"
  using assms
  by (cases d; cases d')
    (auto simp del: lead_time_penalty_multiplier.simps
      simp add: classify_lead_time_def lead_time_penalty_multiplier.simps [unfolded multiplier_literals] num_eq_def)
section \<open>The cohort\<close>

lemma cohort_members: "resolve_cohort hotels target = (cohort, mode) \<Longrightarrow> set cohort \<subseteq> set hotels \<and> length cohort \<le> length hotels"
  unfolding resolve_cohort_def Let_def
  by (auto split: option.splits if_splits intro: le_trans [OF length_filter_le length_filter_le])

lemma eligible_members:
  "set (get_distance_eligible_hotels hotels m) \<subseteq> set hotels \<and> length (get_distance_eligible_hotels hotels m) \<le> length hotels"
  by (auto simp: get_distance_eligible_hotels_def split: option.splits)

text \<open>The cohort around a target: its peers, with the target among them.\<close>

definition peer_in :: "cohort_mode \<Rightarrow> hotel_view \<Rightarrow> hotel_view \<Rightarrow> bool" where
  "peer_in mode target hotel \<longleftrightarrow>
     (mode \<noteq> SearchMarket \<longrightarrow> cohort_category hotel = cohort_category target \<and> cohort_category target \<noteq> []) \<and>
     (mode = CategoryStarBand \<longrightarrow> Fin 0 < hv_stars target \<and> Fin 0 < hv_stars hotel \<and>
        js_abs (hv_stars hotel - hv_stars target) \<le> Fin 1)"

lemma find_first: "List.find P xs = Some x \<Longrightarrow> x \<in> set xs \<and> P x"
  by (auto simp: find_Some_iff)

lemma find_unique_key:
  assumes "x \<in> set xs" and "inj_on f (set xs)"
  shows "List.find (\<lambda>y. f y = f x) xs = Some x"
proof -
  obtain y where y: "List.find (\<lambda>y. f y = f x) xs = Some y"
    using assms(1) by (cases "List.find (\<lambda>y. f y = f x) xs") (auto simp: find_None_iff)
  then have "y = x" using find_first [OF y] assms by (auto dest: inj_onD)
  with y show ?thesis by simp
qed

lemma filter_peers:
  "filter (peer_in SearchMarket target) hotels = hotels"
  "cohort_category target \<noteq> [] \<Longrightarrow> filter (peer_in SameCategory target) hotels =
     filter (\<lambda>hotel. cohort_category hotel = cohort_category target) hotels"
  "cohort_category target \<noteq> [] \<Longrightarrow> Fin 0 < hv_stars target \<Longrightarrow> filter (peer_in CategoryStarBand target) hotels =
     filter (\<lambda>hotel. cohort_category hotel = cohort_category target \<and> Fin 0 < hv_stars hotel \<and>
       js_abs (hv_stars hotel - hv_stars target) \<le> Fin 1) hotels"
  by (rule filter_True filter_cong [OF refl]; simp add: peer_in_def)+

lemma target_cohort:
  assumes "target \<in> set hotels" and "inj_on hv_id (set hotels)" and "is_fin (hv_stars target)"
    and "resolve_cohort hotels (Some (hv_id target)) = (cohort, mode)"
  shows "cohort = filter (peer_in mode target) hotels \<and> target \<in> set cohort \<and>
    (mode \<noteq> SearchMarket \<longrightarrow> 3 \<le> length cohort)"
proof -
  have f: "List.find (\<lambda>hotel. hv_id hotel = hv_id target) hotels = Some target"
    by (rule find_unique_key [OF assms(1,2)])
  have z: "js_abs (hv_stars target - hv_stars target) = Fin 0" using assms(3) by (cases "hv_stars target") auto
  note r = assms(4) [unfolded resolve_cohort_def bind.simps f option.case Let_def]
  have "mode = SearchMarket \<and> cohort = hotels \<or>
      mode = SameCategory \<and> cohort_category target \<noteq> [] \<and> 3 \<le> length cohort \<and>
        cohort = filter (\<lambda>hotel. cohort_category hotel = cohort_category target) hotels \<or>
      mode = CategoryStarBand \<and> cohort_category target \<noteq> [] \<and> 3 \<le> length cohort \<and> Fin 0 < hv_stars target \<and>
        cohort = filter (\<lambda>hotel. cohort_category hotel = cohort_category target \<and> Fin 0 < hv_stars hotel \<and>
           js_abs (hv_stars hotel - hv_stars target) \<le> Fin 1) hotels"
    using r by (cases "Fin 0 < hv_stars target"; cases "cohort_category target = []") (auto split: if_splits)
  then show ?thesis
  proof (elim disjE conjE, goal_cases)
    case 1
    then show ?thesis using assms(1) filter_peers(1) [of target hotels] by simp
  next
    case 2
    then show ?thesis using assms(1) filter_peers(2) [of target hotels] by simp
  next
    case 3
    then show ?thesis
      using assms(1) filter_peers(3) [of target hotels] z by simp
  qed
qed
section \<open>The evaluated context\<close>

lemma context_parts:
  fixes date_parse inp
  defines "ctx \<equiv> evaluate_booking_flexibility_context date_parse inp"
  obtains cohort where "resolve_cohort (get_distance_eligible_hotels (fi_hotels inp) (fi_maximum_distance inp))
        (case fi_target inp of None \<Rightarrow> None | Some s \<Rightarrow> if js_blank s then None else Some (js_trim s)) = (cohort, fc_cohort_mode ctx)"
    and "fc_cohort_count ctx = length cohort"
    and "fc_refundable_count ctx = length (filter (\<lambda>hotel. resolve_hotel_refundability date_parse (fc_reference_at ctx) hotel = RefundableAvailable) cohort)"
    and "fc_non_refundable_count ctx = length (filter (\<lambda>hotel. resolve_hotel_refundability date_parse (fc_reference_at ctx) hotel = NonRefundableOnly) cohort)"
    and "fc_unknown_count ctx = length (filter (\<lambda>hotel. resolve_hotel_refundability date_parse (fc_reference_at ctx) hotel = UnknownRefundability) cohort)"
    and "fc_known_count ctx = fc_refundable_count ctx + fc_non_refundable_count ctx"
    and "fc_refundable_share ctx = (if 0 < fc_known_count ctx
        then Some (round_to 4 (js_div (Fin (of_nat (fc_refundable_count ctx))) (Fin (of_nat (fc_known_count ctx))))) else None)"
    and "fc_market ctx = classify_market_availability (fc_known_count ctx) (fc_refundable_share ctx)"
    and "fc_penalty_multiplier ctx = penalty_multiplier (fc_lead_time_band ctx) (fc_market ctx)"
    and "fc_premium_multiplier ctx = premium_multiplier (fc_penalty_multiplier ctx)"
    and "fc_lead_time_band ctx = classify_lead_time (fc_lead_time_days ctx)"
    and "fc_lead_time_days ctx = get_lead_time_days date_parse (fc_check_in ctx) (fc_reference_at ctx)"
    and "fc_check_in ctx = normalize_iso_date date_parse (fi_check_in inp)"
    and "fc_reference_at ctx = normalize_iso_date date_parse (fi_reference_at inp)"
proof -
  obtain cohort mode where r: "resolve_cohort (get_distance_eligible_hotels (fi_hotels inp) (fi_maximum_distance inp))
        (case fi_target inp of None \<Rightarrow> None | Some s \<Rightarrow> if js_blank s then None else Some (js_trim s)) = (cohort, mode)"
    by (rule prod.exhaust)
  note c = ctx_def [unfolded evaluate_booking_flexibility_context_def Let_def r prod.case]
  show thesis by (rule that [of cohort]) (simp_all add: c r comp_def)
qed

lemma count_refundability:
  "length (filter (\<lambda>h. f h = RefundableAvailable) xs) + length (filter (\<lambda>h. f h = NonRefundableOnly) xs) +
   length (filter (\<lambda>h. f h = UnknownRefundability) xs) = length xs"
proof (induction xs)
  case (Cons x xs)
  then show ?case by (cases "f x") auto
qed simp

section \<open>Properties\<close>

lemma share_range:
  assumes "r \<le> k" and "0 < k"
  shows "Fin 0 \<le> round_to 4 (js_div (Fin (of_nat r)) (Fin (of_nat k)))"
    and "round_to 4 (js_div (Fin (of_nat r)) (Fin (of_nat k))) \<le> Fin 1"
proof -
  let ?v = "js_div (Fin (of_nat r)) (Fin (of_nat k))"
  have v: "?v = rnd (of_nat r / of_nat k)" using assms(2) by simp
  have q: "0 \<le> (of_nat r / of_nat k :: rat)" "(of_nat r / of_nat k :: rat) \<le> 1" using assms by simp_all
  have d: "double (1::rat)" using double_of_int [of 1] by simp
  have "Fin (of_int 0) \<le> ?v" "?v \<le> Fin (of_int 1)"
    unfolding v using rnd_nonneg [OF q(1)] rnd_le_double [OF d q(2)] by simp_all
  from round_to_between [OF this] show "Fin 0 \<le> round_to 4 ?v" "round_to 4 ?v \<le> Fin 1" by simp_all
qed

text \<open>C36. The flexibility context of a booking is consistent: every hotel of the cohort is counted once, as refundable,
  as non-refundable or as unknown; the share of refundable hotels is known exactly when some hotel's terms are
  known, and lies in the unit interval; fewer than three known hotels leave the market unclassified; the penalty
  multiplier lies between 0.15 and 1, and the premium multiplier between 0.35 and 1, never below the penalty's.
\<close>

theorem booking_context_consistent:
  fixes date_parse inp
  defines "ctx \<equiv> evaluate_booking_flexibility_context date_parse inp"
  shows "fc_refundable_count ctx + fc_non_refundable_count ctx = fc_known_count ctx \<and>
    fc_known_count ctx + fc_unknown_count ctx = fc_cohort_count ctx \<and>
    fc_cohort_count ctx \<le> length (fi_hotels inp) \<and>
    (fc_refundable_share ctx = None \<longleftrightarrow> fc_known_count ctx = 0) \<and>
    (case fc_refundable_share ctx of None \<Rightarrow> True | Some share \<Rightarrow> Fin 0 \<le> share \<and> share \<le> Fin 1) \<and>
    (fc_market ctx = UnknownAvailability \<longleftrightarrow> fc_known_count ctx < 3) \<and>
    lit 0.15 \<le> fc_penalty_multiplier ctx \<and> fc_penalty_multiplier ctx \<le> Fin 1 \<and>
    lit 0.35 \<le> fc_premium_multiplier ctx \<and> fc_premium_multiplier ctx \<le> Fin 1 \<and>
    fc_penalty_multiplier ctx \<le> fc_premium_multiplier ctx"
proof (rule context_parts [of inp date_parse, folded ctx_def], goal_cases)
  case (1 cohort)
  have sum: "fc_known_count ctx + fc_unknown_count ctx = fc_cohort_count ctx"
    using count_refundability [of "resolve_hotel_refundability date_parse (fc_reference_at ctx)" cohort]
    by (simp only: 1(2-6))
  have len: "fc_cohort_count ctx \<le> length (fi_hotels inp)"
    unfolding 1(2) using cohort_members [OF 1(1)] eligible_members by (blast intro: le_trans)
  have share: "fc_refundable_share ctx = None \<longleftrightarrow> fc_known_count ctx = 0" by (simp add: 1(7))
  have unit: "case fc_refundable_share ctx of None \<Rightarrow> True | Some share \<Rightarrow> Fin 0 \<le> share \<and> share \<le> Fin 1"
    using share_range [of "fc_refundable_count ctx" "fc_known_count ctx"] 1(6)
    by (simp only: 1(7) option.case le_add1 HOL.simp_thms split: if_split) simp
  have market: "fc_market ctx = UnknownAvailability \<longleftrightarrow> fc_known_count ctx < 3"
    using share unfolding 1(8) classify_market_availability_def by (auto split: option.splits)
  show ?case
    using sum len share unit market 1(6) multiplier_bounds [of "fc_lead_time_band ctx" "fc_market ctx"]
    by (simp only: 1(9,10) HOL.simp_thms)
qed

text \<open>C37. Where both dates can be read, the lead time is the number of calendar days (in UTC) from the reference to
  the check-in, whatever the times of day, and zero for a check-in in the past: the floating-point difference and
  its ceiling are exact. It determines the band. (Dates of the years 0 to 99, which \<open>Date.UTC\<close> reads as others,
  are left out.)
\<close>

theorem lead_time_in_calendar_days:
  assumes "fi_check_in inp = Some c" and "\<not> js_blank c" and "date_parse (js_trim c) = Fin tc" and "modern_time tc"
    and "fi_reference_at inp = Some r" and "\<not> js_blank r" and "date_parse (js_trim r) = Fin tr" and "modern_time tr"
  defines "days \<equiv> max (day_of_time tc - day_of_time tr) 0"
  shows "fc_lead_time_days (evaluate_booking_flexibility_context date_parse inp) = Some (Fin (of_int days)) \<and>
    fc_lead_time_band (evaluate_booking_flexibility_context date_parse inp) =
      (if days = 0 then SameDay else if days \<le> 7 then LastMinute else if days \<le> 14 then ShortNotice
       else if days \<le> 30 then StandardNotice else AdvanceNotice)"
proof (rule context_parts [of inp date_parse], goal_cases)
  case (1 cohort)
  have "fc_lead_time_days (evaluate_booking_flexibility_context date_parse inp) = Some (Fin (of_int days))"
    unfolding 1(12) 1(13) 1(14) days_def
    using lead_time_difference [where date_parse = date_parse, OF assms(3,7,4,8)] assms(2,6) assms(3,7)
    by (simp add: normalize_iso_date_def assms(1,5))
  moreover have "classify_lead_time (Some (Fin (of_int days))) =
      (if days = 0 then SameDay else if days \<le> 7 then LastMinute else if days \<le> 14 then ShortNotice
       else if days \<le> 30 then StandardNotice else AdvanceNotice)"
    by (simp add: classify_lead_time_def num_eq_def)
  ultimately show ?case by (simp only: 1(11) HOL.simp_thms)
qed

text \<open>
  The cohort of a target hotel is exactly its peers among the hotels within the distance: hotels of its
  category and, in the narrowest mode, within one star of it; the counts are taken over them, the target included.
  A narrower cohort than the whole market has at least three hotels.
\<close>

theorem cohort_is_target_peers:
  fixes date_parse inp
  defines "ctx \<equiv> evaluate_booking_flexibility_context date_parse inp"
    and "eligible \<equiv> get_distance_eligible_hotels (fi_hotels inp) (fi_maximum_distance inp)"
  assumes "target \<in> set eligible" and "inj_on hv_id (set eligible)" and "is_fin (hv_stars target)"
    and "fi_target inp = Some s" and "\<not> js_blank s" and "js_trim s = hv_id target"
  shows "fc_cohort_count ctx = length (filter (peer_in (fc_cohort_mode ctx) target) eligible) \<and>
    fc_refundable_count ctx = length (filter (\<lambda>hotel. peer_in (fc_cohort_mode ctx) target hotel \<and>
      resolve_hotel_refundability date_parse (fc_reference_at ctx) hotel = RefundableAvailable) eligible) \<and>
    fc_non_refundable_count ctx = length (filter (\<lambda>hotel. peer_in (fc_cohort_mode ctx) target hotel \<and>
      resolve_hotel_refundability date_parse (fc_reference_at ctx) hotel = NonRefundableOnly) eligible) \<and>
    peer_in (fc_cohort_mode ctx) target target \<and> (fc_cohort_mode ctx = SearchMarket \<or> 3 \<le> fc_cohort_count ctx)"
proof (rule context_parts [of inp date_parse, folded ctx_def], goal_cases)
  case (1 cohort)
  have r: "resolve_cohort eligible (Some (hv_id target)) = (cohort, fc_cohort_mode ctx)"
    using 1(1) assms(7,8) by (simp add: assms(6) eligible_def)
  have t: "cohort = filter (peer_in (fc_cohort_mode ctx) target) eligible" "target \<in> set cohort"
    "fc_cohort_mode ctx \<noteq> SearchMarket \<longrightarrow> 3 \<le> length cohort"
    using target_cohort [OF assms(3,4,5) r] by blast+
  have p: "peer_in (fc_cohort_mode ctx) target target" using t(2) unfolding t(1) by simp
  show ?case using t(3) p by (auto simp: 1(2,3,4) t(1))
qed

section \<open>Witnesses\<close>

definition sample_date_parse :: "string \<Rightarrow> jsnum" where
  "sample_date_parse s =
     (if s = ''2026-08-10'' then Fin 1786320000000
      else if s = ''2026-08-05T21:30:00Z'' then Fin 1785965400000
      else if s = ''2026-08-08'' then Fin 1786147200000 else NaN)"

definition sample_offer :: hotel_offer where
  "sample_offer = \<lparr>ho_id = ''offer-1'', ho_provider = ''nu'', ho_price = Fin 100, ho_currency = ''eur'', ho_policy = None,
     ho_refundable = Some False, ho_free_until = None, ho_penalty = None, ho_penalty_currency = None,
     ho_penalty_type = None, ho_taxes_included = Some True, ho_excluded_taxes = None, ho_unknown_taxes = None,
     ho_total_known = Some (Fin 100), ho_room_name = Some ''Twin'', ho_meal_plan = None, ho_bookable = True\<rparr>"

definition sample_flexible_offer :: hotel_offer where
  "sample_flexible_offer = sample_offer\<lparr>ho_id := ''offer-2'', ho_total_known := Some (Fin 101), ho_refundable := Some True,
     ho_free_until := Some ''2026-08-08''\<rparr>"

definition sample_hotel :: hotel_view where
  "sample_hotel = \<lparr>hv_id = ''h1'', hv_currency = ''EUR'', hv_offers = [sample_offer, sample_flexible_offer], hv_price = Fin 100,
     hv_total_known = None, hv_taxes_included = None, hv_excluded_taxes = None, hv_unknown_taxes = None,
     hv_category = Some ''Hotel'', hv_provider_type = None, hv_stars = Fin 4, hv_distance = Some (Fin 2)\<rparr>"

definition sample_context_input :: flexibility_input where
  "sample_context_input = \<lparr>fi_hotels = [sample_hotel, sample_hotel\<lparr>hv_id := ''h2''\<rparr>, sample_hotel\<lparr>hv_id := ''h3'', hv_stars := Fin 3\<rparr>],
     fi_check_in = Some ''2026-08-10'', fi_reference_at = Some ''2026-08-05T21:30:00Z'', fi_target = Some ''h1'',
     fi_maximum_distance = Some (Fin 5)\<rparr>"

theorem lead_time_in_calendar_days_witness:
  "fc_lead_time_days (evaluate_booking_flexibility_context sample_date_parse sample_context_input) = Some (Fin 5) \<and>
   fc_lead_time_band (evaluate_booking_flexibility_context sample_date_parse sample_context_input) = LastMinute"
proof -
  have c: "fi_check_in sample_context_input = Some ''2026-08-10''" "fi_reference_at sample_context_input = Some ''2026-08-05T21:30:00Z''"
    by (simp_all add: sample_context_input_def)
  have b: "\<not> js_blank ''2026-08-10''" "\<not> js_blank ''2026-08-05T21:30:00Z''" by code_simp+
  have p: "sample_date_parse (js_trim ''2026-08-10'') = Fin 1786320000000"
    "sample_date_parse (js_trim ''2026-08-05T21:30:00Z'') = Fin 1785965400000" by code_simp+
  have m: "modern_time 1786320000000" "modern_time 1785965400000" by code_simp+
  have d: "day_of_time 1786320000000 = 20675" "day_of_time 1785965400000 = 20670" by code_simp+
  show ?thesis
    using lead_time_in_calendar_days [OF c(1) b(1) p(1) m(1) c(2) b(2) p(2) m(2)] unfolding d by simp
qed

theorem cohort_is_target_peers_witness:
  "fc_cohort_count (evaluate_booking_flexibility_context sample_date_parse sample_context_input) =
     length (filter (peer_in (fc_cohort_mode (evaluate_booking_flexibility_context sample_date_parse sample_context_input)) sample_hotel)
       (get_distance_eligible_hotels (fi_hotels sample_context_input) (fi_maximum_distance sample_context_input)))"
proof -
  let ?hotels = "[sample_hotel, sample_hotel\<lparr>hv_id := ''h2''\<rparr>, sample_hotel\<lparr>hv_id := ''h3'', hv_stars := Fin 3\<rparr>]"
  have e: "get_distance_eligible_hotels (fi_hotels sample_context_input) (fi_maximum_distance sample_context_input) = ?hotels"
    by (simp add: sample_context_input_def get_distance_eligible_hotels_def sample_hotel_def is_fin_iff)
  have "sample_hotel \<in> set ?hotels" "inj_on hv_id (set ?hotels)" by (simp_all add: sample_hotel_def)
  moreover have "is_fin (hv_stars sample_hotel)" by (simp add: sample_hotel_def is_fin_iff)
  moreover have "fi_target sample_context_input = Some ''h1''" by (simp add: sample_context_input_def)
  moreover have "\<not> js_blank ''h1''" "js_trim ''h1'' = hv_id sample_hotel" by code_simp+
  ultimately show ?thesis using cohort_is_target_peers [where inp = sample_context_input and date_parse = sample_date_parse, unfolded e] unfolding e by blast
qed

end
