(* ===== verification/OfferSelection.thy ===== *)
theory OfferSelection
  imports PriceValue BookingFlexibility
begin

text \<open>
  The choice of an offer: the cost of a stay, \<open>src/src/utils/stayCost.ts\<close>, the comparable offers of a hotel,
  \<open>src/src/utils/hotelOfferSelection.ts\<close>, and the choice under a travel preference,
  \<open>src/src/engine-v2/offers/intentAwareOfferSelectionV2.ts\<close>. \<open>Date.parse\<close>, which reads dates in
  formats left to the host, is the parameter \<open>date_parse\<close>. The records hold the properties that are read; a
  property that may be \<open>null\<close> or absent is an option.
\<close>

section \<open>Types\<close>

datatype cost_completeness = CostComplete | CostTaxUnknown | CostPartial | CostUnknown

text \<open>
  \<open>normalizeCurrency\<close> of \<open>stayCost.ts\<close> keeps any upper-case text: a currency there is a list of code units, so that
  the characters whose upper case lies outside the model's strings are covered.
\<close>

record stay_cost =
  sk_amount :: jsnum
  sk_currency :: "nat list"
  sk_completeness :: cost_completeness
  sk_taxes_included :: "bool option"
  sk_excluded_taxes :: jsnum
  sk_unknown_taxes :: jsnum

record comparable_offer =
  co_offer :: hotel_offer
  co_amount :: jsnum
  co_currency :: string
  co_completeness :: cost_completeness
  co_index :: nat

record offer_list =
  ol_primary :: "comparable_offer option"
  ol_offers :: "comparable_offer list"
  ol_alternatives :: nat

datatype selection_mode = LowestPrice | IntentAwareFlexibility

datatype room_tier = TierUnknown | TierEconomy | TierStandard | TierSuperior | TierPremium | TierExecutive | TierSuite

record selected_offer =
  so_hotel_id :: id
  so_offer_id :: string
  so_provider :: string
  so_room_name :: "string option"
  so_amount :: jsnum
  so_currency :: string
  so_completeness :: cost_completeness
  so_bookable :: bool
  so_refundable :: "bool option"
  so_free_until :: "string option"
  so_policy_known :: bool
  so_taxes_included :: "bool option"
  so_excluded_taxes :: jsnum
  so_unknown_taxes :: jsnum
  so_room_tier :: room_tier
  so_room_tier_rank :: nat
  so_mode :: selection_mode
  so_reason_codes :: "string list"

record offer_selection =
  os_hotel_id :: id
  os_primary :: "comparable_offer option"
  os_offers :: "comparable_offer list"
  os_alternatives :: nat
  os_mode :: selection_mode
  os_selected :: "selected_offer option"
  os_reason_codes :: "string list"

record offer_comparability =
  oc_comparable :: bool
  oc_same_currency :: bool
  oc_refundability :: bool
  oc_deadline :: bool
  oc_completeness :: bool
  oc_room_tier :: bool
  oc_reason_codes :: "string list"

record offer_policy =
  op_preference :: preference_id
  op_flexible :: bool
  op_premium_ratio :: jsnum
  op_premium_amount :: jsnum

section \<open>The cost of a stay\<close>

definition positive_number :: "jsnum option \<Rightarrow> jsnum option" where
  "positive_number value = (case value of Some v \<Rightarrow> if is_positive_finite v then Some v else None | None \<Rightarrow> None)"

definition get_non_negative_number :: "jsnum option \<Rightarrow> jsnum" where
  "get_non_negative_number value = (case value of Some v \<Rightarrow> if is_fin v \<and> Fin 0 \<le> v then v else Fin 0 | None \<Rightarrow> Fin 0)"

definition classify_stay_cost_completeness :: "bool option \<Rightarrow> jsnum option \<Rightarrow> jsnum option \<Rightarrow> cost_completeness" where
  "classify_stay_cost_completeness taxes_included excluded_input unknown_input =
     (let excluded = get_non_negative_number excluded_input; unknown = get_non_negative_number unknown_input
      in if Fin 0 < unknown then CostPartial
         else if taxes_included = Some True then CostComplete
         else if taxes_included = Some False \<and> Fin 0 < excluded then CostComplete
         else if taxes_included = Some False \<or> Fin 0 < excluded then CostPartial
         else if taxes_included = None then CostTaxUnknown
         else CostUnknown)"

fun completeness_priority :: "cost_completeness \<Rightarrow> nat" where
  "completeness_priority CostComplete = 0"
| "completeness_priority CostTaxUnknown = 1"
| "completeness_priority CostPartial = 2"
| "completeness_priority CostUnknown = 3"

definition upper_text :: "string \<Rightarrow> nat list" where
  "upper_text s = concat (map upper_code_units (js_trim s))"

definition stay_currency :: "string \<Rightarrow> nat list \<Rightarrow> nat list" where
  "stay_currency value fallback = (if js_blank value then fallback else upper_text value)"

definition get_comparable_offer_amount :: "hotel_offer \<Rightarrow> jsnum option" where
  "get_comparable_offer_amount offer =
     (case positive_number (ho_total_known offer) of Some v \<Rightarrow> Some v | None \<Rightarrow> positive_number (Some (ho_price offer)))"

definition create_offer_candidate :: "hotel_offer \<Rightarrow> nat list \<Rightarrow> stay_cost option" where
  "create_offer_candidate offer fallback =
     (case get_comparable_offer_amount offer of
        None \<Rightarrow> None
      | Some amount \<Rightarrow>
          Some \<lparr>sk_amount = amount, sk_currency = stay_currency (ho_currency offer) fallback,
            sk_completeness =
              classify_stay_cost_completeness (ho_taxes_included offer) (ho_excluded_taxes offer) (ho_unknown_taxes offer),
            sk_taxes_included = ho_taxes_included offer,
            sk_excluded_taxes = get_non_negative_number (ho_excluded_taxes offer),
            sk_unknown_taxes = get_non_negative_number (ho_unknown_taxes offer)\<rparr>)"

text \<open>The code units of the default currency \<open>EUR\<close>.\<close>

definition default_currency :: "nat list" where
  "default_currency = [69, 85, 82]"

definition create_hotel_fallback :: "hotel_view \<Rightarrow> stay_cost option" where
  "create_hotel_fallback hotel =
     (case (case positive_number (hv_total_known hotel) of Some v \<Rightarrow> Some v | None \<Rightarrow> positive_number (Some (hv_price hotel))) of
        None \<Rightarrow> None
      | Some amount \<Rightarrow>
          Some \<lparr>sk_amount = amount, sk_currency = stay_currency (hv_currency hotel) default_currency,
            sk_completeness =
              classify_stay_cost_completeness (hv_taxes_included hotel) (hv_excluded_taxes hotel) (hv_unknown_taxes hotel),
            sk_taxes_included = hv_taxes_included hotel,
            sk_excluded_taxes = get_non_negative_number (hv_excluded_taxes hotel),
            sk_unknown_taxes = get_non_negative_number (hv_unknown_taxes hotel)\<rparr>)"

definition get_best_comparable_stay_cost :: "hotel_view \<Rightarrow> stay_cost option" where
  "get_best_comparable_stay_cost hotel =
     (let preferred = stay_currency (hv_currency hotel) default_currency;
          candidates = List.map_filter (\<lambda>offer. create_offer_candidate offer preferred) (hv_offers hotel);
          matching = filter (\<lambda>c. sk_currency c = preferred) candidates;
          comparable = (if matching \<noteq> [] then matching else candidates)
      in if candidates = [] then create_hotel_fallback hotel
         else js_first (js_sort (\<lambda>first second. sk_amount first - sk_amount second) comparable))"

section \<open>Comparable offers\<close>

definition offer_currency :: "string \<Rightarrow> string" where
  "offer_currency value = (case normalize_currency (VString value) of Some c \<Rightarrow> c | None \<Rightarrow> [])"

definition offer_text :: "string option \<Rightarrow> string" where
  "offer_text value = (case value of None \<Rightarrow> [] | Some s \<Rightarrow> collapse_spaces False (map lower_char (js_trim s)))"

definition is_hex_letter :: "char \<Rightarrow> bool" where
  "is_hex_letter c \<longleftrightarrow> (let n = of_char c :: nat in 97 \<le> n \<and> n \<le> 102)"

text \<open>\<open>/^(?:offer-[1-9][0-9]*|offer-[a-f0-9]{24})$/i\<close> on the trimmed id.\<close>

definition has_public_offer_id :: "hotel_offer \<Rightarrow> bool" where
  "has_public_offer_id offer =
     (let text = map ascii_lower (js_trim (ho_id offer)); rest = drop 6 text
      in take 6 text = ''offer-'' \<and>
         (rest \<noteq> [] \<and> list_all is_digit rest \<and> hd rest \<noteq> CHR ''0'' \<or>
          length rest = 24 \<and> list_all (\<lambda>c. is_digit c \<or> is_hex_letter c) rest))"

definition create_comparable :: "nat \<times> hotel_offer \<Rightarrow> comparable_offer option" where
  "create_comparable entry =
     (case entry of (index, offer) \<Rightarrow>
        if \<not> has_public_offer_id offer then None
        else
          (case get_comparable_offer_amount offer of
             None \<Rightarrow> None
           | Some amount \<Rightarrow>
               if offer_currency (ho_currency offer) = [] then None
               else Some \<lparr>co_offer = offer, co_amount = amount, co_currency = offer_currency (ho_currency offer),
                 co_completeness =
                   classify_stay_cost_completeness (ho_taxes_included offer) (ho_excluded_taxes offer) (ho_unknown_taxes offer),
                 co_index = index\<rparr>))"

text \<open>\<open>String(value)\<close> of a number, and \<open>toFixed(2)\<close> of a positive one.\<close>

fun number_text :: "jsnum \<Rightarrow> string" where
  "number_text (Fin q) = number_string q"
| "number_text PosInf = ''Infinity''"
| "number_text NegInf = ''-Infinity''"
| "number_text NaN = ''NaN''"

fun to_fixed2 :: "jsnum \<Rightarrow> string" where
  "to_fixed2 (Fin q) =
     (if 10 ^ 21 \<le> q then number_string q
      else
        let hundredths = \<lfloor>q * 100 + 1 / 2\<rfloor>
        in int_string (hundredths div 100) @ ''.'' @ digits 10 (hundredths mod 100 div 10) @ digits 10 (hundredths mod 10))"
| "to_fixed2 v = number_text v"

definition bool_text :: "bool option \<Rightarrow> string" where
  "bool_text value = (case value of None \<Rightarrow> [] | Some b \<Rightarrow> if b then ''true'' else ''false'')"

definition create_fingerprint :: "comparable_offer \<Rightarrow> string" where
  "create_fingerprint c =
     (let offer = co_offer c
      in join_with ''|''
           [offer_text (Some (ho_provider offer)), offer_text (ho_room_name offer), offer_text (ho_meal_plan offer),
            to_fixed2 (co_amount c), co_currency c, offer_text (ho_policy offer), bool_text (ho_refundable offer),
            offer_text (ho_free_until offer),
            (case ho_penalty offer of None \<Rightarrow> [] | Some v \<Rightarrow> number_text v),
            offer_text (ho_penalty_currency offer), offer_text (ho_penalty_type offer),
            bool_text (ho_taxes_included offer)])"

text \<open>The map from fingerprints to offers, in the order of its keys: the first offer of each fingerprint.\<close>

definition remove_duplicates :: "comparable_offer list \<Rightarrow> comparable_offer list" where
  "remove_duplicates offers =
     map snd (foldl (\<lambda>m c. if map_of m (create_fingerprint c) \<noteq> None then m
                           else AList.update (create_fingerprint c) c m) [] offers)"

text \<open>\<open>Boolean(text)\<close>: a text that is not empty.\<close>

definition truthy_text :: "string option \<Rightarrow> bool" where
  "truthy_text value = (case value of None \<Rightarrow> False | Some s \<Rightarrow> s \<noteq> [])"

definition compare_offers :: "comparable_offer \<Rightarrow> comparable_offer \<Rightarrow> jsnum" where
  "compare_offers first second =
     (if ho_bookable (co_offer first) \<noteq> ho_bookable (co_offer second)
      then (if ho_bookable (co_offer first) then Fin (- 1) else Fin 1)
      else if \<not> num_eq (co_amount first) (co_amount second) then co_amount first - co_amount second
      else if completeness_priority (co_completeness first) \<noteq> completeness_priority (co_completeness second)
      then Fin (of_nat (completeness_priority (co_completeness first))) - Fin (of_nat (completeness_priority (co_completeness second)))
      else if truthy_text (ho_policy (co_offer first)) \<noteq> truthy_text (ho_policy (co_offer second))
      then (if truthy_text (ho_policy (co_offer first)) then Fin (- 1) else Fin 1)
      else Fin (of_nat (co_index first)) - Fin (of_nat (co_index second)))"

definition select_hotel_offers :: "hotel_view \<Rightarrow> offer_list" where
  "select_hotel_offers hotel =
     (let valid = List.map_filter create_comparable (enumerate 0 (hv_offers hotel));
          preferred_currency = offer_currency (hv_currency hotel);
          preferred = (if preferred_currency \<noteq> [] then filter (\<lambda>c. co_currency c = preferred_currency) valid else []);
          currency = (case js_first preferred of
              Some c \<Rightarrow> co_currency c
            | None \<Rightarrow> (case js_first valid of Some c \<Rightarrow> co_currency c | None \<Rightarrow> []));
          offers = js_sort compare_offers (remove_duplicates (filter (\<lambda>c. co_currency c = currency) valid))
      in \<lparr>ol_primary = js_first offers, ol_offers = offers, ol_alternatives = length offers - 1\<rparr>)"

section \<open>The choice under a preference\<close>

fun room_tier_rank :: "room_tier \<Rightarrow> nat" where
  "room_tier_rank TierUnknown = 0"
| "room_tier_rank TierEconomy = 1"
| "room_tier_rank TierStandard = 2"
| "room_tier_rank TierSuperior = 3"
| "room_tier_rank TierPremium = 4"
| "room_tier_rank TierExecutive = 5"
| "room_tier_rank TierSuite = 6"

definition normalize_preference_id :: "string option \<Rightarrow> preference_id" where
  "normalize_preference_id value =
     (case Option.bind value is_preference_id of Some p \<Rightarrow> p | None \<Rightarrow> Balanced)"

definition resolve_offer_policy :: "string option \<Rightarrow> flexibility_context option \<Rightarrow> offer_policy" where
  "resolve_offer_policy preference flexibility =
     (let p = normalize_preference_id preference;
          multiplier = (case flexibility of None \<Rightarrow> Fin 1 | Some f \<Rightarrow> fc_premium_multiplier f);
          flexible = (\<lambda>ratio amount. \<lparr>op_preference = p, op_flexible = True, op_premium_ratio = ratio * multiplier,
            op_premium_amount = amount * multiplier\<rparr>)
      in if p = MaximumComfort then flexible (lit 0.08) (Fin 75)
         else if p = Comfort then flexible (lit 0.05) (Fin 50)
         else if p = Balanced then flexible (lit 0.025) (Fin 25)
         else \<lparr>op_preference = p, op_flexible = False, op_premium_ratio = Fin 0, op_premium_amount = Fin 0\<rparr>)"

definition room_text :: "string option \<Rightarrow> string" where
  "room_text value = join_with '' '' (text_words value)"

definition classify_room_tier :: "string option \<Rightarrow> room_tier" where
  "classify_room_tier room_name =
     (let ws = text_words room_name; mentions = (\<lambda>names. list_ex (\<lambda>w. w \<in> set names) ws)
      in if ws = [] then TierUnknown
         else if mentions [''presidential'', ''royal'', ''penthouse'', ''suite''] then TierSuite
         else if mentions [''executive'', ''club'', ''business''] then TierExecutive
         else if mentions [''deluxe'', ''premium'', ''prestige''] then TierPremium
         else if mentions [''superior''] then TierSuperior
         else if mentions [''economy'', ''budget'', ''basic''] then TierEconomy
         else if mentions [''standard'', ''classic'', ''double'', ''twin'', ''single'', ''room''] then TierStandard
         else TierUnknown)"

definition get_room_tier_rank :: "string option \<Rightarrow> nat" where
  "get_room_tier_rank room_name = room_tier_rank (classify_room_tier room_name)"

definition has_valid_cancellation_deadline :: "(string \<Rightarrow> jsnum) \<Rightarrow> hotel_offer \<Rightarrow> string option \<Rightarrow> bool" where
  "has_valid_cancellation_deadline date_parse offer reference_at =
     (case ho_free_until offer of
        None \<Rightarrow> False
      | Some deadline \<Rightarrow>
          \<not> js_blank deadline \<and>
          (let deadline_time = date_parse (js_trim deadline)
           in is_fin deadline_time \<and>
              (case reference_at of
                 None \<Rightarrow> True
               | Some reference \<Rightarrow> \<not> is_fin (date_parse reference) \<or> date_parse reference < deadline_time)))"

definition is_room_tier_compatible :: "comparable_offer \<Rightarrow> comparable_offer \<Rightarrow> bool" where
  "is_room_tier_compatible c baseline =
     (let rank = get_room_tier_rank (ho_room_name (co_offer c));
          baseline_rank = get_room_tier_rank (ho_room_name (co_offer baseline))
      in if rank = 0 \<or> baseline_rank = 0
         then room_text (ho_room_name (co_offer c)) = room_text (ho_room_name (co_offer baseline))
         else baseline_rank \<le> rank)"

definition is_marginal_premium :: "comparable_offer \<Rightarrow> comparable_offer \<Rightarrow> offer_policy \<Rightarrow> bool" where
  "is_marginal_premium c baseline policy =
     (let premium = co_amount c - co_amount baseline
      in premium < Fin 0 \<or>
         premium \<le> op_premium_amount policy \<and> js_div premium (co_amount baseline) \<le> op_premium_ratio policy)"

definition is_flexible_upgrade :: "comparable_offer \<Rightarrow> comparable_offer \<Rightarrow> offer_policy \<Rightarrow> bool" where
  "is_flexible_upgrade c baseline policy \<longleftrightarrow>
     ho_bookable (co_offer c) \<and> co_currency c = co_currency baseline \<and> ho_refundable (co_offer c) = Some True \<and>
     is_marginal_premium c baseline policy \<and>
     completeness_priority (co_completeness c) \<le> completeness_priority (co_completeness baseline) \<and>
     is_room_tier_compatible c baseline"

definition bool_number :: "bool \<Rightarrow> jsnum" where
  "bool_number b = (if b then Fin 1 else Fin 0)"

definition compare_upgrades :: "(string \<Rightarrow> jsnum) \<Rightarrow> string option \<Rightarrow> comparable_offer \<Rightarrow> comparable_offer \<Rightarrow> jsnum" where
  "compare_upgrades date_parse reference_at first second =
     js_or (bool_number (has_valid_cancellation_deadline date_parse (co_offer second) reference_at) -
            bool_number (has_valid_cancellation_deadline date_parse (co_offer first) reference_at))
       (js_or (Fin (of_nat (completeness_priority (co_completeness first))) -
               Fin (of_nat (completeness_priority (co_completeness second))))
         (js_or (Fin (of_nat (get_room_tier_rank (ho_room_name (co_offer second)))) -
                 Fin (of_nat (get_room_tier_rank (ho_room_name (co_offer first)))))
           (js_or (co_amount first - co_amount second)
             (Fin (of_nat (co_index first)) - Fin (of_nat (co_index second))))))"

definition preference_reason :: "offer_policy \<Rightarrow> string" where
  "preference_reason policy = ''offer-selection-preference:'' @ preference_code (op_preference policy)"

definition choose_primary ::
  "(string \<Rightarrow> jsnum) \<Rightarrow> comparable_offer list \<Rightarrow> offer_policy \<Rightarrow> flexibility_context option \<Rightarrow>
     comparable_offer option \<times> selection_mode \<times> string list" where
  "choose_primary date_parse offers policy flexibility =
     (let reference_at = Option.bind flexibility fc_reference_at
      in case js_first offers of
           None \<Rightarrow> (None, LowestPrice, [''offer-selection-lowest-price'', preference_reason policy])
         | Some baseline \<Rightarrow>
             if \<not> op_flexible policy \<or> ho_refundable (co_offer baseline) = Some True
             then (Some baseline, LowestPrice, [''offer-selection-lowest-price'', preference_reason policy])
             else
               (case js_first (js_sort (compare_upgrades date_parse reference_at)
                        (filter (\<lambda>c. is_flexible_upgrade c baseline policy) offers)) of
                  None \<Rightarrow>
                    (Some baseline, LowestPrice,
                     [''offer-selection-lowest-price'', ''offer-selection-no-coherent-flexible-upgrade'', preference_reason policy])
                | Some selected \<Rightarrow>
                    (Some selected, IntentAwareFlexibility,
                     [''offer-selection-intent-aware'', ''offer-selection-refundable-upgrade'', ''offer-selection-marginal-premium'',
                      ''offer-selection-room-tier-preserved'',
                      if has_valid_cancellation_deadline date_parse (co_offer selected) reference_at
                      then ''offer-selection-free-cancellation-verified'' else ''offer-selection-refundability-verified'',
                      preference_reason policy])))"

definition create_selected_offer ::
  "hotel_view \<Rightarrow> comparable_offer option \<Rightarrow> selection_mode \<Rightarrow> string list \<Rightarrow> selected_offer option" where
  "create_selected_offer hotel primary mode codes =
     map_option (\<lambda>c.
         let offer = co_offer c; tier = classify_room_tier (ho_room_name offer)
         in \<lparr>so_hotel_id = hv_id hotel, so_offer_id = ho_id offer, so_provider = ho_provider offer,
             so_room_name = ho_room_name offer, so_amount = co_amount c, so_currency = co_currency c,
             so_completeness = co_completeness c, so_bookable = ho_bookable offer, so_refundable = ho_refundable offer,
             so_free_until =
               (case ho_free_until offer of None \<Rightarrow> None | Some s \<Rightarrow> if js_blank s then None else Some (js_trim s)),
             so_policy_known = truthy_text (ho_policy offer), so_taxes_included = ho_taxes_included offer,
             so_excluded_taxes = get_non_negative_number (ho_excluded_taxes offer),
             so_unknown_taxes = get_non_negative_number (ho_unknown_taxes offer),
             so_room_tier = tier, so_room_tier_rank = room_tier_rank tier, so_mode = mode,
             so_reason_codes = unique_sorted codes\<rparr>) primary"

definition select_intent_aware_offer ::
  "(string \<Rightarrow> jsnum) \<Rightarrow> hotel_view \<Rightarrow> string option \<Rightarrow> flexibility_context option \<Rightarrow> offer_selection" where
  "select_intent_aware_offer date_parse hotel preference flexibility =
     (let base = select_hotel_offers hotel;
          context_codes = (case flexibility of None \<Rightarrow> [] | Some f \<Rightarrow> fc_reason_codes f)
      in case choose_primary date_parse (ol_offers base) (resolve_offer_policy preference flexibility) flexibility of
           (primary, mode, codes) \<Rightarrow>
             \<lparr>os_hotel_id = hv_id hotel, os_primary = primary, os_offers = ol_offers base,
              os_alternatives = ol_alternatives base, os_mode = mode,
              os_selected = create_selected_offer hotel primary mode (codes @ context_codes),
              os_reason_codes = unique_sorted (codes @ context_codes)\<rparr>)"

definition compare_selected_offers :: "offer_selection option \<Rightarrow> offer_selection option \<Rightarrow> offer_comparability" where
  "compare_selected_offers candidate_selection baseline_selection =
     (case (Option.bind candidate_selection os_selected, Option.bind baseline_selection os_selected) of
        (Some c, Some b) \<Rightarrow>
          let same_currency = (so_currency c = so_currency b);
              refundability = (so_refundable b \<noteq> Some True \<or> so_refundable c = Some True);
              baseline_deadline = (so_refundable b = Some True \<and> so_free_until b \<noteq> None);
              deadline = (\<not> baseline_deadline \<or> so_refundable c = Some True \<and> so_free_until c \<noteq> None);
              completeness = (completeness_priority (so_completeness c) \<le> completeness_priority (so_completeness b) \<and>
                so_unknown_taxes c \<le> so_unknown_taxes b);
              tier = (if 0 < so_room_tier_rank b \<and> 0 < so_room_tier_rank c then so_room_tier_rank b \<le> so_room_tier_rank c
                else room_text (so_room_name c) \<noteq> [] \<and> room_text (so_room_name c) = room_text (so_room_name b));
              comparable = (so_bookable b \<and> so_bookable c \<and> same_currency \<and> refundability \<and> deadline \<and> completeness \<and> tier)
          in \<lparr>oc_comparable = comparable, oc_same_currency = same_currency, oc_refundability = refundability,
              oc_deadline = deadline, oc_completeness = completeness, oc_room_tier = tier,
              oc_reason_codes = unique_sorted
                [if comparable then ''offer-comparison-commercially-comparable'' else ''offer-comparison-commercially-incompatible'',
                 if same_currency then ''offer-comparison-same-currency'' else ''offer-comparison-currency-mismatch'',
                 if refundability then ''offer-comparison-refundability-compatible'' else ''offer-comparison-refundability-downgrade'',
                 if deadline then ''offer-comparison-cancellation-compatible'' else ''offer-comparison-cancellation-deadline-missing'',
                 if completeness then ''offer-comparison-cost-completeness-compatible'' else ''offer-comparison-cost-completeness-worse'',
                 if tier then ''offer-comparison-room-tier-compatible'' else ''offer-comparison-room-tier-downgrade'']\<rparr>
      | _ \<Rightarrow>
          \<lparr>oc_comparable = False, oc_same_currency = False, oc_refundability = False, oc_deadline = False,
           oc_completeness = False, oc_room_tier = False,
           oc_reason_codes = [''offer-comparison-selected-offer-unavailable'']\<rparr>)"

section \<open>The order of the offers\<close>

text \<open>
  The comparison of two offers, as a key whose lexicographic order it is: bookable offers first, then the lower
  amount, the more complete cost, a stated cancellation policy, and the place in the provider's list.
\<close>

definition offer_key :: "comparable_offer \<Rightarrow> rat list" where
  "offer_key c =
     [if ho_bookable (co_offer c) then 0 else 1, fin_val (co_amount c), of_nat (completeness_priority (co_completeness c)),
      if truthy_text (ho_policy (co_offer c)) then 0 else 1, of_nat (co_index c)]"

definition priced_offers :: "comparable_offer set" where
  "priced_offers = {c. \<exists>q. co_amount c = Fin q \<and> 0 < q \<and> on_grid q}"

lemma nat_difference_pos: "Fin 0 < Fin (of_nat a) - Fin (of_nat b) \<longleftrightarrow> b < a"
  using rnd_pos_iff [of "of_nat a - of_nat b"] on_grid_of_int [of "int a - int b"] by simp

lemma compare_offers_pos:
  assumes "a \<in> priced_offers" and "b \<in> priced_offers"
  shows "Fin 0 < compare_offers a b \<longleftrightarrow> offer_key b < offer_key a"
proof -
  obtain p q where p: "co_amount a = Fin p" "co_amount b = Fin q" "on_grid p" "on_grid q"
    using assms by (auto simp: priced_offers_def)
  show ?thesis
    unfolding compare_offers_def offer_key_def p(1,2)
    by (auto simp: num_eq_def rnd_pos_iff [OF on_grid_diff [OF p(3,4)]] nat_difference_pos simp del: minus_Fin)
      (simp_all add: rnd_pos_iff [OF on_grid_diff [OF p(3,4)]])
qed

interpretation offer_order: comparator compare_offers priced_offers
  by unfold_locales (auto simp: compare_offers_pos)

section \<open>Duplicates\<close>

definition first_by_key :: "('a \<Rightarrow> 'k) \<Rightarrow> 'a list \<Rightarrow> 'a list" where
  "first_by_key f xs = map snd (foldl (\<lambda>m x. if map_of m (f x) \<noteq> None then m else AList.update (f x) x m) [] xs)"

lemma update_new_key: "map_of m k = None \<Longrightarrow> AList.update k v m = m @ [(k, v)]"
  by (induction m) (auto split: if_splits)

lemma first_by_key_entries:
  "foldl (\<lambda>m x. if map_of m (f x) \<noteq> None then m else AList.update (f x) x m) [] xs = map (\<lambda>x. (f x, x)) (first_by_key f xs) \<and>
   f ` set (first_by_key f xs) = f ` set xs"
proof (induction xs rule: rev_induct)
  case (snoc x xs)
  let ?m = "map (\<lambda>x. (f x, x)) (first_by_key f xs)"
  have k: "map_of ?m (f x) \<noteq> None \<longleftrightarrow> f x \<in> f ` set xs"
    using snoc.IH by (simp add: map_of_eq_None_iff image_image)
  show ?case
  proof (cases "f x \<in> f ` set xs")
    case True
    with k snoc.IH show ?thesis by (auto simp: first_by_key_def comp_def)
  next
    case False
    with k have "map_of ?m (f x) = None" by blast
    with snoc.IH show ?thesis by (simp add: first_by_key_def update_new_key comp_def)
  qed
qed (simp add: first_by_key_def)

lemma first_by_key_snoc:
  "first_by_key f (xs @ [x]) = first_by_key f xs @ (if f x \<in> f ` set xs then [] else [x])"
proof -
  let ?m = "map (\<lambda>x. (f x, x)) (first_by_key f xs)"
  note e = conjunct1 [OF first_by_key_entries [of f xs]]
  have k: "map_of ?m (f x) = None \<longleftrightarrow> f x \<notin> f ` set xs"
    using first_by_key_entries [of f xs] by (simp add: map_of_eq_None_iff image_image)
  show ?thesis
    unfolding first_by_key_def [of f "xs @ [x]"] foldl_append e foldl.simps
    by (cases "map_of ?m (f x) = None") (use k in \<open>simp_all add: update_new_key comp_def del: not_None_eq\<close>)
qed

lemma first_by_key_Nil [simp]: "first_by_key f [] = []"
  by (simp add: first_by_key_def)

lemma set_first_by_key: "set (first_by_key f xs) \<subseteq> set xs"
  by (induction xs rule: rev_induct) (auto simp: first_by_key_snoc)

lemma distinct_first_by_key: "distinct (map f (first_by_key f xs))"
proof (induction xs rule: rev_induct)
  case (snoc x xs)
  then show ?case using conjunct2 [OF first_by_key_entries [of f xs]] by (simp add: first_by_key_snoc)
qed simp

lemma sorted_first_by_key: "sorted_wrt R xs \<Longrightarrow> sorted_wrt R (first_by_key f xs)"
proof (induction xs rule: rev_induct)
  case (snoc x xs)
  then show ?case using set_first_by_key [of f xs] by (auto simp: first_by_key_snoc sorted_wrt_append)
qed simp

text \<open>Every element has the first one of its key in its place, which stands no later.\<close>

lemma first_by_key_represents:
  assumes "x \<in> set xs" and "sorted_wrt R xs"
  obtains y where "y \<in> set (first_by_key f xs)" and "f y = f x" and "y = x \<or> R y x"
proof -
  have "\<exists>y \<in> set (first_by_key f xs). f y = f x \<and> (y = x \<or> R y x)"
    using assms
  proof (induction xs rule: rev_induct)
    case (snoc z xs)
    show ?case
    proof (cases "x \<in> set xs")
      case True
      with snoc show ?thesis by (auto simp: first_by_key_snoc sorted_wrt_append)
    next
      case False
      with snoc.prems have z: "x = z" by simp
      show ?thesis
      proof (cases "f z \<in> f ` set xs")
        case True
        then have "f z \<in> f ` set (first_by_key f xs)" by (simp only: conjunct2 [OF first_by_key_entries])
        then obtain y where y: "f z = f y" "y \<in> set (first_by_key f xs)" by (rule imageE)
        have "y \<in> set xs" using y(2) set_first_by_key [of f xs] by blast
        with snoc.prems(2) have "R y z" by (simp add: sorted_wrt_append)
        with y z True show ?thesis by (intro bexI [of _ y]) (simp_all add: first_by_key_snoc)
      qed (simp add: first_by_key_snoc z)
    qed
  qed simp
  then show thesis using that by blast
qed

lemma remove_duplicates_first: "remove_duplicates offers = first_by_key create_fingerprint offers"
  by (simp add: remove_duplicates_def first_by_key_def)

section \<open>The offers of a hotel\<close>

definition valid_offers :: "hotel_view \<Rightarrow> comparable_offer list" where
  "valid_offers hotel = List.map_filter create_comparable (enumerate 0 (hv_offers hotel))"

definition comparison_currency :: "hotel_view \<Rightarrow> string" where
  "comparison_currency hotel =
     (let own = offer_currency (hv_currency hotel)
      in if own \<noteq> [] \<and> (\<exists>c \<in> set (valid_offers hotel). co_currency c = own) then own
         else case js_first (valid_offers hotel) of Some c \<Rightarrow> co_currency c | None \<Rightarrow> [])"

definition in_currency :: "hotel_view \<Rightarrow> comparable_offer list" where
  "in_currency hotel = filter (\<lambda>c. co_currency c = comparison_currency hotel) (valid_offers hotel)"

lemma js_first_filter: "js_first (filter P xs) = List.find P xs"
  by (induction xs) auto

lemma select_offers:
  "select_hotel_offers hotel =
     (let offers = js_sort compare_offers (first_by_key create_fingerprint (in_currency hotel))
      in \<lparr>ol_primary = js_first offers, ol_offers = offers, ol_alternatives = length offers - 1\<rparr>)"
proof -
  let ?own = "offer_currency (hv_currency hotel)"
  let ?valid = "valid_offers hotel"
  have "(case js_first (if ?own \<noteq> [] then filter (\<lambda>c. co_currency c = ?own) ?valid else []) of
      Some c \<Rightarrow> co_currency c
    | None \<Rightarrow> (case js_first ?valid of Some c \<Rightarrow> co_currency c | None \<Rightarrow> [])) = comparison_currency hotel"
  proof (cases "?own \<noteq> [] \<and> (\<exists>c \<in> set ?valid. co_currency c = ?own)")
    case True
    then obtain c where c: "List.find (\<lambda>c. co_currency c = ?own) ?valid = Some c"
      by (cases "List.find (\<lambda>c. co_currency c = ?own) ?valid") (auto simp: find_None_iff)
    with True find_first [OF c] show ?thesis by (simp add: comparison_currency_def Let_def js_first_filter)
  next
    case False
    then have "js_first (if ?own \<noteq> [] then filter (\<lambda>c. co_currency c = ?own) ?valid else []) = None" by auto
    with False show ?thesis by (simp only: comparison_currency_def Let_def option.case if_False)
  qed
  then show ?thesis
    unfolding select_hotel_offers_def Let_def valid_offers_def [symmetric]
    by (simp only: in_currency_def remove_duplicates_first)
qed

text \<open>What the prices of a hotel are: numbers of the language, hence doubles where they are finite.\<close>

definition double_number :: "jsnum \<Rightarrow> bool" where
  "double_number v \<longleftrightarrow> (case v of Fin q \<Rightarrow> double q | _ \<Rightarrow> True)"

definition double_offers :: "hotel_view \<Rightarrow> bool" where
  "double_offers hotel \<longleftrightarrow> (\<forall>offer \<in> set (hv_offers hotel). double_number (ho_price offer) \<and>
     (case ho_total_known offer of None \<Rightarrow> True | Some v \<Rightarrow> double_number v))"

lemma positive_number_Some: "positive_number v = Some w \<Longrightarrow> \<exists>q. v = Some (Fin q) \<and> w = Fin q \<and> 0 < q"
  by (auto simp: positive_number_def is_positive_finite_def is_fin_iff split: option.splits if_splits)

lemma offer_amount:
  assumes "get_comparable_offer_amount offer = Some v" and "double_number (ho_price offer)"
    and "case ho_total_known offer of None \<Rightarrow> True | Some v \<Rightarrow> double_number v"
  shows "\<exists>q. v = Fin q \<and> 0 < q \<and> on_grid q"
  using assms unfolding get_comparable_offer_amount_def
  by (auto simp: double_number_def split: option.splits dest!: positive_number_Some intro: double_on_grid)

lemma create_comparable_Some:
  assumes "create_comparable (i, offer) = Some c"
  shows "co_offer c = offer \<and> co_index c = i \<and> co_currency c \<noteq> [] \<and> get_comparable_offer_amount offer = Some (co_amount c)"
  using assms by (auto simp: create_comparable_def split: if_splits option.splits)

lemma map_filter_snoc: "List.map_filter f (xs @ [x]) = List.map_filter f xs @ (case f x of None \<Rightarrow> [] | Some y \<Rightarrow> [y])"
  by (simp add: map_filter_def split: option.splits)

lemma valid_offers_in:
  assumes "c \<in> set (valid_offers hotel)"
  obtains i where "i < length (hv_offers hotel)" and "create_comparable (i, hv_offers hotel ! i) = Some c"
proof -
  obtain e where "e \<in> set (enumerate 0 (hv_offers hotel))" "create_comparable e = Some c"
    using assms by (auto simp: valid_offers_def map_filter_def)
  then show thesis using that [of "fst e"] in_set_enumerate_eq [of e 0 "hv_offers hotel"] by simp
qed

lemma sorted_map_filter:
  "sorted_wrt R xs \<Longrightarrow> (\<And>x y u v. R x y \<Longrightarrow> f x = Some u \<Longrightarrow> f y = Some v \<Longrightarrow> Q u v) \<Longrightarrow> sorted_wrt Q (List.map_filter f xs)"
  by (induction xs) (auto simp: map_filter_def split: option.splits)

lemma valid_offers_index: "sorted_wrt (\<lambda>a b. co_index a < co_index b) (valid_offers hotel)"
  unfolding valid_offers_def
proof (rule sorted_map_filter [where R = "\<lambda>a b. fst a < fst b"])
  show "sorted_wrt (\<lambda>a b. fst a < fst b) (enumerate 0 (hv_offers hotel))"
    using sorted_wrt_map [of "(<)" fst "enumerate 0 (hv_offers hotel)"] sorted_wrt_upt [of 0 "0 + length (hv_offers hotel)"]
    by (simp only: map_fst_enumerate)
next
  fix x y :: "nat \<times> hotel_offer" and u v
  assume "fst x < fst y" "create_comparable x = Some u" "create_comparable y = Some v"
  then show "co_index u < co_index v"
    using create_comparable_Some [of "fst x" "snd x" u] create_comparable_Some [of "fst y" "snd y" v] by simp
qed

lemma in_currency_index: "sorted_wrt (\<lambda>a b. co_index a < co_index b) (in_currency hotel)"
  unfolding in_currency_def by (rule sorted_wrt_filter [OF valid_offers_index])

lemma valid_offers_priced:
  assumes "double_offers hotel"
  shows "set (valid_offers hotel) \<subseteq> priced_offers"
proof
  fix c assume "c \<in> set (valid_offers hotel)"
  then obtain i where i: "i < length (hv_offers hotel)" "create_comparable (i, hv_offers hotel ! i) = Some c"
    by (rule valid_offers_in)
  then have "hv_offers hotel ! i \<in> set (hv_offers hotel)" by simp
  with assms have d: "double_number (ho_price (hv_offers hotel ! i))"
    "case ho_total_known (hv_offers hotel ! i) of None \<Rightarrow> True | Some v \<Rightarrow> double_number v"
    unfolding double_offers_def by blast+
  have "get_comparable_offer_amount (hv_offers hotel ! i) = Some (co_amount c)" using create_comparable_Some [OF i(2)] by blast
  from offer_amount [OF this d] show "c \<in> priced_offers" by (simp add: priced_offers_def)
qed

lemma selected_list:
  assumes "double_offers hotel"
  defines "offers \<equiv> ol_offers (select_hotel_offers hotel)"
  shows "set offers = set (first_by_key create_fingerprint (in_currency hotel))" and "set offers \<subseteq> set (in_currency hotel)"
    and "set offers \<subseteq> priced_offers" and "sorted_wrt (\<lambda>a b. offer_key a < offer_key b) offers"
    and "distinct (map create_fingerprint offers)"
proof -
  let ?first = "first_by_key create_fingerprint (in_currency hotel)"
  have o: "offers = js_sort compare_offers ?first" by (simp add: offers_def select_offers Let_def)
  show s: "set offers = set ?first" by (simp add: o)
  show c: "set offers \<subseteq> set (in_currency hotel)" unfolding s by (rule set_first_by_key)
  have "set (in_currency hotel) \<subseteq> set (valid_offers hotel)" by (auto simp: in_currency_def)
  with c valid_offers_priced [OF assms(1)] show p: "set offers \<subseteq> priced_offers" by blast
  have "mset (map create_fingerprint offers) = mset (map create_fingerprint ?first)" by (simp add: o)
  from mset_eq_imp_distinct_iff [OF this] show "distinct (map create_fingerprint offers)"
    by (simp only: distinct_first_by_key)
  have "sorted_wrt (\<lambda>a b. co_index a < co_index b) ?first" by (rule sorted_first_by_key [OF in_currency_index])
  then have "sorted_wrt (<) (map co_index ?first)" by (simp only: sorted_wrt_map)
  then have "distinct (map co_index ?first)" by (simp only: strict_sorted_iff)
  moreover have "mset (map co_index offers) = mset (map co_index ?first)" by (simp add: o)
  from mset_eq_imp_distinct_iff [OF this] have "distinct (map co_index offers) = distinct (map co_index ?first)" .
  ultimately have di: "distinct (map co_index offers)" by simp
  have "sorted_wrt offer_order.not_after offers"
    unfolding o using p by (intro offer_order.sorted_sort) (simp add: s [symmetric])
  then have "sorted_wrt (\<lambda>a b. offer_key a \<le> offer_key b) offers"
    by (rule sorted_wrt_mono_rel [rotated]) (use p in \<open>auto simp: offer_order.not_after_def compare_offers_pos subset_iff not_less\<close>)
  then have "sorted (map offer_key offers)" by (simp add: sorted_map)
  moreover have "distinct (map offer_key offers)"
  proof -
    have "distinct (map (\<lambda>c. last (offer_key c)) offers)"
      using di distinct_map [of "of_nat :: nat \<Rightarrow> rat" "map co_index offers"]
      by (simp add: offer_key_def inj_on_def comp_def)
    then show ?thesis using distinct_map [of last "map offer_key offers"] by (simp add: comp_def)
  qed
  ultimately have "sorted_wrt (<) (map offer_key offers)" by (simp add: strict_sorted_iff)
  then show "sorted_wrt (\<lambda>a b. offer_key a < offer_key b) offers" by (simp add: sorted_wrt_map)
qed

text \<open>C14. The offers of a hotel are listed strictly by the comparison key: the bookable ones first, by amount, by the
  completeness of the cost, by a stated policy and by the provider's order; the primary offer is the first. They are
  in one currency, the hotel's own as soon as some comparable offer is in it, with no two of one fingerprint, and
  every comparable offer in that currency is listed by the first offer of its fingerprint.
\<close>

theorem offers_listed_cheapest_bookable_first:
  assumes "double_offers hotel"
  defines "selection \<equiv> select_hotel_offers hotel"
  shows "sorted_wrt (\<lambda>a b. offer_key a < offer_key b) (ol_offers selection) \<and>
    ol_primary selection = js_first (ol_offers selection) \<and> ol_alternatives selection = length (ol_offers selection) - 1 \<and>
    (\<forall>c \<in> set (ol_offers selection). co_currency c = comparison_currency hotel) \<and>
    distinct (map create_fingerprint (ol_offers selection)) \<and>
    (\<forall>c \<in> set (in_currency hotel). \<exists>d \<in> set (ol_offers selection).
       create_fingerprint d = create_fingerprint c \<and> co_index d \<le> co_index c)"
proof -
  note s = selected_list [OF assms(1), folded selection_def]
  have rep: "\<exists>d \<in> set (ol_offers selection). create_fingerprint d = create_fingerprint c \<and> co_index d \<le> co_index c"
    if "c \<in> set (in_currency hotel)" for c
    unfolding s(1) by (rule first_by_key_represents [OF that in_currency_index]) auto
  moreover have "\<forall>c \<in> set (ol_offers selection). co_currency c = comparison_currency hotel"
    using s(2) by (auto simp: in_currency_def)
  moreover have "ol_primary selection = js_first (ol_offers selection)" "ol_alternatives selection = length (ol_offers selection) - 1"
    by (simp_all add: selection_def select_offers Let_def)
  ultimately show ?thesis using s(4,5) by blast
qed

section \<open>Room names\<close>

definition word_list :: "string list \<Rightarrow> bool" where
  "word_list ws \<longleftrightarrow> (\<forall>w \<in> set ws. w \<noteq> [] \<and> list_all is_word_char w)"

lemma word_list_simps [simp]: "word_list []" "word_list (w # ws) \<longleftrightarrow> w \<noteq> [] \<and> list_all is_word_char w \<and> word_list ws"
  by (auto simp: word_list_def)

lemma words_of_words: "list_all is_word_char acc \<Longrightarrow> word_list (words_of acc s)"
proof (induction s arbitrary: acc)
  case Nil
  then show ?case by (simp add: list_all_rev)
next
  case (Cons c s)
  show ?case
  proof (cases "is_word_char c")
    case True
    with Cons show ?thesis by simp
  next
    case False
    with Cons.prems Cons.IH [of "[]"] show ?thesis by (simp add: list_all_rev)
  qed
qed

lemma word_list_text_words: "word_list (text_words value)"
  unfolding text_words_def by (cases "value") (simp_all add: words_of_words)

lemma words_of_word: "list_all is_word_char w \<Longrightarrow> words_of acc (w @ s) = words_of (rev w @ acc) s"
  by (induction w arbitrary: acc) auto

lemma words_of_join: "word_list ws \<Longrightarrow> words_of [] (join_with '' '' ws) = ws"
proof (induction ws)
  case (Cons w ws)
  then have w: "list_all is_word_char w" "w \<noteq> []" and ws: "word_list ws" by (auto simp: word_list_def)
  have space: "\<not> is_word_char CHR '' ''" by code_simp
  show ?case
  proof (cases ws)
    case Nil
    then show ?thesis using words_of_word [OF w(1), of "[]" "[]"] w(2) by simp
  next
    case (Cons v vs)
    then show ?thesis
      using words_of_word [OF w(1), of "[]" "'' '' @ join_with '' '' ws"] w(2) space Cons.IH [OF ws] by simp
  qed
qed simp

text \<open>Equal room texts have equal words, hence equal tiers.\<close>

lemma room_text_tier: "room_text a = room_text b \<Longrightarrow> classify_room_tier a = classify_room_tier b"
proof -
  assume "room_text a = room_text b"
  then have "text_words a = text_words b"
    unfolding room_text_def by (metis words_of_join word_list_text_words)
  then show ?thesis by (simp add: classify_room_tier_def)
qed

lemma room_tier_compatible_rank:
  "is_room_tier_compatible c b \<Longrightarrow>
     get_room_tier_rank (ho_room_name (co_offer b)) \<le> get_room_tier_rank (ho_room_name (co_offer c))"
  using room_text_tier [of "ho_room_name (co_offer c)" "ho_room_name (co_offer b)"]
  by (auto simp: is_room_tier_compatible_def get_room_tier_rank_def Let_def split: if_splits)

section \<open>The premium\<close>

fun premium_cap :: "preference_id \<Rightarrow> jsnum" where
  "premium_cap MaximumComfort = Fin 75"
| "premium_cap Comfort = Fin 50"
| "premium_cap Balanced = Fin 25"
| "premium_cap _ = Fin 0"

fun premium_ratio_cap :: "preference_id \<Rightarrow> jsnum" where
  "premium_ratio_cap MaximumComfort = lit 0.08"
| "premium_ratio_cap Comfort = lit 0.05"
| "premium_ratio_cap Balanced = lit 0.025"
| "premium_ratio_cap _ = Fin 0"

definition evaluated_context :: "(string \<Rightarrow> jsnum) \<Rightarrow> flexibility_context option \<Rightarrow> bool" where
  "evaluated_context date_parse flexibility \<longleftrightarrow>
     (case flexibility of None \<Rightarrow> True | Some ctx \<Rightarrow> \<exists>inp. ctx = evaluate_booking_flexibility_context date_parse inp)"

lemma scaled_at_most:
  assumes "m \<le> Fin 1" and "Fin 0 \<le> m" and "double c" and "0 < c"
  shows "Fin c * m \<le> Fin c"
proof -
  obtain r where r: "m = Fin r" "0 \<le> r" "r \<le> 1" using assms(1,2) by (cases m) auto
  then have "c * r \<le> c" using assms(4) by (simp add: mult_left_le)
  with assms(3) show ?thesis by (simp add: r(1) rnd_le_double)
qed

lemma premium_literals: "0 < c \<Longrightarrow> Fin c = lit q \<Longrightarrow> Fin 0 \<le> m \<Longrightarrow> m \<le> Fin 1 \<Longrightarrow> Fin c * m \<le> Fin c"
  by (metis scaled_at_most rnd_double)

lemma context_multiplier:
  assumes "evaluated_context date_parse flexibility"
  defines "m \<equiv> (case flexibility of None \<Rightarrow> Fin 1 | Some f \<Rightarrow> fc_premium_multiplier f)"
  shows "Fin 0 \<le> m \<and> m \<le> Fin 1"
proof (cases flexibility)
  case (Some ctx)
  then obtain inp where c: "ctx = evaluate_booking_flexibility_context date_parse inp"
    using assms(1) by (auto simp: evaluated_context_def)
  have "fc_premium_multiplier ctx = premium_multiplier (penalty_multiplier (fc_lead_time_band ctx) (fc_market ctx))"
    unfolding c by (rule context_parts [of inp date_parse]) simp
  then have "lit 0.35 \<le> m \<and> m \<le> Fin 1" unfolding m_def Some option.case using multiplier_bounds(2) by simp
  moreover have "Fin 0 \<le> lit 0.35" unfolding multiplier_literals by simp
  ultimately show ?thesis using jsnum_le_trans by blast
qed (simp add: m_def)

lemma policy_literals:
  "lit 0.08 = Fin (5764607523034235 / 72057594037927936)" "lit 0.05 = Fin (3602879701896397 / 72057594037927936)"
  "lit 0.025 = Fin (3602879701896397 / 144115188075855872)"
  by code_simp+

lemma policy_within_caps:
  fixes preference
  assumes "evaluated_context date_parse flexibility"
  defines "policy \<equiv> resolve_offer_policy preference flexibility" and "p \<equiv> normalize_preference_id preference"
  shows "op_premium_amount policy \<le> premium_cap p \<and> op_premium_ratio policy \<le> premium_ratio_cap p \<and>
    op_flexible policy = (p \<in> {Balanced, Comfort, MaximumComfort}) \<and> op_preference policy = p"
proof -
  define m where "m = (case flexibility of None \<Rightarrow> Fin 1 | Some f \<Rightarrow> fc_premium_multiplier f)"
  have m: "Fin 0 \<le> m" "m \<le> Fin 1" unfolding m_def using context_multiplier [OF assms(1)] by simp_all
  have i: "Fin 75 * m \<le> Fin 75" "Fin 50 * m \<le> Fin 50" "Fin 25 * m \<le> Fin 25"
    using scaled_at_most [OF m(2,1)] double_of_int [of 75] double_of_int [of 50] double_of_int [of 25] by simp_all
  have r: "lit 0.08 * m \<le> lit 0.08" "lit 0.05 * m \<le> lit 0.05" "lit 0.025 * m \<le> lit 0.025"
    unfolding policy_literals
    by (rule premium_literals [OF _ policy_literals(1) [symmetric] m] premium_literals [OF _ policy_literals(2) [symmetric] m]
        premium_literals [OF _ policy_literals(3) [symmetric] m], simp)+
  show ?thesis
    unfolding policy_def resolve_offer_policy_def Let_def m_def [symmetric] p_def [symmetric]
    by (cases p) (use i r in simp_all)
qed

section \<open>The order of the upgrades\<close>

text \<open>
  The comparison of two upgrades as a key: a deadline that is still ahead, a more complete cost, a higher room
  tier, a lower amount, the place in the provider's list.
\<close>

definition upgrade_key :: "(string \<Rightarrow> jsnum) \<Rightarrow> string option \<Rightarrow> comparable_offer \<Rightarrow> rat list" where
  "upgrade_key date_parse reference_at c =
     [if has_valid_cancellation_deadline date_parse (co_offer c) reference_at then 0 else 1,
      of_nat (completeness_priority (co_completeness c)), - of_nat (get_room_tier_rank (ho_room_name (co_offer c))),
      fin_val (co_amount c), of_nat (co_index c)]"

lemma js_or_grid_pos:
  "on_grid p \<Longrightarrow> on_grid q \<Longrightarrow> Fin 0 < js_or (Fin p - Fin q) r \<longleftrightarrow> q < p \<or> p = q \<and> Fin 0 < r"
  using rnd_pos_iff [OF on_grid_diff, of p q] rnd_zero_iff [of p q] by (auto simp: js_or_def)

lemma on_grid_of_nat: "on_grid (of_nat n)"
  using on_grid_of_int [of "int n"] by simp

lemma js_or_nat_pos: "Fin 0 < js_or (Fin (of_nat m) - Fin (of_nat n)) r \<longleftrightarrow> n < m \<or> m = n \<and> Fin 0 < r"
  using js_or_grid_pos [OF on_grid_of_nat on_grid_of_nat, of m n r] by (simp del: minus_Fin)

lemma js_or_bool_pos: "Fin 0 < js_or (bool_number a - bool_number b) r \<longleftrightarrow> a \<and> \<not> b \<or> a = b \<and> Fin 0 < r"
  using js_or_nat_pos [of "of_bool a" "of_bool b" r] by (cases a; cases b) (simp_all add: bool_number_def del: minus_Fin)

lemma compare_upgrades_pos:
  assumes "a \<in> priced_offers" and "b \<in> priced_offers"
  shows "Fin 0 < compare_upgrades date_parse reference_at a b \<longleftrightarrow>
    upgrade_key date_parse reference_at b < upgrade_key date_parse reference_at a"
proof -
  obtain p q where p: "co_amount a = Fin p" "co_amount b = Fin q" "on_grid p" "on_grid q"
    using assms by (auto simp: priced_offers_def)
  show ?thesis
    unfolding compare_upgrades_def upgrade_key_def p(1,2) js_or_bool_pos js_or_nat_pos js_or_grid_pos [OF p(3,4)]
      nat_difference_pos fin_val.simps
    by auto
qed

lemma upgrade_order: "comparator (compare_upgrades date_parse reference_at) priced_offers"
  by unfold_locales (auto simp: compare_upgrades_pos)

section \<open>The choice\<close>

lemma choose_primary_cases:
  assumes "choose_primary date_parse offers policy flexibility = (primary, mode, codes)"
  defines "reference_at \<equiv> Option.bind flexibility fc_reference_at"
  shows "mode = LowestPrice \<and> primary = js_first offers \<and>
      (\<forall>b. js_first offers = Some b \<longrightarrow> \<not> op_flexible policy \<or> ho_refundable (co_offer b) = Some True \<or>
         filter (\<lambda>c. is_flexible_upgrade c b policy) offers = []) \<or>
    mode = IntentAwareFlexibility \<and> op_flexible policy \<and> (\<exists>b c. js_first offers = Some b \<and> primary = Some c \<and>
      ho_refundable (co_offer b) \<noteq> Some True \<and>
      js_first (js_sort (compare_upgrades date_parse reference_at) (filter (\<lambda>c. is_flexible_upgrade c b policy) offers)) = Some c)"
proof (cases "js_first offers")
  case None
  then show ?thesis using assms(1) by (auto simp: choose_primary_def Let_def)
next
  case (Some b)
  show ?thesis
  proof (cases "\<not> op_flexible policy \<or> ho_refundable (co_offer b) = Some True")
    case True
    then show ?thesis using assms(1) Some by (auto simp: choose_primary_def Let_def)
  next
    case False
    note c = assms(1) [unfolded choose_primary_def Let_def Some option.case reference_at_def [symmetric] if_not_P [OF False]]
    show ?thesis
    proof (cases "js_first (js_sort (compare_upgrades date_parse reference_at) (filter (\<lambda>c. is_flexible_upgrade c b policy) offers))")
      case None
      then show ?thesis using c Some by auto
    next
      case (Some a)
      have "primary = Some a" "mode = IntentAwareFlexibility" using c [unfolded Some option.case] by simp_all
      then show ?thesis using False \<open>js_first offers = Some b\<close> Some by simp
    qed
  qed
qed

text \<open>An upgrade that keeps what the cheapest offer promises, at a premium within the preference's caps.\<close>

definition safe_upgrade :: "preference_id \<Rightarrow> comparable_offer \<Rightarrow> comparable_offer \<Rightarrow> bool" where
  "safe_upgrade p baseline c \<longleftrightarrow>
     p \<in> {Balanced, Comfort, MaximumComfort} \<and> ho_bookable (co_offer c) \<and> ho_bookable (co_offer baseline) \<and>
     ho_refundable (co_offer c) = Some True \<and> ho_refundable (co_offer baseline) \<noteq> Some True \<and>
     co_currency c = co_currency baseline \<and>
     completeness_priority (co_completeness c) \<le> completeness_priority (co_completeness baseline) \<and>
     get_room_tier_rank (ho_room_name (co_offer baseline)) \<le> get_room_tier_rank (ho_room_name (co_offer c)) \<and>
     co_amount baseline \<le> co_amount c \<and> co_amount c - co_amount baseline \<le> premium_cap p \<and>
     js_div (co_amount c - co_amount baseline) (co_amount baseline) \<le> premium_ratio_cap p"

lemma selection_parts:
  fixes date_parse hotel preference flexibility
  defines "s \<equiv> select_intent_aware_offer date_parse hotel preference flexibility"
  shows "os_offers s = ol_offers (select_hotel_offers hotel)"
    and "\<exists>codes. choose_primary date_parse (os_offers s) (resolve_offer_policy preference flexibility) flexibility =
      (os_primary s, os_mode s, codes) \<and>
      os_selected s = create_selected_offer hotel (os_primary s) (os_mode s)
        (codes @ (case flexibility of None \<Rightarrow> [] | Some f \<Rightarrow> fc_reason_codes f))"
proof -
  obtain primary mode codes where c: "choose_primary date_parse (ol_offers (select_hotel_offers hotel))
      (resolve_offer_policy preference flexibility) flexibility = (primary, mode, codes)"
    by (rule prod_cases3)
  note d = s_def [unfolded select_intent_aware_offer_def Let_def c prod.case]
  show "os_offers s = ol_offers (select_hotel_offers hotel)" by (simp add: d)
  show "\<exists>codes. choose_primary date_parse (os_offers s) (resolve_offer_policy preference flexibility) flexibility =
      (os_primary s, os_mode s, codes) \<and>
      os_selected s = create_selected_offer hotel (os_primary s) (os_mode s)
        (codes @ (case flexibility of None \<Rightarrow> [] | Some f \<Rightarrow> fc_reason_codes f))"
    by (rule exI [of _ codes]) (simp add: d c)
qed

lemma sorted_first:
  assumes "sorted_wrt R xs" and "js_first xs = Some x" and "y \<in> set xs" and "\<And>z. R z z"
  shows "R x y"
  using assms by (cases xs) auto

lemma first_offer_key:
  assumes "double_offers hotel" and "js_first (ol_offers (select_hotel_offers hotel)) = Some b"
    and "c \<in> set (ol_offers (select_hotel_offers hotel))"
  shows "offer_key b \<le> offer_key c"
proof (cases "ol_offers (select_hotel_offers hotel)")
  case (Cons x xs)
  then show ?thesis using selected_list(4) [OF assms(1)] assms(2,3) by auto
qed (use assms(2) in simp)

lemma flexible_upgrade_safe:
  assumes "double_offers hotel" and "js_first (ol_offers (select_hotel_offers hotel)) = Some b"
    and "c \<in> set (ol_offers (select_hotel_offers hotel))" and "evaluated_context date_parse flexibility"
    and "op_flexible (resolve_offer_policy preference flexibility)" and "ho_refundable (co_offer b) \<noteq> Some True"
    and up: "is_flexible_upgrade c b (resolve_offer_policy preference flexibility)"
  shows "safe_upgrade (normalize_preference_id preference) b c"
proof -
  note k = first_offer_key [OF assms(1-3)]
  note caps = policy_within_caps [OF assms(4), of preference]
  have p: "b \<in> priced_offers" "c \<in> priced_offers"
    using selected_list(3) [OF assms(1)] js_first_Some_in [OF assms(2)] assms(3) by blast+
  then obtain x y where xy: "co_amount b = Fin x" "co_amount c = Fin y" "on_grid x" "on_grid y"
    by (auto simp: priced_offers_def)
  have u: "ho_bookable (co_offer c)" "ho_refundable (co_offer c) = Some True" "co_currency c = co_currency b"
    "completeness_priority (co_completeness c) \<le> completeness_priority (co_completeness b)"
    "is_room_tier_compatible c b" "is_marginal_premium c b (resolve_offer_policy preference flexibility)"
    using up unfolding is_flexible_upgrade_def by blast+
  have b: "ho_bookable (co_offer b)" using k u(1) by (auto simp: offer_key_def split: if_splits)
  have le: "x \<le> y" using k u(1) b by (auto simp: offer_key_def xy)
  then have "\<not> co_amount c - co_amount b < Fin 0"
    using rnd_nonneg [of "y - x"] by (cases "rnd (y - x)") (auto simp: xy)
  then have "co_amount c - co_amount b \<le> op_premium_amount (resolve_offer_policy preference flexibility)"
    "js_div (co_amount c - co_amount b) (co_amount b) \<le> op_premium_ratio (resolve_offer_policy preference flexibility)"
    using u(6) unfolding is_marginal_premium_def Let_def by blast+
  then have "co_amount c - co_amount b \<le> premium_cap (normalize_preference_id preference)"
    "js_div (co_amount c - co_amount b) (co_amount b) \<le> premium_ratio_cap (normalize_preference_id preference)"
    using caps jsnum_le_trans by blast+
  with u b le caps assms(5,6) room_tier_compatible_rank [OF u(5)] show ?thesis
    by (simp add: safe_upgrade_def xy)
qed

text \<open>C12. An offer that is not the cheapest is only chosen under a preference for comfort or balance, when the cheapest
  bookable offer is not refundable: it is itself bookable and refundable, in the same currency, with no less
  complete a cost and no lower a room tier, and its premium stays within the preference's caps (at most 75, and at
  most 8 percent), whatever hotels, dates and offers the flexibility context was computed from. In every other case
  the choice is the first listed offer.
\<close>

theorem intent_choice_is_safe:
  fixes preference
  assumes "double_offers hotel" and "evaluated_context date_parse flexibility"
  defines "selection \<equiv> select_intent_aware_offer date_parse hotel preference flexibility"
  shows "os_mode selection = LowestPrice \<and> os_primary selection = js_first (os_offers selection) \<or>
    os_mode selection = IntentAwareFlexibility \<and>
      (\<exists>b c. js_first (os_offers selection) = Some b \<and> os_primary selection = Some c \<and> c \<in> set (os_offers selection) \<and>
         safe_upgrade (normalize_preference_id preference) b c)"
proof -
  note o = selection_parts(1) [of date_parse hotel preference flexibility, folded selection_def]
  obtain codes where c: "choose_primary date_parse (os_offers selection) (resolve_offer_policy preference flexibility) flexibility =
      (os_primary selection, os_mode selection, codes)"
    using selection_parts(2) [of date_parse hotel preference flexibility, folded selection_def] by blast
  from choose_primary_cases [OF c] show ?thesis
  proof (elim disjE conjE exE, goal_cases)
    case (2 b c)
    have "c \<in> set (filter (\<lambda>c. is_flexible_upgrade c b (resolve_offer_policy preference flexibility)) (os_offers selection))"
      using js_first_Some_in [OF 2(6)] by (simp only: set_js_sort)
    then have "c \<in> set (os_offers selection)" "is_flexible_upgrade c b (resolve_offer_policy preference flexibility)" by simp_all
    moreover from this have "safe_upgrade (normalize_preference_id preference) b c"
      using flexible_upgrade_safe [OF assms(1) _ _ assms(2) 2(2) 2(5)] 2(3) unfolding o by blast
    ultimately show ?case using 2 by blast
  qed simp
qed

text \<open>C13. An upgrade is chosen exactly when the preference allows one, the first listed offer is not refundable and
  some listed offer qualifies; then the chosen one is the best of those that qualify: a deadline still ahead, then
  the more complete cost, the higher room tier, the lower amount.
\<close>

theorem best_upgrade_is_chosen:
  fixes preference
  assumes "double_offers hotel" and "evaluated_context date_parse flexibility"
  defines "selection \<equiv> select_intent_aware_offer date_parse hotel preference flexibility"
    and "policy \<equiv> resolve_offer_policy preference flexibility"
  assumes "js_first (os_offers selection) = Some b"
  shows "(os_mode selection = IntentAwareFlexibility \<longleftrightarrow>
      normalize_preference_id preference \<in> {Balanced, Comfort, MaximumComfort} \<and> ho_refundable (co_offer b) \<noteq> Some True \<and>
      filter (\<lambda>c. is_flexible_upgrade c b policy) (os_offers selection) \<noteq> []) \<and>
    (os_mode selection = IntentAwareFlexibility \<longrightarrow>
      (\<exists>c. os_primary selection = Some c \<and> is_flexible_upgrade c b policy \<and>
         (\<forall>d \<in> set (os_offers selection). is_flexible_upgrade d b policy \<longrightarrow>
            upgrade_key date_parse (Option.bind flexibility fc_reference_at) c \<le>
            upgrade_key date_parse (Option.bind flexibility fc_reference_at) d)))"
proof -
  note o = selection_parts(1) [of date_parse hotel preference flexibility, folded selection_def]
  obtain codes where c: "choose_primary date_parse (os_offers selection) policy flexibility =
      (os_primary selection, os_mode selection, codes)"
    using selection_parts(2) [of date_parse hotel preference flexibility, folded selection_def policy_def] by blast
  have f: "op_flexible policy \<longleftrightarrow> normalize_preference_id preference \<in> {Balanced, Comfort, MaximumComfort}"
    using policy_within_caps [OF assms(2), of preference, folded policy_def] by blast
  let ?ups = "filter (\<lambda>c. is_flexible_upgrade c b policy) (os_offers selection)"
  have priced: "set ?ups \<subseteq> priced_offers"
    using selected_list(3) [OF assms(1)] by (auto simp: o)
  from choose_primary_cases [OF c] show ?thesis
  proof (elim disjE conjE exE, goal_cases)
    case 1
    then show ?case using assms(5) f by auto
  next
    case (2 b' c)
    then have b: "b' = b" using assms(5) by simp
    note min = comparator.sort_first_minimal [OF upgrade_order priced 2(6) [unfolded b]]
    have i: "c \<in> set ?ups" using js_first_Some_in [OF 2(6) [unfolded b]] by (simp only: set_js_sort)
    have best: "upgrade_key date_parse (Option.bind flexibility fc_reference_at) c \<le>
        upgrade_key date_parse (Option.bind flexibility fc_reference_at) d"
      if "d \<in> set (os_offers selection)" "is_flexible_upgrade d b policy" for d
    proof -
      have d: "d \<in> set ?ups" using that by simp
      have p: "c \<in> priced_offers" "d \<in> priced_offers" using priced i d by blast+
      from min [OF d] show ?thesis unfolding compare_upgrades_pos [OF p] by (simp add: not_less)
    qed
    have "?ups \<noteq> []" using i by (intro notI) (simp only: list.set empty_iff)
    moreover have "is_flexible_upgrade c b policy" using i by simp
    ultimately show ?case using 2 b f best by blast
  qed
qed
section \<open>Comparability\<close>

lemma selected_fields:
  assumes "os_selected (select_intent_aware_offer date_parse hotel preference flexibility) = Some s"
  shows "so_room_tier_rank s = get_room_tier_rank (so_room_name s)" and "so_unknown_taxes s \<noteq> NaN"
proof -
  obtain codes where "create_selected_offer hotel (os_primary (select_intent_aware_offer date_parse hotel preference flexibility))
      (os_mode (select_intent_aware_offer date_parse hotel preference flexibility)) codes = Some s"
    using selection_parts(2) [of date_parse hotel preference flexibility] unfolding assms by metis
  then obtain c where c: "create_selected_offer hotel (Some c)
      (os_mode (select_intent_aware_offer date_parse hotel preference flexibility)) codes = Some s"
    by (cases "os_primary (select_intent_aware_offer date_parse hotel preference flexibility)")
      (simp_all add: create_selected_offer_def)
  note f = c [unfolded create_selected_offer_def option.map Let_def option.inject, symmetric]
  show "so_room_tier_rank s = get_room_tier_rank (so_room_name s)"
    unfolding f get_room_tier_rank_def by (simp only: selected_offer.select_convs)
  have "get_non_negative_number v \<noteq> NaN" for v
    by (auto simp: get_non_negative_number_def is_fin_iff split: option.splits)
  then show "so_unknown_taxes s \<noteq> NaN" unfolding f by (simp only: selected_offer.select_convs HOL.simp_thms)
qed

text \<open>What a comparable offer keeps of the baseline.\<close>

definition keeps_room :: "selected_offer \<Rightarrow> selected_offer \<Rightarrow> bool" where
  "keeps_room c b \<longleftrightarrow>
     (if 0 < so_room_tier_rank b \<and> 0 < so_room_tier_rank c then so_room_tier_rank b \<le> so_room_tier_rank c
      else room_text (so_room_name c) \<noteq> [] \<and> room_text (so_room_name c) = room_text (so_room_name b))"

definition keeps_terms :: "selected_offer \<Rightarrow> selected_offer \<Rightarrow> bool" where
  "keeps_terms c b \<longleftrightarrow> so_bookable b \<and> so_bookable c \<and> so_currency c = so_currency b \<and>
     (so_refundable b = Some True \<longrightarrow> so_refundable c = Some True) \<and>
     (so_refundable b = Some True \<and> so_free_until b \<noteq> None \<longrightarrow> so_refundable c = Some True \<and> so_free_until c \<noteq> None) \<and>
     completeness_priority (so_completeness c) \<le> completeness_priority (so_completeness b) \<and>
     so_unknown_taxes c \<le> so_unknown_taxes b"

lemma comparable_iff:
  "oc_comparable (compare_selected_offers (Some x) (Some y)) \<longleftrightarrow>
     (\<exists>c b. os_selected x = Some c \<and> os_selected y = Some b \<and> keeps_terms c b \<and> keeps_room c b)"
proof (cases "\<exists>c b. os_selected x = Some c \<and> os_selected y = Some b")
  case True
  then obtain c b where s: "os_selected x = Some c" "os_selected y = Some b" by blast
  have "oc_comparable (compare_selected_offers (Some x) (Some y)) \<longleftrightarrow> keeps_terms c b \<and> keeps_room c b"
    unfolding compare_selected_offers_def Let_def bind.simps s prod.case option.case offer_comparability.select_convs
      keeps_terms_def keeps_room_def by blast
  with s show ?thesis by simp
next
  case False
  then show ?thesis
    unfolding compare_selected_offers_def bind.simps
    by (cases "os_selected x"; cases "os_selected y") (simp_all only: prod.case option.case offer_comparability.select_convs, simp_all)
qed

lemma keeps_terms_trans: "keeps_terms a b \<Longrightarrow> keeps_terms b c \<Longrightarrow> keeps_terms a c"
  unfolding keeps_terms_def using jsnum_le_trans le_trans by (elim conjE, intro conjI) (blast, blast, simp, blast, blast, blast, blast)

lemma keeps_room_trans:
  assumes "\<And>x. x \<in> {a, b, c} \<Longrightarrow> so_room_tier_rank x = get_room_tier_rank (so_room_name x)"
    and "keeps_room a b" and "keeps_room b c"
  shows "keeps_room a c"
proof -
  have t: "so_room_tier_rank x = so_room_tier_rank y"
    if "room_text (so_room_name x) = room_text (so_room_name y)" "x \<in> {a, b, c}" "y \<in> {a, b, c}" for x y
    using room_text_tier [OF that(1)] assms(1) [OF that(2)] assms(1) [OF that(3)] by (simp add: get_room_tier_rank_def)
  show ?thesis
    using assms(2,3) t [of a b] t [of b c] unfolding keeps_room_def by (auto split: if_splits)
qed

text \<open>C38. Commercial comparability is transitive on the offers the engine selects: when an offer gives up nothing
  against a second one, and the second nothing against a third, the first gives up nothing against the third.
\<close>

theorem comparability_is_transitive:
  fixes date_parse
  defines "select \<equiv> select_intent_aware_offer date_parse"
  assumes "oc_comparable (compare_selected_offers (Some (select h1 p1 f1)) (Some (select h2 p2 f2)))"
    and "oc_comparable (compare_selected_offers (Some (select h2 p2 f2)) (Some (select h3 p3 f3)))"
  shows "oc_comparable (compare_selected_offers (Some (select h1 p1 f1)) (Some (select h3 p3 f3)))"
proof -
  obtain a b where ab: "os_selected (select h1 p1 f1) = Some a" "os_selected (select h2 p2 f2) = Some b" "keeps_terms a b" "keeps_room a b"
    using assms(2) unfolding comparable_iff by blast
  obtain c where c: "os_selected (select h3 p3 f3) = Some c" "keeps_terms b c" "keeps_room b c"
    using assms(3) ab(2) unfolding comparable_iff by auto
  note r = ab(1,2) [unfolded select_def, THEN selected_fields(1)] c(1) [unfolded select_def, THEN selected_fields(1)]
  have "keeps_room a c" by (rule keeps_room_trans [OF _ ab(4) c(3)]) (use r in auto)
  with ab c keeps_terms_trans [OF ab(3) c(2)] show ?thesis unfolding comparable_iff by blast
qed

section \<open>The cost of a stay\<close>

definition stay_candidates :: "hotel_view \<Rightarrow> stay_cost list" where
  "stay_candidates hotel =
     List.map_filter (\<lambda>offer. create_offer_candidate offer (stay_currency (hv_currency hotel) default_currency)) (hv_offers hotel)"

definition priced_stays :: "stay_cost set" where
  "priced_stays = {c. \<exists>q. sk_amount c = Fin q \<and> on_grid q}"

lemma stay_order_pos:
  "a \<in> priced_stays \<Longrightarrow> b \<in> priced_stays \<Longrightarrow> Fin 0 < sk_amount a - sk_amount b \<longleftrightarrow> sk_amount b < sk_amount a"
  by (rule sub_pos_iff) (auto simp: priced_stays_def)

lemma priced_stays_not_NaN: "a \<in> priced_stays \<Longrightarrow> sk_amount a \<noteq> NaN"
  by (auto simp: priced_stays_def)

interpretation stay_order: comparator "\<lambda>first second. sk_amount first - sk_amount second" priced_stays
proof
  fix x y z
  assume a: "x \<in> priced_stays" "y \<in> priced_stays"
  note n = a [THEN priced_stays_not_NaN]
  show "Fin 0 < sk_amount x - sk_amount y \<Longrightarrow> \<not> Fin 0 < sk_amount y - sk_amount x"
    unfolding stay_order_pos [OF a] stay_order_pos [OF a(2,1)] by (simp add: jsnum_less_le)
  assume z: "z \<in> priced_stays" and s: "\<not> Fin 0 < sk_amount x - sk_amount y" "\<not> Fin 0 < sk_amount y - sk_amount z"
  show "\<not> Fin 0 < sk_amount x - sk_amount z"
    using s jsnum_le_trans n priced_stays_not_NaN [OF z]
    unfolding stay_order_pos [OF a] stay_order_pos [OF a(2) z] stay_order_pos [OF a(1) z] by (metis jsnum_not_less)
qed

lemma stay_candidates_priced:
  assumes "double_offers hotel"
  shows "set (stay_candidates hotel) \<subseteq> priced_stays"
proof
  fix c assume "c \<in> set (stay_candidates hotel)"
  then obtain offer where o: "offer \<in> set (hv_offers hotel)"
    "create_offer_candidate offer (stay_currency (hv_currency hotel) default_currency) = Some c"
    by (auto simp: stay_candidates_def map_filter_def)
  then have "get_comparable_offer_amount offer = Some (sk_amount c)"
    by (auto simp: create_offer_candidate_def split: option.splits)
  moreover have "double_number (ho_price offer)" "case ho_total_known offer of None \<Rightarrow> True | Some v \<Rightarrow> double_number v"
    using o(1) assms unfolding double_offers_def by blast+
  ultimately show "c \<in> priced_stays" using offer_amount by (fastforce simp: priced_stays_def)
qed

text \<open>C39. The cost shown for a stay is the least among the hotel's priced offers in its own currency. When none of the
  offers is in that currency, it is the least number among all of them, whatever their currencies.
\<close>

theorem best_stay_cost_is_least:
  assumes "double_offers hotel" and "stay_candidates hotel \<noteq> []"
  defines "own \<equiv> stay_currency (hv_currency hotel) default_currency"
  shows "\<exists>best. get_best_comparable_stay_cost hotel = Some best \<and> best \<in> set (stay_candidates hotel) \<and>
    (if \<exists>c \<in> set (stay_candidates hotel). sk_currency c = own
     then sk_currency best = own \<and> (\<forall>c \<in> set (stay_candidates hotel). sk_currency c = own \<longrightarrow> sk_amount best \<le> sk_amount c)
     else \<forall>c \<in> set (stay_candidates hotel). sk_amount best \<le> sk_amount c)"
proof -
  let ?own = "filter (\<lambda>c. sk_currency c = own) (stay_candidates hotel)"
  define pool where "pool = (if ?own \<noteq> [] then ?own else stay_candidates hotel)"
  let ?sorted = "js_sort (\<lambda>first second. sk_amount first - sk_amount second) pool"
  have g: "get_best_comparable_stay_cost hotel = js_first ?sorted"
    using assms(2) by (simp only: get_best_comparable_stay_cost_def Let_def stay_candidates_def own_def pool_def if_False)
  have ne: "pool \<noteq> []" using assms(2) by (simp add: pool_def)
  then obtain best where best: "js_first ?sorted = Some best" by (cases ?sorted) (auto simp: js_first_def)
  have priced: "set pool \<subseteq> priced_stays"
    using stay_candidates_priced [OF assms(1)] by (auto simp: pool_def)
  have i: "best \<in> set pool" using js_first_Some_in [OF best] by simp
  have least: "sk_amount best \<le> sk_amount c" if c: "c \<in> set pool" for c
  proof -
    have p: "best \<in> priced_stays" "c \<in> priced_stays" using i c priced by blast+
    show ?thesis
      using stay_order.sort_first_minimal [OF priced best c] p [THEN priced_stays_not_NaN]
      unfolding stay_order_pos [OF p] by (simp add: jsnum_not_less)
  qed
  show ?thesis
  proof (intro exI [of _ best] conjI)
    show "get_best_comparable_stay_cost hotel = Some best" by (simp only: g best)
    show "best \<in> set (stay_candidates hotel)" using i by (auto simp: pool_def split: if_splits)
    show "if \<exists>c \<in> set (stay_candidates hotel). sk_currency c = own
     then sk_currency best = own \<and> (\<forall>c \<in> set (stay_candidates hotel). sk_currency c = own \<longrightarrow> sk_amount best \<le> sk_amount c)
     else \<forall>c \<in> set (stay_candidates hotel). sk_amount best \<le> sk_amount c"
      using i least by (auto simp: pool_def filter_empty_conv split: if_splits)
  qed
qed

section \<open>Duplicates that differ in what can be booked\<close>

lemma valid_offersI:
  "i < length (hv_offers hotel) \<Longrightarrow> create_comparable (i, hv_offers hotel ! i) = Some c \<Longrightarrow> c \<in> set (valid_offers hotel)"
  unfolding valid_offers_def map_filter_def
  by (auto simp: in_set_enumerate_eq intro!: image_eqI [of _ _ "(i, hv_offers hotel ! i)"])

lemma set_listed: "set (ol_offers (select_hotel_offers hotel)) = set (first_by_key create_fingerprint (in_currency hotel))"
  by (simp add: select_offers Let_def)

text \<open>Of the comparable offers with one fingerprint, the list has the first only.\<close>

lemma later_duplicate_unlisted:
  assumes "t \<in> set (in_currency hotel)" and "create_fingerprint t = create_fingerprint c" and "co_index t < co_index c"
  shows "c \<notin> set (ol_offers (select_hotel_offers hotel))"
proof
  assume c: "c \<in> set (ol_offers (select_hotel_offers hotel))"
  obtain y where y: "y \<in> set (first_by_key create_fingerprint (in_currency hotel))" "create_fingerprint y = create_fingerprint t"
    "y = t \<or> co_index y < co_index t"
    using first_by_key_represents [OF assms(1) in_currency_index] by blast
  have "inj_on create_fingerprint (set (first_by_key create_fingerprint (in_currency hotel)))"
    using distinct_first_by_key [of create_fingerprint "in_currency hotel"] by (simp add: distinct_map)
  with y(1,2) c assms(2) have "y = c" unfolding set_listed by (auto dest: inj_onD)
  with y(3) assms(3) show False by auto
qed

lemma twin_comparable:
  fixes k
  assumes "create_comparable (j, offer) = Some c" and "has_public_offer_id (offer\<lparr>ho_id := i, ho_bookable := False\<rparr>)"
  defines "t \<equiv> c\<lparr>co_offer := offer\<lparr>ho_id := i, ho_bookable := False\<rparr>, co_index := k\<rparr>"
  shows "create_comparable (k, offer\<lparr>ho_id := i, ho_bookable := False\<rparr>) = Some t" and "create_fingerprint t = create_fingerprint c"
proof -
  have "get_comparable_offer_amount (offer\<lparr>ho_id := i, ho_bookable := False\<rparr>) = get_comparable_offer_amount offer"
    by (simp add: get_comparable_offer_amount_def split: option.split)
  with assms(1,2) show "create_comparable (k, offer\<lparr>ho_id := i, ho_bookable := False\<rparr>) = Some t"
    by (auto simp: create_comparable_def t_def split: if_splits option.splits)
  have "co_offer c = offer" using create_comparable_Some [OF assms(1)] by blast
  then show "create_fingerprint t = create_fingerprint c" by (simp add: create_fingerprint_def t_def Let_def)
qed

lemma only_bookable_index:
  assumes "list_all (\<lambda>x. \<not> P x) (xs @ ys)" and "k < length (xs @ x # ys)" and "P ((xs @ x # ys) ! k)"
  shows "k = length xs"
proof (rule ccontr)
  assume "k \<noteq> length xs"
  then consider "k < length xs" | m where "k = Suc (length xs + m)"
    by (metis linorder_neqE_nat less_imp_Suc_add)
  then have "(xs @ x # ys) ! k \<in> set (xs @ ys)"
  proof cases
    case (2 m)
    then have "m < length ys" using assms(2) by simp
    with 2 show ?thesis by (simp add: nth_append)
  qed (simp add: nth_append)
  with assms(1,3) show False unfolding list_all_iff by blast
qed

text \<open>C40. The fingerprint of an offer leaves out its id and whether it can be booked. Whenever a comparable offer that can be
  booked follows another that differs from it in these two at most and cannot be booked, the bookable one is dropped: it
  is not listed, and what stands for it is an offer no later than the unbookable one. When it is the only
  bookable offer of the hotel, no listed offer can be booked.
\<close>

theorem bookable_duplicate_is_dropped:
  fixes hotel offer i before between after
  defines "twin \<equiv> offer\<lparr>ho_id := i, ho_bookable := False\<rparr>"
  assumes "hv_offers hotel = (before @ twin # between) @ offer # after" and "ho_bookable offer" and "has_public_offer_id twin"
    and "create_comparable (length (before @ twin # between), offer) = Some c" and "co_currency c = comparison_currency hotel"
  shows "c \<in> set (in_currency hotel) \<and> c \<notin> set (ol_offers (select_hotel_offers hotel)) \<and>
    (\<exists>d. d \<in> set (ol_offers (select_hotel_offers hotel)) \<and> create_fingerprint d = create_fingerprint c \<and> co_index d \<le> length before) \<and>
    (list_all (\<lambda>x. \<not> ho_bookable x) (before @ between @ after) \<longrightarrow>
       list_all (\<lambda>d. \<not> ho_bookable (co_offer d)) (ol_offers (select_hotel_offers hotel)))"
proof -
  define t where "t = c\<lparr>co_offer := twin, co_index := length before\<rparr>"
  note tw = twin_comparable [OF assms(5) assms(4) [unfolded twin_def], of "length before", folded twin_def t_def]
  let ?j = "length (before @ twin # between)"
  have j: "?j < length (hv_offers hotel)" "hv_offers hotel ! ?j = offer" unfolding assms(2) by (simp, rule nth_append_length)
  have c: "c \<in> set (in_currency hotel)"
    using valid_offersI [OF j(1), unfolded j(2), OF assms(5)] assms(6) by (simp add: in_currency_def)
  have "length before < length (hv_offers hotel)" "hv_offers hotel ! length before = twin" unfolding assms(2) by simp_all
  from valid_offersI [OF this(1), unfolded this(2), OF tw(1)] have t: "t \<in> set (in_currency hotel)"
    using assms(6) by (simp add: in_currency_def t_def)
  have "co_index c = ?j" using create_comparable_Some [OF assms(5)] by blast
  then have u: "c \<notin> set (ol_offers (select_hotel_offers hotel))"
    by (intro later_duplicate_unlisted [OF t tw(2)]) (simp add: t_def)
  obtain y where "y \<in> set (first_by_key create_fingerprint (in_currency hotel))" "create_fingerprint y = create_fingerprint t"
    "y = t \<or> co_index y < co_index t"
    using first_by_key_represents [OF t in_currency_index] by blast
  then have d: "y \<in> set (ol_offers (select_hotel_offers hotel)) \<and> create_fingerprint y = create_fingerprint c \<and> co_index y \<le> length before"
    using tw(2) by (auto simp: set_listed t_def)
  have "\<not> ho_bookable (co_offer d)"
    if others: "list_all (\<lambda>x. \<not> ho_bookable x) (before @ between @ after)" and d: "d \<in> set (ol_offers (select_hotel_offers hotel))" for d
  proof
    assume b: "ho_bookable (co_offer d)"
    have "d \<in> set (valid_offers hotel)" using d set_first_by_key unfolding set_listed by (fastforce simp: in_currency_def)
    then obtain k where k: "k < length (hv_offers hotel)" "create_comparable (k, hv_offers hotel ! k) = Some d" by (rule valid_offers_in)
    have "list_all (\<lambda>x. \<not> ho_bookable x) ((before @ twin # between) @ after)" using others by (simp add: twin_def)
    moreover have "ho_bookable (hv_offers hotel ! k)" using create_comparable_Some [OF k(2)] b by simp
    ultimately have "k = ?j" using k(1) unfolding assms(2) by (intro only_bookable_index)
    with k(2) j(2) assms(5) u d show False by simp
  qed
  with c u d show ?thesis unfolding list_all_iff by blast
qed
definition unbookable_first_hotel :: hotel_view where
  "unbookable_first_hotel = sample_hotel\<lparr>hv_offers := [sample_offer\<lparr>ho_id := ''offer-9'', ho_bookable := False\<rparr>, sample_offer]\<rparr>"

theorem bookable_duplicate_is_dropped_witness:
  "list_all (\<lambda>d. \<not> ho_bookable (co_offer d)) (ol_offers (select_hotel_offers unbookable_first_hotel))"
proof -
  define c where "c = \<lparr>co_offer = sample_offer, co_amount = Fin 100, co_currency = ''EUR'', co_completeness = CostComplete, co_index = 1\<rparr>"
  have o: "hv_offers unbookable_first_hotel = ([] @ sample_offer\<lparr>ho_id := ''offer-9'', ho_bookable := False\<rparr> # []) @ sample_offer # []"
    by (simp add: unbookable_first_hotel_def)
  have b: "ho_bookable sample_offer" by (simp add: sample_offer_def)
  have p: "has_public_offer_id (sample_offer\<lparr>ho_id := ''offer-9'', ho_bookable := False\<rparr>)" by code_simp
  have "create_comparable (1, sample_offer) = Some c" unfolding c_def by code_simp
  then have cc: "create_comparable (length ([] @ sample_offer\<lparr>ho_id := ''offer-9'', ho_bookable := False\<rparr> # []), sample_offer) = Some c" by simp
  have "comparison_currency unbookable_first_hotel = ''EUR''" by code_simp
  then have cur: "co_currency c = comparison_currency unbookable_first_hotel" by (simp add: c_def)
  show ?thesis using bookable_duplicate_is_dropped [OF o b p cc cur] by simp
qed

section \<open>Witnesses\<close>

lemma sample_double_offers: "double_offers sample_hotel"
  using double_of_int [of 100] double_of_int [of 101]
  by (simp add: double_offers_def sample_hotel_def sample_offer_def sample_flexible_offer_def double_number_def)

text \<open>A hotel whose second offer is refundable, for 101 against 100, under a preference for comfort.\<close>

definition sample_first :: comparable_offer where
  "sample_first = \<lparr>co_offer = sample_offer, co_amount = Fin 100, co_currency = ''EUR'', co_completeness = CostComplete, co_index = 0\<rparr>"

definition sample_second :: comparable_offer where
  "sample_second = \<lparr>co_offer = sample_flexible_offer, co_amount = Fin 101, co_currency = ''EUR'', co_completeness = CostComplete, co_index = 1\<rparr>"

lemma sample_offers: "ol_offers (select_hotel_offers sample_hotel) = [sample_first, sample_second]"
  by code_simp

abbreviation sample_selection :: offer_selection where
  "sample_selection \<equiv> select_intent_aware_offer sample_date_parse sample_hotel (Some ''comfort'') None"

lemma sample_evaluated: "evaluated_context sample_date_parse None"
  by (simp add: evaluated_context_def)

lemma sample_choice: "os_mode sample_selection = IntentAwareFlexibility" "os_primary sample_selection = Some sample_second"
proof -
  let ?choice = "choose_primary sample_date_parse [sample_first, sample_second] (resolve_offer_policy (Some ''comfort'') None) None"
  have c: "fst ?choice = Some sample_second" "fst (snd ?choice) = IntentAwareFlexibility" by code_simp+
  obtain codes where "?choice = (os_primary sample_selection, os_mode sample_selection, codes)"
    using selection_parts(2) [of sample_date_parse sample_hotel "Some ''comfort''" None]
    unfolding selection_parts(1) sample_offers by blast
  with c show "os_mode sample_selection = IntentAwareFlexibility" "os_primary sample_selection = Some sample_second" by simp_all
qed

lemma sample_os_offers: "os_offers sample_selection = [sample_first, sample_second]"
  unfolding selection_parts(1) by (rule sample_offers)

theorem offers_listed_cheapest_bookable_first_witness:
  "ol_primary (select_hotel_offers sample_hotel) = Some sample_first"
  using offers_listed_cheapest_bookable_first [OF sample_double_offers] by (simp only: sample_offers js_first_simps)

theorem intent_choice_is_safe_witness: "safe_upgrade Comfort sample_first sample_second"
proof -
  have p: "normalize_preference_id (Some ''comfort'') = Comfort" by code_simp
  show ?thesis
    using intent_choice_is_safe [OF sample_double_offers sample_evaluated, of "Some ''comfort''"]
    unfolding p sample_choice sample_os_offers js_first_simps by auto
qed

theorem best_upgrade_is_chosen_witness:
  "is_flexible_upgrade sample_second sample_first (resolve_offer_policy (Some ''comfort'') None)"
proof -
  have b: "js_first (os_offers sample_selection) = Some sample_first" by (simp only: sample_os_offers js_first_simps)
  show ?thesis
    using best_upgrade_is_chosen [OF sample_double_offers sample_evaluated b] unfolding sample_choice by auto
qed

theorem comparability_is_transitive_witness:
  "oc_comparable (compare_selected_offers (Some sample_selection) (Some sample_selection))"
proof -
  obtain codes where "os_selected sample_selection = create_selected_offer sample_hotel (Some sample_second) IntentAwareFlexibility codes"
    using selection_parts(2) [of sample_date_parse sample_hotel "Some ''comfort''" None] unfolding sample_choice by blast
  then obtain s where s: "os_selected sample_selection = Some s" and b: "so_bookable s" and r: "so_room_name s = Some ''Twin''"
    by (simp add: create_selected_offer_def Let_def sample_second_def sample_flexible_offer_def sample_offer_def)
  note f = selected_fields [OF s]
  have "get_room_tier_rank (Some ''Twin'') = 2" by code_simp
  then have "keeps_room s s" by (simp add: keeps_room_def f(1) r)
  moreover have "keeps_terms s s" using b f(2) by (simp add: keeps_terms_def)
  ultimately have c: "oc_comparable (compare_selected_offers (Some sample_selection) (Some sample_selection))"
    unfolding comparable_iff using s by blast
  show ?thesis by (rule comparability_is_transitive [OF c c])
qed

theorem best_stay_cost_is_least_witness:
  "\<exists>best. get_best_comparable_stay_cost sample_hotel = Some best \<and> best \<in> set (stay_candidates sample_hotel)"
proof -
  have "stay_candidates sample_hotel \<noteq> []" by code_simp
  from best_stay_cost_is_least [OF sample_double_offers this] show ?thesis by blast
qed

end
