(* ===== verification/Spec2Isabelle.thy ===== *)
theory Spec2Isabelle
  imports ReliabilityGate DataConfidence Risk PeerGroups UserUtility ParetoEngine Promotion SearchScale PriceValue RankingDiversity OfferSelection
begin

text \<open>
  SmartStay ranks places to stay. Engine v2 (\<open>src/src/engine-v2\<close>) is a pipeline of modules, each one function from
  plain data to plain data; engine v3 (\<open>src/src/engine-v3\<close>) compares itself with v2 in the shadow, and a chain of
  reviews decides which requests it may serve. This development models that core logic and proves what makes it
  correct. A stay comes as a list of evidence facts. The reliability gate decides from the facts alone whether the
  stay may be ranked; the data-confidence, risk, peer-group and price-value modules read the facts and the gate's
  verdict; the utility module weighs the dimension scores that other modules computed; the Pareto module compares
  utilities; the ranking module orders the candidates and chooses the visible ones. For each hotel the offer modules list
  the offers that compare, the cheapest bookable first, and choose one under the traveller's preference; how much a
  refundable offer may cost more depends on the flexibility context, which is computed from the dates and the hotels.

  Theories, in the order of imports, and the files they model:

  \<^item> \<open>JsNumber\<close>: numbers. \<open>Prelude\<close>: strings, arrays, \<open>sort\<close>, \<open>Map\<close>, results that may be errors, and the helpers that
    every module declares alike (\<open>clamp\<close>, \<open>round\<close>, \<open>normalizeRatio\<close>, \<open>uniqueSorted\<close>); the locales \<open>comparator\<close> and
    \<open>collation\<close> are the contracts of what is passed to \<open>sort\<close>. \<open>FloatSums\<close>: bounds on the rounding of sums.
  \<^item> \<open>Model\<close>: the data model, \<open>engine-v2/model/smartStayEvaluationV2.ts\<close>.
  \<^item> \<open>ReliabilityGate\<close>: \<open>engine-v2/reliability/reliabilityGate.ts\<close>. \<open>DataConfidence\<close> and \<open>Risk\<close>: the two engines of
    \<open>engine-v2/risk\<close>. \<open>PeerGroups\<close>: \<open>engine-v2/peer-groups/peerGroupModel.ts\<close>. \<open>PriceValue\<close>:
    \<open>engine-v2/price-value/priceValueEngine.ts\<close>. \<open>UserUtility\<close>: \<open>engine-v2/utility/userUtilityEngine.ts\<close>. \<open>ParetoEngine\<close>:
    \<open>engine-v2/pareto/paretoFrontierEngine.ts\<close>.
  \<^item> \<open>Ranking\<close> (the model), \<open>RankingOrder\<close> (comparators, termination, validation, stability bands) and
    \<open>RankingDiversity\<close> (the visible part and the result): \<open>engine-v2/ranking/rankingStabilityDiversityEngine.ts\<close>.
  \<^item> \<open>StableHash\<close>: \<open>engine-v3/contract/stableHashV3.ts\<close> and \<open>reasonCodesV3.ts\<close>. \<open>ShadowComparison\<close> and \<open>Promotion\<close>:
    \<open>engine-v3/promotion/shadowCanaryPromotionV3.ts\<close>. \<open>DecisionTies\<close>: \<open>engine-v3/decision/decisionTieProjectionV3.ts\<close>.
    \<open>SearchScale\<close>: \<open>engine-v3/scale/searchWideScaleCoverageV3.ts\<close>.
  \<^item> \<open>BookingFlexibility\<close>: \<open>engine-v2/flexibility/bookingFlexibilityContextEngine.ts\<close>. \<open>OfferSelection\<close>: \<open>src/utils/stayCost.ts\<close>,
    \<open>src/utils/hotelOfferSelection.ts\<close> and \<open>engine-v2/offers/intentAwareOfferSelectionV2.ts\<close>.
  \<^item> This theory: what spans the gate, the utility, the risk and the ranking.

  How the code is rendered. An interface is a record with a field for each property, a union of string literals a
  datatype, a nullable property an option; an options object has an option per property, so an explicit
  \<open>undefined\<close> and an absent property are one. Where an engine reads only some properties of another engine's
  report, the record holds those. A function that may throw returns a sum with the error, one constructor per
  throw, on the left. A \<open>Map\<close> is an association list in insertion order. A loop over an array is a fold or a
  structural recursion. The one loop whose end is not obvious, that of the ranking, is a \<open>partial_function\<close> on an
  option of rounds; \<open>ranking_returns\<close> shows that it ends for every input, and the results of \<open>evaluate_ranking\<close>
  are stated below \<open>Some\<close>.

  Numbers are doubles: a finite one is \<open>Fin q\<close> with \<open>q\<close> rational, and each operation rounds the exact result to the
  nearest double, ties to even (\<open>rnd\<close>). Claims about scores therefore hold through all roundings and not for exact
  arithmetic only. The sign of zero is not represented; no modelled expression observes it. The type has rationals
  that are no doubles; a theorem that needs it says that its inputs are doubles. Strings are lists of code units below
  256, and comparison with \<open><\<close> is that of code units. A theorem about several hotels compares ids after \<open>trim\<close>, as
  the code does.

  Parameters stand for what ECMA-262 leaves to the host, and for code not read here: \<open>collate\<close>
  (\<open>localeCompare\<close>, assumed a total order that tells different strings apart where an order is claimed), \<open>raise\<close>
  (\<open>**\<close>), \<open>expo\<close> (\<open>Math.exp\<close>), \<open>date_parse\<close> (\<open>Date.parse\<close>; the calendar of \<open>Date.UTC\<close> and the like is computed), \<open>log2\<close> and \<open>ln_of\<close> (\<open>Math.log\<close>), assumed monotone only where a claim says so, and
  the validator of the offline evaluation in \<open>Promotion\<close>. Printing a number (\<open>number_string\<close> in \<open>StableHash\<close>) uses two bounds: the decimal
  exponent is searched downwards from 310 in at most 650 steps, and every double lies between \<open>10^-324\<close> and \<open>10^309\<close>; the
  digits are tried from one to 17, and 17 digits identify a double.

  What the groups of lemmas show:

  \<^item> gate, confidence and risk: when a stay is admitted (\<open>gate_eligible_iff\<close>, \<open>gate_eligible_sound\<close>), what the
    levels mean, that reports of other engines never lower a risk, and that an ineligible stay is of high risk;
  \<^item> peer groups and prices: members are exactly the comparable stays, the group id identifies the group, quartiles
    are in order, a dearer stay never scores better, a result does not depend on the order of its input;
  \<^item> utility and Pareto: the weighted mean stays within the scores it averages and is monotone; the frontier is exactly the
    undominated candidates and covers the others unless dominance has a cycle, which the default options allow;
  \<^item> ranking: every ranking lists every hotel once; stability bands are the greedy partition of the base order and keep
    the previous order within; the visible part respects its limits and is filled, variety costs at most the sacrifice,
    role anchors keep their place; evaluations agree with the lists; the invariant of the loop is \<open>diversity_inv\<close>;
  \<^item> offers: the list is strictly sorted, in one currency, and represents every comparable offer by the first of its
    fingerprint; an upgrade is chosen exactly when one qualifies, is the best of those, and gives nothing up against the
    cheapest offer within the premium caps, for every flexibility context the engine computes; comparability of selected
    offers is transitive; the lead time is an exact number of calendar days; the counts and multipliers of the context
    agree. A bookable offer after an unbookable twin is always dropped, and a hotel without an offer in its own currency
    gets the least number of any currency;
  \<^item> engine v3: the review, authorization and assignment of requests refine an abstract admission
    (\<open>v3_serves_exactly_admitted\<close>); records that the code seals validate, under the locale \<open>sealed_record\<close>; pruning a large
    search by sound bounds loses no strong candidate; ties resolve independently of arrival; stable serialisation is
    injective.

  Witnesses apply each theorem with hypotheses to a concrete input. The samples are small on purpose: they are evaluated in
  the logic.

  Not modelled. The location, quality, comfort, recommendation-role, budget-intent, market-context and
  upgrade engines: their results enter here as reports, and each is a further scoring module of the same kind. The
  evidence and category models normalise provider records by text patterns. Explanations and the frontend adapter produce
  text and view models; the orchestrator composes all engines, so it waits for the missing ones. The remaining
  modules of engine v3 (contracts, integrity, safety governor, decision science, evaluation pipelines) are hashing, replay and
  review records over files, or research code on top of the modelled parts. The user interface, the server, the
  scripts and the tests are input and output, another language, or tooling.
\<close>

section \<open>From the gate to the risk\<close>

lemma gate_ineligible_status:
  "\<not> gate_eligible (evaluate_reliability_gate ev gopts) \<Longrightarrow>
     gate_status (evaluate_reliability_gate ev gopts) \<in> {GateInvalid, GateLowConfidence}"
  by (cases ev gopts rule: gate_cases) (auto simp: create_gate_result_def)

text \<open>A stay that the reliability gate does not admit is of high risk under the default thresholds, with
  a score of at least 75, whatever the other engines report and however few factors apply.\<close>

theorem ineligible_stays_are_high_risk:
  assumes "ri_gate input = evaluate_reliability_gate evidence gopts"
    and "\<not> gate_eligible (ri_gate input)"
    and "ro_medium_threshold opts = None" and "ro_high_threshold opts = None"
  shows "risk_level (evaluate_risk collate input opts) = RiskHigh \<and>
    Fin 75 \<le> risk_score (evaluate_risk collate input opts)"
proof -
  have "gate_status (ri_gate input) \<in> {GateInvalid, GateLowConfidence}"
    using assms(1,2) gate_ineligible_status by simp
  then have s: "Fin 75 \<le> risk_score (evaluate_risk collate input opts)"
    by (auto simp: risk_score_total capped_score_def)
  have "risk_threshold None (Fin 30) = Fin 30" "risk_threshold None (Fin 60) = Fin 60"
    by (simp_all add: risk_threshold_def clamp_def js_max_def js_min_def)
  then have "get_risk_level x (risk_threshold None (Fin 30))
      (js_max (risk_threshold None (Fin 30)) (risk_threshold None (Fin 60))) = RiskHigh" if "Fin 75 \<le> x" for x
    using that by (cases x) (simp_all add: get_risk_level_def js_max_def)
  with s show ?thesis by (simp add: risk_level_fields assms(3,4) Let_def)
qed

definition unknown_stay :: risk_input where
  "unknown_stay = sample_risk_input\<lparr>ri_evidence := [], ri_gate := evaluate_reliability_gate [] (sample_options (Fin 1))\<rparr>"

lemma ineligible_stays_are_high_risk_witness:
  "risk_level (evaluate_risk compare_strings unknown_stay default_risk_options) = RiskHigh"
proof -
  have "\<not> gate_eligible (evaluate_reliability_gate [] (sample_options (Fin 1)))"
    by (simp add: gate_eligible_eq critical_fields_ok_def field_ok_def get_known_fact_def get_facts_by_code_def)
  then show ?thesis
    using ineligible_stays_are_high_risk [of unknown_stay "[]" "sample_options (Fin 1)" default_risk_options compare_strings]
    by (simp add: unknown_stay_def default_risk_options_def)
qed

section \<open>From the gate and the risk to the ranking\<close>

lemma listed_iff_eligible:
  assumes "evaluate_ranking ln_of input opts = Some (Inr ev)" and "c \<in> set (rin_candidates input)"
  shows "trimmed_id c \<in> set (rv_visible ev @ rv_additional ev) \<longleftrightarrow> rc_eligible (normalize_ranking_candidate c)"
proof -
  let ?ro = "resolve_ranking_options opts"
  from ranking_state [OF assms(1)] obtain bands stables visible additional st s where ok: "ranking_input_ok input"
    and b: "create_stability_bands (filter rc_eligible (base_candidates input)) (previous_order_of (rin_previous input)) ?ro = (bands, stables)"
    and ev: "ev = ranking_result ?ro (base_candidates input) bands stables visible additional (dv_metadata st)"
    and v: "visible = take (visible_limit opts) (dv_selected st)"
      "additional = filter (\<lambda>c. sc_hotel_id c \<notin> set (map sc_hotel_id visible)) stables"
    and inv: "diversity_inv (Fin s) (duplicate_limit opts) stables (select_role_anchors stables ?ro) st"
    and d: "distinct (map sc_hotel_id stables)"
    by metis
  have lists: "set (rv_visible ev @ rv_additional ev) = sc_hotel_id ` set stables"
    unfolding ev ranking_result_fields map_append [symmetric] mset_eq_setD [OF visible_part(3) [OF inv d v]] by simp
  show ?thesis
  proof
    assume "trimmed_id c \<in> set (rv_visible ev @ rv_additional ev)"
    then obtain t where t: "t \<in> set stables" "sc_hotel_id t = trimmed_id c" unfolding lists by auto
    obtain e where e: "e \<in> set (rin_candidates input)" "sc_candidate t = normalize_ranking_candidate e"
      "rc_eligible (normalize_ranking_candidate e)" by (rule input_of_stable [OF b t(1)])
    have "trimmed_id e = trimmed_id c" using t(2) e(2) by simp
    with e(3) input_id_unique [OF ok e(1) assms(2)] show "rc_eligible (normalize_ranking_candidate c)" by blast
  next
    assume "rc_eligible (normalize_ranking_candidate c)"
    then obtain t where "t \<in> set stables" "sc_candidate t = normalize_ranking_candidate c"
      by (rule stable_of_input [OF b assms(2)])
    then have "sc_hotel_id t = trimmed_id c" "t \<in> set stables" by simp_all
    then show "trimmed_id c \<in> set (rv_visible ev @ rv_additional ev)" unfolding lists by (metis imageI)
  qed
qed

text \<open>C32. A stay that the ranking shows, among the visible or the additional results, passed the checks before it:
  when its utility was computed under the verdict of the reliability gate on its evidence, then that evidence
  establishes all critical fields, the stay has a utility score, and its risk is not high.\<close>

theorem shown_stays_passed_every_gate:
  assumes "evaluate_ranking ln_of input opts = Some (Inr ev)" and "c \<in> set (rin_candidates input)"
    and "trimmed_id c \<in> set (rv_visible ev @ rv_additional ev)"
    and "evaluate_user_utility stay uopts = Inr (rk_utility c)" and "input_gate stay = evaluate_reliability_gate evidence gopts"
  shows "critical_fields_ok evidence (minimum_critical_confidence gopts) \<and> utility_score (rk_utility c) \<noteq> None \<and>
    risk_level (rk_risk c) \<noteq> RiskHigh \<and> \<not> (is_fin (risk_score (rk_risk c)) \<and> Fin 60 \<le> risk_score (rk_risk c))"
proof -
  have "rc_eligible (normalize_ranking_candidate c)" using listed_iff_eligible [OF assms(1,2)] assms(3) by blast
  then have u: "util_eligible (rk_utility c)" and level: "risk_level (rk_risk c) \<noteq> RiskHigh"
    and score: "clamp (if is_fin (risk_score (rk_risk c)) then risk_score (rk_risk c) else Fin 100) (Fin 0) (Fin 100) < Fin 60"
    by (simp_all add: normalize_ranking_candidate_def Let_def)
  have "gate_eligible (input_gate stay)" and "utility_score (rk_utility c) \<noteq> None"
    using u evaluate_user_utility_Inr [OF assms(4)] by metis+
  moreover have "\<not> (is_fin (risk_score (rk_risk c)) \<and> Fin 60 \<le> risk_score (rk_risk c))"
    using score by (cases "risk_score (rk_risk c)") (auto simp: clamp_def js_min_def js_max_def split: if_splits)
  ultimately show ?thesis using level unfolding assms(5) gate_eligible_eq by blast
qed

lemma gate_eligible_status:
  "gate_eligible (evaluate_reliability_gate ev gopts) \<Longrightarrow> gate_status (evaluate_reliability_gate ev gopts) \<noteq> GateInvalid"
  by (cases ev gopts rule: gate_cases) (auto simp: create_gate_result_def)

definition admitted_stay :: utility_input where
  "admitted_stay = (sample_utility_input 60)\<lparr>input_gate := evaluate_reliability_gate sample_evidence (sample_options (Fin (1/2)))\<rparr>"

lemma shown_stays_passed_every_gate_witness:
  "\<exists>u ev. evaluate_user_utility admitted_stay sample_utility_options = Inr u \<and>
     evaluate_ranking (\<lambda>_. Fin 0) \<lparr>rin_candidates = [(sample_stay ''h'' 90 None Unassigned)\<lparr>rk_utility := u\<rparr>], rin_previous = []\<rparr>
       (sample_ranking_options 2) = Some (Inr ev) \<and>
     critical_fields_ok sample_evidence (minimum_critical_confidence (sample_options (Fin (1/2)))) \<and> utility_score u \<noteq> None"
proof -
  have gate: "gate_eligible (input_gate admitted_stay)" "gate_status (input_gate admitted_stay) \<noteq> GateInvalid"
    using sample_eligible gate_eligible_status [OF sample_eligible] by (simp_all add: admitted_stay_def)
  obtain u where u: "evaluate_user_utility admitted_stay sample_utility_options = Inr u"
    using evaluate_defined [of admitted_stay sample_utility_options] sample_weights
    by (auto simp: admitted_stay_def sample_utility_input_def js_blank_iff js_space_def)
  have weight: "available_weight (normalized_dimensions (input_scores admitted_stay)) half_weights = Fin 1"
    using rnd_of_int [of 1]
    by (simp add: available_weight_def available_dimensions_def dimension_codes_def half_weights_def
        js_sum_def rnd_half normalized_dimensions_def sample_scores_def admitted_stay_def sample_utility_input_def
        sample_dimension_def missing_dimension_def normalize_dimension_def)
  have "util_hotel_id u = ''h'' \<and> util_status u \<noteq> UtilityInvalid \<and> util_status u \<noteq> UtilityUnavailable \<and> util_eligible u"
    using u weight gate sample_weights
    by (auto simp: evaluate_user_utility_def Let_def utility_status_of_def raw_score_def admitted_stay_def
        sample_utility_input_def js_trim_def js_space_def split: if_splits prod.splits)
  note u = u this
  let ?c = "(sample_stay ''h'' 90 None Unassigned)\<lparr>rk_utility := u\<rparr>"
  let ?input = "\<lparr>rin_candidates = [?c], rin_previous = []\<rparr>"
  have id: "trimmed_id ?c = ''h''" by (simp add: sample_stay_def js_trim_def js_space_def)
  then have "ranking_input_ok ?input"
    using u(2) by (simp add: ranking_input_ok_def candidate_ids_ok_def component_hotel_ids_def same_preferences_def sample_stay_def)
  then have "validate_ranking_input ?input = Inr ()" by (simp add: validate_ranking_input_iff)
  then obtain ev where ev: "evaluate_ranking (\<lambda>_. Fin 0) ?input (sample_ranking_options 2) = Some (Inr ev)"
    using ranking_outcome_defined by (fastforce simp: evaluate_ranking_def)
  have "get_candidate_score ?c = Some (clamp (Fin 90) (Fin 0) (Fin 100))"
    by (simp add: get_candidate_score_def finite_score_def sample_stay_def)
  then have "rc_eligible (normalize_ranking_candidate ?c)"
    using u by (simp add: normalize_ranking_candidate_def Let_def sample_stay_def clamp_def js_min_def js_max_def)
  then have "trimmed_id ?c \<in> set (rv_visible ev @ rv_additional ev)"
    using listed_iff_eligible [OF ev, of ?c] by simp
  moreover have "input_gate admitted_stay = evaluate_reliability_gate sample_evidence (sample_options (Fin (1/2)))"
    by (simp add: admitted_stay_def)
  ultimately have "critical_fields_ok sample_evidence (minimum_critical_confidence (sample_options (Fin (1/2)))) \<and> utility_score u \<noteq> None"
    using shown_stays_passed_every_gate [OF ev, of ?c admitted_stay sample_utility_options sample_evidence "sample_options (Fin (1/2))"] u(1)
    by simp
  with u(1) ev show ?thesis by blast
qed

end
